(* ===== verification/Prelude.thy ===== *)
theory Prelude
  imports Complex_Main "HOL-Library.AList" "HOL-Library.Multiset"
begin

text \<open>
  Shared vocabulary of the development: the Python values that cross a serialisation
  boundary, the exceptions the modelled packages raise or catch, results as sums, the
  named collections the component theories add their facts to, and the generic lemmas on
  lists, maps and cardinalities they share.
\<close>

section \<open>Named collections\<close>

named_theorems key_simps \<open>the Redis key families, unfolded and told apart\<close>
named_theorems view_simps \<open>what a Redis command does to the observable store\<close>
named_theorems frame_simps \<open>what an operation leaves alone\<close>

section \<open>Python values, exceptions and results\<close>

text \<open>
  The values the code hands to \<open>json.dumps\<close>, to Redis and to the Django cache.
  \<open>PJson v\<close> is the text \<open>json.dumps(v)\<close>; every other text is \<open>PStr\<close>. Floats are reals.
\<close>

datatype pyval =
    PNone
  | PBool bool
  | PInt int
  | PFloat real
  | PStr string
  | PList "pyval list"
  | PDict "(string \<times> pyval) list"
  | PJson pyval

type_synonym pydict = "(string \<times> pyval) list"

datatype exn =
    ValueError
  | TypeError
  | KeyError
  | ValidationError
  | RedisError
  | ScriptError
  | RoutingError
  | QueueError
  | NotImplementedError
  | PublishError
  | UserError
  | IndexError
  | AttributeError
  | RecursionError
  | DoesNotExist
  | ApiError
  | ExclusiveOperateError
  | ResourceInsufficient
  | ResourceError
  | TodoDuplicateProcess
  | TodoWrongOperator
  | TaskTriggerError
  | MultipleObjects

type_synonym 'a result = "exn + 'a"

text \<open>Truth value of a Python object, as \<open>if x:\<close> and \<open>x or y\<close> read it.\<close>

fun py_truthy :: "pyval \<Rightarrow> bool" where
  "py_truthy PNone = False"
| "py_truthy (PBool b) = b"
| "py_truthy (PInt i) = (i \<noteq> 0)"
| "py_truthy (PFloat r) = (r \<noteq> 0)"
| "py_truthy (PStr s) = (s \<noteq> [])"
| "py_truthy (PList xs) = (xs \<noteq> [])"
| "py_truthy (PDict d) = (d \<noteq> [])"
| "py_truthy (PJson v) = True"

definition py_or :: "pyval \<Rightarrow> pyval \<Rightarrow> pyval" where
  "py_or a b = (if py_truthy a then a else b)"

text \<open>\<open>dict.get(key, default)\<close> and \<open>dict[key]\<close>.\<close>

definition dict_get :: "pydict \<Rightarrow> string \<Rightarrow> pyval \<Rightarrow> pyval" where
  "dict_get d k dflt = (case map_of d k of None \<Rightarrow> dflt | Some v \<Rightarrow> v)"

definition dict_item :: "pydict \<Rightarrow> string \<Rightarrow> pyval result" where
  "dict_item d k = (case map_of d k of None \<Rightarrow> Inl KeyError | Some v \<Rightarrow> Inr v)"

text \<open>\<open>int(text)\<close> for decimal texts: an optional sign and at least one digit.\<close>

fun digits_value :: "int \<Rightarrow> string \<Rightarrow> int option" where
  "digits_value acc [] = Some acc"
| "digits_value acc (c # cs) =
     (if c \<in> set ''0123456789''
      then digits_value (10 * acc + (int (of_char c) - 48)) cs else None)"

definition parse_int :: "string \<Rightarrow> int option" where
  "parse_int s =
     (case s of
        [] \<Rightarrow> None
      | c # cs \<Rightarrow>
          if c = CHR ''-'' then (if cs = [] then None else map_option uminus (digits_value 0 cs))
          else if c = CHR ''+'' then (if cs = [] then None else digits_value 0 cs)
          else digits_value 0 s)"

text \<open>\<open>int(x)\<close> and \<open>float(x)\<close>; \<open>int\<close> of a float truncates towards zero.\<close>

definition trunc :: "real \<Rightarrow> int" where
  "trunc r = (if 0 \<le> r then \<lfloor>r\<rfloor> else \<lceil>r\<rceil>)"

fun py_int :: "pyval \<Rightarrow> int result" where
  "py_int (PInt i) = Inr i"
| "py_int (PBool b) = Inr (if b then 1 else 0)"
| "py_int (PFloat r) = Inr (trunc r)"
| "py_int (PStr s) = (case parse_int s of None \<Rightarrow> Inl ValueError | Some i \<Rightarrow> Inr i)"
| "py_int _ = Inl TypeError"

fun py_float :: "pyval \<Rightarrow> real result" where
  "py_float (PInt i) = Inr (of_int i)"
| "py_float (PBool b) = Inr (if b then 1 else 0)"
| "py_float (PFloat r) = Inr r"
| "py_float (PStr s) = (case parse_int s of None \<Rightarrow> Inl ValueError | Some i \<Rightarrow> Inr (of_int i))"
| "py_float _ = Inl TypeError"

text \<open>\<open>json.loads\<close>: decodes what \<open>json.dumps\<close> wrote and refuses every other value.\<close>

fun json_loads :: "pyval \<Rightarrow> pyval result" where
  "json_loads (PJson v) = Inr v"
| "json_loads (PStr s) = Inl ValueError"
| "json_loads _ = Inl TypeError"

text \<open>\<open>str.startswith\<close>.\<close>

fun starts_with :: "string \<Rightarrow> string \<Rightarrow> bool" where
  "starts_with s [] = True"
| "starts_with [] (p # ps) = False"
| "starts_with (c # cs) (p # ps) = (c = p \<and> starts_with cs ps)"

lemma starts_with_iff: "starts_with s p \<longleftrightarrow> (\<exists>t. s = p @ t)"
  by (induction s p rule: starts_with.induct) auto

lemma starts_with_append [simp]: "starts_with (p @ t) p"
  by (auto simp: starts_with_iff)

section \<open>Generic lemmas\<close>

lemma dict_get_Some [simp]: "map_of d k = Some v \<Longrightarrow> dict_get d k x = v"
  by (simp add: dict_get_def)

lemma dict_get_None [simp]: "map_of d k = None \<Longrightarrow> dict_get d k x = x"
  by (simp add: dict_get_def)

lemma dict_item_Some [simp]: "map_of d k = Some v \<Longrightarrow> dict_item d k = Inr v"
  by (simp add: dict_item_def)

text \<open>A text is cut at the first occurrence of a separator in one way only.\<close>

lemma split_at_first:
  "c \<notin> set xs \<Longrightarrow> c \<notin> set ys \<Longrightarrow> xs @ c # us = ys @ c # vs \<longleftrightarrow> xs = ys \<and> us = vs"
proof (induction xs arbitrary: ys)
  case Nil
  then show ?case by (cases ys) auto
next
  case (Cons x xs)
  then show ?case by (cases ys) auto
qed

text \<open>Cardinality of a map's domain under the updates the queue makes.\<close>

lemma card_dom_upd_new:
  "finite (dom m) \<Longrightarrow> m k = None \<Longrightarrow> card (dom (m(k \<mapsto> v))) = Suc (card (dom m))"
  by (simp add: domIff)

lemma card_dom_upd_old:
  "m k \<noteq> None \<Longrightarrow> card (dom (m(k \<mapsto> v))) = card (dom m)"
  by (simp add: insert_absorb domIff)

lemma card_dom_upd_le:
  "finite (dom m) \<Longrightarrow> card (dom (m(k \<mapsto> v))) \<le> Suc (card (dom m))"
  by (simp add: card_insert_if)

lemma card_dom_del:
  "finite (dom m) \<Longrightarrow> m k \<noteq> None \<Longrightarrow> Suc (card (dom (m(k := None)))) = card (dom m)"
  by (metis card_Suc_Diff1 domIff dom_fun_upd)

lemma card_dom_del_le: "finite (dom m) \<Longrightarrow> card (dom (m(k := None))) \<le> card (dom m)"
  by (simp add: card_Diff1_le)

text \<open>The members of a map's domain that satisfy a predicate, counted.\<close>

definition count_dom :: "('k \<Rightarrow> bool) \<Rightarrow> ('k \<rightharpoonup> 'v) \<Rightarrow> nat" where
  "count_dom p m = card {k \<in> dom m. p k}"

lemma count_dom_new:
  assumes "finite (dom m)" and "m k = None"
  shows "count_dom p (m(k \<mapsto> v)) = (if p k then Suc (count_dom p m) else count_dom p m)"
proof (cases "p k")
  case True
  then have "{j \<in> dom (m(k \<mapsto> v)). p j} = insert k {j \<in> dom m. p j}" by auto
  moreover have "card (insert k {j \<in> dom m. p j}) = Suc (card {j \<in> dom m. p j})"
    by (rule card_insert_disjoint) (use assms in auto)
  ultimately show ?thesis using True by (simp only: count_dom_def if_True)
next
  case False
  then have "{j \<in> dom (m(k \<mapsto> v)). p j} = {j \<in> dom m. p j}" by auto
  with False show ?thesis by (simp only: count_dom_def if_False)
qed

lemma count_dom_old: "m k \<noteq> None \<Longrightarrow> count_dom p (m(k \<mapsto> v)) = count_dom p m"
  by (simp add: count_dom_def insert_absorb domIff)

lemma count_dom_del:
  assumes "finite (dom m)" and "m k \<noteq> None"
  shows "count_dom p m = (if p k then Suc (count_dom p (m(k := None))) else count_dom p (m(k := None)))"
proof -
  have k: "k \<in> dom m" using assms(2) by auto
  have eq: "{j \<in> dom (m(k := None)). p j} = {j \<in> dom m. p j} - {k}" by auto
  show ?thesis
  proof (cases "p k")
    case True
    with k have "k \<in> {j \<in> dom m. p j}" by simp
    then have "Suc (card ({j \<in> dom m. p j} - {k})) = card {j \<in> dom m. p j}"
      by (intro card_Suc_Diff1) (use assms(1) in auto)
    with True show ?thesis by (simp only: count_dom_def eq if_True)
  next
    case False
    then have "{j \<in> dom m. p j} - {k} = {j \<in> dom m. p j}" by auto
    with False show ?thesis by (simp only: count_dom_def eq if_False)
  qed
qed

lemma count_dom_del_absent: "m k = None \<Longrightarrow> count_dom p (m(k := None)) = count_dom p m"
  by (simp add: fun_upd_idem)

lemma count_dom_pos: "finite (dom m) \<Longrightarrow> m k \<noteq> None \<Longrightarrow> p k \<Longrightarrow> 0 < count_dom p m"
  by (auto simp: count_dom_def card_gt_0_iff)

lemma count_dom_True: "count_dom (\<lambda>_. True) m = card (dom m)"
  by (simp add: count_dom_def)

text \<open>Counting in lists: how many elements satisfy a predicate.\<close>

abbreviation count_if :: "('a \<Rightarrow> bool) \<Rightarrow> 'a list \<Rightarrow> nat" where
  "count_if p xs \<equiv> length (filter p xs)"

section \<open>Chunks\<close>

text \<open>\<open>for offset in range(0, len(xs), n): xs[offset : offset + n]\<close>, for a positive \<open>n\<close>.\<close>

function chunks :: "nat \<Rightarrow> 'a list \<Rightarrow> 'a list list" where
  "chunks n xs = (if xs = [] \<or> n = 0 then [] else take n xs # chunks n (drop n xs))"
  by pat_completeness auto
termination by (relation "measure (\<lambda>(n, xs). length xs)") auto

declare chunks.simps [simp del]

lemma concat_chunks: "0 < n \<Longrightarrow> concat (chunks n xs) = xs"
  by (induction n xs rule: chunks.induct) (subst chunks.simps, simp)

lemma chunks_bounded: "c \<in> set (chunks n xs) \<Longrightarrow> c \<noteq> [] \<and> length c \<le> n"
  by (induction n xs rule: chunks.induct) (subst (asm) (2) chunks.simps, auto split: if_splits)

section \<open>Counters by name\<close>

text \<open>\<open>counts.get(name, 0)\<close> on a dictionary of counts, and what adding to one of them does.\<close>

definition counter_get :: "(string \<times> int) list \<Rightarrow> string \<Rightarrow> int" where
  "counter_get counts name = (case map_of counts name of None \<Rightarrow> 0 | Some n \<Rightarrow> n)"

definition counter_add :: "string \<Rightarrow> int \<Rightarrow> (string \<times> int) list \<Rightarrow> (string \<times> int) list" where
  "counter_add name n counts = AList.update name (counter_get counts name + n) counts"

lemma counter_get_add: "counter_get (counter_add k n c) j = (if j = k then counter_get c k + n else counter_get c j)"
  by (simp add: counter_add_def counter_get_def update_conv')

lemma counter_add_distinct: "distinct (map fst c) \<Longrightarrow> distinct (map fst (counter_add k n c))"
  by (simp add: counter_add_def distinct_update)

lemma counter_add_total:
  "distinct (map fst c) \<Longrightarrow> sum_list (map snd (counter_add k n c)) = sum_list (map snd c) + n"
proof (induction c)
  case Nil
  then show ?case by (simp add: counter_add_def counter_get_def)
next
  case (Cons x c)
  obtain j m where x: "x = (j, m)" by (cases x)
  show ?case
  proof (cases "j = k")
    case True
    then show ?thesis by (simp add: x counter_add_def counter_get_def)
  next
    case False
    then have "counter_add k n (x # c) = x # counter_add k n c"
      by (simp add: x counter_add_def counter_get_def)
    with Cons show ?thesis by simp
  qed
qed

lemma map_of_rev_distinct: "distinct (map fst xs) \<Longrightarrow> map_of (rev xs) = map_of xs"
  by (rule map_of_eqI) (auto simp: rev_map [symmetric] intro: map_of_eq_Some_iff [THEN iffD2])

section \<open>Integer enumerations\<close>

text \<open>Decoding a list of replies: the first value that is no member raises.\<close>

fun decode_all :: "(int \<Rightarrow> 'e result) \<Rightarrow> int list \<Rightarrow> 'e list result" where
  "decode_all d [] = Inr []"
| "decode_all d (i # is) =
     (case d i of Inl e \<Rightarrow> Inl e
      | Inr x \<Rightarrow> (case decode_all d is of Inl e \<Rightarrow> Inl e | Inr xs \<Rightarrow> Inr (x # xs)))"

text \<open>
  An \<open>IntEnum\<close> whose members are what a Lua script returns: \<open>decode\<close> is the call of the
  class on an integer, which raises on a value that is no member. No member is 0.
\<close>

locale int_enum =
  fixes code :: "'e \<Rightarrow> int" and decode :: "int \<Rightarrow> 'e result"
  assumes decode_code: "decode (code e) = Inr e"
    and code_decode: "decode i = Inr e \<Longrightarrow> code e = i"
    and code_nonzero: "code e \<noteq> 0"
begin

lemma code_inject: "code a = code b \<longleftrightarrow> a = b"
proof
  assume "code a = code b"
  then have "(Inr a :: 'e result) = Inr b" unfolding decode_code [symmetric] by (rule arg_cong)
  then show "a = b" by simp
qed simp

lemma decode_iff: "decode i = Inr e \<longleftrightarrow> i = code e"
proof
  assume "decode i = Inr e"
  then show "i = code e" using code_decode [of i e] by simp
next
  assume "i = code e"
  then show "decode i = Inr e" by (simp add: decode_code)
qed

lemma decode_zero: "\<exists>x. decode 0 = Inl x"
proof (cases "decode 0")
  case (Inr e)
  then have "code e = 0" by (rule code_decode)
  then show ?thesis using code_nonzero [of e] by simp
qed simp

lemma decode_list_codes: "decode_all decode (map code xs) = Inr xs"
  by (induction xs) (simp_all add: decode_code)

lemma decode_list_Inr: "decode_all decode is = Inr xs \<Longrightarrow> is = map code xs"
proof (induction "is" arbitrary: xs)
  case (Cons i "is")
  then obtain x r where "decode i = Inr x" "decode_all decode is = Inr r" "xs = x # r"
    by (auto split: sum.splits)
  with Cons.IH [of r] code_decode [of i x] show ?case by simp
qed simp

end

end
