(* ===== verification/Config.thy ===== *)
theory Config
  imports Prelude
begin

text \<open>
  \<open>dispatch/config.py\<close>: the constants of the package, the pump, task and queue
  configurations, and the decoding and validation of their persisted form. The fields carry
  their annotated type: a persisted value of another JSON type (a number kept as text, a
  null mode) is refused when the configuration is built, where Python lets it through to
  its first use.
\<close>

section \<open>Constants\<close>

definition DEFAULT_REQUEUE_COOLDOWN_SECONDS :: int where "DEFAULT_REQUEUE_COOLDOWN_SECONDS = 60"
definition DEFAULT_MAX_REQUEUE_ATTEMPTS :: int where "DEFAULT_MAX_REQUEUE_ATTEMPTS = 3"
definition DEFAULT_QUEUE_WAIT_TTL_SECONDS :: int where "DEFAULT_QUEUE_WAIT_TTL_SECONDS = 24 * 3600"
definition DEFAULT_EXECUTION_TIMEOUT_SECONDS :: int where "DEFAULT_EXECUTION_TIMEOUT_SECONDS = 3600"
definition RESERVED_TTL_MARGIN_SECONDS :: int where "RESERVED_TTL_MARGIN_SECONDS = 60"
definition DISPATCH_LUA_BATCH_SIZE :: nat where "DISPATCH_LUA_BATCH_SIZE = 25"
definition PUMP_INTERVAL_SECONDS :: int where "PUMP_INTERVAL_SECONDS = 10"
definition PUMP_DEADLINE_MARGIN_SECONDS :: int where "PUMP_DEADLINE_MARGIN_SECONDS = 2"
definition PUMP_LOCK_MARGIN_SECONDS :: int where "PUMP_LOCK_MARGIN_SECONDS = 1"
definition PUMP_CLEANUP_INTERVAL_SECONDS :: int where "PUMP_CLEANUP_INTERVAL_SECONDS = 60"
definition PUMP_CLEANUP_JITTER_RATIO :: real where "PUMP_CLEANUP_JITTER_RATIO = 1 / 2"
definition TASK_COUNTS_REBUILD_FORCE_SECONDS :: int where "TASK_COUNTS_REBUILD_FORCE_SECONDS = 24 * 3600"
definition TASK_COUNTS_REBUILD_PERIOD_SECONDS :: int where "TASK_COUNTS_REBUILD_PERIOD_SECONDS = 10 * 60"
definition TASK_COUNTS_REBUILD_RETRY_SECONDS :: int where "TASK_COUNTS_REBUILD_RETRY_SECONDS = 3600"
definition TASK_COUNTS_REBUILD_REQUEST_TTL_SECONDS :: int where
  "TASK_COUNTS_REBUILD_REQUEST_TTL_SECONDS = 2 * 24 * 3600"
definition TASK_COUNTS_REBUILD_DEADLINE_SECONDS :: int where "TASK_COUNTS_REBUILD_DEADLINE_SECONDS = 60"
definition TASK_COUNTS_REBUILD_LOCK_MARGIN_SECONDS :: int where "TASK_COUNTS_REBUILD_LOCK_MARGIN_SECONDS = 60"
definition TASK_COUNTS_REBUILD_LOCK_SECONDS :: int where
  "TASK_COUNTS_REBUILD_LOCK_SECONDS = TASK_COUNTS_REBUILD_DEADLINE_SECONDS + TASK_COUNTS_REBUILD_LOCK_MARGIN_SECONDS"
definition TASK_COUNTS_REBUILD_SCAN_COUNT :: int where "TASK_COUNTS_REBUILD_SCAN_COUNT = 500"

lemmas config_constants =
  DEFAULT_REQUEUE_COOLDOWN_SECONDS_def DEFAULT_MAX_REQUEUE_ATTEMPTS_def DEFAULT_QUEUE_WAIT_TTL_SECONDS_def
  DEFAULT_EXECUTION_TIMEOUT_SECONDS_def RESERVED_TTL_MARGIN_SECONDS_def DISPATCH_LUA_BATCH_SIZE_def
  PUMP_INTERVAL_SECONDS_def PUMP_DEADLINE_MARGIN_SECONDS_def PUMP_LOCK_MARGIN_SECONDS_def
  PUMP_CLEANUP_INTERVAL_SECONDS_def PUMP_CLEANUP_JITTER_RATIO_def TASK_COUNTS_REBUILD_FORCE_SECONDS_def
  TASK_COUNTS_REBUILD_PERIOD_SECONDS_def TASK_COUNTS_REBUILD_RETRY_SECONDS_def
  TASK_COUNTS_REBUILD_REQUEST_TTL_SECONDS_def TASK_COUNTS_REBUILD_DEADLINE_SECONDS_def
  TASK_COUNTS_REBUILD_LOCK_MARGIN_SECONDS_def TASK_COUNTS_REBUILD_LOCK_SECONDS_def
  TASK_COUNTS_REBUILD_SCAN_COUNT_def

section \<open>Pump configuration\<close>

record pump_config =
  max_parallel_queues :: int

definition DispatchPumpConfig :: pump_config where
  "DispatchPumpConfig = \<lparr>max_parallel_queues = 16\<rparr>"

definition deadline_seconds :: real where
  "deadline_seconds = of_int (PUMP_INTERVAL_SECONDS - PUMP_DEADLINE_MARGIN_SECONDS)"

definition lock_ttl_seconds :: int where
  "lock_ttl_seconds = PUMP_INTERVAL_SECONDS + PUMP_LOCK_MARGIN_SECONDS"

section \<open>Field filtering and validation\<close>

text \<open>\<open>names\<close> stands for \<open>{field.name for field in fields(config_cls)}\<close>.\<close>

definition filter_raw_fields :: "string list \<Rightarrow> pydict \<Rightarrow> pydict" where
  "filter_raw_fields names raw = filter (\<lambda>(key, value). key \<in> set names) raw"

definition validate_raw_keys :: "string list \<Rightarrow> (pydict \<Rightarrow> 'c result) \<Rightarrow> pyval \<Rightarrow> 'c result" where
  "validate_raw_keys names from_raw raw =
     (case raw of
        PDict d \<Rightarrow>
          (if filter (\<lambda>k. k \<notin> set names) (map fst d) \<noteq> [] then Inl ValidationError
           else (case from_raw d of
                   Inl e \<Rightarrow> Inl (if e \<in> {TypeError, ValueError} then ValidationError else e)
                 | Inr c \<Rightarrow> Inr c))
      | _ \<Rightarrow> Inl ValidationError)"

definition validate_positive :: "int list \<Rightarrow> unit result" where
  "validate_positive values = (if list_ex (\<lambda>x. x < 1) values then Inl ValidationError else Inr ())"

text \<open>Reading one dataclass field from the filtered dictionary, with its default.\<close>

definition int_field :: "pydict \<Rightarrow> string \<Rightarrow> int \<Rightarrow> int result" where
  "int_field d k dflt =
     (case map_of d k of None \<Rightarrow> Inr dflt | Some (PInt i) \<Rightarrow> Inr i | Some _ \<Rightarrow> Inl TypeError)"

definition bool_field :: "pydict \<Rightarrow> string \<Rightarrow> bool \<Rightarrow> bool result" where
  "bool_field d k dflt =
     (case map_of d k of None \<Rightarrow> Inr dflt | Some (PBool b) \<Rightarrow> Inr b | Some _ \<Rightarrow> Inl TypeError)"

section \<open>Task configuration\<close>

datatype idempotence_mode = Idem_NONE | Idem_DEDUPE

fun idempotence_value :: "idempotence_mode \<Rightarrow> string" where
  "idempotence_value Idem_NONE = ''none''"
| "idempotence_value Idem_DEDUPE = ''dedupe''"

definition IdempotenceMode :: "pyval \<Rightarrow> idempotence_mode result" where
  "IdempotenceMode v =
     (if v = PStr ''none'' then Inr Idem_NONE
      else if v = PStr ''dedupe'' then Inr Idem_DEDUPE
      else Inl ValueError)"

record task_config =
  enabled :: bool
  idempotence_mode :: idempotence_mode
  requeue_cooldown_seconds :: int
  max_requeue_attempts :: int
  queue_wait_ttl_seconds :: int
  execution_timeout_seconds :: int

definition DispatchTaskConfig :: task_config where
  "DispatchTaskConfig = \<lparr>enabled = False, idempotence_mode = Idem_DEDUPE,
     requeue_cooldown_seconds = DEFAULT_REQUEUE_COOLDOWN_SECONDS,
     max_requeue_attempts = DEFAULT_MAX_REQUEUE_ATTEMPTS,
     queue_wait_ttl_seconds = DEFAULT_QUEUE_WAIT_TTL_SECONDS,
     execution_timeout_seconds = DEFAULT_EXECUTION_TIMEOUT_SECONDS\<rparr>"

definition task_config_fields :: "string list" where
  "task_config_fields = [''enabled'', ''idempotence_mode'', ''requeue_cooldown_seconds'',
     ''max_requeue_attempts'', ''queue_wait_ttl_seconds'', ''execution_timeout_seconds'']"

definition uses_enqueue_dedupe :: "task_config \<Rightarrow> bool" where
  "uses_enqueue_dedupe c = (idempotence_mode c = Idem_DEDUPE)"

definition resolve_queue_wait_ttl_seconds :: "task_config \<Rightarrow> int" where
  "resolve_queue_wait_ttl_seconds c = max 1 (queue_wait_ttl_seconds c)"

definition resolve_execution_timeout_seconds :: "task_config \<Rightarrow> int" where
  "resolve_execution_timeout_seconds c = max 1 (execution_timeout_seconds c)"

definition resolve_reserved_record_ttl_seconds :: "task_config \<Rightarrow> int" where
  "resolve_reserved_record_ttl_seconds c = resolve_execution_timeout_seconds c + RESERVED_TTL_MARGIN_SECONDS"

definition task_to_raw :: "task_config \<Rightarrow> pydict" where
  "task_to_raw c =
     [(''enabled'', PBool (enabled c)),
      (''idempotence_mode'', PStr (idempotence_value (idempotence_mode c))),
      (''requeue_cooldown_seconds'', PInt (requeue_cooldown_seconds c)),
      (''max_requeue_attempts'', PInt (max_requeue_attempts c)),
      (''queue_wait_ttl_seconds'', PInt (queue_wait_ttl_seconds c)),
      (''execution_timeout_seconds'', PInt (execution_timeout_seconds c))]"

text \<open>\<open>dflt\<close> carries the class defaults, which a subclass may override.\<close>

definition task_from_raw :: "task_config \<Rightarrow> pydict \<Rightarrow> task_config result" where
  "task_from_raw dflt raw =
     (let filtered = filter_raw_fields task_config_fields raw;
          mode = dict_get filtered ''idempotence_mode'' PNone in
      case (if mode = PNone then
              (if map_of filtered ''idempotence_mode'' = None then Inr (idempotence_mode dflt) else Inl TypeError)
            else IdempotenceMode mode) of
        Inl e \<Rightarrow> Inl e
      | Inr m \<Rightarrow>
        (case (bool_field filtered ''enabled'' (enabled dflt),
               int_field filtered ''requeue_cooldown_seconds'' (requeue_cooldown_seconds dflt),
               int_field filtered ''max_requeue_attempts'' (max_requeue_attempts dflt),
               int_field filtered ''queue_wait_ttl_seconds'' (queue_wait_ttl_seconds dflt),
               int_field filtered ''execution_timeout_seconds'' (execution_timeout_seconds dflt)) of
           (Inr en, Inr rc, Inr mr, Inr qw, Inr ex) \<Rightarrow>
             Inr \<lparr>enabled = en, idempotence_mode = m, requeue_cooldown_seconds = rc,
                  max_requeue_attempts = mr, queue_wait_ttl_seconds = qw, execution_timeout_seconds = ex\<rparr>
         | _ \<Rightarrow> Inl TypeError))"

text \<open>\<open>(raw or {}).items()\<close>.\<close>

definition raw_items :: "pyval \<Rightarrow> pydict result" where
  "raw_items v = (case v of PDict d \<Rightarrow> Inr d | _ \<Rightarrow> if py_truthy v then Inl TypeError else Inr [])"

definition task_from_json :: "task_config \<Rightarrow> pyval \<Rightarrow> task_config result" where
  "task_from_json dflt config_json =
     (if \<not> py_truthy config_json then Inr dflt
      else (case json_loads config_json of
              Inl e \<Rightarrow> Inl e
            | Inr v \<Rightarrow> (case raw_items v of Inl e \<Rightarrow> Inl e | Inr d \<Rightarrow> task_from_raw dflt d)))"

definition task_validate_raw :: "task_config \<Rightarrow> pyval \<Rightarrow> unit result" where
  "task_validate_raw dflt raw =
     (case validate_raw_keys task_config_fields (task_from_raw dflt) raw of
        Inl e \<Rightarrow> Inl e
      | Inr config \<Rightarrow>
        (case validate_positive [queue_wait_ttl_seconds config, execution_timeout_seconds config] of
           Inl e \<Rightarrow> Inl e
         | Inr _ \<Rightarrow> if max_requeue_attempts config < 0 then Inl ValidationError else Inr ()))"

section \<open>Queue configuration\<close>

record queue_config =
  max_admitted_jobs :: int
  max_reserved :: int

definition DispatchQueueConfig :: queue_config where
  "DispatchQueueConfig = \<lparr>max_admitted_jobs = 2000, max_reserved = 10\<rparr>"

definition queue_config_fields :: "string list" where
  "queue_config_fields = [''max_admitted_jobs'', ''max_reserved'']"

definition queue_from_raw :: "queue_config \<Rightarrow> pydict \<Rightarrow> queue_config result" where
  "queue_from_raw dflt raw =
     (let filtered = filter_raw_fields queue_config_fields raw in
      case (int_field filtered ''max_admitted_jobs'' (max_admitted_jobs dflt),
            int_field filtered ''max_reserved'' (max_reserved dflt)) of
        (Inr a, Inr r) \<Rightarrow> Inr \<lparr>max_admitted_jobs = a, max_reserved = r\<rparr>
      | _ \<Rightarrow> Inl TypeError)"

definition queue_to_raw :: "queue_config \<Rightarrow> pydict" where
  "queue_to_raw c = [(''max_admitted_jobs'', PInt (max_admitted_jobs c)), (''max_reserved'', PInt (max_reserved c))]"

definition queue_validate_raw :: "(pydict \<Rightarrow> queue_config result) \<Rightarrow> pyval \<Rightarrow> unit result" where
  "queue_validate_raw from_raw raw =
     (case validate_raw_keys queue_config_fields from_raw raw of
        Inl e \<Rightarrow> Inl e
      | Inr config \<Rightarrow> validate_positive [max_admitted_jobs config, max_reserved config])"

section \<open>Facts\<close>

lemma filter_raw_fields_map_of:
  "map_of (filter_raw_fields names raw) k = (if k \<in> set names then map_of raw k else None)"
  by (induction raw) (auto simp: filter_raw_fields_def)

lemma filter_raw_fields_idem: "filter_raw_fields names (filter_raw_fields names raw) = filter_raw_fields names raw"
  by (simp add: filter_raw_fields_def)

lemma resolve_positive [simp]:
  "1 \<le> resolve_queue_wait_ttl_seconds c" "1 \<le> resolve_execution_timeout_seconds c"
  "1 \<le> resolve_reserved_record_ttl_seconds c"
  by (simp_all add: resolve_queue_wait_ttl_seconds_def resolve_execution_timeout_seconds_def
      resolve_reserved_record_ttl_seconds_def RESERVED_TTL_MARGIN_SECONDS_def)

lemma task_raw_roundtrip: "task_from_raw dflt (task_to_raw c) = Inr c"
  by (cases "idempotence_mode c")
     (simp_all add: task_from_raw_def task_to_raw_def filter_raw_fields_def task_config_fields_def
       bool_field_def int_field_def dict_get_def IdempotenceMode_def)

lemma queue_raw_roundtrip: "queue_from_raw dflt (queue_to_raw c) = Inr c"
  by (simp add: queue_from_raw_def queue_to_raw_def filter_raw_fields_def queue_config_fields_def int_field_def)

text \<open>Unknown keys are dropped by \<open>from_raw\<close>: only the known fields matter.\<close>

lemma task_from_raw_cong:
  assumes "\<And>k. k \<in> set task_config_fields \<Longrightarrow> map_of raw k = map_of raw' k"
  shows "task_from_raw dflt raw = task_from_raw dflt raw'"
proof -
  have eq: "map_of (filter_raw_fields task_config_fields raw) = map_of (filter_raw_fields task_config_fields raw')"
    using assms by (auto simp: filter_raw_fields_map_of)
  show ?thesis
    unfolding task_from_raw_def Let_def dict_get_def bool_field_def int_field_def eq by (rule refl)
qed

lemma validate_positive_iff: "validate_positive xs = Inr () \<longleftrightarrow> (\<forall>x\<in>set xs. 1 \<le> x)"
  by (force simp: validate_positive_def list_ex_iff not_less)

lemma validate_raw_keys_Inr:
  "validate_raw_keys names fr raw = Inr c \<longleftrightarrow>
     (\<exists>d. raw = PDict d \<and> set (map fst d) \<subseteq> set names \<and> fr d = Inr c)"
  by (auto simp: validate_raw_keys_def filter_empty_conv split: pyval.splits sum.splits)

text \<open>What validation lets through is a configuration the pump and the queue can run on.\<close>

lemma queue_validate_raw_sound:
  assumes "queue_validate_raw fr raw = Inr ()"
  obtains d c where "raw = PDict d" "fr d = Inr c" "1 \<le> max_admitted_jobs c" "1 \<le> max_reserved c"
proof -
  from assms obtain c where c: "validate_raw_keys queue_config_fields fr raw = Inr c"
    and p: "validate_positive [max_admitted_jobs c, max_reserved c] = Inr ()"
    by (auto simp: queue_validate_raw_def split: sum.splits)
  from c obtain d where "raw = PDict d" "fr d = Inr c"
    by (auto simp: validate_raw_keys_Inr)
  moreover from p have "1 \<le> max_admitted_jobs c" "1 \<le> max_reserved c"
    by (simp_all add: validate_positive_iff)
  ultimately show thesis by (rule that)
qed

end
