(* ===== verification/Job.thy ===== *)
theory Job
  imports Config
begin

text \<open>
  \<open>dispatch/job.py\<close>: the job record, its dictionary form, job identifiers and the
  queue-wait deadline shared by admission and requeue.
\<close>

section \<open>The job record\<close>

record dispatch_job =
  job_id :: string
  task_key :: string
  job_namespace :: string
  work_item_id :: string
  work_item_data :: pydict
  payload_json :: pyval
  config_json :: pyval
  retry_count :: int
  created_at :: real
  ready_at :: real
  wait_deadline_at :: real

definition job_to_dict :: "dispatch_job \<Rightarrow> pydict" where
  "job_to_dict j =
     [(''job_id'', PStr (job_id j)),
      (''task_key'', PStr (task_key j)),
      (''namespace'', PStr (job_namespace j)),
      (''work_item_id'', PStr (work_item_id j)),
      (''work_item_data'', PDict (work_item_data j)),
      (''payload_json'', payload_json j),
      (''config_json'', config_json j),
      (''retry_count'', PInt (retry_count j)),
      (''created_at'', PFloat (created_at j)),
      (''ready_at'', PFloat (ready_at j)),
      (''wait_deadline_at'', PFloat (wait_deadline_at j))]"

text \<open>
  The string fields of the record are assigned whatever the dictionary holds; a value that
  is not of the annotated type is refused here.
\<close>

definition str_of :: "pyval \<Rightarrow> string result" where
  "str_of v = (case v of PStr s \<Rightarrow> Inr s | _ \<Rightarrow> Inl TypeError)"

definition dict_of :: "pyval \<Rightarrow> pydict result" where
  "dict_of v = (case v of PDict d \<Rightarrow> Inr d | _ \<Rightarrow> Inl TypeError)"

definition bind_result :: "'a result \<Rightarrow> ('a \<Rightarrow> 'b result) \<Rightarrow> 'b result" where
  "bind_result r f = (case r of Inl e \<Rightarrow> Inl e | Inr x \<Rightarrow> f x)"

lemma bind_result_simps [simp]:
  "bind_result (Inl e) f = Inl e" "bind_result (Inr x) f = f x"
  by (simp_all add: bind_result_def)

definition job_from_dict :: "pydict \<Rightarrow> dispatch_job result" where
  "job_from_dict raw =
     bind_result (dict_item raw ''job_id'') (\<lambda>v. bind_result (str_of v) (\<lambda>jid.
     bind_result (dict_item raw ''task_key'') (\<lambda>v. bind_result (str_of v) (\<lambda>tk.
     bind_result (str_of (dict_get raw ''namespace'' (PStr ''''))) (\<lambda>ns.
     bind_result (str_of (dict_get raw ''work_item_id'' (PStr ''''))) (\<lambda>wid.
     bind_result (dict_of (py_or (dict_get raw ''work_item_data'' PNone) (PDict []))) (\<lambda>wdata.
     bind_result (py_int (dict_get raw ''retry_count'' (PInt 0))) (\<lambda>retries.
     bind_result (py_float (dict_get raw ''created_at'' (PInt 0))) (\<lambda>created.
     bind_result (py_float (dict_get raw ''ready_at'' (PInt 0))) (\<lambda>ready.
     bind_result (py_float (dict_get raw ''wait_deadline_at'' (PInt 0))) (\<lambda>deadline.
       Inr \<lparr>job_id = jid, task_key = tk, job_namespace = ns, work_item_id = wid,
            work_item_data = wdata,
            payload_json = py_or (dict_get raw ''payload_json'' PNone) (PStr ''''),
            config_json = dict_get raw ''config_json'' (PStr ''''),
            retry_count = retries, created_at = created, ready_at = ready,
            wait_deadline_at = deadline\<rparr>)))))))))))"

text \<open>The text a job is stored as, and its decoding.\<close>

definition job_snapshot :: "dispatch_job \<Rightarrow> pyval" where
  "job_snapshot j = PJson (PDict (job_to_dict j))"

definition decode_job :: "pyval \<Rightarrow> dispatch_job result" where
  "decode_job raw = bind_result (json_loads raw) (\<lambda>v. bind_result (dict_of v) job_from_dict)"

section \<open>Identifiers\<close>

definition build_job_id :: "string \<Rightarrow> string \<Rightarrow> string" where
  "build_job_id tk wid = tk @ '':'' @ wid"

definition resolve_step :: "string \<Rightarrow> string \<Rightarrow> string \<Rightarrow> string" where
  "resolve_step jid matched tk =
     (if starts_with jid (tk @ '':'') \<and> length tk > length matched then tk else matched)"

definition resolve_task_key_from_job_id :: "string \<Rightarrow> string list \<Rightarrow> string" where
  "resolve_task_key_from_job_id jid registered = foldl (resolve_step jid) [] registered"

definition work_item_id_from_job_id :: "string \<Rightarrow> string \<Rightarrow> string" where
  "work_item_id_from_job_id jid tk =
     (if tk \<noteq> [] \<and> starts_with jid (tk @ '':'') then drop (length (tk @ '':'')) jid else [])"

section \<open>The queue-wait deadline\<close>

definition compute_wait_deadline :: "real \<Rightarrow> real \<Rightarrow> int \<Rightarrow> real \<Rightarrow> real \<times> int option" where
  "compute_wait_deadline now ready wait_ttl deadline_at =
     (let wait_ttl = max 1 wait_ttl in
      if deadline_at = 0 then
        (let deadline = max now ready + of_int wait_ttl in (deadline, Some \<lceil>deadline - now\<rceil>))
      else
        (let ttl = min wait_ttl \<lceil>deadline_at - now\<rceil> in
         if ttl < 1 then (deadline_at, None) else (deadline_at, Some ttl)))"

section \<open>Facts about the record\<close>

lemma job_roundtrip:
  assumes "py_truthy (payload_json j) \<or> payload_json j = PStr ''''"
  shows "job_from_dict (job_to_dict j) = Inr j"
  using assms
  by (auto simp: job_from_dict_def job_to_dict_def dict_item_def dict_get_def str_of_def dict_of_def py_or_def)

lemma decode_job_snapshot: "decode_job (job_snapshot j) = job_from_dict (job_to_dict j)"
  by (simp add: decode_job_def job_snapshot_def dict_of_def)

lemma decode_job_id:
  "decode_job (job_snapshot j) = Inr j' \<Longrightarrow> job_id j' = job_id j \<and> task_key j' = task_key j"
  by (auto simp: decode_job_snapshot job_from_dict_def job_to_dict_def dict_item_def dict_get_def str_of_def
      dict_of_def py_or_def split: if_splits)

section \<open>Facts about identifiers\<close>

text \<open>The result of the fold is the longest key, among those seen and the start, that matches.\<close>

lemma resolve_fold:
  "foldl (resolve_step jid) m ks \<in> insert m {k \<in> set ks. starts_with jid (k @ '':'')}
   \<and> length m \<le> length (foldl (resolve_step jid) m ks)
   \<and> (\<forall>k\<in>set ks. starts_with jid (k @ '':'') \<longrightarrow> length k \<le> length (foldl (resolve_step jid) m ks))"
proof (induction ks arbitrary: m)
  case Nil
  then show ?case by simp
next
  case (Cons k ks)
  have m': "resolve_step jid m k \<in> insert m {j \<in> set (k # ks). starts_with jid (j @ '':'')}"
    "length m \<le> length (resolve_step jid m k)"
    "starts_with jid (k @ '':'') \<longrightarrow> length k \<le> length (resolve_step jid m k)"
    by (auto simp: resolve_step_def)
  from Cons.IH [of "resolve_step jid m k"] m' show ?case by fastforce
qed

lemma resolve_longest:
  assumes "tk \<in> set registered" and "starts_with jid (tk @ '':'')"
  shows "length tk \<le> length (resolve_task_key_from_job_id jid registered)"
  using resolve_fold [of jid "[]" registered] assms by (simp add: resolve_task_key_from_job_id_def)

lemma resolve_matches:
  assumes "resolve_task_key_from_job_id jid registered \<noteq> []"
  shows "resolve_task_key_from_job_id jid registered \<in> set registered"
    and "starts_with jid (resolve_task_key_from_job_id jid registered @ '':'')"
  using resolve_fold [of jid "[]" registered] assms by (auto simp: resolve_task_key_from_job_id_def)

text \<open>Two prefixes of one text are comparable, so equal lengths make them equal.\<close>

lemma starts_with_same_length:
  assumes "starts_with s (p @ '':'')" and "starts_with s (q @ '':'')" and "length p = length q"
  shows "p = q"
  using assms by (auto simp: starts_with_iff)

text \<open>With colon-free task keys a job id determines its task key.\<close>

lemma prefix_colon_free:
  assumes "starts_with (tk @ '':'' @ wid) (tk' @ '':'')" and "CHR '':'' \<notin> set tk" and "CHR '':'' \<notin> set tk'"
  shows "tk' = tk"
proof -
  from assms(1) obtain t where "tk @ '':'' @ wid = (tk' @ '':'') @ t" by (auto simp: starts_with_iff)
  then have "tk @ CHR '':'' # wid = tk' @ CHR '':'' # t" by simp
  with assms(2,3) show ?thesis by (simp add: split_at_first)
qed

lemma resolve_build_job_id:
  assumes "tk \<in> set registered" and "\<forall>k\<in>set registered. CHR '':'' \<notin> set k"
  shows "resolve_task_key_from_job_id (build_job_id tk wid) registered = tk"
proof (cases "tk = []")
  case True
  show ?thesis
  proof (rule ccontr)
    let ?r = "resolve_task_key_from_job_id (build_job_id tk wid) registered"
    assume "?r \<noteq> tk"
    with True have ne: "?r \<noteq> []" by simp
    from resolve_matches [OF ne] assms show False
      using prefix_colon_free [of tk wid ?r] ne True by (auto simp: build_job_id_def)
  qed
next
  case False
  let ?r = "resolve_task_key_from_job_id (build_job_id tk wid) registered"
  have "starts_with (build_job_id tk wid) (tk @ '':'')"
    by (auto simp: build_job_id_def starts_with_iff)
  with assms(1) have "length tk \<le> length ?r" by (rule resolve_longest)
  with False have ne: "?r \<noteq> []" by auto
  from resolve_matches [OF ne] assms show ?thesis
    using prefix_colon_free [of tk wid ?r] by (simp add: build_job_id_def)
qed

lemma work_item_id_build_job_id:
  "tk \<noteq> [] \<Longrightarrow> work_item_id_from_job_id (build_job_id tk wid) tk = wid"
  by (auto simp: work_item_id_from_job_id_def build_job_id_def starts_with_iff)

lemma build_job_id_inj:
  assumes "build_job_id tk wid = build_job_id tk' wid'" and "CHR '':'' \<notin> set tk" and "CHR '':'' \<notin> set tk'"
  shows "tk = tk' \<and> wid = wid'"
proof -
  have "starts_with (tk @ '':'' @ wid) (tk' @ '':'')"
    using assms(1) by (auto simp: build_job_id_def starts_with_iff)
  with assms(2,3) have "tk' = tk" using prefix_colon_free by blast
  with assms(1) show ?thesis by (simp add: build_job_id_def)
qed

section \<open>Facts about the deadline\<close>

lemma deadline_kept: "d \<noteq> 0 \<Longrightarrow> fst (compute_wait_deadline now ready ttl d) = d"
  by (simp add: compute_wait_deadline_def Let_def)

lemma deadline_ttl_positive:
  "snd (compute_wait_deadline now ready ttl d) = Some t \<Longrightarrow> 1 \<le> t"
  by (auto simp: compute_wait_deadline_def Let_def le_ceiling_iff split: if_splits)

lemma deadline_fresh:
  "compute_wait_deadline now ready ttl 0 =
     (max now ready + of_int (max 1 ttl), Some \<lceil>max now ready + of_int (max 1 ttl) - now\<rceil>)"
  by (simp add: compute_wait_deadline_def Let_def)

lemma deadline_expired_iff:
  "d \<noteq> 0 \<Longrightarrow> snd (compute_wait_deadline now ready ttl d) = None \<longleftrightarrow> d \<le> now"
  by (auto simp: compute_wait_deadline_def Let_def min_less_iff_disj less_ceiling_iff not_less)

lemma deadline_ttl_bound:
  "d \<noteq> 0 \<Longrightarrow> snd (compute_wait_deadline now ready ttl d) = Some t \<Longrightarrow>
     t \<le> max 1 ttl \<and> now + of_int t < d + 1"
  by (auto simp: compute_wait_deadline_def Let_def split: if_splits) linarith+

end
