(* ===== verification/Keys.thy ===== *)
theory Keys
  imports Job
begin

text \<open>
  The Redis key layout: every namespace-scoped key is \<open>dispatch:{ns}:\<dots>\<close>
  (\<open>queue.py\<close>, \<open>metrics.py\<close>, \<open>pump.py\<close>, \<open>controller.py\<close>, \<open>task_counts.py\<close>,
  \<open>maintenance.py\<close>, \<open>reaper.py\<close>), and \<open>routing.validate_namespace\<close>, which keeps the
  separator out of namespaces.
\<close>

section \<open>Decimal texts\<close>

definition digit_char :: "nat \<Rightarrow> char" where
  "digit_char d = ''0123456789'' ! d"

fun str_of_nat :: "nat \<Rightarrow> string" where
  "str_of_nat n = (if n < 10 then [digit_char n] else str_of_nat (n div 10) @ [digit_char (n mod 10)])"

declare str_of_nat.simps [simp del]

definition str_of_int :: "int \<Rightarrow> string" where
  "str_of_int i = (if i < 0 then CHR ''-'' # str_of_nat (nat (- i)) else str_of_nat (nat i))"

section \<open>Namespaces\<close>

definition namespace_chars :: "char set" where
  "namespace_chars = set ''abcdefghijklmnopqrstuvwxyz0123456789_-''"

text \<open>
  \<open>_NAMESPACE_PATTERN = ^[a-z0-9_-]+$\<close> with \<open>re.match\<close>: \<open>$\<close> also matches before one
  trailing newline.
\<close>

definition namespace_pattern_match :: "string \<Rightarrow> bool" where
  "namespace_pattern_match ns =
     (let body = (if ns \<noteq> [] \<and> last ns = CHR 0x0A then butlast ns else ns)
      in body \<noteq> [] \<and> list_all (\<lambda>c. c \<in> namespace_chars) body)"

definition reserved_namespaces :: "string list" where
  "reserved_namespaces = [''registered'', ''config'']"

definition validate_namespace :: "string \<Rightarrow> unit result" where
  "validate_namespace ns =
     (if \<not> namespace_pattern_match ns then Inl ValidationError
      else if ns \<in> set reserved_namespaces then Inl ValidationError
      else Inr ())"

definition DEFAULT_NAMESPACE :: string where "DEFAULT_NAMESPACE = ''default''"

lemma validate_namespace_no_colon: "validate_namespace ns = Inr () \<Longrightarrow> CHR '':'' \<notin> set ns"
proof
  assume v: "validate_namespace ns = Inr ()" and c: "CHR '':'' \<in> set ns"
  from v have m: "namespace_pattern_match ns" by (auto simp: validate_namespace_def split: if_splits)
  have nc: "CHR '':'' \<notin> namespace_chars" by (simp add: namespace_chars_def)
  show False
  proof (cases "ns \<noteq> [] \<and> last ns = CHR 0x0A")
    case True
    then have ns: "ns = butlast ns @ [CHR 0x0A]" by (metis append_butlast_last_id)
    have "set ns = set (butlast ns @ [CHR 0x0A])" using ns by (rule arg_cong)
    with c have "CHR '':'' \<in> set (butlast ns)" by simp
    with m nc True show False by (auto simp: namespace_pattern_match_def Let_def list_all_iff)
  next
    case False
    then have "list_all (\<lambda>c. c \<in> namespace_chars) ns"
      using m by (simp add: namespace_pattern_match_def Let_def split: if_splits)
    with c nc show False by (auto simp: list_all_iff)
  qed
qed

section \<open>Keys\<close>

definition ns_key :: "string \<Rightarrow> string \<Rightarrow> string" where
  "ns_key ns suffix = ''dispatch:'' @ ns @ '':'' @ suffix"

definition KEY_REGISTERED :: string where "KEY_REGISTERED = ''dispatch:registered''"

definition pending_key :: "string \<Rightarrow> string" where "pending_key ns = ns_key ns ''pending''"
definition reserved_key :: "string \<Rightarrow> string" where "reserved_key ns = ns_key ns ''reserved''"
definition task_counts_key :: "string \<Rightarrow> string" where "task_counts_key ns = ns_key ns ''task_counts''"
definition producer_gate_key :: "string \<Rightarrow> string" where "producer_gate_key ns = ns_key ns ''producer_gate''"
definition job_key :: "string \<Rightarrow> string \<Rightarrow> string" where "job_key ns jid = ns_key ns (''job:'' @ jid)"
definition dedupe_key :: "string \<Rightarrow> string \<Rightarrow> string \<Rightarrow> string" where
  "dedupe_key ns tk wid = ns_key ns (''dedupe:'' @ tk @ '':'' @ wid)"
definition dedupe_key_for_namespace :: "string \<Rightarrow> string \<Rightarrow> string \<Rightarrow> string" where
  "dedupe_key_for_namespace ns tk wid = dedupe_key (if ns = [] then DEFAULT_NAMESPACE else ns) tk wid"
definition tick_counter_key :: "string \<Rightarrow> int \<Rightarrow> string" where
  "tick_counter_key ns tick = ns_key ns (''tick:'' @ str_of_int tick)"
definition pending_count_field :: "string \<Rightarrow> string" where "pending_count_field tk = ''pending:'' @ tk"
definition reserved_count_field :: "string \<Rightarrow> string" where "reserved_count_field tk = ''reserved:'' @ tk"

definition tick_metrics_key :: "string \<Rightarrow> int \<Rightarrow> string" where
  "tick_metrics_key ns hour = ns_key ns (''metrics:tick:'' @ str_of_int hour)"
definition queue_events_key :: "string \<Rightarrow> string" where
  "queue_events_key ns = ns_key ns ''metrics:cumulative:events''"
definition task_outcomes_key :: "string \<Rightarrow> string \<Rightarrow> string" where
  "task_outcomes_key ns tk = ns_key ns (''metrics:cumulative:task:'' @ tk)"
definition histograms_key :: "string \<Rightarrow> string" where
  "histograms_key ns = ns_key ns ''metrics:cumulative:histograms''"
definition started_at_key :: "string \<Rightarrow> string" where
  "started_at_key ns = ns_key ns ''metrics:cumulative:started_at''"

definition controller_key :: "string \<Rightarrow> string" where "controller_key ns = ns_key ns ''controller''"
definition pump_lock_key :: "string \<Rightarrow> string" where "pump_lock_key ns = ns_key ns ''pump_lock''"
definition pump_cleanup_key :: "string \<Rightarrow> string" where "pump_cleanup_key ns = ns_key ns ''pump_cleanup''"
definition pump_ticks_skipped_baseline_key :: "string \<Rightarrow> string" where
  "pump_ticks_skipped_baseline_key ns = ns_key ns ''pump_ticks_skipped_baseline''"
definition reap_cursor_key :: "string \<Rightarrow> string" where "reap_cursor_key zkey = zkey @ '':reap_cursor''"
definition rebuilt_key :: "string \<Rightarrow> string" where "rebuilt_key ns = ns_key ns ''task_counts_rebuilt''"
definition rebuild_requested_key :: "string \<Rightarrow> string" where
  "rebuild_requested_key ns = ns_key ns ''task_counts_rebuild_requested''"
definition rebuild_attempt_key :: "string \<Rightarrow> string" where
  "rebuild_attempt_key ns = ns_key ns ''task_counts_rebuild_attempt''"
definition rebuild_lock_key :: "string \<Rightarrow> string" where
  "rebuild_lock_key ns = ns_key ns ''task_counts_rebuild_lock''"

lemmas key_defs [key_simps] =
  KEY_REGISTERED_def pending_key_def reserved_key_def task_counts_key_def producer_gate_key_def job_key_def
  dedupe_key_def tick_counter_key_def tick_metrics_key_def queue_events_key_def task_outcomes_key_def
  histograms_key_def started_at_key_def controller_key_def pump_lock_key_def pump_cleanup_key_def
  pump_ticks_skipped_baseline_key_def reap_cursor_key_def rebuilt_key_def rebuild_requested_key_def
  rebuild_attempt_key_def rebuild_lock_key_def

lemma ns_key_eq [simp]: "ns_key ns a = ns_key ns b \<longleftrightarrow> a = b"
  by (simp add: ns_key_def)

lemma ns_key_append [key_simps]: "ns_key ns a @ b = ns_key ns (a @ b)"
  by (simp add: ns_key_def)

text \<open>A namespace without the separator is read back from its keys.\<close>

lemma ns_key_inj:
  assumes "CHR '':'' \<notin> set ns" and "CHR '':'' \<notin> set ns'"
  shows "ns_key ns a = ns_key ns' b \<longleftrightarrow> ns = ns' \<and> a = b"
  using split_at_first [OF assms, of a b] by (simp add: ns_key_def)

lemma ns_key_registered [simp]: "ns_key ns a \<noteq> KEY_REGISTERED"
proof
  assume "ns_key ns a = KEY_REGISTERED"
  then have "ns @ '':'' @ a = ''registered''" by (simp add: ns_key_def KEY_REGISTERED_def)
  then have "CHR '':'' \<in> set ''registered''" by (metis in_set_conv_decomp append_Cons append_Nil)
  then show False by simp
qed

section \<open>The keys of the queue state\<close>

text \<open>
  What a queue's job bookkeeping lives in: the two sorted sets, the per-task counts, the
  job records and the dedupe markers.
\<close>

definition queue_keys :: "string \<Rightarrow> string set" where
  "queue_keys ns = {pending_key ns, reserved_key ns, task_counts_key ns}
     \<union> range (job_key ns) \<union> {dedupe_key ns tk wid |tk wid. True}"

lemma queue_keys_distinct [simp]:
  "pending_key ns \<noteq> reserved_key ns" "reserved_key ns \<noteq> pending_key ns"
  "pending_key ns \<noteq> task_counts_key ns" "task_counts_key ns \<noteq> pending_key ns"
  "reserved_key ns \<noteq> task_counts_key ns" "task_counts_key ns \<noteq> reserved_key ns"
  "pending_key ns \<noteq> job_key ns j" "job_key ns j \<noteq> pending_key ns"
  "reserved_key ns \<noteq> job_key ns j" "job_key ns j \<noteq> reserved_key ns"
  "task_counts_key ns \<noteq> job_key ns j" "job_key ns j \<noteq> task_counts_key ns"
  "pending_key ns \<noteq> dedupe_key ns a b" "dedupe_key ns a b \<noteq> pending_key ns"
  "reserved_key ns \<noteq> dedupe_key ns a b" "dedupe_key ns a b \<noteq> reserved_key ns"
  "task_counts_key ns \<noteq> dedupe_key ns a b" "dedupe_key ns a b \<noteq> task_counts_key ns"
  "job_key ns j \<noteq> dedupe_key ns a b" "dedupe_key ns a b \<noteq> job_key ns j"
  by (simp_all add: key_simps)

lemma job_key_eq [simp]: "job_key ns i = job_key ns j \<longleftrightarrow> i = j"
  by (simp add: key_simps)

lemma tick_key_distinct [simp]:
  "tick_counter_key ns t \<noteq> pending_key ns" "pending_key ns \<noteq> tick_counter_key ns t"
  "tick_counter_key ns t \<noteq> reserved_key ns" "reserved_key ns \<noteq> tick_counter_key ns t"
  "tick_counter_key ns t \<noteq> task_counts_key ns" "task_counts_key ns \<noteq> tick_counter_key ns t"
  "tick_counter_key ns t \<noteq> job_key ns j" "job_key ns j \<noteq> tick_counter_key ns t"
  "tick_counter_key ns t \<noteq> dedupe_key ns a b" "dedupe_key ns a b \<noteq> tick_counter_key ns t"
  "producer_gate_key ns \<noteq> pending_key ns" "producer_gate_key ns \<noteq> reserved_key ns"
  "producer_gate_key ns \<noteq> task_counts_key ns" "producer_gate_key ns \<noteq> job_key ns j"
  "producer_gate_key ns \<noteq> dedupe_key ns a b" "producer_gate_key ns \<noteq> tick_counter_key ns t"
  by (simp_all add: key_simps)

lemma queue_keys_mem [simp]:
  "pending_key ns \<in> queue_keys ns" "reserved_key ns \<in> queue_keys ns" "task_counts_key ns \<in> queue_keys ns"
  "job_key ns j \<in> queue_keys ns" "dedupe_key ns tk wid \<in> queue_keys ns"
  by (auto simp: queue_keys_def)

text \<open>Every other family stays out of the queue state.\<close>

lemma queue_keys_other [simp]:
  "producer_gate_key ns \<notin> queue_keys ns" "tick_counter_key ns t \<notin> queue_keys ns"
  "tick_metrics_key ns h \<notin> queue_keys ns" "queue_events_key ns \<notin> queue_keys ns"
  "task_outcomes_key ns tk \<notin> queue_keys ns" "histograms_key ns \<notin> queue_keys ns"
  "started_at_key ns \<notin> queue_keys ns" "controller_key ns \<notin> queue_keys ns"
  "pump_lock_key ns \<notin> queue_keys ns" "pump_cleanup_key ns \<notin> queue_keys ns"
  "pump_ticks_skipped_baseline_key ns \<notin> queue_keys ns"
  "reap_cursor_key (pending_key ns) \<notin> queue_keys ns" "reap_cursor_key (reserved_key ns) \<notin> queue_keys ns"
  "rebuilt_key ns \<notin> queue_keys ns" "rebuild_requested_key ns \<notin> queue_keys ns"
  "rebuild_attempt_key ns \<notin> queue_keys ns" "rebuild_lock_key ns \<notin> queue_keys ns"
  by (auto simp: queue_keys_def key_simps)

lemma queue_keys_other_ns:
  assumes "CHR '':'' \<notin> set ns" and "CHR '':'' \<notin> set ns'" and "ns \<noteq> ns'"
  shows "ns_key ns' a \<notin> queue_keys ns"
  using assms by (auto simp: queue_keys_def pending_key_def reserved_key_def task_counts_key_def job_key_def
      dedupe_key_def ns_key_inj)

lemma count_fields_distinct [simp]:
  "pending_count_field a \<noteq> reserved_count_field b" "reserved_count_field b \<noteq> pending_count_field a"
  "pending_count_field a = pending_count_field b \<longleftrightarrow> a = b"
  "reserved_count_field a = reserved_count_field b \<longleftrightarrow> a = b"
  "pending_count_field a \<noteq> []" "reserved_count_field a \<noteq> []"
  by (simp_all add: pending_count_field_def reserved_count_field_def)

end
