(* ===== verification/Outcomes.thy ===== *)
theory Outcomes
  imports Config
begin

text \<open>\<open>dispatch/outcomes.py\<close>: outcome tags and the outcome of one work item.\<close>

datatype outcome_type =
    SUCCESS | TIMEOUT | REQUEUED | REQUEUE_EXHAUSTED | ERROR | SKIPPED | ENQUEUED
  | ENQUEUE_DUPLICATE | ENQUEUE_CAPACITY_REJECTED | ENQUEUE_PRODUCER_PAUSED
  | ENQUEUE_DEADLINE_EXPIRED | ENQUEUE_UNAVAILABLE | EXPIRED

fun outcome_value :: "outcome_type \<Rightarrow> string" where
  "outcome_value SUCCESS = ''success''"
| "outcome_value TIMEOUT = ''timeout''"
| "outcome_value REQUEUED = ''requeued''"
| "outcome_value REQUEUE_EXHAUSTED = ''requeue_exhausted''"
| "outcome_value ERROR = ''error''"
| "outcome_value SKIPPED = ''skipped''"
| "outcome_value ENQUEUED = ''enqueued''"
| "outcome_value ENQUEUE_DUPLICATE = ''enqueue_duplicate''"
| "outcome_value ENQUEUE_CAPACITY_REJECTED = ''enqueue_capacity_rejected''"
| "outcome_value ENQUEUE_PRODUCER_PAUSED = ''enqueue_producer_paused''"
| "outcome_value ENQUEUE_DEADLINE_EXPIRED = ''enqueue_deadline_expired''"
| "outcome_value ENQUEUE_UNAVAILABLE = ''enqueue_unavailable''"
| "outcome_value EXPIRED = ''expired''"

definition all_outcome_types :: "outcome_type list" where
  "all_outcome_types = [SUCCESS, TIMEOUT, REQUEUED, REQUEUE_EXHAUSTED, ERROR, SKIPPED, ENQUEUED,
     ENQUEUE_DUPLICATE, ENQUEUE_CAPACITY_REJECTED, ENQUEUE_PRODUCER_PAUSED, ENQUEUE_DEADLINE_EXPIRED,
     ENQUEUE_UNAVAILABLE, EXPIRED]"

record dispatch_outcome =
  oc_outcome :: outcome_type
  oc_error :: "exn option"
  elapsed_seconds :: real
  oc_should_requeue :: bool
  oc_requeue_cooldown_seconds :: int
  exhausted_outcome :: "outcome_type option"

definition DispatchOutcome :: "outcome_type \<Rightarrow> dispatch_outcome" where
  "DispatchOutcome t = \<lparr>oc_outcome = t, oc_error = None, elapsed_seconds = -1, oc_should_requeue = False,
     oc_requeue_cooldown_seconds = DEFAULT_REQUEUE_COOLDOWN_SECONDS, exhausted_outcome = None\<rparr>"

lemma all_outcome_types_complete: "t \<in> set all_outcome_types"
  by (cases t) (simp_all add: all_outcome_types_def)

lemma outcome_value_inj: "outcome_value a = outcome_value b \<longleftrightarrow> a = b"
  by (cases a; cases b) simp_all

end
