(* ===== verification/Redis.thy ===== *)
theory Redis
  imports Prelude
begin

text \<open>
  The services the dispatch package calls and that are not part of the repository: the
  Redis server, the connection to it, the clocks and the Celery broker. They are one
  parameter, a record of functions over an abstract state, and the locale \<open>redis\<close> states
  the documented behaviour the code relies on, through a view of the observable store.
  Theory Redis_Mem holds a reference instance.
\<close>

section \<open>The parameter: commands, connection, clocks, broker\<close>

text \<open>What became of one round trip: executed and answered, not executed, or executed
  with the answer lost. The client raises in the last two cases.\<close>

datatype reply = Answered | Refused | Lost

record 's env =
  r_get :: "'s \<Rightarrow> string \<Rightarrow> pyval option"
  r_exists :: "'s \<Rightarrow> string \<Rightarrow> bool"
  r_set :: "'s \<Rightarrow> string \<Rightarrow> pyval \<Rightarrow> int option \<Rightarrow> 's"
  r_setnx :: "'s \<Rightarrow> string \<Rightarrow> pyval \<Rightarrow> int option \<Rightarrow> bool \<times> 's"
  r_del :: "'s \<Rightarrow> string \<Rightarrow> int \<times> 's"
  r_expire :: "'s \<Rightarrow> string \<Rightarrow> int \<Rightarrow> 's"
  r_ttl :: "'s \<Rightarrow> string \<Rightarrow> int"
  r_zscore :: "'s \<Rightarrow> string \<Rightarrow> string \<Rightarrow> real option"
  r_zcard :: "'s \<Rightarrow> string \<Rightarrow> int"
  r_zcount :: "'s \<Rightarrow> string \<Rightarrow> real option \<Rightarrow> real option \<Rightarrow> int"
  r_zadd :: "'s \<Rightarrow> string \<Rightarrow> real \<Rightarrow> string \<Rightarrow> 's"
  r_zrem :: "'s \<Rightarrow> string \<Rightarrow> string \<Rightarrow> int \<times> 's"
  r_zrangebyscore :: "'s \<Rightarrow> string \<Rightarrow> real \<Rightarrow> nat \<Rightarrow> string list"
  r_zscan :: "'s \<Rightarrow> string \<Rightarrow> int \<Rightarrow> int \<Rightarrow> int \<times> string list"
  r_hget :: "'s \<Rightarrow> string \<Rightarrow> string \<Rightarrow> pyval option"
  r_hgetall :: "'s \<Rightarrow> string \<Rightarrow> (string \<times> pyval) list"
  r_hset :: "'s \<Rightarrow> string \<Rightarrow> string \<Rightarrow> pyval \<Rightarrow> 's"
  r_hdel :: "'s \<Rightarrow> string \<Rightarrow> string \<Rightarrow> 's"
  r_hincrby :: "'s \<Rightarrow> string \<Rightarrow> string \<Rightarrow> int \<Rightarrow> int result \<times> 's"
  r_hincrbyfloat :: "'s \<Rightarrow> string \<Rightarrow> string \<Rightarrow> real \<Rightarrow> 's"
  r_keys :: "'s \<Rightarrow> string \<Rightarrow> string list"
  net :: "'s \<Rightarrow> reply \<times> 's"
  wall :: "'s \<Rightarrow> real \<times> 's"
  mono :: "'s \<Rightarrow> real \<times> 's"
  celery_publish :: "'s \<Rightarrow> string \<Rightarrow> bool \<times> 's"

text \<open>One Redis round trip from Python, and one \<open>EVAL\<close>: a Lua script runs atomically on
  the server, and an error it raises reaches the client as an exception.\<close>

definition rpc :: "'s env \<Rightarrow> ('s \<Rightarrow> 'a \<times> 's) \<Rightarrow> 's \<Rightarrow> 'a result \<times> 's" where
  "rpc R cmd s =
     (case fst (net R s) of
        Answered \<Rightarrow> (Inr (fst (cmd (snd (net R s)))), snd (cmd (snd (net R s))))
      | Refused \<Rightarrow> (Inl RedisError, snd (net R s))
      | Lost \<Rightarrow> (Inl RedisError, snd (cmd (snd (net R s)))))"

definition rpc_script :: "'s env \<Rightarrow> ('s \<Rightarrow> 'a result \<times> 's) \<Rightarrow> 's \<Rightarrow> 'a result \<times> 's" where
  "rpc_script R script s =
     (case rpc R script s of
        (Inl e, s') \<Rightarrow> (Inl e, s')
      | (Inr v, s') \<Rightarrow> (v, s'))"

text \<open>A read issued from Python.\<close>

definition rread :: "'s env \<Rightarrow> ('s \<Rightarrow> 'a) \<Rightarrow> 's \<Rightarrow> 'a result \<times> 's" where
  "rread R q = rpc R (\<lambda>s. (q s, s))"

text \<open>A write issued from Python whose answer is not used.\<close>

definition rwrite :: "'s env \<Rightarrow> ('s \<Rightarrow> 's) \<Rightarrow> 's \<Rightarrow> unit result \<times> 's" where
  "rwrite R w = rpc R (\<lambda>s. ((), w s))"

text \<open>Evaluating a write runs it on the state at hand.\<close>

lemma rwrite_code [code]:
  "rwrite R w s =
     (case fst (net R s) of
        Answered \<Rightarrow> (Inr (), w (snd (net R s)))
      | Refused \<Rightarrow> (Inl RedisError, snd (net R s))
      | Lost \<Rightarrow> (Inl RedisError, w (snd (net R s))))"
  by (simp add: rwrite_def rpc_def split: reply.split)

text \<open>Sequencing inside a \<open>try\<close> block: the first exception leaves it, with the state it found.\<close>

definition bind_try :: "('s \<Rightarrow> 'a result \<times> 's) \<Rightarrow> ('a \<Rightarrow> 's \<Rightarrow> 'b result \<times> 's) \<Rightarrow> 's \<Rightarrow> 'b result \<times> 's" where
  "bind_try m f s = (case m s of (Inl e, s) \<Rightarrow> (Inl e, s) | (Inr x, s) \<Rightarrow> f x s)"

lemma bind_try_simps [simp]:
  "m s = (Inl e, s') \<Longrightarrow> bind_try m f s = (Inl e, s')"
  "m s = (Inr x, s') \<Longrightarrow> bind_try m f s = f x s'"
  by (simp_all add: bind_try_def)

text \<open>A property of the state that every command of a sequence keeps.\<close>

lemma bind_try_keeps:
  assumes "P (snd (m s))" and "\<And>x s'. P s' \<Longrightarrow> P (snd (f x s'))"
  shows "P (snd (bind_try m f s))"
proof (cases "m s")
  case (Pair r s')
  then show ?thesis using assms by (cases r) simp_all
qed

section \<open>The observable store\<close>

text \<open>
  One map per data type, the remaining time to live of the keys that have one, and the
  job ids handed to the broker. Every key family of the package is used with one data
  type only, so a key of one type is never addressed by a command of another.
\<close>

record view =
  kv :: "string \<rightharpoonup> pyval"
  zs :: "string \<Rightarrow> string \<rightharpoonup> real"
  hs :: "string \<Rightarrow> string \<rightharpoonup> pyval"
  tl :: "string \<rightharpoonup> int"
  sent :: "string list"

definition present :: "view \<Rightarrow> string \<Rightarrow> bool" where
  "present v k \<longleftrightarrow> kv v k \<noteq> None \<or> zs v k \<noteq> Map.empty \<or> hs v k \<noteq> Map.empty"

definition v_set :: "string \<Rightarrow> pyval \<Rightarrow> int option \<Rightarrow> view \<Rightarrow> view" where
  "v_set k x ex v = v\<lparr>kv := (kv v)(k \<mapsto> x), tl := (tl v)(k := ex)\<rparr>"

definition v_del :: "string \<Rightarrow> view \<Rightarrow> view" where
  "v_del k v = v\<lparr>kv := (kv v)(k := None), zs := (zs v)(k := Map.empty),
                 hs := (hs v)(k := Map.empty), tl := (tl v)(k := None)\<rparr>"

definition v_expire :: "string \<Rightarrow> int \<Rightarrow> view \<Rightarrow> view" where
  "v_expire k n v = (if present v k then v\<lparr>tl := (tl v)(k \<mapsto> n)\<rparr> else v)"

definition v_zadd :: "string \<Rightarrow> real \<Rightarrow> string \<Rightarrow> view \<Rightarrow> view" where
  "v_zadd k sc m v = v\<lparr>zs := (zs v)(k := (zs v k)(m \<mapsto> sc))\<rparr>"

definition v_zrem :: "string \<Rightarrow> string \<Rightarrow> view \<Rightarrow> view" where
  "v_zrem k m v = v\<lparr>zs := (zs v)(k := (zs v k)(m := None)),
     tl := (if (zs v k)(m := None) = Map.empty then (tl v)(k := None) else tl v)\<rparr>"

definition v_hset :: "string \<Rightarrow> string \<Rightarrow> pyval \<Rightarrow> view \<Rightarrow> view" where
  "v_hset k f x v = v\<lparr>hs := (hs v)(k := (hs v k)(f \<mapsto> x))\<rparr>"

definition v_hdel :: "string \<Rightarrow> string \<Rightarrow> view \<Rightarrow> view" where
  "v_hdel k f v = v\<lparr>hs := (hs v)(k := (hs v k)(f := None)),
     tl := (if (hs v k)(f := None) = Map.empty then (tl v)(k := None) else tl v)\<rparr>"

definition hash_int :: "view \<Rightarrow> string \<Rightarrow> string \<Rightarrow> int option" where
  "hash_int v k f = (case hs v k f of None \<Rightarrow> Some 0 | Some (PInt i) \<Rightarrow> Some i | Some _ \<Rightarrow> None)"

definition v_hincrby :: "string \<Rightarrow> string \<Rightarrow> int \<Rightarrow> view \<Rightarrow> view" where
  "v_hincrby k f n v =
     (case hash_int v k f of None \<Rightarrow> v | Some i \<Rightarrow> v_hset k f (PInt (i + n)) v)"

definition hash_real :: "view \<Rightarrow> string \<Rightarrow> string \<Rightarrow> real" where
  "hash_real v k f =
     (case hs v k f of Some (PInt i) \<Rightarrow> of_int i | Some (PFloat r) \<Rightarrow> r | _ \<Rightarrow> 0)"

definition v_hincrbyfloat :: "string \<Rightarrow> string \<Rightarrow> real \<Rightarrow> view \<Rightarrow> view" where
  "v_hincrbyfloat k f x v = v_hset k f (PFloat (hash_real v k f + x)) v"

definition in_range :: "real option \<Rightarrow> real option \<Rightarrow> real \<Rightarrow> bool" where
  "in_range lo hi x \<longleftrightarrow>
     (case lo of None \<Rightarrow> True | Some a \<Rightarrow> a \<le> x) \<and> (case hi of None \<Rightarrow> True | Some b \<Rightarrow> x \<le> b)"

text \<open>The members of a sorted set with a score up to \<open>mx\<close>.\<close>

definition due :: "(string \<rightharpoonup> real) \<Rightarrow> real \<Rightarrow> string set" where
  "due z mx = {m. \<exists>sc. z m = Some sc \<and> sc \<le> mx}"

lemmas view_ops =
  v_set_def v_del_def v_zadd_def v_zrem_def v_hset_def v_hdel_def

section \<open>Documented behaviour\<close>

locale redis =
  fixes R :: "'s env"
    and V :: "'s \<Rightarrow> view"
  assumes law_get: "r_get R s k = kv (V s) k"
    and law_exists: "r_exists R s k = present (V s) k"
    and law_set: "V (r_set R s k x ex) = v_set k x ex (V s)"
    and law_setnx_ok: "fst (r_setnx R s k x ex) = (\<not> present (V s) k)"
    and law_setnx: "V (snd (r_setnx R s k x ex)) = (if present (V s) k then V s else v_set k x ex (V s))"
    and law_del_n: "fst (r_del R s k) = (if present (V s) k then 1 else 0)"
    and law_del: "V (snd (r_del R s k)) = v_del k (V s)"
    and law_expire: "V (r_expire R s k n) = v_expire k n (V s)"
    and law_ttl: "r_ttl R s k = (if present (V s) k then (case tl (V s) k of None \<Rightarrow> -1 | Some n \<Rightarrow> n) else -2)"
    and law_finite: "finite (dom (zs (V s) k))"
    and law_zscore: "r_zscore R s k m = zs (V s) k m"
    and law_zcard: "r_zcard R s k = int (card (dom (zs (V s) k)))"
    and law_zcount: "r_zcount R s k lo hi = int (card {m. \<exists>sc. zs (V s) k m = Some sc \<and> in_range lo hi sc})"
    and law_zadd: "V (r_zadd R s k sc m) = v_zadd k sc m (V s)"
    and law_zrem_n: "fst (r_zrem R s k m) = (if zs (V s) k m = None then 0 else 1)"
    and law_zrem: "V (snd (r_zrem R s k m)) = v_zrem k m (V s)"
    and law_zrange_distinct: "distinct (r_zrangebyscore R s k mx num)"
    and law_zrange_due: "set (r_zrangebyscore R s k mx num) \<subseteq> due (zs (V s) k) mx"
    and law_zrange_len: "length (r_zrangebyscore R s k mx num) = min num (card (due (zs (V s) k) mx))"
    and law_zrange_sorted: "sorted (map (\<lambda>m. the (zs (V s) k m)) (r_zrangebyscore R s k mx num))"
    and law_zrange_first: "m \<in> set (r_zrangebyscore R s k mx num) \<Longrightarrow>
          m' \<in> due (zs (V s) k) mx - set (r_zrangebyscore R s k mx num) \<Longrightarrow>
          the (zs (V s) k m) \<le> the (zs (V s) k m')"
    and law_hget: "r_hget R s k f = hs (V s) k f"
    and law_hgetall: "map_of (r_hgetall R s k) = hs (V s) k"
    and law_hgetall_distinct: "distinct (map fst (r_hgetall R s k))"
    and law_hset: "V (r_hset R s k f x) = v_hset k f x (V s)"
    and law_hdel: "V (r_hdel R s k f) = v_hdel k f (V s)"
    and law_hincrby_r: "fst (r_hincrby R s k f n) =
          (case hash_int (V s) k f of None \<Rightarrow> Inl ScriptError | Some i \<Rightarrow> Inr (i + n))"
    and law_hincrby: "V (snd (r_hincrby R s k f n)) = v_hincrby k f n (V s)"
    and law_hincrbyfloat: "V (r_hincrbyfloat R s k f r) = v_hincrbyfloat k f r (V s)"
    and law_keys: "set (r_keys R s p) = {k. present (V s) k \<and> starts_with k p}"
    and law_net: "V (snd (net R s)) = V s"
    and law_wall: "V (snd (wall R s)) = V s"
    and law_mono: "V (snd (mono R s)) = V s"
    and law_publish: "V (snd (celery_publish R s j)) =
          (if fst (celery_publish R s j) then (V s)\<lparr>sent := sent (V s) @ [j]\<rparr> else V s)"
begin

lemmas laws [simp] =
  law_get law_exists law_set law_setnx_ok law_setnx law_del_n law_del law_expire law_ttl
  law_finite law_zscore law_zcard law_zcount law_zadd law_zrem_n law_zrem
  law_hget law_hgetall law_hset law_hdel law_hincrby_r law_hincrby law_hincrbyfloat
  law_keys law_net law_wall law_mono

text \<open>
  A round trip either leaves the store alone or runs the command once, and it answers with
  the command's value on a state that shows the same store.
\<close>

lemma rpc_cases:
  obtains (answered) s1 where "V s1 = V s" "rpc R cmd s = (Inr (fst (cmd s1)), snd (cmd s1))"
  | (refused) s1 where "V s1 = V s" "rpc R cmd s = (Inl RedisError, s1)"
  | (lost) s1 where "V s1 = V s" "rpc R cmd s = (Inl RedisError, snd (cmd s1))"
proof (cases "fst (net R s)")
  case Answered
  then show ?thesis using answered [of "snd (net R s)"] by (simp add: rpc_def)
next
  case Refused
  then show ?thesis using refused [of "snd (net R s)"] by (simp add: rpc_def)
next
  case Lost
  then show ?thesis using lost [of "snd (net R s)"] by (simp add: rpc_def)
qed

lemma rpc_script_cases:
  obtains (ran) s1 where "V s1 = V s" "rpc_script R f s = f s1"
  | (refused) s1 where "V s1 = V s" "rpc_script R f s = (Inl RedisError, s1)"
  | (lost) s1 where "V s1 = V s" "rpc_script R f s = (Inl RedisError, snd (f s1))"
proof (cases rule: rpc_cases [of s f])
  case (answered s1)
  then show ?thesis using ran [of s1] by (simp add: rpc_script_def)
next
  case (refused s1)
  then show ?thesis using that(2) [of s1] by (simp add: rpc_script_def)
next
  case (lost s1)
  then show ?thesis using that(3) [of s1] by (simp add: rpc_script_def)
qed

text \<open>An answer means that the command ran.\<close>

lemma rpc_Inr:
  assumes "rpc R cmd s = (Inr x, s')"
  obtains s1 where "V s1 = V s" "cmd s1 = (x, s')"
  by (cases rule: rpc_cases [of s cmd]) (use assms in \<open>auto intro: that simp: prod_eq_iff\<close>)

lemma rpc_script_Inr:
  assumes "rpc_script R f s = (Inr x, s')"
  obtains s1 where "V s1 = V s" "f s1 = (Inr x, s')"
  by (cases rule: rpc_script_cases [of s f]) (use assms in \<open>auto intro: that\<close>)

text \<open>A read never changes the store and, when answered, returns what the store holds.\<close>

lemma rread_view [simp]: "V (snd (rread R q s)) = V s"
  by (cases rule: rpc_cases [of s "\<lambda>s. (q s, s)"]) (auto simp: rread_def)

lemma rread_Inr:
  assumes "rread R q s = (Inr x, s')"
  obtains s1 where "V s1 = V s" "x = q s1"
  using assms by (cases rule: rpc_cases [of s "\<lambda>s. (q s, s)"]) (auto simp: rread_def intro: that)

lemma rwrite_Inr:
  assumes "rwrite R w s = (Inr u, s')"
  obtains s1 where "V s1 = V s" "s' = w s1"
  using assms unfolding rwrite_def by (auto elim!: rpc_Inr)

text \<open>An invariant of the store survives a round trip when the command keeps it.\<close>

lemma rpc_invariant:
  assumes "I (V s)" and "\<And>s1. V s1 = V s \<Longrightarrow> I (V (snd (cmd s1)))"
  shows "I (V (snd (rpc R cmd s)))"
  by (cases rule: rpc_cases [of s cmd]) (use assms in auto)

lemma rpc_script_invariant:
  assumes "I (V s)" and "\<And>s1. V s1 = V s \<Longrightarrow> I (V (snd (f s1)))"
  shows "I (V (snd (rpc_script R f s)))"
  by (cases rule: rpc_script_cases [of s f]) (use assms in auto)

lemma zrange_present:
  "m \<in> set (r_zrangebyscore R s k mx n) \<Longrightarrow> zs (V s) k m \<noteq> None"
  using law_zrange_due [of s k mx n] by (auto simp: due_def)

end

text \<open>
  \<open>ZSCAN\<close>: \<open>remains s k c\<close> is what a scan of \<open>k\<close> still owes from cursor \<open>c\<close>, and
  \<open>scan_steps\<close> a bound on its remaining calls. A full iteration visits every member that
  stays in the set, a member may be returned more than once, and an iteration over a set
  that does not grow ends.
\<close>

locale redis_scan = redis R V
  for R :: "'s env" and V :: "'s \<Rightarrow> view" +
  fixes remains :: "'s \<Rightarrow> string \<Rightarrow> int \<Rightarrow> string set"
    and scan_steps :: "'s \<Rightarrow> string \<Rightarrow> int \<Rightarrow> nat"
  assumes law_scan_start: "remains s k 0 = dom (zs (V s) k)"
    and law_scan_page: "set (snd (r_zscan R s k c n)) \<subseteq> dom (zs (V s) k)"
    and law_scan_next: "fst (r_zscan R s k c n) \<noteq> 0 \<Longrightarrow>
          remains s k c \<subseteq> set (snd (r_zscan R s k c n)) \<union> remains s k (fst (r_zscan R s k c n))"
    and law_scan_last: "fst (r_zscan R s k c n) = 0 \<Longrightarrow> remains s k c \<subseteq> set (snd (r_zscan R s k c n))"
    and law_scan_steps: "fst (r_zscan R s k c n) \<noteq> 0 \<Longrightarrow>
          scan_steps s k (fst (r_zscan R s k c n)) < scan_steps s k c"
    and law_scan_view: "zs (V s') k = zs (V s) k \<Longrightarrow> remains s' k c = remains s k c"
    and law_scan_shrink: "dom (zs (V s') k) \<subseteq> dom (zs (V s) k) \<Longrightarrow> scan_steps s' k c \<le> scan_steps s k c"

text \<open>A connection on which every round trip is answered.\<close>

locale redis_up = redis R V
  for R :: "'s env" and V :: "'s \<Rightarrow> view" +
  assumes law_up: "fst (net R s) = Answered"
begin

lemma rpc_up: "rpc R cmd s = (Inr (fst (cmd (snd (net R s)))), snd (cmd (snd (net R s))))"
  by (simp add: rpc_def law_up)

lemma rpc_script_up: "rpc_script R f s = f (snd (net R s))"
  by (simp add: rpc_script_def rpc_up)

lemma rread_up: "rread R q s = (Inr (q (snd (net R s))), snd (net R s))"
  by (simp add: rread_def rpc_up)

lemma rwrite_up: "rwrite R w s = (Inr (), w (snd (net R s)))"
  by (simp add: rwrite_def rpc_up)

end

section \<open>Frames: the keys an operation may touch\<close>

text \<open>\<open>same_at A v v'\<close>: the two stores agree on every key in \<open>A\<close>, whatever its type, and the
  same jobs were handed to the broker.\<close>

definition same_at :: "string set \<Rightarrow> view \<Rightarrow> view \<Rightarrow> bool" where
  "same_at A v v' \<longleftrightarrow>
     sent v' = sent v \<and> (\<forall>k\<in>A. kv v' k = kv v k \<and> zs v' k = zs v k \<and> hs v' k = hs v k \<and> tl v' k = tl v k)"

lemma same_at_refl [simp]: "same_at A v v"
  by (simp add: same_at_def)

lemma same_at_trans [trans]: "same_at A u v \<Longrightarrow> same_at A v w \<Longrightarrow> same_at A u w"
  by (simp add: same_at_def)

lemma same_at_sym: "same_at A u v \<Longrightarrow> same_at A v u"
  by (simp add: same_at_def)

lemma same_at_mono: "same_at A u v \<Longrightarrow> B \<subseteq> A \<Longrightarrow> same_at B u v"
  by (auto simp: same_at_def)

lemma same_at_present: "same_at A u v \<Longrightarrow> k \<in> A \<Longrightarrow> present v k = present u k"
  by (simp add: same_at_def present_def)

lemma same_at_ops [frame_simps]:
  "k \<notin> A \<Longrightarrow> same_at A u (v_set k x ex v) = same_at A u v"
  "k \<notin> A \<Longrightarrow> same_at A u (v_del k v) = same_at A u v"
  "k \<notin> A \<Longrightarrow> same_at A u (v_expire k n v) = same_at A u v"
  "k \<notin> A \<Longrightarrow> same_at A u (v_zadd k sc m v) = same_at A u v"
  "k \<notin> A \<Longrightarrow> same_at A u (v_zrem k m v) = same_at A u v"
  "k \<notin> A \<Longrightarrow> same_at A u (v_hset k f x v) = same_at A u v"
  "k \<notin> A \<Longrightarrow> same_at A u (v_hdel k f v) = same_at A u v"
  "k \<notin> A \<Longrightarrow> same_at A u (v_hincrby k f i v) = same_at A u v"
  "k \<notin> A \<Longrightarrow> same_at A u (v_hincrbyfloat k f r v) = same_at A u v"
  by (auto simp: same_at_def view_ops v_expire_def v_hincrby_def v_hincrbyfloat_def split: option.splits)

end
