(* ===== verification/Redis_Mem.thy ===== *)
theory Redis_Mem
  imports Redis
begin

text \<open>
  A reference instance of the Redis interface over association lists. The connection, the
  clocks and the broker answer from scripts carried in the state, so that failures and the
  passage of time can be chosen in a concrete run. It satisfies every law of \<open>redis\<close>.
\<close>

section \<open>A reference instance over association lists\<close>

record mem =
  m_kv :: "(string \<times> pyval) list"
  m_zs :: "(string \<times> (string \<times> real) list) list"
  m_hs :: "(string \<times> (string \<times> pyval) list) list"
  m_tl :: "(string \<times> int) list"
  m_sent :: "string list"
  m_net :: "reply list"
  m_wall :: "real list"
  m_mono :: "real list"
  m_pub :: "bool list"
  m_cache :: "(string \<times> pyval) list"
  m_rows :: "(string \<times> (string \<times> pyval) list) list"

definition sub :: "(string \<times> ('k \<times> 'v) list) list \<Rightarrow> string \<Rightarrow> ('k \<times> 'v) list" where
  "sub l k = (case map_of l k of None \<Rightarrow> [] | Some x \<Rightarrow> x)"

definition mem_view :: "mem \<Rightarrow> view" where
  "mem_view s = \<lparr>kv = map_of (m_kv s), zs = (\<lambda>k. map_of (sub (m_zs s) k)),
     hs = (\<lambda>k. map_of (sub (m_hs s) k)), tl = map_of (m_tl s), sent = m_sent s\<rparr>"

definition mem_present :: "mem \<Rightarrow> string \<Rightarrow> bool" where
  "mem_present s k \<longleftrightarrow> map_of (m_kv s) k \<noteq> None \<or> sub (m_zs s) k \<noteq> [] \<or> sub (m_hs s) k \<noteq> []"

definition mem_set :: "mem \<Rightarrow> string \<Rightarrow> pyval \<Rightarrow> int option \<Rightarrow> mem" where
  "mem_set s k x ex = s\<lparr>m_kv := AList.update k x (m_kv s),
     m_tl := (case ex of None \<Rightarrow> AList.delete k (m_tl s) | Some n \<Rightarrow> AList.update k n (m_tl s))\<rparr>"

definition mem_del :: "mem \<Rightarrow> string \<Rightarrow> mem" where
  "mem_del s k = s\<lparr>m_kv := AList.delete k (m_kv s), m_zs := AList.delete k (m_zs s),
     m_hs := AList.delete k (m_hs s), m_tl := AList.delete k (m_tl s)\<rparr>"

definition mem_hset :: "mem \<Rightarrow> string \<Rightarrow> string \<Rightarrow> pyval \<Rightarrow> mem" where
  "mem_hset s k f x = s\<lparr>m_hs := AList.update k (AList.update f x (sub (m_hs s) k)) (m_hs s)\<rparr>"

definition mem_hdel :: "mem \<Rightarrow> string \<Rightarrow> string \<Rightarrow> mem" where
  "mem_hdel s k f =
     (let l = AList.delete f (sub (m_hs s) k) in
      s\<lparr>m_hs := AList.update k l (m_hs s), m_tl := (if l = [] then AList.delete k (m_tl s) else m_tl s)\<rparr>)"

definition mem_zrem :: "mem \<Rightarrow> string \<Rightarrow> string \<Rightarrow> mem" where
  "mem_zrem s k m =
     (let l = AList.delete m (sub (m_zs s) k) in
      s\<lparr>m_zs := AList.update k l (m_zs s), m_tl := (if l = [] then AList.delete k (m_tl s) else m_tl s)\<rparr>)"

definition mem_hash_int :: "mem \<Rightarrow> string \<Rightarrow> string \<Rightarrow> int option" where
  "mem_hash_int s k f =
     (case map_of (sub (m_hs s) k) f of None \<Rightarrow> Some 0 | Some (PInt i) \<Rightarrow> Some i | Some _ \<Rightarrow> None)"

definition mem_hash_real :: "mem \<Rightarrow> string \<Rightarrow> string \<Rightarrow> real" where
  "mem_hash_real s k f =
     (case map_of (sub (m_hs s) k) f of Some (PInt i) \<Rightarrow> of_int i | Some (PFloat r) \<Rightarrow> r | _ \<Rightarrow> 0)"

definition mem_due :: "mem \<Rightarrow> string \<Rightarrow> real \<Rightarrow> (string \<times> real) list" where
  "mem_due s k mx = sort_key snd (filter (\<lambda>(m, sc). sc \<le> mx) (AList.clearjunk (sub (m_zs s) k)))"

definition mem_env :: "mem env" where
  "mem_env = \<lparr>
     r_get = (\<lambda>s k. map_of (m_kv s) k),
     r_exists = mem_present,
     r_set = mem_set,
     r_setnx = (\<lambda>s k x ex. if mem_present s k then (False, s) else (True, mem_set s k x ex)),
     r_del = (\<lambda>s k. (if mem_present s k then 1 else 0, mem_del s k)),
     r_expire = (\<lambda>s k n. if mem_present s k then s\<lparr>m_tl := AList.update k n (m_tl s)\<rparr> else s),
     r_ttl = (\<lambda>s k. if mem_present s k then (case map_of (m_tl s) k of None \<Rightarrow> -1 | Some n \<Rightarrow> n) else -2),
     r_zscore = (\<lambda>s k m. map_of (sub (m_zs s) k) m),
     r_zcard = (\<lambda>s k. int (length (AList.clearjunk (sub (m_zs s) k)))),
     r_zcount = (\<lambda>s k lo hi. int (length (filter (\<lambda>(m, sc). in_range lo hi sc) (AList.clearjunk (sub (m_zs s) k))))),
     r_zadd = (\<lambda>s k sc m. s\<lparr>m_zs := AList.update k (AList.update m sc (sub (m_zs s) k)) (m_zs s)\<rparr>),
     r_zrem = (\<lambda>s k m. (if map_of (sub (m_zs s) k) m = None then 0 else 1,
                mem_zrem s k m)),
     r_zrangebyscore = (\<lambda>s k mx n. take n (map fst (mem_due s k mx))),
     r_zscan = (\<lambda>s k c n. (0, map fst (AList.clearjunk (sub (m_zs s) k)))),
     r_hget = (\<lambda>s k f. map_of (sub (m_hs s) k) f),
     r_hgetall = (\<lambda>s k. AList.clearjunk (sub (m_hs s) k)),
     r_hset = mem_hset,
     r_hdel = mem_hdel,
     r_hincrby = (\<lambda>s k f n. case mem_hash_int s k f of
                    None \<Rightarrow> (Inl ScriptError, s) | Some i \<Rightarrow> (Inr (i + n), mem_hset s k f (PInt (i + n)))),
     r_hincrbyfloat = (\<lambda>s k f x. mem_hset s k f (PFloat (mem_hash_real s k f + x))),
     r_keys = (\<lambda>s p. filter (\<lambda>k. mem_present s k \<and> starts_with k p)
                (remdups (map fst (m_kv s) @ map fst (m_zs s) @ map fst (m_hs s)))),
     net = (\<lambda>s. case m_net s of [] \<Rightarrow> (Answered, s) | r # rs \<Rightarrow> (r, s\<lparr>m_net := rs\<rparr>)),
     wall = (\<lambda>s. case m_wall s of [] \<Rightarrow> (0, s) | [t] \<Rightarrow> (t, s) | t # ts \<Rightarrow> (t, s\<lparr>m_wall := ts\<rparr>)),
     mono = (\<lambda>s. case m_mono s of [] \<Rightarrow> (0, s) | [t] \<Rightarrow> (t, s) | t # ts \<Rightarrow> (t, s\<lparr>m_mono := ts\<rparr>)),
     celery_publish = (\<lambda>s j. case m_pub s of
                        [] \<Rightarrow> (True, s\<lparr>m_sent := m_sent s @ [j]\<rparr>)
                      | b # bs \<Rightarrow> (b, if b then s\<lparr>m_pub := bs, m_sent := m_sent s @ [j]\<rparr> else s\<lparr>m_pub := bs\<rparr>))\<rparr>"

lemma map_of_sub_update [simp]:
  "map_of (sub (AList.update k l a) k') = (if k' = k then map_of l else map_of (sub a k'))"
  by (simp add: sub_def update_conv')

lemma map_of_sub_delete [simp]:
  "map_of (sub (AList.delete k a) k') = (if k' = k then Map.empty else map_of (sub a k'))"
  by (simp add: sub_def delete_conv')

lemma map_of_empty_iff [simp]: "map_of l = Map.empty \<longleftrightarrow> l = []"
  by (cases l) (auto simp: fun_eq_iff)

lemma mem_present_view: "mem_present s k = present (mem_view s) k"
  by (simp add: mem_present_def present_def mem_view_def)

lemma length_clearjunk: "length (AList.clearjunk l) = card (dom (map_of l))"
proof -
  have "card (dom (map_of l)) = card (set (map fst (AList.clearjunk l)))"
    by (metis dom_map_of_conv_image_fst list.set_map map_of_clearjunk)
  also have "\<dots> = length (map fst (AList.clearjunk l))"
    by (rule distinct_card) (rule distinct_clearjunk)
  finally show ?thesis by simp
qed

lemma card_filter_alist:
  assumes "distinct (map fst l)"
  shows "card {m. \<exists>sc. map_of l m = Some sc \<and> p sc} = length (filter (\<lambda>(m, sc). p sc) l)"
proof -
  have "{m. \<exists>sc. map_of l m = Some sc \<and> p sc} = set (map fst (filter (\<lambda>(m, sc). p sc) l))"
    using assms by (force simp: image_iff dest: map_of_SomeD intro: map_of_is_SomeI)
  moreover have "distinct (map fst (filter (\<lambda>(m, sc). p sc) l))"
    using assms by (rule distinct_map_filter)
  ultimately show ?thesis by (metis distinct_card length_map)
qed

lemma mem_due_props:
  fixes l :: "(string \<times> real) list"
  assumes "d = sort_key snd (filter (\<lambda>(m, sc). sc \<le> mx) (AList.clearjunk l))"
  shows "distinct (map fst d)" and "set (map fst d) = due (map_of l) mx"
    and "sorted (map snd d)" and "\<forall>(m, sc) \<in> set d. map_of l m = Some sc"
    and "length d = card (due (map_of l) mx)"
proof -
  let ?f = "filter (\<lambda>(m, sc). sc \<le> mx) (AList.clearjunk l)"
  have dj: "distinct (map fst (AList.clearjunk l))" by (rule distinct_clearjunk)
  have df: "distinct (map fst ?f)" using dj by (rule distinct_map_filter)
  have "mset (map fst d) = mset (map fst ?f)" by (simp only: assms mset_map mset_sort)
  then show 1: "distinct (map fst d)" using df by (metis mset_eq_imp_distinct_iff)
  show 4: "\<forall>(m, sc) \<in> set d. map_of l m = Some sc"
  proof clarify
    fix m sc assume "(m, sc) \<in> set d"
    then have "(m, sc) \<in> set (AList.clearjunk l)" by (simp add: assms)
    with dj have "map_of (AList.clearjunk l) m = Some sc" by (rule map_of_is_SomeI)
    then show "map_of l m = Some sc" by (simp add: map_of_clearjunk)
  qed
  show 2: "set (map fst d) = due (map_of l) mx"
  proof (intro set_eqI iffI)
    fix m assume "m \<in> set (map fst d)"
    then obtain sc where "(m, sc) \<in> set d" by auto
    then show "m \<in> due (map_of l) mx" using 4 by (auto simp: due_def assms)
  next
    fix m assume "m \<in> due (map_of l) mx"
    then obtain sc where "map_of (AList.clearjunk l) m = Some sc" "sc \<le> mx"
      by (auto simp: due_def map_of_clearjunk)
    then have "(m, sc) \<in> set d" by (auto simp: assms dest: map_of_SomeD)
    then show "m \<in> set (map fst d)" by force
  qed
  show "sorted (map snd d)" by (simp add: assms)
  show "length d = card (due (map_of l) mx)" using 1 2 by (metis distinct_card length_map)
qed

lemma mem_due_first:
  fixes l :: "(string \<times> real) list"
  assumes d: "d = sort_key snd (filter (\<lambda>(m, sc). sc \<le> mx) (AList.clearjunk l))"
    and m: "m \<in> set (take n (map fst d))" and m': "m' \<in> due (map_of l) mx - set (take n (map fst d))"
  shows "the (map_of l m) \<le> the (map_of l m')"
proof -
  note P = mem_due_props [OF d]
  from m obtain i where i: "i < n" "i < length d" "m = fst (d ! i)"
    by (auto simp: in_set_conv_nth)
  have "m' \<in> set (map fst d)" using m' unfolding P(2) by simp
  then obtain j where j: "j < length d" "m' = fst (d ! j)"
    unfolding in_set_conv_nth by auto
  have "n \<le> j"
  proof (rule ccontr)
    assume "\<not> n \<le> j"
    with j have "m' \<in> set (take n (map fst d))" by (auto simp: in_set_conv_nth)
    with m' show False by simp
  qed
  with i j have "snd (d ! i) \<le> snd (d ! j)"
    using P(3) by (auto simp: sorted_iff_nth_mono)
  moreover have "map_of l m = Some (snd (d ! i))"
    using bspec [OF P(4) nth_mem [OF i(2)]] i(3) by (simp add: case_prod_beta)
  moreover have "map_of l m' = Some (snd (d ! j))"
    using bspec [OF P(4) nth_mem [OF j(1)]] j(2) by (simp add: case_prod_beta)
  ultimately show ?thesis by simp
qed

lemma delete_Nil_iff: "AList.delete m l = [] \<longleftrightarrow> (map_of l)(m := None) = Map.empty"
  by (metis delete_conv' map_of_empty_iff)

lemma mem_view_set: "mem_view (mem_set s k x ex) = v_set k x ex (mem_view s)"
  by (auto simp: mem_view_def mem_set_def v_set_def update_conv' delete_conv' split: option.splits)

lemma mem_view_del: "mem_view (mem_del s k) = v_del k (mem_view s)"
  by (auto simp: mem_view_def mem_del_def v_del_def delete_conv' fun_eq_iff)

lemma mem_view_hset: "mem_view (mem_hset s k f x) = v_hset k f x (mem_view s)"
  by (auto simp: mem_view_def mem_hset_def v_hset_def update_conv' fun_eq_iff)

lemma mem_view_hdel: "mem_view (mem_hdel s k f) = v_hdel k f (mem_view s)"
  by (auto simp: mem_view_def mem_hdel_def v_hdel_def Let_def delete_Nil_iff delete_conv' fun_eq_iff)

lemma mem_view_zrem: "mem_view (mem_zrem s k m) = v_zrem k m (mem_view s)"
  by (auto simp: mem_view_def mem_zrem_def v_zrem_def Let_def delete_Nil_iff delete_conv' fun_eq_iff)

lemma mem_hash_int_view: "mem_hash_int s k f = hash_int (mem_view s) k f"
  by (simp add: mem_hash_int_def hash_int_def mem_view_def)

lemma mem_hash_real_view: "mem_hash_real s k f = hash_real (mem_view s) k f"
  by (simp add: mem_hash_real_def hash_real_def mem_view_def)

lemma set_clearjunk_fst: "set (map fst (AList.clearjunk l)) = dom (map_of l)"
  by (metis dom_map_of_conv_image_fst list.set_map map_of_clearjunk)

lemma sub_nonempty: "sub l k \<noteq> [] \<Longrightarrow> k \<in> set (map fst l)"
  by (auto simp: sub_def split: option.splits dest!: map_of_SomeD intro: rev_image_eqI)

lemma mem_view_keys:
  assumes "present (mem_view s) k"
  shows "k \<in> set (map fst (m_kv s) @ map fst (m_zs s) @ map fst (m_hs s))"
proof -
  consider "map_of (m_kv s) k \<noteq> None" | "sub (m_zs s) k \<noteq> []" | "sub (m_hs s) k \<noteq> []"
    using assms unfolding mem_present_view [symmetric] mem_present_def by blast
  then show ?thesis
    by cases (use sub_nonempty [of "m_zs s" k] sub_nonempty [of "m_hs s" k] in \<open>auto simp: map_of_eq_None_iff\<close>)
qed

lemma mem_view_scripts [simp]:
  "mem_view (s\<lparr>m_net := a\<rparr>) = mem_view s"
  "mem_view (s\<lparr>m_wall := b\<rparr>) = mem_view s"
  "mem_view (s\<lparr>m_mono := b\<rparr>) = mem_view s"
  "mem_view (s\<lparr>m_pub := c\<rparr>) = mem_view s"
  "mem_view (s\<lparr>m_cache := e\<rparr>) = mem_view s"
  "mem_view (s\<lparr>m_rows := e'\<rparr>) = mem_view s"
  "mem_view (s\<lparr>m_sent := d\<rparr>) = (mem_view s)\<lparr>sent := d\<rparr>"
  "sent (mem_view s) = m_sent s"
  by (simp_all add: mem_view_def)

lemma mem_view_reads:
  "kv (mem_view s) k = map_of (m_kv s) k"
  "zs (mem_view s) k = map_of (sub (m_zs s) k)"
  "hs (mem_view s) k = map_of (sub (m_hs s) k)"
  by (simp_all add: mem_view_def)

lemmas mem_views =
  mem_view_set mem_view_del mem_view_hset mem_view_hdel mem_view_zrem mem_hash_int_view
  mem_hash_real_view mem_present_view

interpretation mem: redis mem_env mem_view
proof unfold_locales
  fix s :: mem and k m :: string and mx :: real and n :: nat
  let ?d = "mem_due s k mx"
  note P = mem_due_props [OF mem_due_def [of s k mx]]
  show "distinct (r_zrangebyscore mem_env s k mx n)"
    using P(1) by (simp add: mem_env_def)
  show "set (r_zrangebyscore mem_env s k mx n) \<subseteq> due (zs (mem_view s) k) mx"
    using P(2) set_take_subset [of n "map fst ?d"] by (simp add: mem_env_def mem_view_def)
  show "length (r_zrangebyscore mem_env s k mx n) = min n (card (due (zs (mem_view s) k) mx))"
    using P(5) by (simp add: mem_env_def mem_view_def)
  have "map (\<lambda>m. the (map_of (sub (m_zs s) k) m)) (map fst ?d) = map snd ?d"
    using P(4) by (auto simp: case_prod_beta)
  then have "map (\<lambda>m. the (map_of (sub (m_zs s) k) m)) (take n (map fst ?d)) = take n (map snd ?d)"
    by (metis take_map)
  then show "sorted (map (\<lambda>m. the (zs (mem_view s) k m)) (r_zrangebyscore mem_env s k mx n))"
    using P(3) by (simp add: mem_env_def mem_view_def sorted_wrt_take)
next
  fix s :: mem and k m m' :: string and mx :: real and n :: nat
  assume "m \<in> set (r_zrangebyscore mem_env s k mx n)"
    "m' \<in> due (zs (mem_view s) k) mx - set (r_zrangebyscore mem_env s k mx n)"
  then show "the (zs (mem_view s) k m) \<le> the (zs (mem_view s) k m')"
    using mem_due_first [OF mem_due_def] by (simp add: mem_env_def mem_view_def)
next
  fix s :: mem and k :: string and lo hi :: "real option"
  show "r_zcount mem_env s k lo hi = int (card {m. \<exists>sc. zs (mem_view s) k m = Some sc \<and> in_range lo hi sc})"
    using card_filter_alist [of "AList.clearjunk (sub (m_zs s) k)" "in_range lo hi"]
    by (simp add: mem_env_def mem_view_def map_of_clearjunk distinct_clearjunk)
next
  fix s :: mem and p :: string
  show "set (r_keys mem_env s p) = {k. present (mem_view s) k \<and> starts_with k p}"
    using mem_view_keys [of s] by (auto simp: mem_env_def mem_present_view)
next
  fix s :: mem and k f :: string and n :: int and r :: real
  show "fst (r_hincrby mem_env s k f n) =
      (case hash_int (mem_view s) k f of None \<Rightarrow> Inl ScriptError | Some i \<Rightarrow> Inr (i + n))"
    and "mem_view (snd (r_hincrby mem_env s k f n)) = v_hincrby k f n (mem_view s)"
    and "mem_view (r_hincrbyfloat mem_env s k f r) = v_hincrbyfloat k f r (mem_view s)"
    by (auto simp: mem_env_def mem_views v_hincrby_def v_hincrbyfloat_def split: option.splits)
next
  fix s :: mem and k :: string and sc :: real and m :: string and n :: int
  show "mem_view (r_zadd mem_env s k sc m) = v_zadd k sc m (mem_view s)"
    by (auto simp: mem_env_def mem_view_def v_zadd_def update_conv' fun_eq_iff)
  show "mem_view (r_expire mem_env s k n) = v_expire k n (mem_view s)"
    by (auto simp: mem_env_def mem_view_def v_expire_def mem_present_view update_conv' fun_eq_iff)
  show "finite (dom (zs (mem_view s) k))"
    by (simp add: mem_view_def finite_dom_map_of)
  show "r_zcard mem_env s k = int (card (dom (zs (mem_view s) k)))"
    by (simp add: mem_env_def mem_view_def length_clearjunk)
  show "r_ttl mem_env s k =
      (if present (mem_view s) k then (case tl (mem_view s) k of None \<Rightarrow> -1 | Some n \<Rightarrow> n) else -2)"
    by (simp add: mem_env_def mem_present_view) (simp add: mem_view_def)
next
  fix s :: mem and k f :: string and x :: pyval and ex :: "int option" and j m :: string
  show "mem_view (snd (r_setnx mem_env s k x ex)) =
      (if present (mem_view s) k then mem_view s else v_set k x ex (mem_view s))"
    by (simp add: mem_env_def mem_views)
  show "mem_view (snd (net mem_env s)) = mem_view s"
    and "mem_view (snd (wall mem_env s)) = mem_view s"
    and "mem_view (snd (mono mem_env s)) = mem_view s"
    by (simp_all add: mem_env_def split: list.split)
  show "mem_view (snd (celery_publish mem_env s j)) =
      (if fst (celery_publish mem_env s j) then (mem_view s)\<lparr>sent := sent (mem_view s) @ [j]\<rparr> else mem_view s)"
    by (simp add: mem_env_def split: list.split)
  show "map_of (r_hgetall mem_env s k) = hs (mem_view s) k"
    and "distinct (map fst (r_hgetall mem_env s k))"
    by (simp_all add: mem_env_def mem_view_reads map_of_clearjunk distinct_clearjunk)
qed (simp_all add: mem_env_def mem_views, simp_all add: mem_view_reads)

interpretation mem_scan: redis_scan mem_env mem_view "\<lambda>s k c. dom (zs (mem_view s) k)" "\<lambda>s k c. 0"
proof unfold_locales
  fix s :: mem and k :: string and c n :: int
  show "set (snd (r_zscan mem_env s k c n)) \<subseteq> dom (zs (mem_view s) k)"
    and "fst (r_zscan mem_env s k c n) = 0 \<Longrightarrow> dom (zs (mem_view s) k) \<subseteq> set (snd (r_zscan mem_env s k c n))"
    unfolding mem_env_def mem_view_def by (simp_all add: set_clearjunk_fst del: set_map)
qed (simp_all add: mem_env_def)

text \<open>The same store on a connection that never fails.\<close>

definition mem_up_env :: "mem env" where
  "mem_up_env = mem_env\<lparr>net := (\<lambda>s. (Answered, s))\<rparr>"

interpretation mem_up: redis_up mem_up_env mem_view
  unfolding mem_up_env_def
  by unfold_locales (simp_all add: mem.law_zrange_distinct mem.law_zrange_due mem.law_zrange_len
      mem.law_zrange_sorted mem.law_zrange_first mem.law_hgetall_distinct mem.law_publish)

definition mem_empty :: mem where
  "mem_empty = \<lparr>m_kv = [], m_zs = [], m_hs = [], m_tl = [], m_sent = [], m_net = [],
     m_wall = [], m_mono = [], m_pub = [], m_cache = [], m_rows = []\<rparr>"

end
