(* ===== verification/App.thy ===== *)
theory App
  imports Keys Outcomes Redis_Mem
begin

text \<open>
  The process around the queues: the Django cache and settings tables (a parameter), the
  cached loading of persisted settings (\<open>config_cache.py\<close>, \<open>config.py\<close> \<open>from_db\<close> /
  \<open>save_to_db\<close>, \<open>models.py\<close>), and the registry of queue classes
  (\<open>queue.DispatchQueue.__init_subclass__\<close>).
\<close>

section \<open>The parameter: Django cache and settings tables\<close>

record 's db =
  cache_get :: "'s \<Rightarrow> string \<Rightarrow> pyval option result \<times> 's"
  cache_set :: "'s \<Rightarrow> string \<Rightarrow> pyval \<Rightarrow> int \<Rightarrow> unit result \<times> 's"
  cache_delete :: "'s \<Rightarrow> string \<Rightarrow> unit result \<times> 's"
  row_config :: "'s \<Rightarrow> string \<Rightarrow> string \<Rightarrow> pyval option result \<times> 's"
  row_write :: "'s \<Rightarrow> string \<Rightarrow> string \<Rightarrow> pyval \<Rightarrow> unit result \<times> 's"

text \<open>
  Documented behaviour, through a view \<open>C\<close> of the cache and \<open>T\<close> of the two settings tables
  (\<open>T s kind identity\<close> is the \<open>config\<close> column of the row): a read that succeeds returns
  what is stored, and nothing here touches the queue's Redis keys.
\<close>

locale settings = redis R V
  for R :: "'s env" and V :: "'s \<Rightarrow> view" +
  fixes D :: "'s db"
    and C :: "'s \<Rightarrow> string \<rightharpoonup> pyval"
    and T :: "'s \<Rightarrow> string \<Rightarrow> string \<rightharpoonup> pyval"
  assumes law_cache_get: "fst (cache_get D s k) = Inr x \<Longrightarrow> x = C s k"
    and law_cache_get_C: "C (snd (cache_get D s k)) = C s"
    and law_cache_get_T: "T (snd (cache_get D s k)) = T s"
    and law_cache_get_V: "V (snd (cache_get D s k)) = V s"
    and law_cache_set_C: "C (snd (cache_set D s k v ttl)) = C s \<or> C (snd (cache_set D s k v ttl)) = (C s)(k \<mapsto> v)"
    and law_cache_set_T: "T (snd (cache_set D s k v ttl)) = T s"
    and law_cache_set_V: "V (snd (cache_set D s k v ttl)) = V s"
    and law_cache_delete_ok: "fst (cache_delete D s k) = Inr u \<Longrightarrow> C (snd (cache_delete D s k)) = (C s)(k := None)"
    and law_cache_delete_C: "C (snd (cache_delete D s k)) = C s \<or> C (snd (cache_delete D s k)) = (C s)(k := None)"
    and law_cache_delete_T: "T (snd (cache_delete D s k)) = T s"
    and law_cache_delete_V: "V (snd (cache_delete D s k)) = V s"
    and law_row: "fst (row_config D s kind ident) = Inr x \<Longrightarrow> x = T s kind ident"
    and law_row_C: "C (snd (row_config D s kind ident)) = C s"
    and law_row_T: "T (snd (row_config D s kind ident)) = T s"
    and law_row_V: "V (snd (row_config D s kind ident)) = V s"
    and law_write: "T (snd (row_write D s kind ident v)) =
          (case fst (row_write D s kind ident v) of Inl e \<Rightarrow> T s
           | Inr _ \<Rightarrow> (T s)(kind := (T s kind)(ident \<mapsto> v)))"
    and law_write_C: "C (snd (row_write D s kind ident v)) = C s"
    and law_write_V: "V (snd (row_write D s kind ident v)) = V s"

section \<open>The settings cache\<close>

definition SETTINGS_CACHE_TTL_SECONDS :: int where "SETTINGS_CACHE_TTL_SECONDS = 24 * 60 * 60"

definition settings_cache_key :: "string \<Rightarrow> string \<Rightarrow> string" where
  "settings_cache_key kind ident = ''dispatch:settings:'' @ kind @ '':'' @ ident"

definition get_raw :: "'s db \<Rightarrow> string \<Rightarrow> string \<Rightarrow> ('s \<Rightarrow> pyval result \<times> 's) \<Rightarrow> 's \<Rightarrow> pyval result \<times> 's" where
  "get_raw D kind ident loader s =
     (let key = settings_cache_key kind ident;
          (cached, s) = cache_get D s key in
      case cached of
        Inr (Some v) \<Rightarrow> (Inr v, s)
      | _ \<Rightarrow>
        (case loader s of
           (Inl e, s) \<Rightarrow> (Inl e, s)
         | (Inr loaded, s) \<Rightarrow>
             (let raw = (case loaded of PDict d \<Rightarrow> PDict d | _ \<Rightarrow> PDict [])
              in (Inr raw, snd (cache_set D s key raw SETTINGS_CACHE_TTL_SECONDS)))))"

definition settings_invalidate :: "'s db \<Rightarrow> string \<Rightarrow> string \<Rightarrow> 's \<Rightarrow> 's" where
  "settings_invalidate D kind ident s = snd (cache_delete D s (settings_cache_key kind ident))"

text \<open>\<open>objects.filter(\<dots>).values_list("config").first() or {}\<close>.\<close>

definition load_row :: "'s db \<Rightarrow> string \<Rightarrow> string \<Rightarrow> 's \<Rightarrow> pyval result \<times> 's" where
  "load_row D kind ident s =
     (case row_config D s kind ident of
        (Inl e, s) \<Rightarrow> (Inl e, s)
      | (Inr None, s) \<Rightarrow> (Inr (PDict []), s)
      | (Inr (Some v), s) \<Rightarrow> (Inr (py_or v (PDict [])), s))"

definition get_queue :: "'s db \<Rightarrow> string \<Rightarrow> 's \<Rightarrow> pyval result \<times> 's" where
  "get_queue D ns = get_raw D ''queue'' ns (load_row D ''queue'' ns)"

definition get_task :: "'s db \<Rightarrow> string \<Rightarrow> 's \<Rightarrow> pyval result \<times> 's" where
  "get_task D tk = get_raw D ''task'' tk (load_row D ''task'' tk)"

section \<open>Queue classes and task configuration classes\<close>

text \<open>
  A queue class: its qualified name, its identity as an object, the namespace, defaults and
  decoding of its \<open>config_cls\<close>, and its congestion policy.
\<close>

record queue_class =
  qc_qualname :: string
  qc_uid :: nat
  qc_namespace :: string
  qc_default :: queue_config
  qc_from_raw :: "pydict \<Rightarrow> queue_config result"
  qc_validate_raw :: "pyval \<Rightarrow> unit result"
  qc_congestion :: "outcome_type \<Rightarrow> bool"

text \<open>A class that overrides nothing: the base \<open>DispatchQueueConfig\<close> bound to a namespace.\<close>

definition base_queue_class :: "string \<Rightarrow> nat \<Rightarrow> string \<Rightarrow> queue_class" where
  "base_queue_class qualname uid ns = \<lparr>qc_qualname = qualname, qc_uid = uid, qc_namespace = ns,
     qc_default = DispatchQueueConfig, qc_from_raw = queue_from_raw DispatchQueueConfig,
     qc_validate_raw = queue_validate_raw (queue_from_raw DispatchQueueConfig),
     qc_congestion = (\<lambda>_. False)\<rparr>"

definition queue_from_db :: "'s db \<Rightarrow> queue_class \<Rightarrow> 's \<Rightarrow> queue_config result \<times> 's" where
  "queue_from_db D q s =
     (if qc_namespace q = [] then (Inr (qc_default q), s)
      else (case get_queue D (qc_namespace q) s of
              (Inl e, s) \<Rightarrow> (Inl e, s)
            | (Inr v, s) \<Rightarrow> (bind_result (raw_items v) (qc_from_raw q), s)))"

record task_config_class =
  cc_task_key :: string
  cc_queue_namespace :: string
  cc_default :: task_config

definition task_from_db :: "'s db \<Rightarrow> task_config_class \<Rightarrow> 's \<Rightarrow> task_config result \<times> 's" where
  "task_from_db D c s =
     (if cc_task_key c = [] then (Inr (cc_default c), s)
      else (case get_task D (cc_task_key c) s of
              (Inl e, s) \<Rightarrow> (Inl e, s)
            | (Inr v, s) \<Rightarrow> (bind_result (raw_items v) (task_from_raw (cc_default c)), s)))"

section \<open>The registry of queue classes\<close>

text \<open>\<open>DISPATCH_QUEUE_REGISTRY\<close>: a dictionary in insertion order.\<close>

type_synonym queue_registry = "(string \<times> queue_class) list"

definition is_ephemeral :: "queue_class \<Rightarrow> bool" where
  "is_ephemeral q = starts_with (qc_qualname q) ''EphemeralQueue''"

definition init_subclass :: "queue_class \<Rightarrow> bool \<Rightarrow> queue_registry \<Rightarrow> queue_registry result" where
  "init_subclass q ephemeral reg =
     (if qc_namespace q = [] then Inr reg
      else (case validate_namespace (qc_namespace q) of
              Inl _ \<Rightarrow> Inl QueueError
            | Inr _ \<Rightarrow>
              (case map_of reg (qc_namespace q) of
                 None \<Rightarrow> Inr (AList.update (qc_namespace q) q reg)
               | Some incumbent \<Rightarrow>
                   if qc_uid incumbent = qc_uid q then Inr (AList.update (qc_namespace q) q reg)
                   else if ephemeral then
                     Inr (if is_ephemeral incumbent then AList.update (qc_namespace q) q reg else reg)
                   else Inl QueueError)))"

definition registered_queues :: "queue_registry \<Rightarrow> queue_class list" where
  "registered_queues reg = map snd reg"

definition queue_for_namespace :: "queue_registry \<Rightarrow> string \<Rightarrow> queue_class option" where
  "queue_for_namespace reg ns = map_of reg (if ns = [] then DEFAULT_NAMESPACE else ns)"

text \<open>\<open>uid\<close> is the identity of the class object created here.\<close>

definition ephemeral_queue_for_namespace ::
  "nat \<Rightarrow> string \<Rightarrow> queue_registry \<Rightarrow> (queue_class \<times> queue_registry) result" where
  "ephemeral_queue_for_namespace uid namespace reg =
     (let ns = (if namespace = [] then DEFAULT_NAMESPACE else namespace);
          q = base_queue_class (''EphemeralQueue:'' @ ns) uid ns in
      case init_subclass q True reg of
        Inl e \<Rightarrow> Inl e
      | Inr reg' \<Rightarrow>
          Inr (q, case map_of reg' ns of
                    Some incumbent \<Rightarrow> if qc_uid incumbent = uid then AList.delete ns reg' else reg'
                  | None \<Rightarrow> reg'))"

text \<open>\<open>queue_for_namespace(ns) or ephemeral_queue_for_namespace(ns)\<close>: the queue that serves
  a namespace, registered or not.\<close>

definition serving_queue :: "nat \<Rightarrow> string \<Rightarrow> queue_registry \<Rightarrow> (queue_class \<times> queue_registry) result" where
  "serving_queue uid ns reg =
     (case queue_for_namespace reg ns of
        Some q \<Rightarrow> Inr (q, reg)
      | None \<Rightarrow> ephemeral_queue_for_namespace uid ns reg)"

section \<open>Persisting settings\<close>

text \<open>\<open>DispatchQueueSettings.clean\<close> and \<open>save\<close>: validated, written, and the cached copy
  dropped once the write is committed (the tables run in autocommit).\<close>

definition queue_settings_clean :: "queue_registry \<Rightarrow> string \<Rightarrow> pyval \<Rightarrow> unit result" where
  "queue_settings_clean reg ns config =
     (case validate_namespace ns of
        Inl e \<Rightarrow> Inl e
      | Inr _ \<Rightarrow>
          (case queue_for_namespace reg ns of
             Some q \<Rightarrow> qc_validate_raw q config
           | None \<Rightarrow> queue_validate_raw (queue_from_raw DispatchQueueConfig) config))"

definition queue_settings_save :: "'s db \<Rightarrow> queue_registry \<Rightarrow> string \<Rightarrow> pyval \<Rightarrow> 's \<Rightarrow> unit result \<times> 's" where
  "queue_settings_save D reg ns config s =
     (case queue_settings_clean reg ns config of
        Inl e \<Rightarrow> (Inl e, s)
      | Inr _ \<Rightarrow>
          (case row_write D s ''queue'' ns config of
             (Inl e, s) \<Rightarrow> (Inl e, s)
           | (Inr _, s) \<Rightarrow> (Inr (), settings_invalidate D ''queue'' ns s)))"

text \<open>\<open>get_or_create\<close> inserts the defaults when there is no row; its insert goes through
  \<open>save\<close> as well.\<close>

definition queue_save_to_db ::
  "'s db \<Rightarrow> queue_registry \<Rightarrow> queue_class \<Rightarrow> queue_config \<Rightarrow> 's \<Rightarrow> unit result \<times> 's" where
  "queue_save_to_db D reg q c s =
     (if qc_namespace q = [] then (Inl ValueError, s)
      else (let raw = PDict (queue_to_raw c) in
            case row_config D s ''queue'' (qc_namespace q) of
              (Inl e, s) \<Rightarrow> (Inl e, s)
            | (Inr _, s) \<Rightarrow> queue_settings_save D reg (qc_namespace q) raw s))"

section \<open>Facts about the registry\<close>

lemma AList_map_of_update: "map_of (AList.update k v l) = (map_of l)(k \<mapsto> v)"
  by (simp add: update_conv')

lemma AList_map_of_delete: "map_of (AList.delete k l) = (map_of l)(k := None)"
  by (simp add: delete_conv')

text \<open>Registering never takes a namespace away from the class that owns it.\<close>

lemma init_subclass_keeps_owner:
  assumes "init_subclass q False reg = Inr reg'" and "map_of reg ns = Some owner"
  shows "\<exists>owner'. map_of reg' ns = Some owner' \<and> qc_uid owner' = qc_uid owner"
  using assms by (auto simp: init_subclass_def AList_map_of_update split: if_splits sum.splits option.splits)

lemma init_subclass_conflict:
  assumes "validate_namespace (qc_namespace q) = Inr ()" and "qc_namespace q \<noteq> []"
    and "map_of reg (qc_namespace q) = Some incumbent" and "qc_uid incumbent \<noteq> qc_uid q"
  shows "init_subclass q False reg = Inl QueueError"
  using assms by (simp add: init_subclass_def)

text \<open>An ephemeral queue leaves every registered real queue in place and never stays.\<close>

lemma ephemeral_registry:
  assumes "ephemeral_queue_for_namespace uid namespace reg = Inr (q, reg')"
    and fresh: "\<forall>q\<in>set (registered_queues reg). qc_uid q \<noteq> uid"
  shows "qc_namespace q = (if namespace = [] then DEFAULT_NAMESPACE else namespace)"
    and "map_of reg ns = Some owner \<Longrightarrow> \<not> is_ephemeral owner \<Longrightarrow> map_of reg' ns = Some owner"
    and "map_of reg' ns = Some owner' \<Longrightarrow> map_of reg ns = Some owner'"
proof -
  let ?ns = "if namespace = [] then DEFAULT_NAMESPACE else namespace"
  let ?q = "base_queue_class (''EphemeralQueue:'' @ ?ns) uid ?ns"
  have uid: "map_of reg k = Some p \<Longrightarrow> qc_uid p \<noteq> uid" for k p
    using fresh map_of_SomeD [of reg k p] by (force simp: registered_queues_def)
  have sel: "qc_uid ?q = uid" "qc_namespace ?q = ?ns" "?ns \<noteq> []"
    by (simp_all add: base_queue_class_def DEFAULT_NAMESPACE_def)
  from assms(1) obtain reg1 where r1: "init_subclass ?q True reg = Inr reg1" and q: "q = ?q"
    and r': "reg' = (case map_of reg1 ?ns of
        Some incumbent \<Rightarrow> if qc_uid incumbent = uid then AList.delete ?ns reg1 else reg1 | None \<Rightarrow> reg1)"
    by (auto simp: ephemeral_queue_for_namespace_def Let_def split: sum.splits)
  show "qc_namespace q = ?ns" using q sel by simp
  from r1 have "reg1 = AList.update ?ns ?q reg \<and> (map_of reg ?ns = None \<or> (\<exists>p. map_of reg ?ns = Some p \<and> is_ephemeral p))
      \<or> reg1 = reg \<and> (\<exists>p. map_of reg ?ns = Some p \<and> \<not> is_ephemeral p)"
    unfolding init_subclass_def sel(2) using sel(1,3) uid [of ?ns]
    by (auto split: if_splits sum.splits option.splits)
  then have r'': "map_of reg' = (map_of reg)(?ns := None) \<and> (\<forall>p. map_of reg ?ns = Some p \<longrightarrow> is_ephemeral p)
      \<or> map_of reg' = map_of reg"
  proof
    assume a: "reg1 = AList.update ?ns ?q reg \<and>
      (map_of reg ?ns = None \<or> (\<exists>p. map_of reg ?ns = Some p \<and> is_ephemeral p))"
    then have "map_of reg1 ?ns = Some ?q" by (simp only: AList_map_of_update fun_upd_same)
    then have "reg' = AList.delete ?ns reg1" using r' sel(1) by simp
    with a have "map_of reg' = (map_of reg)(?ns := None)"
      by (simp only: AList_map_of_delete AList_map_of_update fun_upd_upd)
    with a show ?thesis by auto
  next
    assume a: "reg1 = reg \<and> (\<exists>p. map_of reg ?ns = Some p \<and> \<not> is_ephemeral p)"
    then obtain p where p: "map_of reg ?ns = Some p" and r: "reg1 = reg" by blast
    from uid [OF p] have "reg' = reg" unfolding r' r p by simp
    then show ?thesis by simp
  qed
  show "map_of reg ns = Some owner \<Longrightarrow> \<not> is_ephemeral owner \<Longrightarrow> map_of reg' ns = Some owner"
    using r'' by (auto split: if_splits)
  show "map_of reg' ns = Some owner' \<Longrightarrow> map_of reg ns = Some owner'"
    using r'' by (auto split: if_splits)
qed

lemma serving_queue_namespace:
  assumes "serving_queue uid ns reg = Inr (q, reg')" and "ns \<noteq> []"
    and "\<forall>(k, p)\<in>set reg. qc_namespace p = k"
  shows "qc_namespace q = ns"
proof (cases "queue_for_namespace reg ns")
  case (Some p)
  with assms show ?thesis
    by (auto simp: serving_queue_def queue_for_namespace_def dest!: map_of_SomeD)
next
  case None
  with assms(1,2) show ?thesis
    by (auto simp: serving_queue_def ephemeral_queue_for_namespace_def Let_def base_queue_class_def split: sum.splits)
qed

section \<open>Facts about the settings cache\<close>

context settings
begin

lemmas settings_frame [simp] =
  law_cache_get_C law_cache_get_T law_cache_get_V law_cache_set_T law_cache_set_V
  law_cache_delete_T law_cache_delete_V law_row_C law_row_T law_row_V law_write_C law_write_V

text \<open>Loading settings never touches a queue.\<close>

lemma load_row_V [simp]: "V (snd (load_row D kind ident s)) = V s"
  using law_row_V [of s kind ident]
  by (cases "row_config D s kind ident") (auto simp: load_row_def split: sum.split option.split)

lemma get_raw_V:
  assumes "\<And>s. V (snd (loader s)) = V s"
  shows "V (snd (get_raw D kind ident loader s)) = V s"
  using assms [of "snd (cache_get D s (settings_cache_key kind ident))"]
  by (auto simp: get_raw_def Let_def case_prod_beta split: sum.split option.split)

lemma get_settings_V [simp]:
  "V (snd (get_queue D ns s)) = V s" "V (snd (get_task D tk s)) = V s"
  by (simp_all add: get_queue_def get_task_def get_raw_V)

lemma from_db_V [simp]:
  "V (snd (queue_from_db D q s)) = V s" "V (snd (task_from_db D c s)) = V s"
  using get_settings_V(1) [of "qc_namespace q" s] get_settings_V(2) [of "cc_task_key c" s]
  by (auto simp: queue_from_db_def task_from_db_def case_prod_beta split: sum.split prod.split)

text \<open>
  Coherence: the cached copy, when there is one, is the table's row. Loading keeps it, and
  so does saving as long as the deletion of the cached copy goes through.
\<close>

definition coherent :: "string \<Rightarrow> string \<Rightarrow> 's \<Rightarrow> bool" where
  "coherent kind ident s \<longleftrightarrow>
     (\<forall>v. C s (settings_cache_key kind ident) = Some v \<longrightarrow>
        v = (case T s kind ident of Some (PDict d) \<Rightarrow> PDict d | _ \<Rightarrow> PDict []))"

lemma get_raw_coherent:
  assumes "coherent kind ident s" and "get_raw D kind ident (load_row D kind ident) s = (Inr v, s')"
  shows "v = (case T s kind ident of Some (PDict d) \<Rightarrow> PDict d | _ \<Rightarrow> PDict []) \<and> coherent kind ident s'"
proof -
  let ?k = "settings_cache_key kind ident"
  obtain c s1 where c: "cache_get D s ?k = (c, s1)" by force
  then have s1: "C s1 = C s" "T s1 = T s"
    using law_cache_get_C [of s ?k] law_cache_get_T [of s ?k] by simp_all
  show ?thesis
  proof (cases "\<exists>x. c = Inr (Some x)")
    case True
    then obtain x where x: "c = Inr (Some x)" by blast
    then have "C s ?k = Some x" using law_cache_get [of s ?k "Some x"] c by simp
    with assms x c s1 show ?thesis by (auto simp: get_raw_def coherent_def)
  next
    case False
    then have miss: "get_raw D kind ident (load_row D kind ident) s =
      (case load_row D kind ident s1 of
         (Inl e, s) \<Rightarrow> (Inl e, s)
       | (Inr loaded, s) \<Rightarrow>
           (let raw = (case loaded of PDict d \<Rightarrow> PDict d | _ \<Rightarrow> PDict [])
            in (Inr raw, snd (cache_set D s ?k raw SETTINGS_CACHE_TTL_SECONDS))))"
      by (cases c) (auto simp: get_raw_def c Let_def split: option.split)
    obtain r s2 where r: "row_config D s1 kind ident = (r, s2)" by force
    have s2: "C s2 = C s1" "T s2 = T s1"
      using law_row_C [of s1 kind ident] law_row_T [of s1 kind ident] r by simp_all
    from assms(2) miss r obtain o' where o': "r = Inr o'"
      by (auto simp: load_row_def split: sum.splits)
    then have row: "o' = T s kind ident" using law_row [of s1 kind ident o'] r s1 by simp
    let ?raw = "case T s kind ident of Some (PDict d) \<Rightarrow> PDict d | _ \<Rightarrow> PDict []"
    have eq: "v = ?raw \<and> s' = snd (cache_set D s2 ?k ?raw SETTINGS_CACHE_TTL_SECONDS)"
      using assms(2) unfolding miss load_row_def r o' row
      by (auto simp: Let_def py_or_def split: option.splits pyval.splits if_splits)
    have "T s' = T s" using eq s1 s2 by simp
    moreover have "C s' = C s \<or> C s' = (C s)(?k \<mapsto> ?raw)"
      using law_cache_set_C [of s2 ?k ?raw SETTINGS_CACHE_TTL_SECONDS] eq s1 s2 by simp
    ultimately show ?thesis using assms(1) eq by (auto simp: coherent_def)
  qed
qed

lemma queue_settings_save_coherent:
  assumes "queue_settings_save D reg ns config s = (Inr u, s')"
    and "\<And>t. fst (cache_delete D t (settings_cache_key ''queue'' ns)) = Inr ()"
  shows "T s' ''queue'' ns = Some config \<and> coherent ''queue'' ns s'"
proof -
  obtain r s1 where r: "row_write D s ''queue'' ns config = (r, s1)" by force
  with assms(1) obtain w where w: "r = Inr w" and s': "s' = settings_invalidate D ''queue'' ns s1"
    by (auto simp: queue_settings_save_def split: sum.splits)
  have T1: "T s1 ''queue'' ns = Some config" using law_write [of s "''queue''" ns config] r w by simp
  have "C s' (settings_cache_key ''queue'' ns) = None"
    using law_cache_delete_ok [OF assms(2), of s1] s' by (simp add: settings_invalidate_def)
  moreover have "T s' = T s1" using s' by (simp add: settings_invalidate_def)
  ultimately show ?thesis using T1 by (simp add: coherent_def)
qed

end

text \<open>The reference instance: a cache and two tables beside the reference store.\<close>

definition mem_db :: "mem db" where
  "mem_db = \<lparr>cache_get = (\<lambda>s k. (Inr (map_of (m_cache s) k), s)),
     cache_set = (\<lambda>s k v ttl. (Inr (), s\<lparr>m_cache := AList.update k v (m_cache s)\<rparr>)),
     cache_delete = (\<lambda>s k. (Inr (), s\<lparr>m_cache := AList.delete k (m_cache s)\<rparr>)),
     row_config = (\<lambda>s kind ident. (Inr (map_of (sub (m_rows s) kind) ident), s)),
     row_write = (\<lambda>s kind ident v.
        (Inr (), s\<lparr>m_rows := AList.update kind (AList.update ident v (sub (m_rows s) kind)) (m_rows s)\<rparr>))\<rparr>"

definition mem_cache_map :: "mem \<Rightarrow> string \<rightharpoonup> pyval" where
  "mem_cache_map s = map_of (m_cache s)"

definition mem_rows_map :: "mem \<Rightarrow> string \<Rightarrow> string \<rightharpoonup> pyval" where
  "mem_rows_map s kind = map_of (sub (m_rows s) kind)"

interpretation mem_settings: settings mem_env mem_view mem_db mem_cache_map mem_rows_map
  by unfold_locales
     (simp_all add: mem_db_def mem_cache_map_def mem_rows_map_def fun_eq_iff AList_map_of_update AList_map_of_delete)

end
