(* ===== verification/Metrics.thy ===== *)
theory Metrics
  imports Keys Outcomes Redis
begin

text \<open>
  \<open>dispatch/metrics.py\<close>: cumulative counters and histograms, and the short-lived per-tick
  counters the controller reads. Recording is fail-open: an exception is swallowed. A
  pipeline is the list of commands it carries, run in one round trip.
\<close>

section \<open>Constants and names\<close>

definition HOUR_SECONDS :: int where "HOUR_SECONDS = 60 * 60"
definition TICK_RETENTION_SECONDS :: int where "TICK_RETENTION_SECONDS = 2 * HOUR_SECONDS"
definition TASK_METRICS_IDLE_TTL_SECONDS :: int where "TASK_METRICS_IDLE_TTL_SECONDS = 30 * 24 * HOUR_SECONDS"

definition QUEUE_EVENT_NAMES :: "string list" where
  "QUEUE_EVENT_NAMES = [''enqueued'', ''ready_peeked'', ''reserved'', ''published'', ''worker_finished'',
     ''enqueue_duplicate'', ''enqueue_capacity_rejected'', ''enqueue_producer_paused'',
     ''enqueue_deadline_expired'', ''enqueue_unavailable'', ''blocked'', ''congestion'', ''missing'',
     ''reserve_unavailable'', ''publish_failed'', ''celery_failure'', ''pump_ticks_skipped'',
     ''pump_lock_contention'', ''pump_not_started'']"

definition TASK_OUTCOME_NAMES :: "string list" where
  "TASK_OUTCOME_NAMES = map outcome_value all_outcome_types"

definition AIMD_TICK_COUNTER_NAMES :: "string list" where
  "AIMD_TICK_COUNTER_NAMES = [''published'', ''worker_finished'', ''ready_peeked'', ''congestion'',
     ''blocked'', ''publish_failed'']"

text \<open>Histogram boundaries; the last bucket of every stage is unbounded (\<open>None\<close>).\<close>

definition HISTOGRAM_BUCKETS :: "(string \<times> real option list) list" where
  "HISTOGRAM_BUCKETS =
     [(''queue_wait_seconds'', map Some [1/10, 1/2, 1, 5, 10, 30, 60, 300, 600, 1800, 3600, 21600, 86400] @ [None]),
      (''execution_seconds'', map Some [1/100, 1/20, 1/10, 1/2, 1, 5, 10, 30, 60, 120, 300, 600, 1800, 3600] @ [None]),
      (''pump_seconds'', map Some [1/1000, 1/200, 1/100, 1/20, 1/10, 1/2, 1, 2, 4, 6, 8, 10] @ [None])]"

section \<open>Ticks and fields\<close>

definition tick_id :: "real \<Rightarrow> int" where
  "tick_id timestamp = \<lfloor>timestamp / of_int PUMP_INTERVAL_SECONDS\<rfloor>"

definition hour_id :: "real \<Rightarrow> int" where
  "hour_id timestamp = \<lfloor>timestamp / of_int HOUR_SECONDS\<rfloor>"

definition tick_field :: "real \<Rightarrow> string \<Rightarrow> string" where
  "tick_field timestamp name =
     (let second_in_hour = trunc timestamp mod HOUR_SECONDS
      in ''t:'' @ str_of_int (second_in_hour div PUMP_INTERVAL_SECONDS) @ '':'' @ name)"

section \<open>Lua scripts\<close>

definition record_queue_event_lua ::
  "'s env \<Rightarrow> string \<Rightarrow> string \<Rightarrow> string \<Rightarrow> string \<Rightarrow> int \<Rightarrow> string \<Rightarrow> real \<Rightarrow> 's \<Rightarrow> int result \<times> 's" where
  "record_queue_event_lua R events_key tick_key started_key name amount tick_fld observed_at s =
     (let s = snd (r_setnx R s started_key (PFloat observed_at) None);
          (value, s) = r_hincrby R s events_key name amount in
      case value of
        Inl e \<Rightarrow> (Inl e, s)
      | Inr v \<Rightarrow>
          if tick_fld = [] then (Inr v, s)
          else (let (tick_value, s) = r_hincrby R s tick_key tick_fld amount in
                case tick_value of
                  Inl e \<Rightarrow> (Inl e, s)
                | Inr _ \<Rightarrow> (Inr v, r_expire R s tick_key TICK_RETENTION_SECONDS)))"

definition record_task_outcome_lua ::
  "'s env \<Rightarrow> string \<Rightarrow> string \<Rightarrow> string \<Rightarrow> int \<Rightarrow> real \<Rightarrow> 's \<Rightarrow> int result \<times> 's" where
  "record_task_outcome_lua R outcomes_key started_key name amount observed_at s =
     (let s = snd (r_setnx R s started_key (PFloat observed_at) None);
          (value, s) = r_hincrby R s outcomes_key name amount in
      case value of
        Inl e \<Rightarrow> (Inl e, s)
      | Inr v \<Rightarrow> (Inr v, r_expire R s outcomes_key TASK_METRICS_IDLE_TTL_SECONDS))"

fun histogram_bins_lua ::
  "'s env \<Rightarrow> string \<Rightarrow> string \<Rightarrow> (nat \<times> int) list \<Rightarrow> 's \<Rightarrow> unit result \<times> 's" where
  "histogram_bins_lua R hkey stage [] s = (Inr (), s)"
| "histogram_bins_lua R hkey stage ((index, amount) # bins) s =
     (let (value, s) = r_hincrby R s hkey (stage @ '':bin:'' @ str_of_nat index) amount in
      case value of Inl e \<Rightarrow> (Inl e, s) | Inr _ \<Rightarrow> histogram_bins_lua R hkey stage bins s)"

definition record_histogram_lua ::
  "'s env \<Rightarrow> string \<Rightarrow> string \<Rightarrow> string \<Rightarrow> int \<Rightarrow> real \<Rightarrow> real \<Rightarrow> (nat \<times> int) list \<Rightarrow> 's \<Rightarrow> int result \<times> 's" where
  "record_histogram_lua R hkey started_key stage observation_count observation_sum observed_at bins s =
     (let s = snd (r_setnx R s started_key (PFloat observed_at) None);
          (value, s) = r_hincrby R s hkey (stage @ '':count'') observation_count in
      case value of
        Inl e \<Rightarrow> (Inl e, s)
      | Inr _ \<Rightarrow>
          (let s = r_hincrbyfloat R s hkey (stage @ '':sum'') observation_sum;
               (r, s) = histogram_bins_lua R hkey stage bins s in
           case r of Inl e \<Rightarrow> (Inl e, s) | Inr _ \<Rightarrow> (Inr observation_count, s)))"

section \<open>Recording\<close>

text \<open>A command queued on a pipeline; its result is not read.\<close>

type_synonym 's command = "'s \<Rightarrow> 's"

fun run_commands :: "'s command list \<Rightarrow> 's \<Rightarrow> 's" where
  "run_commands [] s = s"
| "run_commands (c # cs) s = run_commands cs (c s)"

definition pipe_execute :: "'s env \<Rightarrow> 's command list \<Rightarrow> 's \<Rightarrow> 's" where
  "pipe_execute R cmds s = snd (rpc R (\<lambda>s. ((), run_commands cmds s)) s)"

definition enqueue_counter_spec :: "string \<Rightarrow> string \<Rightarrow> real \<Rightarrow> string \<times> string \<times> string \<times> int \<times> real" where
  "enqueue_counter_spec ns tk observed_at =
     (task_outcomes_key ns tk, queue_events_key ns, started_at_key ns, TASK_METRICS_IDLE_TTL_SECONDS, observed_at)"

definition queue_event_commands :: "'s env \<Rightarrow> string \<Rightarrow> string \<Rightarrow> int \<Rightarrow> real \<Rightarrow> 's command list" where
  "queue_event_commands R ns name amount observed_at =
     (if name \<notin> set QUEUE_EVENT_NAMES \<or> amount = 0 then []
      else [\<lambda>s. snd (record_queue_event_lua R (queue_events_key ns) (tick_metrics_key ns (hour_id observed_at))
              (started_at_key ns) name amount
              (if name \<in> set AIMD_TICK_COUNTER_NAMES then tick_field observed_at name else []) observed_at s)])"

definition record_queue_event :: "'s env \<Rightarrow> string \<Rightarrow> string \<Rightarrow> int \<Rightarrow> real \<Rightarrow> 's \<Rightarrow> 's" where
  "record_queue_event R ns name amount observed_at s =
     (case queue_event_commands R ns name amount observed_at of
        [] \<Rightarrow> s
      | cmds \<Rightarrow> pipe_execute R cmds s)"

definition task_event_commands :: "'s env \<Rightarrow> string \<Rightarrow> string \<Rightarrow> string \<Rightarrow> int \<Rightarrow> real \<Rightarrow> 's command list" where
  "task_event_commands R ns tk name amount observed_at =
     (if name \<notin> set TASK_OUTCOME_NAMES \<or> amount = 0 then []
      else [\<lambda>s. snd (record_task_outcome_lua R (task_outcomes_key ns tk) (started_at_key ns) name amount observed_at s)])"

definition record_enqueue_outcome :: "'s env \<Rightarrow> string \<Rightarrow> string \<Rightarrow> string \<Rightarrow> int \<Rightarrow> 's \<Rightarrow> 's" where
  "record_enqueue_outcome R ns tk name amount s =
     (let (t1, s) = wall R s; (t2, s) = wall R s in
      pipe_execute R (task_event_commands R ns tk name amount t1 @ queue_event_commands R ns name amount t2) s)"

text \<open>\<open>bisect.bisect_left\<close> on the boundaries; \<open>None\<close> is infinity.\<close>

definition below :: "real option \<Rightarrow> real \<Rightarrow> bool" where
  "below b v = (case b of None \<Rightarrow> False | Some x \<Rightarrow> x < v)"

definition bisect_left :: "real option list \<Rightarrow> real \<Rightarrow> nat" where
  "bisect_left boundaries v = length (takeWhile (\<lambda>b. below b v) boundaries)"

definition bin_counts :: "real option list \<Rightarrow> real list \<Rightarrow> (nat \<times> int) list" where
  "bin_counts boundaries valid =
     filter (\<lambda>(i, n). n \<noteq> 0)
       (map (\<lambda>i. (i, int (count_if (\<lambda>v. bisect_left boundaries v = i) valid))) [0..<Suc (length boundaries)])"

definition histogram_commands :: "'s env \<Rightarrow> string \<Rightarrow> string \<Rightarrow> real list \<Rightarrow> real \<Rightarrow> 's command list" where
  "histogram_commands R ns stage vals observed_at =
     (case map_of HISTOGRAM_BUCKETS stage of
        None \<Rightarrow> []
      | Some boundaries \<Rightarrow>
          (let valid = filter (\<lambda>v. 0 \<le> v) vals in
           if valid = [] then []
           else [\<lambda>s. snd (record_histogram_lua R (histograms_key ns) (started_at_key ns) stage
                   (int (length valid)) (sum_list valid) observed_at (bin_counts boundaries valid) s)]))"

definition record_task_event :: "'s env \<Rightarrow> string \<Rightarrow> string \<Rightarrow> string \<Rightarrow> int \<Rightarrow> real \<Rightarrow> 's \<Rightarrow> 's" where
  "record_task_event R ns tk name amount observed_at s =
     (case task_event_commands R ns tk name amount observed_at of
        [] \<Rightarrow> s
      | cmds \<Rightarrow> pipe_execute R cmds s)"

definition record_histogram_values :: "'s env \<Rightarrow> string \<Rightarrow> string \<Rightarrow> real list \<Rightarrow> real \<Rightarrow> 's \<Rightarrow> 's" where
  "record_histogram_values R ns stage vals observed_at s =
     (case histogram_commands R ns stage vals observed_at of
        [] \<Rightarrow> s
      | cmds \<Rightarrow> pipe_execute R cmds s)"

definition record_task_outcome ::
  "'s env \<Rightarrow> string \<Rightarrow> string \<Rightarrow> outcome_type \<Rightarrow> real \<Rightarrow> bool \<Rightarrow> bool \<Rightarrow> 's \<Rightarrow> 's" where
  "record_task_outcome R ns tk outcome elapsed worker_finished congested s =
     (let (observed_at, s) = wall R s in
      pipe_execute R
        (task_event_commands R ns tk (outcome_value outcome) 1 observed_at
         @ (if worker_finished then queue_event_commands R ns ''worker_finished'' 1 observed_at else [])
         @ (if congested then queue_event_commands R ns ''congestion'' 1 observed_at else [])
         @ (if 0 \<le> elapsed then histogram_commands R ns ''execution_seconds'' [elapsed] observed_at else [])) s)"

section \<open>Reading\<close>

text \<open>\<open>HMGET\<close> of a tick's counters: the fields present, decoded.\<close>

fun decode_counts :: "(string \<times> pyval option) list \<Rightarrow> (string \<times> int) list result" where
  "decode_counts [] = Inr []"
| "decode_counts ((name, None) # xs) = decode_counts xs"
| "decode_counts ((name, Some raw) # xs) =
     (case py_int raw of Inl e \<Rightarrow> Inl e
      | Inr n \<Rightarrow> (case decode_counts xs of Inl e \<Rightarrow> Inl e | Inr r \<Rightarrow> Inr ((name, n) # r)))"

definition queue_tick_counts :: "'s env \<Rightarrow> string \<Rightarrow> int \<Rightarrow> string list \<Rightarrow> 's \<Rightarrow> (string \<times> int) list result \<times> 's" where
  "queue_tick_counts R ns observed_tick_id names s =
     (let timestamp = of_int (observed_tick_id * PUMP_INTERVAL_SECONDS);
          field_names = filter (\<lambda>n. n \<in> set AIMD_TICK_COUNTER_NAMES) names in
      if field_names = [] then (Inr [], s)
      else (case rread R (\<lambda>s. map (\<lambda>n. (n, r_hget R s (tick_metrics_key ns (hour_id timestamp)) (tick_field timestamp n)))
                          field_names) s of
              (Inl e, s) \<Rightarrow> (Inl e, s)
            | (Inr vals, s) \<Rightarrow> (decode_counts vals, s)))"

definition read_counter :: "pydict \<Rightarrow> string \<Rightarrow> int result" where
  "read_counter raw name = py_int (py_or (dict_get raw name (PInt 0)) (PInt 0))"

fun read_counters :: "pydict \<Rightarrow> string list \<Rightarrow> (string \<times> int) list result" where
  "read_counters raw [] = Inr []"
| "read_counters raw (n # ns) =
     (case read_counter raw n of Inl e \<Rightarrow> Inl e
      | Inr v \<Rightarrow> (case read_counters raw ns of Inl e \<Rightarrow> Inl e | Inr r \<Rightarrow> Inr ((n, v) # r)))"

definition read_queue_events :: "'s env \<Rightarrow> string \<Rightarrow> 's \<Rightarrow> (string \<times> int) list result \<times> 's" where
  "read_queue_events R ns s =
     (case rread R (\<lambda>s. r_hgetall R s (queue_events_key ns)) s of
        (Inl e, s) \<Rightarrow> (Inl e, s)
      | (Inr raw, s) \<Rightarrow> (read_counters raw QUEUE_EVENT_NAMES, s))"

definition read_task_outcomes :: "'s env \<Rightarrow> string \<Rightarrow> string \<Rightarrow> 's \<Rightarrow> (string \<times> int) list result \<times> 's" where
  "read_task_outcomes R ns tk s =
     (case rread R (\<lambda>s. r_hgetall R s (task_outcomes_key ns tk)) s of
        (Inl e, s) \<Rightarrow> (Inl e, s)
      | (Inr raw, s) \<Rightarrow> (read_counters raw TASK_OUTCOME_NAMES, s))"

record histogram_summary =
  hist_buckets :: "(real option \<times> int) list"
  hist_count :: int
  hist_sum :: real

fun cumulative_buckets :: "pydict \<Rightarrow> string \<Rightarrow> nat \<Rightarrow> int \<Rightarrow> real option list \<Rightarrow> (real option \<times> int) list result" where
  "cumulative_buckets raw stage index running [] = Inr []"
| "cumulative_buckets raw stage index running (b # bs) =
     (case read_counter raw (stage @ '':bin:'' @ str_of_nat index) of
        Inl e \<Rightarrow> Inl e
      | Inr n \<Rightarrow>
          (case cumulative_buckets raw stage (Suc index) (running + n) bs of
             Inl e \<Rightarrow> Inl e | Inr r \<Rightarrow> Inr ((b, running + n) # r)))"

definition read_histogram :: "pydict \<Rightarrow> string \<Rightarrow> real option list \<Rightarrow> histogram_summary result" where
  "read_histogram raw stage boundaries =
     (case cumulative_buckets raw stage 0 0 boundaries of
        Inl e \<Rightarrow> Inl e
      | Inr buckets \<Rightarrow>
          (case read_counter raw (stage @ '':count'') of
             Inl e \<Rightarrow> Inl e
           | Inr n \<Rightarrow>
               (case py_float (py_or (dict_get raw (stage @ '':sum'') (PFloat 0)) (PFloat 0)) of
                  Inl e \<Rightarrow> Inl e
                | Inr sum_value \<Rightarrow> Inr \<lparr>hist_buckets = buckets, hist_count = n, hist_sum = sum_value\<rparr>)))"

fun read_stages :: "pydict \<Rightarrow> (string \<times> real option list) list \<Rightarrow> (string \<times> histogram_summary) list result" where
  "read_stages raw [] = Inr []"
| "read_stages raw ((stage, boundaries) # stages) =
     (case read_histogram raw stage boundaries of
        Inl e \<Rightarrow> Inl e
      | Inr h \<Rightarrow> (case read_stages raw stages of Inl e \<Rightarrow> Inl e | Inr r \<Rightarrow> Inr ((stage, h) # r)))"

definition read_histograms :: "'s env \<Rightarrow> string \<Rightarrow> 's \<Rightarrow> (string \<times> histogram_summary) list result \<times> 's" where
  "read_histograms R ns s =
     (case rread R (\<lambda>s. r_hgetall R s (histograms_key ns)) s of
        (Inl e, s) \<Rightarrow> (Inl e, s)
      | (Inr raw, s) \<Rightarrow> (read_stages raw HISTOGRAM_BUCKETS, s))"

definition read_started_at :: "'s env \<Rightarrow> string \<Rightarrow> 's \<Rightarrow> real option result \<times> 's" where
  "read_started_at R ns s =
     (case rread R (\<lambda>s. r_get R s (started_at_key ns)) s of
        (Inl e, s) \<Rightarrow> (Inl e, s)
      | (Inr None, s) \<Rightarrow> (Inr None, s)
      | (Inr (Some raw), s) \<Rightarrow> (map_sum id Some (py_float raw), s))"

section \<open>Frames\<close>

definition metrics_keys :: "string \<Rightarrow> string set" where
  "metrics_keys ns = {queue_events_key ns, histograms_key ns, started_at_key ns}
     \<union> range (tick_metrics_key ns) \<union> range (task_outcomes_key ns)"

lemma metrics_keys_mem [simp]:
  "queue_events_key ns \<in> metrics_keys ns" "histograms_key ns \<in> metrics_keys ns"
  "started_at_key ns \<in> metrics_keys ns" "tick_metrics_key ns h \<in> metrics_keys ns"
  "task_outcomes_key ns tk \<in> metrics_keys ns"
  by (auto simp: metrics_keys_def)

lemma metrics_keys_queue [simp]: "queue_keys ns \<inter> metrics_keys ns = {}"
  by (auto simp: metrics_keys_def)

text \<open>The bins of a recorded batch: every valid value falls in exactly one of them.\<close>

lemma bisect_left_le: "bisect_left bs v \<le> length bs"
  by (simp add: bisect_left_def length_takeWhile_le)

lemma count_if_sum:
  assumes "\<forall>v\<in>set xs. f v \<le> n"
  shows "(\<Sum>i\<leftarrow>[0..<Suc n]. int (count_if (\<lambda>v. f v = i) xs)) = int (length xs)"
  using assms
proof (induction xs)
  case Nil
  then show ?case by (simp add: sum_list_0)
next
  case (Cons x xs)
  have one: "(\<Sum>i\<leftarrow>[0..<Suc n]. if f x = i then 1 else (0::int)) = 1"
  proof -
    have "(\<Sum>i\<leftarrow>[0..<Suc n]. if f x = i then 1 else (0::int)) = (\<Sum>i\<in>{0..<Suc n}. if f x = i then 1 else 0)"
      by (simp only: interv_sum_list_conv_sum_set_nat set_upt)
    also have "\<dots> = 1" using Cons.prems by simp
    finally show ?thesis .
  qed
  have "(\<Sum>i\<leftarrow>[0..<Suc n]. int (count_if (\<lambda>v. f v = i) (x # xs)))
      = (\<Sum>i\<leftarrow>[0..<Suc n]. (if f x = i then 1 else 0) + int (count_if (\<lambda>v. f v = i) xs))"
    by (intro arg_cong [where f = sum_list] map_cong) auto
  then show ?case
    using Cons one by (simp only: sum_list_addf) simp
qed

lemma sum_list_drop_zero: "(\<Sum>(i, n)\<leftarrow>filter (\<lambda>(i, n). n \<noteq> 0) xs. n) = (\<Sum>(i, n)\<leftarrow>xs. (n::int))"
  by (induction xs) auto

lemma bin_counts_total: "(\<Sum>(i, n)\<leftarrow>bin_counts bs xs. n) = int (length xs)"
proof -
  have "(\<Sum>(i, n)\<leftarrow>bin_counts bs xs. n)
      = (\<Sum>i\<leftarrow>[0..<Suc (length bs)]. int (count_if (\<lambda>v. bisect_left bs v = i) xs))"
    unfolding bin_counts_def sum_list_drop_zero by (simp add: comp_def del: upt_Suc)
  then show ?thesis using count_if_sum [of xs "bisect_left bs" "length bs"] by (simp add: bisect_left_le)
qed

text \<open>The cumulative buckets never decrease while the stored bins are not negative.\<close>

lemma cumulative_buckets_sorted:
  assumes "cumulative_buckets raw stage i running bs = Inr out"
    and "\<And>j n. read_counter raw (stage @ '':bin:'' @ str_of_nat j) = Inr n \<Longrightarrow> 0 \<le> n"
  shows "sorted (map snd out) \<and> (\<forall>x\<in>set out. running \<le> snd x) \<and> map fst out = bs"
  using assms(1)
proof (induction bs arbitrary: i running out)
  case Nil
  then show ?case by simp
next
  case (Cons b bs)
  then obtain n r where n: "read_counter raw (stage @ '':bin:'' @ str_of_nat i) = Inr n"
    and r: "cumulative_buckets raw stage (Suc i) (running + n) bs = Inr r" and out: "out = (b, running + n) # r"
    by (auto split: sum.splits)
  from assms(2) [OF n] Cons.IH [OF r] out show ?case by auto
qed

section \<open>What recording leaves alone\<close>

context redis
begin

lemma frame_rpc:
  "(\<And>s1. V s1 = V s \<Longrightarrow> same_at A (V s1) (V (snd (cmd s1)))) \<Longrightarrow> same_at A (V s) (V (snd (rpc R cmd s)))"
  by (rule rpc_invariant [where I = "\<lambda>v. same_at A (V s) v"]) (auto simp: same_at_def)

lemma frame_rpc_script:
  "(\<And>s1. V s1 = V s \<Longrightarrow> same_at A (V s1) (V (snd (f s1)))) \<Longrightarrow> same_at A (V s) (V (snd (rpc_script R f s)))"
  by (rule rpc_script_invariant [where I = "\<lambda>v. same_at A (V s) v"]) (auto simp: same_at_def)

lemma frame_run_commands:
  "(\<And>c s. c \<in> set cmds \<Longrightarrow> same_at A (V s) (V (c s))) \<Longrightarrow> same_at A (V s) (V (run_commands cmds s))"
proof (induction cmds arbitrary: s)
  case (Cons c cs)
  have "same_at A (V s) (V (c s))" using Cons.prems by simp
  also have "same_at A (V (c s)) (V (run_commands cs (c s)))" using Cons.prems by (intro Cons.IH) simp
  finally show ?case by simp
qed simp

lemma frame_pipe:
  assumes "\<And>c t. c \<in> set cmds \<Longrightarrow> same_at A (V t) (V (c t))"
  shows "same_at A (V s) (V (pipe_execute R cmds s))"
  unfolding pipe_execute_def
proof (rule frame_rpc)
  fix s1 show "same_at A (V s1) (V (snd ((), run_commands cmds s1)))"
    unfolding snd_conv using assms by (rule frame_run_commands)
qed

lemma frame_queue_event_lua:
  assumes "A \<inter> metrics_keys ns = {}"
  shows "same_at A (V s) (V (snd (record_queue_event_lua R (queue_events_key ns) (tick_metrics_key ns h)
           (started_at_key ns) name amount fld t0 s)))"
proof -
  have "queue_events_key ns \<notin> A" "tick_metrics_key ns h \<notin> A" "started_at_key ns \<notin> A"
    using assms metrics_keys_mem by blast+
  then show ?thesis
    by (auto simp: record_queue_event_lua_def Let_def case_prod_beta frame_simps split: sum.split)
qed

lemma frame_task_outcome_lua:
  assumes "A \<inter> metrics_keys ns = {}"
  shows "same_at A (V s) (V (snd (record_task_outcome_lua R (task_outcomes_key ns tk)
           (started_at_key ns) name amount t0 s)))"
proof -
  have "task_outcomes_key ns tk \<notin> A" "started_at_key ns \<notin> A"
    using assms metrics_keys_mem by blast+
  then show ?thesis
    by (auto simp: record_task_outcome_lua_def Let_def case_prod_beta frame_simps split: sum.split)
qed

lemma frame_histogram_bins:
  "hk \<notin> A \<Longrightarrow> same_at A (V s) (V (snd (histogram_bins_lua R hk stage bins s)))"
proof (induction bins arbitrary: s)
  case (Cons b bins)
  obtain i n where b: "b = (i, n)" by (cases b)
  let ?s = "snd (r_hincrby R s hk (stage @ '':bin:'' @ str_of_nat i) n)"
  have "same_at A (V s) (V ?s)" using Cons.prems by (simp add: frame_simps)
  moreover have "same_at A (V ?s) (V (snd (histogram_bins_lua R hk stage bins ?s)))"
    using Cons.prems by (rule Cons.IH)
  ultimately show ?case
    by (auto simp: b Let_def case_prod_beta intro: same_at_trans split: sum.splits)
qed simp

lemma frame_histogram_lua:
  assumes "A \<inter> metrics_keys ns = {}"
  shows "same_at A (V s) (V (snd (record_histogram_lua R (histograms_key ns) (started_at_key ns)
           stage cnt sm t0 bins s)))"
proof -
  have k: "histograms_key ns \<notin> A" "started_at_key ns \<notin> A"
    using assms metrics_keys_mem by blast+
  let ?s1 = "snd (r_setnx R s (started_at_key ns) (PFloat t0) None)"
  let ?s2 = "snd (r_hincrby R ?s1 (histograms_key ns) (stage @ '':count'') cnt)"
  let ?s3 = "r_hincrbyfloat R ?s2 (histograms_key ns) (stage @ '':sum'') sm"
  have 2: "same_at A (V s) (V ?s2)" and 3: "same_at A (V s) (V ?s3)"
    using k by (simp_all add: frame_simps)
  from 3 frame_histogram_bins [OF k(1), of ?s3 stage bins]
  have "same_at A (V s) (V (snd (histogram_bins_lua R (histograms_key ns) stage bins ?s3)))"
    by (rule same_at_trans)
  with 2 show ?thesis
    by (auto simp: record_histogram_lua_def Let_def case_prod_beta simp del: laws split: sum.split)
qed

lemma frame_event_commands:
  assumes "A \<inter> metrics_keys ns = {}"
  shows "c \<in> set (queue_event_commands R ns name amount t0) \<Longrightarrow> same_at A (V s) (V (c s))"
    and "c \<in> set (task_event_commands R ns tk name amount t0) \<Longrightarrow> same_at A (V s) (V (c s))"
    and "c \<in> set (histogram_commands R ns stage vals t0) \<Longrightarrow> same_at A (V s) (V (c s))"
  using frame_queue_event_lua [OF assms] frame_task_outcome_lua [OF assms] frame_histogram_lua [OF assms]
  by (auto simp: queue_event_commands_def task_event_commands_def histogram_commands_def Let_def
      split: if_splits option.splits)

lemma frame_record_queue_event:
  assumes "A \<inter> metrics_keys ns = {}"
  shows "same_at A (V s) (V (record_queue_event R ns name amount t0 s))"
proof -
  have "same_at A (V s) (V (pipe_execute R (queue_event_commands R ns name amount t0) s))"
    by (rule frame_pipe) (rule frame_event_commands(1) [OF assms])
  then show ?thesis by (auto simp: record_queue_event_def split: list.split)
qed

lemma frame_record_task_event:
  assumes "A \<inter> metrics_keys ns = {}"
  shows "same_at A (V s) (V (record_task_event R ns tk name amount t0 s))"
proof -
  have "same_at A (V s) (V (pipe_execute R (task_event_commands R ns tk name amount t0) s))"
    by (rule frame_pipe) (rule frame_event_commands(2) [OF assms])
  then show ?thesis by (auto simp: record_task_event_def split: list.split)
qed

lemma frame_record_histogram:
  assumes "A \<inter> metrics_keys ns = {}"
  shows "same_at A (V s) (V (record_histogram_values R ns stage vals t0 s))"
proof -
  have "same_at A (V s) (V (pipe_execute R (histogram_commands R ns stage vals t0) s))"
    by (rule frame_pipe) (rule frame_event_commands(3) [OF assms])
  then show ?thesis by (auto simp: record_histogram_values_def split: list.split)
qed

lemma frame_record_task_outcome:
  assumes "A \<inter> metrics_keys ns = {}"
  shows "same_at A (V s) (V (record_task_outcome R ns tk outcome elapsed fin cong s))"
  unfolding record_task_outcome_def Let_def case_prod_beta
  by (subst law_wall [symmetric], rule frame_pipe) (auto dest: frame_event_commands [OF assms] split: if_splits)

lemma frame_record_enqueue_outcome:
  assumes "A \<inter> metrics_keys ns = {}"
  shows "same_at A (V s) (V (record_enqueue_outcome R ns tk name amount s))"
proof -
  have "same_at A (V (snd (wall R (snd (wall R s))))) (V (record_enqueue_outcome R ns tk name amount s))"
    unfolding record_enqueue_outcome_def Let_def case_prod_beta
    by (rule frame_pipe) (auto dest: frame_event_commands [OF assms])
  then show ?thesis by simp
qed

end

end
