(* ===== verification/Queue.thy ===== *)
theory Queue
  imports App Metrics
begin

text \<open>
  \<open>dispatch/queue.py\<close>: job storage, counts, configuration resolution and registration
  metadata of one queue. A queue class is represented by its namespace wherever only its
  keys matter. \<open>conn()\<close> is part of the round trip: a namespace without a route raises like
  a refused command (theory Routing models the resolution itself).
\<close>

section \<open>Constants and the TTL gate\<close>

definition TASK_COUNTS_TTL_SECONDS :: int where "TASK_COUNTS_TTL_SECONDS = 24 * 3600"

definition try_acquire_ttl_gate :: "'s env \<Rightarrow> string \<Rightarrow> int \<Rightarrow> 's \<Rightarrow> bool \<times> 's" where
  "try_acquire_ttl_gate R key ttl_seconds s =
     (case rpc R (\<lambda>s. r_setnx R s key (PStr ''1'') (Some (max 1 ttl_seconds))) s of
        (Inl _, s) \<Rightarrow> (False, s)
      | (Inr acquired, s) \<Rightarrow> (acquired, s))"

text \<open>\<open>now or time.time()\<close>.\<close>

definition now_or :: "'s env \<Rightarrow> real option \<Rightarrow> 's \<Rightarrow> real \<times> 's" where
  "now_or R now s =
     (case now of None \<Rightarrow> wall R s | Some t \<Rightarrow> if t = 0 then wall R s else (t, s))"

section \<open>Job records\<close>

definition get_job :: "'s env \<Rightarrow> string \<Rightarrow> string \<Rightarrow> 's \<Rightarrow> dispatch_job option \<times> 's" where
  "get_job R ns jid s =
     (case rread R (\<lambda>s. r_get R s (job_key ns jid)) s of
        (Inl _, s) \<Rightarrow> (None, s)
      | (Inr None, s) \<Rightarrow> (None, s)
      | (Inr (Some raw), s) \<Rightarrow>
          if \<not> py_truthy raw then (None, s)
          else (case decode_job raw of Inl _ \<Rightarrow> (None, s) | Inr job \<Rightarrow> (Some job, s)))"

text \<open>The payloads that decode, by job id, in candidate order.\<close>

fun decode_jobs :: "(string \<times> pyval option) list \<Rightarrow> (string \<times> dispatch_job) list" where
  "decode_jobs [] = []"
| "decode_jobs ((jid, None) # rest) = decode_jobs rest"
| "decode_jobs ((jid, Some raw) # rest) =
     (if \<not> py_truthy raw then decode_jobs rest
      else (case decode_job raw of Inl _ \<Rightarrow> decode_jobs rest | Inr job \<Rightarrow> (jid, job) # decode_jobs rest))"

definition get_jobs :: "'s env \<Rightarrow> string \<Rightarrow> string list \<Rightarrow> 's \<Rightarrow> (string \<times> dispatch_job) list \<times> 's" where
  "get_jobs R ns jids s =
     (if jids = [] then ([], s)
      else (case rread R (\<lambda>s. map (\<lambda>jid. (jid, r_get R s (job_key ns jid))) jids) s of
              (Inl _, s) \<Rightarrow> ([], s)
            | (Inr raws, s) \<Rightarrow> (decode_jobs raws, s)))"

definition peek_ready :: "'s env \<Rightarrow> string \<Rightarrow> int \<Rightarrow> real option \<Rightarrow> 's \<Rightarrow> string list \<times> 's" where
  "peek_ready R ns limit now s =
     (let (now, s) = now_or R now s in
      case rread R (\<lambda>s. r_zrangebyscore R s (pending_key ns) now (nat (max 1 limit))) s of
        (Inl _, s) \<Rightarrow> ([], s)
      | (Inr ids, s) \<Rightarrow> (ids, s))"

definition new_job ::
  "'s env \<Rightarrow> string \<Rightarrow> string \<Rightarrow> string \<Rightarrow> pydict \<Rightarrow> pyval \<Rightarrow> pyval \<Rightarrow> real option \<Rightarrow> 's \<Rightarrow> dispatch_job \<times> 's" where
  "new_job R ns tk wid wdata payload config ready s =
     (let (now, s) = wall R s in
      (\<lparr>job_id = build_job_id tk wid, task_key = tk, job_namespace = ns, work_item_id = wid,
        work_item_data = wdata, payload_json = payload, config_json = config, retry_count = 0,
        created_at = now, ready_at = (case ready of None \<Rightarrow> now | Some t \<Rightarrow> t), wait_deadline_at = 0\<rparr>, s))"

section \<open>Configuration of a stored job\<close>

text \<open>\<open>tasks\<close> is \<open>DISPATCH_REGISTRY\<close>, reduced to the configuration class of each task.\<close>

definition resolve_stored_task_config ::
  "'s db \<Rightarrow> (string \<times> task_config_class) list \<Rightarrow> dispatch_job \<Rightarrow> 's \<Rightarrow> task_config option \<times> 's" where
  "resolve_stored_task_config D tasks job s =
     (case map_of tasks (task_key job) of
        None \<Rightarrow> (None, s)
      | Some cls \<Rightarrow>
          if py_truthy (config_json job) then
            (case task_from_json (cc_default cls) (config_json job) of
               Inl _ \<Rightarrow> (None, s) | Inr c \<Rightarrow> (Some c, s))
          else
            (case task_from_db D cls s of
               (Inl _, s) \<Rightarrow> (None, s) | (Inr c, s) \<Rightarrow> (Some c, s)))"

definition resolve_queue_wait_ttl_from_job ::
  "'s db \<Rightarrow> (string \<times> task_config_class) list \<Rightarrow> dispatch_job \<Rightarrow> 's \<Rightarrow> int \<times> 's" where
  "resolve_queue_wait_ttl_from_job D tasks job s =
     (case resolve_stored_task_config D tasks job s of
        (None, s) \<Rightarrow> (DEFAULT_QUEUE_WAIT_TTL_SECONDS, s)
      | (Some c, s) \<Rightarrow> (resolve_queue_wait_ttl_seconds c, s))"

definition resolve_reserved_record_ttl_from_job ::
  "'s db \<Rightarrow> (string \<times> task_config_class) list \<Rightarrow> dispatch_job \<Rightarrow> 's \<Rightarrow> int \<times> 's" where
  "resolve_reserved_record_ttl_from_job D tasks job s =
     (case resolve_stored_task_config D tasks job s of
        (None, s) \<Rightarrow> (DEFAULT_EXECUTION_TIMEOUT_SECONDS + RESERVED_TTL_MARGIN_SECONDS, s)
      | (Some c, s) \<Rightarrow> (resolve_reserved_record_ttl_seconds c, s))"

section \<open>Outcomes and registration metadata\<close>

definition record_outcome ::
  "'s env \<Rightarrow> queue_class \<Rightarrow> string \<Rightarrow> outcome_type \<Rightarrow> real \<Rightarrow> bool \<Rightarrow> 's \<Rightarrow> 's" where
  "record_outcome R q tk outcome elapsed worker_finished =
     record_task_outcome R (qc_namespace q) tk outcome elapsed worker_finished (qc_congestion q outcome)"

definition outcomes_for_task :: "'s env \<Rightarrow> string \<Rightarrow> string \<Rightarrow> 's \<Rightarrow> (string \<times> int) list \<times> 's" where
  "outcomes_for_task R ns tk s =
     (case read_task_outcomes R ns tk s of (Inl _, s) \<Rightarrow> ([], s) | (Inr counts, s) \<Rightarrow> (counts, s))"

text \<open>
  Whether one field of \<open>dispatch:registered\<close> is stale. A payload that is a JSON value but no
  object raises out of the loop, as \<open>meta.get\<close> does.
\<close>

definition metadata_stale :: "string list \<Rightarrow> string list \<Rightarrow> string \<Rightarrow> pyval \<Rightarrow> bool result" where
  "metadata_stale known_tasks known_namespaces fld payload =
     (if fld \<notin> set known_tasks then Inr True
      else (case (if py_truthy payload then json_loads payload else Inr (PDict [])) of
              Inl _ \<Rightarrow> Inr True
            | Inr (PDict meta) \<Rightarrow>
                (case py_or (dict_get meta ''namespace'' PNone) (PStr []) of
                   PStr ns \<Rightarrow> Inr (ns \<noteq> [] \<and> ns \<notin> set known_namespaces)
                 | _ \<Rightarrow> Inl TypeError)
            | Inr _ \<Rightarrow> Inl TypeError))"

fun stale_fields :: "string list \<Rightarrow> string list \<Rightarrow> pydict \<Rightarrow> string list result" where
  "stale_fields kt kn [] = Inr []"
| "stale_fields kt kn ((fld, payload) # rest) =
     bind_result (metadata_stale kt kn fld payload) (\<lambda>st.
     bind_result (stale_fields kt kn rest) (\<lambda>flds. Inr (if st then fld # flds else flds)))"

definition known_namespaces :: "queue_registry \<Rightarrow> string list \<Rightarrow> string list" where
  "known_namespaces reg task_namespaces = map fst reg @ filter (\<lambda>ns. ns \<noteq> []) task_namespaces"

definition reconcile_registered_metadata ::
  "'s env \<Rightarrow> queue_registry \<Rightarrow> (string \<times> string) list \<Rightarrow> 's \<Rightarrow> int result \<times> 's" where
  "reconcile_registered_metadata R reg tasks s =
     (case rread R (\<lambda>s. r_hgetall R s KEY_REGISTERED) s of
        (Inl _, s) \<Rightarrow> (Inr 0, s)
      | (Inr raw, s) \<Rightarrow>
        (case stale_fields (map fst tasks) (known_namespaces reg (map snd tasks)) raw of
           Inl e \<Rightarrow> (Inl e, s)
         | Inr [] \<Rightarrow> (Inr 0, s)
         | Inr stale \<Rightarrow>
             (case rwrite R (\<lambda>s. fold (\<lambda>fld s. r_hdel R s KEY_REGISTERED fld) stale s) s of
                (Inl _, s) \<Rightarrow> (Inr 0, s)
              | (Inr _, s) \<Rightarrow> (Inr (int (length stale)), s))))"

text \<open>\<open>tasks\<close>: task key and namespace of every registered task class.\<close>

definition register_task_metadata ::
  "'s env \<Rightarrow> queue_registry \<Rightarrow> (string \<times> string) list \<Rightarrow> string \<Rightarrow> pydict \<Rightarrow> 's \<Rightarrow> 's" where
  "register_task_metadata R reg tasks tk metadata s =
     (case rwrite R (\<lambda>s. r_hset R s KEY_REGISTERED tk (PJson (PDict metadata))) s of
        (Inl _, s) \<Rightarrow> s
      | (Inr _, s) \<Rightarrow> snd (reconcile_registered_metadata R reg tasks s))"

section \<open>Counts\<close>

text \<open>A count that cannot be read is -1.\<close>

definition count_or_unknown :: "int result \<times> 's \<Rightarrow> int \<times> 's" where
  "count_or_unknown rs = (case rs of (Inl _, s) \<Rightarrow> (-1, s) | (Inr n, s) \<Rightarrow> (n, s))"

definition pending_count :: "'s env \<Rightarrow> string \<Rightarrow> 's \<Rightarrow> int \<times> 's" where
  "pending_count R ns s = count_or_unknown (rread R (\<lambda>s. r_zcard R s (pending_key ns)) s)"

definition reserved_count :: "'s env \<Rightarrow> string \<Rightarrow> 's \<Rightarrow> int \<times> 's" where
  "reserved_count R ns s = count_or_unknown (rread R (\<lambda>s. r_zcard R s (reserved_key ns)) s)"

definition delayed_count :: "'s env \<Rightarrow> string \<Rightarrow> real option \<Rightarrow> 's \<Rightarrow> int \<times> 's" where
  "delayed_count R ns now s =
     (let (now, s) = now_or R now s in
      count_or_unknown (rread R (\<lambda>s. r_zcount R s (pending_key ns) (Some now) None) s))"

definition ready_count :: "'s env \<Rightarrow> string \<Rightarrow> real option \<Rightarrow> 's \<Rightarrow> int \<times> 's" where
  "ready_count R ns now s =
     (let (now, s) = now_or R now s in
      count_or_unknown (rread R (\<lambda>s. r_zcount R s (pending_key ns) None (Some now)) s))"

fun aggregate_counts :: "(string \<Rightarrow> 's \<Rightarrow> int \<times> 's) \<Rightarrow> string list \<Rightarrow> 's \<Rightarrow> int \<times> 's" where
  "aggregate_counts read_one [] s = (0, s)"
| "aggregate_counts read_one (ns # rest) s =
     (let (n, s) = read_one ns s; (acc, s) = aggregate_counts read_one rest s in (max 0 n + acc, s))"

definition aggregate_pending_count :: "'s env \<Rightarrow> queue_registry \<Rightarrow> 's \<Rightarrow> int \<times> 's" where
  "aggregate_pending_count R reg = aggregate_counts (pending_count R) (map qc_namespace (registered_queues reg))"

definition aggregate_reserved_count :: "'s env \<Rightarrow> queue_registry \<Rightarrow> 's \<Rightarrow> int \<times> 's" where
  "aggregate_reserved_count R reg = aggregate_counts (reserved_count R) (map qc_namespace (registered_queues reg))"

definition aggregate_delayed_count :: "'s env \<Rightarrow> queue_registry \<Rightarrow> real option \<Rightarrow> 's \<Rightarrow> int \<times> 's" where
  "aggregate_delayed_count R reg now =
     aggregate_counts (\<lambda>ns. delayed_count R ns now) (map qc_namespace (registered_queues reg))"

definition aggregate_ready_count :: "'s env \<Rightarrow> queue_registry \<Rightarrow> real option \<Rightarrow> 's \<Rightarrow> int \<times> 's" where
  "aggregate_ready_count R reg now =
     aggregate_counts (\<lambda>ns. ready_count R ns now) (map qc_namespace (registered_queues reg))"

text \<open>\<open>int(value or 0)\<close> of a hash field.\<close>

definition field_count :: "pyval option \<Rightarrow> int result" where
  "field_count v = (case v of None \<Rightarrow> Inr 0 | Some x \<Rightarrow> if py_truthy x then py_int x else Inr 0)"

definition read_task_count :: "'s env \<Rightarrow> string \<Rightarrow> string \<Rightarrow> 's \<Rightarrow> int \<times> 's" where
  "read_task_count R ns fld s =
     (case rread R (\<lambda>s. r_hget R s (task_counts_key ns) fld) s of
        (Inl _, s) \<Rightarrow> (-1, s)
      | (Inr v, s) \<Rightarrow> (case field_count v of Inl _ \<Rightarrow> (-1, s) | Inr n \<Rightarrow> (n, s)))"

definition pending_count_for_task :: "'s env \<Rightarrow> string \<Rightarrow> string \<Rightarrow> 's \<Rightarrow> int \<times> 's" where
  "pending_count_for_task R ns tk = read_task_count R ns (pending_count_field tk)"

definition reserved_count_for_task :: "'s env \<Rightarrow> string \<Rightarrow> string \<Rightarrow> 's \<Rightarrow> int \<times> 's" where
  "reserved_count_for_task R ns tk = read_task_count R ns (reserved_count_field tk)"

definition has_pending_for_task :: "'s env \<Rightarrow> string \<Rightarrow> string \<Rightarrow> 's \<Rightarrow> bool \<times> 's" where
  "has_pending_for_task R ns tk s = (let (n, s) = pending_count_for_task R ns tk s in (n \<noteq> 0, s))"

definition has_reserved_for_task :: "'s env \<Rightarrow> string \<Rightarrow> string \<Rightarrow> 's \<Rightarrow> bool \<times> 's" where
  "has_reserved_for_task R ns tk s = (let (n, s) = reserved_count_for_task R ns tk s in (n \<noteq> 0, s))"

definition task_counts :: "'s env \<Rightarrow> string \<Rightarrow> string \<Rightarrow> 's \<Rightarrow> (int \<times> int) \<times> 's" where
  "task_counts R ns tk s =
     (case rread R (\<lambda>s. (r_hget R s (task_counts_key ns) (pending_count_field tk),
                         r_hget R s (task_counts_key ns) (reserved_count_field tk))) s of
        (Inl _, s) \<Rightarrow> ((-1, -1), s)
      | (Inr (p, r), s) \<Rightarrow>
          (case (field_count p, field_count r) of
             (Inr p, Inr r) \<Rightarrow> ((p, r), s)
           | _ \<Rightarrow> ((-1, -1), s)))"

section \<open>What these operations read and leave alone\<close>

context redis
begin

lemma now_or_V [simp]: "V (snd (now_or R now s)) = V s"
  by (simp add: now_or_def split: option.split)

lemma get_job_V [simp]: "V (snd (get_job R ns jid s)) = V s"
  using rread_view [of "\<lambda>s. r_get R s (job_key ns jid)" s]
  by (auto simp: get_job_def case_prod_beta simp del: rread_view split: sum.split option.split)

lemma get_jobs_V [simp]: "V (snd (get_jobs R ns jids s)) = V s"
  by (simp add: get_jobs_def case_prod_beta split: sum.split)

lemma peek_ready_V [simp]: "V (snd (peek_ready R ns limit now s)) = V s"
  by (simp add: peek_ready_def Let_def case_prod_beta split: sum.split)

lemma new_job_V [simp]: "V (snd (new_job R ns tk wid wdata payload config ready s)) = V s"
  by (simp add: new_job_def Let_def case_prod_beta)

lemma read_task_count_V [simp]: "V (snd (read_task_count R ns fld s)) = V s"
  by (simp add: read_task_count_def case_prod_beta split: sum.split)

lemma get_job_Some:
  assumes "get_job R ns jid s = (Some job, s')"
  shows "\<exists>raw. kv (V s) (job_key ns jid) = Some raw \<and> decode_job raw = Inr job"
proof -
  obtain r s1 where r: "rread R (\<lambda>s. r_get R s (job_key ns jid)) s = (r, s1)" by force
  with assms obtain raw where raw: "r = Inr (Some raw)" "decode_job raw = Inr job"
    by (auto simp: get_job_def split: sum.splits option.splits if_splits)
  from r raw(1) show ?thesis by (auto elim!: rread_Inr intro!: exI [of _ raw] raw(2))
qed

text \<open>What \<open>peek_ready\<close> returns: distinct members of the pending set, due, earliest first,
  at most as many as asked for.\<close>

lemma peek_ready_props:
  assumes "peek_ready R ns limit now s = (ids, s')"
  shows "distinct ids" and "length ids \<le> nat (max 1 limit)"
    and "\<forall>jid\<in>set ids. \<exists>sc. zs (V s) (pending_key ns) jid = Some sc \<and> sc \<le> fst (now_or R now s)"
    and "sorted (map (\<lambda>m. the (zs (V s) (pending_key ns) m)) ids)"
proof -
  obtain t s1 where t: "now_or R now s = (t, s1)" by force
  obtain r s2 where r: "rread R (\<lambda>s. r_zrangebyscore R s (pending_key ns) t (nat (max 1 limit))) s1 = (r, s2)"
    by force
  from t have V1: "V s1 = V s" using now_or_V [of now s] by simp
  have "distinct ids \<and> length ids \<le> nat (max 1 limit)
    \<and> (\<forall>jid\<in>set ids. \<exists>sc. zs (V s) (pending_key ns) jid = Some sc \<and> sc \<le> t)
    \<and> sorted (map (\<lambda>m. the (zs (V s) (pending_key ns) m)) ids)"
  proof (cases r)
    case (Inl e)
    then show ?thesis using assms t r by (simp add: peek_ready_def)
  next
    case (Inr x)
    with assms t r have ids: "ids = x" by (simp add: peek_ready_def)
    from r Inr obtain s3 where V3: "V s3 = V s" and x: "x = r_zrangebyscore R s3 (pending_key ns) t (nat (max 1 limit))"
      using V1 by (auto elim!: rread_Inr)
    show ?thesis
      using law_zrange_due [of s3 "pending_key ns" t "nat (max 1 limit)"]
        law_zrange_len [of s3 "pending_key ns" t "nat (max 1 limit)"]
        law_zrange_distinct [of s3 "pending_key ns" t "nat (max 1 limit)"]
        law_zrange_sorted [of s3 "pending_key ns" t "nat (max 1 limit)"]
      unfolding ids x V3 by (auto simp: due_def subset_iff)
  qed
  then show "distinct ids" "length ids \<le> nat (max 1 limit)"
    "\<forall>jid\<in>set ids. \<exists>sc. zs (V s) (pending_key ns) jid = Some sc \<and> sc \<le> fst (now_or R now s)"
    "sorted (map (\<lambda>m. the (zs (V s) (pending_key ns) m)) ids)"
    by (simp_all add: t)
qed

text \<open>A task is reported idle only on a count that was read and is zero.\<close>

lemma has_pending_False:
  assumes "has_pending_for_task R ns tk s = (False, s')"
  shows "field_count (hs (V s) (task_counts_key ns) (pending_count_field tk)) = Inr 0"
proof -
  obtain r s1 where r: "rread R (\<lambda>s. r_hget R s (task_counts_key ns) (pending_count_field tk)) s = (r, s1)" by force
  with assms obtain v where v: "r = Inr v" "field_count v = Inr 0"
    by (auto simp: has_pending_for_task_def pending_count_for_task_def read_task_count_def
        split: sum.splits)
  with r show ?thesis by (auto elim!: rread_Inr)
qed

lemma has_reserved_False:
  assumes "has_reserved_for_task R ns tk s = (False, s')"
  shows "field_count (hs (V s) (task_counts_key ns) (reserved_count_field tk)) = Inr 0"
proof -
  obtain r s1 where r: "rread R (\<lambda>s. r_hget R s (task_counts_key ns) (reserved_count_field tk)) s = (r, s1)" by force
  with assms obtain v where v: "r = Inr v" "field_count v = Inr 0"
    by (auto simp: has_reserved_for_task_def reserved_count_for_task_def read_task_count_def
        split: sum.splits)
  with r show ?thesis by (auto elim!: rread_Inr)
qed

text \<open>Pending jobs are ready or delayed.\<close>

lemma ready_delayed_cover:
  assumes "finite (dom z)"
  shows "card (dom z) \<le> card {m. \<exists>sc. z m = Some sc \<and> in_range None (Some t) sc}
                       + card {m. \<exists>sc. z m = Some sc \<and> in_range (Some t) None sc}"
proof -
  have "dom z \<subseteq> {m. \<exists>sc. z m = Some sc \<and> in_range None (Some t) sc} \<union> {m. \<exists>sc. z m = Some sc \<and> in_range (Some t) None sc}"
    by (auto simp: in_range_def)
  moreover have "finite ({m. \<exists>sc. z m = Some sc \<and> in_range None (Some t) sc}
      \<union> {m. \<exists>sc. z m = Some sc \<and> in_range (Some t) None sc})"
    by (rule finite_subset [OF _ assms]) auto
  ultimately show ?thesis by (meson card_Un_le card_mono le_trans)
qed

lemma fold_hdel:
  "V (fold (\<lambda>fld s. r_hdel R s k fld) flds s) = fold (\<lambda>fld. v_hdel k fld) flds (V s)"
  by (induction flds arbitrary: s) simp_all

end

lemma fold_v_hdel_hs:
  "hs (fold (\<lambda>fld. v_hdel k fld) flds v) k f = (if f \<in> set flds then None else hs v k f)"
  by (induction flds arbitrary: v) (auto simp: v_hdel_def)

lemma stale_fields_mem:
  "stale_fields kt kn raw = Inr flds \<Longrightarrow>
     f \<in> set flds \<longleftrightarrow> (\<exists>p. (f, p) \<in> set raw \<and> metadata_stale kt kn f p = Inr True)"
proof (induction raw arbitrary: flds)
  case (Cons x raw)
  obtain g p where x: "x = (g, p)" by (cases x)
  from Cons.prems x obtain st r where st: "metadata_stale kt kn g p = Inr st"
    and r: "stale_fields kt kn raw = Inr r" and flds: "flds = (if st then g # r else r)"
    by (auto simp: bind_result_def split: sum.splits)
  from Cons.IH [OF r] st flds show ?case by (auto simp: x)
qed simp

lemma stale_fields_defined:
  "stale_fields kt kn raw = Inr flds \<Longrightarrow> (f, p) \<in> set raw \<Longrightarrow> \<exists>b. metadata_stale kt kn f p = Inr b"
  by (induction raw arbitrary: flds) (auto simp: bind_result_def split: sum.splits)

text \<open>After a reconciliation that could read and write, every field left names a registered
  task, with a namespace that is known or absent.\<close>

context redis_up
begin

lemma reconcile_sound:
  assumes "reconcile_registered_metadata R reg tasks s = (Inr n, s')"
    and "hs (V s') KEY_REGISTERED fld = Some payload"
  shows "fld \<in> set (map fst tasks)
    \<and> metadata_stale (map fst tasks) (known_namespaces reg (map snd tasks)) fld payload = Inr False"
proof -
  let ?kt = "map fst tasks" and ?kn = "known_namespaces reg (map snd tasks)"
  let ?s1 = "snd (net R s)"
  let ?raw = "r_hgetall R ?s1 KEY_REGISTERED"
  have raw: "map_of ?raw = hs (V s) KEY_REGISTERED" by simp
  from assms(1) obtain stale where st: "stale_fields ?kt ?kn ?raw = Inr stale"
    by (auto simp: reconcile_registered_metadata_def rread_up split: sum.splits)
  have s': "hs (V s') KEY_REGISTERED f = (if f \<in> set stale then None else hs (V s) KEY_REGISTERED f)" for f
    using assms(1) st by (cases stale)
      (auto simp: reconcile_registered_metadata_def rread_up rwrite_up fold_hdel fold_v_hdel_hs v_hdel_def)
  with assms(2) have f: "fld \<notin> set stale" "map_of ?raw fld = Some payload"
    unfolding raw by (auto split: if_splits)
  from f(2) have m: "(fld, payload) \<in> set ?raw" by (rule map_of_SomeD)
  have "\<exists>b. metadata_stale ?kt ?kn fld payload = Inr b"
    using st m by (rule stale_fields_defined)
  with f(1) m stale_fields_mem [OF st, of fld] have "metadata_stale ?kt ?kn fld payload = Inr False"
    by (metis (full_types))
  then show ?thesis by (auto simp: metadata_stale_def split: if_splits)
qed

end

end
