(* ===== verification/Queue_State.thy ===== *)
theory Queue_State
  imports Queue
begin

text \<open>
  The bookkeeping every Lua script of the queue shares: the per-task counter update, and the
  invariants of the queue state that admission, reservation, finalize, requeue and the
  reaper keep.
\<close>

section \<open>The counter update of the scripts\<close>

text \<open>
  \<open>HINCRBY\<close> a count field and drop it when it is not positive. A hash value that is not an
  integer makes \<open>HINCRBY\<close> raise, which aborts the script with its earlier writes kept.
\<close>

definition bump_count :: "'s env \<Rightarrow> string \<Rightarrow> string \<Rightarrow> int \<Rightarrow> 's \<Rightarrow> unit result \<times> 's" where
  "bump_count R key fld amount s =
     (case r_hincrby R s key fld amount of
        (Inl e, s) \<Rightarrow> (Inl e, s)
      | (Inr v, s) \<Rightarrow> (Inr (), if v \<le> 0 then r_hdel R s key fld else s))"

definition v_bump :: "string \<Rightarrow> string \<Rightarrow> int \<Rightarrow> view \<Rightarrow> view" where
  "v_bump k f n v =
     (case hash_int v k f of
        None \<Rightarrow> v
      | Some i \<Rightarrow> if i + n \<le> 0 then v_hdel k f (v_hset k f (PInt (i + n)) v) else v_hset k f (PInt (i + n)) v)"

lemma hash_int_hset: "hash_int (v_hset k f (PInt i) v) k f' = (if f' = f then Some i else hash_int v k f')"
  by (simp add: hash_int_def v_hset_def)

lemma hash_int_hdel: "hash_int (v_hdel k f v) k f' = (if f' = f then Some 0 else hash_int v k f')"
  by (simp add: hash_int_def v_hdel_def)

lemma hash_int_bump:
  "hash_int v k f = Some i \<Longrightarrow>
     hash_int (v_bump k f n v) k f' = (if f' = f then Some (max 0 (i + n)) else hash_int v k f')"
  by (auto simp: v_bump_def hash_int_hset hash_int_hdel)

lemma bump_other [simp]:
  "zs (v_bump k f n v) = zs v" "kv (v_bump k f n v) = kv v" "sent (v_bump k f n v) = sent v"
  by (auto simp: v_bump_def v_hset_def v_hdel_def split: option.split)

lemma bump_other_key: "k' \<noteq> k \<Longrightarrow> hs (v_bump k f n v) k' = hs v k' \<and> tl (v_bump k f n v) k' = tl v k'"
  by (auto simp: v_bump_def v_hset_def v_hdel_def split: option.split)

lemma same_at_bump [frame_simps]: "k \<notin> A \<Longrightarrow> same_at A u (v_bump k f n v) = same_at A u v"
  by (auto simp: v_bump_def frame_simps split: option.split)

context redis
begin

lemma bump_V [simp]: "V (snd (bump_count R key fld n s)) = v_bump key fld n (V s)"
  by (auto simp: bump_count_def case_prod_beta v_bump_def v_hincrby_def split: sum.split option.split)

lemma bump_ok: "fst (bump_count R key fld n s) = (case hash_int (V s) key fld of None \<Rightarrow> Inl ScriptError | Some _ \<Rightarrow> Inr ())"
  by (auto simp: bump_count_def case_prod_beta split: sum.split option.split)

end

section \<open>The queue state of a store\<close>

abbreviation pend :: "string \<Rightarrow> view \<Rightarrow> string \<rightharpoonup> real" where
  "pend ns v \<equiv> zs v (pending_key ns)"

abbreviation resv :: "string \<Rightarrow> view \<Rightarrow> string \<rightharpoonup> real" where
  "resv ns v \<equiv> zs v (reserved_key ns)"

text \<open>How many jobs a queue holds: what \<open>max_admitted_jobs\<close> bounds.\<close>

definition admitted_count :: "string \<Rightarrow> view \<Rightarrow> nat" where
  "admitted_count ns v = card (dom (pend ns v)) + card (dom (resv ns v))"

definition finite_queue :: "string \<Rightarrow> view \<Rightarrow> bool" where
  "finite_queue ns v \<longleftrightarrow> finite (dom (pend ns v)) \<and> finite (dom (resv ns v))"

text \<open>No job is pending and reserved at once.\<close>

definition slots_disjoint :: "string \<Rightarrow> view \<Rightarrow> bool" where
  "slots_disjoint ns v \<longleftrightarrow> dom (pend ns v) \<inter> dom (resv ns v) = {}"

text \<open>
  The counts hash against the sorted sets. \<open>owner\<close> gives the task key of a job id; \<open>d\<close> is by
  how much the pending counts lag, which is not zero only inside the admission script.
\<close>

definition counts_lag :: "(string \<Rightarrow> string) \<Rightarrow> string \<Rightarrow> (string \<Rightarrow> nat) \<Rightarrow> view \<Rightarrow> bool" where
  "counts_lag owner ns d v \<longleftrightarrow>
     (\<forall>tk. tk \<noteq> [] \<longrightarrow>
        (\<exists>i. hash_int v (task_counts_key ns) (pending_count_field tk) = Some i
             \<and> i + int (d tk) = int (count_dom (\<lambda>j. owner j = tk) (pend ns v)))
        \<and> hash_int v (task_counts_key ns) (reserved_count_field tk)
            = Some (int (count_dom (\<lambda>j. owner j = tk) (resv ns v))))"

definition counts_ok :: "(string \<Rightarrow> string) \<Rightarrow> string \<Rightarrow> view \<Rightarrow> bool" where
  "counts_ok owner ns = counts_lag owner ns (\<lambda>_. 0)"

definition queue_inv :: "(string \<Rightarrow> string) \<Rightarrow> string \<Rightarrow> view \<Rightarrow> bool" where
  "queue_inv owner ns v \<longleftrightarrow> slots_disjoint ns v \<and> counts_ok owner ns v"

lemma counts_lag_cong:
  "pend ns v' = pend ns v \<Longrightarrow> resv ns v' = resv ns v \<Longrightarrow> hash_int v' = hash_int v \<Longrightarrow>
     counts_lag owner ns d v' = counts_lag owner ns d v"
  by (simp add: counts_lag_def)

text \<open>The three keys these predicates look at.\<close>

definition core_keys :: "string \<Rightarrow> string set" where
  "core_keys ns = {pending_key ns, reserved_key ns, task_counts_key ns}"

lemma core_keys_subset: "core_keys ns \<subseteq> queue_keys ns"
  by (auto simp: core_keys_def)

lemma core_keys_mem [simp]:
  "pending_key ns \<in> core_keys ns" "reserved_key ns \<in> core_keys ns" "task_counts_key ns \<in> core_keys ns"
  "job_key ns j \<notin> core_keys ns" "dedupe_key ns a b \<notin> core_keys ns" "tick_counter_key ns t \<notin> core_keys ns"
  by (simp_all add: core_keys_def)

lemma queue_inv_core:
  assumes "same_at (core_keys ns) v v'"
  shows "queue_inv owner ns v' = queue_inv owner ns v" and "counts_lag owner ns d v' = counts_lag owner ns d v"
    and "slots_disjoint ns v' = slots_disjoint ns v" and "admitted_count ns v' = admitted_count ns v"
    and "pend ns v' = pend ns v" and "resv ns v' = resv ns v"
  using assms by (simp_all add: same_at_def core_keys_def queue_inv_def slots_disjoint_def counts_ok_def
      counts_lag_def hash_int_def admitted_count_def)

lemma counts_ok_field:
  assumes "counts_ok owner ns v" and "tk \<noteq> []"
  shows "hash_int v (task_counts_key ns) (pending_count_field tk) = Some (int (count_dom (\<lambda>j. owner j = tk) (pend ns v)))"
    and "hash_int v (task_counts_key ns) (reserved_count_field tk) = Some (int (count_dom (\<lambda>j. owner j = tk) (resv ns v)))"
  using assms by (auto simp: counts_ok_def counts_lag_def)

lemma field_count_hash_int: "hash_int v k f = Some i \<Longrightarrow> field_count (hs v k f) = Inr i"
  by (auto simp: hash_int_def field_count_def split: option.splits pyval.splits)

lemma counts_ok_cong:
  "pend ns v' = pend ns v \<Longrightarrow> resv ns v' = resv ns v \<Longrightarrow> hash_int v' (task_counts_key ns) = hash_int v (task_counts_key ns)
     \<Longrightarrow> counts_ok owner ns v' = counts_ok owner ns v"
  by (simp add: counts_ok_def counts_lag_def)

section \<open>How the primitive moves act on the invariants\<close>

text \<open>Writes to other keys of the queue and expiry of the counts hash.\<close>

lemma core_frame [simp]:
  "k \<notin> core_keys ns \<Longrightarrow> same_at (core_keys ns) u (v_set k x ex v) = same_at (core_keys ns) u v"
  "k \<notin> core_keys ns \<Longrightarrow> same_at (core_keys ns) u (v_del k v) = same_at (core_keys ns) u v"
  "k \<notin> core_keys ns \<Longrightarrow> same_at (core_keys ns) u (v_expire k n v) = same_at (core_keys ns) u v"
  by (simp_all add: frame_simps)

lemma view_fields_expire [simp]:
  "zs (v_expire k n v) = zs v" "hs (v_expire k n v) = hs v" "kv (v_expire k n v) = kv v"
  by (simp_all add: v_expire_def)

lemma hash_int_other [simp]:
  "hash_int (v_expire k n v) = hash_int v" "hash_int (v_set k x ex v) = hash_int v"
  "hash_int (v_zadd k sc m v) = hash_int v" "hash_int (v_zrem k m v) = hash_int v"
  by (auto simp: hash_int_def fun_eq_iff v_set_def v_zadd_def v_zrem_def)

lemma zs_other [simp]:
  "zs (v_set k x ex v) = zs v" "zs (v_hset k f y v) = zs v"
  "zs (v_zadd k sc m v) k' = (if k' = k then (zs v k)(m \<mapsto> sc) else zs v k')"
  "zs (v_zrem k m v) k' = (if k' = k then (zs v k)(m := None) else zs v k')"
  by (simp_all add: v_set_def v_hset_def v_zadd_def v_zrem_def)

lemma kv_other [simp]:
  "kv (v_zadd k sc m v) = kv v" "kv (v_zrem k m v) = kv v"
  "kv (v_set k x ex v) k' = (if k' = k then Some x else kv v k')"
  by (simp_all add: v_set_def v_zadd_def v_zrem_def)

text \<open>A job enters the pending set.\<close>

lemma admit_lag:
  assumes "counts_lag owner ns d v" and "finite_queue ns v" and "pend ns v jid = None"
  shows "counts_lag owner ns (d(owner jid := Suc (d (owner jid)))) (v_zadd (pending_key ns) sc jid v)"
  using assms by (fastforce simp: counts_lag_def finite_queue_def count_dom_new)

text \<open>The admission script settles what the pending count of one task lags.\<close>

lemma settle_lag:
  assumes "counts_lag owner ns ((\<lambda>_. 0)(tk := n)) v" and "tk \<noteq> []"
  shows "counts_ok owner ns (v_bump (task_counts_key ns) (pending_count_field tk) (int n) v)"
proof -
  from assms obtain i where i: "hash_int v (task_counts_key ns) (pending_count_field tk) = Some i"
    and eq: "i + int n = int (count_dom (\<lambda>j. owner j = tk) (pend ns v))"
    by (auto simp: counts_lag_def)
  from assms(1) eq show ?thesis
    by (auto simp: counts_ok_def counts_lag_def hash_int_bump [OF i])
qed

text \<open>A job leaves the pending or the reserved set, or moves between them, with its counts.\<close>

lemma drop_pending_counts:
  assumes "counts_ok owner ns v" and "finite_queue ns v" and "pend ns v jid \<noteq> None"
    and "owner jid = tk" and "tk \<noteq> []"
  shows "counts_ok owner ns
           (v_bump (task_counts_key ns) (pending_count_field tk) (-1) (v_zrem (pending_key ns) jid v))"
proof -
  let ?v = "v_zrem (pending_key ns) jid v"
  note f = counts_ok_field [OF assms(1)]
  have h: "hash_int ?v (task_counts_key ns) (pending_count_field tk)
      = Some (int (count_dom (\<lambda>j. owner j = tk) (pend ns v)))"
    using f(1) assms(5) by simp
  have "finite (dom (pend ns v))" using assms(2) by (simp add: finite_queue_def)
  note del = count_dom_del [OF this assms(3)]
  show ?thesis
    unfolding counts_ok_def counts_lag_def
    using f del [of "\<lambda>j. owner j = tk"] del assms(4) by (auto simp: hash_int_bump [OF h])
qed

lemma drop_reserved_counts:
  assumes "counts_ok owner ns v" and "finite_queue ns v" and "resv ns v jid \<noteq> None"
    and "owner jid = tk" and "tk \<noteq> []"
  shows "counts_ok owner ns
           (v_bump (task_counts_key ns) (reserved_count_field tk) (-1) (v_zrem (reserved_key ns) jid v))"
proof -
  let ?v = "v_zrem (reserved_key ns) jid v"
  note f = counts_ok_field [OF assms(1)]
  have h: "hash_int ?v (task_counts_key ns) (reserved_count_field tk)
      = Some (int (count_dom (\<lambda>j. owner j = tk) (resv ns v)))"
    using f(2) assms(5) by simp
  have "finite (dom (resv ns v))" using assms(2) by (simp add: finite_queue_def)
  note del = count_dom_del [OF this assms(3)]
  show ?thesis
    unfolding counts_ok_def counts_lag_def
    using f del [of "\<lambda>j. owner j = tk"] del assms(4) by (auto simp: hash_int_bump [OF h])
qed

lemma add_pending_counts:
  assumes "counts_ok owner ns v" and "finite_queue ns v" and "pend ns v jid = None"
    and "owner jid = tk" and "tk \<noteq> []"
  shows "counts_ok owner ns
           (v_bump (task_counts_key ns) (pending_count_field tk) 1 (v_zadd (pending_key ns) sc jid v))"
  using settle_lag [OF _ assms(5), of owner ns 1] admit_lag [OF assms(1) [unfolded counts_ok_def] assms(2,3), of sc] assms(4)
  by simp

lemma add_reserved_counts:
  assumes "counts_ok owner ns v" and "finite_queue ns v" and "resv ns v jid = None"
    and "owner jid = tk" and "tk \<noteq> []"
  shows "counts_ok owner ns
           (v_bump (task_counts_key ns) (reserved_count_field tk) 1 (v_zadd (reserved_key ns) sc jid v))"
proof -
  let ?v = "v_zadd (reserved_key ns) sc jid v"
  note f = counts_ok_field [OF assms(1)]
  have h: "hash_int ?v (task_counts_key ns) (reserved_count_field tk)
      = Some (int (count_dom (\<lambda>j. owner j = tk) (resv ns v)))"
    using f(2) assms(5) by simp
  have "finite (dom (resv ns v))" using assms(2) by (simp add: finite_queue_def)
  note new = count_dom_new [OF this assms(3)]
  show ?thesis
    unfolding counts_ok_def counts_lag_def
    using f assms(4) by (auto simp: hash_int_bump [OF h] new)
qed

text \<open>The bumps commute with the moves of the other sorted set.\<close>

lemma counts_ok_expire [simp]: "counts_ok owner ns (v_expire k n v) = counts_ok owner ns v"
  by (simp add: counts_ok_def counts_lag_def)

lemma slots_disjoint_expire [simp]: "slots_disjoint ns (v_expire k n v) = slots_disjoint ns v"
  by (simp add: slots_disjoint_def)

lemma slots_disjoint_bump [simp]: "slots_disjoint ns (v_bump k f n v) = slots_disjoint ns v"
  by (simp add: slots_disjoint_def)

lemma finite_queue_moves [simp]:
  "finite_queue ns v \<Longrightarrow> finite_queue ns (v_zadd k sc m v)"
  "finite_queue ns v \<Longrightarrow> finite_queue ns (v_zrem k m v)"
  "finite_queue ns (v_bump k f n v) = finite_queue ns v"
  "finite_queue ns (v_expire k n v) = finite_queue ns v"
  "finite_queue ns (v_set k x ex v) = finite_queue ns v"
  by (auto simp: finite_queue_def)

context redis
begin

lemma finite_queue_V [simp]: "finite_queue ns (V s)"
  by (simp add: finite_queue_def)

end

end
