(* ===== verification/Admission.thy ===== *)
theory Admission
  imports Queue_State
begin

text \<open>
  \<open>dispatch/admission.py\<close>: \<open>ENQUEUE_JOBS_LUA\<close>, which admits a batch of jobs under the
  queue's capacity, the producer gate and the dedupe checks, and \<open>QueueAdmission.enqueue_jobs\<close>
  around it.
\<close>

section \<open>Status codes\<close>

datatype enqueue_status =
    ENQ_ACCEPTED | ENQ_DUPLICATE | ENQ_CAPACITY_REJECTED | ENQ_DEADLINE_EXPIRED | ENQ_PRODUCER_PAUSED
  | ENQ_UNAVAILABLE

fun enqueue_status_value :: "enqueue_status \<Rightarrow> int" where
  "enqueue_status_value ENQ_ACCEPTED = 1"
| "enqueue_status_value ENQ_DUPLICATE = 2"
| "enqueue_status_value ENQ_CAPACITY_REJECTED = 3"
| "enqueue_status_value ENQ_DEADLINE_EXPIRED = 4"
| "enqueue_status_value ENQ_PRODUCER_PAUSED = 5"
| "enqueue_status_value ENQ_UNAVAILABLE = 6"

definition EnqueueStatus :: "int \<Rightarrow> enqueue_status result" where
  "EnqueueStatus i =
     (if i = 1 then Inr ENQ_ACCEPTED else if i = 2 then Inr ENQ_DUPLICATE
      else if i = 3 then Inr ENQ_CAPACITY_REJECTED else if i = 4 then Inr ENQ_DEADLINE_EXPIRED
      else if i = 5 then Inr ENQ_PRODUCER_PAUSED else if i = 6 then Inr ENQ_UNAVAILABLE
      else Inl ValueError)"

interpretation enqueue_enum: int_enum enqueue_status_value EnqueueStatus
proof
  show "EnqueueStatus (enqueue_status_value e) = Inr e" for e
    by (cases e) (simp_all add: EnqueueStatus_def)
  show "EnqueueStatus i = Inr e \<Longrightarrow> enqueue_status_value e = i" for i e
    by (auto simp: EnqueueStatus_def split: if_splits)
  show "enqueue_status_value e \<noteq> 0" for e
    by (cases e) simp_all
qed

text \<open>Members compare as their integers.\<close>

instantiation enqueue_status :: linorder
begin

definition less_eq_enqueue_status :: "enqueue_status \<Rightarrow> enqueue_status \<Rightarrow> bool" where
  "less_eq_enqueue_status a b \<longleftrightarrow> enqueue_status_value a \<le> enqueue_status_value b"

definition less_enqueue_status :: "enqueue_status \<Rightarrow> enqueue_status \<Rightarrow> bool" where
  "less_enqueue_status a b \<longleftrightarrow> enqueue_status_value a < enqueue_status_value b"

instance
  by standard (auto simp: less_eq_enqueue_status_def less_enqueue_status_def enqueue_enum.code_inject [symmetric])

end

section \<open>The script\<close>

text \<open>The keys and arguments of one job of the batch.\<close>

record enqueue_arg =
  ea_record :: string
  ea_dedupe :: string
  ea_job_id :: string
  ea_score :: real
  ea_snapshot :: pyval
  ea_ttl :: int

definition enqueue_one_lua ::
  "'s env \<Rightarrow> string \<Rightarrow> string \<Rightarrow> bool \<Rightarrow> bool \<Rightarrow> int \<Rightarrow> int \<Rightarrow> enqueue_arg \<Rightarrow> 's \<Rightarrow> int \<times> 's" where
  "enqueue_one_lua R pending reserved producer_paused check_dedupe max_admitted admitted a s =
     (if producer_paused then (5, s)
      else if check_dedupe \<and>
              (r_zscore R s pending (ea_job_id a) \<noteq> None
               \<or> r_zscore R s reserved (ea_job_id a) \<noteq> None
               \<or> (ea_dedupe a \<noteq> [] \<and> r_exists R s (ea_dedupe a))) then (2, s)
      else if admitted \<ge> max_admitted then (3, s)
      else
        (let (ok, s) = (if check_dedupe \<and> ea_dedupe a \<noteq> []
                        then r_setnx R s (ea_dedupe a) (PStr (ea_job_id a)) (Some (ea_ttl a))
                        else (True, s)) in
         if \<not> ok then (2, s)
         else (let s = r_set R s (ea_record a) (ea_snapshot a) (Some (ea_ttl a));
                   s = r_zadd R s pending (ea_score a) (ea_job_id a)
               in (1, s))))"

fun enqueue_loop_lua ::
  "'s env \<Rightarrow> string \<Rightarrow> string \<Rightarrow> bool \<Rightarrow> bool \<Rightarrow> int \<Rightarrow> enqueue_arg list \<Rightarrow> int \<Rightarrow> int \<Rightarrow> 's
     \<Rightarrow> int list \<times> int \<times> 's" where
  "enqueue_loop_lua R pending reserved paused check mx [] admitted accepted s = ([], accepted, s)"
| "enqueue_loop_lua R pending reserved paused check mx (a # as) admitted accepted s =
     (let (status, s) = enqueue_one_lua R pending reserved paused check mx admitted a s;
          (admitted, accepted) = (if status = 1 then (admitted + 1, accepted + 1) else (admitted, accepted));
          (statuses, accepted, s) = enqueue_loop_lua R pending reserved paused check mx as admitted accepted s
      in (status # statuses, accepted, s))"

definition enqueue_metric_name :: "int \<Rightarrow> string" where
  "enqueue_metric_name status =
     (if status = 1 then ''enqueued'' else if status = 2 then ''enqueue_duplicate''
      else if status = 3 then ''enqueue_capacity_rejected'' else ''enqueue_producer_paused'')"

definition metric_counts :: "int list \<Rightarrow> (string \<times> int) list" where
  "metric_counts statuses =
     filter (\<lambda>(name, n). n \<noteq> 0)
       (map (\<lambda>name. (name, int (count_if (\<lambda>st. enqueue_metric_name st = name) statuses)))
          [''enqueued'', ''enqueue_duplicate'', ''enqueue_capacity_rejected'', ''enqueue_producer_paused''])"

text \<open>The telemetry of the batch, through \<open>redis.pcall\<close>: an error is ignored.\<close>

definition enqueue_metrics_lua ::
  "'s env \<Rightarrow> string \<Rightarrow> string \<Rightarrow> string \<Rightarrow> int \<Rightarrow> real \<Rightarrow> int list \<Rightarrow> 's \<Rightarrow> 's" where
  "enqueue_metrics_lua R task_outcomes queue_events started_at metrics_ttl timestamp statuses s =
     (let counts = metric_counts statuses;
          s = fold (\<lambda>(name, n) s. snd (r_hincrby R (snd (r_hincrby R s task_outcomes name n)) queue_events name n))
                counts s in
      if counts = [] then s
      else snd (r_setnx R (r_expire R s task_outcomes metrics_ttl) started_at (PFloat timestamp) None))"

definition enqueue_jobs_lua ::
  "'s env \<Rightarrow> string \<Rightarrow> string \<Rightarrow> string \<Rightarrow> string \<Rightarrow> string \<Rightarrow> string \<Rightarrow> string
     \<Rightarrow> int \<Rightarrow> bool \<Rightarrow> string \<Rightarrow> int \<Rightarrow> real \<Rightarrow> int \<Rightarrow> enqueue_arg list \<Rightarrow> 's \<Rightarrow> int list result \<times> 's" where
  "enqueue_jobs_lua R pending reserved task_outcomes queue_events counts_key producer_gate started_at
       max_admitted check_dedupe tk metrics_ttl timestamp counts_ttl args s =
     (let admitted = r_zcard R s pending + r_zcard R s reserved;
          paused = r_exists R s producer_gate;
          (statuses, accepted, s) =
            enqueue_loop_lua R pending reserved paused check_dedupe max_admitted args admitted 0 s;
          (counted, s) =
            (if tk \<noteq> [] \<and> 0 < accepted
             then (case bump_count R counts_key (''pending:'' @ tk) accepted s of
                     (Inl e, s) \<Rightarrow> (Inl e, s)
                   | (Inr _, s) \<Rightarrow> (Inr (), r_expire R s counts_key counts_ttl))
             else (Inr (), s)) in
      case counted of
        Inl e \<Rightarrow> (Inl e, s)
      | Inr _ \<Rightarrow>
          (Inr statuses,
           enqueue_metrics_lua R task_outcomes queue_events started_at metrics_ttl timestamp statuses s))"

section \<open>The batch around the script\<close>

definition prepare_job :: "real \<Rightarrow> dispatch_job \<Rightarrow> int \<Rightarrow> (dispatch_job \<times> int) option" where
  "prepare_job now job queue_wait_ttl =
     (case compute_wait_deadline now (ready_at job) queue_wait_ttl (wait_deadline_at job) of
        (deadline, None) \<Rightarrow> None
      | (deadline, Some ttl) \<Rightarrow> Some (job\<lparr>wait_deadline_at := deadline\<rparr>, ttl))"

definition enqueue_arg_of :: "string \<Rightarrow> bool \<Rightarrow> dispatch_job \<times> int \<Rightarrow> enqueue_arg" where
  "enqueue_arg_of ns dedupe = (\<lambda>(job, ttl).
     \<lparr>ea_record = job_key ns (job_id job),
      ea_dedupe = (if dedupe \<and> task_key job \<noteq> [] \<and> work_item_id job \<noteq> []
                   then dedupe_key ns (task_key job) (work_item_id job) else []),
      ea_job_id = job_id job, ea_score = ready_at job, ea_snapshot = job_snapshot job, ea_ttl = ttl\<rparr>)"

text \<open>One status per job: an expired job keeps its own, a prepared job takes the next reply.\<close>

fun fill_statuses :: "(dispatch_job \<times> int) option list \<Rightarrow> enqueue_status list \<Rightarrow> enqueue_status list" where
  "fill_statuses [] rs = []"
| "fill_statuses (None # ps) rs = ENQ_DEADLINE_EXPIRED # fill_statuses ps rs"
| "fill_statuses (Some p # ps) [] = ENQ_UNAVAILABLE # fill_statuses ps []"
| "fill_statuses (Some p # ps) (r # rs) = r # fill_statuses ps rs"

definition enqueue_jobs ::
  "'s env \<Rightarrow> string \<Rightarrow> dispatch_job list \<Rightarrow> bool \<Rightarrow> int list \<Rightarrow> int \<Rightarrow> 's \<Rightarrow> enqueue_status list result \<times> 's" where
  "enqueue_jobs R ns jobs dedupe_enqueue queue_wait_ttls max_admitted s =
     (if jobs = [] then (Inr [], s)
      else if length jobs \<noteq> length queue_wait_ttls then (Inl ValueError, s)
      else if length jobs > DISPATCH_LUA_BATCH_SIZE then (Inl ValueError, s)
      else if \<exists>j\<in>set jobs. task_key j \<noteq> task_key (hd jobs) then (Inl ValueError, s)
      else
        (let (now, s) = wall R s;
             prepared = map (\<lambda>(job, ttl). prepare_job now job ttl) (zip jobs queue_wait_ttls);
             ready = List.map_filter id prepared in
         if ready = [] then (Inr (fill_statuses prepared []), s)
         else
           (let tk = task_key (hd jobs);
                (t, s) = wall R s;
                (outcomes_key, events_key, started_key, metrics_ttl, timestamp) = enqueue_counter_spec ns tk t in
            case rpc_script R
                   (enqueue_jobs_lua R (pending_key ns) (reserved_key ns) outcomes_key events_key (task_counts_key ns)
                      (producer_gate_key ns) started_key (max 1 max_admitted) dedupe_enqueue tk metrics_ttl timestamp
                      TASK_COUNTS_TTL_SECONDS (map (enqueue_arg_of ns dedupe_enqueue) ready)) s of
              (Inl _, s) \<Rightarrow> (Inr (fill_statuses prepared []), s)
            | (Inr replies, s) \<Rightarrow>
                (case decode_all EnqueueStatus replies of
                   Inl _ \<Rightarrow> (Inr (fill_statuses prepared []), s)
                 | Inr statuses \<Rightarrow> (Inr (fill_statuses prepared statuses), s)))))"

section \<open>One job of the batch\<close>

text \<open>What the script requires of its arguments: the keys of this queue and the task's jobs.\<close>

definition arg_wf :: "(string \<Rightarrow> string) \<Rightarrow> string \<Rightarrow> string \<Rightarrow> enqueue_arg \<Rightarrow> bool" where
  "arg_wf owner ns tk a \<longleftrightarrow>
     ea_record a = job_key ns (ea_job_id a) \<and> owner (ea_job_id a) = tk
     \<and> (ea_dedupe a = [] \<or> (\<exists>x y. ea_dedupe a = dedupe_key ns x y))"

text \<open>What admitting one job does to the store.\<close>

definition v_admit :: "string \<Rightarrow> bool \<Rightarrow> enqueue_arg \<Rightarrow> view \<Rightarrow> view" where
  "v_admit ns check a v =
     v_zadd (pending_key ns) (ea_score a) (ea_job_id a)
       (v_set (ea_record a) (ea_snapshot a) (Some (ea_ttl a))
         (if check \<and> ea_dedupe a \<noteq> [] then v_set (ea_dedupe a) (PStr (ea_job_id a)) (Some (ea_ttl a)) v else v))"

lemma v_admit_sets:
  "pend ns (v_admit ns check a v) = (pend ns v)(ea_job_id a \<mapsto> ea_score a)"
  "resv ns (v_admit ns check a v) = resv ns v"
  "hash_int (v_admit ns check a v) = hash_int v"
  by (simp_all add: v_admit_def)

lemma v_admit_kv:
  "arg_wf owner ns tk a \<Longrightarrow> kv (v_admit ns check a v) (job_key ns (ea_job_id a)) = Some (ea_snapshot a)"
  "arg_wf owner ns tk a \<Longrightarrow> jid \<noteq> ea_job_id a \<Longrightarrow> kv (v_admit ns check a v) (job_key ns jid) = kv v (job_key ns jid)"
  by (auto simp: v_admit_def arg_wf_def)

lemma v_admit_frame:
  assumes "arg_wf owner ns tk a" and "A \<inter> queue_keys ns = {}"
  shows "same_at A u (v_admit ns check a v) = same_at A u v"
proof -
  have "pending_key ns \<notin> A" "job_key ns (ea_job_id a) \<notin> A" "\<And>x y. dedupe_key ns x y \<notin> A"
    using assms(2) queue_keys_mem by blast+
  with assms(1) show ?thesis by (auto simp: v_admit_def arg_wf_def frame_simps)
qed

lemma v_admit_count:
  "finite_queue ns v \<Longrightarrow> admitted_count ns (v_admit ns check a v) \<le> Suc (admitted_count ns v)"
  using card_dom_upd_le [of "pend ns v" "ea_job_id a" "ea_score a"]
  unfolding admitted_count_def v_admit_sets by (simp add: finite_queue_def)

section \<open>The batch call\<close>

text \<open>The jobs of a batch that still have queue-wait budget, with their arguments.\<close>

definition ready_jobs :: "real \<Rightarrow> dispatch_job list \<Rightarrow> int list \<Rightarrow> (dispatch_job \<times> int) list" where
  "ready_jobs now jobs ttls = List.map_filter id (map (\<lambda>(job, ttl). prepare_job now job ttl) (zip jobs ttls))"

lemma prepare_job_Some:
  "prepare_job now job ttl = Some (j, t) \<Longrightarrow>
     1 \<le> t \<and> (\<exists>d. j = job\<lparr>wait_deadline_at := d\<rparr> \<and> (wait_deadline_at job \<noteq> 0 \<longrightarrow> d = wait_deadline_at job))"
  using deadline_ttl_positive [of now "ready_at job" ttl "wait_deadline_at job" t]
    deadline_kept [of "wait_deadline_at job" now "ready_at job" ttl]
  by (auto simp: prepare_job_def split: prod.splits option.splits)

lemma ready_jobs_mem:
  assumes "(j, t) \<in> set (ready_jobs now jobs ttls)"
  shows "\<exists>job\<in>set jobs. \<exists>d. j = job\<lparr>wait_deadline_at := d\<rparr>"
proof -
  from assms obtain job ttl where "(job, ttl) \<in> set (zip jobs ttls)" "prepare_job now job ttl = Some (j, t)"
    by (auto simp: ready_jobs_def List.map_filter_def)
  then show ?thesis using prepare_job_Some by (blast dest: set_zip_leftD)
qed

lemma enqueue_args_wf:
  assumes "\<forall>j\<in>set jobs. owner (job_id j) = tk"
  shows "\<forall>a\<in>set (map (enqueue_arg_of ns dedupe) (ready_jobs now jobs ttls)). arg_wf owner ns tk a"
  using assms ready_jobs_mem [of _ _ now jobs ttls]
  by (fastforce simp: arg_wf_def enqueue_arg_of_def)

text \<open>The accepted job of a batch is a prepared one with reply 1.\<close>

lemma fill_statuses_accepted:
  assumes "(job, ENQ_ACCEPTED) \<in> set (zip jobs (fill_statuses (map (\<lambda>(job, ttl). prepare_job now job ttl) (zip jobs ttls)) codes))"
  shows "\<exists>j t. ((j, t), ENQ_ACCEPTED) \<in> set (zip (ready_jobs now jobs ttls) codes) \<and> (\<exists>ttl. prepare_job now job ttl = Some (j, t))"
  using assms
proof (induction jobs arbitrary: ttls codes)
  case (Cons jb jobs)
  show ?case
  proof (cases ttls)
    case (Cons ttl tts)
    show ?thesis
    proof (cases "prepare_job now jb ttl")
      case None
      with Cons Cons.prems Cons.IH [of tts codes] show ?thesis by (auto simp: ready_jobs_def List.map_filter_def)
    next
      case (Some p)
      show ?thesis
      proof (cases codes)
        case Nil
        then show ?thesis using Cons Some Cons.prems Cons.IH [of tts "[]"] by auto
      next
        case codes: (Cons c cs)
        have r: "ready_jobs now (jb # jobs) ttls = p # ready_jobs now jobs tts"
          using Cons Some by (simp add: ready_jobs_def List.map_filter_def)
        from Cons Some codes Cons.prems have "job = jb \<and> c = ENQ_ACCEPTED \<or>
          (job, ENQ_ACCEPTED) \<in> set (zip jobs (fill_statuses (map (\<lambda>(job, ttl). prepare_job now job ttl) (zip jobs tts)) cs))"
          by auto
        then show ?thesis
        proof
          assume "job = jb \<and> c = ENQ_ACCEPTED"
          then show ?thesis using r codes Some by (cases p) auto
        next
          assume "(job, ENQ_ACCEPTED) \<in> set (zip jobs (fill_statuses (map (\<lambda>(job, ttl). prepare_job now job ttl) (zip jobs tts)) cs))"
          from Cons.IH [OF this] r codes show ?thesis by auto
        qed
      qed
    qed
  qed (use Cons.prems in simp)
qed simp

section \<open>The script, one job at a time\<close>

context redis
begin

lemma enqueue_one_cases:
  obtains (refused) "fst (enqueue_one_lua R (pending_key ns) (reserved_key ns) paused check mx adm a s) \<in> {2, 3, 5}"
      "V (snd (enqueue_one_lua R (pending_key ns) (reserved_key ns) paused check mx adm a s)) = V s"
  | (admitted) "fst (enqueue_one_lua R (pending_key ns) (reserved_key ns) paused check mx adm a s) = 1"
      "V (snd (enqueue_one_lua R (pending_key ns) (reserved_key ns) paused check mx adm a s)) = v_admit ns check a (V s)"
      "\<not> paused" "adm < mx"
      "check \<Longrightarrow> pend ns (V s) (ea_job_id a) = None \<and> resv ns (V s) (ea_job_id a) = None"
      "check \<Longrightarrow> ea_dedupe a \<noteq> [] \<Longrightarrow> \<not> present (V s) (ea_dedupe a)"
proof (cases "paused \<or> (check \<and> (pend ns (V s) (ea_job_id a) \<noteq> None \<or> resv ns (V s) (ea_job_id a) \<noteq> None
    \<or> ea_dedupe a \<noteq> [] \<and> present (V s) (ea_dedupe a))) \<or> mx \<le> adm")
  case True
  then show ?thesis by (intro refused) (auto simp: enqueue_one_lua_def)
next
  case False
  then show ?thesis
    by (intro admitted) (auto simp: enqueue_one_lua_def v_admit_def Let_def case_prod_beta)
qed

section \<open>The batch\<close>

text \<open>Abbreviating the loop over the queue's own keys.\<close>

abbreviation enq_loop ::
  "string \<Rightarrow> bool \<Rightarrow> bool \<Rightarrow> int \<Rightarrow> enqueue_arg list \<Rightarrow> int \<Rightarrow> int \<Rightarrow> 's \<Rightarrow> int list \<times> int \<times> 's" where
  "enq_loop ns \<equiv> enqueue_loop_lua R (pending_key ns) (reserved_key ns)"

text \<open>
  One induction carries the facts of the loop: \<open>I\<close> is any property of the store and of the
  two counters that a refusal keeps trivially and an admission keeps under its guards.
\<close>

lemma enqueue_loop_induct:
  assumes "enq_loop ns paused check mx args adm acc s = (sts, acc', s')"
    and "I adm acc (V s)" and wf: "\<forall>a\<in>set args. W a"
    and step: "\<And>a adm acc v. W a \<Longrightarrow> I adm acc v \<Longrightarrow> finite_queue ns v \<Longrightarrow> \<not> paused \<Longrightarrow> adm < mx
        \<Longrightarrow> (check \<Longrightarrow> pend ns v (ea_job_id a) = None \<and> resv ns v (ea_job_id a) = None)
        \<Longrightarrow> I (adm + 1) (acc + 1) (v_admit ns check a v)"
  shows "(\<exists>adm'. I adm' acc' (V s')) \<and> length sts = length args \<and> set sts \<subseteq> {1, 2, 3, 5}
    \<and> acc' = acc + int (count_if (\<lambda>st. st = 1) sts)"
  using assms(1,2) wf
proof (induction args arbitrary: adm acc s sts)
  case Nil
  then show ?case by auto
next
  case (Cons a args)
  let ?one = "enqueue_one_lua R (pending_key ns) (reserved_key ns) paused check mx adm a s"
  obtain st s1 where one: "?one = (st, s1)" by force
  obtain adm1 acc1 where c: "(if st = 1 then (adm + 1, acc + 1) else (adm, acc)) = (adm1, acc1)" by force
  obtain rest a2 s2 where r: "enq_loop ns paused check mx args adm1 acc1 s1 = (rest, a2, s2)"
    by (metis prod_cases3)
  with Cons.prems(1) one c have rest: "enq_loop ns paused check mx args adm1 acc1 s1 = (rest, acc', s')"
    and sts: "sts = st # rest" by simp_all
  have "I adm1 acc1 (V s1) \<and> st \<in> {1, 2, 3, 5} \<and> (acc1 = (if st = 1 then acc + 1 else acc))"
  proof (cases rule: enqueue_one_cases [of ns paused check mx adm a s])
    case refused
    with one c Cons.prems(2) show ?thesis by (auto split: if_splits)
  next
    case admitted
    have "I (adm + 1) (acc + 1) (v_admit ns check a (V s))"
      by (rule step) (use admitted Cons.prems in auto)
    with one c admitted(1,2) show ?thesis by (auto split: if_splits)
  qed
  with Cons.IH [OF rest] Cons.prems(3) sts show ?case by auto
qed

text \<open>The capacity: the script never admits past \<open>mx\<close>.\<close>

lemma enqueue_loop_capacity:
  assumes "enq_loop ns paused check mx args adm acc s = (sts, acc', s')"
    and "\<forall>a\<in>set args. arg_wf owner ns tk a" and "int (admitted_count ns (V s)) \<le> adm"
  shows "int (admitted_count ns (V s')) \<le> max adm mx"
proof -
  let ?I = "\<lambda>adm1 acc v. int (admitted_count ns v) \<le> adm1 \<and> adm1 \<le> max adm mx"
  have "\<exists>adm'. ?I adm' acc' (V s')"
  proof (rule enqueue_loop_induct [OF assms(1) _ assms(2), of ?I, THEN conjunct1])
    show "?I adm acc (V s)" using assms(3) by simp
    fix a adm1 acc1 v
    assume "?I adm1 acc1 v" "finite_queue ns v" "adm1 < mx"
    then show "?I (adm1 + 1) (acc1 + 1) (v_admit ns check a v)"
      using v_admit_count [of ns v check a] by auto
  qed
  then show ?thesis by auto
qed

lemma enqueue_loop_inv:
  assumes "enq_loop ns paused True mx args adm 0 s = (sts, acc', s')"
    and "\<forall>a\<in>set args. arg_wf owner ns tk a" and "queue_inv owner ns (V s)"
  shows "slots_disjoint ns (V s') \<and> (\<exists>n. acc' = int n \<and> counts_lag owner ns ((\<lambda>_. 0)(tk := n)) (V s'))"
proof -
  let ?I = "\<lambda>(adm::int) acc v. slots_disjoint ns v \<and> (\<exists>n. acc = int n \<and> counts_lag owner ns ((\<lambda>_. 0)(tk := n)) v)"
  have "\<exists>adm'. ?I adm' acc' (V s')"
  proof (rule enqueue_loop_induct [OF assms(1) _ assms(2), of ?I, THEN conjunct1])
    show "?I adm 0 (V s)"
      using assms(3) by (auto simp: queue_inv_def counts_ok_def fun_upd_idem intro!: exI [of _ 0])
    fix a adm1 acc1 v
    assume wf: "arg_wf owner ns tk a" and I: "?I adm1 acc1 v" and fin: "finite_queue ns v"
      and free: "True \<Longrightarrow> pend ns v (ea_job_id a) = None \<and> resv ns v (ea_job_id a) = None"
    from I obtain n where n: "acc1 = int n" "counts_lag owner ns ((\<lambda>_. 0)(tk := n)) v" by blast
    have "counts_lag owner ns ((\<lambda>_. 0)(tk := Suc n)) (v_zadd (pending_key ns) (ea_score a) (ea_job_id a) v)"
      using admit_lag [OF n(2) fin, of "ea_job_id a" "ea_score a"] free wf by (simp add: arg_wf_def)
    then have "counts_lag owner ns ((\<lambda>_. 0)(tk := Suc n)) (v_admit ns True a v)"
      by (subst counts_lag_cong) (simp_all add: v_admit_def)
    moreover have "slots_disjoint ns (v_admit ns True a v)"
      using I free unfolding slots_disjoint_def v_admit_sets by auto
    ultimately show "?I (adm1 + 1) (acc1 + 1) (v_admit ns True a v)"
      using n(1) by (intro conjI exI [of _ "Suc n"]) simp_all
  qed
  then show ?thesis by auto
qed

lemma enqueue_loop_frame:
  assumes "enq_loop ns paused check mx args adm acc s = (sts, acc', s')"
    and "\<forall>a\<in>set args. arg_wf owner ns tk a" and "A \<inter> queue_keys ns = {}"
  shows "same_at A (V s) (V s')"
  using enqueue_loop_induct [OF assms(1) _ assms(2), of "\<lambda>_ _ v. same_at A (V s) v"] v_admit_frame [OF _ assms(3)]
  by auto

text \<open>A paused producer writes nothing and refuses every job.\<close>

lemma enqueue_loop_paused:
  "enq_loop ns True check mx args adm acc s = (replicate (length args) 5, acc, s)"
  by (induction args arbitrary: adm acc s) (simp_all add: enqueue_one_lua_def Let_def)

text \<open>Jobs already pending keep their score and record; an admitted job was in neither set.\<close>

lemma enqueue_loop_keeps:
  assumes "enq_loop ns paused True mx args adm acc s = (sts, acc', s')"
    and "\<forall>a\<in>set args. arg_wf owner ns tk a" and "pend ns (V s) jid = Some sc"
  shows "pend ns (V s') jid = Some sc \<and> kv (V s') (job_key ns jid) = kv (V s) (job_key ns jid)"
proof -
  let ?I = "\<lambda>(_::int) (_::int) v. pend ns v jid = Some sc \<and> kv v (job_key ns jid) = kv (V s) (job_key ns jid)"
  have "\<exists>adm'. ?I adm' acc' (V s')"
  proof (rule enqueue_loop_induct [OF assms(1) _ assms(2), of ?I, THEN conjunct1])
    show "?I adm acc (V s)" using assms(3) by simp
    fix a adm1 acc1 v
    assume wf: "arg_wf owner ns tk a" and I: "?I adm1 acc1 v"
      and free: "True \<Longrightarrow> pend ns v (ea_job_id a) = None \<and> resv ns v (ea_job_id a) = None"
    then have "jid \<noteq> ea_job_id a" by auto
    with I v_admit_kv(2) [OF wf, of jid] show "?I (adm1 + 1) (acc1 + 1) (v_admit ns True a v)"
      by (simp add: v_admit_sets)
  qed
  then show ?thesis by auto
qed

lemma enqueue_loop_accepted:
  assumes "enq_loop ns paused True mx args adm acc s = (sts, acc', s')"
    and "\<forall>a\<in>set args. arg_wf owner ns tk a" and "(a, 1) \<in> set (zip args sts)"
  shows "pend ns (V s') (ea_job_id a) = Some (ea_score a) \<and> kv (V s') (job_key ns (ea_job_id a)) = Some (ea_snapshot a)
    \<and> pend ns (V s) (ea_job_id a) = None \<and> resv ns (V s) (ea_job_id a) = None"
  using assms
proof (induction args arbitrary: adm acc s sts)
  case (Cons b args)
  let ?one = "enqueue_one_lua R (pending_key ns) (reserved_key ns) paused True mx adm b s"
  obtain st s1 where one: "?one = (st, s1)" by force
  obtain adm1 acc1 where c: "(if st = 1 then (adm + 1, acc + 1) else (adm, acc)) = (adm1, acc1)" by force
  obtain rest a2 s2 where r: "enq_loop ns paused True mx args adm1 acc1 s1 = (rest, a2, s2)"
    by (metis prod_cases3)
  with Cons.prems(1) one c have rest: "enq_loop ns paused True mx args adm1 acc1 s1 = (rest, acc', s')"
    and sts: "sts = st # rest" by simp_all
  have wf: "arg_wf owner ns tk b" and wfs: "\<forall>a\<in>set args. arg_wf owner ns tk a" using Cons.prems(2) by simp_all
  have one': "st \<noteq> 1 \<and> V s1 = V s \<or> st = 1 \<and> V s1 = v_admit ns True b (V s)
      \<and> pend ns (V s) (ea_job_id b) = None \<and> resv ns (V s) (ea_job_id b) = None"
    by (cases rule: enqueue_one_cases [of ns paused True mx adm b s]) (use one in auto)
  show ?case
  proof (cases "a = b \<and> st = 1")
    case True
    with one' have ad: "V s1 = v_admit ns True b (V s)" by simp
    then have "pend ns (V s1) (ea_job_id b) = Some (ea_score b)" by (simp add: v_admit_sets)
    from enqueue_loop_keeps [OF rest wfs this] True one' v_admit_kv(1) [OF wf, of True "V s"] ad
    show ?thesis by simp
  next
    case False
    with Cons.prems(3) sts have "(a, 1) \<in> set (zip args rest)" by auto
    from Cons.IH [OF rest wfs this] one' show ?thesis
      by (auto simp: v_admit_sets split: if_splits)
  qed
qed simp

section \<open>The script\<close>

abbreviation enq_script ::
  "string \<Rightarrow> int \<Rightarrow> bool \<Rightarrow> string \<Rightarrow> int \<Rightarrow> real \<Rightarrow> int \<Rightarrow> enqueue_arg list \<Rightarrow> 's \<Rightarrow> int list result \<times> 's" where
  "enq_script ns mx check tk \<equiv>
     enqueue_jobs_lua R (pending_key ns) (reserved_key ns) (task_outcomes_key ns tk) (queue_events_key ns)
       (task_counts_key ns) (producer_gate_key ns) (started_at_key ns) mx check tk"

lemma enqueue_metrics_frame:
  assumes "A \<inter> metrics_keys ns = {}"
  shows "same_at A (V s) (V (enqueue_metrics_lua R (task_outcomes_key ns tk) (queue_events_key ns) (started_at_key ns)
           ttl t0 sts s))"
proof -
  have k: "task_outcomes_key ns tk \<notin> A" "queue_events_key ns \<notin> A" "started_at_key ns \<notin> A"
    using assms metrics_keys_mem by blast+
  have "same_at A (V s) (V (fold (\<lambda>(name, n) s. snd (r_hincrby R (snd (r_hincrby R s (task_outcomes_key ns tk) name n))
          (queue_events_key ns) name n)) counts s))" for counts :: "(string \<times> int) list"
  proof (induction counts arbitrary: s)
    case (Cons x counts)
    obtain name n where x: "x = (name, n)" by (cases x)
    have "same_at A (V s) (V (snd (r_hincrby R (snd (r_hincrby R s (task_outcomes_key ns tk) name n))
          (queue_events_key ns) name n)))" using k by (simp add: frame_simps)
    from same_at_trans [OF this Cons.IH] show ?case by (simp add: x)
  qed simp
  then show ?thesis using k by (auto simp: enqueue_metrics_lua_def Let_def frame_simps)
qed

text \<open>The script is the loop, the counter update when a job was accepted, and the telemetry.\<close>

lemma enqueue_script_run:
  obtains sts acc s1 where
    "enq_loop ns (present (V s) (producer_gate_key ns)) check mx args (int (admitted_count ns (V s))) 0 s = (sts, acc, s1)"
    and "same_at (- metrics_keys ns)
           (if tk \<noteq> [] \<and> 0 < acc
            then (if hash_int (V s1) (task_counts_key ns) (pending_count_field tk) = None then V s1
                  else v_expire (task_counts_key ns) cttl (v_bump (task_counts_key ns) (pending_count_field tk) acc (V s1)))
            else V s1) (V (snd (enq_script ns mx check tk mttl t0 cttl args s)))"
    and "\<And>r. fst (enq_script ns mx check tk mttl t0 cttl args s) = Inr r \<Longrightarrow> r = sts"
proof -
  obtain sts acc s1 where l: "enq_loop ns (present (V s) (producer_gate_key ns)) check mx args
      (int (admitted_count ns (V s))) 0 s = (sts, acc, s1)" by (metis prod_cases3)
  have fr: "same_at (- metrics_keys ns) (V t) (V (enqueue_metrics_lua R (task_outcomes_key ns tk) (queue_events_key ns)
      (started_at_key ns) mttl t0 sts t))" for t
    by (rule enqueue_metrics_frame) simp
  have pf: "''pending:'' @ tk = pending_count_field tk" by (simp add: pending_count_field_def)
  have "int (card (dom (pend ns (V s)))) + int (card (dom (resv ns (V s)))) = int (admitted_count ns (V s))"
    by (simp add: admitted_count_def)
  then have run: "enq_script ns mx check tk mttl t0 cttl args s =
     (case (if tk \<noteq> [] \<and> 0 < acc
            then (case bump_count R (task_counts_key ns) (pending_count_field tk) acc s1 of
                     (Inl e, s) \<Rightarrow> (Inl e, s)
                   | (Inr _, s) \<Rightarrow> (Inr (), r_expire R s (task_counts_key ns) cttl))
            else (Inr (), s1)) of
        (Inl e, s) \<Rightarrow> (Inl e, s)
      | (Inr _, s) \<Rightarrow> (Inr sts, enqueue_metrics_lua R (task_outcomes_key ns tk) (queue_events_key ns)
            (started_at_key ns) mttl t0 sts s))"
    unfolding enqueue_jobs_lua_def pf Let_def law_zcard law_exists using l
    by (simp add: case_prod_beta split: sum.split)
  obtain b s2 where b: "bump_count R (task_counts_key ns) (pending_count_field tk) acc s1 = (b, s2)" by force
  then have bv: "V s2 = v_bump (task_counts_key ns) (pending_count_field tk) acc (V s1)"
    using bump_V [of "task_counts_key ns" "pending_count_field tk" acc s1] by simp
  have bf: "b = (case hash_int (V s1) (task_counts_key ns) (pending_count_field tk) of None \<Rightarrow> Inl ScriptError | Some _ \<Rightarrow> Inr ())"
    using bump_ok [of "task_counts_key ns" "pending_count_field tk" acc s1] b by simp
  show ?thesis
  proof (rule that [OF l])
    show "same_at (- metrics_keys ns)
           (if tk \<noteq> [] \<and> 0 < acc
            then (if hash_int (V s1) (task_counts_key ns) (pending_count_field tk) = None then V s1
                  else v_expire (task_counts_key ns) cttl (v_bump (task_counts_key ns) (pending_count_field tk) acc (V s1)))
            else V s1) (V (snd (enq_script ns mx check tk mttl t0 cttl args s)))"
    proof (cases "tk \<noteq> [] \<and> 0 < acc")
      case True
      then show ?thesis using fr [of "r_expire R s2 (task_counts_key ns) cttl"] bf bv
        by (auto simp: run b v_bump_def split: option.splits)
    next
      case False
      show ?thesis unfolding run if_not_P [OF False] using fr [of s1] by simp
    qed
    show "\<And>r. fst (enq_script ns mx check tk mttl t0 cttl args s) = Inr r \<Longrightarrow> r = sts"
      unfolding run b by (auto split: if_splits sum.splits)
  qed
qed

lemma core_metrics_disjoint [simp]: "core_keys ns \<inter> metrics_keys ns = {}"
  using core_keys_subset [of ns] metrics_keys_queue [of ns] by blast

lemma core_subset_metrics: "core_keys ns \<subseteq> - metrics_keys ns"
  using core_metrics_disjoint [of ns] by blast

text \<open>Admission keeps the queue invariant.\<close>

lemma enqueue_script_inv:
  assumes "\<forall>a\<in>set args. arg_wf owner ns tk a" and "tk \<noteq> []" and "queue_inv owner ns (V s)"
  shows "queue_inv owner ns (V (snd (enq_script ns mx True tk mttl t0 cttl args s)))"
proof -
  let ?v' = "V (snd (enq_script ns mx True tk mttl t0 cttl args s))"
  obtain sts acc s1 where l: "enq_loop ns (present (V s) (producer_gate_key ns)) True mx args
      (int (admitted_count ns (V s))) 0 s = (sts, acc, s1)"
    and fr: "same_at (- metrics_keys ns)
           (if tk \<noteq> [] \<and> 0 < acc
            then (if hash_int (V s1) (task_counts_key ns) (pending_count_field tk) = None then V s1
                  else v_expire (task_counts_key ns) cttl (v_bump (task_counts_key ns) (pending_count_field tk) acc (V s1)))
            else V s1) ?v'"
    by (rule enqueue_script_run [of ns s True mx args tk cttl mttl t0]) blast
  from enqueue_loop_inv [OF l assms(1,3)] obtain n where dis: "slots_disjoint ns (V s1)" and n: "acc = int n"
    and lag: "counts_lag owner ns ((\<lambda>_. 0)(tk := n)) (V s1)" by blast
  from lag assms(2) have h: "hash_int (V s1) (task_counts_key ns) (pending_count_field tk) \<noteq> None"
    by (auto simp: counts_lag_def)
  show ?thesis
  proof (cases "0 < acc")
    case True
    with fr assms(2) h have "same_at (core_keys ns)
        (v_expire (task_counts_key ns) cttl (v_bump (task_counts_key ns) (pending_count_field tk) acc (V s1))) ?v'"
      by (auto intro: same_at_mono [OF _ core_subset_metrics])
    from queue_inv_core(1) [OF this] dis settle_lag [OF lag assms(2)] n show ?thesis
      by (simp add: queue_inv_def)
  next
    case False
    with n have "n = 0" by simp
    with lag have "counts_ok owner ns (V s1)" by (simp add: counts_ok_def fun_upd_idem)
    moreover from False fr have "same_at (core_keys ns) (V s1) ?v'"
      by (auto intro: same_at_mono [OF _ core_subset_metrics])
    ultimately show ?thesis using dis queue_inv_core(1) by (simp add: queue_inv_def)
  qed
qed

text \<open>What the script leaves of the loop's sorted sets and records.\<close>

lemma enqueue_script_sets:
  assumes "enq_loop ns (present (V s) (producer_gate_key ns)) check mx args (int (admitted_count ns (V s))) 0 s
             = (sts, acc, s1)"
  shows "pend ns (V (snd (enq_script ns mx check tk mttl t0 cttl args s))) = pend ns (V s1)"
    and "resv ns (V (snd (enq_script ns mx check tk mttl t0 cttl args s))) = resv ns (V s1)"
    and "kv (V (snd (enq_script ns mx check tk mttl t0 cttl args s))) (job_key ns j) = kv (V s1) (job_key ns j)"
    and "fst (enq_script ns mx check tk mttl t0 cttl args s) = Inr r \<Longrightarrow> r = sts"
    and "acc \<le> 0 \<Longrightarrow> same_at (- metrics_keys ns) (V s1) (V (snd (enq_script ns mx check tk mttl t0 cttl args s)))"
    and "A \<inter> queue_keys ns = {} \<Longrightarrow> A \<inter> metrics_keys ns = {} \<Longrightarrow>
           same_at A (V s1) (V (snd (enq_script ns mx check tk mttl t0 cttl args s)))"
proof -
  let ?s' = "snd (enq_script ns mx check tk mttl t0 cttl args s)"
  obtain sts' acc' s1' where l: "enq_loop ns (present (V s) (producer_gate_key ns)) check mx args
      (int (admitted_count ns (V s))) 0 s = (sts', acc', s1')"
    and fr: "same_at (- metrics_keys ns)
           (if tk \<noteq> [] \<and> 0 < acc'
            then (if hash_int (V s1') (task_counts_key ns) (pending_count_field tk) = None then V s1'
                  else v_expire (task_counts_key ns) cttl (v_bump (task_counts_key ns) (pending_count_field tk) acc' (V s1')))
            else V s1') (V ?s')"
    and r: "\<And>r. fst (enq_script ns mx check tk mttl t0 cttl args s) = Inr r \<Longrightarrow> r = sts'"
    using enqueue_script_run [of ns s check mx args tk cttl mttl t0] by metis
  from l assms have eq: "sts' = sts" "acc' = acc" "s1' = s1" by simp_all
  have mem: "pending_key ns \<in> - metrics_keys ns" "reserved_key ns \<in> - metrics_keys ns" "job_key ns j \<in> - metrics_keys ns"
    using metrics_keys_queue [of ns] queue_keys_mem [of ns] by blast+
  show "pend ns (V ?s') = pend ns (V s1)" "resv ns (V ?s') = resv ns (V s1)"
    "kv (V ?s') (job_key ns j) = kv (V s1) (job_key ns j)"
    using fr mem unfolding eq same_at_def by (auto split: if_splits)
  show "fst (enq_script ns mx check tk mttl t0 cttl args s) = Inr r \<Longrightarrow> r = sts"
    using r eq by simp
  show "acc \<le> 0 \<Longrightarrow> same_at (- metrics_keys ns) (V s1) (V ?s')"
    using fr unfolding eq by (auto split: if_splits)
  show "same_at A (V s1) (V ?s')" if A: "A \<inter> queue_keys ns = {}" "A \<inter> metrics_keys ns = {}"
  proof -
    have c: "task_counts_key ns \<notin> A" using A(1) queue_keys_mem(3) by blast
    have "same_at A (V s1)
           (if tk \<noteq> [] \<and> 0 < acc'
            then (if hash_int (V s1') (task_counts_key ns) (pending_count_field tk) = None then V s1'
                  else v_expire (task_counts_key ns) cttl (v_bump (task_counts_key ns) (pending_count_field tk) acc' (V s1')))
            else V s1')"
      using c unfolding eq by (simp add: frame_simps)
    moreover have "A \<subseteq> - metrics_keys ns" using A(2) by blast
    ultimately show ?thesis using fr by (blast intro: same_at_trans same_at_mono)
  qed
qed

text \<open>The admission ceiling.\<close>

lemma enqueue_script_capacity:
  assumes "\<forall>a\<in>set args. arg_wf owner ns tk' a"
  shows "int (admitted_count ns (V (snd (enq_script ns mx check tk mttl t0 cttl args s))))
           \<le> max (int (admitted_count ns (V s))) mx"
proof -
  obtain sts acc s1 where l: "enq_loop ns (present (V s) (producer_gate_key ns)) check mx args
      (int (admitted_count ns (V s))) 0 s = (sts, acc, s1)" by (metis prod_cases3)
  from enqueue_loop_capacity [OF l assms] show ?thesis
    by (simp add: admitted_count_def enqueue_script_sets(1,2) [OF l])
qed

text \<open>Behind a closed gate nothing but telemetry is written, and every job is refused.\<close>

lemma enqueue_script_paused:
  assumes "present (V s) (producer_gate_key ns)"
  shows "same_at (- metrics_keys ns) (V s) (V (snd (enq_script ns mx check tk mttl t0 cttl args s)))"
    and "fst (enq_script ns mx check tk mttl t0 cttl args s) = Inr r \<Longrightarrow> r = replicate (length args) 5"
proof -
  have l: "enq_loop ns (present (V s) (producer_gate_key ns)) check mx args (int (admitted_count ns (V s))) 0 s
      = (replicate (length args) 5, 0, s)"
    using assms enqueue_loop_paused by simp
  show "same_at (- metrics_keys ns) (V s) (V (snd (enq_script ns mx check tk mttl t0 cttl args s)))"
    by (rule enqueue_script_sets(5) [OF l]) simp
  show "fst (enq_script ns mx check tk mttl t0 cttl args s) = Inr r \<Longrightarrow> r = replicate (length args) 5"
    by (rule enqueue_script_sets(4) [OF l])
qed

text \<open>The script stays inside the queue and its telemetry.\<close>

lemma enqueue_script_frame:
  assumes "\<forall>a\<in>set args. arg_wf owner ns tk' a" and "A \<inter> queue_keys ns = {}" and "A \<inter> metrics_keys ns = {}"
  shows "same_at A (V s) (V (snd (enq_script ns mx check tk mttl t0 cttl args s)))"
proof -
  obtain sts acc s1 where l: "enq_loop ns (present (V s) (producer_gate_key ns)) check mx args
      (int (admitted_count ns (V s))) 0 s = (sts, acc, s1)" by (metis prod_cases3)
  from enqueue_loop_frame [OF l assms(1,2)] enqueue_script_sets(6) [OF l assms(2,3)] show ?thesis
    by (rule same_at_trans)
qed

lemma enqueue_script_accepted:
  assumes "\<forall>a\<in>set args. arg_wf owner ns tk' a"
    and "fst (enq_script ns mx True tk mttl t0 cttl args s) = Inr sts" and "(a, 1) \<in> set (zip args sts)"
  shows "pend ns (V (snd (enq_script ns mx True tk mttl t0 cttl args s))) (ea_job_id a) = Some (ea_score a)
    \<and> kv (V (snd (enq_script ns mx True tk mttl t0 cttl args s))) (job_key ns (ea_job_id a)) = Some (ea_snapshot a)
    \<and> pend ns (V s) (ea_job_id a) = None \<and> resv ns (V s) (ea_job_id a) = None"
proof -
  obtain sts' acc s1 where l: "enq_loop ns (present (V s) (producer_gate_key ns)) True mx args
      (int (admitted_count ns (V s))) 0 s = (sts', acc, s1)" by (metis prod_cases3)
  from enqueue_script_sets(4) [OF l assms(2)] have "sts = sts'" .
  with enqueue_loop_accepted [OF l assms(1), of a] assms(3) enqueue_script_sets(1,3) [OF l]
  show ?thesis by simp
qed

text \<open>A call either leaves the store alone or runs the script once on it.\<close>

lemma enqueue_jobs_run:
  assumes "enqueue_jobs R ns jobs dedupe ttls mx s = (out, s')"
  obtains (untouched) "V s' = V s" "\<And>sts. out = Inr sts \<Longrightarrow> ENQ_ACCEPTED \<notin> set sts"
  | (ran) s1 now t0 where "V s1 = V s" "jobs \<noteq> []" "length jobs = length ttls"
      "\<forall>j\<in>set jobs. task_key j = task_key (hd jobs)"
      "s' = snd (enq_script ns (max 1 mx) dedupe (task_key (hd jobs)) TASK_METRICS_IDLE_TTL_SECONDS t0
              TASK_COUNTS_TTL_SECONDS (map (enqueue_arg_of ns dedupe) (ready_jobs now jobs ttls)) s1)"
      "\<And>sts. out = Inr sts \<Longrightarrow> ENQ_ACCEPTED \<in> set sts \<Longrightarrow>
         \<exists>replies codes. fst (enq_script ns (max 1 mx) dedupe (task_key (hd jobs)) TASK_METRICS_IDLE_TTL_SECONDS t0
              TASK_COUNTS_TTL_SECONDS (map (enqueue_arg_of ns dedupe) (ready_jobs now jobs ttls)) s1) = Inr replies
           \<and> replies = map enqueue_status_value codes
           \<and> sts = fill_statuses (map (\<lambda>(job, ttl). prepare_job now job ttl) (zip jobs ttls)) codes"
proof -
  have no: "ENQ_ACCEPTED \<notin> set (fill_statuses ps [])" for ps
    by (induction ps "[] :: enqueue_status list" rule: fill_statuses.induct) auto
  show ?thesis
  proof (cases "jobs = [] \<or> length jobs \<noteq> length ttls \<or> length jobs > DISPATCH_LUA_BATCH_SIZE
      \<or> (\<exists>j\<in>set jobs. task_key j \<noteq> task_key (hd jobs))")
    case True
    with assms show ?thesis by (intro untouched) (auto simp: enqueue_jobs_def split: if_splits)
  next
    case False
    then have lt: "\<not> DISPATCH_LUA_BATCH_SIZE < length ttls" by auto
    obtain now s1 where w1: "wall R s = (now, s1)" by force
    then have V1: "V s1 = V s" using law_wall [of s] by simp
    let ?ready = "ready_jobs now jobs ttls"
    let ?ps = "map (\<lambda>(job, ttl). prepare_job now job ttl) (zip jobs ttls)"
    show ?thesis
    proof (cases "?ready = []")
      case True
      then have "List.map_filter id ?ps = []" by (simp add: ready_jobs_def)
      with False w1 lt have "enqueue_jobs R ns jobs dedupe ttls mx s = (Inr (fill_statuses ?ps []), s1)"
        unfolding enqueue_jobs_def Let_def by (simp only: split if_False if_True de_Morgan_disj simp_thms)
      with assms V1 no show ?thesis by (intro untouched) auto
    next
      case ready: False
      obtain t0 s2 where w2: "wall R s1 = (t0, s2)" by force
      then have V2: "V s2 = V s" using law_wall [of s1] V1 by simp
      let ?f = "enq_script ns (max 1 mx) dedupe (task_key (hd jobs)) TASK_METRICS_IDLE_TTL_SECONDS t0
              TASK_COUNTS_TTL_SECONDS (map (enqueue_arg_of ns dedupe) ?ready)"
      have eq: "enqueue_jobs R ns jobs dedupe ttls mx s =
        (case rpc_script R ?f s2 of
           (Inl _, s) \<Rightarrow> (Inr (fill_statuses ?ps []), s)
         | (Inr replies, s) \<Rightarrow>
             (case decode_all EnqueueStatus replies of
                Inl _ \<Rightarrow> (Inr (fill_statuses ?ps []), s)
              | Inr statuses \<Rightarrow> (Inr (fill_statuses ?ps statuses), s)))"
        using False lt ready w1 w2 unfolding enqueue_jobs_def ready_jobs_def enqueue_counter_spec_def Let_def
        by (simp only: split if_False if_True de_Morgan_disj simp_thms)
      note F = ran
      show ?thesis
      proof (cases rule: rpc_script_cases [of s2 ?f])
        case (ran s3)
        obtain r s4 where f: "?f s3 = (r, s4)" by force
        show ?thesis
        proof (rule F [of s3 t0 now])
          show "V s3 = V s" using ran(1) V2 by simp
          show "jobs \<noteq> []" "length jobs = length ttls" "\<forall>j\<in>set jobs. task_key j = task_key (hd jobs)"
            using False by blast+
          show "s' = snd (?f s3)"
            using assms unfolding eq ran(2) f by (auto split: sum.splits)
          show "\<exists>replies codes. fst (?f s3) = Inr replies \<and> replies = map enqueue_status_value codes
              \<and> sts = fill_statuses ?ps codes" if out: "out = Inr sts" and acc: "ENQ_ACCEPTED \<in> set sts" for sts
          proof -
            obtain replies where replies: "r = Inr replies"
              using assms no acc unfolding eq ran(2) f out by (cases r) auto
            moreover obtain codes where codes: "decode_all EnqueueStatus replies = Inr codes"
              using assms no acc replies unfolding eq ran(2) f out by (cases "decode_all EnqueueStatus replies") auto
            moreover have "sts = fill_statuses ?ps codes"
              using assms unfolding eq ran(2) f out replies by (simp add: codes)
            ultimately show ?thesis
              using enqueue_enum.decode_list_Inr [OF codes] f by (intro exI [of _ replies] exI [of _ codes]) simp
          qed
        qed
      next
        case (refused s3)
        then show ?thesis using assms no V2 unfolding eq by (intro untouched) auto
      next
        case (lost s3)
        show ?thesis
        proof (rule F [of s3 t0 now])
          show "V s3 = V s" using lost(1) V2 by simp
          show "jobs \<noteq> []" "length jobs = length ttls" "\<forall>j\<in>set jobs. task_key j = task_key (hd jobs)"
            using False by blast+
          show "s' = snd (?f s3)" using assms lost(2) unfolding eq by simp
          show "\<exists>replies codes. fst (?f s3) = Inr replies \<and> replies = map enqueue_status_value codes
              \<and> sts = fill_statuses ?ps codes" if "out = Inr sts" "ENQ_ACCEPTED \<in> set sts" for sts
            using that assms lost(2) no unfolding eq by auto
        qed
      qed
    qed
  qed
qed

lemma enqueue_jobs_capacity:
  assumes "enqueue_jobs R ns jobs dedupe ttls mx s = (out, s')"
  shows "int (admitted_count ns (V s')) \<le> max (int (admitted_count ns (V s))) (max 1 mx)"
  using assms
proof (cases rule: enqueue_jobs_run)
  case untouched
  then show ?thesis by simp
next
  case (ran s1 now t0)
  have "\<forall>a\<in>set (map (enqueue_arg_of ns dedupe) (ready_jobs now jobs ttls)). arg_wf (\<lambda>_. []) ns [] a"
    by (rule enqueue_args_wf) simp
  from enqueue_script_capacity [OF this] ran(1,5) show ?thesis by metis
qed

lemma enqueue_jobs_inv:
  assumes "enqueue_jobs R ns jobs True ttls mx s = (out, s')"
    and "\<forall>j\<in>set jobs. owner (job_id j) = task_key j \<and> task_key j \<noteq> []" and "queue_inv owner ns (V s)"
  shows "queue_inv owner ns (V s')"
  using assms(1)
proof (cases rule: enqueue_jobs_run)
  case untouched
  then show ?thesis using assms(3) by simp
next
  case (ran s1 now t0)
  have tk: "task_key (hd jobs) \<noteq> []" using assms(2) ran(2) by (simp add: hd_in_set)
  have "owner (job_id j) = task_key (hd jobs)" if "j \<in> set jobs" for j
    using assms(2) bspec [OF ran(4) that] that by auto
  then have "\<forall>a\<in>set (map (enqueue_arg_of ns True) (ready_jobs now jobs ttls)). arg_wf owner ns (task_key (hd jobs)) a"
    by (intro enqueue_args_wf ballI)
  from enqueue_script_inv [OF this tk, of s1] ran(1,5) assms(3) show ?thesis by metis
qed

lemma enqueue_jobs_frame:
  assumes "enqueue_jobs R ns jobs dedupe ttls mx s = (out, s')"
    and "A \<inter> queue_keys ns = {}" and "A \<inter> metrics_keys ns = {}"
  shows "same_at A (V s) (V s')"
  using assms(1)
proof (cases rule: enqueue_jobs_run)
  case untouched
  then show ?thesis by simp
next
  case (ran s1 now t0)
  have "\<forall>a\<in>set (map (enqueue_arg_of ns dedupe) (ready_jobs now jobs ttls)). arg_wf (\<lambda>_. []) ns [] a"
    by (rule enqueue_args_wf) simp
  from enqueue_script_frame [OF this assms(2,3)] ran(1,5) show ?thesis by metis
qed

lemma enqueue_jobs_paused:
  assumes "enqueue_jobs R ns jobs dedupe ttls mx s = (out, s')" and "present (V s) (producer_gate_key ns)"
  shows "same_at (queue_keys ns) (V s) (V s')" and "out = Inr sts \<Longrightarrow> ENQ_ACCEPTED \<notin> set sts"
proof -
  have sub: "queue_keys ns \<subseteq> - metrics_keys ns" using metrics_keys_queue [of ns] by blast
  have "same_at (queue_keys ns) (V s) (V s') \<and> (\<forall>sts. out = Inr sts \<longrightarrow> ENQ_ACCEPTED \<notin> set sts)"
    using assms(1)
  proof (cases rule: enqueue_jobs_run)
    case untouched
    then show ?thesis by simp
  next
    case (ran s1 now t0)
    from assms(2) ran(1) have p: "present (V s1) (producer_gate_key ns)" by simp
    have "ENQ_ACCEPTED \<notin> set sts" if "out = Inr sts" for sts
    proof
      assume "ENQ_ACCEPTED \<in> set sts"
      from ran(6) [OF that this] obtain codes where
        r: "fst (enq_script ns (max 1 mx) dedupe (task_key (hd jobs)) TASK_METRICS_IDLE_TTL_SECONDS t0
            TASK_COUNTS_TTL_SECONDS (map (enqueue_arg_of ns dedupe) (ready_jobs now jobs ttls)) s1)
            = Inr (map enqueue_status_value codes)"
        and sts: "sts = fill_statuses (map (\<lambda>(job, ttl). prepare_job now job ttl) (zip jobs ttls)) codes" by blast
      from enqueue_script_paused(2) [OF p r]
      have codes: "\<forall>c\<in>set codes. enqueue_status_value c = 5"
        by (metis image_eqI list.set_map in_set_replicate)
      have "ENQ_ACCEPTED \<notin> set (fill_statuses ps codes)" for ps
        using codes by (induction ps codes rule: fill_statuses.induct) auto
      then show False using \<open>ENQ_ACCEPTED \<in> set sts\<close> sts by simp
    qed
    then show ?thesis using same_at_mono [OF enqueue_script_paused(1) [OF p] sub] ran(1,5) by metis
  qed
  then show "same_at (queue_keys ns) (V s) (V s')" and "out = Inr sts \<Longrightarrow> ENQ_ACCEPTED \<notin> set sts" by blast+
qed

text \<open>An accepted job was in neither set, and now waits in the pending set at its ready
  time with its record stored.\<close>

lemma enqueue_jobs_accepted:
  assumes "enqueue_jobs R ns jobs True ttls mx s = (Inr sts, s')" and "(job, ENQ_ACCEPTED) \<in> set (zip jobs sts)"
  shows "pend ns (V s) (job_id job) = None \<and> resv ns (V s) (job_id job) = None
    \<and> pend ns (V s') (job_id job) = Some (ready_at job)
    \<and> (\<exists>d. kv (V s') (job_key ns (job_id job)) = Some (job_snapshot (job\<lparr>wait_deadline_at := d\<rparr>))
            \<and> (wait_deadline_at job \<noteq> 0 \<longrightarrow> d = wait_deadline_at job))"
proof -
  have acc: "ENQ_ACCEPTED \<in> set sts" using assms(2) by (rule set_zip_rightD)
  show ?thesis
    using assms(1)
  proof (cases rule: enqueue_jobs_run)
    case untouched
    then show ?thesis using acc by blast
  next
    case (ran s1 now t0)
    let ?args = "map (enqueue_arg_of ns True) (ready_jobs now jobs ttls)"
    from ran(6) [OF refl acc] obtain codes where
      r: "fst (enq_script ns (max 1 mx) True (task_key (hd jobs)) TASK_METRICS_IDLE_TTL_SECONDS t0
            TASK_COUNTS_TTL_SECONDS ?args s1) = Inr (map enqueue_status_value codes)"
      and sts: "sts = fill_statuses (map (\<lambda>(job, ttl). prepare_job now job ttl) (zip jobs ttls)) codes" by blast
    from fill_statuses_accepted [OF assms(2) [unfolded sts]] obtain j t ttl where
      z: "((j, t), ENQ_ACCEPTED) \<in> set (zip (ready_jobs now jobs ttls) codes)"
      and p: "prepare_job now job ttl = Some (j, t)" by blast
    from prepare_job_Some [OF p] obtain d where j: "j = job\<lparr>wait_deadline_at := d\<rparr>"
      and d: "wait_deadline_at job \<noteq> 0 \<longrightarrow> d = wait_deadline_at job" by blast
    have wf: "\<forall>a\<in>set ?args. arg_wf (\<lambda>_. []) ns [] a" by (rule enqueue_args_wf) simp
    have "(enqueue_arg_of ns True (j, t), 1) \<in> set (zip ?args (map enqueue_status_value codes))"
      using z by (force simp: zip_map_map)
    from enqueue_script_accepted [OF wf r this] ran(1,5) j d show ?thesis
      by (auto simp: enqueue_arg_of_def)
  qed
qed

end

end
