(* ===== verification/Reservation.thy ===== *)
theory Reservation
  imports Queue_State
begin

text \<open>
  \<open>dispatch/reservation.py\<close>: \<open>RESERVE_JOB_LUA\<close>, which moves ready jobs from pending to
  reserved under the queue's slot ceiling and the tick budget, and
  \<open>QueueReservation.reserve_jobs\<close> around it.
\<close>

section \<open>Status codes\<close>

definition TICK_COUNTER_TTL_SECONDS :: int where "TICK_COUNTER_TTL_SECONDS = PUMP_INTERVAL_SECONDS * 6"

datatype reservation_status =
    RSV_RESERVED | RSV_MISSING | RSV_CAPACITY_FULL | RSV_TICK_BUDGET_EXHAUSTED | RSV_UNAVAILABLE

fun reservation_status_value :: "reservation_status \<Rightarrow> int" where
  "reservation_status_value RSV_RESERVED = 1"
| "reservation_status_value RSV_MISSING = 2"
| "reservation_status_value RSV_CAPACITY_FULL = 3"
| "reservation_status_value RSV_TICK_BUDGET_EXHAUSTED = 4"
| "reservation_status_value RSV_UNAVAILABLE = 5"

definition ReservationStatus :: "int \<Rightarrow> reservation_status result" where
  "ReservationStatus i =
     (if i = 1 then Inr RSV_RESERVED else if i = 2 then Inr RSV_MISSING
      else if i = 3 then Inr RSV_CAPACITY_FULL else if i = 4 then Inr RSV_TICK_BUDGET_EXHAUSTED
      else if i = 5 then Inr RSV_UNAVAILABLE else Inl ValueError)"

definition BACKPRESSURE_STATUSES :: "reservation_status set" where
  "BACKPRESSURE_STATUSES = {RSV_CAPACITY_FULL, RSV_TICK_BUDGET_EXHAUSTED}"

interpretation reservation_enum: int_enum reservation_status_value ReservationStatus
proof
  show "ReservationStatus (reservation_status_value e) = Inr e" for e
    by (cases e) (simp_all add: ReservationStatus_def)
  show "ReservationStatus i = Inr e \<Longrightarrow> reservation_status_value e = i" for i e
    by (auto simp: ReservationStatus_def split: if_splits)
  show "reservation_status_value e \<noteq> 0" for e
    by (cases e) simp_all
qed

instantiation reservation_status :: linorder
begin

definition less_eq_reservation_status :: "reservation_status \<Rightarrow> reservation_status \<Rightarrow> bool" where
  "less_eq_reservation_status a b \<longleftrightarrow> reservation_status_value a \<le> reservation_status_value b"

definition less_reservation_status :: "reservation_status \<Rightarrow> reservation_status \<Rightarrow> bool" where
  "less_reservation_status a b \<longleftrightarrow> reservation_status_value a < reservation_status_value b"

instance
  by standard
     (auto simp: less_eq_reservation_status_def less_reservation_status_def reservation_enum.code_inject [symmetric])

end

section \<open>The script\<close>

record reserve_arg =
  ra_record :: string
  ra_dedupe :: string
  ra_job_id :: string
  ra_snapshot :: pyval
  ra_ttl :: int
  ra_task_key :: string

text \<open>\<open>tonumber(GET \<dots> or '0')\<close>: a value that is no number gives nil, on which the later
  comparison raises.\<close>

definition tick_used :: "pyval option \<Rightarrow> int option" where
  "tick_used v = (case v of None \<Rightarrow> Some 0 | Some (PInt n) \<Rightarrow> Some n | Some (PStr t) \<Rightarrow> parse_int t | Some _ \<Rightarrow> None)"

definition reserve_one_lua ::
  "'s env \<Rightarrow> string \<Rightarrow> string \<Rightarrow> string \<Rightarrow> real \<Rightarrow> int \<Rightarrow> int \<Rightarrow> int \<Rightarrow> int \<Rightarrow> int option \<Rightarrow> reserve_arg \<Rightarrow> 's
     \<Rightarrow> int result \<times> 's" where
  "reserve_one_lua R pending reserved counts_key now mx_reserved tick_budget counts_ttl n_reserved used a s =
     (if r_zscore R s pending (ra_job_id a) = None then (Inr 2, s)
      else if n_reserved \<ge> mx_reserved then (Inr 3, s)
      else (case used of
              None \<Rightarrow> (Inl ScriptError, s)
            | Some u \<Rightarrow>
                if u \<ge> tick_budget then (Inr 4, s)
                else
                  (let s = snd (r_zrem R s pending (ra_job_id a));
                       s = r_zadd R s reserved now (ra_job_id a);
                       s = r_set R s (ra_record a) (ra_snapshot a) (Some (ra_ttl a));
                       s = (if ra_dedupe a \<noteq> [] then r_expire R s (ra_dedupe a) (ra_ttl a) else s)
                   in if ra_task_key a = [] then (Inr 1, s)
                      else (case bump_count R counts_key (''pending:'' @ ra_task_key a) (-1) s of
                              (Inl e, s) \<Rightarrow> (Inl e, s)
                            | (Inr _, s) \<Rightarrow>
                                (case bump_count R counts_key (''reserved:'' @ ra_task_key a) 1 s of
                                   (Inl e, s) \<Rightarrow> (Inl e, s)
                                 | (Inr _, s) \<Rightarrow> (Inr 1, r_expire R s counts_key counts_ttl))))))"

fun reserve_loop_lua ::
  "'s env \<Rightarrow> string \<Rightarrow> string \<Rightarrow> string \<Rightarrow> real \<Rightarrow> int \<Rightarrow> int \<Rightarrow> int \<Rightarrow> reserve_arg list \<Rightarrow> int \<Rightarrow> int option \<Rightarrow> int \<Rightarrow> 's
     \<Rightarrow> (int list \<times> int option \<times> int) result \<times> 's" where
  "reserve_loop_lua R pending reserved counts_key now mx budget cttl [] n used newly s = (Inr ([], used, newly), s)"
| "reserve_loop_lua R pending reserved counts_key now mx budget cttl (a # as) n used newly s =
     (case reserve_one_lua R pending reserved counts_key now mx budget cttl n used a s of
        (Inl e, s) \<Rightarrow> (Inl e, s)
      | (Inr status, s) \<Rightarrow>
          (case (if status = 1
                 then reserve_loop_lua R pending reserved counts_key now mx budget cttl as
                        (n + 1) (map_option (\<lambda>u. u + 1) used) (newly + 1) s
                 else reserve_loop_lua R pending reserved counts_key now mx budget cttl as n used newly s) of
             (Inl e, s) \<Rightarrow> (Inl e, s)
           | (Inr (statuses, used, newly), s) \<Rightarrow> (Inr (status # statuses, used, newly), s)))"

definition reserve_jobs_lua ::
  "'s env \<Rightarrow> string \<Rightarrow> string \<Rightarrow> string \<Rightarrow> string \<Rightarrow> real \<Rightarrow> int \<Rightarrow> int \<Rightarrow> int \<Rightarrow> int \<Rightarrow> reserve_arg list \<Rightarrow> 's
     \<Rightarrow> int list result \<times> 's" where
  "reserve_jobs_lua R pending reserved tick_counter counts_key now mx_reserved tick_budget counter_ttl counts_ttl args s =
     (case reserve_loop_lua R pending reserved counts_key now mx_reserved tick_budget counts_ttl args
             (r_zcard R s reserved) (tick_used (r_get R s tick_counter)) 0 s of
        (Inl e, s) \<Rightarrow> (Inl e, s)
      | (Inr (statuses, used, newly), s) \<Rightarrow>
          (Inr statuses,
           if 0 < newly then r_set R s tick_counter (PInt (the used)) (Some counter_ttl) else s))"

section \<open>The batch around the script\<close>

definition reserve_arg_of :: "string \<Rightarrow> dispatch_job \<times> int \<Rightarrow> reserve_arg" where
  "reserve_arg_of ns = (\<lambda>(job, ttl).
     \<lparr>ra_record = job_key ns (job_id job),
      ra_dedupe = (if task_key job \<noteq> [] \<and> work_item_id job \<noteq> []
                   then dedupe_key ns (task_key job) (work_item_id job) else []),
      ra_job_id = job_id job,
      ra_snapshot = job_snapshot (job\<lparr>wait_deadline_at := 0\<rparr>),
      ra_ttl = max 1 ttl,
      ra_task_key = task_key job\<rparr>)"

definition reserve_jobs ::
  "'s env \<Rightarrow> string \<Rightarrow> dispatch_job list \<Rightarrow> queue_config \<Rightarrow> int list \<Rightarrow> int \<Rightarrow> int \<Rightarrow> 's
     \<Rightarrow> reservation_status list result \<times> 's" where
  "reserve_jobs R ns jobs config reserved_record_ttls tick tick_budget s =
     (if jobs = [] then (Inr [], s)
      else if length jobs \<noteq> length reserved_record_ttls then (Inl ValueError, s)
      else if length jobs > DISPATCH_LUA_BATCH_SIZE then (Inl ValueError, s)
      else
        (let (now, s) = wall R s in
         case rpc_script R
                (reserve_jobs_lua R (pending_key ns) (reserved_key ns) (tick_counter_key ns tick) (task_counts_key ns)
                   now (max 1 (max_reserved config)) (max 1 tick_budget) TICK_COUNTER_TTL_SECONDS TASK_COUNTS_TTL_SECONDS
                   (map (reserve_arg_of ns) (zip jobs reserved_record_ttls))) s of
           (Inl _, s) \<Rightarrow> (Inr (replicate (length jobs) RSV_UNAVAILABLE), s)
         | (Inr replies, s) \<Rightarrow> (decode_all ReservationStatus replies, s)))"

section \<open>One job of the batch\<close>

definition rarg_keys :: "string \<Rightarrow> reserve_arg \<Rightarrow> bool" where
  "rarg_keys ns a \<longleftrightarrow>
     ra_record a = job_key ns (ra_job_id a) \<and> (ra_dedupe a = [] \<or> (\<exists>x y. ra_dedupe a = dedupe_key ns x y))"

definition rarg_wf :: "(string \<Rightarrow> string) \<Rightarrow> string \<Rightarrow> reserve_arg \<Rightarrow> bool" where
  "rarg_wf owner ns a \<longleftrightarrow> rarg_keys ns a \<and> owner (ra_job_id a) = ra_task_key a"

text \<open>The move of one job, up to the counters.\<close>

definition v_move :: "string \<Rightarrow> real \<Rightarrow> reserve_arg \<Rightarrow> view \<Rightarrow> view" where
  "v_move ns now a v =
     (let v = v_zadd (reserved_key ns) now (ra_job_id a) (v_zrem (pending_key ns) (ra_job_id a) v);
          v = v_set (ra_record a) (ra_snapshot a) (Some (ra_ttl a)) v
      in if ra_dedupe a \<noteq> [] then v_expire (ra_dedupe a) (ra_ttl a) v else v)"

definition v_move_counts :: "string \<Rightarrow> int \<Rightarrow> string \<Rightarrow> view \<Rightarrow> view" where
  "v_move_counts ns cttl tk v =
     v_expire (task_counts_key ns) cttl
       (v_bump (task_counts_key ns) (reserved_count_field tk) 1
         (v_bump (task_counts_key ns) (pending_count_field tk) (-1) v))"

lemma v_move_sets:
  "pend ns (v_move ns now a v) = (pend ns v)(ra_job_id a := None)"
  "resv ns (v_move ns now a v) = (resv ns v)(ra_job_id a \<mapsto> now)"
  "hash_int (v_move ns now a v) = hash_int v"
  by (simp_all add: v_move_def Let_def)

lemma v_move_kv:
  "rarg_keys ns a \<Longrightarrow> kv (v_move ns now a v) (job_key ns (ra_job_id a)) = Some (ra_snapshot a)"
  "rarg_keys ns a \<Longrightarrow> jid \<noteq> ra_job_id a \<Longrightarrow> kv (v_move ns now a v) (job_key ns jid) = kv v (job_key ns jid)"
  by (auto simp: v_move_def rarg_keys_def Let_def)

lemma v_move_counts_sets [simp]:
  "zs (v_move_counts ns cttl tk v) = zs v" "kv (v_move_counts ns cttl tk v) = kv v"
  by (simp_all add: v_move_counts_def)

lemma v_move_frame:
  assumes "rarg_keys ns a" and "A \<inter> queue_keys ns = {}"
  shows "same_at A u (v_move ns now a v) = same_at A u v"
    and "same_at A u (v_bump (task_counts_key ns) f i v) = same_at A u v"
    and "same_at A u (v_expire (task_counts_key ns) cttl v) = same_at A u v"
proof -
  have "pending_key ns \<notin> A" "reserved_key ns \<notin> A" "task_counts_key ns \<notin> A" "job_key ns (ra_job_id a) \<notin> A"
    "\<And>x y. dedupe_key ns x y \<notin> A"
    using assms(2) queue_keys_mem by blast+
  with assms(1) show "same_at A u (v_move ns now a v) = same_at A u v"
    and "same_at A u (v_bump (task_counts_key ns) f i v) = same_at A u v"
    and "same_at A u (v_expire (task_counts_key ns) cttl v) = same_at A u v"
    by (auto simp: v_move_def rarg_keys_def Let_def frame_simps)
qed

text \<open>The invariant across one move.\<close>

lemma v_move_inv:
  assumes inv: "queue_inv owner ns v" and fin: "finite_queue ns v" and p: "pend ns v (ra_job_id a) \<noteq> None"
    and wf: "rarg_wf owner ns a" and tk: "ra_task_key a \<noteq> []"
  shows "queue_inv owner ns (v_move_counts ns cttl (ra_task_key a) (v_move ns now a v))"
proof -
  let ?j = "ra_job_id a" and ?tk = "ra_task_key a"
  let ?p = "v_bump (task_counts_key ns) (pending_count_field ?tk) (-1) (v_zrem (pending_key ns) ?j v)"
  let ?q = "v_bump (task_counts_key ns) (reserved_count_field ?tk) 1 (v_zadd (reserved_key ns) now ?j ?p)"
  from inv have dis: "slots_disjoint ns v" and cnt: "counts_ok owner ns v" by (simp_all add: queue_inv_def)
  have o': "owner ?j = ?tk" using wf by (simp add: rarg_wf_def)
  have r: "resv ns v ?j = None" using dis p by (auto simp: slots_disjoint_def)
  have "counts_ok owner ns ?p" by (rule drop_pending_counts [OF cnt fin p o' tk])
  then have q: "counts_ok owner ns ?q"
    by (rule add_reserved_counts) (use fin r o' tk in simp_all)
  let ?r = "v_move_counts ns cttl ?tk (v_move ns now a v)"
  have h: "hash_int v (task_counts_key ns) (pending_count_field ?tk) \<noteq> None"
    "hash_int v (task_counts_key ns) (reserved_count_field ?tk) \<noteq> None"
    using counts_ok_field [OF cnt tk] by simp_all
  then obtain x y where h': "hash_int v (task_counts_key ns) (pending_count_field ?tk) = Some x"
    "hash_int v (task_counts_key ns) (reserved_count_field ?tk) = Some y" by blast
  have "hash_int ?r (task_counts_key ns) = hash_int ?q (task_counts_key ns)"
  proof (rule ext)
    fix f
    have mv: "hash_int (v_move ns now a v) (task_counts_key ns) (pending_count_field ?tk) = Some x"
      using h' by (simp add: v_move_sets)
    have zr: "hash_int (v_zrem (pending_key ns) ?j v) (task_counts_key ns) (pending_count_field ?tk) = Some x"
      using h' by simp
    have mv': "hash_int (v_bump (task_counts_key ns) (pending_count_field ?tk) (-1) (v_move ns now a v))
        (task_counts_key ns) (reserved_count_field ?tk) = Some y"
      using h' by (simp add: hash_int_bump [OF mv] v_move_sets)
    have zr': "hash_int (v_zadd (reserved_key ns) now ?j ?p) (task_counts_key ns) (reserved_count_field ?tk) = Some y"
      using h' by (simp add: hash_int_bump [OF zr])
    show "hash_int ?r (task_counts_key ns) f = hash_int ?q (task_counts_key ns) f"
      by (simp add: v_move_counts_def hash_int_bump [OF mv'] hash_int_bump [OF mv] hash_int_bump [OF zr']
          hash_int_bump [OF zr] v_move_sets)
  qed
  then have "counts_ok owner ns ?r = counts_ok owner ns ?q"
    by (simp add: counts_ok_def counts_lag_def v_move_sets)
  moreover have "slots_disjoint ns ?r" using dis by (auto simp: slots_disjoint_def v_move_sets)
  ultimately show ?thesis using q by (simp add: queue_inv_def)
qed

text \<open>The effect on the store of a move that was carried out, and of one whose counter update
  raised.\<close>

definition v_reserved :: "string \<Rightarrow> int \<Rightarrow> real \<Rightarrow> reserve_arg \<Rightarrow> view \<Rightarrow> view" where
  "v_reserved ns cttl now a v =
     (if ra_task_key a = [] then v_move ns now a v
      else v_move_counts ns cttl (ra_task_key a) (v_move ns now a v))"

definition reserve_aborts :: "string \<Rightarrow> reserve_arg \<Rightarrow> view \<Rightarrow> bool" where
  "reserve_aborts ns a v \<longleftrightarrow> ra_task_key a \<noteq> []
     \<and> (hash_int v (task_counts_key ns) (pending_count_field (ra_task_key a)) = None
        \<or> hash_int v (task_counts_key ns) (reserved_count_field (ra_task_key a)) = None)"

definition v_aborted :: "string \<Rightarrow> real \<Rightarrow> reserve_arg \<Rightarrow> view \<Rightarrow> view" where
  "v_aborted ns now a v = v_bump (task_counts_key ns) (pending_count_field (ra_task_key a)) (-1) (v_move ns now a v)"

lemma v_reserved_sets:
  "zs (v_reserved ns cttl now a v) = zs (v_move ns now a v)" "kv (v_reserved ns cttl now a v) = kv (v_move ns now a v)"
  "zs (v_aborted ns now a v) = zs (v_move ns now a v)" "kv (v_aborted ns now a v) = kv (v_move ns now a v)"
  by (simp_all add: v_reserved_def v_aborted_def)

lemma v_reserved_frame:
  assumes "rarg_keys ns a" and "A \<inter> queue_keys ns = {}"
  shows "same_at A u (v_reserved ns cttl now a v) = same_at A u v"
    and "same_at A u (v_aborted ns now a v) = same_at A u v"
  by (simp_all add: v_reserved_def v_aborted_def v_move_counts_def v_move_frame [OF assms])

text \<open>Moving a job changes neither how many jobs the queue holds nor more than one slot.\<close>

lemma v_move_count:
  assumes "finite_queue ns v" and "pend ns v (ra_job_id a) \<noteq> None"
  shows "admitted_count ns (v_move ns now a v) \<le> admitted_count ns v"
    and "card (dom (resv ns (v_move ns now a v))) \<le> Suc (card (dom (resv ns v)))"
    and "resv ns v (ra_job_id a) = None \<Longrightarrow> admitted_count ns (v_move ns now a v) = admitted_count ns v"
proof -
  have f: "finite (dom (pend ns v))" "finite (dom (resv ns v))" using assms(1) by (simp_all add: finite_queue_def)
  have d: "Suc (card (dom ((pend ns v)(ra_job_id a := None)))) = card (dom (pend ns v))"
    using f(1) assms(2) by (rule card_dom_del)
  have u: "card (dom ((resv ns v)(ra_job_id a \<mapsto> now))) \<le> Suc (card (dom (resv ns v)))"
    using f(2) by (rule card_dom_upd_le)
  show "card (dom (resv ns (v_move ns now a v))) \<le> Suc (card (dom (resv ns v)))"
    using u by (simp only: v_move_sets)
  show "admitted_count ns (v_move ns now a v) \<le> admitted_count ns v"
    unfolding admitted_count_def v_move_sets using d u by linarith
  show "admitted_count ns (v_move ns now a v) = admitted_count ns v" if "resv ns v (ra_job_id a) = None"
    unfolding admitted_count_def v_move_sets using d card_dom_upd_new [OF f(2) that, of now] by linarith
qed

context redis
begin

abbreviation res_one ::
  "string \<Rightarrow> real \<Rightarrow> int \<Rightarrow> int \<Rightarrow> int \<Rightarrow> int \<Rightarrow> int option \<Rightarrow> reserve_arg \<Rightarrow> 's \<Rightarrow> int result \<times> 's" where
  "res_one ns \<equiv> reserve_one_lua R (pending_key ns) (reserved_key ns) (task_counts_key ns)"

abbreviation res_loop ::
  "string \<Rightarrow> real \<Rightarrow> int \<Rightarrow> int \<Rightarrow> int \<Rightarrow> reserve_arg list \<Rightarrow> int \<Rightarrow> int option \<Rightarrow> int \<Rightarrow> 's
     \<Rightarrow> (int list \<times> int option \<times> int) result \<times> 's" where
  "res_loop ns \<equiv> reserve_loop_lua R (pending_key ns) (reserved_key ns) (task_counts_key ns)"

lemma reserve_one_cases:
  obtains (missing) "fst (res_one ns now mx bud cttl n used a s) = Inr 2"
      "V (snd (res_one ns now mx bud cttl n used a s)) = V s" "pend ns (V s) (ra_job_id a) = None"
  | (full) "fst (res_one ns now mx bud cttl n used a s) = Inr 3"
      "V (snd (res_one ns now mx bud cttl n used a s)) = V s" "mx \<le> n"
  | (spent) u where "fst (res_one ns now mx bud cttl n used a s) = Inr 4"
      "V (snd (res_one ns now mx bud cttl n used a s)) = V s" "used = Some u" "bud \<le> u"
  | (raised) "fst (res_one ns now mx bud cttl n used a s) = Inl ScriptError"
      "V (snd (res_one ns now mx bud cttl n used a s)) = V s" "used = None"
  | (moved) u where "fst (res_one ns now mx bud cttl n used a s) = Inr 1"
      "V (snd (res_one ns now mx bud cttl n used a s)) = v_reserved ns cttl now a (V s)"
      "pend ns (V s) (ra_job_id a) \<noteq> None" "n < mx" "used = Some u" "u < bud" "\<not> reserve_aborts ns a (V s)"
  | (aborted) u where "fst (res_one ns now mx bud cttl n used a s) = Inl ScriptError"
      "V (snd (res_one ns now mx bud cttl n used a s)) = v_aborted ns now a (V s)"
      "pend ns (V s) (ra_job_id a) \<noteq> None" "n < mx" "used = Some u" "u < bud" "reserve_aborts ns a (V s)"
proof -
  have pf: "''pending:'' @ ra_task_key a = pending_count_field (ra_task_key a)"
    "''reserved:'' @ ra_task_key a = reserved_count_field (ra_task_key a)"
    by (simp_all add: pending_count_field_def reserved_count_field_def)
  note D = reserve_one_lua_def [of R "pending_key ns" "reserved_key ns" "task_counts_key ns" now mx bud cttl n used a s,
      unfolded pf]
  show ?thesis
  proof (cases "pend ns (V s) (ra_job_id a) = None \<or> mx \<le> n \<or> used = None \<or> (\<exists>u. used = Some u \<and> bud \<le> u)")
    case True
    then consider "pend ns (V s) (ra_job_id a) = None"
      | "pend ns (V s) (ra_job_id a) \<noteq> None" "mx \<le> n"
      | "pend ns (V s) (ra_job_id a) \<noteq> None" "\<not> mx \<le> n" "used = None"
      | u where "pend ns (V s) (ra_job_id a) \<noteq> None" "\<not> mx \<le> n" "used = Some u" "bud \<le> u"
      by (cases "pend ns (V s) (ra_job_id a) = None"; cases "mx \<le> n"; cases used) auto
    then show ?thesis
    proof cases
      case 1 then show ?thesis by (intro missing) (simp_all add: D)
    next
      case 2 then show ?thesis by (intro full) (simp_all add: D)
    next
      case 3 then show ?thesis by (intro raised) (simp_all add: reserve_one_lua_def)
    next
      case (4 u) then show ?thesis by (intro spent) (simp_all add: reserve_one_lua_def)
    qed
  next
    case False
    then obtain u where g: "pend ns (V s) (ra_job_id a) \<noteq> None" "\<not> mx \<le> n" "used = Some u" "\<not> bud \<le> u"
      by (cases used) auto
    let ?s0 = "snd (r_zrem R s (pending_key ns) (ra_job_id a))"
    let ?s1 = "r_set R (r_zadd R ?s0 (reserved_key ns) now (ra_job_id a)) (ra_record a) (ra_snapshot a) (Some (ra_ttl a))"
    let ?s2 = "if ra_dedupe a \<noteq> [] then r_expire R ?s1 (ra_dedupe a) (ra_ttl a) else ?s1"
    have V2: "V ?s2 = v_move ns now a (V s)" by (simp add: v_move_def Let_def)
    obtain b1 s3 where b1: "bump_count R (task_counts_key ns) (pending_count_field (ra_task_key a)) (-1) ?s2 = (b1, s3)"
      by force
    obtain b2 s4 where b2: "bump_count R (task_counts_key ns) (reserved_count_field (ra_task_key a)) 1 s3 = (b2, s4)"
      by force
    have run: "res_one ns now mx bud cttl n used a s =
      (if ra_task_key a = [] then (Inr 1, ?s2)
       else (case b1 of Inl e \<Rightarrow> (Inl e, s3)
             | Inr _ \<Rightarrow> (case b2 of Inl e \<Rightarrow> (Inl e, s4) | Inr _ \<Rightarrow> (Inr 1, r_expire R s4 (task_counts_key ns) cttl))))"
      unfolding D using g(1,2,4)
      by (simp only: law_zscore g(3) option.case if_False Let_def b1 b2 prod.case simp_thms)
    have V3: "V s3 = v_aborted ns now a (V s)"
      using bump_V [of "task_counts_key ns" "pending_count_field (ra_task_key a)" "-1" ?s2] unfolding b1 V2
      by (simp add: v_aborted_def)
    have B1: "b1 = (case hash_int (V s) (task_counts_key ns) (pending_count_field (ra_task_key a)) of
        None \<Rightarrow> Inl ScriptError | Some _ \<Rightarrow> Inr ())"
      using bump_ok [of "task_counts_key ns" "pending_count_field (ra_task_key a)" "-1" ?s2] unfolding b1 V2
      by (simp add: v_move_sets)
    have V4: "V s4 = v_bump (task_counts_key ns) (reserved_count_field (ra_task_key a)) 1 (v_aborted ns now a (V s))"
      using bump_V [of "task_counts_key ns" "reserved_count_field (ra_task_key a)" 1 s3] unfolding b2 V3 by simp
    have hi: "hash_int (v_aborted ns now a (V s)) (task_counts_key ns) (reserved_count_field (ra_task_key a))
        = hash_int (V s) (task_counts_key ns) (reserved_count_field (ra_task_key a))"
    proof (cases "hash_int (V s) (task_counts_key ns) (pending_count_field (ra_task_key a))")
      case None
      then show ?thesis by (simp add: v_aborted_def v_bump_def v_move_sets)
    next
      case (Some x)
      then have "hash_int (v_move ns now a (V s)) (task_counts_key ns) (pending_count_field (ra_task_key a)) = Some x"
        by (simp add: v_move_sets)
      from hash_int_bump [OF this] show ?thesis by (simp add: v_aborted_def v_move_sets)
    qed
    have B2: "b2 = (case hash_int (V s) (task_counts_key ns) (reserved_count_field (ra_task_key a)) of
        None \<Rightarrow> Inl ScriptError | Some _ \<Rightarrow> Inr ())"
      using bump_ok [of "task_counts_key ns" "reserved_count_field (ra_task_key a)" 1 s3] unfolding b2 V3 hi by simp
    show ?thesis
    proof (cases "reserve_aborts ns a (V s)")
      case True
      show ?thesis
      proof (rule aborted [OF _ _ g(1) _ g(3) _ True])
        show "fst (res_one ns now mx bud cttl n used a s) = Inl ScriptError"
          using True B1 B2 by (auto simp: run reserve_aborts_def split: option.split)
        show "V (snd (res_one ns now mx bud cttl n used a s)) = v_aborted ns now a (V s)"
        proof (cases "hash_int (V s) (task_counts_key ns) (pending_count_field (ra_task_key a))")
          case None
          then show ?thesis using True B1 V3 by (simp add: run reserve_aborts_def)
        next
          case (Some x)
          with True have n2: "hash_int (V s) (task_counts_key ns) (reserved_count_field (ra_task_key a)) = None"
            by (simp add: reserve_aborts_def)
          then have "V s4 = v_aborted ns now a (V s)" unfolding V4 by (simp add: v_bump_def hi)
          then show ?thesis using True B1 B2 Some n2 by (simp add: run reserve_aborts_def)
        qed
      qed (use g in auto)
    next
      case False
      show ?thesis
      proof (rule moved [OF _ _ g(1) _ g(3) _ False])
        show "fst (res_one ns now mx bud cttl n used a s) = Inr 1"
          using False B1 B2 by (auto simp: run reserve_aborts_def split: option.split)
        show "V (snd (res_one ns now mx bud cttl n used a s)) = v_reserved ns cttl now a (V s)"
          using False B1 B2 V2 V4
          by (auto simp: run reserve_aborts_def v_reserved_def v_move_counts_def v_aborted_def split: option.split)
      qed (use g in auto)
    qed
  qed
qed

section \<open>The batch\<close>

text \<open>
  The loop by one induction: \<open>I\<close> over the slots held, the tick usage, the moves made and the
  store; \<open>J\<close> is what still holds of the store where the script aborts.
\<close>

lemma reserve_loop_induct:
  assumes "res_loop ns now mx bud cttl args n used newly s = (r, s')"
    and "I n used newly (V s)" and wf: "\<forall>a\<in>set args. W a"
    and step: "\<And>a n u newly v. W a \<Longrightarrow> I n (Some u) newly v \<Longrightarrow> finite_queue ns v
        \<Longrightarrow> pend ns v (ra_job_id a) \<noteq> None \<Longrightarrow> n < mx \<Longrightarrow> u < bud \<Longrightarrow> \<not> reserve_aborts ns a v
        \<Longrightarrow> I (n + 1) (Some (u + 1)) (newly + 1) (v_reserved ns cttl now a v)"
    and abort: "\<And>a n u newly v. W a \<Longrightarrow> I n (Some u) newly v \<Longrightarrow> finite_queue ns v
        \<Longrightarrow> pend ns v (ra_job_id a) \<noteq> None \<Longrightarrow> n < mx \<Longrightarrow> u < bud \<Longrightarrow> reserve_aborts ns a v \<Longrightarrow> J (v_aborted ns now a v)"
    and weak: "\<And>n used newly v. I n used newly v \<Longrightarrow> J v"
  shows "case r of Inl e \<Rightarrow> J (V s')
       | Inr (sts, used', newly') \<Rightarrow> (\<exists>n'. I n' used' newly' (V s')) \<and> length sts = length args \<and> set sts \<subseteq> {1, 2, 3, 4}
           \<and> newly' = newly + int (count_if (\<lambda>st. st = 1) sts)"
  using assms(1,2) wf
proof (induction args arbitrary: n used newly s r)
  case Nil
  then show ?case by auto
next
  case (Cons a args)
  obtain q s1 where one: "res_one ns now mx bud cttl n used a s = (q, s1)" by force
  have wa: "W a" and ws: "\<forall>a\<in>set args. W a" using Cons.prems(3) by simp_all
  show ?case
  proof (cases q)
    case (Inl e)
    have "J (V s1)"
    proof (cases rule: reserve_one_cases [of ns now mx bud cttl n used a s])
      case raised
      then show ?thesis using one weak [OF Cons.prems(2)] by simp
    next
      case (aborted u)
      then show ?thesis using one abort [OF wa, of n u newly "V s"] Cons.prems(2) by simp
    qed (use one Inl in auto)
    with Cons.prems(1) one Inl show ?thesis by auto
  next
    case (Inr st)
    define n1 where "n1 = (if st = 1 then n + 1 else n)"
    define u1 where "u1 = (if st = 1 then map_option (\<lambda>u. u + 1) used else used)"
    define m1 where "m1 = (if st = 1 then newly + 1 else newly)"
    obtain r1 s2 where l: "res_loop ns now mx bud cttl args n1 u1 m1 s1 = (r1, s2)" by force
    have "(if st = 1 then res_loop ns now mx bud cttl args (n + 1) (map_option (\<lambda>u. u + 1) used) (newly + 1) s1
           else res_loop ns now mx bud cttl args n used newly s1) = (r1, s2)"
      using l by (simp add: n1_def u1_def m1_def split: if_splits)
    with Cons.prems(1) one Inr have r: "s' = s2" "r = (case r1 of Inl e \<Rightarrow> Inl e | Inr (sts, u, m) \<Rightarrow> Inr (st # sts, u, m))"
      by (auto split: sum.splits)
    have st: "I n1 u1 m1 (V s1) \<and> st \<in> {1, 2, 3, 4}"
    proof (cases rule: reserve_one_cases [of ns now mx bud cttl n used a s])
      case (moved u)
      then show ?thesis using one Inr Cons.prems(2) step [OF wa, of n u newly "V s"]
        by (simp add: n1_def u1_def m1_def)
    qed (use one Inr Cons.prems(2) in \<open>auto simp: n1_def u1_def m1_def\<close>)
    have l': "res_loop ns now mx bud cttl args n1 u1 m1 s1 = (r1, s')" using l r(1) by simp
    from Cons.IH [OF l' conjunct1 [OF st] ws] st r show ?thesis
      by (auto simp: m1_def split: sum.splits)
  qed
qed

abbreviation res_script ::
  "string \<Rightarrow> int \<Rightarrow> real \<Rightarrow> int \<Rightarrow> int \<Rightarrow> int \<Rightarrow> int \<Rightarrow> reserve_arg list \<Rightarrow> 's \<Rightarrow> int list result \<times> 's" where
  "res_script ns tick \<equiv> reserve_jobs_lua R (pending_key ns) (reserved_key ns) (tick_counter_key ns tick) (task_counts_key ns)"

lemma reserve_script_run:
  obtains r s1 where
    "res_loop ns now mx bud cttl args (int (card (dom (resv ns (V s))))) (tick_used (kv (V s) (tick_counter_key ns tick))) 0 s
       = (r, s1)"
    and "case r of Inl e \<Rightarrow> res_script ns tick now mx bud tttl cttl args s = (Inl e, s1)
         | Inr (sts, used, newly) \<Rightarrow> fst (res_script ns tick now mx bud tttl cttl args s) = Inr sts
             \<and> V (snd (res_script ns tick now mx bud tttl cttl args s)) =
                 (if 0 < newly then v_set (tick_counter_key ns tick) (PInt (the used)) (Some tttl) (V s1) else V s1)"
proof -
  obtain r s1 where l: "res_loop ns now mx bud cttl args (int (card (dom (resv ns (V s)))))
      (tick_used (kv (V s) (tick_counter_key ns tick))) 0 s = (r, s1)" by force
  show ?thesis
    by (rule that [OF l]) (use l in \<open>auto simp: reserve_jobs_lua_def split: sum.split\<close>)
qed

text \<open>The slot ceiling, and no job gained or lost.\<close>

lemma reserve_script_slots:
  assumes "\<forall>a\<in>set args. rarg_keys ns a"
  shows "int (card (dom (resv ns (V (snd (res_script ns tick now mx bud tttl cttl args s))))))
           \<le> max (int (card (dom (resv ns (V s))))) mx"
    and "admitted_count ns (V (snd (res_script ns tick now mx bud tttl cttl args s))) \<le> admitted_count ns (V s)"
proof -
  let ?v' = "V (snd (res_script ns tick now mx bud tttl cttl args s))"
  let ?n0 = "int (card (dom (resv ns (V s))))"
  let ?J = "\<lambda>v. int (card (dom (resv ns v))) \<le> max ?n0 mx \<and> admitted_count ns v \<le> admitted_count ns (V s)"
  let ?I = "\<lambda>n (_::int option) (_::int) v. int (card (dom (resv ns v))) \<le> n \<and> n \<le> max ?n0 mx
      \<and> admitted_count ns v \<le> admitted_count ns (V s)"
  obtain r s1 where l: "res_loop ns now mx bud cttl args ?n0 (tick_used (kv (V s) (tick_counter_key ns tick))) 0 s = (r, s1)"
    and v': "case r of Inl e \<Rightarrow> res_script ns tick now mx bud tttl cttl args s = (Inl e, s1)
         | Inr (sts, used, newly) \<Rightarrow> fst (res_script ns tick now mx bud tttl cttl args s) = Inr sts
             \<and> ?v' = (if 0 < newly then v_set (tick_counter_key ns tick) (PInt (the used)) (Some tttl) (V s1) else V s1)"
    by (rule reserve_script_run)
  have mv: "?I (n + 1) (Some (u + 1)) (m + 1) (v_reserved ns cttl now a v) \<and> ?J (v_aborted ns now a v)"
    if "?I n (Some u) m v" "finite_queue ns v" "pend ns v (ra_job_id a) \<noteq> None" "n < mx" for a n u m v
    using that v_move_count(1,2) [OF that(2,3), of now]
    by (auto simp: admitted_count_def v_reserved_sets le_max_iff_disj)
  have "case r of Inl e \<Rightarrow> ?J (V s1)
       | Inr (sts, used', newly') \<Rightarrow> (\<exists>n'. ?I n' used' newly' (V s1)) \<and> length sts = length args \<and> set sts \<subseteq> {1, 2, 3, 4}
           \<and> newly' = 0 + int (count_if (\<lambda>st. st = 1) sts)"
    by (rule reserve_loop_induct [OF l _ assms, of ?I ?J]) (use mv in \<open>blast | simp\<close>)+
  then have "?J (V s1)" by (auto split: sum.splits)
  then show "int (card (dom (resv ns ?v'))) \<le> max ?n0 mx" "admitted_count ns ?v' \<le> admitted_count ns (V s)"
    using v' by (auto simp: admitted_count_def split: sum.splits if_splits)
qed

text \<open>The tick budget: the jobs a tick moved stay within it, and the counter says how many.\<close>

lemma reserve_script_tick:
  assumes "fst (res_script ns tick now mx bud tttl cttl args s) = Inr sts"
    and "\<forall>a\<in>set args. rarg_keys ns a" and "tick_used (kv (V s) (tick_counter_key ns tick)) = Some u0"
  shows "u0 + int (count_if (\<lambda>st. st = 1) sts) \<le> max u0 bud"
    and "count_if (\<lambda>st. st = 1) sts \<noteq> 0 \<Longrightarrow>
           kv (V (snd (res_script ns tick now mx bud tttl cttl args s))) (tick_counter_key ns tick)
             = Some (PInt (u0 + int (count_if (\<lambda>st. st = 1) sts)))"
    and "length sts = length args" and "set sts \<subseteq> {1, 2, 3, 4}"
proof -
  let ?v' = "V (snd (res_script ns tick now mx bud tttl cttl args s))"
  let ?I = "\<lambda>(_::int) used m (_::view). used = Some (u0 + m) \<and> 0 \<le> m \<and> u0 + m \<le> max u0 bud"
  obtain r s1 where l0: "res_loop ns now mx bud cttl args (int (card (dom (resv ns (V s)))))
      (tick_used (kv (V s) (tick_counter_key ns tick))) 0 s = (r, s1)"
    and v': "case r of Inl e \<Rightarrow> res_script ns tick now mx bud tttl cttl args s = (Inl e, s1)
         | Inr (sts, used, newly) \<Rightarrow> fst (res_script ns tick now mx bud tttl cttl args s) = Inr sts
             \<and> ?v' = (if 0 < newly then v_set (tick_counter_key ns tick) (PInt (the used)) (Some tttl) (V s1) else V s1)"
    by (rule reserve_script_run)
  from l0 assms(3) have l: "res_loop ns now mx bud cttl args (int (card (dom (resv ns (V s))))) (Some u0) 0 s = (r, s1)"
    by simp
  have "case r of Inl e \<Rightarrow> True
       | Inr (sts, used', newly') \<Rightarrow> (\<exists>n'. ?I n' used' newly' (V s1)) \<and> length sts = length args \<and> set sts \<subseteq> {1, 2, 3, 4}
           \<and> newly' = 0 + int (count_if (\<lambda>st. st = 1) sts)"
    by (rule reserve_loop_induct [OF l _ assms(2), of ?I "\<lambda>_. True"]) auto
  with v' assms(1) obtain used newly where r: "r = Inr (sts, used, newly)" and u: "used = Some (u0 + newly)"
    "u0 + newly \<le> max u0 bud" "newly = int (count_if (\<lambda>st. st = 1) sts)"
    and w: "length sts = length args" "set sts \<subseteq> {1, 2, 3, 4}"
    by (auto split: sum.splits)
  show "u0 + int (count_if (\<lambda>st. st = 1) sts) \<le> max u0 bud" using u by simp
  show "length sts = length args" "set sts \<subseteq> {1, 2, 3, 4}" by (rule w)+
  show "kv ?v' (tick_counter_key ns tick) = Some (PInt (u0 + int (count_if (\<lambda>st. st = 1) sts)))"
    if "count_if (\<lambda>st. st = 1) sts \<noteq> 0"
    using that v' r u by simp
qed

text \<open>Reservation keeps the queue invariant; with exact counts the script cannot abort.\<close>

lemma v_reserved_inv:
  assumes "queue_inv owner ns v" and "finite_queue ns v" and "pend ns v (ra_job_id a) \<noteq> None" and "rarg_wf owner ns a"
    and "ra_task_key a \<noteq> []"
  shows "queue_inv owner ns (v_reserved ns cttl now a v)" and "\<not> reserve_aborts ns a v"
proof -
  show "queue_inv owner ns (v_reserved ns cttl now a v)"
    using v_move_inv [OF assms] assms(5) by (simp add: v_reserved_def)
  show "\<not> reserve_aborts ns a v"
    using assms(1,5) counts_ok_field [of owner ns v "ra_task_key a"] by (simp add: reserve_aborts_def queue_inv_def)
qed

lemma reserve_script_inv:
  assumes "\<forall>a\<in>set args. rarg_wf owner ns a \<and> ra_task_key a \<noteq> []" and "queue_inv owner ns (V s)"
  shows "queue_inv owner ns (V (snd (res_script ns tick now mx bud tttl cttl args s)))"
proof -
  let ?v' = "V (snd (res_script ns tick now mx bud tttl cttl args s))"
  obtain r s1 where l: "res_loop ns now mx bud cttl args (int (card (dom (resv ns (V s)))))
      (tick_used (kv (V s) (tick_counter_key ns tick))) 0 s = (r, s1)"
    and v': "case r of Inl e \<Rightarrow> res_script ns tick now mx bud tttl cttl args s = (Inl e, s1)
         | Inr (sts, used, newly) \<Rightarrow> fst (res_script ns tick now mx bud tttl cttl args s) = Inr sts
             \<and> ?v' = (if 0 < newly then v_set (tick_counter_key ns tick) (PInt (the used)) (Some tttl) (V s1) else V s1)"
    by (rule reserve_script_run)
  let ?I = "\<lambda>(_::int) (_::int option) (_::int) v. queue_inv owner ns v"
  have "case r of Inl e \<Rightarrow> queue_inv owner ns (V s1)
       | Inr (sts, used', newly') \<Rightarrow> (\<exists>n'. ?I n' used' newly' (V s1)) \<and> length sts = length args \<and> set sts \<subseteq> {1, 2, 3, 4}
           \<and> newly' = 0 + int (count_if (\<lambda>st. st = 1) sts)"
    by (rule reserve_loop_induct [OF l _ assms(1), of ?I "queue_inv owner ns"])
       (use assms(2) v_reserved_inv in blast)+
  then have inv: "queue_inv owner ns (V s1)" by (auto split: sum.splits)
  have "queue_inv owner ns (v_set (tick_counter_key ns tick) x ex (V s1))" for x ex
    using queue_inv_core(1) [of ns "V s1" "v_set (tick_counter_key ns tick) x ex (V s1)"] inv by simp
  with v' inv show ?thesis by (auto split: sum.splits if_splits)
qed

text \<open>A job out of pending is not touched again by the batch.\<close>

lemma reserve_loop_keeps:
  assumes "res_loop ns now mx bud cttl args n used newly s = (r, s')"
    and "\<forall>a\<in>set args. rarg_keys ns a" and "pend ns (V s) jid = None"
  shows "pend ns (V s') jid = None \<and> resv ns (V s') jid = resv ns (V s) jid
    \<and> kv (V s') (job_key ns jid) = kv (V s) (job_key ns jid)"
proof -
  let ?P = "\<lambda>v. pend ns v jid = None \<and> resv ns v jid = resv ns (V s) jid
      \<and> kv v (job_key ns jid) = kv (V s) (job_key ns jid)"
  let ?I = "\<lambda>(_::int) (_::int option) (_::int) v. ?P v"
  have mv: "?P (v_reserved ns cttl now a v) \<and> ?P (v_aborted ns now a v)"
    if "?P v" "pend ns v (ra_job_id a) \<noteq> None" "rarg_keys ns a" for a v
  proof -
    from that(1,2) have "jid \<noteq> ra_job_id a" by auto
    with that v_move_kv(2) [OF that(3), of jid now v] show ?thesis by (simp add: v_reserved_sets v_move_sets)
  qed
  have "case r of Inl e \<Rightarrow> ?P (V s')
       | Inr (sts, used', newly') \<Rightarrow> (\<exists>n'. ?I n' used' newly' (V s')) \<and> length sts = length args \<and> set sts \<subseteq> {1, 2, 3, 4}
           \<and> newly' = newly + int (count_if (\<lambda>st. st = 1) sts)"
    by (rule reserve_loop_induct [OF assms(1) _ assms(2), of ?I ?P]) (use mv assms(3) in \<open>blast | simp\<close>)+
  then show ?thesis by (auto split: sum.splits)
qed

lemma reserve_loop_moved:
  assumes "res_loop ns now mx bud cttl args n used newly s = (Inr (sts, used', newly'), s')"
    and "\<forall>a\<in>set args. rarg_keys ns a" and "(a, 1) \<in> set (zip args sts)"
  shows "pend ns (V s) (ra_job_id a) \<noteq> None \<and> pend ns (V s') (ra_job_id a) = None
    \<and> resv ns (V s') (ra_job_id a) = Some now \<and> kv (V s') (job_key ns (ra_job_id a)) = Some (ra_snapshot a)"
  using assms
proof (induction args arbitrary: n used newly s sts used' newly')
  case (Cons b args)
  obtain q s1 where one: "res_one ns now mx bud cttl n used b s = (q, s1)" by force
  with Cons.prems(1) obtain st where q: "q = Inr st" by (auto split: sum.splits)
  define n1 where "n1 = (if st = 1 then n + 1 else n)"
  define u1 where "u1 = (if st = 1 then map_option (\<lambda>u. u + 1) used else used)"
  define m1 where "m1 = (if st = 1 then newly + 1 else newly)"
  obtain r1 s2 where l: "res_loop ns now mx bud cttl args n1 u1 m1 s1 = (r1, s2)" by force
  have "(if st = 1 then res_loop ns now mx bud cttl args (n + 1) (map_option (\<lambda>u. u + 1) used) (newly + 1) s1
         else res_loop ns now mx bud cttl args n used newly s1) = (r1, s2)"
    using l by (simp add: n1_def u1_def m1_def split: if_splits)
  with Cons.prems(1) one q obtain rest where rest: "r1 = Inr (rest, used', newly')" and s2: "s2 = s'" and sts: "sts = st # rest"
    by (auto split: sum.splits)
  have wf: "rarg_keys ns b" and wfs: "\<forall>a\<in>set args. rarg_keys ns a" using Cons.prems(2) by simp_all
  have one': "st \<noteq> 1 \<and> V s1 = V s \<or> st = 1 \<and> V s1 = v_reserved ns cttl now b (V s) \<and> pend ns (V s) (ra_job_id b) \<noteq> None"
    by (cases rule: reserve_one_cases [of ns now mx bud cttl n used b s]) (use one q in auto)
  show ?case
  proof (cases "a = b \<and> st = 1")
    case True
    with one' have mv: "V s1 = v_reserved ns cttl now b (V s)" and p: "pend ns (V s) (ra_job_id b) \<noteq> None" by simp_all
    then have "pend ns (V s1) (ra_job_id b) = None" by (simp add: v_reserved_sets v_move_sets)
    from reserve_loop_keeps [OF l [unfolded s2] wfs this] True mv p v_move_kv(1) [OF wf, of now "V s"]
    show ?thesis by (simp add: v_reserved_sets v_move_sets)
  next
    case False
    with Cons.prems(3) sts have "(a, 1) \<in> set (zip args rest)" by auto
    from Cons.IH [OF l [unfolded rest s2] wfs this] one' show ?thesis
      by (auto simp: v_reserved_sets v_move_sets split: if_splits)
  qed
qed simp

lemma reserve_script_moved:
  assumes "fst (res_script ns tick now mx bud tttl cttl args s) = Inr sts"
    and "\<forall>a\<in>set args. rarg_keys ns a" and "(a, 1) \<in> set (zip args sts)"
  shows "pend ns (V s) (ra_job_id a) \<noteq> None
    \<and> pend ns (V (snd (res_script ns tick now mx bud tttl cttl args s))) (ra_job_id a) = None
    \<and> resv ns (V (snd (res_script ns tick now mx bud tttl cttl args s))) (ra_job_id a) = Some now
    \<and> kv (V (snd (res_script ns tick now mx bud tttl cttl args s))) (job_key ns (ra_job_id a)) = Some (ra_snapshot a)"
proof -
  obtain r s1 where l: "res_loop ns now mx bud cttl args (int (card (dom (resv ns (V s)))))
      (tick_used (kv (V s) (tick_counter_key ns tick))) 0 s = (r, s1)"
    and v': "case r of Inl e \<Rightarrow> res_script ns tick now mx bud tttl cttl args s = (Inl e, s1)
         | Inr (sts, used, newly) \<Rightarrow> fst (res_script ns tick now mx bud tttl cttl args s) = Inr sts
             \<and> V (snd (res_script ns tick now mx bud tttl cttl args s)) =
               (if 0 < newly then v_set (tick_counter_key ns tick) (PInt (the used)) (Some tttl) (V s1) else V s1)"
    by (rule reserve_script_run)
  with assms(1) obtain used newly where r: "r = Inr (sts, used, newly)"
    by (auto split: sum.splits)
  from reserve_loop_moved [OF l [unfolded r] assms(2,3)] v' r show ?thesis by auto
qed

lemma reserve_script_frame:
  assumes "\<forall>a\<in>set args. rarg_keys ns a" and "A \<inter> queue_keys ns = {}" and "tick_counter_key ns tick \<notin> A"
  shows "same_at A (V s) (V (snd (res_script ns tick now mx bud tttl cttl args s)))"
proof -
  let ?v' = "V (snd (res_script ns tick now mx bud tttl cttl args s))"
  obtain r s1 where l: "res_loop ns now mx bud cttl args (int (card (dom (resv ns (V s)))))
      (tick_used (kv (V s) (tick_counter_key ns tick))) 0 s = (r, s1)"
    and v': "case r of Inl e \<Rightarrow> res_script ns tick now mx bud tttl cttl args s = (Inl e, s1)
         | Inr (sts, used, newly) \<Rightarrow> fst (res_script ns tick now mx bud tttl cttl args s) = Inr sts
             \<and> ?v' = (if 0 < newly then v_set (tick_counter_key ns tick) (PInt (the used)) (Some tttl) (V s1) else V s1)"
    by (rule reserve_script_run)
  let ?I = "\<lambda>(_::int) (_::int option) (_::int) v. same_at A (V s) v"
  have "case r of Inl e \<Rightarrow> same_at A (V s) (V s1)
       | Inr (sts, used', newly') \<Rightarrow> (\<exists>n'. ?I n' used' newly' (V s1)) \<and> length sts = length args \<and> set sts \<subseteq> {1, 2, 3, 4}
           \<and> newly' = 0 + int (count_if (\<lambda>st. st = 1) sts)"
    by (rule reserve_loop_induct [OF l _ assms(1), of ?I "same_at A (V s)"])
       (use v_reserved_frame [OF _ assms(2)] in \<open>simp_all\<close>)
  then have "same_at A (V s) (V s1)" by (auto split: sum.splits)
  with v' assms(3) show ?thesis by (auto simp: frame_simps split: sum.splits if_splits)
qed

section \<open>The batch call\<close>

lemma reserve_args_keys: "\<forall>a\<in>set (map (reserve_arg_of ns) (zip jobs ttls)). rarg_keys ns a"
  by (auto simp: rarg_keys_def reserve_arg_of_def) blast

lemma reserve_args_wf:
  assumes "\<forall>j\<in>set jobs. owner (job_id j) = task_key j \<and> task_key j \<noteq> []"
  shows "\<forall>a\<in>set (map (reserve_arg_of ns) (zip jobs ttls)). rarg_wf owner ns a \<and> ra_task_key a \<noteq> []"
  using assms reserve_args_keys [of ns jobs ttls]
  by (auto simp: rarg_wf_def reserve_arg_of_def dest: set_zip_leftD)

text \<open>A call either leaves the store alone, with nothing reserved, or runs the script once.\<close>

lemma reserve_jobs_run:
  assumes "reserve_jobs R ns jobs config ttls tick bud s = (out, s')"
  obtains (untouched) "V s' = V s" "\<And>sts. out = Inr sts \<Longrightarrow> RSV_RESERVED \<notin> set sts"
  | (ran) s1 now where "V s1 = V s" "length jobs = length ttls"
      "s' = snd (res_script ns tick now (max 1 (max_reserved config)) (max 1 bud) TICK_COUNTER_TTL_SECONDS
              TASK_COUNTS_TTL_SECONDS (map (reserve_arg_of ns) (zip jobs ttls)) s1)"
      "\<And>sts. out = Inr sts \<Longrightarrow> RSV_RESERVED \<in> set sts \<Longrightarrow>
         fst (res_script ns tick now (max 1 (max_reserved config)) (max 1 bud) TICK_COUNTER_TTL_SECONDS
              TASK_COUNTS_TTL_SECONDS (map (reserve_arg_of ns) (zip jobs ttls)) s1) = Inr (map reservation_status_value sts)"
proof (cases "jobs = [] \<or> length jobs \<noteq> length ttls \<or> DISPATCH_LUA_BATCH_SIZE < length jobs")
  case True
  with assms show ?thesis by (intro untouched) (auto simp: reserve_jobs_def split: if_splits)
next
  case False
  obtain now s1 where w: "wall R s = (now, s1)" by force
  then have V1: "V s1 = V s" using law_wall [of s] by simp
  let ?f = "res_script ns tick now (max 1 (max_reserved config)) (max 1 bud) TICK_COUNTER_TTL_SECONDS
              TASK_COUNTS_TTL_SECONDS (map (reserve_arg_of ns) (zip jobs ttls))"
  have lt: "\<not> DISPATCH_LUA_BATCH_SIZE < length ttls" using False by auto
  have eq: "reserve_jobs R ns jobs config ttls tick bud s =
     (case rpc_script R ?f s1 of
        (Inl _, s) \<Rightarrow> (Inr (replicate (length jobs) RSV_UNAVAILABLE), s)
      | (Inr replies, s) \<Rightarrow> (decode_all ReservationStatus replies, s))"
    using False lt w unfolding reserve_jobs_def Let_def by (simp only: split if_False de_Morgan_disj simp_thms)
  note F = ran
  show ?thesis
  proof (cases rule: rpc_script_cases [of s1 ?f])
    case (ran s2)
    obtain r s3 where f: "?f s2 = (r, s3)" by force
    show ?thesis
    proof (rule F [of s2 now])
      show "V s2 = V s" using ran(1) V1 by simp
      show "length jobs = length ttls" using False by simp
      show "s' = snd (?f s2)" using assms unfolding eq ran(2) f by (auto split: sum.splits)
      show "fst (?f s2) = Inr (map reservation_status_value sts)" if out: "out = Inr sts" "RSV_RESERVED \<in> set sts" for sts
      proof -
        obtain replies where replies: "r = Inr replies"
          using assms out unfolding eq ran(2) f by (cases r) auto
        with assms out have "decode_all ReservationStatus replies = Inr sts" unfolding eq ran(2) f by simp
        from reservation_enum.decode_list_Inr [OF this] replies f show ?thesis by simp
      qed
    qed
  next
    case (refused s2)
    then show ?thesis using assms V1 unfolding eq by (intro untouched) auto
  next
    case (lost s2)
    show ?thesis
    proof (rule F [of s2 now])
      show "V s2 = V s" using lost(1) V1 by simp
      show "length jobs = length ttls" using False by simp
      show "s' = snd (?f s2)" using assms lost(2) unfolding eq by simp
      show "fst (?f s2) = Inr (map reservation_status_value sts)" if "out = Inr sts" "RSV_RESERVED \<in> set sts" for sts
        using that assms lost(2) unfolding eq by auto
    qed
  qed
qed

lemma reserve_jobs_slots:
  assumes "reserve_jobs R ns jobs config ttls tick bud s = (out, s')"
  shows "int (card (dom (resv ns (V s')))) \<le> max (int (card (dom (resv ns (V s))))) (max 1 (max_reserved config))"
    and "admitted_count ns (V s') \<le> admitted_count ns (V s)"
proof -
  have "int (card (dom (resv ns (V s')))) \<le> max (int (card (dom (resv ns (V s))))) (max 1 (max_reserved config))
      \<and> admitted_count ns (V s') \<le> admitted_count ns (V s)"
    using assms
  proof (cases rule: reserve_jobs_run)
    case untouched
    then show ?thesis by simp
  next
    case (ran s1 now)
    show ?thesis
      using reserve_script_slots [OF reserve_args_keys [of ns jobs ttls], of tick now "max 1 (max_reserved config)"
          "max 1 bud" TICK_COUNTER_TTL_SECONDS TASK_COUNTS_TTL_SECONDS s1] ran(1,3) by simp
  qed
  then show "int (card (dom (resv ns (V s')))) \<le> max (int (card (dom (resv ns (V s))))) (max 1 (max_reserved config))"
    and "admitted_count ns (V s') \<le> admitted_count ns (V s)" by blast+
qed

lemma reserve_jobs_inv:
  assumes "reserve_jobs R ns jobs config ttls tick bud s = (out, s')"
    and "\<forall>j\<in>set jobs. owner (job_id j) = task_key j \<and> task_key j \<noteq> []" and "queue_inv owner ns (V s)"
  shows "queue_inv owner ns (V s')"
  using assms(1)
proof (cases rule: reserve_jobs_run)
  case untouched
  then show ?thesis using assms(3) by simp
next
  case (ran s1 now)
  then show ?thesis
    using reserve_script_inv [OF reserve_args_wf [OF assms(2), of ns ttls], of s1] assms(3) by simp
qed

lemma reserve_jobs_frame:
  assumes "reserve_jobs R ns jobs config ttls tick bud s = (out, s')"
    and "A \<inter> queue_keys ns = {}" and "tick_counter_key ns tick \<notin> A"
  shows "same_at A (V s) (V s')"
  using assms(1)
proof (cases rule: reserve_jobs_run)
  case untouched
  then show ?thesis by simp
next
  case (ran s1 now)
  then show ?thesis using reserve_script_frame [OF reserve_args_keys assms(2,3), of s1] by simp
qed

text \<open>A reserved job was pending; it now holds a slot and its record has no wait deadline.\<close>

lemma reserve_jobs_moved:
  assumes "reserve_jobs R ns jobs config ttls tick bud s = (Inr sts, s')"
    and "(job, RSV_RESERVED) \<in> set (zip jobs sts)"
  shows "pend ns (V s) (job_id job) \<noteq> None \<and> pend ns (V s') (job_id job) = None \<and> resv ns (V s') (job_id job) \<noteq> None
    \<and> kv (V s') (job_key ns (job_id job)) = Some (job_snapshot (job\<lparr>wait_deadline_at := 0\<rparr>))"
proof -
  have acc: "RSV_RESERVED \<in> set sts" using assms(2) by (rule set_zip_rightD)
  show ?thesis
    using assms(1)
  proof (cases rule: reserve_jobs_run)
    case untouched
    then show ?thesis using acc by blast
  next
    case (ran s1 now)
    from assms(2) obtain i where i: "i < length jobs" "i < length sts" "jobs ! i = job" "sts ! i = RSV_RESERVED"
      by (auto simp: in_set_zip)
    have "(reserve_arg_of ns (job, ttls ! i), 1) \<in>
        set (zip (map (reserve_arg_of ns) (zip jobs ttls)) (map reservation_status_value sts))"
      using i ran(2) by (auto simp: in_set_zip intro!: exI [of _ i])
    from reserve_script_moved [OF ran(4) [OF refl acc] reserve_args_keys this] ran(1,3)
    show ?thesis by (simp add: reserve_arg_of_def)
  qed
qed

text \<open>Reserving takes no slot away.\<close>

lemma reserve_script_grows:
  assumes "\<forall>a\<in>set args. rarg_keys ns a"
  shows "dom (resv ns (V s)) \<subseteq> dom (resv ns (V (snd (res_script ns tick now mx bud tttl cttl args s))))"
proof -
  let ?v' = "V (snd (res_script ns tick now mx bud tttl cttl args s))"
  obtain r s1 where l: "res_loop ns now mx bud cttl args (int (card (dom (resv ns (V s)))))
      (tick_used (kv (V s) (tick_counter_key ns tick))) 0 s = (r, s1)"
    and v': "case r of Inl e \<Rightarrow> res_script ns tick now mx bud tttl cttl args s = (Inl e, s1)
         | Inr (sts, used, newly) \<Rightarrow> fst (res_script ns tick now mx bud tttl cttl args s) = Inr sts
             \<and> ?v' = (if 0 < newly then v_set (tick_counter_key ns tick) (PInt (the used)) (Some tttl) (V s1) else V s1)"
    by (rule reserve_script_run)
  let ?J = "\<lambda>v. dom (resv ns (V s)) \<subseteq> dom (resv ns v)"
  let ?I = "\<lambda>(_::int) (_::int option) (_::int) v. ?J v"
  have "case r of Inl e \<Rightarrow> ?J (V s1)
       | Inr (sts, used', newly') \<Rightarrow> (\<exists>n'. ?I n' used' newly' (V s1)) \<and> length sts = length args \<and> set sts \<subseteq> {1, 2, 3, 4}
           \<and> newly' = 0 + int (count_if (\<lambda>st. st = 1) sts)"
    by (rule reserve_loop_induct [OF l _ assms, of ?I ?J]) (auto simp: v_reserved_sets v_move_sets)
  then have "?J (V s1)" by (auto split: sum.splits)
  with v' show ?thesis by (auto split: sum.splits if_splits)
qed

lemma reserve_jobs_grows:
  assumes "reserve_jobs R ns jobs config ttls tick bud s = (out, s')"
  shows "dom (resv ns (V s)) \<subseteq> dom (resv ns (V s'))"
  using assms
proof (cases rule: reserve_jobs_run)
  case untouched
  then show ?thesis by simp
next
  case (ran s1 now)
  show ?thesis using reserve_script_grows [OF reserve_args_keys, where s = s1] ran(1,3) by simp
qed

text \<open>The tick budget, over one call: the jobs reserved fit in what the tick has left.\<close>

lemma reserve_jobs_tick:
  assumes "reserve_jobs R ns jobs config ttls tick bud s = (Inr sts, s')"
    and "tick_used (kv (V s) (tick_counter_key ns tick)) = Some u0"
  shows "u0 + int (count_if (\<lambda>st. st = RSV_RESERVED) sts) \<le> max u0 (max 1 bud)"
proof (cases "RSV_RESERVED \<in> set sts")
  case False
  then have "filter (\<lambda>st. st = RSV_RESERVED) sts = []" by (auto simp: filter_empty_conv)
  then show ?thesis by simp
next
  case True
  show ?thesis
    using assms(1)
  proof (cases rule: reserve_jobs_run)
    case untouched
    then show ?thesis using True by blast
  next
    case (ran s1 now)
    have "map reservation_status_value (filter (\<lambda>st. st = RSV_RESERVED) sts)
        = filter (\<lambda>i. i = 1) (map reservation_status_value sts)"
      by (induction sts) (auto simp: reservation_enum.code_inject [of _ RSV_RESERVED, simplified])
    then have c: "count_if (\<lambda>st. st = RSV_RESERVED) sts = count_if (\<lambda>i. i = 1) (map reservation_status_value sts)"
      by (metis length_map)
    from reserve_script_tick(1) [OF ran(4) [OF refl True] reserve_args_keys, of u0] ran(1) assms(2)
    show ?thesis unfolding c by simp
  qed
qed

end

end
