(* ===== verification/Reaper.thy ===== *)
theory Reaper
  imports Queue_State
begin

text \<open>
  \<open>dispatch/reaper.py\<close>: \<open>PURGE_JOB_LUA\<close>, discarding a job whose payload is gone or whose
  wait deadline has passed, and the incremental scan that finds such jobs. A pipeline of
  deletions is one round trip.
\<close>

section \<open>The purge script\<close>

definition REAP_CURSOR_TTL_SECONDS :: int where "REAP_CURSOR_TTL_SECONDS = 10 * 60"

text \<open>\<open>HINCRBY -1\<close> of a count field when a member was removed and the field is known.\<close>

definition purge_count_lua :: "'s env \<Rightarrow> string \<Rightarrow> string \<Rightarrow> int \<Rightarrow> 's \<Rightarrow> unit result \<times> 's" where
  "purge_count_lua R counts_key fld removed s =
     (if fld \<noteq> [] \<and> 0 < removed then bump_count R counts_key fld (-1) s else (Inr (), s))"

definition purge_job_lua ::
  "'s env \<Rightarrow> string \<Rightarrow> string \<Rightarrow> string \<Rightarrow> string \<Rightarrow> string \<Rightarrow> string \<Rightarrow> int \<Rightarrow> 's \<Rightarrow> (int \<times> int) result \<times> 's" where
  "purge_job_lua R pending reserved counts_key jid pending_fld reserved_fld ttl s =
     (let (pending_removed, s) = r_zrem R s pending jid;
          (reserved_removed, s) = r_zrem R s reserved jid in
      case purge_count_lua R counts_key pending_fld pending_removed s of
        (Inl e, s) \<Rightarrow> (Inl e, s)
      | (Inr _, s) \<Rightarrow>
          (case purge_count_lua R counts_key reserved_fld reserved_removed s of
             (Inl e, s) \<Rightarrow> (Inl e, s)
           | (Inr _, s) \<Rightarrow>
               (Inr (pending_removed, reserved_removed),
                if 0 < pending_removed \<or> 0 < reserved_removed then r_expire R s counts_key ttl else s)))"

definition purge_job :: "'s env \<Rightarrow> string \<Rightarrow> string \<Rightarrow> string \<Rightarrow> 's \<Rightarrow> (int \<times> int) result \<times> 's" where
  "purge_job R ns jid tk =
     rpc_script R (purge_job_lua R (pending_key ns) (reserved_key ns) (task_counts_key ns) jid
       (if tk = [] then [] else pending_count_field tk) (if tk = [] then [] else reserved_count_field tk)
       TASK_COUNTS_TTL_SECONDS)"

section \<open>Discarding one job\<close>

definition registered_task_keys :: "'s env \<Rightarrow> 's \<Rightarrow> string list \<times> 's" where
  "registered_task_keys R s =
     (case rread R (\<lambda>s. map fst (r_hgetall R s KEY_REGISTERED)) s of
        (Inl _, s) \<Rightarrow> ([], s) | (Inr ks, s) \<Rightarrow> (ks, s))"

text \<open>Purging from every registered queue: the numbers removed, and the namespaces hit.\<close>

fun purge_queues ::
  "'s env \<Rightarrow> string list \<Rightarrow> string \<Rightarrow> string \<Rightarrow> 's \<Rightarrow> (int \<times> int \<times> string list) result \<times> 's" where
  "purge_queues R [] jid tk s = (Inr (0, 0, []), s)"
| "purge_queues R (ns # nss) jid tk s =
     bind_try (purge_job R ns jid tk) (\<lambda>(p, r).
     bind_try (purge_queues R nss jid tk) (\<lambda>(p', r', hits) s.
       (Inr (p + p', r + r', if 0 < p \<or> 0 < r then ns # hits else hits), s))) s"

definition keys_to_delete :: "string \<Rightarrow> string \<Rightarrow> string \<Rightarrow> string \<Rightarrow> string list" where
  "keys_to_delete ns jid tk wid =
     job_key ns jid # (if tk \<noteq> [] \<and> wid \<noteq> [] then [dedupe_key_for_namespace ns tk wid] else [])"

fun delete_keys :: "'s env \<Rightarrow> string list \<Rightarrow> 's \<Rightarrow> int list \<times> 's" where
  "delete_keys R [] s = ([], s)"
| "delete_keys R (k # ks) s =
     (let (n, s) = r_del R s k; (ns, s) = delete_keys R ks s in (n # ns, s))"

text \<open>One pipeline per namespace; whether some job record was deleted.\<close>

fun delete_records :: "'s env \<Rightarrow> string list \<Rightarrow> string \<Rightarrow> string \<Rightarrow> string \<Rightarrow> 's \<Rightarrow> bool result \<times> 's" where
  "delete_records R [] jid tk wid s = (Inr False, s)"
| "delete_records R (ns # nss) jid tk wid s =
     bind_try (rpc R (delete_keys R (keys_to_delete ns jid tk wid))) (\<lambda>results.
     bind_try (delete_records R nss jid tk wid) (\<lambda>deleted s.
       (Inr (0 < hd results \<or> deleted), s))) s"

text \<open>
  \<open>discard_orphaned_job\<close>. \<open>reg\<close> is the queue registry, \<open>uid\<close> the identity of the ephemeral
  class it may create, \<open>q\<close> the queue class it is called with. Creating an ephemeral class
  does not change which real queues are registered.
\<close>

definition discard_body ::
  "'s env \<Rightarrow> queue_registry \<Rightarrow> nat \<Rightarrow> queue_class \<Rightarrow> string \<Rightarrow> string \<Rightarrow> string \<Rightarrow> string \<Rightarrow> outcome_type
     \<Rightarrow> 's \<Rightarrow> unit result \<times> 's" where
  "discard_body R reg uid q jid tk namespace wid outcome s =
     (if namespace \<noteq> [] then
        (case serving_queue uid namespace reg of
           Inl e \<Rightarrow> (Inl e, s)
         | Inr (target, _) \<Rightarrow>
             bind_try (purge_job R (qc_namespace target) jid tk) (\<lambda>(p, r).
             bind_try (delete_records R [qc_namespace target] jid tk wid) (\<lambda>deleted s.
               (Inr (), if tk \<noteq> [] \<and> (0 < p \<or> 0 < r \<or> deleted)
                        then record_outcome R target tk outcome (-1) False s else s))) s)
      else
        bind_try (purge_queues R (map qc_namespace (registered_queues reg)) jid tk) (\<lambda>(p, r, hits).
        bind_try (delete_records R (remdups hits) jid tk wid) (\<lambda>deleted s.
          (Inr (), if tk \<noteq> [] \<and> (0 < p \<or> 0 < r \<or> deleted)
                   then record_outcome R q tk outcome (-1) False s else s))) s)"

definition discard_orphaned_job ::
  "'s env \<Rightarrow> queue_registry \<Rightarrow> nat \<Rightarrow> queue_class \<Rightarrow> string \<Rightarrow> string \<Rightarrow> string \<Rightarrow> string \<Rightarrow> outcome_type
     \<Rightarrow> 's \<Rightarrow> bool \<times> 's" where
  "discard_orphaned_job R reg uid q jid tk namespace wid outcome s =
     (let (tk, s) = (if tk \<noteq> [] then (tk, s)
                     else (let (ks, s) = registered_task_keys R s in (resolve_task_key_from_job_id jid ks, s)));
          (job, s) = get_job R (qc_namespace q) jid s;
          namespace = (case job of None \<Rightarrow> namespace | Some j \<Rightarrow> if namespace \<noteq> [] then namespace else job_namespace j);
          tk = (case job of None \<Rightarrow> tk | Some j \<Rightarrow> if tk \<noteq> [] then tk else task_key j);
          wid = (case job of None \<Rightarrow> wid | Some j \<Rightarrow> if wid \<noteq> [] then wid else work_item_id j);
          wid = (if wid = [] \<and> tk \<noteq> [] then work_item_id_from_job_id jid tk else wid) in
      case discard_body R reg uid q jid tk namespace wid outcome s of
        (Inl _, s) \<Rightarrow> (False, s)
      | (Inr _, s) \<Rightarrow> (True, s))"

section \<open>The incremental scan\<close>

definition read_reap_cursor :: "'s env \<Rightarrow> string \<Rightarrow> 's \<Rightarrow> int \<times> 's" where
  "read_reap_cursor R zkey s =
     (case rread R (\<lambda>s. r_get R s (reap_cursor_key zkey)) s of
        (Inl _, s) \<Rightarrow> (0, s)
      | (Inr None, s) \<Rightarrow> (0, s)
      | (Inr (Some raw), s) \<Rightarrow> (case py_int raw of Inl _ \<Rightarrow> (0, s) | Inr c \<Rightarrow> (c, s)))"

definition write_reap_cursor :: "'s env \<Rightarrow> string \<Rightarrow> int \<Rightarrow> 's \<Rightarrow> 's" where
  "write_reap_cursor R zkey cursor s =
     snd (rwrite R (\<lambda>s. r_set R s (reap_cursor_key zkey) (PStr (str_of_int (max 0 cursor)))
                          (Some REAP_CURSOR_TTL_SECONDS)) s)"

definition clear_reap_cursor :: "'s env \<Rightarrow> string \<Rightarrow> 's \<Rightarrow> 's" where
  "clear_reap_cursor R zkey s = snd (rpc R (\<lambda>s. r_del R s (reap_cursor_key zkey)) s)"

fun discard_orphans ::
  "'s env \<Rightarrow> queue_registry \<Rightarrow> nat \<Rightarrow> queue_class \<Rightarrow> string list \<Rightarrow> string list \<Rightarrow> 's \<Rightarrow> int \<times> 's" where
  "discard_orphans R reg uid q registered [] s = (0, s)"
| "discard_orphans R reg uid q registered (jid # jids) s =
     (let tk = resolve_task_key_from_job_id jid registered;
          (ok, s) = discard_orphaned_job R reg uid q jid tk (qc_namespace q) (work_item_id_from_job_id jid tk) EXPIRED s;
          (n, s) = discard_orphans R reg uid q registered jids s
      in (if ok then n + 1 else n, s))"

text \<open>One page: the next cursor, the members looked at, and how many were discarded.\<close>

definition reap_page ::
  "'s env \<Rightarrow> queue_registry \<Rightarrow> nat \<Rightarrow> queue_class \<Rightarrow> string list \<Rightarrow> string \<Rightarrow> int \<Rightarrow> int \<Rightarrow> 's
     \<Rightarrow> (int \<times> int \<times> int) result \<times> 's" where
  "reap_page R reg uid q registered zkey cursor room s =
     bind_try (rread R (\<lambda>s. r_zscan R s zkey cursor 100)) (\<lambda>(cursor, members).
       (let jids = take (nat (max 0 room)) members in
        bind_try (if jids = [] then (\<lambda>s. (Inr [], s))
                  else rread R (\<lambda>s. map (\<lambda>jid. (jid, r_get R s (job_key (qc_namespace q) jid))) jids)) (\<lambda>payloads s.
          (let orphans = map fst (filter (\<lambda>(jid, raw). case raw of None \<Rightarrow> True | Some v \<Rightarrow> \<not> py_truthy v) payloads);
               (n, s) = discard_orphans R reg uid q registered orphans s
           in (Inr (cursor, int (length jids), n), s))))) s"

text \<open>
  The loop over one sorted set: how many were discarded, and whether the deadline ended the
  whole call. \<open>None\<close>: \<open>fuel\<close> pages were not enough.
\<close>

fun reap_scan ::
  "nat \<Rightarrow> 's env \<Rightarrow> queue_registry \<Rightarrow> nat \<Rightarrow> queue_class \<Rightarrow> string list \<Rightarrow> string \<Rightarrow> int \<Rightarrow> real option
     \<Rightarrow> int \<Rightarrow> int \<Rightarrow> 's \<Rightarrow> ((int \<times> bool) \<times> 's) option" where
  "reap_scan 0 R reg uid q registered zkey limit deadline cursor scanned s = None"
| "reap_scan (Suc fuel) R reg uid q registered zkey limit deadline cursor scanned s =
     (if \<not> scanned < limit then Some ((0, False), write_reap_cursor R zkey cursor s)
      else
        (let (expired, s) = (case deadline of
                               None \<Rightarrow> (False, s)
                             | Some d \<Rightarrow> (let (t, s) = mono R s in (d \<le> t, s))) in
         if expired then Some ((0, True), write_reap_cursor R zkey cursor s)
         else
           (case reap_page R reg uid q registered zkey cursor (limit - scanned) s of
              (Inl _, s) \<Rightarrow> Some ((0, False), s)
            | (Inr (cursor, seen, n), s) \<Rightarrow>
                if cursor = 0 then Some ((n, False), clear_reap_cursor R zkey s)
                else map_option (\<lambda>((m, early), s). ((n + m, early), s))
                       (reap_scan fuel R reg uid q registered zkey limit deadline cursor (scanned + seen) s))))"

definition reap_orphaned_queue_jobs ::
  "nat \<Rightarrow> 's env \<Rightarrow> queue_registry \<Rightarrow> nat \<Rightarrow> queue_class \<Rightarrow> int \<Rightarrow> real option \<Rightarrow> 's \<Rightarrow> (int \<times> 's) option" where
  "reap_orphaned_queue_jobs fuel R reg uid q limit deadline s =
     (let (registered, s) = registered_task_keys R s;
          (cursor, s) = read_reap_cursor R (pending_key (qc_namespace q)) s in
      case reap_scan fuel R reg uid q registered (pending_key (qc_namespace q)) limit deadline cursor 0 s of
        None \<Rightarrow> None
      | Some ((n, True), s) \<Rightarrow> Some (n, s)
      | Some ((n, False), s) \<Rightarrow>
          (let (cursor, s) = read_reap_cursor R (reserved_key (qc_namespace q)) s in
           map_option (\<lambda>((m, _), s). (n + m, s))
             (reap_scan fuel R reg uid q registered (reserved_key (qc_namespace q)) limit deadline cursor 0 s)))"

section \<open>What a purge does\<close>

text \<open>Both sorted sets lose the job, whatever becomes of the counters.\<close>

definition v_purge :: "string \<Rightarrow> string \<Rightarrow> view \<Rightarrow> view" where
  "v_purge ns jid v = v_zrem (reserved_key ns) jid (v_zrem (pending_key ns) jid v)"

lemma v_purge_sets [simp]:
  "pend ns (v_purge ns jid v) = (pend ns v)(jid := None)" "resv ns (v_purge ns jid v) = (resv ns v)(jid := None)"
  "hash_int (v_purge ns jid v) = hash_int v" "kv (v_purge ns jid v) = kv v"
  by (simp_all add: v_purge_def)

text \<open>The counter updates of one purge, on the store.\<close>

definition v_purge_count :: "string \<Rightarrow> string \<Rightarrow> bool \<Rightarrow> view \<Rightarrow> view" where
  "v_purge_count ns fld removed v = (if fld \<noteq> [] \<and> removed then v_bump (task_counts_key ns) fld (-1) v else v)"

lemma v_purge_count_sets [simp]:
  "zs (v_purge_count ns fld removed v) = zs v" "kv (v_purge_count ns fld removed v) = kv v"
  by (simp_all add: v_purge_count_def)

section \<open>How much of the store a discard and a scan may change\<close>

text \<open>What the discard of one job may change in the store: membership and record of that job
  only, and dedupe markers and counters.\<close>

definition only_job :: "string \<Rightarrow> string \<Rightarrow> view \<Rightarrow> view \<Rightarrow> bool" where
  "only_job ns jid v v' \<longleftrightarrow>
     (pend ns v' = pend ns v \<or> pend ns v' = (pend ns v)(jid := None))
     \<and> (resv ns v' = resv ns v \<or> resv ns v' = (resv ns v)(jid := None))
     \<and> (\<forall>j. kv v' (job_key ns j) = kv v (job_key ns j) \<or> j = jid \<and> kv v' (job_key ns j) = None)"

lemma only_job_refl [simp]: "only_job ns jid v v"
  by (simp add: only_job_def)

lemma only_job_trans: "only_job ns jid u v \<Longrightarrow> only_job ns jid v w \<Longrightarrow> only_job ns jid u w"
  unfolding only_job_def by (metis fun_upd_upd)

lemma only_job_same:
  "same_at (queue_keys ns) v v' \<Longrightarrow> only_job ns jid v v'"
  by (simp add: only_job_def same_at_def)

text \<open>Gone: in neither sorted set and without a record.\<close>

definition job_gone :: "string \<Rightarrow> string \<Rightarrow> view \<Rightarrow> bool" where
  "job_gone ns jid v \<longleftrightarrow> pend ns v jid = None \<and> resv ns v jid = None \<and> kv v (job_key ns jid) = None"

text \<open>A store in which the reaper went by: members may have left the sorted sets, and a job
  with a payload is exactly where it was.\<close>

definition live_job :: "string \<Rightarrow> string \<Rightarrow> view \<Rightarrow> bool" where
  "live_job ns jid v \<longleftrightarrow> (case kv v (job_key ns jid) of None \<Rightarrow> False | Some raw \<Rightarrow> py_truthy raw)"

definition reaped_from :: "string \<Rightarrow> view \<Rightarrow> view \<Rightarrow> bool" where
  "reaped_from ns v v' \<longleftrightarrow>
     pend ns v' \<subseteq>\<^sub>m pend ns v \<and> resv ns v' \<subseteq>\<^sub>m resv ns v
     \<and> (\<forall>jid. live_job ns jid v \<longrightarrow> pend ns v' jid = pend ns v jid \<and> resv ns v' jid = resv ns v jid
               \<and> kv v' (job_key ns jid) = kv v (job_key ns jid))"

lemma reaped_from_refl [simp]: "reaped_from ns v v"
  by (simp add: reaped_from_def)

lemma reaped_from_trans: "reaped_from ns u v \<Longrightarrow> reaped_from ns v w \<Longrightarrow> reaped_from ns u w"
  by (auto simp: reaped_from_def live_job_def intro: map_le_trans)

lemma reaped_from_same: "same_at (queue_keys ns) v v' \<Longrightarrow> reaped_from ns v v'"
  by (simp add: reaped_from_def same_at_def)

lemma reaped_from_only:
  assumes "only_job ns jid v v'" and "\<not> live_job ns jid v"
  shows "reaped_from ns v v'"
proof -
  have "j \<noteq> jid" if "live_job ns j v" for j using that assms(2) by auto
  with assms(1) show ?thesis
    unfolding reaped_from_def only_job_def by (auto simp: map_le_def split: if_splits)
qed

lemma only_job_live: "only_job ns j v v' \<Longrightarrow> \<not> live_job ns jid v \<Longrightarrow> \<not> live_job ns jid v'"
  unfolding only_job_def live_job_def by (metis option.case(1))

lemma keys_to_delete_mem:
  "ns \<noteq> [] \<Longrightarrow> set (keys_to_delete ns jid tk wid) \<subseteq> {job_key ns jid} \<union> {dedupe_key ns x y |x y. True}"
  by (auto simp: keys_to_delete_def dedupe_key_for_namespace_def)

section \<open>The purge script on the store\<close>

context redis
begin

lemma purge_count_V [simp]: "V (snd (purge_count_lua R (task_counts_key ns) fld n s)) = v_purge_count ns fld (0 < n) (V s)"
  by (simp add: purge_count_lua_def v_purge_count_def)

lemma purge_count_Inl:
  "fst (purge_count_lua R (task_counts_key ns) fld n s) = Inl e \<Longrightarrow>
     fld \<noteq> [] \<and> 0 < n \<and> hash_int (V s) (task_counts_key ns) fld = None"
  by (auto simp: purge_count_lua_def bump_ok split: option.splits if_splits)

abbreviation purge_script :: "string \<Rightarrow> string \<Rightarrow> string \<Rightarrow> string \<Rightarrow> int \<Rightarrow> 's \<Rightarrow> (int \<times> int) result \<times> 's" where
  "purge_script ns \<equiv> purge_job_lua R (pending_key ns) (reserved_key ns) (task_counts_key ns)"

lemma purge_script_cases:
  defines "p \<equiv> \<lambda>s jid ns. pend ns (V s) jid \<noteq> None" and "r \<equiv> \<lambda>s jid ns. resv ns (V s) jid \<noteq> None"
  obtains (ran) "fst (purge_script ns jid pf rf ttl s) = Inr (if p s jid ns then 1 else 0, if r s jid ns then 1 else 0)"
      "V (snd (purge_script ns jid pf rf ttl s)) =
         (if p s jid ns \<or> r s jid ns
          then v_expire (task_counts_key ns) ttl
                 (v_purge_count ns rf (r s jid ns) (v_purge_count ns pf (p s jid ns) (v_purge ns jid (V s))))
          else v_purge ns jid (V s))"
  | (half) e where "fst (purge_script ns jid pf rf ttl s) = Inl e"
      "V (snd (purge_script ns jid pf rf ttl s)) = v_purge_count ns pf (p s jid ns) (v_purge ns jid (V s))"
      "pf \<noteq> [] \<and> p s jid ns \<and> hash_int (V s) (task_counts_key ns) pf = None
       \<or> rf \<noteq> [] \<and> r s jid ns \<and> hash_int (v_purge_count ns pf (p s jid ns) (v_purge ns jid (V s))) (task_counts_key ns) rf = None"
proof -
  let ?z1 = "r_zrem R s (pending_key ns) jid"
  let ?z2 = "r_zrem R (snd ?z1) (reserved_key ns) jid"
  let ?c1 = "purge_count_lua R (task_counts_key ns) pf (fst ?z1) (snd ?z2)"
  let ?c2 = "purge_count_lua R (task_counts_key ns) rf (fst ?z2) (snd ?c1)"
  have run: "purge_script ns jid pf rf ttl s =
      (case fst ?c1 of Inl e \<Rightarrow> (Inl e, snd ?c1)
       | Inr _ \<Rightarrow> (case fst ?c2 of Inl e \<Rightarrow> (Inl e, snd ?c2)
                 | Inr _ \<Rightarrow> (Inr (fst ?z1, fst ?z2),
                      if 0 < fst ?z1 \<or> 0 < fst ?z2 then r_expire R (snd ?c2) (task_counts_key ns) ttl else snd ?c2)))"
    unfolding purge_job_lua_def Let_def case_prod_beta by (simp split: sum.split)
  have n: "fst ?z1 = (if p s jid ns then 1 else 0)" "fst ?z2 = (if r s jid ns then 1 else 0)"
    by (simp_all add: p_def r_def)
  have V2: "V (snd ?z2) = v_purge ns jid (V s)" by (simp add: v_purge_def)
  have Vc1: "V (snd ?c1) = v_purge_count ns pf (p s jid ns) (v_purge ns jid (V s))"
    unfolding purge_count_V V2 n by simp
  have Vc2: "V (snd ?c2) = v_purge_count ns rf (r s jid ns) (v_purge_count ns pf (p s jid ns) (v_purge ns jid (V s)))"
    unfolding purge_count_V V2 n by simp
  show ?thesis
  proof (cases "fst ?c1")
    case (Inl e)
    have "pf \<noteq> [] \<and> p s jid ns \<and> hash_int (V s) (task_counts_key ns) pf = None"
      using purge_count_Inl [OF Inl] unfolding V2 n by (simp split: if_splits)
    then show ?thesis using Inl Vc1 by (intro half [of e]) (simp_all add: run)
  next
    case c1: (Inr u)
    show ?thesis
    proof (cases "fst ?c2")
      case (Inl e)
      have *: "rf \<noteq> [] \<and> r s jid ns \<and> hash_int (V (snd ?c1)) (task_counts_key ns) rf = None"
        using purge_count_Inl [OF Inl] unfolding n by (simp split: if_splits)
      then have "V (snd ?c2) = V (snd ?c1)"
        unfolding Vc1 Vc2 by (simp add: v_purge_count_def v_bump_def)
      then show ?thesis using * Inl Vc1 c1 by (intro half [of e]) (simp_all add: run)
    next
      case (Inr w)
      show ?thesis
      proof (rule ran)
        show "fst (purge_script ns jid pf rf ttl s) = Inr (if p s jid ns then 1 else 0, if r s jid ns then 1 else 0)"
          unfolding run unfolding c1 Inr sum.case fst_conv unfolding n by (rule refl)
        show "V (snd (purge_script ns jid pf rf ttl s)) =
           (if p s jid ns \<or> r s jid ns
            then v_expire (task_counts_key ns) ttl
                   (v_purge_count ns rf (r s jid ns) (v_purge_count ns pf (p s jid ns) (v_purge ns jid (V s))))
            else v_purge ns jid (V s))"
          unfolding run unfolding c1 Inr sum.case snd_conv if_distrib [of V] law_expire Vc2 unfolding n
          by (simp add: v_purge_count_def)
      qed
    qed
  qed
qed

lemma purge_script_sets:
  "pend ns (V (snd (purge_script ns jid pf rf ttl s))) = (pend ns (V s))(jid := None)"
  "resv ns (V (snd (purge_script ns jid pf rf ttl s))) = (resv ns (V s))(jid := None)"
  "kv (V (snd (purge_script ns jid pf rf ttl s))) = kv (V s)"
  by (cases rule: purge_script_cases [where ns = ns and jid = jid and pf = pf and rf = rf and ttl = ttl and s = s]; simp)+

lemma purge_script_frame:
  assumes "A \<inter> queue_keys ns = {}"
  shows "same_at A (V s) (V (snd (purge_script ns jid pf rf ttl s)))"
proof -
  have "pending_key ns \<notin> A" "reserved_key ns \<notin> A" "task_counts_key ns \<notin> A"
    using assms queue_keys_mem by blast+
  then show ?thesis
    by (cases rule: purge_script_cases [where ns = ns and jid = jid and pf = pf and rf = rf and ttl = ttl and s = s])
       (simp_all add: v_purge_def v_purge_count_def frame_simps)
qed

text \<open>With the job's own task key a purge keeps the invariant.\<close>

lemma purge_script_inv:
  assumes inv: "queue_inv owner ns (V s)" and tk: "owner jid = tk" "tk \<noteq> []"
  shows "queue_inv owner ns (V (snd (purge_script ns jid (pending_count_field tk) (reserved_count_field tk) ttl s)))"
proof -
  let ?pf = "pending_count_field tk" and ?rf = "reserved_count_field tk"
  let ?v' = "V (snd (purge_script ns jid ?pf ?rf ttl s))"
  let ?p = "pend ns (V s) jid \<noteq> None" and ?r = "resv ns (V s) jid \<noteq> None"
  from inv have dis: "slots_disjoint ns (V s)" and cnt: "counts_ok owner ns (V s)" by (simp_all add: queue_inv_def)
  have dis': "slots_disjoint ns ?v'"
    using dis by (auto simp: slots_disjoint_def purge_script_sets)
  note f = counts_ok_field [OF cnt tk(2)]
  have v': "?v' = (if ?p \<or> ?r
      then v_expire (task_counts_key ns) ttl (v_purge_count ns ?rf ?r (v_purge_count ns ?pf ?p (v_purge ns jid (V s))))
      else v_purge ns jid (V s))"
  proof (cases rule: purge_script_cases [where ns = ns and jid = jid and pf = ?pf and rf = ?rf and ttl = ttl and s = s])
    case ran
    show ?thesis by (rule ran(2))
  next
    case (half e)
    have "hash_int (v_purge_count ns ?pf ?p (v_purge ns jid (V s))) (task_counts_key ns) ?rf \<noteq> None"
      using f hash_int_bump [of "v_purge ns jid (V s)" "task_counts_key ns" ?pf _ "-1" ?rf]
      by (simp add: v_purge_count_def)
    with half(3) f show ?thesis by simp
  qed
  consider "?p" "\<not> ?r" | "\<not> ?p" "?r" | "\<not> ?p" "\<not> ?r"
    using dis by (auto simp: slots_disjoint_def)
  then have "counts_ok owner ns ?v'"
  proof cases
    case 1
    let ?w = "v_bump (task_counts_key ns) ?pf (-1) (v_zrem (pending_key ns) jid (V s))"
    have w: "counts_ok owner ns ?w" using drop_pending_counts [OF cnt _ 1(1) tk] by simp
    have h: "hash_int (v_purge ns jid (V s)) (task_counts_key ns) ?pf = Some (int (count_dom (\<lambda>j. owner j = tk) (pend ns (V s))))"
      "hash_int (v_zrem (pending_key ns) jid (V s)) (task_counts_key ns) ?pf = Some (int (count_dom (\<lambda>j. owner j = tk) (pend ns (V s))))"
      using f(1) by simp_all
    have "counts_ok owner ns ?v' = counts_ok owner ns ?w"
      by (rule counts_ok_cong)
         (use 1 in \<open>auto simp: v' v_purge_count_def fun_eq_iff hash_int_bump [OF h(1)] hash_int_bump [OF h(2)]\<close>)
    with w show ?thesis by simp
  next
    case 2
    let ?w = "v_bump (task_counts_key ns) ?rf (-1) (v_zrem (reserved_key ns) jid (V s))"
    have w: "counts_ok owner ns ?w" using drop_reserved_counts [OF cnt _ 2(2) tk] by simp
    have h: "hash_int (v_purge ns jid (V s)) (task_counts_key ns) ?rf = Some (int (count_dom (\<lambda>j. owner j = tk) (resv ns (V s))))"
      "hash_int (v_zrem (reserved_key ns) jid (V s)) (task_counts_key ns) ?rf = Some (int (count_dom (\<lambda>j. owner j = tk) (resv ns (V s))))"
      using f(2) by simp_all
    have "counts_ok owner ns ?v' = counts_ok owner ns ?w"
      by (rule counts_ok_cong)
         (use 2 in \<open>auto simp: v' v_purge_count_def fun_eq_iff hash_int_bump [OF h(1)] hash_int_bump [OF h(2)]\<close>)
    with w show ?thesis by simp
  next
    case 3
    have "counts_ok owner ns ?v' = counts_ok owner ns (V s)"
      by (rule counts_ok_cong) (use 3 in \<open>auto simp: v' fun_eq_iff\<close>)
    with cnt show ?thesis by simp
  qed
  with dis' show ?thesis by (simp add: queue_inv_def)
qed

section \<open>What a discard does\<close>

lemma purge_job_inv:
  "queue_inv owner ns (V s) \<Longrightarrow> owner jid = tk \<Longrightarrow> tk \<noteq> [] \<Longrightarrow> queue_inv owner ns (V (snd (purge_job R ns jid tk s)))"
  unfolding purge_job_def
  by (rule rpc_script_invariant) (simp_all add: purge_script_inv)

lemma purge_job_frame:
  assumes "A \<inter> queue_keys ns = {}"
  shows "same_at A (V s) (V (snd (purge_job R ns jid tk s)))"
  unfolding purge_job_def by (rule frame_rpc_script) (rule purge_script_frame [OF assms])

lemma purge_job_only: "only_job ns jid (V s) (V (snd (purge_job R ns jid tk s)))"
  unfolding purge_job_def
  by (rule rpc_script_invariant [where I = "only_job ns jid (V s)"]) (auto simp: only_job_def purge_script_sets)

lemma delete_keys_frame:
  "set ks \<inter> A = {} \<Longrightarrow> same_at A (V s) (V (snd (delete_keys R ks s)))"
proof (induction ks arbitrary: s)
  case (Cons k ks)
  let ?s1 = "snd (r_del R s k)"
  have "same_at A (V s) (V ?s1)" using Cons.prems by (simp add: frame_simps)
  moreover have "same_at A (V ?s1) (V (snd (delete_keys R ks ?s1)))"
    by (rule Cons.IH) (use Cons.prems in auto)
  ultimately have "same_at A (V s) (V (snd (delete_keys R ks ?s1)))" by (rule same_at_trans)
  then show ?case by (simp add: case_prod_beta Let_def)
qed simp

lemma delete_keys_kv:
  "kv (V (snd (delete_keys R ks s))) k = (if k \<in> set ks then None else kv (V s) k)"
  by (induction ks arbitrary: s) (auto simp: case_prod_beta Let_def v_del_def)

lemma delete_keys_only:
  assumes "ns \<noteq> []"
  shows "only_job ns jid (V s) (V (snd (delete_keys R (keys_to_delete ns jid tk wid) s)))"
proof -
  have "job_key ns j \<in> set (keys_to_delete ns jid tk wid) \<longleftrightarrow> j = jid" for j
    using assms by (auto simp: keys_to_delete_def dedupe_key_for_namespace_def)
  moreover have "set (keys_to_delete ns jid tk wid) \<inter> {pending_key ns, reserved_key ns} = {}"
    using keys_to_delete_mem [OF assms, of jid tk wid] by auto
  ultimately show ?thesis
    using delete_keys_frame [of "keys_to_delete ns jid tk wid" "{pending_key ns, reserved_key ns}" s]
    by (auto simp: only_job_def same_at_def delete_keys_kv)
qed

lemma delete_records_only:
  assumes "ns \<noteq> []"
  shows "only_job ns jid (V s) (V (snd (delete_records R [ns] jid tk wid s)))"
proof -
  have "only_job ns jid (V s) (V (snd (rpc R (delete_keys R (keys_to_delete ns jid tk wid)) s)))"
    by (rule rpc_invariant [where I = "only_job ns jid (V s)"]) (simp, metis delete_keys_only [OF assms])
  then show ?thesis
    by (auto simp: bind_try_def case_prod_beta split: sum.split)
qed

lemma record_outcome_only:
  "qc_namespace q = ns \<Longrightarrow> only_job ns jid (V s) (V (record_outcome R q tk outcome elapsed fin s))"
  unfolding record_outcome_def
  by (intro only_job_same frame_record_task_outcome) (simp add: metrics_keys_queue)

lemma record_outcome_queue:
  "qc_namespace q = ns \<Longrightarrow> same_at (queue_keys ns) (V s) (V (record_outcome R q tk outcome elapsed fin s))"
  unfolding record_outcome_def
  by (intro frame_record_task_outcome) (simp add: metrics_keys_queue)

lemma delete_first_record:
  assumes "rpc R (delete_keys R (keys_to_delete ns jid tk wid)) s = (Inr results, s')" and "ns \<noteq> []"
  shows "kv (V s') (job_key ns jid) = None \<and> pend ns (V s') = pend ns (V s) \<and> resv ns (V s') = resv ns (V s)"
proof -
  from assms(1) obtain s1 where V1: "V s1 = V s" and d: "delete_keys R (keys_to_delete ns jid tk wid) s1 = (results, s')"
    by (rule rpc_Inr)
  let ?r = "if tk \<noteq> [] \<and> wid \<noteq> [] then [dedupe_key_for_namespace ns tk wid] else []"
  have s': "s' = snd (delete_keys R ?r (snd (r_del R s1 (job_key ns jid))))"
    using d by (simp add: keys_to_delete_def case_prod_beta Let_def split: if_splits)
  have "set ?r \<inter> {job_key ns jid, pending_key ns, reserved_key ns} = {}"
    using assms(2) by (auto simp: dedupe_key_for_namespace_def)
  from delete_keys_frame [OF this, of "snd (r_del R s1 (job_key ns jid))"]
  show ?thesis unfolding s' by (auto simp: same_at_def V1 v_del_def)
qed

lemma discard_body_target:
  assumes reg: "\<forall>(k, p)\<in>set reg. qc_namespace p = k" and ns: "ns \<noteq> []"
  shows "only_job ns jid (V s) (V (snd (discard_body R reg uid q jid tk ns wid outcome s)))"
    and "fst (discard_body R reg uid q jid tk ns wid outcome s) = Inr () \<Longrightarrow>
           job_gone ns jid (V (snd (discard_body R reg uid q jid tk ns wid outcome s)))"
proof -
  have "only_job ns jid (V s) (V (snd (discard_body R reg uid q jid tk ns wid outcome s)))
    \<and> (fst (discard_body R reg uid q jid tk ns wid outcome s) = Inr () \<longrightarrow>
           job_gone ns jid (V (snd (discard_body R reg uid q jid tk ns wid outcome s))))"
  proof (cases "serving_queue uid ns reg")
    case (Inl e)
    then show ?thesis using ns by (simp add: discard_body_def)
  next
    case (Inr tr)
    obtain target reg' where tr: "tr = (target, reg')" by (cases tr)
    have tns: "qc_namespace target = ns" using serving_queue_namespace [OF Inr [unfolded tr] ns reg] .
    obtain pr s1 where p: "purge_job R ns jid tk s = (pr, s1)" by force
    have only1: "only_job ns jid (V s) (V s1)" using purge_job_only [of ns jid s tk] p by simp
    show ?thesis
    proof (cases pr)
      case (Inl e)
      then show ?thesis using \<open>serving_queue uid ns reg = Inr tr\<close> tr tns ns p only1 by (simp add: discard_body_def)
    next
      case pr: (Inr x)
      obtain pn rn where x: "x = (pn, rn)" by (cases x)
      obtain d s2 where d: "delete_records R [ns] jid tk wid s1 = (d, s2)" by force
      have only2: "only_job ns jid (V s) (V s2)"
        using delete_records_only [OF ns, of jid s1 tk wid] d only1 by (auto intro: only_job_trans)
      show ?thesis
      proof (cases d)
        case (Inl e)
        then show ?thesis using \<open>serving_queue uid ns reg = Inr tr\<close> tr tns ns p pr x d only2
          by (simp add: discard_body_def)
      next
        case (Inr b)
        define s3 where "s3 = (if tk \<noteq> [] \<and> (0 < pn \<or> 0 < rn \<or> b) then record_outcome R target tk outcome (-1) False s2 else s2)"
        have run: "discard_body R reg uid q jid tk ns wid outcome s = (Inr (), s3)"
          using \<open>serving_queue uid ns reg = Inr tr\<close> tr tns ns p pr x d Inr by (simp add: discard_body_def s3_def)
        have same: "same_at (queue_keys ns) (V s2) (V s3)"
          using record_outcome_queue [OF tns] by (simp add: s3_def)
        then have only3: "only_job ns jid (V s) (V s3)" using only2 by (blast intro: only_job_trans only_job_same)
        from p pr x obtain s0 where V0: "V s0 = V s" and s0: "s1 = snd (purge_script ns jid
            (if tk = [] then [] else pending_count_field tk) (if tk = [] then [] else reserved_count_field tk)
            TASK_COUNTS_TTL_SECONDS s0)"
          unfolding purge_job_def by (auto elim!: rpc_script_Inr)
        from d Inr obtain results s4 where del: "rpc R (delete_keys R (keys_to_delete ns jid tk wid)) s1 = (Inr results, s4)"
          and s4: "s4 = s2" by (auto simp: bind_try_def split: sum.splits prod.splits)
        from delete_first_record [OF del ns] have "job_gone ns jid (V s2)"
          unfolding job_gone_def s4 s0 by (simp add: purge_script_sets)
        then have "job_gone ns jid (V s3)" using same by (simp add: job_gone_def same_at_def)
        with only3 run show ?thesis by simp
      qed
    qed
  qed
  then show "only_job ns jid (V s) (V (snd (discard_body R reg uid q jid tk ns wid outcome s)))"
    and "fst (discard_body R reg uid q jid tk ns wid outcome s) = Inr () \<Longrightarrow>
           job_gone ns jid (V (snd (discard_body R reg uid q jid tk ns wid outcome s)))" by blast+
qed

lemma registered_task_keys_V [simp]: "V (snd (registered_task_keys R s)) = V s"
  by (simp add: registered_task_keys_def case_prod_beta split: sum.split)

text \<open>
  Discarding in a known namespace: nothing but the one job is touched, and an answer of True
  means that the job is gone.
\<close>

lemma discard_orphaned_job_target:
  assumes reg: "\<forall>(k, p)\<in>set reg. qc_namespace p = k" and ns: "ns \<noteq> []"
    and run: "discard_orphaned_job R reg uid q jid tk ns wid outcome s = (ok, s')"
  shows "only_job ns jid (V s) (V s')" and "ok \<Longrightarrow> job_gone ns jid (V s')"
proof -
  obtain tk1 s1 where 1: "(if tk \<noteq> [] then (tk, s)
      else (let (ks, s) = registered_task_keys R s in (resolve_task_key_from_job_id jid ks, s))) = (tk1, s1)" by force
  have V1: "V s1 = V s" using 1 registered_task_keys_V [of s] by (auto simp: case_prod_beta Let_def split: if_splits)
  obtain job s2 where 2: "get_job R (qc_namespace q) jid s1 = (job, s2)" by force
  have V2: "V s2 = V s" using get_job_V [of "qc_namespace q" jid s1] 2 V1 by simp
  define tk2 where "tk2 = (case job of None \<Rightarrow> tk1 | Some j \<Rightarrow> if tk1 \<noteq> [] then tk1 else task_key j)"
  define wid1 where "wid1 = (case job of None \<Rightarrow> wid | Some j \<Rightarrow> if wid \<noteq> [] then wid else work_item_id j)"
  define wid2 where "wid2 = (if wid1 = [] \<and> tk2 \<noteq> [] then work_item_id_from_job_id jid tk2 else wid1)"
  have nsj: "(case job of None \<Rightarrow> ns | Some j \<Rightarrow> if ns \<noteq> [] then ns else job_namespace j) = ns"
    using ns by (simp split: option.split)
  have body: "(case discard_body R reg uid q jid tk2 ns wid2 outcome s2 of (Inl _, s) \<Rightarrow> (False, s) | (Inr _, s) \<Rightarrow> (True, s))
      = (ok, s')"
    using run unfolding discard_orphaned_job_def Let_def 1 [unfolded Let_def] 2 prod.case nsj tk2_def wid2_def wid1_def
    by assumption
  let ?b = "discard_body R reg uid q jid tk2 ns wid2 outcome s2"
  note B = discard_body_target [OF reg ns, where jid = jid and s = s2 and uid = uid and q = q and tk = tk2 and wid = wid2
      and outcome = outcome]
  from body have s': "s' = snd ?b" and ok: "ok \<Longrightarrow> fst ?b = Inr ()"
    by (auto simp: case_prod_beta split: sum.splits)
  show "only_job ns jid (V s) (V s')" using B(1) V2 s' by simp
  show "ok \<Longrightarrow> job_gone ns jid (V s')" using B(2) ok s' by simp
qed

text \<open>The invariants of the queue survive a discard that knows the task key.\<close>

lemma delete_records_core:
  assumes "ns \<noteq> []"
  shows "same_at (core_keys ns) (V s) (V (snd (delete_records R [ns] jid tk wid s)))"
proof -
  have "set (keys_to_delete ns jid tk wid) \<inter> core_keys ns = {}"
    using keys_to_delete_mem [OF assms, of jid tk wid] by (auto simp: core_keys_def)
  then have "same_at (core_keys ns) (V s) (V (snd (rpc R (delete_keys R (keys_to_delete ns jid tk wid)) s)))"
    by (intro frame_rpc delete_keys_frame)
  then show ?thesis by (auto simp: bind_try_def case_prod_beta split: sum.split)
qed

lemma discard_body_inv:
  assumes reg: "\<forall>(k, p)\<in>set reg. qc_namespace p = k" and ns: "ns \<noteq> []"
    and inv: "queue_inv owner ns (V s)" and tk: "owner jid = tk" "tk \<noteq> []"
  shows "queue_inv owner ns (V (snd (discard_body R reg uid q jid tk ns wid outcome s)))"
proof (cases "serving_queue uid ns reg")
  case (Inl e)
  then show ?thesis using ns inv by (simp add: discard_body_def)
next
  case (Inr tr)
  obtain target reg' where tr: "tr = (target, reg')" by (cases tr)
  have tns: "qc_namespace target = ns" using serving_queue_namespace [OF Inr [unfolded tr] ns reg] .
  let ?I = "\<lambda>s. queue_inv owner ns (V s)"
  have rec: "?I t \<Longrightarrow> ?I (record_outcome R target tk outcome e b t)" for e b t
    using queue_inv_core(1) [OF same_at_mono [OF record_outcome_queue [OF tns] core_keys_subset]] by blast
  have del: "?I t \<Longrightarrow> ?I (snd (delete_records R [ns] jid tk wid t))" for t
    using queue_inv_core(1) [OF delete_records_core [OF ns]] by blast
  have "?I (snd (bind_try (purge_job R ns jid tk) (\<lambda>(p, r).
             bind_try (delete_records R [ns] jid tk wid) (\<lambda>deleted s.
               (Inr (), if tk \<noteq> [] \<and> (0 < p \<or> 0 < r \<or> deleted)
                        then record_outcome R target tk outcome (-1) False s else s))) s))"
    unfolding case_prod_beta
    by (intro bind_try_keeps [where P = ?I]) (use purge_job_inv [OF inv tk] rec del in simp_all)
  then show ?thesis
    unfolding discard_body_def using ns Inr tr tns by simp
qed

lemma discard_orphaned_job_inv:
  assumes reg: "\<forall>(k, p)\<in>set reg. qc_namespace p = k" and ns: "ns \<noteq> []"
    and inv: "queue_inv owner ns (V s)" and tk: "owner jid = tk" "tk \<noteq> []"
  shows "queue_inv owner ns (V (snd (discard_orphaned_job R reg uid q jid tk ns wid outcome s)))"
proof -
  obtain job s2 where 2: "get_job R (qc_namespace q) jid s = (job, s2)" by force
  have V2: "V s2 = V s" using get_job_V [of "qc_namespace q" jid s] 2 by simp
  define wid1 where "wid1 = (case job of None \<Rightarrow> wid | Some j \<Rightarrow> if wid \<noteq> [] then wid else work_item_id j)"
  define wid2 where "wid2 = (if wid1 = [] \<and> tk \<noteq> [] then work_item_id_from_job_id jid tk else wid1)"
  have j: "(case job of None \<Rightarrow> ns | Some j \<Rightarrow> if ns \<noteq> [] then ns else job_namespace j) = ns"
    "(case job of None \<Rightarrow> tk | Some j \<Rightarrow> tk) = tk"
    using ns by (simp_all split: option.split)
  have "snd (discard_orphaned_job R reg uid q jid tk ns wid outcome s) = snd (discard_body R reg uid q jid tk ns wid2 outcome s2)"
    unfolding discard_orphaned_job_def Let_def if_P [OF tk(2)] prod.case 2 j wid1_def [symmetric] wid2_def [symmetric]
    by (simp add: case_prod_beta split: sum.split)
  moreover from inv V2 have "queue_inv owner ns (V s2)" by simp
  note discard_body_inv [OF reg ns this tk, where uid = uid and q = q and wid = wid2 and outcome = outcome]
  ultimately show ?thesis by simp
qed

text \<open>A discard in a known namespace stays within the keys of that namespace.\<close>

lemma delete_records_frame:
  assumes "ns \<noteq> []" and "A \<inter> queue_keys ns = {}"
  shows "same_at A (V s) (V (snd (delete_records R [ns] jid tk wid s)))"
proof -
  have "set (keys_to_delete ns jid tk wid) \<subseteq> queue_keys ns"
    using keys_to_delete_mem [OF assms(1), of jid tk wid] by auto
  then have "set (keys_to_delete ns jid tk wid) \<inter> A = {}" using assms(2) by blast
  then have "same_at A (V s) (V (snd (rpc R (delete_keys R (keys_to_delete ns jid tk wid)) s)))"
    by (intro frame_rpc delete_keys_frame)
  then show ?thesis by (auto simp: bind_try_def case_prod_beta split: sum.split)
qed

lemma discard_body_frame:
  assumes reg: "\<forall>(k, p)\<in>set reg. qc_namespace p = k" and ns: "ns \<noteq> []"
    and A: "A \<inter> queue_keys ns = {}" "A \<inter> metrics_keys ns = {}"
  shows "same_at A (V s) (V (snd (discard_body R reg uid q jid tk ns wid outcome s)))"
proof (cases "serving_queue uid ns reg")
  case (Inl e)
  then show ?thesis using ns by (simp add: discard_body_def)
next
  case (Inr tr)
  obtain target reg' where tr: "tr = (target, reg')" by (cases tr)
  have tns: "qc_namespace target = ns" using serving_queue_namespace [OF Inr [unfolded tr] ns reg] .
  let ?I = "\<lambda>t. same_at A (V s) (V t)"
  have rec: "?I t \<Longrightarrow> ?I (record_outcome R target tk outcome e b t)" for e b t
    unfolding record_outcome_def tns by (rule same_at_trans, assumption) (rule frame_record_task_outcome [OF A(2)])
  have del: "?I t \<Longrightarrow> ?I (snd (delete_records R [ns] jid tk wid t))" for t
    by (rule same_at_trans, assumption) (rule delete_records_frame [OF ns A(1)])
  have "?I (snd (bind_try (purge_job R ns jid tk) (\<lambda>(p, r).
             bind_try (delete_records R [ns] jid tk wid) (\<lambda>deleted s.
               (Inr (), if tk \<noteq> [] \<and> (0 < p \<or> 0 < r \<or> deleted)
                        then record_outcome R target tk outcome (-1) False s else s))) s))"
    unfolding case_prod_beta
    by (intro bind_try_keeps [where P = ?I]) (use purge_job_frame [OF A(1)] rec del in simp_all)
  then show ?thesis
    unfolding discard_body_def using ns Inr tr tns by simp
qed

lemma discard_orphaned_job_frame:
  assumes reg: "\<forall>(k, p)\<in>set reg. qc_namespace p = k" and ns: "ns \<noteq> []"
    and A: "A \<inter> queue_keys ns = {}" "A \<inter> metrics_keys ns = {}"
  shows "same_at A (V s) (V (snd (discard_orphaned_job R reg uid q jid tk ns wid outcome s)))"
proof -
  obtain tk1 s1 where 1: "(if tk \<noteq> [] then (tk, s)
      else (let (ks, s) = registered_task_keys R s in (resolve_task_key_from_job_id jid ks, s))) = (tk1, s1)" by force
  have V1: "V s1 = V s" using 1 registered_task_keys_V [of s] by (auto simp: case_prod_beta Let_def split: if_splits)
  obtain job s2 where 2: "get_job R (qc_namespace q) jid s1 = (job, s2)" by force
  have V2: "V s2 = V s" using get_job_V [of "qc_namespace q" jid s1] 2 V1 by simp
  have nsj: "(case job of None \<Rightarrow> ns | Some j \<Rightarrow> if ns \<noteq> [] then ns else job_namespace j) = ns"
    using ns by (simp split: option.split)
  note B = discard_body_frame [OF reg ns A, where s = s2 and uid = uid and q = q and jid = jid and outcome = outcome]
  show ?thesis
    unfolding discard_orphaned_job_def Let_def 1 [unfolded Let_def] 2 prod.case nsj
    using B V2 by (simp add: case_prod_beta split: sum.split)
qed

section \<open>What the scan does\<close>

lemma discard_orphans_reaped:
  assumes reg: "\<forall>(k, p)\<in>set reg. qc_namespace p = k" and ns: "qc_namespace q = ns" "ns \<noteq> []"
    and "\<forall>jid\<in>set jids. \<not> live_job ns jid (V s)"
  shows "reaped_from ns (V s) (V (snd (discard_orphans R reg uid q registered jids s)))"
  using assms(4)
proof (induction jids arbitrary: s)
  case (Cons jid jids)
  let ?tk = "resolve_task_key_from_job_id jid registered"
  obtain ok s1 where d: "discard_orphaned_job R reg uid q jid ?tk (qc_namespace q) (work_item_id_from_job_id jid ?tk) EXPIRED s
      = (ok, s1)" by force
  have only: "only_job ns jid (V s) (V s1)"
    using discard_orphaned_job_target(1) [OF reg ns(2)] d ns(1) by metis
  have "reaped_from ns (V s) (V s1)" using only Cons.prems by (intro reaped_from_only) auto
  moreover have "\<forall>j\<in>set jids. \<not> live_job ns j (V s1)"
    using only_job_live [OF only] Cons.prems by simp
  then have "reaped_from ns (V s1) (V (snd (discard_orphans R reg uid q registered jids s1)))"
    by (rule Cons.IH)
  ultimately show ?case by (auto simp: Let_def d case_prod_beta intro: reaped_from_trans)
qed simp

lemma reap_page_reaped:
  assumes reg: "\<forall>(k, p)\<in>set reg. qc_namespace p = k" and ns: "qc_namespace q = ns" "ns \<noteq> []"
  shows "reaped_from ns (V s) (V (snd (reap_page R reg uid q registered zkey cursor room s)))"
proof -
  obtain z s1 where z: "rread R (\<lambda>s. r_zscan R s zkey cursor 100) s = (z, s1)" by force
  then have V1: "V s1 = V s" using rread_view [of "\<lambda>s. r_zscan R s zkey cursor 100" s] by simp
  show ?thesis
  proof (cases z)
    case (Inl e)
    then show ?thesis using z V1 by (simp add: reap_page_def)
  next
    case (Inr cm)
    obtain c members where cm: "cm = (c, members)" by (cases cm)
    let ?jids = "take (nat (max 0 room)) members"
    obtain ps s2 where ps: "(if ?jids = [] then (\<lambda>s. (Inr [], s))
        else rread R (\<lambda>s. map (\<lambda>jid. (jid, r_get R s (job_key (qc_namespace q) jid))) ?jids)) s1 = (ps, s2)" by force
    have V2: "V s2 = V s"
    proof (cases "?jids = []")
      case True
      then show ?thesis using ps V1 by simp
    next
      case False
      then have "s2 = snd (rread R (\<lambda>s. map (\<lambda>jid. (jid, r_get R s (job_key (qc_namespace q) jid))) ?jids) s1)"
        using ps by simp
      then show ?thesis using V1 by (simp only: rread_view)
    qed
    show ?thesis
    proof (cases ps)
      case (Inl e)
      then show ?thesis using z \<open>z = Inr cm\<close> cm ps V2 by (simp add: reap_page_def Let_def)
    next
      case payloads: (Inr payloads)
      have pl: "payloads = map (\<lambda>jid. (jid, kv (V s) (job_key ns jid))) ?jids"
        using ps V1 ns(1) unfolding payloads by (auto split: if_splits elim!: rread_Inr)
      let ?orphans = "map fst (filter (\<lambda>(jid, raw). case raw of None \<Rightarrow> True | Some v \<Rightarrow> \<not> py_truthy v) payloads)"
      have orph: "?orphans = filter (\<lambda>jid. \<not> live_job ns jid (V s)) ?jids"
      proof -
      have "(\<lambda>jid. case kv (V s) (job_key ns jid) of None \<Rightarrow> True | Some v \<Rightarrow> \<not> py_truthy v)
          = (\<lambda>jid. \<not> live_job ns jid (V s))"
        by (auto simp: fun_eq_iff live_job_def split: option.split)
      then show ?thesis unfolding pl filter_map map_map by (simp add: comp_def)
    qed
      have "reaped_from ns (V s2) (V (snd (discard_orphans R reg uid q registered ?orphans s2)))"
        by (rule discard_orphans_reaped [OF reg ns]) (use V2 in \<open>auto simp: orph\<close>)
      then show ?thesis using z Inr cm ps payloads V2 by (simp add: reap_page_def Let_def case_prod_beta)
    qed
  qed
qed

lemma reap_page_cursor:
  assumes "reap_page R reg uid q registered zkey cursor room s = (Inr (c, seen, n), s')"
  shows "\<exists>z s3. rread R (\<lambda>s. r_zscan R s zkey cursor 100) s = (Inr z, s3) \<and> c = fst z"
proof -
  obtain z s1 where z: "rread R (\<lambda>s. r_zscan R s zkey cursor 100) s = (z, s1)" by force
  with assms obtain c' members where z': "z = Inr (c', members)"
    by (cases z) (auto simp: reap_page_def)
  let ?jids = "take (nat (max 0 room)) members"
  obtain ps s2 where ps: "(if ?jids = [] then (\<lambda>s. (Inr [], s))
      else rread R (\<lambda>s. map (\<lambda>jid. (jid, r_get R s (job_key (qc_namespace q) jid))) ?jids)) s1 = (ps, s2)" by force
  have "c = c'"
    using assms z z' ps by (cases ps) (auto simp: reap_page_def Let_def case_prod_beta)
  with z z' show ?thesis by auto
qed

lemma write_reap_cursor_reaped:
  assumes "zkey = pending_key ns \<or> zkey = reserved_key ns"
  shows "reaped_from ns (V s) (V (write_reap_cursor R zkey c s))" "reaped_from ns (V s) (V (clear_reap_cursor R zkey s))"
proof -
  have "reap_cursor_key zkey \<notin> queue_keys ns" using assms by auto
  then have "same_at (queue_keys ns) (V s) (V (write_reap_cursor R zkey c s))"
    "same_at (queue_keys ns) (V s) (V (clear_reap_cursor R zkey s))"
    unfolding write_reap_cursor_def clear_reap_cursor_def rwrite_def
    by (auto intro!: frame_rpc simp: frame_simps)
  then show "reaped_from ns (V s) (V (write_reap_cursor R zkey c s))"
    "reaped_from ns (V s) (V (clear_reap_cursor R zkey s))"
    by (simp_all add: reaped_from_same)
qed

lemma read_reap_cursor_V [simp]: "V (snd (read_reap_cursor R zkey s)) = V s"
  using rread_view [of "\<lambda>s. r_get R s (reap_cursor_key zkey)" s]
  by (auto simp: read_reap_cursor_def case_prod_beta simp del: rread_view split: sum.split option.split)

text \<open>
  The scan as a whole: what every page, every cursor write and every read keeps, it keeps. \<open>P\<close> relates
  the state before and after.
\<close>

lemma reap_scan_path:
  assumes trans: "\<And>a b c. P a b \<Longrightarrow> P b c \<Longrightarrow> P a c" and view: "\<And>a b. V b = V a \<Longrightarrow> P a b"
    and page: "\<And>a cursor room. P a (snd (reap_page R reg uid q registered zkey cursor room a))"
    and cursor: "\<And>a c. P a (write_reap_cursor R zkey c a)" "\<And>a. P a (clear_reap_cursor R zkey a)"
  shows "reap_scan fuel R reg uid q registered zkey limit deadline cursor scanned s = Some (r, s') \<Longrightarrow> P s s'"
proof (induction fuel arbitrary: cursor scanned s r s')
  case (Suc fuel)
  obtain e s1 where e: "(case deadline of None \<Rightarrow> (False, s) | Some d \<Rightarrow> (let (t, s) = mono R s in (d \<le> t, s))) = (e, s1)"
    by force
  then have P1: "P s s1" by (auto intro!: view simp: case_prod_beta Let_def split: option.splits)
  obtain p s2 where p: "reap_page R reg uid q registered zkey cursor (limit - scanned) s1 = (p, s2)" by force
  have P2: "P s s2" using trans [OF P1 page [of s1 cursor "limit - scanned"]] p by simp
  show ?case
  proof (cases "scanned < limit \<and> \<not> e")
    case False
    with Suc.prems e have "s' = write_reap_cursor R zkey cursor s \<or> s' = write_reap_cursor R zkey cursor s1"
      by (auto split: if_splits)
    then show ?thesis using trans [OF P1] cursor(1) by auto
  next
    case True
    with Suc.prems e p have step: "(case p of Inl _ \<Rightarrow> Some ((0, False), s2)
        | Inr (cursor, seen, n) \<Rightarrow>
            if cursor = 0 then Some ((n, False), clear_reap_cursor R zkey s2)
            else map_option (\<lambda>((m, early), s). ((n + m, early), s))
                   (reap_scan fuel R reg uid q registered zkey limit deadline cursor (scanned + seen) s2)) = Some (r, s')"
      by (simp add: Let_def)
    show ?thesis
    proof (cases p)
      case (Inl x)
      with step P2 show ?thesis by simp
    next
      case (Inr x)
      obtain c seen n where x: "x = (c, seen, n)" by (metis prod_cases3)
      show ?thesis
      proof (cases "c = 0")
        case True
        with step Inr x have "s' = clear_reap_cursor R zkey s2" by auto
        with trans [OF P2 cursor(2)] show ?thesis by simp
      next
        case False
        with step Inr x obtain r1 where "reap_scan fuel R reg uid q registered zkey limit deadline c (scanned + seen) s2 = Some (r1, s')"
          by auto
        from trans [OF P2 Suc.IH [OF this]] show ?thesis .
      qed
    qed
  qed
qed simp

lemma reap_path:
  assumes trans: "\<And>a b c. P a b \<Longrightarrow> P b c \<Longrightarrow> P a c" and view: "\<And>a b. V b = V a \<Longrightarrow> P a b"
    and page: "\<And>a registered zkey cursor room. P a (snd (reap_page R reg uid q registered zkey cursor room a))"
    and cursor: "\<And>a zkey c. zkey = pending_key ns \<or> zkey = reserved_key ns \<Longrightarrow> P a (write_reap_cursor R zkey c a)"
      "\<And>a zkey. zkey = pending_key ns \<or> zkey = reserved_key ns \<Longrightarrow> P a (clear_reap_cursor R zkey a)"
    and q: "qc_namespace q = ns"
    and run: "reap_orphaned_queue_jobs fuel R reg uid q limit deadline s = Some (n, s')"
  shows "P s s'"
proof -
  have scan: "P a b" if "reap_scan fuel R reg uid q registered zkey limit deadline cur 0 a = Some (r, b)"
    and "zkey = pending_key ns \<or> zkey = reserved_key ns" for registered zkey cur a r b
    by (rule reap_scan_path [where P = P, OF trans view page cursor [OF that(2)] that(1)])
  obtain registered s1 where 1: "registered_task_keys R s = (registered, s1)" by force
  obtain c s2 where 2: "read_reap_cursor R (pending_key ns) s1 = (c, s2)" by force
  have V2: "P s s2"
    by (rule view) (use 1 2 registered_task_keys_V [of s] read_reap_cursor_V [of "pending_key ns" s1] in simp)
  from run 1 2 q obtain m early s3 where
    3: "reap_scan fuel R reg uid q registered (pending_key ns) limit deadline c 0 s2 = Some ((m, early), s3)"
    by (auto simp: reap_orphaned_queue_jobs_def split: option.splits)
  have r3: "P s s3" using trans [OF V2 scan [OF 3]] by simp
  show ?thesis
  proof (cases early)
    case True
    with run 1 2 3 q r3 show ?thesis by (simp add: reap_orphaned_queue_jobs_def)
  next
    case False
    obtain c' s4 where 4: "read_reap_cursor R (reserved_key ns) s3 = (c', s4)" by force
    have V4: "P s3 s4" by (rule view) (use 4 read_reap_cursor_V [of "reserved_key ns" s3] in simp)
    from run 1 2 3 4 q False obtain r where
      5: "reap_scan fuel R reg uid q registered (reserved_key ns) limit deadline c' 0 s4 = Some (r, s')"
      by (auto simp: reap_orphaned_queue_jobs_def)
    from trans [OF trans [OF r3 V4] scan [OF 5]] show ?thesis by simp
  qed
qed

lemma reap_scan_reaped:
  assumes reg: "\<forall>(k, p)\<in>set reg. qc_namespace p = k" and ns: "qc_namespace q = ns" "ns \<noteq> []"
    and zkey: "zkey = pending_key ns \<or> zkey = reserved_key ns"
  shows "reap_scan fuel R reg uid q registered zkey limit deadline cursor scanned s = Some (r, s')
    \<Longrightarrow> reaped_from ns (V s) (V s')"
  by (rule reap_scan_path [where P = "\<lambda>a b. reaped_from ns (V a) (V b)"])
     (simp_all add: reap_page_reaped [OF reg ns] write_reap_cursor_reaped [OF zkey] reaped_from_trans)

text \<open>The whole call: only jobs without a payload leave the queue.\<close>

lemma reap_reaped:
  assumes reg: "\<forall>(k, p)\<in>set reg. qc_namespace p = k" and ns: "qc_namespace q = ns" "ns \<noteq> []"
    and run: "reap_orphaned_queue_jobs fuel R reg uid q limit deadline s = Some (n, s')"
  shows "reaped_from ns (V s) (V s')"
  by (rule reap_path [where P = "\<lambda>a b. reaped_from ns (V a) (V b)", OF _ _ _ _ _ ns(1) run])
     (simp_all add: reap_page_reaped [OF reg ns] write_reap_cursor_reaped reaped_from_trans)

end

text \<open>The scan ends: each page advances the iteration, and the reaper only shrinks the sets.\<close>

context redis_scan
begin

lemma reap_scan_terminates:
  assumes reg: "\<forall>(k, p)\<in>set reg. qc_namespace p = k" and ns: "qc_namespace q = ns" "ns \<noteq> []"
    and zkey: "zkey = pending_key ns \<or> zkey = reserved_key ns"
  shows "scan_steps s zkey cursor < fuel \<Longrightarrow>
    \<exists>r s'. reap_scan fuel R reg uid q registered zkey limit deadline cursor scanned s = Some (r, s')"
proof (induction fuel arbitrary: cursor scanned s)
  case (Suc fuel)
  obtain e s1 where e: "(case deadline of None \<Rightarrow> (False, s) | Some d \<Rightarrow> (let (t, s) = mono R s in (d \<le> t, s))) = (e, s1)"
    by force
  then have V1: "V s1 = V s" by (auto simp: case_prod_beta Let_def split: option.splits)
  obtain p s2 where p: "reap_page R reg uid q registered zkey cursor (limit - scanned) s1 = (p, s2)" by force
  have "reaped_from ns (V s) (V s2)"
    using reap_page_reaped [OF reg ns, of s1 uid registered zkey cursor "limit - scanned"] p V1 by simp
  then have dom2: "dom (zs (V s2) zkey) \<subseteq> dom (zs (V s) zkey)"
    using zkey by (auto simp: reaped_from_def dest: map_le_implies_dom_le)
  show ?case
  proof (cases "\<not> scanned < limit \<or> e \<or> (\<exists>x. p = Inl x) \<or> (\<exists>seen n. p = Inr (0, seen, n))")
    case True
    then show ?thesis using e p by (auto simp: Let_def)
  next
    case False
    then obtain c seen n where pc: "p = Inr (c, seen, n)" "c \<noteq> 0" by (cases p) auto
    obtain z s3 where z: "rread R (\<lambda>s. r_zscan R s zkey cursor 100) s1 = (Inr z, s3)" and c: "c = fst z"
      using reap_page_cursor p pc(1) by metis
    from z obtain t where Vt: "V t = V s1" and zt: "z = r_zscan R t zkey cursor 100" by (rule rread_Inr)
    have "scan_steps t zkey c < scan_steps t zkey cursor"
      using law_scan_steps [of t zkey cursor 100] pc(2) c zt by simp
    moreover have "scan_steps t zkey cursor \<le> scan_steps s zkey cursor"
      by (rule law_scan_shrink) (simp add: Vt V1)
    moreover have "scan_steps s2 zkey c \<le> scan_steps t zkey c"
      by (rule law_scan_shrink) (use dom2 in \<open>simp add: Vt V1\<close>)
    ultimately have "scan_steps s2 zkey c < fuel" using Suc.prems by linarith
    from Suc.IH [OF this, of "scanned + seen"] False e p pc show ?thesis by (auto simp: Let_def)
  qed
qed simp

lemma reap_terminates:
  assumes "\<forall>(k, p)\<in>set reg. qc_namespace p = k" and "qc_namespace q = ns" and "ns \<noteq> []"
    and fuel: "\<And>zkey c t. zkey \<in> {pending_key ns, reserved_key ns} \<Longrightarrow> dom (zs (V t) zkey) \<subseteq> dom (zs (V s) zkey)
      \<Longrightarrow> scan_steps t zkey c < fuel"
  shows "\<exists>n s'. reap_orphaned_queue_jobs fuel R reg uid q limit deadline s = Some (n, s')"
proof -
  note T = reap_scan_terminates [OF assms(1,2,3)]
  obtain registered s1 where 1: "registered_task_keys R s = (registered, s1)" by force
  obtain c s2 where 2: "read_reap_cursor R (pending_key ns) s1 = (c, s2)" by force
  have V2: "V s2 = V s"
    using 1 2 registered_task_keys_V [of s] read_reap_cursor_V [of "pending_key ns" s1] by simp
  obtain m early s3 where
    3: "reap_scan fuel R reg uid q registered (pending_key ns) limit deadline c 0 s2 = Some ((m, early), s3)"
    using T [of "pending_key ns" s2 c fuel uid registered limit deadline 0] fuel [of "pending_key ns" s2 c] V2 by auto
  have "reaped_from ns (V s) (V s3)" using reap_scan_reaped [OF assms(1,2,3) _ 3] V2 by simp
  then have d3: "dom (resv ns (V s3)) \<subseteq> dom (resv ns (V s))" by (auto simp: reaped_from_def dest: map_le_implies_dom_le)
  obtain c' s4 where 4: "read_reap_cursor R (reserved_key ns) s3 = (c', s4)" by force
  have V4: "V s4 = V s3" using 4 read_reap_cursor_V [of "reserved_key ns" s3] by simp
  obtain r s5 where 5: "reap_scan fuel R reg uid q registered (reserved_key ns) limit deadline c' 0 s4 = Some (r, s5)"
    using T [of "reserved_key ns" s4 c' fuel uid registered limit deadline 0] fuel [of "reserved_key ns" s4 c'] V4 d3 by auto
  show ?thesis
    using 1 2 3 4 5 assms(2) by (cases early) (auto simp: reap_orphaned_queue_jobs_def)
qed

end

end
