(* ===== verification/Lifecycle.thy ===== *)
theory Lifecycle
  imports Reaper
begin

text \<open>
  \<open>dispatch/lifecycle.py\<close>: the terminal transitions of a reserved job, finalize and requeue,
  as Lua scripts and the calls around them.
\<close>

section \<open>The scripts\<close>

definition finalize_job_lua ::
  "'s env \<Rightarrow> string \<Rightarrow> string \<Rightarrow> string \<Rightarrow> string \<Rightarrow> string \<Rightarrow> string \<Rightarrow> int \<Rightarrow> 's \<Rightarrow> int result \<times> 's" where
  "finalize_job_lua R record_key reserved dedupe counts_key jid fld ttl s =
     (let (removed, s) = r_zrem R s reserved jid;
          s = snd (r_del R s record_key);
          s = (if dedupe \<noteq> [] then snd (r_del R s dedupe) else s) in
      if 0 < removed \<and> fld \<noteq> [] then
        (case bump_count R counts_key fld (-1) s of
           (Inl e, s) \<Rightarrow> (Inl e, s)
         | (Inr _, s) \<Rightarrow> (Inr removed, r_expire R s counts_key ttl))
      else (Inr removed, s))"

definition requeue_job_lua ::
  "'s env \<Rightarrow> string \<Rightarrow> string \<Rightarrow> string \<Rightarrow> string \<Rightarrow> string \<Rightarrow> pyval \<Rightarrow> int \<Rightarrow> real \<Rightarrow> string \<Rightarrow> string \<Rightarrow> int \<Rightarrow> 's
     \<Rightarrow> int result \<times> 's" where
  "requeue_job_lua R record_key reserved pending counts_key jid snapshot ttl score reserved_fld pending_fld counts_ttl s =
     (let (removed, s) = r_zrem R s reserved jid in
      if removed = 0 then (Inr 0, s)
      else
        (let s = r_set R s record_key snapshot (Some ttl);
             s = r_zadd R s pending score jid in
         if 0 < removed \<and> reserved_fld \<noteq> [] then
           (case bump_count R counts_key reserved_fld (-1) s of
              (Inl e, s) \<Rightarrow> (Inl e, s)
            | (Inr _, s) \<Rightarrow>
                (case bump_count R counts_key pending_fld 1 s of
                   (Inl e, s) \<Rightarrow> (Inl e, s)
                 | (Inr _, s) \<Rightarrow> (Inr removed, r_expire R s counts_key counts_ttl)))
         else (Inr removed, s)))"

section \<open>The calls\<close>

datatype requeue_result = RQ_REQUEUED | RQ_WAIT_BUDGET_SPENT | RQ_SLOT_LOST

fun requeue_result_value :: "requeue_result \<Rightarrow> int" where
  "requeue_result_value RQ_REQUEUED = 1"
| "requeue_result_value RQ_WAIT_BUDGET_SPENT = 2"
| "requeue_result_value RQ_SLOT_LOST = 3"

definition RequeueResult :: "int \<Rightarrow> requeue_result result" where
  "RequeueResult i =
     (if i = 1 then Inr RQ_REQUEUED else if i = 2 then Inr RQ_WAIT_BUDGET_SPENT
      else if i = 3 then Inr RQ_SLOT_LOST else Inl ValueError)"

interpretation requeue_enum: int_enum requeue_result_value RequeueResult
proof
  show "RequeueResult (requeue_result_value e) = Inr e" for e
    by (cases e) (simp_all add: RequeueResult_def)
  show "RequeueResult i = Inr e \<Longrightarrow> requeue_result_value e = i" for i e
    by (auto simp: RequeueResult_def split: if_splits)
  show "requeue_result_value e \<noteq> 0" for e
    by (cases e) simp_all
qed

definition finalize_job :: "'s env \<Rightarrow> string \<Rightarrow> string \<Rightarrow> string \<Rightarrow> string \<Rightarrow> int \<Rightarrow> 's \<Rightarrow> int \<times> 's" where
  "finalize_job R ns jid tk wid counts_ttl s =
     (case rpc_script R
             (finalize_job_lua R (job_key ns jid) (reserved_key ns)
                (if tk \<noteq> [] \<and> wid \<noteq> [] then dedupe_key ns tk wid else []) (task_counts_key ns) jid
                (if tk \<noteq> [] then reserved_count_field tk else []) (max 1 counts_ttl)) s of
        (Inl _, s) \<Rightarrow> (0, s)
      | (Inr removed, s) \<Rightarrow> (removed, s))"

definition eval_requeue ::
  "'s env \<Rightarrow> string \<Rightarrow> string \<Rightarrow> pyval \<Rightarrow> int \<Rightarrow> real \<Rightarrow> string \<Rightarrow> int \<Rightarrow> 's \<Rightarrow> int result \<times> 's" where
  "eval_requeue R ns jid snapshot queue_wait_ttl score tk counts_ttl =
     rpc_script R
       (requeue_job_lua R (job_key ns jid) (reserved_key ns) (pending_key ns) (task_counts_key ns) jid snapshot
          (max 1 queue_wait_ttl) score (if tk \<noteq> [] then reserved_count_field tk else [])
          (if tk \<noteq> [] then pending_count_field tk else []) (max 1 counts_ttl))"

definition requeue ::
  "'s env \<Rightarrow> queue_registry \<Rightarrow> nat \<Rightarrow> queue_class \<Rightarrow> dispatch_job \<Rightarrow> real \<Rightarrow> int \<Rightarrow> 's \<Rightarrow> requeue_result \<times> 's" where
  "requeue R reg uid q job ready queue_wait_ttl s =
     (let (now, s) = wall R s in
      case compute_wait_deadline now ready queue_wait_ttl (wait_deadline_at job) of
        (_, None) \<Rightarrow>
          (RQ_WAIT_BUDGET_SPENT,
           snd (discard_orphaned_job R reg uid q (job_id job) (task_key job) (job_namespace job) [] EXPIRED s))
      | (deadline, Some wait_ttl) \<Rightarrow>
          (let job = job\<lparr>ready_at := ready, wait_deadline_at := deadline\<rparr> in
           case eval_requeue R (qc_namespace q) (job_id job) (job_snapshot job) wait_ttl ready (task_key job)
                  TASK_COUNTS_TTL_SECONDS s of
             (Inl _, s) \<Rightarrow> (RQ_SLOT_LOST, s)
           | (Inr requeued, s) \<Rightarrow> (if requeued = 0 then RQ_SLOT_LOST else RQ_REQUEUED, s)))"

section \<open>Finalize\<close>

definition v_finalize :: "string \<Rightarrow> string \<Rightarrow> string \<Rightarrow> view \<Rightarrow> view" where
  "v_finalize ns jid dedupe v =
     (let v = v_del (job_key ns jid) (v_zrem (reserved_key ns) jid v)
      in if dedupe \<noteq> [] then v_del dedupe v else v)"

lemma v_del_fields:
  "zs (v_del k v) k' = (if k' = k then Map.empty else zs v k')" "kv (v_del k v) k' = (if k' = k then None else kv v k')"
  "k' \<noteq> k \<Longrightarrow> hash_int (v_del k v) k' = hash_int v k'"
  by (auto simp: v_del_def hash_int_def fun_eq_iff)

lemma v_finalize_sets:
  assumes "dedupe = [] \<or> (\<exists>x y. dedupe = dedupe_key ns x y)"
  shows "pend ns (v_finalize ns jid dedupe v) = pend ns v"
    and "resv ns (v_finalize ns jid dedupe v) = (resv ns v)(jid := None)"
    and "hash_int (v_finalize ns jid dedupe v) (task_counts_key ns) = hash_int v (task_counts_key ns)"
    and "kv (v_finalize ns jid dedupe v) (job_key ns j) = (if j = jid then None else kv v (job_key ns j))"
    and "dedupe \<noteq> [] \<Longrightarrow> kv (v_finalize ns jid dedupe v) dedupe = None"
  using assms by (auto simp: v_finalize_def Let_def v_del_fields)

context redis
begin

abbreviation fin_script :: "string \<Rightarrow> string \<Rightarrow> string \<Rightarrow> string \<Rightarrow> int \<Rightarrow> 's \<Rightarrow> int result \<times> 's" where
  "fin_script ns jid dedupe \<equiv> finalize_job_lua R (job_key ns jid) (reserved_key ns) dedupe (task_counts_key ns) jid"

lemma finalize_script_cases:
  assumes "dedupe = [] \<or> (\<exists>x y. dedupe = dedupe_key ns x y)"
  obtains (absent) "resv ns (V s) jid = None" "fin_script ns jid dedupe fld ttl s = (Inr 0, snd (fin_script ns jid dedupe fld ttl s))"
      "V (snd (fin_script ns jid dedupe fld ttl s)) = v_finalize ns jid dedupe (V s)"
  | (counted) "resv ns (V s) jid \<noteq> None" "fld \<noteq> []" "hash_int (V s) (task_counts_key ns) fld \<noteq> None"
      "fst (fin_script ns jid dedupe fld ttl s) = Inr 1"
      "V (snd (fin_script ns jid dedupe fld ttl s)) =
         v_expire (task_counts_key ns) ttl (v_bump (task_counts_key ns) fld (-1) (v_finalize ns jid dedupe (V s)))"
  | (plain) "resv ns (V s) jid \<noteq> None" "fld = [] \<or> hash_int (V s) (task_counts_key ns) fld = None"
      "V (snd (fin_script ns jid dedupe fld ttl s)) = v_finalize ns jid dedupe (V s)"
proof -
  let ?z = "r_zrem R s (reserved_key ns) jid"
  let ?d = "snd (r_del R (snd ?z) (job_key ns jid))"
  let ?s1 = "if dedupe \<noteq> [] then snd (r_del R ?d dedupe) else ?d"
  let ?b = "bump_count R (task_counts_key ns) fld (-1) ?s1"
  have run: "fin_script ns jid dedupe fld ttl s =
      (if 0 < fst ?z \<and> fld \<noteq> [] then
        (case fst ?b of Inl e \<Rightarrow> (Inl e, snd ?b) | Inr _ \<Rightarrow> (Inr (fst ?z), r_expire R (snd ?b) (task_counts_key ns) ttl))
       else (Inr (fst ?z), ?s1))"
    unfolding finalize_job_lua_def Let_def case_prod_beta by (simp split: sum.split)
  have V1: "V ?s1 = v_finalize ns jid dedupe (V s)" by (simp add: v_finalize_def Let_def)
  have b: "fst ?b = (case hash_int (V s) (task_counts_key ns) fld of None \<Rightarrow> Inl ScriptError | Some _ \<Rightarrow> Inr ())"
    unfolding bump_ok V1 v_finalize_sets(3) [OF assms] by (rule refl)
  have Vb: "V (snd ?b) = v_bump (task_counts_key ns) fld (-1) (v_finalize ns jid dedupe (V s))"
    unfolding bump_V V1 by (rule refl)
  show ?thesis
  proof (cases "resv ns (V s) jid = None")
    case True
    then have "fst ?z = 0" by simp
    then have "fin_script ns jid dedupe fld ttl s = (Inr 0, ?s1)" unfolding run by simp
    with True V1 show ?thesis by (intro absent) simp_all
  next
    case False
    then have z: "fst ?z = 1" by simp
    show ?thesis
    proof (cases "fld = [] \<or> hash_int (V s) (task_counts_key ns) fld = None")
      case True
      have "V (snd (fin_script ns jid dedupe fld ttl s)) = v_finalize ns jid dedupe (V s)"
      proof (cases "fld = []")
        case True
        then show ?thesis unfolding run using V1 by simp
      next
        case f: False
        with True have h: "hash_int (V s) (task_counts_key ns) fld = None" by simp
        have "v_bump (task_counts_key ns) fld (-1) (v_finalize ns jid dedupe (V s)) = v_finalize ns jid dedupe (V s)"
          by (simp add: v_bump_def v_finalize_sets(3) [OF assms] h)
        then show ?thesis unfolding run z b using f h Vb by simp
      qed
      with False True show ?thesis by (intro plain)
    next
      case counts: False
      then obtain i where i: "hash_int (V s) (task_counts_key ns) fld = Some i" and f: "fld \<noteq> []" by auto
      have "fin_script ns jid dedupe fld ttl s = (Inr 1, r_expire R (snd ?b) (task_counts_key ns) ttl)"
        unfolding run z b i using f by simp
      with False f i Vb show ?thesis by (intro counted) simp_all
    qed
  qed
qed

text \<open>Whatever the counters hold, a finalize that ran leaves no slot and no record.\<close>

lemma finalize_script_sets:
  assumes "dedupe = [] \<or> (\<exists>x y. dedupe = dedupe_key ns x y)"
  shows "pend ns (V (snd (fin_script ns jid dedupe fld ttl s))) = pend ns (V s)"
    and "resv ns (V (snd (fin_script ns jid dedupe fld ttl s))) = (resv ns (V s))(jid := None)"
    and "kv (V (snd (fin_script ns jid dedupe fld ttl s))) (job_key ns j) = (if j = jid then None else kv (V s) (job_key ns j))"
    and "dedupe \<noteq> [] \<Longrightarrow> kv (V (snd (fin_script ns jid dedupe fld ttl s))) dedupe = None"
  by (cases rule: finalize_script_cases [OF assms, where jid = jid and fld = fld and ttl = ttl and s = s];
      simp add: v_finalize_sets [OF assms])+

lemma finalize_script_inv:
  assumes dd: "dedupe = [] \<or> (\<exists>x y. dedupe = dedupe_key ns x y)"
    and inv: "queue_inv owner ns (V s)" and tk: "owner jid = tk" "tk \<noteq> []"
  shows "queue_inv owner ns (V (snd (fin_script ns jid dedupe (reserved_count_field tk) ttl s)))"
proof -
  let ?v' = "V (snd (fin_script ns jid dedupe (reserved_count_field tk) ttl s))"
  from inv have dis: "slots_disjoint ns (V s)" and cnt: "counts_ok owner ns (V s)" by (simp_all add: queue_inv_def)
  note S = v_finalize_sets [OF dd]
  have dis': "slots_disjoint ns ?v'" using dis by (auto simp: slots_disjoint_def finalize_script_sets [OF dd])
  have "counts_ok owner ns ?v'"
    using dd
  proof (cases rule: finalize_script_cases [where jid = jid and fld = "reserved_count_field tk" and ttl = ttl and s = s])
    case absent
    have "counts_ok owner ns ?v' = counts_ok owner ns (V s)"
      by (rule counts_ok_cong) (use absent(1) in \<open>auto simp: absent(3) S fun_eq_iff\<close>)
    then show ?thesis using cnt by simp
  next
    case counted
    let ?f = "reserved_count_field tk"
    let ?w = "v_bump (task_counts_key ns) ?f (-1) (v_zrem (reserved_key ns) jid (V s))"
    have w: "counts_ok owner ns ?w" using drop_reserved_counts [OF cnt _ counted(1) tk] by simp
    obtain i where i: "hash_int (V s) (task_counts_key ns) ?f = Some i" using counted(3) by blast
    have h: "hash_int (v_finalize ns jid dedupe (V s)) (task_counts_key ns) ?f = Some i"
      "hash_int (v_zrem (reserved_key ns) jid (V s)) (task_counts_key ns) ?f = Some i"
      using i S(3) by simp_all
    have "counts_ok owner ns ?v' = counts_ok owner ns ?w"
      by (rule counts_ok_cong) (simp_all add: counted(5) S fun_eq_iff hash_int_bump [OF h(1)] hash_int_bump [OF h(2)])
    with w show ?thesis by simp
  next
    case plain
    then show ?thesis using counts_ok_field(2) [OF cnt tk(2)] by simp
  qed
  with dis' show ?thesis by (simp add: queue_inv_def)
qed

lemma finalize_script_frame:
  assumes dd: "dedupe = [] \<or> (\<exists>x y. dedupe = dedupe_key ns x y)" and A: "A \<inter> queue_keys ns = {}"
  shows "same_at A (V s) (V (snd (fin_script ns jid dedupe fld ttl s)))"
proof -
  have k: "reserved_key ns \<notin> A" "task_counts_key ns \<notin> A" "job_key ns jid \<notin> A" "\<And>x y. dedupe_key ns x y \<notin> A"
    using A queue_keys_mem by blast+
  then have "same_at A (V s) (v_finalize ns jid dedupe (V s))"
    using dd by (auto simp: v_finalize_def Let_def frame_simps)
  with k show ?thesis
    by (cases rule: finalize_script_cases [OF dd, where jid = jid and fld = fld and ttl = ttl and s = s])
       (simp_all add: frame_simps)
qed

end

section \<open>Requeue\<close>

text \<open>What the requeue script leaves of a queue: the slot becomes a pending entry at the new score.\<close>

definition v_requeue :: "string \<Rightarrow> string \<Rightarrow> pyval \<Rightarrow> int \<Rightarrow> real \<Rightarrow> view \<Rightarrow> view" where
  "v_requeue ns jid snapshot ttl score v =
     v_zadd (pending_key ns) score jid (v_set (job_key ns jid) snapshot (Some ttl) (v_zrem (reserved_key ns) jid v))"

lemma v_requeue_sets:
  "pend ns (v_requeue ns jid x ttl sc v) = (pend ns v)(jid \<mapsto> sc)"
  "resv ns (v_requeue ns jid x ttl sc v) = (resv ns v)(jid := None)"
  "hash_int (v_requeue ns jid x ttl sc v) = hash_int v"
  "kv (v_requeue ns jid x ttl sc v) k = (if k = job_key ns jid then Some x else kv v k)"
  by (simp_all add: v_requeue_def)

context redis
begin

abbreviation req_script ::
  "string \<Rightarrow> string \<Rightarrow> pyval \<Rightarrow> int \<Rightarrow> real \<Rightarrow> string \<Rightarrow> string \<Rightarrow> int \<Rightarrow> 's \<Rightarrow> int result \<times> 's" where
  "req_script ns jid \<equiv> requeue_job_lua R (job_key ns jid) (reserved_key ns) (pending_key ns) (task_counts_key ns) jid"

lemma requeue_script_lost:
  "resv ns (V s) jid = None \<Longrightarrow>
     fst (req_script ns jid x ttl sc rf pf ct s) = Inr 0
     \<and> V (snd (req_script ns jid x ttl sc rf pf ct s)) = v_zrem (reserved_key ns) jid (V s)"
  by (simp add: requeue_job_lua_def case_prod_beta)

lemma requeue_script_cases:
  assumes "resv ns (V s) jid \<noteq> None"
  obtains (counted) i j where "rf \<noteq> []" "hash_int (V s) (task_counts_key ns) rf = Some i"
      "hash_int (v_bump (task_counts_key ns) rf (-1) (v_requeue ns jid x ttl sc (V s))) (task_counts_key ns) pf = Some j"
      "fst (req_script ns jid x ttl sc rf pf ct s) = Inr 1"
      "V (snd (req_script ns jid x ttl sc rf pf ct s)) =
         v_expire (task_counts_key ns) ct (v_bump (task_counts_key ns) pf 1
           (v_bump (task_counts_key ns) rf (-1) (v_requeue ns jid x ttl sc (V s))))"
  | (uncounted) "rf = []" "fst (req_script ns jid x ttl sc rf pf ct s) = Inr 1"
      "V (snd (req_script ns jid x ttl sc rf pf ct s)) = v_requeue ns jid x ttl sc (V s)"
  | (aborted) "rf \<noteq> []" "fst (req_script ns jid x ttl sc rf pf ct s) = Inl ScriptError"
      "hash_int (V s) (task_counts_key ns) rf = None \<or>
       hash_int (v_bump (task_counts_key ns) rf (-1) (v_requeue ns jid x ttl sc (V s))) (task_counts_key ns) pf = None"
      "V (snd (req_script ns jid x ttl sc rf pf ct s)) = v_bump (task_counts_key ns) rf (-1) (v_requeue ns jid x ttl sc (V s))"
proof -
  let ?z = "r_zrem R s (reserved_key ns) jid"
  let ?s1 = "r_zadd R (r_set R (snd ?z) (job_key ns jid) x (Some ttl)) (pending_key ns) sc jid"
  let ?b = "bump_count R (task_counts_key ns) rf (-1) ?s1"
  let ?c = "bump_count R (task_counts_key ns) pf 1 (snd ?b)"
  from assms have z: "fst ?z = 1" by simp
  have run: "req_script ns jid x ttl sc rf pf ct s =
      (if rf \<noteq> [] then
         (case fst ?b of Inl e \<Rightarrow> (Inl e, snd ?b)
          | Inr _ \<Rightarrow> (case fst ?c of Inl e \<Rightarrow> (Inl e, snd ?c) | Inr _ \<Rightarrow> (Inr 1, r_expire R (snd ?c) (task_counts_key ns) ct)))
       else (Inr 1, ?s1))"
    unfolding requeue_job_lua_def Let_def case_prod_beta z by (simp split: sum.split)
  have V1: "V ?s1 = v_requeue ns jid x ttl sc (V s)" by (simp add: v_requeue_def)
  have Vb: "V (snd ?b) = v_bump (task_counts_key ns) rf (-1) (v_requeue ns jid x ttl sc (V s))"
    unfolding bump_V V1 by (rule refl)
  have b: "fst ?b = (case hash_int (V s) (task_counts_key ns) rf of None \<Rightarrow> Inl ScriptError | Some _ \<Rightarrow> Inr ())"
    unfolding bump_ok V1 v_requeue_sets by (rule refl)
  have Vc: "V (snd ?c) = v_bump (task_counts_key ns) pf 1 (V (snd ?b))"
    unfolding bump_V by (rule refl)
  have c: "fst ?c = (case hash_int (V (snd ?b)) (task_counts_key ns) pf of None \<Rightarrow> Inl ScriptError | Some _ \<Rightarrow> Inr ())"
    unfolding bump_ok by (rule refl)
  show ?thesis
  proof (cases "rf = []")
    case True
    then have "req_script ns jid x ttl sc rf pf ct s = (Inr 1, ?s1)" unfolding run by simp
    with True V1 show ?thesis by (intro uncounted) simp_all
  next
    case f: False
    show ?thesis
    proof (cases "hash_int (V s) (task_counts_key ns) rf")
      case None
      with f b Vb show ?thesis by (intro aborted) (simp_all add: run)
    next
      case i: (Some i)
      show ?thesis
      proof (cases "hash_int (V (snd ?b)) (task_counts_key ns) pf")
        case None
        then have "V (snd ?c) = V (snd ?b)" unfolding Vc by (simp add: v_bump_def)
        with None f i b c Vb show ?thesis by (intro aborted) (simp_all add: run)
      next
        case (Some j)
        with f i b c Vb Vc show ?thesis by (intro counted [of i j]) (simp_all add: run)
      qed
    qed
  qed
qed

text \<open>A requeue that finds no slot changes nothing; one that finds it moves the job, whatever the counters hold.\<close>

lemma requeue_script_sets:
  assumes "resv ns (V s) jid \<noteq> None"
  shows "pend ns (V (snd (req_script ns jid x ttl sc rf pf ct s))) = (pend ns (V s))(jid \<mapsto> sc)"
    and "resv ns (V (snd (req_script ns jid x ttl sc rf pf ct s))) = (resv ns (V s))(jid := None)"
    and "kv (V (snd (req_script ns jid x ttl sc rf pf ct s))) k = (if k = job_key ns jid then Some x else kv (V s) k)"
  using assms
  by (cases rule: requeue_script_cases [where x = x and ttl = ttl and sc = sc and rf = rf and pf = pf and ct = ct];
      simp add: v_requeue_sets)+

lemma requeue_script_one:
  assumes "fst (req_script ns jid x ttl sc rf pf ct s) = Inr n"
  shows "n = (if resv ns (V s) jid = None then 0 else 1)"
proof (cases "resv ns (V s) jid = None")
  case True
  then show ?thesis using assms requeue_script_lost [OF True, where x = x and ttl = ttl and sc = sc and rf = rf and pf = pf and ct = ct] by simp
next
  case False
  then show ?thesis
    by (cases rule: requeue_script_cases [where x = x and ttl = ttl and sc = sc and rf = rf and pf = pf and ct = ct])
       (use assms False in auto)
qed

lemma requeue_script_inv:
  assumes inv: "queue_inv owner ns (V s)" and tk: "owner jid = tk" "tk \<noteq> []"
  shows "queue_inv owner ns
           (V (snd (req_script ns jid x ttl sc (reserved_count_field tk) (pending_count_field tk) ct s)))"
proof (cases "resv ns (V s) jid = None")
  case True
  then have same: "resv ns (v_zrem (reserved_key ns) jid (V s)) = resv ns (V s)" by (simp add: fun_eq_iff)
  have "counts_ok owner ns (v_zrem (reserved_key ns) jid (V s)) = counts_ok owner ns (V s)"
    by (rule counts_ok_cong [OF _ same]) simp_all
  then have "queue_inv owner ns (v_zrem (reserved_key ns) jid (V s)) = queue_inv owner ns (V s)"
    unfolding queue_inv_def slots_disjoint_def same by simp
  with inv requeue_script_lost [OF True] show ?thesis by simp
next
  case False
  let ?rf = "reserved_count_field tk" and ?pf = "pending_count_field tk"
  let ?s' = "snd (req_script ns jid x ttl sc ?rf ?pf ct s)"
  from inv have dis: "slots_disjoint ns (V s)" and cnt: "counts_ok owner ns (V s)" by (simp_all add: queue_inv_def)
  then have absent: "pend ns (V s) jid = None" using False by (fastforce simp: slots_disjoint_def)
  have dis': "slots_disjoint ns (V ?s')"
    using dis by (auto simp: slots_disjoint_def requeue_script_sets [OF False])
  let ?u = "v_bump (task_counts_key ns) ?rf (-1) (v_zrem (reserved_key ns) jid (V s))"
  let ?w = "v_bump (task_counts_key ns) ?pf 1 (v_zadd (pending_key ns) sc jid ?u)"
  have u: "counts_ok owner ns ?u" using drop_reserved_counts [OF cnt _ False tk] by simp
  have w: "counts_ok owner ns ?w" using add_pending_counts [OF u _ _ tk] absent by simp
  obtain i j where i: "hash_int (V s) (task_counts_key ns) ?rf = Some i"
    and j: "hash_int (V s) (task_counts_key ns) ?pf = Some j"
    using counts_ok_field [OF cnt tk(2)] by auto
  have hq: "hash_int (v_requeue ns jid x ttl sc (V s)) (task_counts_key ns) ?rf = Some i"
    and hz: "hash_int (v_zrem (reserved_key ns) jid (V s)) (task_counts_key ns) ?rf = Some i"
    using i by (simp_all add: v_requeue_sets)
  have hq2: "hash_int (v_bump (task_counts_key ns) ?rf (-1) (v_requeue ns jid x ttl sc (V s))) (task_counts_key ns) ?pf = Some j"
    and hz2: "hash_int (v_zadd (pending_key ns) sc jid ?u) (task_counts_key ns) ?pf = Some j"
    using j by (simp_all add: hash_int_bump [OF hq] hash_int_bump [OF hz] v_requeue_sets)
  from False have "counts_ok owner ns (V ?s')"
  proof (cases rule: requeue_script_cases [where x = x and ttl = ttl and sc = sc and rf = ?rf and pf = ?pf and ct = ct])
    case counted
    have "counts_ok owner ns (V ?s') = counts_ok owner ns ?w"
      by (rule counts_ok_cong)
         (simp_all add: counted(5) v_requeue_sets fun_eq_iff hash_int_bump [OF hq2] hash_int_bump [OF hz2]
            hash_int_bump [OF hq] hash_int_bump [OF hz])
    with w show ?thesis by simp
  next
    case uncounted
    then show ?thesis by simp
  next
    case aborted
    then show ?thesis using i hq2 by simp
  qed
  with dis' show ?thesis by (simp add: queue_inv_def)
qed

lemma requeue_script_frame:
  assumes A: "A \<inter> queue_keys ns = {}"
  shows "same_at A (V s) (V (snd (req_script ns jid x ttl sc rf pf ct s)))"
proof (cases "resv ns (V s) jid = None")
  have k: "reserved_key ns \<notin> A" "pending_key ns \<notin> A" "task_counts_key ns \<notin> A" "job_key ns jid \<notin> A"
    using A queue_keys_mem by blast+
  case True
  with k show ?thesis using requeue_script_lost [OF True] by (simp add: frame_simps)
next
  have k: "reserved_key ns \<notin> A" "pending_key ns \<notin> A" "task_counts_key ns \<notin> A" "job_key ns jid \<notin> A"
    using A queue_keys_mem by blast+
  case False
  have m: "same_at A (V s) (v_requeue ns jid x ttl sc (V s))" using k by (simp add: v_requeue_def frame_simps)
  from False show ?thesis
    by (cases rule: requeue_script_cases [where x = x and ttl = ttl and sc = sc and rf = rf and pf = pf and ct = ct])
       (use k m in \<open>simp_all add: frame_simps\<close>)
qed

section \<open>The calls on the store\<close>

text \<open>An answer of \<open>finalize_job\<close> that is not 0 means that the job had a slot and that slot and record are gone.\<close>

lemma finalize_job_dedupe:
  "(if tk \<noteq> [] \<and> wid \<noteq> [] then dedupe_key ns tk wid else []) = [] \<or>
   (\<exists>x y. (if tk \<noteq> [] \<and> wid \<noteq> [] then dedupe_key ns tk wid else []) = dedupe_key ns x y)"
  by auto

lemma finalize_job_keeps:
  assumes "P (V s)" and "\<And>s1. V s1 = V s \<Longrightarrow> P (V (snd (fin_script ns jid
        (if tk \<noteq> [] \<and> wid \<noteq> [] then dedupe_key ns tk wid else [])
        (if tk \<noteq> [] then reserved_count_field tk else []) (max 1 ttl) s1)))"
  shows "P (V (snd (finalize_job R ns jid tk wid ttl s)))"
proof -
  have "snd (finalize_job R ns jid tk wid ttl s) = snd (rpc_script R (fin_script ns jid
        (if tk \<noteq> [] \<and> wid \<noteq> [] then dedupe_key ns tk wid else [])
        (if tk \<noteq> [] then reserved_count_field tk else []) (max 1 ttl)) s)"
    by (simp add: finalize_job_def case_prod_beta split: sum.split)
  then show ?thesis using rpc_script_invariant [where I = P, OF assms] by simp
qed

lemma finalize_job_done:
  assumes run: "finalize_job R ns jid tk wid ttl s = (n, s')" and n: "n \<noteq> 0"
  shows "n = 1" and "resv ns (V s) jid \<noteq> None" and "resv ns (V s') = (resv ns (V s))(jid := None)"
    and "pend ns (V s') = pend ns (V s)" and "kv (V s') (job_key ns jid) = None"
    and "tk \<noteq> [] \<Longrightarrow> wid \<noteq> [] \<Longrightarrow> kv (V s') (dedupe_key ns tk wid) = None"
proof -
  let ?dd = "if tk \<noteq> [] \<and> wid \<noteq> [] then dedupe_key ns tk wid else []"
  let ?f = "if tk \<noteq> [] then reserved_count_field tk else []"
  from run n have "rpc_script R (fin_script ns jid ?dd ?f (max 1 ttl)) s = (Inr n, s')"
    by (auto simp: finalize_job_def case_prod_beta prod_eq_iff split: sum.splits)
  then obtain s1 where V1: "V s1 = V s" and f: "fin_script ns jid ?dd ?f (max 1 ttl) s1 = (Inr n, s')"
    by (rule rpc_script_Inr)
  note S = finalize_script_sets [where ns = ns and jid = jid and dedupe = ?dd and fld = ?f and ttl = "max 1 ttl" and s = s1,
      OF finalize_job_dedupe]
  from S f V1 show "resv ns (V s') = (resv ns (V s))(jid := None)" "pend ns (V s') = pend ns (V s)"
    "kv (V s') (job_key ns jid) = None" by simp_all
  show "tk \<noteq> [] \<Longrightarrow> wid \<noteq> [] \<Longrightarrow> kv (V s') (dedupe_key ns tk wid) = None"
    using S(4) f by (simp add: dedupe_key_def ns_key_def)
  have "resv ns (V s1) jid \<noteq> None \<and> n = 1"
  proof -
    have z: "fst (r_zrem R s1 (reserved_key ns) jid) = (if resv ns (V s1) jid = None then 0 else 1)" by simp
    have "n = fst (r_zrem R s1 (reserved_key ns) jid)"
      using f unfolding finalize_job_lua_def Let_def case_prod_beta by (auto split: if_splits sum.splits)
    with z n show ?thesis by (auto split: if_splits)
  qed
  with V1 show "n = 1" "resv ns (V s) jid \<noteq> None" by simp_all
qed

lemma finalize_job_inv:
  assumes "queue_inv owner ns (V s)" and "owner jid = tk" and "tk \<noteq> []"
  shows "queue_inv owner ns (V (snd (finalize_job R ns jid tk wid ttl s)))"
  by (rule finalize_job_keeps [where P = "queue_inv owner ns", OF assms(1)])
     (use assms in \<open>auto intro!: finalize_script_inv\<close>)

lemma finalize_job_frame:
  assumes "A \<inter> queue_keys ns = {}"
  shows "same_at A (V s) (V (snd (finalize_job R ns jid tk wid ttl s)))"
  by (rule finalize_job_keeps [where P = "same_at A (V s)"])
     (use finalize_script_frame [OF finalize_job_dedupe assms] in \<open>simp, metis\<close>)

text \<open>
  A requeue that answers REQUEUED took the job's own slot back to the pending set, with a
  record that keeps the wait deadline the job already had.
\<close>

lemma eval_requeue_done:
  assumes "eval_requeue R ns jid snapshot ttl score tk ct s = (Inr n, s')" and n: "n \<noteq> 0"
  shows "resv ns (V s) jid \<noteq> None" and "pend ns (V s') = (pend ns (V s))(jid \<mapsto> score)"
    and "resv ns (V s') = (resv ns (V s))(jid := None)" and "kv (V s') (job_key ns jid) = Some snapshot"
proof -
  let ?rf = "if tk \<noteq> [] then reserved_count_field tk else []"
  let ?pf = "if tk \<noteq> [] then pending_count_field tk else []"
  from assms(1) obtain s1 where V1: "V s1 = V s"
    and f: "req_script ns jid snapshot (max 1 ttl) score ?rf ?pf (max 1 ct) s1 = (Inr n, s')"
    unfolding eval_requeue_def by (rule rpc_script_Inr)
  from f have one: "n = (if resv ns (V s1) jid = None then 0 else 1)"
    using requeue_script_one [of ns jid snapshot "max 1 ttl" score ?rf ?pf "max 1 ct" s1 n] by simp
  with n have r: "resv ns (V s1) jid \<noteq> None" by (auto split: if_splits)
  note S = requeue_script_sets [OF r, where x = snapshot and ttl = "max 1 ttl" and sc = score and rf = ?rf
      and pf = ?pf and ct = "max 1 ct"]
  from r V1 show "resv ns (V s) jid \<noteq> None" by simp
  from S f V1 show "pend ns (V s') = (pend ns (V s))(jid \<mapsto> score)"
    "resv ns (V s') = (resv ns (V s))(jid := None)" "kv (V s') (job_key ns jid) = Some snapshot" by simp_all
qed

lemma eval_requeue_inv:
  assumes "queue_inv owner ns (V s)" and "owner jid = tk" and "tk \<noteq> []"
  shows "queue_inv owner ns (V (snd (eval_requeue R ns jid snapshot ttl score tk ct s)))"
  unfolding eval_requeue_def
  by (rule rpc_script_invariant [where I = "queue_inv owner ns", OF assms(1)])
     (use assms in \<open>simp add: requeue_script_inv\<close>)

lemma requeue_requeued:
  assumes "requeue R reg uid q job ready ttl s = (RQ_REQUEUED, s')"
  shows "resv (qc_namespace q) (V s) (job_id job) \<noteq> None"
    and "pend (qc_namespace q) (V s') = (pend (qc_namespace q) (V s))(job_id job \<mapsto> ready)"
    and "resv (qc_namespace q) (V s') = (resv (qc_namespace q) (V s))(job_id job := None)"
    and "\<exists>d. kv (V s') (job_key (qc_namespace q) (job_id job)) =
             Some (job_snapshot (job\<lparr>ready_at := ready, wait_deadline_at := d\<rparr>))
           \<and> (wait_deadline_at job \<noteq> 0 \<longrightarrow> d = wait_deadline_at job)"
proof -
  obtain now s1 where w: "wall R s = (now, s1)" by force
  have V1: "V s1 = V s" using law_wall [of s] w by simp
  obtain d t where c: "compute_wait_deadline now ready ttl (wait_deadline_at job) = (d, t)" by force
  obtain t' where t: "t = Some t'" using assms w c by (cases t) (simp_all add: requeue_def)
  let ?job = "job\<lparr>ready_at := ready, wait_deadline_at := d\<rparr>"
  obtain r s2 where e: "eval_requeue R (qc_namespace q) (job_id ?job) (job_snapshot ?job) t' ready (task_key ?job)
      TASK_COUNTS_TTL_SECONDS s1 = (r, s2)" by force
  from assms w c t e obtain n where n: "r = Inr n" "n \<noteq> 0" "s2 = s'"
    by (auto simp: requeue_def Let_def split: sum.splits if_splits)
  note D = eval_requeue_done [OF e [unfolded n(1)] n(2)]
  have "wait_deadline_at job \<noteq> 0 \<longrightarrow> d = wait_deadline_at job"
    using deadline_kept [of "wait_deadline_at job" now ready ttl] c by simp
  with D V1 n(3) show "resv (qc_namespace q) (V s) (job_id job) \<noteq> None"
    "pend (qc_namespace q) (V s') = (pend (qc_namespace q) (V s))(job_id job \<mapsto> ready)"
    "resv (qc_namespace q) (V s') = (resv (qc_namespace q) (V s))(job_id job := None)"
    "\<exists>d. kv (V s') (job_key (qc_namespace q) (job_id job)) =
             Some (job_snapshot (job\<lparr>ready_at := ready, wait_deadline_at := d\<rparr>))
           \<and> (wait_deadline_at job \<noteq> 0 \<longrightarrow> d = wait_deadline_at job)"
    by auto
qed

lemma requeue_inv:
  assumes reg: "\<forall>(k, p)\<in>set reg. qc_namespace p = k" and ns: "qc_namespace q = ns" "job_namespace job = ns" "ns \<noteq> []"
    and inv: "queue_inv owner ns (V s)" and tk: "owner (job_id job) = task_key job" "task_key job \<noteq> []"
  shows "queue_inv owner ns (V (snd (requeue R reg uid q job ready ttl s)))"
proof -
  obtain now s1 where w: "wall R s = (now, s1)" by force
  have i1: "queue_inv owner ns (V s1)" using law_wall [of s] w inv by simp
  obtain d t where c: "compute_wait_deadline now ready ttl (wait_deadline_at job) = (d, t)" by force
  show ?thesis
  proof (cases t)
    case None
    then show ?thesis using w c discard_orphaned_job_inv [OF reg ns(3) i1 tk] ns by (simp add: requeue_def)
  next
    case (Some t')
    let ?job = "job\<lparr>ready_at := ready, wait_deadline_at := d\<rparr>"
    have "snd (requeue R reg uid q job ready ttl s) = snd (eval_requeue R ns (job_id ?job) (job_snapshot ?job) t' ready
        (task_key ?job) TASK_COUNTS_TTL_SECONDS s1)"
      using w c Some ns by (simp add: requeue_def Let_def case_prod_beta split: sum.split)
    then show ?thesis using eval_requeue_inv [OF i1, of "job_id ?job" "task_key ?job"] tk by simp
  qed
qed

text \<open>Whatever a requeue answers, no slot but the job's own is given up, and nothing is sent.\<close>

lemma requeue_slots:
  assumes reg: "\<forall>(k, p)\<in>set reg. qc_namespace p = k" and ns: "qc_namespace q = ns" "job_namespace job = ns" "ns \<noteq> []"
  shows "resv ns (V (snd (requeue R reg uid q job ready ttl s))) = resv ns (V s)
       \<or> resv ns (V (snd (requeue R reg uid q job ready ttl s))) = (resv ns (V s))(job_id job := None)"
    and "sent (V (snd (requeue R reg uid q job ready ttl s))) = sent (V s)"
proof -
  let ?I = "\<lambda>v. (resv ns v = resv ns (V s) \<or> resv ns v = (resv ns (V s))(job_id job := None)) \<and> sent v = sent (V s)"
  obtain now s1 where w: "wall R s = (now, s1)" by force
  have V1: "V s1 = V s" using law_wall [of s] w by simp
  obtain d t where c: "compute_wait_deadline now ready ttl (wait_deadline_at job) = (d, t)" by force
  have "?I (V (snd (requeue R reg uid q job ready ttl s)))"
  proof (cases t)
    case None
    obtain ok s2 where dis: "discard_orphaned_job R reg uid q (job_id job) (task_key job) ns [] EXPIRED s1 = (ok, s2)" by force
    have "only_job ns (job_id job) (V s1) (V s2)" using discard_orphaned_job_target(1) [OF reg ns(3) dis] .
    moreover have "same_at {} (V s1) (V s2)"
      using discard_orphaned_job_frame [OF reg ns(3), where A = "{}" and s = s1 and uid = uid and q = q and jid = "job_id job"
          and tk = "task_key job" and wid = "[]" and outcome = EXPIRED] dis by simp
    ultimately show ?thesis using w c None dis ns(1,2) V1 by (auto simp: requeue_def only_job_def same_at_def)
  next
    case (Some t')
    let ?job = "job\<lparr>ready_at := ready, wait_deadline_at := d\<rparr>"
    have eq: "snd (requeue R reg uid q job ready ttl s) = snd (eval_requeue R ns (job_id ?job) (job_snapshot ?job) t' ready
        (task_key ?job) TASK_COUNTS_TTL_SECONDS s1)"
      using w c Some ns by (simp add: requeue_def Let_def case_prod_beta split: sum.split)
    have step: "?I (V (snd (req_script ns (job_id job) x tl sc rf pf ct u)))" if "V u = V s1" for x tl sc rf pf ct u
    proof -
      have "same_at {} (V u) (V (snd (req_script ns (job_id job) x tl sc rf pf ct u)))" by (rule requeue_script_frame) simp
      moreover have "resv ns (V (snd (req_script ns (job_id job) x tl sc rf pf ct u))) = (resv ns (V u))(job_id job := None)"
        using requeue_script_lost [where ns = ns and s = u and jid = "job_id job"]
          requeue_script_sets(2) [where ns = ns and s = u and jid = "job_id job"]
        by (cases "resv ns (V u) (job_id job) = None") auto
      ultimately show ?thesis using that V1 by (simp add: same_at_def)
    qed
    have "?I (V (snd (eval_requeue R ns (job_id ?job) (job_snapshot ?job) t' ready (task_key ?job) TASK_COUNTS_TTL_SECONDS s1)))"
      unfolding eval_requeue_def
      by (rule rpc_script_invariant [where I = ?I]) (use V1 step in simp_all)
    then show ?thesis unfolding eq by simp
  qed
  then show "resv ns (V (snd (requeue R reg uid q job ready ttl s))) = resv ns (V s)
       \<or> resv ns (V (snd (requeue R reg uid q job ready ttl s))) = (resv ns (V s))(job_id job := None)"
    and "sent (V (snd (requeue R reg uid q job ready ttl s))) = sent (V s)" by blast+
qed

end

end
