(* ===== verification/Records.thy ===== *)
theory Records
  imports Admission Reservation Lifecycle
begin

text \<open>
  The job records of one queue as a typed store. Every value under \<open>dispatch:{ns}:job:{jid}\<close> that
  decodes is a job that names itself: its id is the one of the key, its namespace the one of the
  queue, its task the one the id belongs to. Every operation that writes a record keeps this, the
  others write none.
\<close>

section \<open>Well-formed jobs and records\<close>

definition owned_job :: "(string \<Rightarrow> string) \<Rightarrow> string \<Rightarrow> dispatch_job \<Rightarrow> bool" where
  "owned_job owner ns j \<longleftrightarrow> owner (job_id j) = task_key j \<and> task_key j \<noteq> [] \<and> job_namespace j = ns"

definition record_owned :: "(string \<Rightarrow> string) \<Rightarrow> string \<Rightarrow> string \<Rightarrow> pyval \<Rightarrow> bool" where
  "record_owned owner ns jid raw \<longleftrightarrow> (\<forall>j. decode_job raw = Inr j \<longrightarrow> job_id j = jid \<and> owned_job owner ns j)"

definition records_owned :: "(string \<Rightarrow> string) \<Rightarrow> string \<Rightarrow> view \<Rightarrow> bool" where
  "records_owned owner ns v \<longleftrightarrow> (\<forall>jid raw. kv v (job_key ns jid) = Some raw \<longrightarrow> record_owned owner ns jid raw)"

text \<open>Records that were there before, or are gone.\<close>

definition records_kept :: "string \<Rightarrow> view \<Rightarrow> view \<Rightarrow> bool" where
  "records_kept ns v v' \<longleftrightarrow> (\<forall>jid. kv v' (job_key ns jid) = kv v (job_key ns jid) \<or> kv v' (job_key ns jid) = None)"

lemma records_kept_refl [simp]: "records_kept ns v v"
  by (simp add: records_kept_def)

lemma records_kept_trans: "records_kept ns u v \<Longrightarrow> records_kept ns v w \<Longrightarrow> records_kept ns u w"
  unfolding records_kept_def by metis

lemma records_kept_owned: "records_owned owner ns v \<Longrightarrow> records_kept ns v v' \<Longrightarrow> records_owned owner ns v'"
  unfolding records_owned_def records_kept_def by (metis option.distinct(1))

lemma records_kept_same: "same_at (queue_keys ns) v v' \<Longrightarrow> records_kept ns v v'"
  by (simp add: records_kept_def same_at_def)

lemma records_kept_only: "only_job ns jid v v' \<Longrightarrow> records_kept ns v v'"
  unfolding only_job_def records_kept_def by metis

lemma records_owned_upd:
  assumes "records_owned owner ns v" and "record_owned owner ns jid raw"
    and "kv v' (job_key ns jid) = Some raw"
    and "\<And>j. j \<noteq> jid \<Longrightarrow> kv v' (job_key ns j) = kv v (job_key ns j)"
  shows "records_owned owner ns v'"
  using assms unfolding records_owned_def by (metis option.inject)

lemma decode_snapshot_fields:
  "decode_job (job_snapshot j) = Inr j' \<Longrightarrow> job_id j' = job_id j \<and> task_key j' = task_key j \<and> job_namespace j' = job_namespace j"
  by (auto simp: decode_job_snapshot job_from_dict_def job_to_dict_def dict_item_def dict_get_def str_of_def
      dict_of_def py_or_def split: if_splits)

lemma snapshot_owned: "owned_job owner ns j \<Longrightarrow> record_owned owner ns (job_id j) (job_snapshot j)"
  using decode_snapshot_fields unfolding record_owned_def owned_job_def by metis

lemma owned_job_upd [simp]:
  "owned_job owner ns (j\<lparr>wait_deadline_at := d\<rparr>) = owned_job owner ns j"
  "owned_job owner ns (j\<lparr>ready_at := r\<rparr>) = owned_job owner ns j"
  "owned_job owner ns (j\<lparr>retry_count := n\<rparr>) = owned_job owner ns j"
  by (simp_all add: owned_job_def)

section \<open>The operations\<close>

context redis
begin

lemma enqueue_jobs_records:
  assumes run: "enqueue_jobs R ns jobs dedupe ttls mx s = (out, s')"
    and jobs: "\<forall>j\<in>set jobs. owned_job owner ns j" and recs: "records_owned owner ns (V s)"
  shows "records_owned owner ns (V s')"
  using run
proof (cases rule: enqueue_jobs_run)
  case untouched
  then show ?thesis using recs by simp
next
  case (ran s1 now t0)
  let ?args = "map (enqueue_arg_of ns dedupe) (ready_jobs now jobs ttls)"
  let ?W = "\<lambda>a. arg_wf (\<lambda>_. []) ns [] a \<and> record_owned owner ns (ea_job_id a) (ea_snapshot a)"
  have "record_owned owner ns (ea_job_id a) (ea_snapshot a)" if a: "a \<in> set ?args" for a
  proof -
    from a obtain j t where jt: "(j, t) \<in> set (ready_jobs now jobs ttls)" "a = enqueue_arg_of ns dedupe (j, t)" by auto
    from ready_jobs_mem [OF jt(1)] jobs have "owned_job owner ns j" by auto
    from snapshot_owned [OF this] show ?thesis by (simp add: jt(2) enqueue_arg_of_def)
  qed
  then have W: "\<forall>a\<in>set ?args. ?W a" using enqueue_args_wf [of jobs "\<lambda>_. []" "[]" ns dedupe now ttls] by simp
  obtain sts acc s2 where l: "enq_loop ns (present (V s1) (producer_gate_key ns)) dedupe (max 1 mx) ?args
      (int (admitted_count ns (V s1))) 0 s1 = (sts, acc, s2)" by (metis prod_cases3)
  let ?I = "\<lambda>(_::int) (_::int) v. records_owned owner ns v"
  have "\<exists>adm'. ?I adm' acc (V s2)"
  proof (rule enqueue_loop_induct [OF l _ W, of ?I, THEN conjunct1])
    show "?I (int (admitted_count ns (V s1))) 0 (V s1)" using recs ran(1) by simp
    fix a :: enqueue_arg and adm1 acc1 :: int and v
    assume a: "?W a" and I: "?I adm1 acc1 v"
    then show "?I (adm1 + 1) (acc1 + 1) (v_admit ns dedupe a v)"
      by (intro records_owned_upd [where jid = "ea_job_id a" and raw = "ea_snapshot a", OF I]) (auto simp: v_admit_kv)
  qed
  then have "records_owned owner ns (V s2)" by simp
  then show ?thesis unfolding ran(5) records_owned_def enqueue_script_sets(3) [OF l] .
qed

lemma reserve_jobs_records:
  assumes run: "reserve_jobs R ns jobs config ttls tick bud s = (out, s')"
    and jobs: "\<forall>j\<in>set jobs. owned_job owner ns j" and recs: "records_owned owner ns (V s)"
  shows "records_owned owner ns (V s')"
  using run
proof (cases rule: reserve_jobs_run)
  case untouched
  then show ?thesis using recs by simp
next
  case (ran s1 now)
  let ?args = "map (reserve_arg_of ns) (zip jobs ttls)"
  let ?W = "\<lambda>a. rarg_keys ns a \<and> record_owned owner ns (ra_job_id a) (ra_snapshot a)"
  have "record_owned owner ns (ra_job_id a) (ra_snapshot a)" if a: "a \<in> set ?args" for a
  proof -
    from a obtain j t where jt: "(j, t) \<in> set (zip jobs ttls)" "a = reserve_arg_of ns (j, t)" by auto
    from set_zip_leftD [OF jt(1)] jobs have "owned_job owner ns j" by simp
    then have "owned_job owner ns (j\<lparr>wait_deadline_at := 0\<rparr>)" by simp
    from snapshot_owned [OF this] show ?thesis by (simp add: jt(2) reserve_arg_of_def)
  qed
  then have W: "\<forall>a\<in>set ?args. ?W a" using reserve_args_keys [of ns jobs ttls] by simp
  let ?tick = "tick_counter_key ns tick"
  obtain r s2 where l: "res_loop ns now (max 1 (max_reserved config)) (max 1 bud) TASK_COUNTS_TTL_SECONDS ?args
      (int (card (dom (resv ns (V s1))))) (tick_used (kv (V s1) ?tick)) 0 s1 = (r, s2)"
    and v': "case r of Inl e \<Rightarrow> res_script ns tick now (max 1 (max_reserved config)) (max 1 bud) TICK_COUNTER_TTL_SECONDS
              TASK_COUNTS_TTL_SECONDS ?args s1 = (Inl e, s2)
         | Inr (sts, used, newly) \<Rightarrow> fst (res_script ns tick now (max 1 (max_reserved config)) (max 1 bud)
              TICK_COUNTER_TTL_SECONDS TASK_COUNTS_TTL_SECONDS ?args s1) = Inr sts
             \<and> V (snd (res_script ns tick now (max 1 (max_reserved config)) (max 1 bud) TICK_COUNTER_TTL_SECONDS
                 TASK_COUNTS_TTL_SECONDS ?args s1)) =
               (if 0 < newly then v_set ?tick (PInt (the used)) (Some TICK_COUNTER_TTL_SECONDS) (V s2) else V s2)"
    by (rule reserve_script_run)
  let ?J = "records_owned owner ns"
  let ?I = "\<lambda>(_::int) (_::int option) (_::int) v. ?J v"
  have mv: "?J (v_reserved ns cttl now a v) \<and> ?J (v_aborted ns now a v)" if "?W a" "?J v" for a v cttl
    using that by (auto intro!: records_owned_upd [where jid = "ra_job_id a" and raw = "ra_snapshot a", OF that(2)]
        simp: v_reserved_sets v_move_kv)
  have "case r of Inl e \<Rightarrow> ?J (V s2)
       | Inr (sts, used', newly') \<Rightarrow> (\<exists>n'. ?I n' used' newly' (V s2)) \<and> length sts = length ?args \<and> set sts \<subseteq> {1, 2, 3, 4}
           \<and> newly' = 0 + int (count_if (\<lambda>st. st = 1) sts)"
    by (rule reserve_loop_induct [OF l _ W, of ?I ?J]) (use mv recs ran(1) in \<open>blast | simp\<close>)+
  then have "?J (V s2)" by (auto split: sum.splits)
  moreover have "kv (V s') (job_key ns j) = kv (V s2) (job_key ns j)" for j
    using v' unfolding ran(3) by (auto split: sum.splits)
  ultimately show ?thesis unfolding records_owned_def by simp
qed

lemma finalize_job_records: "records_kept ns (V s) (V (snd (finalize_job R ns jid tk wid ttl s)))"
  by (rule finalize_job_keeps [where P = "records_kept ns (V s)"])
     (simp_all add: records_kept_def finalize_script_sets(3) [OF finalize_job_dedupe])

lemma requeue_records:
  assumes reg: "\<forall>(k, p)\<in>set reg. qc_namespace p = k" and ns: "qc_namespace q = ns" "ns \<noteq> []"
    and job: "owned_job owner ns job" and run: "requeue R reg uid q job ready ttl s = (r, s')"
    and recs: "records_owned owner ns (V s)"
  shows "records_owned owner ns (V s')"
proof -
  obtain now s1 where w: "wall R s = (now, s1)" by force
  have V1: "V s1 = V s" using law_wall [of s] w by simp
  have jns: "job_namespace job = ns" using job by (simp add: owned_job_def)
  obtain d t where c: "compute_wait_deadline now ready ttl (wait_deadline_at job) = (d, t)" by force
  show ?thesis
  proof (cases t)
    case None
    obtain ok s2 where dis: "discard_orphaned_job R reg uid q (job_id job) (task_key job) ns [] EXPIRED s1 = (ok, s2)" by force
    have "s' = s2" using run w c None dis ns jns by (simp add: requeue_def)
    moreover have "records_kept ns (V s) (V s2)"
      using records_kept_only [OF discard_orphaned_job_target(1) [OF reg ns(2) dis]] V1 by simp
    ultimately show ?thesis using records_kept_owned [OF recs] by simp
  next
    case (Some t')
    let ?job = "job\<lparr>ready_at := ready, wait_deadline_at := d\<rparr>"
    have own: "record_owned owner ns (job_id job) (job_snapshot ?job)"
      using snapshot_owned [of owner ns ?job] job by simp
    have eq: "s' = snd (eval_requeue R ns (job_id ?job) (job_snapshot ?job) t' ready (task_key ?job) TASK_COUNTS_TTL_SECONDS s1)"
      using run w c Some ns by (auto simp: requeue_def Let_def case_prod_beta split: sum.splits)
    show ?thesis
      unfolding eq eval_requeue_def
    proof (rule rpc_script_invariant [where I = "records_owned owner ns"])
      show "records_owned owner ns (V s1)" using recs V1 by simp
      fix u assume "V u = V s1"
      then have u: "records_owned owner ns (V u)" using recs V1 by simp
      show "records_owned owner ns (V (snd (req_script ns (job_id ?job) (job_snapshot ?job) (max 1 t') ready
          (if task_key ?job \<noteq> [] then reserved_count_field (task_key ?job) else [])
          (if task_key ?job \<noteq> [] then pending_count_field (task_key ?job) else []) (max 1 TASK_COUNTS_TTL_SECONDS) u)))"
      proof (cases "resv ns (V u) (job_id job) = None")
        case True
        then show ?thesis
          using u requeue_script_lost [OF True] by (simp add: records_owned_def)
      next
        case False
        show ?thesis
          by (rule records_owned_upd [where jid = "job_id job" and raw = "job_snapshot ?job", OF u own])
             (simp_all add: requeue_script_sets(3) [OF False])
      qed
    qed
  qed
qed

lemma discard_records:
  assumes "\<forall>(k, p)\<in>set reg. qc_namespace p = k" and "ns \<noteq> []"
    and "discard_orphaned_job R reg uid q jid tk ns wid outcome s = (ok, s')"
  shows "records_kept ns (V s) (V s')"
  by (rule records_kept_only [OF discard_orphaned_job_target(1) [OF assms]])

text \<open>A job that is read back belongs to the queue it was read from.\<close>

lemma get_job_owned:
  assumes "records_owned owner ns (V s)" and "get_job R ns jid s = (Some job, s')"
  shows "job_id job = jid \<and> owned_job owner ns job"
proof -
  obtain x s1 where x: "rread R (\<lambda>s. r_get R s (job_key ns jid)) s = (x, s1)" by force
  with assms(2) obtain raw where raw: "x = Inr (Some raw)" "decode_job raw = Inr job"
    by (auto simp: get_job_def split: sum.splits option.splits if_splits)
  from x [unfolded raw rread_def] obtain u where "V u = V s" "(r_get R u (job_key ns jid), u) = (Some raw, s1)"
    by (rule rpc_Inr)
  then have "kv (V s) (job_key ns jid) = Some raw" by simp
  with assms(1) raw(2) show ?thesis by (auto simp: records_owned_def record_owned_def)
qed

end

end
