(* ===== verification/Queue_System.thy ===== *)
theory Queue_System
  imports Records
begin

text \<open>
  The queue as a whole. A job of a queue is absent, pending or reserved; the abstract
  specification says which of these moves a single operation may make, and every operation of
  the code is shown to refine it. On top, a step relation interleaves the operations that
  different processes run on one queue: producers (\<open>QueueAdmission.enqueue_jobs\<close>), the pump
  (\<open>QueueReservation.reserve_jobs\<close> and the Celery hand-over), workers
  (\<open>QueueLifecycle.finalize_job\<close> and \<open>requeue\<close>) and the reaper
  (\<open>OrphanReaper.discard_orphaned_job\<close>). Each Lua script is atomic in Redis, so any interleaving
  of the calls is a path of this relation.
\<close>

section \<open>The life of a job\<close>

datatype job_state = Absent | Pending | Reserved

definition job_state :: "string \<Rightarrow> view \<Rightarrow> string \<Rightarrow> job_state" where
  "job_state ns v jid =
     (if resv ns v jid \<noteq> None then Reserved else if pend ns v jid \<noteq> None then Pending else Absent)"

lemma job_state_simps:
  "job_state ns v jid = Reserved \<longleftrightarrow> resv ns v jid \<noteq> None"
  "job_state ns v jid = Absent \<longleftrightarrow> resv ns v jid = None \<and> pend ns v jid = None"
  "slots_disjoint ns v \<Longrightarrow> job_state ns v jid = Pending \<longleftrightarrow> pend ns v jid \<noteq> None"
  by (auto simp: job_state_def slots_disjoint_def)

text \<open>The moves each operation may make, per job.\<close>

datatype operation = Enqueue | Reserve | Finalize | Requeue | Discard

fun allowed :: "operation \<Rightarrow> job_state \<Rightarrow> job_state \<Rightarrow> bool" where
  "allowed Enqueue a b \<longleftrightarrow> a = b \<or> (a = Absent \<and> b = Pending)"
| "allowed Reserve a b \<longleftrightarrow> a = b \<or> (a = Pending \<and> b = Reserved)"
| "allowed Finalize a b \<longleftrightarrow> a = b \<or> (a = Reserved \<and> b = Absent)"
| "allowed Requeue a b \<longleftrightarrow> a = b \<or> (a = Reserved \<and> b = Pending) \<or> b = Absent"
| "allowed Discard a b \<longleftrightarrow> a = b \<or> b = Absent"

text \<open>An operation refines its abstract step when every job moves as allowed.\<close>

definition job_moves :: "operation \<Rightarrow> string \<Rightarrow> view \<Rightarrow> view \<Rightarrow> bool" where
  "job_moves opr ns v v' \<longleftrightarrow> (\<forall>jid. allowed opr (job_state ns v jid) (job_state ns v' jid))"

lemma job_state_cong: "zs v' = zs v \<Longrightarrow> job_state ns v' jid = job_state ns v jid"
  by (simp add: job_state_def)

lemma job_moves_same:
  "pend ns v' = pend ns v \<Longrightarrow> resv ns v' = resv ns v \<Longrightarrow> job_moves opr ns v v'"
  by (cases opr) (simp_all add: job_moves_def job_state_def)

lemma only_job_moves:
  assumes "only_job ns jid v v'" and "slots_disjoint ns v"
  shows "job_moves Discard ns v v'"
proof -
  have "allowed Discard (job_state ns v j) (job_state ns v' j)" for j
  proof -
    have "pend ns v' j = pend ns v j \<or> pend ns v' j = None" "resv ns v' j = resv ns v j \<or> resv ns v' j = None"
      using assms(1) unfolding only_job_def by (metis fun_upd_apply)+
    moreover have "pend ns v j = None \<or> resv ns v j = None" using assms(2) by (auto simp: slots_disjoint_def)
    ultimately show ?thesis by (elim disjE) (simp_all add: job_state_def)
  qed
  then show ?thesis by (simp add: job_moves_def)
qed

section \<open>What each operation does to the two sorted sets\<close>

context redis
begin

lemma enqueue_loop_sets:
  assumes "enq_loop ns paused True mx args adm acc s = (sts, acc', s')" and "\<forall>a\<in>set args. arg_wf owner ns tk a"
  shows "resv ns (V s') = resv ns (V s)
    \<and> (\<forall>j. pend ns (V s') j = pend ns (V s) j \<or> (pend ns (V s) j = None \<and> resv ns (V s) j = None))"
proof -
  let ?I = "\<lambda>(_::int) (_::int) v. resv ns v = resv ns (V s)
      \<and> (\<forall>j. pend ns v j = pend ns (V s) j \<or> (pend ns (V s) j = None \<and> resv ns (V s) j = None))"
  have "\<exists>adm'. ?I adm' acc' (V s')"
  proof (rule enqueue_loop_induct [OF assms(1) _ assms(2), of ?I, THEN conjunct1])
    fix a :: enqueue_arg and adm1 acc1 v
    assume I: "?I adm1 acc1 v" and free: "True \<Longrightarrow> pend ns v (ea_job_id a) = None \<and> resv ns v (ea_job_id a) = None"
    then have "pend ns (V s) (ea_job_id a) = None" "resv ns (V s) (ea_job_id a) = None" by metis+
    with I show "?I (adm1 + 1) (acc1 + 1) (v_admit ns True a v)" by (simp add: v_admit_sets)
  qed simp
  then show ?thesis by blast
qed

lemma enqueue_jobs_sets:
  assumes "enqueue_jobs R ns jobs True ttls mx s = (out, s')"
  shows "resv ns (V s') = resv ns (V s)
    \<and> (\<forall>j. pend ns (V s') j = pend ns (V s) j \<or> (pend ns (V s) j = None \<and> resv ns (V s) j = None))"
  using assms
proof (cases rule: enqueue_jobs_run)
  case untouched
  then show ?thesis by simp
next
  case (ran s1 now t0)
  have wf: "\<forall>a\<in>set (map (enqueue_arg_of ns True) (ready_jobs now jobs ttls)). arg_wf (\<lambda>_. []) ns [] a"
    by (rule enqueue_args_wf) simp
  obtain sts acc s2 where l: "enq_loop ns (present (V s1) (producer_gate_key ns)) True (max 1 mx)
      (map (enqueue_arg_of ns True) (ready_jobs now jobs ttls)) (int (admitted_count ns (V s1))) 0 s1 = (sts, acc, s2)"
    by (metis prod_cases3)
  show ?thesis
    using enqueue_loop_sets [OF l wf] unfolding ran(1) ran(5) enqueue_script_sets(1,2) [OF l] .
qed

lemma job_state_moved:
  "job_state ns (v_reserved ns cttl now a v) jid = (if jid = ra_job_id a then Reserved else job_state ns v jid)"
  "job_state ns (v_aborted ns now a v) jid = (if jid = ra_job_id a then Reserved else job_state ns v jid)"
  by (simp_all add: job_state_def v_reserved_sets v_move_sets)

lemma reserve_script_states:
  assumes "\<forall>a\<in>set args. rarg_keys ns a"
  shows "job_moves Reserve ns (V s) (V (snd (res_script ns tick now mx bud tttl cttl args s)))"
proof -
  let ?v' = "V (snd (res_script ns tick now mx bud tttl cttl args s))"
  obtain r s1 where l: "res_loop ns now mx bud cttl args (int (card (dom (resv ns (V s)))))
      (tick_used (kv (V s) (tick_counter_key ns tick))) 0 s = (r, s1)"
    and v': "case r of Inl e \<Rightarrow> res_script ns tick now mx bud tttl cttl args s = (Inl e, s1)
         | Inr (sts, used, newly) \<Rightarrow> fst (res_script ns tick now mx bud tttl cttl args s) = Inr sts
             \<and> ?v' = (if 0 < newly then v_set (tick_counter_key ns tick) (PInt (the used)) (Some tttl) (V s1) else V s1)"
    by (rule reserve_script_run)
  let ?J = "\<lambda>v. job_moves Reserve ns (V s) v"
  let ?I = "\<lambda>(_::int) (_::int option) (_::int) v. ?J v"
  have mv: "?J (v_reserved ns cttl now a v) \<and> ?J (v_aborted ns now a v)"
    if "?J v" "pend ns v (ra_job_id a) \<noteq> None" for a v
  proof -
    have a: "allowed Reserve (job_state ns (V s) (ra_job_id a)) (job_state ns v (ra_job_id a))"
      using that(1) by (simp add: job_moves_def)
    have "job_state ns v (ra_job_id a) \<noteq> Absent" using that(2) by (simp add: job_state_simps)
    with a have "allowed Reserve (job_state ns (V s) (ra_job_id a)) Reserved"
      by (cases "job_state ns (V s) (ra_job_id a)") auto
    with that(1) show ?thesis by (simp add: job_moves_def job_state_moved)
  qed
  have "case r of Inl e \<Rightarrow> ?J (V s1)
       | Inr (sts, used', newly') \<Rightarrow> (\<exists>n'. ?I n' used' newly' (V s1)) \<and> length sts = length args \<and> set sts \<subseteq> {1, 2, 3, 4}
           \<and> newly' = 0 + int (count_if (\<lambda>st. st = 1) sts)"
    by (rule reserve_loop_induct [OF l _ assms, of ?I ?J]) (use mv in \<open>blast intro: job_moves_same | simp\<close>)+
  then have "?J (V s1)" by (auto split: sum.splits)
  moreover have "zs ?v' = zs (V s1)" using v' by (auto split: sum.splits)
  ultimately show ?thesis using job_state_cong [of "V s1" ?v' ns] by (simp add: job_moves_def)
qed

lemma finalize_job_sets:
  "pend ns (V (snd (finalize_job R ns jid tk wid ttl s))) = pend ns (V s)
   \<and> (resv ns (V (snd (finalize_job R ns jid tk wid ttl s))) = resv ns (V s)
      \<or> resv ns (V (snd (finalize_job R ns jid tk wid ttl s))) = (resv ns (V s))(jid := None))"
  by (rule finalize_job_keeps [where P = "\<lambda>v. pend ns v = pend ns (V s) \<and>
        (resv ns v = resv ns (V s) \<or> resv ns v = (resv ns (V s))(jid := None))"])
     (simp_all add: finalize_script_sets(1,2) [OF finalize_job_dedupe])

lemma requeue_script_states:
  assumes "V u = V s"
  shows "let v = V (snd (req_script ns jid x ttl sc rf pf ct u)) in
    (pend ns v = pend ns (V s) \<and> resv ns v = resv ns (V s))
    \<or> (resv ns (V s) jid \<noteq> None \<and> pend ns v = (pend ns (V s))(jid \<mapsto> sc) \<and> resv ns v = (resv ns (V s))(jid := None))"
proof (cases "resv ns (V u) jid = None")
  case True
  from requeue_script_lost [OF this, where x = x and ttl = ttl and sc = sc and rf = rf and pf = pf and ct = ct] True assms
  show ?thesis by (auto simp: fun_eq_iff)
next
  case False
  with requeue_script_sets(1,2) [OF False, where x = x and ttl = ttl and sc = sc and rf = rf and pf = pf and ct = ct] assms
  show ?thesis by simp
qed

lemma requeue_sets:
  assumes reg: "\<forall>(k, p)\<in>set reg. qc_namespace p = k" and ns: "qc_namespace q = ns" "job_namespace job = ns" "ns \<noteq> []"
    and run: "requeue R reg uid q job ready ttl s = (r, s')"
  shows "only_job ns (job_id job) (V s) (V s')
    \<or> (pend ns (V s') = pend ns (V s) \<and> resv ns (V s') = resv ns (V s))
    \<or> (resv ns (V s) (job_id job) \<noteq> None \<and> pend ns (V s') = (pend ns (V s))(job_id job \<mapsto> ready)
        \<and> resv ns (V s') = (resv ns (V s))(job_id job := None))"
proof -
  let ?P = "\<lambda>v. (pend ns v = pend ns (V s) \<and> resv ns v = resv ns (V s))
    \<or> (resv ns (V s) (job_id job) \<noteq> None \<and> pend ns v = (pend ns (V s))(job_id job \<mapsto> ready)
        \<and> resv ns v = (resv ns (V s))(job_id job := None))"
  obtain now s1 where w: "wall R s = (now, s1)" by force
  have V1: "V s1 = V s" using law_wall [of s] w by simp
  obtain d t where c: "compute_wait_deadline now ready ttl (wait_deadline_at job) = (d, t)" by force
  show ?thesis
  proof (cases t)
    case None
    obtain ok s2 where dis: "discard_orphaned_job R reg uid q (job_id job) (task_key job) ns [] EXPIRED s1 = (ok, s2)" by force
    have "s' = s2" using run w c None dis ns by (simp add: requeue_def)
    then show ?thesis using discard_orphaned_job_target(1) [OF reg ns(3) dis] V1 by simp
  next
    case (Some t')
    let ?job = "job\<lparr>ready_at := ready, wait_deadline_at := d\<rparr>"
    have eq: "s' = snd (eval_requeue R ns (job_id ?job) (job_snapshot ?job) t' ready (task_key ?job) TASK_COUNTS_TTL_SECONDS s1)"
      using run w c Some ns by (auto simp: requeue_def Let_def case_prod_beta split: sum.splits)
    have "?P (V s')"
      unfolding eq eval_requeue_def
      by (rule rpc_script_invariant [where I = ?P]) (use V1 requeue_script_states in \<open>simp_all add: Let_def\<close>)
    then show ?thesis by blast
  qed
qed

section \<open>Refinement of the abstract moves\<close>

lemma enqueue_refines:
  assumes "enqueue_jobs R ns jobs True ttls mx s = (out, s')"
  shows "job_moves Enqueue ns (V s) (V s')"
proof -
  have "allowed Enqueue (job_state ns (V s) jid) (job_state ns (V s') jid)" for jid
    using enqueue_jobs_sets [OF assms, THEN conjunct1] spec [OF enqueue_jobs_sets [OF assms, THEN conjunct2], of jid]
    by (elim disjE) (simp_all add: job_state_def)
  then show ?thesis by (simp add: job_moves_def)
qed

lemma reserve_refines:
  assumes "reserve_jobs R ns jobs config ttls tick bud s = (out, s')"
  shows "job_moves Reserve ns (V s) (V s')"
  using assms
proof (cases rule: reserve_jobs_run)
  case untouched
  then show ?thesis by (simp add: job_moves_same)
next
  case (ran s1 now)
  show ?thesis using reserve_script_states [OF reserve_args_keys, where s = s1] ran(1,3) by simp
qed

lemma finalize_refines:
  assumes "slots_disjoint ns (V s)"
  shows "job_moves Finalize ns (V s) (V (snd (finalize_job R ns jid tk wid ttl s)))"
  using finalize_job_sets [of ns jid tk wid ttl s] assms
  by (auto simp: job_moves_def job_state_def slots_disjoint_def)

lemma requeue_refines:
  assumes "\<forall>(k, p)\<in>set reg. qc_namespace p = k" and "qc_namespace q = ns" "job_namespace job = ns" "ns \<noteq> []"
    and "requeue R reg uid q job ready ttl s = (r, s')"
    and "slots_disjoint ns (V s)"
  shows "job_moves Requeue ns (V s) (V s')"
  using requeue_sets [OF assms(1-5)]
proof (elim disjE)
  assume "only_job ns (job_id job) (V s) (V s')"
  from only_job_moves [OF this assms(6)] show ?thesis by (auto simp: job_moves_def)
qed (use assms(6) in \<open>auto simp: job_moves_def job_state_def slots_disjoint_def\<close>)

lemma discard_refines:
  assumes "\<forall>(k, p)\<in>set reg. qc_namespace p = k" and "ns \<noteq> []"
    and "discard_orphaned_job R reg uid q jid tk ns wid outcome s = (ok, s')"
    and "slots_disjoint ns (V s)"
  shows "job_moves Discard ns (V s) (V s')"
  by (rule only_job_moves [OF discard_orphaned_job_target(1) [OF assms(1-3)] assms(4)])

section \<open>How much a queue holds\<close>

lemma only_job_admitted:
  assumes "only_job ns jid (V s) (V s')"
  shows "admitted_count ns (V s') \<le> admitted_count ns (V s)" and "card (dom (resv ns (V s'))) \<le> card (dom (resv ns (V s)))"
  using assms card_dom_del_le [of "pend ns (V s)" jid] card_dom_del_le [of "resv ns (V s)" jid]
  by (auto simp: only_job_def admitted_count_def)

lemma finalize_admitted:
  "admitted_count ns (V (snd (finalize_job R ns jid tk wid ttl s))) \<le> admitted_count ns (V s)"
  "card (dom (resv ns (V (snd (finalize_job R ns jid tk wid ttl s))))) \<le> card (dom (resv ns (V s)))"
  using finalize_job_sets [of ns jid tk wid ttl s] card_dom_del_le [of "resv ns (V s)" jid]
  by (auto simp: admitted_count_def)

lemma requeue_admitted:
  assumes "\<forall>(k, p)\<in>set reg. qc_namespace p = k" and "qc_namespace q = ns" "job_namespace job = ns" "ns \<noteq> []"
    and "requeue R reg uid q job ready ttl s = (r, s')"
  shows "admitted_count ns (V s') \<le> admitted_count ns (V s)
    \<and> card (dom (resv ns (V s'))) \<le> card (dom (resv ns (V s)))"
  using requeue_sets [OF assms]
proof (elim disjE conjE)
  assume "only_job ns (job_id job) (V s) (V s')"
  then show ?thesis using only_job_admitted by blast
next
  assume r: "resv ns (V s) (job_id job) \<noteq> None" and p: "pend ns (V s') = (pend ns (V s))(job_id job \<mapsto> ready)"
    and r': "resv ns (V s') = (resv ns (V s))(job_id job := None)"
  have "card (dom (resv ns (V s))) = Suc (card (dom (resv ns (V s'))))"
    using card_dom_del [of "resv ns (V s)" "job_id job"] r unfolding r' by (auto simp: domIff)
  moreover have "card (dom (pend ns (V s'))) \<le> Suc (card (dom (pend ns (V s))))"
    unfolding p by (rule card_dom_upd_le) simp
  ultimately show ?thesis by (simp add: admitted_count_def)
qed (simp add: admitted_count_def)

end

section \<open>Interleaved operations\<close>

lemma grown_le: "(a::nat) \<le> b \<Longrightarrow> int a \<le> max (int b) c"
  by linarith

lemma ceiling_trans: "(c::int) \<le> max b m \<Longrightarrow> b \<le> max a m \<Longrightarrow> c \<le> max a m"
  by linarith

text \<open>
  The steps that processes working on one queue may take. \<open>config\<close> bounds the limits they work
  with, which may be reloaded in between. \<open>owner\<close> is the task of a job id;
  jobs name their own task and queue (\<open>owned_job\<close>), as \<open>DispatchQueue.new_job\<close> builds them. \<open>other\<close> is
  whatever leaves the two sorted sets and the count hash of this queue alone and writes none of its
  records: clocks, metrics, locks, gates, the expiry of a record or a dedupe key, and every operation
  on another queue.
\<close>

inductive queue_step ::
  "'s env \<Rightarrow> ('s \<Rightarrow> view) \<Rightarrow> queue_registry \<Rightarrow> (string \<Rightarrow> string) \<Rightarrow> string \<Rightarrow> queue_config \<Rightarrow> 's \<Rightarrow> 's \<Rightarrow> bool"
  for R :: "'s env" and V :: "'s \<Rightarrow> view" and reg :: queue_registry and owner :: "string \<Rightarrow> string"
    and ns :: string and config :: queue_config where
  enqueue: "enqueue_jobs R ns jobs True ttls mx s = (out, s') \<Longrightarrow> mx \<le> max_admitted_jobs config \<Longrightarrow>
      \<forall>j\<in>set jobs. owned_job owner ns j \<Longrightarrow> queue_step R V reg owner ns config s s'"
| reserve: "reserve_jobs R ns jobs c ttls tick bud s = (rout, s') \<Longrightarrow> max_reserved c \<le> max_reserved config \<Longrightarrow>
      \<forall>j\<in>set jobs. owned_job owner ns j \<Longrightarrow> queue_step R V reg owner ns config s s'"
| publish: "celery_publish R s jid = (ok, s') \<Longrightarrow> queue_step R V reg owner ns config s s'"
| finalize: "finalize_job R ns jid (owner jid) wid ttl s = (n, s') \<Longrightarrow> owner jid \<noteq> [] \<Longrightarrow>
      queue_step R V reg owner ns config s s'"
| requeue: "requeue R reg uid q job ready ttl s = (res, s') \<Longrightarrow> qc_namespace q = ns \<Longrightarrow>
      owned_job owner ns job \<Longrightarrow> queue_step R V reg owner ns config s s'"
| discard: "discard_orphaned_job R reg uid q jid (owner jid) ns wid outcome s = (gone, s') \<Longrightarrow> owner jid \<noteq> [] \<Longrightarrow>
      queue_step R V reg owner ns config s s'"
| other: "pend ns (V s') = pend ns (V s) \<Longrightarrow> resv ns (V s') = resv ns (V s) \<Longrightarrow>
      hs (V s') (task_counts_key ns) = hs (V s) (task_counts_key ns) \<Longrightarrow> records_kept ns (V s) (V s') \<Longrightarrow>
      queue_step R V reg owner ns config s s'"

inductive_cases queue_stepE: "queue_step R V reg owner ns config s s'"

abbreviation queue_steps ::
  "'s env \<Rightarrow> ('s \<Rightarrow> view) \<Rightarrow> queue_registry \<Rightarrow> (string \<Rightarrow> string) \<Rightarrow> string \<Rightarrow> queue_config \<Rightarrow> 's \<Rightarrow> 's \<Rightarrow> bool" where
  "queue_steps R V reg owner ns config \<equiv> (queue_step R V reg owner ns config)\<^sup>*\<^sup>*"

context redis
begin

lemma queue_inv_other:
  assumes "pend ns v' = pend ns v" and "resv ns v' = resv ns v" and "hs v' (task_counts_key ns) = hs v (task_counts_key ns)"
  shows "queue_inv owner ns v' = queue_inv owner ns v"
proof -
  have "hash_int v' (task_counts_key ns) = hash_int v (task_counts_key ns)" by (simp add: hash_int_def assms(3) fun_eq_iff)
  from counts_ok_cong [OF assms(1,2) this] show ?thesis by (simp add: queue_inv_def slots_disjoint_def assms(1,2))
qed

lemma celery_publish_sets:
  "celery_publish R s jid = (ok, s') \<Longrightarrow> zs (V s') = zs (V s) \<and> hs (V s') = hs (V s) \<and> kv (V s') = kv (V s)"
  using law_publish [of s jid] by (auto split: if_splits)

lemma quiet_step:
  assumes "same_at (queue_keys ns) (V s) (V s')"
  shows "queue_step R V reg owner ns config s s'"
  using assms by (intro queue_step.other) (simp_all add: same_at_def records_kept_same)

lemma view_step: "V s' = V s \<Longrightarrow> queue_step R V reg owner ns config s s'"
  by (rule quiet_step) simp

lemma record_outcome_step:
  "qc_namespace q = ns \<Longrightarrow> queue_step R V reg owner ns config s (record_outcome R q tk oc el fin s)"
  by (rule quiet_step) (rule record_outcome_queue)

lemma queue_step_inv:
  assumes "queue_step R V reg owner ns config s s'" and "\<forall>(k, p)\<in>set reg. qc_namespace p = k" and "ns \<noteq> []"
    and "queue_inv owner ns (V s)"
  shows "queue_inv owner ns (V s')"
  using assms(1)
proof cases
  case (enqueue jobs ttls mx out)
  then show ?thesis using enqueue_jobs_inv assms(4) unfolding owned_job_def by blast
next
  case (reserve jobs c ttls tick bud rout)
  then show ?thesis using reserve_jobs_inv assms(4) unfolding owned_job_def by blast
next
  case (publish jid ok)
  have "queue_inv owner ns (V s') = queue_inv owner ns (V s)"
    by (rule queue_inv_other) (simp_all add: celery_publish_sets [OF publish])
  then show ?thesis using assms(4) by simp
next
  case (finalize jid wid ttl n)
  then show ?thesis using finalize_job_inv [OF assms(4) refl finalize(2), of wid ttl] by simp
next
  case (requeue uid q job ready ttl res)
  from requeue(3) have job: "job_namespace job = ns" "owner (job_id job) = task_key job" "task_key job \<noteq> []"
    by (simp_all add: owned_job_def)
  from requeue(1) requeue_inv [OF assms(2) requeue(2) job(1) assms(3,4) job(2,3), of uid ready ttl] show ?thesis by simp
next
  case (discard uid q jid wid outcome gone)
  then show ?thesis
    using discard_orphaned_job_inv [OF assms(2,3,4) refl discard(2), of uid q wid outcome] by simp
next
  case other
  then show ?thesis using queue_inv_other assms(4) by blast
qed

lemma queue_step_bounds:
  assumes "queue_step R V reg owner ns config s s'" and "\<forall>(k, p)\<in>set reg. qc_namespace p = k" and "ns \<noteq> []"
  shows "int (admitted_count ns (V s')) \<le> max (int (admitted_count ns (V s))) (max 1 (max_admitted_jobs config))
    \<and> int (card (dom (resv ns (V s')))) \<le> max (int (card (dom (resv ns (V s))))) (max 1 (max_reserved config))"
  using assms(1)
proof cases
  case (enqueue jobs ttls mx out)
  then show ?thesis using enqueue_jobs_capacity [OF enqueue(1)] enqueue_jobs_sets [OF enqueue(1)] by (auto simp: max_def split: if_splits)
next
  case (reserve jobs c ttls tick bud rout)
  then show ?thesis using reserve_jobs_slots [OF reserve(1)] by (auto simp: max_def split: if_splits)
next
  case (publish jid ok)
  then show ?thesis using celery_publish_sets [OF publish] by (simp add: admitted_count_def)
next
  case (finalize jid wid ttl n)
  then have s': "s' = snd (finalize_job R ns jid (owner jid) wid ttl s)" by simp
  show ?thesis unfolding s' by (intro conjI grown_le finalize_admitted)
next
  case (requeue uid q job ready ttl res)
  have "job_namespace job = ns" using requeue(3) by (simp add: owned_job_def)
  from requeue_admitted [OF assms(2) requeue(2) this assms(3) requeue(1)] show ?thesis
    by (blast intro: grown_le)
next
  case (discard uid q jid wid outcome gone)
  from only_job_admitted [OF discard_orphaned_job_target(1) [OF assms(2,3) discard(1)]] show ?thesis
    by (blast intro: grown_le)
next
  case other
  then show ?thesis by (simp add: admitted_count_def)
qed

text \<open>Along any path the queue invariant holds and neither ceiling is passed.\<close>

lemma queue_steps_safe:
  assumes "queue_steps R V reg owner ns config s s'" and "\<forall>(k, p)\<in>set reg. qc_namespace p = k" and "ns \<noteq> []"
    and "queue_inv owner ns (V s)"
  shows "queue_inv owner ns (V s')
    \<and> int (admitted_count ns (V s')) \<le> max (int (admitted_count ns (V s))) (max 1 (max_admitted_jobs config))
    \<and> int (card (dom (resv ns (V s')))) \<le> max (int (card (dom (resv ns (V s))))) (max 1 (max_reserved config))"
  using assms(1)
proof (induction rule: rtranclp_induct)
  case base
  then show ?case using assms(4) by simp
next
  case (step t u)
  from queue_step_inv [OF step(2) assms(2,3)] queue_step_bounds [OF step(2) assms(2,3)] step(3)
  show ?case by (blast intro: ceiling_trans)
qed

text \<open>The records stay those of the queue.\<close>

lemma queue_step_records:
  assumes "queue_step R V reg owner ns config s s'" and "\<forall>(k, p)\<in>set reg. qc_namespace p = k" and "ns \<noteq> []"
    and "records_owned owner ns (V s)"
  shows "records_owned owner ns (V s')"
  using assms(1)
proof cases
  case (enqueue jobs ttls mx out)
  then show ?thesis using enqueue_jobs_records assms(4) by blast
next
  case (reserve jobs c ttls tick bud rout)
  then show ?thesis using reserve_jobs_records assms(4) by blast
next
  case (publish jid ok)
  then show ?thesis using celery_publish_sets [OF publish] assms(4) by (simp add: records_owned_def)
next
  case (finalize jid wid ttl n)
  then show ?thesis using records_kept_owned [OF assms(4) finalize_job_records [of ns s jid "owner jid" wid ttl]] by simp
next
  case (requeue uid q job ready ttl res)
  then show ?thesis using requeue_records [OF assms(2) requeue(2) assms(3) requeue(3,1) assms(4)] by simp
next
  case (discard uid q jid wid outcome gone)
  then show ?thesis using records_kept_owned [OF assms(4) discard_records [OF assms(2,3) discard(1)]] by simp
next
  case other
  then show ?thesis using records_kept_owned [OF assms(4)] by simp
qed

text \<open>No job is pending and reserved at once, whatever the counters hold.\<close>

lemma slots_disjoint_iff: "slots_disjoint ns v \<longleftrightarrow> (\<forall>j. pend ns v j = None \<or> resv ns v j = None)"
  unfolding slots_disjoint_def disjoint_iff domIff by (simp only: imp_conv_disj not_not)

lemma reserve_script_disjoint:
  assumes "\<forall>a\<in>set args. rarg_keys ns a" and "slots_disjoint ns (V s)"
  shows "slots_disjoint ns (V (snd (res_script ns tick now mx bud tttl cttl args s)))"
proof -
  let ?v' = "V (snd (res_script ns tick now mx bud tttl cttl args s))"
  obtain r s1 where l: "res_loop ns now mx bud cttl args (int (card (dom (resv ns (V s)))))
      (tick_used (kv (V s) (tick_counter_key ns tick))) 0 s = (r, s1)"
    and v': "case r of Inl e \<Rightarrow> res_script ns tick now mx bud tttl cttl args s = (Inl e, s1)
         | Inr (sts, used, newly) \<Rightarrow> fst (res_script ns tick now mx bud tttl cttl args s) = Inr sts
             \<and> ?v' = (if 0 < newly then v_set (tick_counter_key ns tick) (PInt (the used)) (Some tttl) (V s1) else V s1)"
    by (rule reserve_script_run)
  let ?J = "slots_disjoint ns"
  let ?I = "\<lambda>(_::int) (_::int option) (_::int) v. ?J v"
  have mv: "?J (v_reserved ns cttl now a v) \<and> ?J (v_aborted ns now a v)" if "?J v" for a v
    using that by (simp add: slots_disjoint_iff v_reserved_sets v_move_sets)
  have "case r of Inl e \<Rightarrow> ?J (V s1)
       | Inr (sts, used', newly') \<Rightarrow> (\<exists>n'. ?I n' used' newly' (V s1)) \<and> length sts = length args \<and> set sts \<subseteq> {1, 2, 3, 4}
           \<and> newly' = 0 + int (count_if (\<lambda>st. st = 1) sts)"
    by (rule reserve_loop_induct [OF l _ assms(1), of ?I ?J]) (use mv assms(2) in \<open>blast | simp\<close>)+
  then have "?J (V s1)" by (auto split: sum.splits)
  moreover have "zs ?v' = zs (V s1)" using v' by (auto split: sum.splits)
  ultimately show ?thesis by (simp add: slots_disjoint_def)
qed

lemma only_job_disjoint: "only_job ns jid v v' \<Longrightarrow> slots_disjoint ns v \<Longrightarrow> slots_disjoint ns v'"
  unfolding only_job_def slots_disjoint_iff by (metis fun_upd_apply)

lemma queue_step_disjoint:
  assumes "queue_step R V reg owner ns config s s'" and "\<forall>(k, p)\<in>set reg. qc_namespace p = k" and "ns \<noteq> []"
    and "slots_disjoint ns (V s)"
  shows "slots_disjoint ns (V s')"
  using assms(1)
proof cases
  case (enqueue jobs ttls mx out)
  from enqueue_jobs_sets [OF enqueue(1)] assms(4) show ?thesis
    unfolding slots_disjoint_iff by metis
next
  case (reserve jobs c ttls tick bud rout)
  from reserve(1) show ?thesis
  proof (cases rule: reserve_jobs_run)
    case untouched
    then show ?thesis using assms(4) by simp
  next
    case (ran s1 now)
    then show ?thesis using reserve_script_disjoint [OF reserve_args_keys, where s = s1] assms(4) by simp
  qed
next
  case (publish jid ok)
  then show ?thesis using celery_publish_sets [OF publish] assms(4) by (simp add: slots_disjoint_def)
next
  case (finalize jid wid ttl n)
  then show ?thesis using finalize_job_sets [of ns jid "owner jid" wid ttl s] finalize(1) assms(4) unfolding slots_disjoint_iff by (metis fun_upd_apply snd_conv)
next
  case (requeue uid q job ready ttl res)
  have "job_namespace job = ns" using requeue(3) by (simp add: owned_job_def)
  from requeue_sets [OF assms(2) requeue(2) this assms(3) requeue(1)] show ?thesis
  proof (elim disjE)
    assume "only_job ns (job_id job) (V s) (V s')"
    then show ?thesis using assms(4) by (rule only_job_disjoint)
  qed (use assms(4) in \<open>unfold slots_disjoint_iff, metis fun_upd_apply\<close>)+
next
  case (discard uid q jid wid outcome gone)
  from only_job_disjoint [OF discard_orphaned_job_target(1) [OF assms(2,3) discard(1)] assms(4)] show ?thesis .
next
  case other
  then show ?thesis using assms(4) by (simp add: slots_disjoint_def)
qed

end

text \<open>
  A job without a readable record may be discarded under a task key that is unknown, or resolved
  wrongly. The per-task counts then drift until the next rebuild; nothing else does: such a step
  removes at most one job, and says nothing of the counts. Records and counts may also lapse.
\<close>

inductive drift_step ::
  "'s env \<Rightarrow> ('s \<Rightarrow> view) \<Rightarrow> queue_registry \<Rightarrow> (string \<Rightarrow> string) \<Rightarrow> string \<Rightarrow> queue_config \<Rightarrow> 's \<Rightarrow> 's \<Rightarrow> bool"
  for R :: "'s env" and V :: "'s \<Rightarrow> view" and reg :: queue_registry and owner :: "string \<Rightarrow> string"
    and ns :: string and config :: queue_config where
  exact: "queue_step R V reg owner ns config s s' \<Longrightarrow> drift_step R V reg owner ns config s s'"
| drift: "only_job ns jid (V s) (V s') \<Longrightarrow> drift_step R V reg owner ns config s s'"
| lapse: "pend ns (V s') = pend ns (V s) \<Longrightarrow> resv ns (V s') = resv ns (V s) \<Longrightarrow> records_kept ns (V s) (V s') \<Longrightarrow>
      drift_step R V reg owner ns config s s'"

inductive_cases drift_stepE: "drift_step R V reg owner ns config s s'"

abbreviation drift_steps ::
  "'s env \<Rightarrow> ('s \<Rightarrow> view) \<Rightarrow> queue_registry \<Rightarrow> (string \<Rightarrow> string) \<Rightarrow> string \<Rightarrow> queue_config \<Rightarrow> 's \<Rightarrow> 's \<Rightarrow> bool" where
  "drift_steps R V reg owner ns config \<equiv> (drift_step R V reg owner ns config)\<^sup>*\<^sup>*"

lemma queue_steps_drift: "queue_steps R V reg owner ns config s s' \<Longrightarrow> drift_steps R V reg owner ns config s s'"
  by (erule rtranclp_mono [THEN predicate2D, rotated]) (auto intro: drift_step.exact)

text \<open>What holds in every state of a queue, and how far its two sets may have grown.\<close>

definition queue_safe_from :: "(string \<Rightarrow> string) \<Rightarrow> string \<Rightarrow> queue_config \<Rightarrow> view \<Rightarrow> view \<Rightarrow> bool" where
  "queue_safe_from owner ns config v v' \<longleftrightarrow> slots_disjoint ns v' \<and> records_owned owner ns v'
     \<and> int (admitted_count ns v') \<le> max (int (admitted_count ns v)) (max 1 (max_admitted_jobs config))
     \<and> int (card (dom (resv ns v'))) \<le> max (int (card (dom (resv ns v)))) (max 1 (max_reserved config))"

lemma queue_safe_refl: "slots_disjoint ns v \<Longrightarrow> records_owned owner ns v \<Longrightarrow> queue_safe_from owner ns config v v"
  by (simp add: queue_safe_from_def)

lemma queue_safe_trans:
  "queue_safe_from owner ns config u v \<Longrightarrow> queue_safe_from owner ns config v w \<Longrightarrow> queue_safe_from owner ns config u w"
  unfolding queue_safe_from_def by (meson ceiling_trans)

context redis
begin

lemma drift_step_safe:
  assumes "drift_step R V reg owner ns config s s'" and "\<forall>(k, p)\<in>set reg. qc_namespace p = k" and "ns \<noteq> []"
    and "slots_disjoint ns (V s)" and "records_owned owner ns (V s)"
  shows "queue_safe_from owner ns config (V s) (V s')"
  using assms(1)
proof cases
  case exact
  from queue_step_disjoint [OF exact assms(2-4)] queue_step_records [OF exact assms(2,3,5)]
    queue_step_bounds [OF exact assms(2,3)] show ?thesis by (simp add: queue_safe_from_def)
next
  case (drift jid)
  from only_job_disjoint [OF drift assms(4)] records_kept_owned [OF assms(5) records_kept_only [OF drift]]
    only_job_admitted [OF drift]
  show ?thesis by (simp add: queue_safe_from_def le_max_iff_disj)
next
  case lapse
  with assms(4) records_kept_owned [OF assms(5) lapse(3)] show ?thesis
    by (simp add: queue_safe_from_def slots_disjoint_def admitted_count_def)
qed

lemma drift_steps_safe:
  assumes "drift_steps R V reg owner ns config s s'" and "\<forall>(k, p)\<in>set reg. qc_namespace p = k" and "ns \<noteq> []"
    and "slots_disjoint ns (V s)" and "records_owned owner ns (V s)"
  shows "queue_safe_from owner ns config (V s) (V s')"
  using assms(1)
proof (induction rule: rtranclp_induct)
  case base
  then show ?case by (rule queue_safe_refl [OF assms(4,5)])
next
  case (step t u)
  then have "slots_disjoint ns (V t)" "records_owned owner ns (V t)" by (simp_all add: queue_safe_from_def)
  from queue_safe_trans [OF step(3) drift_step_safe [OF step(2) assms(2,3) this]] show ?case .
qed

text \<open>Every step moves every job as one of the operations allows.\<close>

lemma queue_step_refines:
  assumes "queue_step R V reg owner ns config s s'" and "\<forall>(k, p)\<in>set reg. qc_namespace p = k" and "ns \<noteq> []"
    and "slots_disjoint ns (V s)"
  shows "\<exists>opr. job_moves opr ns (V s) (V s')"
  using assms(1)
proof cases
  case (enqueue jobs ttls mx out)
  then show ?thesis using enqueue_refines by blast
next
  case (reserve jobs c ttls tick bud rout)
  then show ?thesis using reserve_refines by blast
next
  case (publish jid ok)
  then show ?thesis using celery_publish_sets [OF publish] job_moves_same [of "V s'" ns "V s"] by simp
next
  case (finalize jid wid ttl n)
  then show ?thesis using finalize_refines [OF assms(4), of jid "owner jid" wid ttl] by auto
next
  case (requeue uid q job ready ttl res)
  have "job_namespace job = ns" using requeue(3) by (simp add: owned_job_def)
  from requeue_refines [OF assms(2) requeue(2) this assms(3) requeue(1) assms(4)] show ?thesis by blast
next
  case (discard uid q jid wid outcome gone)
  then show ?thesis using discard_refines [OF assms(2,3) discard(1) assms(4)] by blast
next
  case other
  then show ?thesis using job_moves_same [of "V s'" ns "V s"] by blast
qed

end

section \<open>Steps that stay in their queue\<close>

text \<open>What a process at work on one queue may touch: keys of its own namespace, and the broker.\<close>

definition outside :: "string \<Rightarrow> view \<Rightarrow> view \<Rightarrow> bool" where
  "outside ns v v' \<longleftrightarrow> same_at (- range (ns_key ns)) v (v'\<lparr>sent := sent v\<rparr>)"

lemma outside_trans: "outside ns u v \<Longrightarrow> outside ns v w \<Longrightarrow> outside ns u w"
  by (simp add: outside_def same_at_def)

lemma outside_same: "same_at (- range (ns_key ns)) v v' \<Longrightarrow> outside ns v v'"
  by (simp add: outside_def same_at_def)

lemma outside_publish: "zs v' = zs v \<and> hs v' = hs v \<and> kv v' = kv v \<and> tl v' = tl v \<Longrightarrow> outside ns v v'"
  by (simp add: outside_def same_at_def)

text \<open>So another queue does not notice.\<close>

lemma outside_other_queue:
  assumes "CHR '':'' \<notin> set ns" and "CHR '':'' \<notin> set ns'" and "ns \<noteq> ns'" and "outside ns v v'"
  shows "pend ns' v' = pend ns' v" and "resv ns' v' = resv ns' v"
    and "hs v' (task_counts_key ns') = hs v (task_counts_key ns')" and "kv v' (job_key ns' j) = kv v (job_key ns' j)"
proof -
  have "k \<in> - range (ns_key ns)" if "k \<in> queue_keys ns'" for k
    using queue_keys_other_ns [OF assms(2,1)] assms(3) that by auto
  then have m: "pending_key ns' \<in> - range (ns_key ns)" "reserved_key ns' \<in> - range (ns_key ns)"
    "task_counts_key ns' \<in> - range (ns_key ns)" "job_key ns' j \<in> - range (ns_key ns)" by simp_all
  from assms(4) m show "pend ns' v' = pend ns' v" "resv ns' v' = resv ns' v"
    "hs v' (task_counts_key ns') = hs v (task_counts_key ns')" "kv v' (job_key ns' j) = kv v (job_key ns' j)"
    by (simp_all only: outside_def same_at_def) simp_all
qed

definition quiet_keys :: "string \<Rightarrow> string set" where
  "quiet_keys ns = - range (ns_key ns) \<union> queue_keys ns"

lemma own_keys_quiet [simp]:
  "queue_keys ns \<subseteq> range (ns_key ns)" "metrics_keys ns \<subseteq> range (ns_key ns)" "tick_counter_key ns t \<in> range (ns_key ns)"
  by (auto simp: queue_keys_def metrics_keys_def key_simps)

lemma own_keys_disjoint [simp]:
  "- range (ns_key ns) \<inter> queue_keys ns = {}" "- range (ns_key ns) \<inter> metrics_keys ns = {}"
  "quiet_keys ns \<inter> metrics_keys ns = {}"
  using own_keys_quiet [of ns] metrics_keys_queue [of ns] unfolding quiet_keys_def by blast+

lemma quiet_keys_mem [simp]:
  "controller_key ns \<notin> quiet_keys ns" "pump_lock_key ns \<notin> quiet_keys ns" "pump_cleanup_key ns \<notin> quiet_keys ns"
  "rebuild_requested_key ns \<notin> quiet_keys ns" "reap_cursor_key (pending_key ns) \<notin> quiet_keys ns"
  "reap_cursor_key (reserved_key ns) \<notin> quiet_keys ns"
  by (simp_all add: quiet_keys_def) (simp_all add: key_simps)

definition tick_step ::
  "'s env \<Rightarrow> ('s \<Rightarrow> view) \<Rightarrow> queue_registry \<Rightarrow> (string \<Rightarrow> string) \<Rightarrow> string \<Rightarrow> queue_config \<Rightarrow> 's \<Rightarrow> 's \<Rightarrow> bool" where
  "tick_step R V reg owner ns config s s' \<longleftrightarrow> drift_step R V reg owner ns config s s' \<and> outside ns (V s) (V s')"

abbreviation tick_steps ::
  "'s env \<Rightarrow> ('s \<Rightarrow> view) \<Rightarrow> queue_registry \<Rightarrow> (string \<Rightarrow> string) \<Rightarrow> string \<Rightarrow> queue_config \<Rightarrow> 's \<Rightarrow> 's \<Rightarrow> bool" where
  "tick_steps R V reg owner ns config \<equiv> (tick_step R V reg owner ns config)\<^sup>*\<^sup>*"

lemma tick_steps_drift: "tick_steps R V reg owner ns config s s' \<Longrightarrow> drift_steps R V reg owner ns config s s'"
  by (erule rtranclp_mono [THEN predicate2D, rotated]) (auto simp: tick_step_def)

lemma tick_steps_outside: "tick_steps R V reg owner ns config s s' \<Longrightarrow> outside ns (V s) (V s')"
proof (induction rule: rtranclp_induct)
  case base
  show ?case by (rule outside_same) simp
next
  case (step t u)
  from step(2) have "outside ns (V t) (V u)" by (simp add: tick_step_def)
  with step(3) show ?case by (rule outside_trans)
qed

context redis
begin

lemma tick_quiet:
  assumes "same_at (quiet_keys ns) (V s) (V s')"
  shows "tick_steps R V reg owner ns config s s'"
proof -
  from assms have "same_at (queue_keys ns) (V s) (V s')" "outside ns (V s) (V s')"
    by (auto simp: quiet_keys_def intro!: outside_same elim!: same_at_mono)
  then show ?thesis by (intro r_into_rtranclp) (auto simp: tick_step_def intro: drift_step.exact quiet_step)
qed

lemma tick_view: "V s' = V s \<Longrightarrow> tick_steps R V reg owner ns config s s'"
  by (rule tick_quiet) simp

lemma tick_read: "tick_steps R V reg owner ns config s t \<Longrightarrow> tick_steps R V reg owner ns config s (snd (rread R f t))"
  by (rule rtranclp_trans) (auto intro: tick_view)

lemma tick_one:
  "queue_step R V reg owner ns config s s' \<Longrightarrow> outside ns (V s) (V s') \<Longrightarrow> tick_steps R V reg owner ns config s s'"
  by (intro r_into_rtranclp) (simp add: tick_step_def drift_step.exact)

lemma tick_discard:
  assumes "\<forall>(k, p)\<in>set reg. qc_namespace p = k" and "ns \<noteq> []"
  shows "tick_steps R V reg owner ns config s (snd (discard_orphaned_job R reg uid q jid tk ns wid oc s))"
proof -
  have "outside ns (V s) (V (snd (discard_orphaned_job R reg uid q jid tk ns wid oc s)))"
    by (rule outside_same, rule discard_orphaned_job_frame [OF assms]) simp_all
  moreover have "only_job ns jid (V s) (V (snd (discard_orphaned_job R reg uid q jid tk ns wid oc s)))"
    by (rule discard_orphaned_job_target(1) [OF assms prod.collapse [symmetric]])
  ultimately show ?thesis by (intro r_into_rtranclp) (auto simp: tick_step_def intro: drift_step.drift)
qed

lemma tick_reserve:
  assumes "reserve_jobs R ns jobs c ttls tick bud s = (out, s')" and "max_reserved c \<le> max_reserved config"
    and "\<forall>j\<in>set jobs. owned_job owner ns j"
  shows "tick_steps R V reg owner ns config s s'"
proof (rule tick_one)
  show "queue_step R V reg owner ns config s s'" by (rule queue_step.reserve [OF assms])
  show "outside ns (V s) (V s')"
    by (rule outside_same, rule reserve_jobs_frame [OF assms(1)]) (use own_keys_quiet(3) [of ns tick] in simp_all)
qed

lemma tick_publish: "tick_steps R V reg owner ns config s (snd (celery_publish R s jid))"
proof (rule tick_one)
  show "queue_step R V reg owner ns config s (snd (celery_publish R s jid))"
    by (rule queue_step.publish [OF prod.collapse [symmetric]])
  show "outside ns (V s) (V (snd (celery_publish R s jid)))"
    by (rule outside_publish) (use law_publish [of s jid] in \<open>auto split: if_splits\<close>)
qed

lemma requeue_outside:
  assumes reg: "\<forall>(k, p)\<in>set reg. qc_namespace p = k" and ns: "qc_namespace q = ns" "ns \<noteq> []" "job_namespace job = ns"
  shows "outside ns (V s) (V (snd (requeue R reg uid q job ready ttl s)))"
proof (rule outside_same)
  let ?A = "- range (ns_key ns)"
  obtain d t where c: "compute_wait_deadline (fst (wall R s)) ready ttl (wait_deadline_at job) = (d, t)" by force
  show "same_at ?A (V s) (V (snd (requeue R reg uid q job ready ttl s)))"
  proof (cases t)
    case None
    then show ?thesis
      using discard_orphaned_job_frame [OF reg ns(2) own_keys_disjoint(1,2), where s = "snd (wall R s)" and uid = uid and q = q
          and jid = "job_id job" and tk = "task_key job" and wid = "[]" and outcome = EXPIRED] c ns
      by (simp add: requeue_def case_prod_beta Let_def)
  next
    case (Some t')
    have f: "same_at ?A (V (snd (wall R s))) (V (snd (eval_requeue R ns jid x t' ready tk ct (snd (wall R s)))))" for jid x tk ct
      unfolding eval_requeue_def by (rule frame_rpc_script) (rule requeue_script_frame, simp)
    show ?thesis using f c ns Some by (auto simp: requeue_def Let_def case_prod_beta split: sum.split)
  qed
qed

lemma tick_requeue:
  assumes "\<forall>(k, p)\<in>set reg. qc_namespace p = k" and "qc_namespace q = ns" and "ns \<noteq> []" and "owned_job owner ns job"
  shows "tick_steps R V reg owner ns config s (snd (requeue R reg uid q job ready ttl s))"
proof (rule tick_one)
  show "queue_step R V reg owner ns config s (snd (requeue R reg uid q job ready ttl s))"
    by (rule queue_step.requeue [OF prod.collapse [symmetric] assms(2,4)])
  show "outside ns (V s) (V (snd (requeue R reg uid q job ready ttl s)))"
    by (rule requeue_outside [OF assms(1-3)]) (use assms(4) in \<open>simp add: owned_job_def\<close>)
qed

lemma tick_enqueue:
  assumes "enqueue_jobs R ns jobs True ttls mx s = (out, s')" and "mx \<le> max_admitted_jobs config"
    and "\<forall>j\<in>set jobs. owned_job owner ns j"
  shows "tick_steps R V reg owner ns config s s'"
proof (rule tick_one)
  show "queue_step R V reg owner ns config s s'" by (rule queue_step.enqueue [OF assms])
  show "outside ns (V s) (V s')" by (rule outside_same, rule enqueue_jobs_frame [OF assms(1)]) simp_all
qed

lemma tick_finalize:
  assumes "owner jid \<noteq> []"
  shows "tick_steps R V reg owner ns config s (snd (finalize_job R ns jid (owner jid) wid ttl s))"
proof (rule tick_one)
  show "queue_step R V reg owner ns config s (snd (finalize_job R ns jid (owner jid) wid ttl s))"
    by (rule queue_step.finalize [OF prod.collapse [symmetric]]) (rule assms)
  show "outside ns (V s) (V (snd (finalize_job R ns jid (owner jid) wid ttl s)))"
    by (rule outside_same, rule finalize_job_frame) simp
qed

end

section \<open>All queues together\<close>

text \<open>
  A state change is a path for every queue of a set of namespaces. What a process does to its own queue
  is one: for the others it is a step that leaves them alone.
\<close>

definition world_steps ::
  "'s env \<Rightarrow> ('s \<Rightarrow> view) \<Rightarrow> queue_registry \<Rightarrow> (string \<Rightarrow> string) \<Rightarrow> string set \<Rightarrow> (string \<Rightarrow> queue_config) \<Rightarrow> 's \<Rightarrow> 's \<Rightarrow> bool" where
  "world_steps R V reg owner N config s s' \<longleftrightarrow> (\<forall>ns\<in>N. drift_steps R V reg owner ns (config ns) s s')"

lemma world_steps_trans:
  "world_steps R V reg owner N config s t \<Longrightarrow> world_steps R V reg owner N config t u \<Longrightarrow> world_steps R V reg owner N config s u"
  unfolding world_steps_def by (meson rtranclp_trans)

context redis
begin

lemma world_of_tick:
  assumes "tick_steps R V reg owner ns (config ns) s s'" and N: "\<forall>m\<in>insert ns N. CHR '':'' \<notin> set m"
  shows "world_steps R V reg owner N config s s'"
  unfolding world_steps_def
proof
  fix m assume m: "m \<in> N"
  show "drift_steps R V reg owner m (config m) s s'"
  proof (cases "m = ns")
    case True
    then show ?thesis using tick_steps_drift [OF assms(1)] by simp
  next
    case False
    have c: "CHR '':'' \<notin> set ns" "CHR '':'' \<notin> set m" "ns \<noteq> m" using N m False by auto
    note O = outside_other_queue [OF c tick_steps_outside [OF assms(1)]]
    have "queue_step R V reg owner m (config m) s s'"
      by (rule queue_step.other) (simp_all add: O records_kept_def)
    then show ?thesis by (intro r_into_rtranclp drift_step.exact)
  qed
qed

lemma world_quiet: "(\<And>ns. ns \<in> N \<Longrightarrow> same_at (queue_keys ns) (V s) (V s')) \<Longrightarrow> world_steps R V reg owner N config s s'"
  unfolding world_steps_def by (auto intro: drift_step.exact quiet_step)

lemma world_view: "V s' = V s \<Longrightarrow> world_steps R V reg owner N config s s'"
  by (rule world_quiet) simp

lemma drift_step_records:
  assumes "drift_step R V reg owner ns config s s'" and "\<forall>(k, p)\<in>set reg. qc_namespace p = k" and "ns \<noteq> []"
    and "records_owned owner ns (V s)"
  shows "records_owned owner ns (V s')"
  using assms(1)
proof cases
  case exact
  from queue_step_records [OF exact assms(2-4)] show ?thesis .
next
  case (drift jid)
  from records_kept_owned [OF assms(4) records_kept_only [OF drift]] show ?thesis .
next
  case lapse
  from records_kept_owned [OF assms(4) lapse(3)] show ?thesis .
qed

lemma drift_steps_records:
  assumes "drift_steps R V reg owner ns config s s'" and "\<forall>(k, p)\<in>set reg. qc_namespace p = k" and "ns \<noteq> []"
    and "records_owned owner ns (V s)"
  shows "records_owned owner ns (V s')"
  using assms(1) by (induction rule: rtranclp_induct) (use assms(2-4) drift_step_records in blast)+

lemma tick_records:
  "tick_steps R V reg owner ns config s s' \<Longrightarrow> \<forall>(k, p)\<in>set reg. qc_namespace p = k \<Longrightarrow> ns \<noteq> []
    \<Longrightarrow> records_owned owner ns (V s) \<Longrightarrow> records_owned owner ns (V s')"
  by (rule drift_steps_records [OF tick_steps_drift])

end

text \<open>So a job is reserved only after it was pending, and an absent job only becomes pending.\<close>

lemma job_moves_reserved:
  "job_moves opr ns v v' \<Longrightarrow> job_state ns v' jid = Reserved \<Longrightarrow> job_state ns v jid \<in> {Pending, Reserved}"
  unfolding job_moves_def by (cases opr) (auto dest: spec [of _ jid])

end
