(* ===== verification/Controller.thy ===== *)
theory Controller
  imports Queue_State
begin

text \<open>
  \<open>dispatch/controller.py\<close>: the tick budget of one queue, from its free slots and an AIMD
  congestion window kept in the controller hash.
\<close>

section \<open>Decisions\<close>

definition CONTROLLER_STATE_TTL_SECONDS :: int where "CONTROLLER_STATE_TTL_SECONDS = 10 * 60"
definition MULTIPLICATIVE_DECREASE_FACTOR :: real where "MULTIPLICATIVE_DECREASE_FACTOR = 1 / 2"

datatype aimd_action = INCREASE | DECREASE | HOLD | COLD_START

fun aimd_action_value :: "aimd_action \<Rightarrow> string" where
  "aimd_action_value INCREASE = ''increase''"
| "aimd_action_value DECREASE = ''decrease''"
| "aimd_action_value HOLD = ''hold''"
| "aimd_action_value COLD_START = ''cold_start''"

definition additive_increase_step :: "int \<Rightarrow> int" where
  "additive_increase_step mx = max 1 (mx div 20)"

definition cold_start_window :: "int \<Rightarrow> int" where
  "cold_start_window mx = max 1 (mx div 10)"

record pump_control_decision =
  decided_namespace :: string
  decided_tick :: int
  effective_budget :: int
  congestion_window :: int
  available_slots :: int
  previous_published :: int
  previous_ready_peeked :: int
  previous_congestion :: int
  decided_action :: aimd_action
  reserved_count_unknown :: bool

text \<open>The window after one tick, from the window and budget of the tick before and its counters.\<close>

definition aimd_step :: "int \<Rightarrow> int \<Rightarrow> int \<Rightarrow> int \<Rightarrow> int \<Rightarrow> (string \<times> int) list \<Rightarrow> int \<times> aimd_action" where
  "aimd_step mx increase_step cold_window previous_window previous_budget previous =
     (let window = (if 0 < previous_window then previous_window else cold_window) in
      if 0 < counter_get previous ''congestion'' then
        (max 1 \<lfloor>of_int window * MULTIPLICATIVE_DECREASE_FACTOR\<rfloor>, DECREASE)
      else if 0 < previous_budget \<and> previous_budget = previous_window
              \<and> previous_budget \<le> counter_get previous ''published''
              \<and> previous_budget \<le> counter_get previous ''ready_peeked'' then
        (min mx (window + increase_step), INCREASE)
      else (window, HOLD))"

definition warm_decision ::
  "string \<Rightarrow> int \<Rightarrow> int \<Rightarrow> int \<Rightarrow> int \<Rightarrow> int \<Rightarrow> pydict \<Rightarrow> (string \<times> int) list \<Rightarrow> bool \<Rightarrow> pump_control_decision result" where
  "warm_decision ns tick slots mx increase_step cold_window state previous unknown =
     bind_result (read_counter state ''congestion_window'') (\<lambda>previous_window.
     bind_result (read_counter state ''effective_budget'') (\<lambda>previous_budget.
       (let (window, action) = aimd_step mx increase_step cold_window previous_window previous_budget previous in
        Inr \<lparr>decided_namespace = ns, decided_tick = tick, effective_budget = min slots window,
             congestion_window = window, available_slots = slots,
             previous_published = counter_get previous ''published'',
             previous_ready_peeked = counter_get previous ''ready_peeked'',
             previous_congestion = counter_get previous ''congestion'',
             decided_action = action, reserved_count_unknown = unknown\<rparr>)))"

definition cold_decision ::
  "string \<Rightarrow> int \<Rightarrow> int \<Rightarrow> int \<Rightarrow> (string \<times> int) list \<Rightarrow> bool \<Rightarrow> pump_control_decision" where
  "cold_decision ns tick slots window previous unknown =
     \<lparr>decided_namespace = ns, decided_tick = tick, effective_budget = min slots window,
      congestion_window = window, available_slots = slots,
      previous_published = counter_get previous ''published'',
      previous_ready_peeked = counter_get previous ''ready_peeked'',
      previous_congestion = counter_get previous ''congestion'',
      decided_action = COLD_START, reserved_count_unknown = unknown\<rparr>"

section \<open>The controller hash\<close>

definition decision_mapping :: "pump_control_decision \<Rightarrow> real \<Rightarrow> pydict" where
  "decision_mapping d now =
     [(''namespace'', PStr (decided_namespace d)), (''tick_id'', PInt (decided_tick d)),
      (''effective_budget'', PInt (effective_budget d)), (''congestion_window'', PInt (congestion_window d)),
      (''available_slots'', PInt (available_slots d)), (''previous_published'', PInt (previous_published d)),
      (''previous_ready_peeked'', PInt (previous_ready_peeked d)), (''previous_congestion'', PInt (previous_congestion d)),
      (''aimd_action'', PStr (aimd_action_value (decided_action d))),
      (''reserved_count_unknown'', PInt (if reserved_count_unknown d then 1 else 0)),
      (''updated_at'', PFloat now)]"

definition hset_all :: "'s env \<Rightarrow> string \<Rightarrow> pydict \<Rightarrow> 's \<Rightarrow> 's" where
  "hset_all R key m s = fold (\<lambda>(f, x) s. r_hset R s key f x) m s"

definition persist_writes :: "'s env \<Rightarrow> string \<Rightarrow> pydict \<Rightarrow> 's \<Rightarrow> 's" where
  "persist_writes R key m s = r_expire R (hset_all R key m s) key CONTROLLER_STATE_TTL_SECONDS"

definition persist :: "'s env \<Rightarrow> pump_control_decision \<Rightarrow> 's \<Rightarrow> 's" where
  "persist R d s =
     (let (now, s) = wall R s; key = controller_key (decided_namespace d) in
      snd (rwrite R (persist_writes R key (decision_mapping d now)) s))"

definition STATE_INT_FIELDS :: "string list" where
  "STATE_INT_FIELDS = [''tick_id'', ''effective_budget'', ''congestion_window'', ''available_slots'',
     ''previous_published'', ''previous_ready_peeked'', ''previous_congestion'']"

text \<open>\<open>if name in state: state[name] = int(state[name])\<close>.\<close>

fun convert_fields :: "(pyval \<Rightarrow> pyval result) \<Rightarrow> string list \<Rightarrow> pydict \<Rightarrow> pydict result" where
  "convert_fields f [] st = Inr st"
| "convert_fields f (n # ns) st =
     (case map_of st n of
        None \<Rightarrow> convert_fields f ns st
      | Some x \<Rightarrow> bind_result (f x) (\<lambda>y. convert_fields f ns (AList.update n y st)))"

definition decode_state :: "pydict \<Rightarrow> pydict result" where
  "decode_state raw =
     bind_result (convert_fields (\<lambda>x. map_sum id PInt (py_int x)) STATE_INT_FIELDS raw) (\<lambda>st.
     bind_result (convert_fields (\<lambda>x. map_sum id PFloat (py_float x)) [''updated_at''] st)
       (convert_fields (\<lambda>x. map_sum id (\<lambda>i. PBool (i \<noteq> 0)) (py_int x)) [''reserved_count_unknown'']))"

definition read_state :: "'s env \<Rightarrow> string \<Rightarrow> 's \<Rightarrow> pydict \<times> 's" where
  "read_state R ns s =
     (case rread R (\<lambda>s. r_hgetall R s (controller_key ns)) s of
        (Inl _, s) \<Rightarrow> ([], s)
      | (Inr raw, s) \<Rightarrow> (case decode_state raw of Inl _ \<Rightarrow> ([], s) | Inr st \<Rightarrow> (st, s)))"

section \<open>Deciding\<close>

text \<open>The body of the \<open>try\<close>: any exception falls back to a cold start.\<close>

definition decide_body ::
  "'s env \<Rightarrow> string \<Rightarrow> int \<Rightarrow> int \<Rightarrow> int \<Rightarrow> pydict option \<Rightarrow> bool \<Rightarrow> 's \<Rightarrow> pump_control_decision result \<times> 's" where
  "decide_body R ns tick slots mx given unknown =
     bind_try (\<lambda>s. case given of Some st \<Rightarrow> (Inr st, s) | None \<Rightarrow> rread R (\<lambda>s. r_hgetall R s (controller_key ns)) s) (\<lambda>state.
     bind_try (queue_tick_counts R ns (tick - 1) AIMD_TICK_COUNTER_NAMES) (\<lambda>previous s.
       (bind_result (py_int (dict_get state ''tick_id'' (PInt (-1)))) (\<lambda>last_tick.
          if state = [] \<or> last_tick < tick - 2
          then Inr (cold_decision ns tick slots (cold_start_window mx) previous unknown)
          else warm_decision ns tick slots mx (additive_increase_step mx) (cold_start_window mx) state previous unknown), s)))"

definition decide ::
  "'s env \<Rightarrow> string \<Rightarrow> queue_config \<Rightarrow> int option \<Rightarrow> pydict option \<Rightarrow> 's \<Rightarrow> pump_control_decision \<times> 's" where
  "decide R ns config current_tick given s =
     (let (tick, s) = (case current_tick of
            Some t \<Rightarrow> (t, s) | None \<Rightarrow> (let (now, s) = wall R s in (tick_id now, s)));
          (n, s) = reserved_count R ns s;
          unknown = (n < 0);
          slots = max 0 (max_reserved config - (if unknown then 0 else n)) in
      if slots \<le> 0 then
        (let d = \<lparr>decided_namespace = ns, decided_tick = tick, effective_budget = 0, congestion_window = 0,
                  available_slots = slots, previous_published = 0, previous_ready_peeked = 0,
                  previous_congestion = 0, decided_action = HOLD, reserved_count_unknown = unknown\<rparr>
         in (d, persist R d s))
      else
        (let (r, s) = decide_body R ns tick slots (max_reserved config) given unknown s;
             d = (case r of
                    Inr d \<Rightarrow> d
                  | Inl _ \<Rightarrow> cold_decision ns tick slots (cold_start_window (max_reserved config)) [] True)
         in (d, persist R d s)))"

section \<open>The window\<close>

lemma half_floor: "\<lfloor>of_int w * MULTIPLICATIVE_DECREASE_FACTOR\<rfloor> = w div 2"
proof -
  have "of_int w * MULTIPLICATIVE_DECREASE_FACTOR = (of_int w / of_int 2 :: real)"
    by (simp add: MULTIPLICATIVE_DECREASE_FACTOR_def)
  then show ?thesis by (simp only: floor_divide_of_int_eq)
qed

lemma aimd_step_eq:
  "aimd_step mx inc cold w b previous =
     (let w' = if 0 < w then w else cold in
      if 0 < counter_get previous ''congestion'' then (max 1 (w' div 2), DECREASE)
      else if 0 < b \<and> b = w \<and> b \<le> counter_get previous ''published'' \<and> b \<le> counter_get previous ''ready_peeked''
      then (min mx (w' + inc), INCREASE) else (w', HOLD))"
  by (simp only: aimd_step_def half_floor)

lemma aimd_step_pos: "1 \<le> mx \<Longrightarrow> 1 \<le> cold \<Longrightarrow> 0 < inc \<Longrightarrow> 1 \<le> fst (aimd_step mx inc cold w b previous)"
  by (auto simp: aimd_step_eq Let_def)

lemma aimd_step_le: "w \<le> mx \<Longrightarrow> cold \<le> mx \<Longrightarrow> 1 \<le> mx \<Longrightarrow> fst (aimd_step mx inc cold w b previous) \<le> mx"
  by (auto simp: aimd_step_eq Let_def)

lemma warm_decision_cases:
  assumes "warm_decision ns tick slots mx inc cold state previous unknown = Inr d"
  obtains w b where "read_counter state ''congestion_window'' = Inr w" "read_counter state ''effective_budget'' = Inr b"
    "available_slots d = slots" "effective_budget d = min slots (congestion_window d)"
    "decided_namespace d = ns" "decided_tick d = tick"
    "(congestion_window d, decided_action d) = aimd_step mx inc cold w b previous"
proof -
  obtain w where w: "read_counter state ''congestion_window'' = Inr w"
    using assms by (cases "read_counter state ''congestion_window''") (auto simp: warm_decision_def)
  obtain b where b: "read_counter state ''effective_budget'' = Inr b"
    using assms w by (cases "read_counter state ''effective_budget''") (auto simp: warm_decision_def)
  from assms w b show ?thesis
    by (intro that [OF w b]) (auto simp: warm_decision_def split: prod.splits)
qed

text \<open>A window halved tick after tick reaches 1, and one that grows reaches \<open>max_reserved\<close>.\<close>

fun congested_ticks :: "nat \<Rightarrow> int \<Rightarrow> int" where
  "congested_ticks 0 w = w"
| "congested_ticks (Suc n) w = congested_ticks n (max 1 (w div 2))"

lemma congested_ticks_one:
  "1 \<le> w \<Longrightarrow> w < 2 ^ n \<Longrightarrow> congested_ticks n w = 1"
proof (induction n arbitrary: w)
  case (Suc n)
  show ?case
  proof (cases n)
    case 0
    with Suc.prems show ?thesis by simp
  next
    case (Suc m)
    have "(1::int) < 2 ^ n" unfolding Suc by (metis one_less_numeral_iff one_less_power semiring_norm(76) zero_less_Suc)
    then have "max 1 (w div 2) < 2 ^ n" using Suc.prems by auto
    then show ?thesis using Suc.IH [of "max 1 (w div 2)"] by simp
  qed
qed simp

fun uncongested_ticks :: "int \<Rightarrow> nat \<Rightarrow> int \<Rightarrow> int" where
  "uncongested_ticks mx 0 w = w"
| "uncongested_ticks mx (Suc n) w = uncongested_ticks mx n (min mx (w + additive_increase_step mx))"

lemma uncongested_ticks_sum:
  "w \<le> mx \<Longrightarrow> uncongested_ticks mx n w = min mx (w + int n * additive_increase_step mx)"
proof (induction n arbitrary: w)
  case (Suc n)
  have step: "1 \<le> additive_increase_step mx" by (simp add: additive_increase_step_def)
  have pos: "0 \<le> int n * additive_increase_step mx" using step by simp
  have "uncongested_ticks mx (Suc n) w = min mx (min mx (w + additive_increase_step mx) + int n * additive_increase_step mx)"
    using Suc.IH [of "min mx (w + additive_increase_step mx)"] by simp
  also have "\<dots> = min mx (w + int (Suc n) * additive_increase_step mx)"
    using pos by (auto simp: min_def algebra_simps)
  finally show ?case .
qed simp

section \<open>What deciding reads and writes\<close>

lemma read_counter_PInt: "map_of st n = Some (PInt i) \<Longrightarrow> read_counter st n = Inr i"
  by (auto simp: read_counter_def py_or_def)

text \<open>What a decision may be: the slots are free according to the store, and the budget never exceeds them.\<close>

definition sound_decision :: "string \<Rightarrow> int \<Rightarrow> view \<Rightarrow> pump_control_decision \<Rightarrow> bool" where
  "sound_decision ns mx v d \<longleftrightarrow>
     decided_namespace d = ns
     \<and> (available_slots d = max 0 mx \<or> available_slots d = max 0 (mx - int (card (dom (resv ns v)))))
     \<and> (if available_slots d \<le> 0 then effective_budget d = 0
        else effective_budget d = min (available_slots d) (congestion_window d) \<and> 1 \<le> congestion_window d)"

context redis
begin

lemma hset_all_view:
  "V (hset_all R key m s) = fold (\<lambda>(f, x). v_hset key f x) m (V s)"
  by (induction m arbitrary: s) (auto simp: hset_all_def)

lemma hset_all_frame: "key \<notin> A \<Longrightarrow> same_at A u (V s) \<Longrightarrow> same_at A u (V (hset_all R key m s))"
  by (induction m arbitrary: s) (auto simp: hset_all_def frame_simps)

lemma persist_frame:
  assumes "controller_key (decided_namespace d) \<notin> A"
  shows "same_at A (V s) (V (persist R d s))"
proof -
  let ?s1 = "snd (wall R s)"
  have "same_at A (V ?s1) (V (snd (rwrite R (persist_writes R (controller_key (decided_namespace d))
      (decision_mapping d (fst (wall R s)))) ?s1)))"
    unfolding rwrite_def by (rule frame_rpc) (simp add: persist_writes_def frame_simps assms hset_all_frame)
  then show ?thesis by (simp add: persist_def case_prod_beta Let_def)
qed

lemma count_or_unknown_V: "V (snd (count_or_unknown (rread R q s))) = V s"
  using rread_view [of q s] by (simp add: count_or_unknown_def case_prod_beta split: sum.split)

lemma reserved_count_V [simp]: "V (snd (reserved_count R ns s)) = V s"
  by (simp add: reserved_count_def count_or_unknown_V)

lemma pending_count_V [simp]: "V (snd (pending_count R ns s)) = V s"
  by (simp add: pending_count_def count_or_unknown_V)

lemma count_read:
  assumes "count_or_unknown (rread R (\<lambda>s. r_zcard R s k) s) = (n, s')"
  shows "n = -1 \<or> n = int (card (dom (zs (V s) k)))"
proof (cases "rread R (\<lambda>s. r_zcard R s k) s")
  case (Pair r t)
  then show ?thesis using assms by (cases r) (auto simp: count_or_unknown_def elim: rread_Inr)
qed

lemma queue_tick_counts_V [simp]: "V (snd (queue_tick_counts R ns t names s)) = V s"
  by (simp add: queue_tick_counts_def Let_def case_prod_beta split: sum.split)

lemma read_state_V [simp]: "V (snd (read_state R ns s)) = V s"
  by (simp add: read_state_def case_prod_beta split: sum.split)

lemma decide_body_V [simp]: "V (snd (decide_body R ns tick slots mx given unknown s)) = V s"
  unfolding decide_body_def
  by (intro bind_try_keeps [where P = "\<lambda>t. V t = V s"]) (simp_all split: option.split)

text \<open>A decision ends in the write of the controller hash, from a state that shows the same store.\<close>

lemma decide_body_sound:
  assumes "decide_body R ns tick slots mx given unknown s = (Inr d, s')" and "0 < slots" "1 \<le> mx"
  shows "decided_namespace d = ns" and "available_slots d = slots"
    and "effective_budget d = min slots (congestion_window d)" and "1 \<le> congestion_window d"
proof -
  from assms(1) obtain state previous last where
    l: "py_int (dict_get state ''tick_id'' (PInt (-1))) = Inr last"
    and d: "(if state = [] \<or> last < tick - 2 then Inr (cold_decision ns tick slots (cold_start_window mx) previous unknown)
      else warm_decision ns tick slots mx (additive_increase_step mx) (cold_start_window mx) state previous unknown) = Inr d"
    by (auto simp: decide_body_def bind_try_def bind_result_def split: sum.splits prod.splits option.splits)
  have c: "1 \<le> cold_start_window mx" "0 < additive_increase_step mx"
    by (simp_all add: cold_start_window_def additive_increase_step_def)
  have "decided_namespace d = ns \<and> available_slots d = slots \<and> effective_budget d = min slots (congestion_window d)
      \<and> 1 \<le> congestion_window d"
  proof (cases "state = [] \<or> last < tick - 2")
    case True
    with d c show ?thesis by (auto simp: cold_decision_def)
  next
    case False
    with d have "warm_decision ns tick slots mx (additive_increase_step mx) (cold_start_window mx) state previous unknown = Inr d"
      by simp
    then obtain w b where "available_slots d = slots" "effective_budget d = min slots (congestion_window d)"
      "decided_namespace d = ns"
      "(congestion_window d, decided_action d) = aimd_step mx (additive_increase_step mx) (cold_start_window mx) w b previous"
      by (rule warm_decision_cases)
    moreover have "1 \<le> fst (aimd_step mx (additive_increase_step mx) (cold_start_window mx) w b previous)"
      by (rule aimd_step_pos [OF assms(3) c])
    ultimately show ?thesis by (metis fst_conv)
  qed
  then show "decided_namespace d = ns" and "available_slots d = slots"
    and "effective_budget d = min slots (congestion_window d)" and "1 \<le> congestion_window d" by blast+
qed

lemma decide_run:
  obtains s1 where "V s1 = V s" "decide R ns config tick given s = (fst (decide R ns config tick given s), persist R (fst (decide R ns config tick given s)) s1)"
    "sound_decision ns (max_reserved config) (V s) (fst (decide R ns config tick given s))"
proof -
  obtain t s1 where 1: "(case tick of Some t \<Rightarrow> (t, s) | None \<Rightarrow> (let (now, s) = wall R s in (tick_id now, s))) = (t, s1)" by force
  have V1: "V s1 = V s" using 1 law_wall [of s] by (auto split: option.splits simp: case_prod_beta Let_def)
  obtain n s2 where 2: "reserved_count R ns s1 = (n, s2)" by force
  have V2: "V s2 = V s" using reserved_count_V [of ns s1] 2 V1 by simp
  have n: "n = -1 \<or> n = int (card (dom (resv ns (V s))))"
    using count_read [of "reserved_key ns" s1 n s2] 2 V1 by (simp add: reserved_count_def)
  define mx where "mx = max_reserved config"
  define slots where "slots = max 0 (mx - (if n < 0 then 0 else n))"
  have sl: "slots = max 0 mx \<or> slots = max 0 (mx - int (card (dom (resv ns (V s)))))"
    using n by (auto simp: slots_def)
  note D = decide_def [of R ns config tick given s, unfolded Let_def, unfolded 1 [unfolded Let_def] 2 prod.case,
      folded mx_def, folded slots_def]
  show ?thesis
  proof (cases "slots \<le> 0")
    case True
    then show ?thesis using sl V2 by (intro that [of s2]) (auto simp: D sound_decision_def mx_def)
  next
    case False
    then have mx1: "0 < slots" "1 \<le> mx" by (auto simp: slots_def split: if_splits)
    obtain r s3 where b: "decide_body R ns t slots mx given (n < 0) s2 = (r, s3)" by force
    have V3: "V s3 = V s" using decide_body_V [of ns t slots mx given "n < 0" s2] b V2 by simp
    have c: "1 \<le> cold_start_window mx" by (simp add: cold_start_window_def)
    let ?d = "case r of Inr d \<Rightarrow> d | Inl _ \<Rightarrow> cold_decision ns t slots (cold_start_window mx) [] True"
    have "decide R ns config tick given s = (?d, persist R ?d s3)" using False b by (simp add: D)
    moreover have "sound_decision ns mx (V s) ?d"
      using decide_body_sound [of ns t slots mx given "n < 0" s2] b mx1 sl c
      by (auto simp: sound_decision_def cold_decision_def split: sum.split)
    ultimately show ?thesis using V3 by (intro that [of s3]) (simp_all add: mx_def)
  qed
qed

lemma decide_frame:
  assumes "controller_key ns \<notin> A"
  shows "same_at A (V s) (V (snd (decide R ns config tick given s)))"
proof (cases rule: decide_run [of s ns config tick given])
  case (1 s1)
  let ?d = "fst (decide R ns config tick given s)"
  have "same_at A (V s1) (V (persist R ?d s1))"
    by (rule persist_frame) (use 1(3) assms in \<open>simp add: sound_decision_def\<close>)
  then show ?thesis using 1(1) arg_cong [OF 1(2), of snd] by simp
qed

lemma decide_sound:
  "sound_decision ns (max_reserved config) (V s) (fst (decide R ns config tick given s))"
  by (cases rule: decide_run [of s ns config tick given]) auto

end

end
