(* ===== verification/TaskCounts.thy ===== *)
theory TaskCounts
  imports Reaper
begin

text \<open>
  \<open>dispatch/task_counts.py\<close>: rebuilding the derived per-task count hash from the sorted sets,
  its drift check and its request and back-off markers. Sleeping between pages has no effect
  on the state.
\<close>

section \<open>Reading the hash\<close>

definition UNRESOLVED_TASK_KEY :: string where "UNRESOLVED_TASK_KEY = ''__unresolved__''"

datatype count_kind = PendingKind | ReservedKind

definition parse_task_count_field :: "string \<Rightarrow> (count_kind \<times> string) option" where
  "parse_task_count_field fld =
     (if starts_with fld ''pending:'' then Some (PendingKind, drop (length ''pending:'') fld)
      else if starts_with fld ''reserved:'' then Some (ReservedKind, drop (length ''reserved:'') fld)
      else None)"

fun summarize_from :: "int \<times> int \<Rightarrow> pydict \<Rightarrow> (int \<times> int) option" where
  "summarize_from (p, r) [] = Some (p, r)"
| "summarize_from (p, r) ((fld, raw) # rest) =
     (case parse_task_count_field fld of
        None \<Rightarrow> summarize_from (p, r) rest
      | Some (kind, _) \<Rightarrow>
          (case py_int raw of
             Inl _ \<Rightarrow> None
           | Inr n \<Rightarrow>
               if n < 0 then None
               else summarize_from (case kind of PendingKind \<Rightarrow> (p + n, r) | ReservedKind \<Rightarrow> (p, r + n)) rest))"

definition summarize_task_counts_hash :: "pydict \<Rightarrow> (int \<times> int) option" where
  "summarize_task_counts_hash raw = summarize_from (0, 0) raw"

definition task_count_mapping :: "(string \<times> int) list \<Rightarrow> (string \<times> int) list \<Rightarrow> (string \<times> int) list" where
  "task_count_mapping pending_counts reserved_counts =
     map (\<lambda>(tk, n). (pending_count_field tk, n)) (filter (\<lambda>(tk, n). 0 < n) pending_counts)
     @ map (\<lambda>(tk, n). (reserved_count_field tk, n)) (filter (\<lambda>(tk, n). 0 < n) reserved_counts)"

section \<open>Markers\<close>

definition hard_rebuild_due :: "'s env \<Rightarrow> string \<Rightarrow> 's \<Rightarrow> bool \<times> 's" where
  "hard_rebuild_due R ns s =
     (case rread R (\<lambda>s. r_exists R s (rebuilt_key ns)) s of
        (Inl _, s) \<Rightarrow> (False, s) | (Inr b, s) \<Rightarrow> (\<not> b, s))"

definition rebuild_requested :: "'s env \<Rightarrow> string \<Rightarrow> 's \<Rightarrow> bool \<times> 's" where
  "rebuild_requested R ns s =
     (case rread R (\<lambda>s. r_exists R s (rebuild_requested_key ns)) s of
        (Inl _, s) \<Rightarrow> (False, s) | (Inr b, s) \<Rightarrow> (b, s))"

definition request_rebuild :: "'s env \<Rightarrow> string \<Rightarrow> string \<Rightarrow> 's \<Rightarrow> bool \<times> 's" where
  "request_rebuild R ns reason s =
     (case rwrite R (\<lambda>s. r_set R s (rebuild_requested_key ns)
                           (PStr (if reason = [] then ''unspecified'' else reason))
                           (Some TASK_COUNTS_REBUILD_REQUEST_TTL_SECONDS)) s of
        (Inl _, s) \<Rightarrow> (False, s) | (Inr _, s) \<Rightarrow> (True, s))"

definition try_start_rebuild :: "'s env \<Rightarrow> string \<Rightarrow> 's \<Rightarrow> bool \<times> 's" where
  "try_start_rebuild R ns = try_acquire_ttl_gate R (rebuild_attempt_key ns) TASK_COUNTS_REBUILD_RETRY_SECONDS"

definition mark_rebuilt :: "'s env \<Rightarrow> string \<Rightarrow> 's \<Rightarrow> bool \<times> 's" where
  "mark_rebuilt R ns s =
     (case rwrite R (\<lambda>s. let s = r_set R s (rebuilt_key ns) (PStr ''1'') (Some TASK_COUNTS_REBUILD_FORCE_SECONDS);
                             s = snd (r_del R s (rebuild_requested_key ns))
                         in snd (r_del R s (rebuild_attempt_key ns))) s of
        (Inl _, s) \<Rightarrow> (False, s) | (Inr _, s) \<Rightarrow> (True, s))"

definition counts_drifted :: "'s env \<Rightarrow> string \<Rightarrow> 's \<Rightarrow> bool \<times> 's" where
  "counts_drifted R ns s =
     (let (pz, s) = pending_count R ns s; (rz, s) = reserved_count R ns s in
      if pz < 0 \<or> rz < 0 then (False, s)
      else (case rread R (\<lambda>s. r_hgetall R s (task_counts_key ns)) s of
              (Inl _, s) \<Rightarrow> (False, s)
            | (Inr raw, s) \<Rightarrow>
                (case summarize_task_counts_hash raw of
                   None \<Rightarrow> (True, s)
                 | Some (p, r) \<Rightarrow> (0 < \<bar>p - pz\<bar> \<or> 0 < \<bar>r - rz\<bar>, s))))"

section \<open>The scan\<close>

text \<open>The task a member counts for.\<close>

definition member_task :: "string list \<Rightarrow> string \<Rightarrow> string" where
  "member_task registered jid =
     (let tk = resolve_task_key_from_job_id jid registered in if tk \<noteq> [] then tk else UNRESOLVED_TASK_KEY)"

definition count_member :: "string list \<Rightarrow> string \<Rightarrow> (string \<times> int) list \<Rightarrow> (string \<times> int) list" where
  "count_member registered jid counts = counter_add (member_task registered jid) 1 counts"

record scan_result =
  scan_counts :: "(string \<times> int) list"
  scan_pages :: int
  scan_members :: int
  scan_unresolved :: int

definition scan_add :: "string list \<Rightarrow> string list \<Rightarrow> scan_result \<Rightarrow> scan_result" where
  "scan_add registered members acc =
     acc\<lparr>scan_counts := fold (count_member registered) members (scan_counts acc),
         scan_pages := scan_pages acc + 1,
         scan_members := scan_members acc + int (length members),
         scan_unresolved := scan_unresolved acc
           + int (count_if (\<lambda>jid. resolve_task_key_from_job_id jid registered = []) members)\<rparr>"

definition deadline_passed :: "'s env \<Rightarrow> real option \<Rightarrow> 's \<Rightarrow> bool \<times> 's" where
  "deadline_passed R deadline s =
     (case deadline of None \<Rightarrow> (False, s) | Some d \<Rightarrow> (let (t, s) = mono R s in (d \<le> t, s)))"

text \<open>\<open>None\<close> outside: \<open>fuel\<close> pages were not enough. \<open>Inr None\<close>: the deadline passed.\<close>

fun scan_zset ::
  "nat \<Rightarrow> 's env \<Rightarrow> string \<Rightarrow> string list \<Rightarrow> real option \<Rightarrow> int \<Rightarrow> int \<Rightarrow> scan_result \<Rightarrow> 's
     \<Rightarrow> (scan_result option result \<times> 's) option" where
  "scan_zset 0 R zkey registered deadline scan_count cursor acc s = None"
| "scan_zset (Suc fuel) R zkey registered deadline scan_count cursor acc s =
     (let (expired, s) = deadline_passed R deadline s in
      if expired then Some (Inr None, s)
      else (case rread R (\<lambda>s. r_zscan R s zkey cursor (max 1 scan_count)) s of
              (Inl e, s) \<Rightarrow> Some (Inl e, s)
            | (Inr (cursor, members), s) \<Rightarrow>
                (let acc = scan_add registered members acc in
                 if cursor = 0 then Some (Inr (Some acc), s)
                 else scan_zset fuel R zkey registered deadline scan_count cursor acc s)))"

definition empty_scan :: scan_result where
  "empty_scan = \<lparr>scan_counts = [], scan_pages = 0, scan_members = 0, scan_unresolved = 0\<rparr>"

section \<open>The replacement\<close>

definition replace_task_counts_lua ::
  "'s env \<Rightarrow> string \<Rightarrow> string \<Rightarrow> string \<Rightarrow> int \<Rightarrow> int \<Rightarrow> int \<Rightarrow> (string \<times> int) list \<Rightarrow> 's \<Rightarrow> int result \<times> 's" where
  "replace_task_counts_lua R pending reserved counts_key expected_pending expected_reserved ttl mapping s =
     (if r_zcard R s pending \<noteq> expected_pending \<or> r_zcard R s reserved \<noteq> expected_reserved then (Inr 0, s)
      else
        (let s = snd (r_del R s counts_key);
             s = fold (\<lambda>(f, n) s. r_hset R s counts_key f (PInt n)) mapping s in
         (Inr 1, if mapping \<noteq> [] then r_expire R s counts_key ttl else s)))"

definition replace_if_current ::
  "'s env \<Rightarrow> string \<Rightarrow> (string \<times> int) list \<Rightarrow> int \<Rightarrow> int \<Rightarrow> 's \<Rightarrow> bool result \<times> 's" where
  "replace_if_current R ns mapping expected_pending expected_reserved s =
     (case rpc_script R (replace_task_counts_lua R (pending_key ns) (reserved_key ns) (task_counts_key ns)
             expected_pending expected_reserved TASK_COUNTS_TTL_SECONDS mapping) s of
        (Inl e, s) \<Rightarrow> (Inl e, s) | (Inr n, s) \<Rightarrow> (Inr (n \<noteq> 0), s))"

definition counts_total :: "(string \<times> int) list \<Rightarrow> int" where
  "counts_total counts = sum_list (map snd counts)"

text \<open>After the two scans: \<open>None\<close> is every way of giving up.\<close>

definition rebuild_finish ::
  "'s env \<Rightarrow> string \<Rightarrow> real option \<Rightarrow> scan_result \<Rightarrow> scan_result \<Rightarrow> 's \<Rightarrow> (string \<times> int) list option \<times> 's" where
  "rebuild_finish R ns deadline p r s =
     (let (expired, s) = deadline_passed R deadline s in
      if expired then (None, s)
      else (let mapping = task_count_mapping (scan_counts p) (scan_counts r) in
            case replace_if_current R ns mapping (counts_total (scan_counts p)) (counts_total (scan_counts r)) s of
              (Inl _, s) \<Rightarrow> (None, s)
            | (Inr replaced, s) \<Rightarrow> (if replaced then Some mapping else None, s)))"

definition rebuild ::
  "nat \<Rightarrow> 's env \<Rightarrow> string \<Rightarrow> real option \<Rightarrow> int \<Rightarrow> 's \<Rightarrow> ((string \<times> int) list option \<times> 's) option" where
  "rebuild fuel R ns deadline scan_count s =
     (let (started, s) = mono R s; (registered, s) = registered_task_keys R s in
      case scan_zset fuel R (pending_key ns) registered deadline scan_count 0 empty_scan s of
        None \<Rightarrow> None
      | Some (Inl _, s) \<Rightarrow> Some (None, s)
      | Some (Inr p, s) \<Rightarrow>
          (case scan_zset fuel R (reserved_key ns) registered deadline scan_count 0 empty_scan s of
             None \<Rightarrow> None
           | Some (Inl _, s) \<Rightarrow> Some (None, s)
           | Some (Inr r, s) \<Rightarrow>
               (case (p, r) of
                  (Some p, Some r) \<Rightarrow> Some (rebuild_finish R ns deadline p r s)
                | _ \<Rightarrow> Some (None, s))))"

section \<open>Counting\<close>

lemma count_members:
  assumes "distinct (map fst c)"
  shows "distinct (map fst (fold (count_member registered) xs c))"
    and "counter_get (fold (count_member registered) xs c) tk
           = counter_get c tk + int (count_if (\<lambda>j. member_task registered j = tk) xs)"
    and "counts_total (fold (count_member registered) xs c) = counts_total c + int (length xs)"
proof -
  have "distinct (map fst (fold (count_member registered) xs c))
    \<and> counter_get (fold (count_member registered) xs c) tk
           = counter_get c tk + int (count_if (\<lambda>j. member_task registered j = tk) xs)
    \<and> counts_total (fold (count_member registered) xs c) = counts_total c + int (length xs)"
    using assms
  proof (induction xs arbitrary: c)
    case (Cons x xs)
    then have "distinct (map fst (count_member registered x c))" by (simp add: count_member_def counter_add_distinct)
    from Cons.IH [OF this] Cons.prems show ?case
      by (auto simp: count_member_def counter_get_add counts_total_def counter_add_total)
  qed simp
  then show "distinct (map fst (fold (count_member registered) xs c))"
    and "counter_get (fold (count_member registered) xs c) tk
           = counter_get c tk + int (count_if (\<lambda>j. member_task registered j = tk) xs)"
    and "counts_total (fold (count_member registered) xs c) = counts_total c + int (length xs)" by blast+
qed

lemma counter_get_simps [simp]:
  "counter_get [] tk = 0"
  "counter_get ((k, n) # p) tk = (if tk = k then n else counter_get p tk)"
  by (simp_all add: counter_get_def)

lemma counter_get_absent: "k \<notin> fst ` set p \<Longrightarrow> counter_get p k = 0"
  by (induction p) auto

lemma map_of_kept:
  assumes "inj f" and "distinct (map fst p)"
  shows "map_of (map (\<lambda>(tk, n). (f tk, n)) (filter (\<lambda>(tk, n). 0 < (n::int)) p)) (f tk) =
    (if 0 < counter_get p tk then Some (counter_get p tk) else None)"
  using assms(2)
proof (induction p)
  case (Cons x p)
  obtain k n where x: "x = (k, n)" by (cases x)
  have "f tk = f k \<longleftrightarrow> tk = k" using assms(1) by (simp add: inj_eq)
  with Cons counter_get_absent [of k p] show ?case by (auto simp: x)
qed simp

lemma map_of_other:
  "(\<And>tk. f tk \<noteq> fld) \<Longrightarrow> map_of (map (\<lambda>(tk, n). (f tk, n)) (filter (\<lambda>(tk, n). 0 < (n::int)) p)) fld = None"
  unfolding map_of_eq_None_iff by force

lemma inj_fields: "inj pending_count_field" "inj reserved_count_field"
  by (simp_all add: inj_def)

lemma distinct_kept:
  "inj f \<Longrightarrow> distinct (map fst p) \<Longrightarrow> distinct (map fst (map (\<lambda>(tk, n). (f tk, n)) (filter (\<lambda>(tk, n). 0 < (n::int)) p)))"
  by (induction p) (auto simp: inj_eq rev_image_eqI)

lemma task_count_mapping_distinct:
  assumes "distinct (map fst p)" and "distinct (map fst r)"
  shows "distinct (map fst (task_count_mapping p r))"
  unfolding task_count_mapping_def map_append distinct_append
  using distinct_kept [OF inj_fields(1) assms(1)] distinct_kept [OF inj_fields(2) assms(2)] by auto

lemma task_count_mapping_fields:
  assumes "distinct (map fst p)" and "distinct (map fst r)"
  shows "map_of (task_count_mapping p r) (pending_count_field tk)
           = (if 0 < counter_get p tk then Some (counter_get p tk) else None)"
    and "map_of (task_count_mapping p r) (reserved_count_field tk)
           = (if 0 < counter_get r tk then Some (counter_get r tk) else None)"
  using map_of_kept [OF inj_fields(1) assms(1), of tk] map_of_kept [OF inj_fields(2) assms(2), of tk]
    map_of_other [of pending_count_field "reserved_count_field tk" p]
    map_of_other [of reserved_count_field "pending_count_field tk" r]
  by (auto simp: task_count_mapping_def map_add_def split: option.split)

section \<open>The scan and the replacement on the store\<close>

text \<open>What the new hash holds.\<close>

definition v_counts :: "string \<Rightarrow> (string \<times> int) list \<Rightarrow> view \<Rightarrow> view" where
  "v_counts key mapping v = fold (\<lambda>(f, n). v_hset key f (PInt n)) mapping (v_del key v)"

lemma fold_hset_hs:
  "hs (fold (\<lambda>(f, n). v_hset key f (PInt n)) m v) key = hs v key ++ map_of (rev (map (\<lambda>(f, n). (f, PInt n)) m))"
  by (induction m arbitrary: v) (auto simp: v_hset_def map_add_def fun_eq_iff split: option.splits)

lemma fold_hset_zs: "zs (fold (\<lambda>(f, n). v_hset key f (PInt n)) m v) = zs v"
  by (induction m arbitrary: v) (auto simp: v_hset_def)

lemma v_counts_hash:
  assumes "distinct (map fst m)"
  shows "hash_int (v_counts key m v) key f = Some (case map_of m f of None \<Rightarrow> 0 | Some n \<Rightarrow> n)"
proof -
  have "map_of (rev (map (\<lambda>(f, n). (f, PInt n)) m)) = map_of (map (\<lambda>(f, n). (f, PInt n)) m)"
    by (rule map_of_rev_distinct) (use assms in \<open>simp add: comp_def case_prod_beta\<close>)
  moreover have "map_of (map (\<lambda>(f, n). (f, PInt n)) m) f = map_option PInt (map_of m f)"
    by (induction m) auto
  ultimately show ?thesis
    by (simp add: hash_int_def v_counts_def fold_hset_hs v_del_def split: option.split)
qed

context redis
begin

lemma fold_hset_V:
  "V (fold (\<lambda>(f, n) s. r_hset R s key f (PInt n)) m s) = fold (\<lambda>(f, n). v_hset key f (PInt n)) m (V s)"
  by (induction m arbitrary: s) auto

lemma deadline_passed_V [simp]: "V (snd (deadline_passed R d s)) = V s"
  by (simp add: deadline_passed_def case_prod_beta Let_def split: option.split)

text \<open>The script replaces the hash only when both cardinalities are the expected ones.\<close>

lemma replace_script:
  "fst (replace_task_counts_lua R p r k ep er ttl m s) =
     Inr (if int (card (dom (zs (V s) p))) = ep \<and> int (card (dom (zs (V s) r))) = er then 1 else 0)"
  "V (snd (replace_task_counts_lua R p r k ep er ttl m s)) =
     (if int (card (dom (zs (V s) p))) = ep \<and> int (card (dom (zs (V s) r))) = er
      then (if m \<noteq> [] then v_expire k ttl (v_counts k m (V s)) else v_counts k m (V s)) else V s)"
  by (auto simp: replace_task_counts_lua_def Let_def fold_hset_V v_counts_def)

lemma scan_zset_V:
  "scan_zset fuel R zkey registered deadline n c acc s = Some (res, s') \<Longrightarrow> V s' = V s"
proof (induction fuel arbitrary: c acc s)
  case (Suc fuel)
  obtain e s1 where e: "deadline_passed R deadline s = (e, s1)" by force
  have V1: "V s1 = V s" using deadline_passed_V [of deadline s] e by simp
  obtain z s2 where z: "rread R (\<lambda>s. r_zscan R s zkey c (max 1 n)) s1 = (z, s2)" by force
  have V2: "V s2 = V s" using rread_view [of "\<lambda>s. r_zscan R s zkey c (max 1 n)" s1] z V1 by simp
  from Suc.prems e z V1 V2 Suc.IH show ?case
    by (auto simp: Let_def split: if_splits sum.splits)
qed simp

end

context redis_scan
begin

text \<open>The members a completed scan visited: all that were owed, and none that is not in the set.\<close>

lemma scan_zset_visits:
  assumes "scan_zset fuel R zkey registered deadline n c acc s = Some (Inr (Some res), s')"
  shows "\<exists>L. scan_counts res = fold (count_member registered) L (scan_counts acc)
     \<and> set L \<subseteq> dom (zs (V s) zkey) \<and> remains s zkey c \<subseteq> set L"
  using assms
proof (induction fuel arbitrary: c acc s)
  case (Suc fuel)
  obtain e s1 where e: "deadline_passed R deadline s = (e, s1)" by force
  have V1: "V s1 = V s" using deadline_passed_V [of deadline s] e by simp
  have ne: "\<not> e" using Suc.prems e by (auto split: if_splits)
  obtain z s2 where z: "rread R (\<lambda>s. r_zscan R s zkey c (max 1 n)) s1 = (z, s2)" by force
  have V2: "V s2 = V s" using rread_view [of "\<lambda>s. r_zscan R s zkey c (max 1 n)" s1] z V1 by simp
  obtain c' members where z': "z = Inr (c', members)" using Suc.prems e ne z by (cases z) auto
  from z z' obtain t where Vt: "V t = V s" and zt: "r_zscan R t zkey c (max 1 n) = (c', members)"
    using V1 by (metis rread_Inr)
  have page: "set members \<subseteq> dom (zs (V s) zkey)" using law_scan_page [of t zkey c "max 1 n"] zt Vt by simp
  have rem: "remains s zkey c = remains t zkey c" by (rule law_scan_view) (simp add: Vt)
  show ?case
  proof (cases "c' = 0")
    case True
    then have "res = scan_add registered members acc" using Suc.prems e ne z z' by simp
    moreover have "remains t zkey c \<subseteq> set members" using law_scan_last [of t zkey c "max 1 n"] zt True by simp
    ultimately show ?thesis using page rem by (intro exI [of _ members]) (simp add: scan_add_def)
  next
    case False
    then have "scan_zset fuel R zkey registered deadline n c' (scan_add registered members acc) s2 = Some (Inr (Some res), s')"
      using Suc.prems e ne z z' by simp
    from Suc.IH [OF this] obtain L where L: "scan_counts res = fold (count_member registered) L (scan_counts (scan_add registered members acc))"
      "set L \<subseteq> dom (zs (V s2) zkey)" "remains s2 zkey c' \<subseteq> set L" by blast
    have "remains t zkey c \<subseteq> set members \<union> remains t zkey c'"
      using law_scan_next [of t zkey c "max 1 n"] zt False by simp
    moreover have "remains t zkey c' = remains s2 zkey c'" by (rule law_scan_view) (simp add: Vt V2)
    ultimately show ?thesis using L page rem V2
      by (intro exI [of _ "members @ L"]) (auto simp: scan_add_def)
  qed
qed simp

lemma scan_zset_full:
  assumes "scan_zset fuel R zkey registered deadline n 0 empty_scan s = Some (Inr (Some res), s')"
  obtains L where "scan_counts res = fold (count_member registered) L []" "set L = dom (zs (V s) zkey)"
  using scan_zset_visits [OF assms] law_scan_start [of s zkey] by (auto simp: empty_scan_def)

text \<open>A scan whose total is the cardinality visited every member once.\<close>

lemma scan_exact:
  assumes "c = fold (count_member registered) L []" and "set L = dom m" and "counts_total c = int (card (dom m))"
  shows "distinct (map fst c)" and "counter_get c tk = int (count_dom (\<lambda>j. member_task registered j = tk) m)"
proof -
  note C = count_members [of "[]" registered L, folded assms(1)]
  show "distinct (map fst c)" using C(1) by simp
  have "length L = card (set L)" using C(3) assms(2,3) by (simp add: counts_total_def)
  then have d: "distinct L" by (rule card_distinct [OF sym])
  have "count_if (\<lambda>j. member_task registered j = tk) L = card {j \<in> set L. member_task registered j = tk}"
    using distinct_card [OF distinct_filter [OF d, of "\<lambda>j. member_task registered j = tk"]] by simp
  then show "counter_get c tk = int (count_dom (\<lambda>j. member_task registered j = tk) m)"
    using C(2) [of tk] assms(2) by (simp add: count_dom_def counter_get_def)
qed

lemma rebuild_finish_done:
  assumes run: "rebuild_finish R ns deadline p r s = (Some m, s')"
    and p: "scan_counts p = fold (count_member registered) L []" "set L = dom (pend ns (V s))"
    and r: "scan_counts r = fold (count_member registered) L' []" "set L' = dom (resv ns (V s))"
  shows "pend ns (V s') = pend ns (V s)" and "resv ns (V s') = resv ns (V s)"
    and "counts_ok (member_task registered) ns (V s')"
proof -
  obtain e s1 where e: "deadline_passed R deadline s = (e, s1)" by force
  have V1: "V s1 = V s" using deadline_passed_V [of deadline s] e by simp
  let ?m = "task_count_mapping (scan_counts p) (scan_counts r)"
  let ?script = "replace_task_counts_lua R (pending_key ns) (reserved_key ns) (task_counts_key ns)
    (counts_total (scan_counts p)) (counts_total (scan_counts r)) TASK_COUNTS_TTL_SECONDS ?m"
  from run e obtain b where "replace_if_current R ns ?m (counts_total (scan_counts p)) (counts_total (scan_counts r)) s1
      = (Inr b, s')" and b
    by (auto simp: rebuild_finish_def Let_def split: if_splits sum.splits prod.splits)
  then obtain n where "rpc_script R ?script s1 = (Inr n, s')" and n: "n \<noteq> 0"
    by (auto simp: replace_if_current_def split: sum.splits prod.splits)
  then obtain t where Vt: "V t = V s1" and f: "?script t = (Inr n, s')" by (auto elim: rpc_script_Inr)
  note S = replace_script [of "pending_key ns" "reserved_key ns" "task_counts_key ns" "counts_total (scan_counts p)"
      "counts_total (scan_counts r)" TASK_COUNTS_TTL_SECONDS ?m t, unfolded f fst_conv snd_conv]
  have card: "counts_total (scan_counts p) = int (card (dom (pend ns (V s))))"
    "counts_total (scan_counts r) = int (card (dom (resv ns (V s))))"
    using S(1) n by (auto simp: Vt V1 split: if_splits)
  have V': "V s' = (if ?m \<noteq> [] then v_expire (task_counts_key ns) TASK_COUNTS_TTL_SECONDS (v_counts (task_counts_key ns) ?m (V s))
      else v_counts (task_counts_key ns) ?m (V s))"
    using S(2) card by (simp add: Vt V1)
  note P = scan_exact [OF p card(1)]
  note Q = scan_exact [OF r card(2)]
  show pq: "pend ns (V s') = pend ns (V s)" "resv ns (V s') = resv ns (V s)"
    unfolding V' by (simp_all add: v_counts_def fold_hset_zs v_del_def)
  have h: "hash_int (V s') (task_counts_key ns) f = Some (case map_of ?m f of None \<Rightarrow> 0 | Some n \<Rightarrow> n)" for f
    unfolding V' using v_counts_hash [OF task_count_mapping_distinct [OF P(1) Q(1)], of "task_counts_key ns" "V s" f]
    by (cases "?m = []") simp_all
  show "counts_ok (member_task registered) ns (V s')"
    unfolding counts_ok_def counts_lag_def pq h task_count_mapping_fields [OF P(1) Q(1)] P(2) Q(2) by simp
qed

text \<open>
  A rebuild that answers a mapping has left the exact counts, for the task keys it resolved
  the members with: the registered ones, or none when the registry could not be read.
\<close>

lemma rebuild_exact:
  assumes "rebuild fuel R ns deadline n s = Some (Some m, s')"
  obtains registered where "registered = [] \<or> set registered = dom (hs (V s) KEY_REGISTERED)"
    "pend ns (V s') = pend ns (V s)" "resv ns (V s') = resv ns (V s)"
    "counts_ok (member_task registered) ns (V s')"
proof -
  obtain t0 s1 where 1: "mono R s = (t0, s1)" by force
  have V1: "V s1 = V s" using law_mono [of s] 1 by simp
  obtain registered s2 where 2: "registered_task_keys R s1 = (registered, s2)" by force
  have V2: "V s2 = V s" using registered_task_keys_V [of s1] 2 V1 by simp
  have reg: "registered = [] \<or> set registered = dom (hs (V s) KEY_REGISTERED)"
  proof -
    obtain r t where r: "rread R (\<lambda>s. map fst (r_hgetall R s KEY_REGISTERED)) s1 = (r, t)" by force
    show ?thesis
    proof (cases r)
      case (Inl e)
      with r 2 show ?thesis by (simp add: registered_task_keys_def)
    next
      case (Inr ks)
      with r obtain u where u: "V u = V s1" "ks = map fst (r_hgetall R u KEY_REGISTERED)" by (auto elim: rread_Inr)
      have "set ks = dom (hs (V u) KEY_REGISTERED)"
        unfolding law_hgetall [symmetric] dom_map_of_conv_image_fst u(2) by simp
      with u(1) V1 r Inr 2 show ?thesis by (simp add: registered_task_keys_def)
    qed
  qed
  obtain p s3 where p: "scan_zset fuel R (pending_key ns) registered deadline n 0 empty_scan s2 = Some (Inr (Some p), s3)"
    and rest: "\<exists>r s4. scan_zset fuel R (reserved_key ns) registered deadline n 0 empty_scan s3 = Some (Inr (Some r), s4)
      \<and> rebuild_finish R ns deadline p r s4 = (Some m, s')"
    using assms 1 2 by (auto simp: rebuild_def split: option.splits sum.splits prod.splits)
  then obtain r s4 where r: "scan_zset fuel R (reserved_key ns) registered deadline n 0 empty_scan s3 = Some (Inr (Some r), s4)"
    and fin: "rebuild_finish R ns deadline p r s4 = (Some m, s')" by blast
  have V3: "V s3 = V s" using scan_zset_V [OF p] V2 by simp
  have V4: "V s4 = V s" using scan_zset_V [OF r] V3 by simp
  obtain L where L: "scan_counts p = fold (count_member registered) L []" "set L = dom (zs (V s2) (pending_key ns))"
    by (rule scan_zset_full [OF p])
  obtain L' where L': "scan_counts r = fold (count_member registered) L' []" "set L' = dom (zs (V s3) (reserved_key ns))"
    by (rule scan_zset_full [OF r])
  have "set L = dom (pend ns (V s4))" "set L' = dom (resv ns (V s4))" using L(2) L'(2) V2 V3 V4 by simp_all
  from rebuild_finish_done [OF fin L(1) this(1) L'(1) this(2)] V4 show ?thesis
    by (intro that [OF reg]) simp_all
qed

lemma scan_zset_terminates:
  assumes "scan_steps s zkey c < fuel"
  shows "\<exists>res s'. scan_zset fuel R zkey registered deadline n c acc s = Some (res, s')"
  using assms
proof (induction fuel arbitrary: c acc s)
  case (Suc fuel)
  obtain e s1 where e: "deadline_passed R deadline s = (e, s1)" by force
  have V1: "V s1 = V s" using deadline_passed_V [of deadline s] e by simp
  obtain z s2 where z: "rread R (\<lambda>s. r_zscan R s zkey c (max 1 n)) s1 = (z, s2)" by force
  have V2: "V s2 = V s" using rread_view [of "\<lambda>s. r_zscan R s zkey c (max 1 n)" s1] z V1 by simp
  show ?case
  proof (cases "e \<or> (\<exists>x. z = Inl x) \<or> (\<exists>ms. z = Inr (0, ms))")
    case True
    then show ?thesis using e z by (auto simp: Let_def)
  next
    case False
    then obtain c' ms where z': "z = Inr (c', ms)" "c' \<noteq> 0" by (cases z) auto
    from z z' obtain t where Vt: "V t = V s1" and zt: "r_zscan R t zkey c (max 1 n) = (c', ms)" by (metis rread_Inr)
    have "scan_steps t zkey c' < scan_steps t zkey c" using law_scan_steps [of t zkey c "max 1 n"] zt z' by simp
    moreover have "scan_steps t zkey c \<le> scan_steps s zkey c" by (rule law_scan_shrink) (simp add: Vt V1)
    moreover have "scan_steps s2 zkey c' \<le> scan_steps t zkey c'" by (rule law_scan_shrink) (simp add: Vt V1 V2)
    ultimately have "scan_steps s2 zkey c' < fuel" using Suc.prems by linarith
    from Suc.IH [OF this, of "scan_add registered ms acc"] False e z z' show ?thesis by (auto simp: Let_def)
  qed
qed simp

lemma rebuild_terminates:
  assumes fuel: "\<And>zkey t. zkey \<in> {pending_key ns, reserved_key ns} \<Longrightarrow> V t = V s \<Longrightarrow> scan_steps t zkey 0 < fuel"
  shows "\<exists>m s'. rebuild fuel R ns deadline n s = Some (m, s')"
proof -
  obtain t0 s1 where 1: "mono R s = (t0, s1)" by force
  have V1: "V s1 = V s" using law_mono [of s] 1 by simp
  obtain registered s2 where 2: "registered_task_keys R s1 = (registered, s2)" by force
  have V2: "V s2 = V s" using registered_task_keys_V [of s1] 2 V1 by simp
  obtain p s3 where p: "scan_zset fuel R (pending_key ns) registered deadline n 0 empty_scan s2 = Some (p, s3)"
    using scan_zset_terminates [OF fuel [of "pending_key ns" s2]] V2 by blast
  have V3: "V s3 = V s" using scan_zset_V [OF p] V2 by simp
  obtain r s4 where r: "scan_zset fuel R (reserved_key ns) registered deadline n 0 empty_scan s3 = Some (r, s4)"
    using scan_zset_terminates [OF fuel [of "reserved_key ns" s3]] V3 by blast
  show ?thesis
    using 1 2 p r by (auto simp: rebuild_def split: sum.split option.split)
qed

end

end
