(* ===== verification/Locks.thy ===== *)
theory Locks
  imports Queue_State
begin

text \<open>
  Keys that are held by an owner: the pump lock and the rebuild lock (\<open>SET NX EX\<close> and the
  owner-checked release of \<open>lua.py\<close>), the pause markers put in the pump lock and in the
  producer gate (\<open>producer.py\<close>, and the pause part of \<open>pump.py\<close>), and their inspection.
\<close>

section \<open>Scripts and primitives\<close>

definition release_lock_lua :: "'s env \<Rightarrow> string \<Rightarrow> string \<Rightarrow> 's \<Rightarrow> int result \<times> 's" where
  "release_lock_lua R key owner s =
     (if r_get R s key = Some (PStr owner) then (let (n, s) = r_del R s key in (Inr n, s)) else (Inr 0, s))"

text \<open>\<open>_try_acquire_pump_lock\<close> and \<open>_try_acquire_rebuild_lock\<close>: an exception is a failed attempt.\<close>

definition try_acquire_lock :: "'s env \<Rightarrow> string \<Rightarrow> string \<Rightarrow> int \<Rightarrow> 's \<Rightarrow> bool \<times> 's" where
  "try_acquire_lock R key owner ttl_seconds s =
     (case rpc R (\<lambda>s. r_setnx R s key (PStr owner) (Some ttl_seconds)) s of
        (Inl _, s) \<Rightarrow> (False, s)
      | (Inr acquired, s) \<Rightarrow> (acquired, s))"

definition release_lock :: "'s env \<Rightarrow> string \<Rightarrow> string \<Rightarrow> 's \<Rightarrow> 's" where
  "release_lock R key owner s = snd (rpc_script R (release_lock_lua R key owner) s)"

section \<open>Pause markers\<close>

definition PRODUCER_PAUSE_OWNER :: string where "PRODUCER_PAUSE_OWNER = ''dispatch:producer_paused''"
definition PUMP_PAUSE_OWNER :: string where "PUMP_PAUSE_OWNER = ''dispatch:paused''"
definition PUMP_TICKS_SKIPPED_BASELINE_TTL_SECONDS :: int where
  "PUMP_TICKS_SKIPPED_BASELINE_TTL_SECONDS = 24 * 3600"

record pause_info =
  pause_namespace :: string
  paused :: bool
  pause_ttl_seconds :: "int option"

text \<open>The part the two pauses share: \<open>seconds = None\<close> holds the key without expiry.\<close>

definition hold_key :: "'s env \<Rightarrow> string \<Rightarrow> string \<Rightarrow> string \<Rightarrow> real option \<Rightarrow> 's \<Rightarrow> pause_info result \<times> 's" where
  "hold_key R ns key owner seconds s =
     (case seconds of
        None \<Rightarrow>
          (case rwrite R (\<lambda>s. r_set R s key (PStr owner) None) s of
             (Inl e, s) \<Rightarrow> (Inl e, s)
           | (Inr _, s) \<Rightarrow> (Inr \<lparr>pause_namespace = ns, paused = True, pause_ttl_seconds = None\<rparr>, s))
      | Some secs \<Rightarrow>
          if secs \<le> 0 then (Inl ValueError, s)
          else (let ttl = max 1 \<lceil>secs\<rceil> in
                case rwrite R (\<lambda>s. r_set R s key (PStr owner) (Some ttl)) s of
                  (Inl e, s) \<Rightarrow> (Inl e, s)
                | (Inr _, s) \<Rightarrow> (Inr \<lparr>pause_namespace = ns, paused = True, pause_ttl_seconds = Some ttl\<rparr>, s)))"

definition pause_queue_producer :: "'s env \<Rightarrow> string \<Rightarrow> real option \<Rightarrow> 's \<Rightarrow> pause_info result \<times> 's" where
  "pause_queue_producer R ns seconds s =
     (if ns = [] then (Inl ValueError, s)
      else hold_key R ns (producer_gate_key ns) PRODUCER_PAUSE_OWNER seconds s)"

definition resume_queue_producer :: "'s env \<Rightarrow> string \<Rightarrow> 's \<Rightarrow> bool result \<times> 's" where
  "resume_queue_producer R ns s =
     (if ns = [] then (Inl ValueError, s)
      else (case rpc_script R (release_lock_lua R (producer_gate_key ns) PRODUCER_PAUSE_OWNER) s of
              (Inl e, s) \<Rightarrow> (Inl e, s) | (Inr n, s) \<Rightarrow> (Inr (n \<noteq> 0), s)))"

text \<open>Ticks at or before the baseline do not count as skipped.\<close>

definition mark_pump_ticks_skipped_baseline :: "'s env \<Rightarrow> string \<Rightarrow> int option \<Rightarrow> 's \<Rightarrow> 's" where
  "mark_pump_ticks_skipped_baseline R ns current_tick s =
     (let (tick, s) = (case current_tick of
            None \<Rightarrow> (let (now, s) = wall R s in (tick_id now, s)) | Some t \<Rightarrow> (t, s)) in
      snd (rwrite R (\<lambda>s. r_set R s (pump_ticks_skipped_baseline_key ns) (PInt tick)
                           (Some PUMP_TICKS_SKIPPED_BASELINE_TTL_SECONDS)) s))"

definition read_pump_ticks_skipped_baseline :: "'s env \<Rightarrow> string \<Rightarrow> 's \<Rightarrow> int \<times> 's" where
  "read_pump_ticks_skipped_baseline R ns s =
     (case rread R (\<lambda>s. r_get R s (pump_ticks_skipped_baseline_key ns)) s of
        (Inl _, s) \<Rightarrow> (-1, s)
      | (Inr None, s) \<Rightarrow> (-1, s)
      | (Inr (Some raw), s) \<Rightarrow> (case py_int raw of Inl _ \<Rightarrow> (-1, s) | Inr n \<Rightarrow> (n, s)))"

definition pause_queue_pump :: "'s env \<Rightarrow> string \<Rightarrow> real option \<Rightarrow> 's \<Rightarrow> pause_info result \<times> 's" where
  "pause_queue_pump R ns seconds s =
     (if ns = [] then (Inl ValueError, s)
      else hold_key R ns (pump_lock_key ns) PUMP_PAUSE_OWNER seconds (mark_pump_ticks_skipped_baseline R ns None s))"

definition resume_queue_pump :: "'s env \<Rightarrow> string \<Rightarrow> 's \<Rightarrow> bool result \<times> 's" where
  "resume_queue_pump R ns s =
     (if ns = [] then (Inl ValueError, s)
      else (case rpc_script R (release_lock_lua R (pump_lock_key ns) PUMP_PAUSE_OWNER) s of
              (Inl e, s) \<Rightarrow> (Inl e, s)
            | (Inr n, s) \<Rightarrow> (Inr (n \<noteq> 0), mark_pump_ticks_skipped_baseline R ns None s)))"

section \<open>Inspection\<close>

datatype gate_state = FREE | PAUSED | PUMPING | HELD

record gate_info =
  gate_namespace :: string
  gate_key :: string
  gate_held :: bool
  gate_owner :: "string option"
  gate_status :: gate_state
  gate_ttl_seconds :: "int option"

definition owner_text :: "pyval \<Rightarrow> string" where
  "owner_text raw = (case raw of PStr t \<Rightarrow> t | PInt i \<Rightarrow> str_of_int i | _ \<Rightarrow> [])"

definition empty_gate :: "string \<Rightarrow> string \<Rightarrow> gate_info" where
  "empty_gate ns key = \<lparr>gate_namespace = ns, gate_key = key, gate_held = False, gate_owner = None,
     gate_status = FREE, gate_ttl_seconds = None\<rparr>"

definition inspect_gate ::
  "'s env \<Rightarrow> string \<Rightarrow> string \<Rightarrow> (string \<Rightarrow> gate_state) \<Rightarrow> 's \<Rightarrow> gate_info \<times> 's" where
  "inspect_gate R ns key classify s =
     (if ns = [] then (empty_gate ns key, s)
      else (case rread R (\<lambda>s. r_get R s key) s of
              (Inl _, s) \<Rightarrow> (empty_gate ns key, s)
            | (Inr None, s) \<Rightarrow> (empty_gate ns key, s)
            | (Inr (Some raw), s) \<Rightarrow>
                (let owner = owner_text raw;
                     info = (\<lambda>ttl. \<lparr>gate_namespace = ns, gate_key = key, gate_held = True, gate_owner = Some owner,
                       gate_status = classify owner, gate_ttl_seconds = ttl\<rparr>) in
                 case rread R (\<lambda>s. r_ttl R s key) s of
                   (Inl _, s) \<Rightarrow> (info None, s)
                 | (Inr ttl, s) \<Rightarrow> (if ttl = -2 then empty_gate ns key else info (Some ttl), s))))"

definition pump_owner_state :: "string \<Rightarrow> gate_state" where
  "pump_owner_state owner =
     (if owner = PUMP_PAUSE_OWNER then PAUSED
      else if starts_with owner ''pump:'' then PUMPING else HELD)"

definition inspect_queue_producer_gate :: "'s env \<Rightarrow> string \<Rightarrow> 's \<Rightarrow> gate_info \<times> 's" where
  "inspect_queue_producer_gate R ns = inspect_gate R ns (producer_gate_key ns) (\<lambda>_. PAUSED)"

definition inspect_queue_pump_lock :: "'s env \<Rightarrow> string \<Rightarrow> 's \<Rightarrow> gate_info \<times> 's" where
  "inspect_queue_pump_lock R ns = inspect_gate R ns (if ns = [] then [] else pump_lock_key ns) pump_owner_state"

definition is_queue_producer_paused :: "'s env \<Rightarrow> string \<Rightarrow> 's \<Rightarrow> bool \<times> 's" where
  "is_queue_producer_paused R ns s =
     (let (info, s) = inspect_queue_producer_gate R ns s in (gate_status info = PAUSED, s))"

definition is_queue_pump_paused :: "'s env \<Rightarrow> string \<Rightarrow> 's \<Rightarrow> bool \<times> 's" where
  "is_queue_pump_paused R ns s =
     (let (info, s) = inspect_queue_pump_lock R ns s in (gate_status info = PAUSED, s))"

definition queue_producer_pause_ttl :: "'s env \<Rightarrow> string \<Rightarrow> 's \<Rightarrow> int option \<times> 's" where
  "queue_producer_pause_ttl R ns s =
     (let (info, s) = inspect_queue_producer_gate R ns s in
      (if gate_status info \<noteq> PAUSED then None else gate_ttl_seconds info, s))"

definition queue_pump_pause_ttl :: "'s env \<Rightarrow> string \<Rightarrow> 's \<Rightarrow> int option \<times> 's" where
  "queue_pump_pause_ttl R ns s =
     (let (info, s) = inspect_queue_pump_lock R ns s in
      (if gate_status info \<noteq> PAUSED then None else gate_ttl_seconds info, s))"

section \<open>The contract of an owned lock\<close>

text \<open>A sequence of attempts to take (\<open>True\<close>) and to give back the lock, by several owners.\<close>

fun lock_attempts ::
  "(string \<Rightarrow> 's \<Rightarrow> bool \<times> 's) \<Rightarrow> (string \<Rightarrow> 's \<Rightarrow> 's) \<Rightarrow> (string \<times> bool) list \<Rightarrow> 's \<Rightarrow> 's" where
  "lock_attempts acquire release [] s = s"
| "lock_attempts acquire release ((w, acq) # xs) s =
     lock_attempts acquire release xs (if acq then snd (acquire w s) else release w s)"

text \<open>
  \<open>holder\<close> is who the store says holds the lock. An attempt that failed may still have taken
  the lock, when only its answer was lost; a release never takes the lock from another owner.
\<close>

locale owned_lock =
  fixes holder :: "'s \<Rightarrow> string option"
    and acquire :: "string \<Rightarrow> 's \<Rightarrow> bool \<times> 's"
    and release :: "string \<Rightarrow> 's \<Rightarrow> 's"
  assumes acquire_ok: "acquire w s = (True, s') \<Longrightarrow> holder s = None \<and> holder s' = Some w"
    and acquire_failed: "acquire w s = (False, s') \<Longrightarrow> holder s' = holder s \<or> holder s = None \<and> holder s' = Some w"
    and release_own: "holder (release w s) = holder s \<or> holder s = Some w \<and> holder (release w s) = None"
begin

lemma acquire_excluded: "holder s \<noteq> None \<Longrightarrow> \<not> fst (acquire w s) \<and> holder (snd (acquire w s)) = holder s"
  using acquire_ok [of w s "snd (acquire w s)"] acquire_failed [of w s "snd (acquire w s)"]
  by (cases "acquire w s"; cases "fst (acquire w s)") auto

lemma release_other: "holder s = Some w \<Longrightarrow> v \<noteq> w \<Longrightarrow> holder (release v s) = Some w"
  using release_own [of v s] by auto

text \<open>Whatever others attempt, a holder keeps the lock until its own release.\<close>

lemma holder_keeps:
  "holder s = Some w \<Longrightarrow> \<forall>(v, acq)\<in>set xs. acq \<or> v \<noteq> w \<Longrightarrow> holder (lock_attempts acquire release xs s) = Some w"
proof (induction xs arbitrary: s)
  case (Cons x xs)
  obtain v acq where x: "x = (v, acq)" by (cases x)
  have "holder (if acq then snd (acquire v s) else release v s) = Some w"
    using Cons.prems x acquire_excluded [of s v] release_other [of s w v] by auto
  with Cons.IH Cons.prems(2) x show ?case by simp
qed simp

text \<open>So while one owner holds the lock, no attempt of another succeeds.\<close>

lemma exclusive:
  assumes "acquire w s = (True, s')" and "\<forall>(v, acq)\<in>set xs. acq \<or> v \<noteq> w"
  shows "\<not> fst (acquire v (lock_attempts acquire release xs s'))"
  using holder_keeps [of s' w xs] acquire_ok [OF assms(1)] assms(2) acquire_excluded by fastforce

end

definition lock_holder :: "view \<Rightarrow> string \<Rightarrow> string option" where
  "lock_holder v key = (case kv v key of None \<Rightarrow> None | Some raw \<Rightarrow> Some (owner_text raw))"

context redis
begin

lemma try_acquire_lock_cases:
  obtains (acquired) "\<not> present (V s) key" "try_acquire_lock R key w ttl s = (True, snd (try_acquire_lock R key w ttl s))"
      "V (snd (try_acquire_lock R key w ttl s)) = v_set key (PStr w) (Some ttl) (V s)"
  | (failed) "fst (try_acquire_lock R key w ttl s) = False" "V (snd (try_acquire_lock R key w ttl s)) = V s"
  | (lost) "\<not> present (V s) key" "fst (try_acquire_lock R key w ttl s) = False"
      "V (snd (try_acquire_lock R key w ttl s)) = v_set key (PStr w) (Some ttl) (V s)"
proof (cases rule: rpc_cases [of s "\<lambda>s. r_setnx R s key (PStr w) (Some ttl)"])
  case (answered s1)
  then show ?thesis by (cases "present (V s) key") (auto simp: try_acquire_lock_def intro: acquired failed)
next
  case (refused s1)
  then show ?thesis by (auto simp: try_acquire_lock_def intro: failed)
next
  case (lost s1)
  then show ?thesis by (cases "present (V s) key") (auto simp: try_acquire_lock_def intro: that(3) failed)
qed

lemma release_script_V:
  "V (snd (release_lock_lua R key w s)) = (if kv (V s) key = Some (PStr w) then v_del key (V s) else V s)"
  "fst (release_lock_lua R key w s) = Inr (if kv (V s) key = Some (PStr w) then 1 else 0)"
  by (auto simp: release_lock_lua_def case_prod_beta present_def)

lemma release_lock_cases:
  "V (release_lock R key w s) = V s \<or> kv (V s) key = Some (PStr w) \<and> V (release_lock R key w s) = v_del key (V s)"
  unfolding release_lock_def
  by (rule rpc_script_invariant [where I = "\<lambda>v. v = V s \<or> kv (V s) key = Some (PStr w) \<and> v = v_del key (V s)"])
     (auto simp: release_script_V)

lemma lock_contract:
  "owned_lock (\<lambda>s. lock_holder (V s) key) (\<lambda>w. try_acquire_lock R key w ttl) (release_lock R key)"
proof
  fix w s s'
  assume "try_acquire_lock R key w ttl s = (True, s')"
  then show "lock_holder (V s) key = None \<and> lock_holder (V s') key = Some w"
    by (cases rule: try_acquire_lock_cases [of s key w ttl])
       (auto simp: lock_holder_def owner_text_def present_def)
next
  fix w s s'
  assume "try_acquire_lock R key w ttl s = (False, s')"
  then show "lock_holder (V s') key = lock_holder (V s) key \<or> lock_holder (V s) key = None \<and> lock_holder (V s') key = Some w"
    by (cases rule: try_acquire_lock_cases [of s key w ttl])
       (auto simp: lock_holder_def owner_text_def present_def)
next
  fix w s
  show "lock_holder (V (release_lock R key w s)) key = lock_holder (V s) key
      \<or> lock_holder (V s) key = Some w \<and> lock_holder (V (release_lock R key w s)) key = None"
    using release_lock_cases [of key w s] by (auto simp: lock_holder_def owner_text_def v_del_def)
qed

text \<open>A successful pause holds the key, for at least the seconds asked for.\<close>

lemma hold_key_held:
  assumes "hold_key R ns key owner seconds s = (Inr info, s1)"
  shows "V s1 = v_set key (PStr owner) (pause_ttl_seconds info) (V s)" and "paused info"
    and "seconds = None \<longleftrightarrow> pause_ttl_seconds info = None"
    and "seconds = Some t \<Longrightarrow> 0 < t \<and> (\<exists>n. pause_ttl_seconds info = Some n \<and> t \<le> of_int n \<and> of_int n < t + 1)"
proof -
  have "V s1 = v_set key (PStr owner) (pause_ttl_seconds info) (V s) \<and> paused info
      \<and> (seconds = None \<longleftrightarrow> pause_ttl_seconds info = None)
      \<and> (seconds = Some t \<longrightarrow> 0 < t \<and> (\<exists>n. pause_ttl_seconds info = Some n \<and> t \<le> of_int n \<and> of_int n < t + 1))"
  proof (cases seconds)
    case None
    then show ?thesis using assms by (auto simp: hold_key_def split: sum.splits prod.splits elim!: rwrite_Inr)
  next
    case (Some u)
    then have u: "0 < u" using assms by (auto simp: hold_key_def split: if_splits)
    then have "0 < \<lceil>u\<rceil>" by simp
    then have m: "max 1 \<lceil>u\<rceil> = \<lceil>u\<rceil>" by linarith
    have "u \<le> of_int \<lceil>u\<rceil> \<and> of_int \<lceil>u\<rceil> < u + 1" by linarith
    then show ?thesis using assms Some u
      unfolding hold_key_def Let_def m by (auto split: sum.splits prod.splits elim!: rwrite_Inr)
  qed
  then show "V s1 = v_set key (PStr owner) (pause_ttl_seconds info) (V s)" and "paused info"
    and "seconds = None \<longleftrightarrow> pause_ttl_seconds info = None"
    and "seconds = Some t \<Longrightarrow> 0 < t \<and> (\<exists>n. pause_ttl_seconds info = Some n \<and> t \<le> of_int n \<and> of_int n < t + 1)"
    by blast+
qed

text \<open>A pause put in the key survives the release of whoever held it before.\<close>

lemma pause_survives_release:
  assumes "hold_key R ns key owner seconds s = (Inr info, s1)" and "w \<noteq> owner"
  shows "kv (V (release_lock R key w s1)) key = Some (PStr owner)"
  using release_lock_cases [of key w s1] hold_key_held(1) [OF assms(1)] assms(2) by auto

lemma resume_queue_producer_opens:
  assumes "resume_queue_producer R ns s = (Inr b, s')"
  shows "b \<longleftrightarrow> kv (V s) (producer_gate_key ns) = Some (PStr PRODUCER_PAUSE_OWNER)"
    and "b \<Longrightarrow> \<not> present (V s') (producer_gate_key ns)" and "\<not> b \<Longrightarrow> V s' = V s"
proof -
  from assms obtain n where "rpc_script R (release_lock_lua R (producer_gate_key ns) PRODUCER_PAUSE_OWNER) s = (Inr n, s')"
    and b: "b = (n \<noteq> 0)"
    by (auto simp: resume_queue_producer_def split: if_splits sum.splits prod.splits)
  then obtain s1 where V1: "V s1 = V s"
    and f: "release_lock_lua R (producer_gate_key ns) PRODUCER_PAUSE_OWNER s1 = (Inr n, s')" by (auto elim: rpc_script_Inr)
  note S = release_script_V [of "producer_gate_key ns" PRODUCER_PAUSE_OWNER s1]
  show "b \<longleftrightarrow> kv (V s) (producer_gate_key ns) = Some (PStr PRODUCER_PAUSE_OWNER)"
    using S f b V1 by (auto split: if_splits)
  show "b \<Longrightarrow> \<not> present (V s') (producer_gate_key ns)" "\<not> b \<Longrightarrow> V s' = V s"
    using S f b V1 by (auto simp: present_def v_del_def split: if_splits)
qed

lemma inspect_gate_V [simp]: "V (snd (inspect_gate R ns key classify s)) = V s"
  by (simp add: inspect_gate_def case_prod_beta Let_def split: sum.split option.split)

lemma inspect_gate_held:
  assumes "inspect_gate R ns key classify s = (info, s')" and "gate_held info"
  shows "\<exists>raw. kv (V s) key = Some raw \<and> gate_owner info = Some (owner_text raw) \<and> gate_status info = classify (owner_text raw)"
proof -
  obtain r s1 where 1: "rread R (\<lambda>s. r_get R s key) s = (r, s1)" by force
  with assms have "\<exists>raw. r = Inr (Some raw)"
    by (cases r) (auto simp: inspect_gate_def empty_gate_def split: if_splits option.splits)
  then obtain raw where r: "r = Inr (Some raw)" by blast
  with 1 have "kv (V s) key = Some raw" by (auto elim: rread_Inr)
  with assms 1 r show ?thesis
    by (auto simp: inspect_gate_def empty_gate_def Let_def split: if_splits sum.splits prod.splits)
qed

end

text \<open>The two locks of a namespace.\<close>

locale redis_ns = redis R V for R :: "'s env" and V :: "'s \<Rightarrow> view" +
  fixes ns :: string and ttl :: int

sublocale redis_ns \<subseteq> pump_lock: owned_lock "\<lambda>s. lock_holder (V s) (pump_lock_key ns)"
    "\<lambda>w. try_acquire_lock R (pump_lock_key ns) w ttl" "release_lock R (pump_lock_key ns)"
  by (rule lock_contract)

sublocale redis_ns \<subseteq> rebuild_lock: owned_lock "\<lambda>s. lock_holder (V s) (rebuild_lock_key ns)"
    "\<lambda>w. try_acquire_lock R (rebuild_lock_key ns) w ttl" "release_lock R (rebuild_lock_key ns)"
  by (rule lock_contract)

interpretation mem_ns: redis_ns mem_env mem_view ns ttl for ns ttl
  by unfold_locales

end
