(* ===== verification/Pump.thy ===== *)
theory Pump
  imports Controller TaskCounts Locks Lifecycle Reservation "HOL-Library.Sublist"
begin

text \<open>
  \<open>dispatch/pump.py\<close>: draining the registered queues once per tick. The worker threads of one
  process are run to completion in the order they were submitted: each works on the keys of
  its own namespace. \<open>digest\<close> is the BLAKE2s digest of a namespace, read as a number.
\<close>

section \<open>One tick of one queue\<close>

record pump_tick_stats =
  st_ready_peeked :: int
  st_newly_reserved :: int
  st_published :: int
  st_blocked :: int
  st_missing :: int
  st_reserve_unavailable :: int
  st_publish_failed :: int
  st_queue_wait_samples :: "real list"

definition empty_stats :: pump_tick_stats where
  "empty_stats = \<lparr>st_ready_peeked = 0, st_newly_reserved = 0, st_published = 0, st_blocked = 0,
     st_missing = 0, st_reserve_unavailable = 0, st_publish_failed = 0, st_queue_wait_samples = []\<rparr>"

definition record_pump_ticks_skipped :: "'s env \<Rightarrow> string \<Rightarrow> int \<Rightarrow> pydict \<Rightarrow> 's \<Rightarrow> int \<times> 's" where
  "record_pump_ticks_skipped R ns tick state s =
     (let last_decide = (case py_int (dict_get state ''tick_id'' (PInt (-1))) of Inl _ \<Rightarrow> -1 | Inr n \<Rightarrow> n);
          (b, s) = read_pump_ticks_skipped_baseline R ns s;
          baseline = max last_decide b in
      if baseline < 0 then (0, s)
      else (let missed = max 0 (tick - baseline - 1) in
            (missed, if missed \<noteq> 0
                     then record_queue_event R ns ''pump_ticks_skipped'' missed (of_int (tick * PUMP_INTERVAL_SECONDS)) s
                     else s)))"

definition cleanup_interval_for :: "(string \<Rightarrow> nat) \<Rightarrow> string \<Rightarrow> int" where
  "cleanup_interval_for digest ns =
     (let spread = max 1 (trunc (of_int PUMP_CLEANUP_INTERVAL_SECONDS * PUMP_CLEANUP_JITTER_RATIO))
      in PUMP_CLEANUP_INTERVAL_SECONDS + int (digest ns) mod spread)"

definition cleanup_due :: "'s env \<Rightarrow> string \<Rightarrow> int \<Rightarrow> 's \<Rightarrow> bool \<times> 's" where
  "cleanup_due R ns interval_seconds = try_acquire_ttl_gate R (pump_cleanup_key ns) interval_seconds"

definition REAP_SCAN_LIMIT :: int where "REAP_SCAN_LIMIT = 200"

definition maybe_cleanup_queue ::
  "nat \<Rightarrow> 's env \<Rightarrow> queue_registry \<Rightarrow> nat \<Rightarrow> (string \<Rightarrow> nat) \<Rightarrow> queue_class \<Rightarrow> real \<Rightarrow> 's \<Rightarrow> 's option" where
  "maybe_cleanup_queue fuel R reg uid digest q deadline s =
     (let ns = qc_namespace q; (t, s) = mono R s in
      if deadline \<le> t then Some s
      else (let (due, s) = cleanup_due R ns (cleanup_interval_for digest ns) s in
            if \<not> due then Some s
            else (case reap_orphaned_queue_jobs fuel R reg uid q REAP_SCAN_LIMIT (Some deadline) s of
                    None \<Rightarrow> None
                  | Some (orphaned, s) \<Rightarrow>
                      (let (t, s) = mono R s in
                       if deadline \<le> t then Some s
                       else (let (drifted, s) = counts_drifted R ns s in
                             Some (if orphaned \<noteq> 0 \<or> drifted
                                   then snd (request_rebuild R ns
                                          (if orphaned \<noteq> 0 then ''orphaned'' else ''count_drift'') s)
                                   else s))))))"

text \<open>\<open>jobs\<close> holds the payloads that were found, by job id.\<close>

fun drop_stale ::
  "'s env \<Rightarrow> queue_registry \<Rightarrow> nat \<Rightarrow> queue_class \<Rightarrow> (string \<times> dispatch_job) list \<Rightarrow> real \<Rightarrow> string list \<Rightarrow> 's
     \<Rightarrow> (dispatch_job list \<times> int) \<times> 's" where
  "drop_stale R reg uid q jobs now [] s = (([], 0), s)"
| "drop_stale R reg uid q jobs now (jid # jids) s =
     (case map_of jobs jid of
        None \<Rightarrow>
          (let (ok, s) = discard_orphaned_job R reg uid q jid [] (qc_namespace q) [] EXPIRED s;
               ((kept, missing), s) = drop_stale R reg uid q jobs now jids s
           in ((kept, missing + 1), s))
      | Some job \<Rightarrow>
          if wait_deadline_at job \<noteq> 0 \<and> wait_deadline_at job \<le> now then
            (let (ok, s) = discard_orphaned_job R reg uid q jid (task_key job) (qc_namespace q) [] EXPIRED s
             in drop_stale R reg uid q jobs now jids s)
          else
            (let ((kept, missing), s) = drop_stale R reg uid q jobs now jids s
             in ((job # kept, missing), s)))"

definition hydrate_and_drop_stale ::
  "'s env \<Rightarrow> queue_registry \<Rightarrow> nat \<Rightarrow> queue_class \<Rightarrow> string list \<Rightarrow> int \<Rightarrow> 's \<Rightarrow> (dispatch_job list \<times> int) \<times> 's" where
  "hydrate_and_drop_stale R reg uid q jids budget s =
     (let (jobs, s) = get_jobs R (qc_namespace q) jids s;
          (now, s) = wall R s;
          ((kept, missing), s) = drop_stale R reg uid q jobs now jids s
      in ((take (nat budget) kept, missing), s))"

fun requeue_reserved ::
  "'s env \<Rightarrow> 's db \<Rightarrow> (string \<times> task_config_class) list \<Rightarrow> queue_registry \<Rightarrow> nat \<Rightarrow> queue_class
     \<Rightarrow> (dispatch_job \<times> reservation_status) list \<Rightarrow> 's \<Rightarrow> 's" where
  "requeue_reserved R D tasks reg uid q [] s = s"
| "requeue_reserved R D tasks reg uid q ((job, status) # rest) s =
     (let s = (if status = RSV_RESERVED
               then (let (ttl, s) = resolve_queue_wait_ttl_from_job D tasks job s
                     in snd (requeue R reg uid q job (ready_at job) ttl s))
               else s)
      in requeue_reserved R D tasks reg uid q rest s)"

text \<open>The record TTLs of one chunk, resolved once per task key and frozen configuration.\<close>

type_synonym ttl_cache = "((string \<times> pyval) \<times> int) list"

fun reserved_record_ttls ::
  "'s db \<Rightarrow> (string \<times> task_config_class) list \<Rightarrow> ttl_cache \<Rightarrow> dispatch_job list \<Rightarrow> 's \<Rightarrow> (int list \<times> ttl_cache) \<times> 's" where
  "reserved_record_ttls D tasks cache [] s = (([], cache), s)"
| "reserved_record_ttls D tasks cache (job # jobs) s =
     (let (ttl, cache, s) =
            (case map_of cache (task_key job, config_json job) of
               Some ttl \<Rightarrow> (ttl, cache, s)
             | None \<Rightarrow>
                 (let (ttl, s) = resolve_reserved_record_ttl_from_job D tasks job s
                  in (ttl, ((task_key job, config_json job), ttl) # cache, s)));
          ((ttls, cache), s) = reserved_record_ttls D tasks cache jobs s
      in ((ttl # ttls, cache), s))"

text \<open>
  Publishing one chunk: the flags are whether pumping stops for this tick (backpressure), and
  whether a publication failed, which returns at once.
\<close>

fun publish_chunk ::
  "'s env \<Rightarrow> 's db \<Rightarrow> (string \<times> task_config_class) list \<Rightarrow> queue_registry \<Rightarrow> nat \<Rightarrow> queue_class
     \<Rightarrow> (dispatch_job \<times> reservation_status) list \<Rightarrow> bool \<Rightarrow> pump_tick_stats \<Rightarrow> 's
     \<Rightarrow> (bool \<times> bool \<times> pump_tick_stats) \<times> 's" where
  "publish_chunk R D tasks reg uid q [] blocked stats s = ((blocked, False, stats), s)"
| "publish_chunk R D tasks reg uid q ((job, status) # rest) blocked stats s =
     (if status = RSV_MISSING then publish_chunk R D tasks reg uid q rest blocked stats s
      else if status \<noteq> RSV_RESERVED then publish_chunk R D tasks reg uid q rest True stats s
      else
        (let (now, s) = wall R s;
             stats = stats\<lparr>st_queue_wait_samples :=
               st_queue_wait_samples stats @ [max 0 (now - max (created_at job) (ready_at job))]\<rparr>;
             (ok, s) = celery_publish R s (job_id job) in
         if ok then publish_chunk R D tasks reg uid q rest blocked (stats\<lparr>st_published := st_published stats + 1\<rparr>) s
         else ((blocked, True, stats\<lparr>st_publish_failed := st_publish_failed stats + 1\<rparr>),
               requeue_reserved R D tasks reg uid q ((job, status) # rest) s)))"

definition count_statuses :: "reservation_status list \<Rightarrow> pump_tick_stats \<Rightarrow> pump_tick_stats" where
  "count_statuses statuses stats =
     stats\<lparr>st_newly_reserved := st_newly_reserved stats + int (count_if (\<lambda>x. x = RSV_RESERVED) statuses),
           st_blocked := st_blocked stats + int (count_if (\<lambda>x. x \<in> BACKPRESSURE_STATUSES) statuses),
           st_missing := st_missing stats + int (count_if (\<lambda>x. x = RSV_MISSING) statuses),
           st_reserve_unavailable := st_reserve_unavailable stats + int (count_if (\<lambda>x. x = RSV_UNAVAILABLE) statuses)\<rparr>"

fun pump_chunks ::
  "'s env \<Rightarrow> 's db \<Rightarrow> (string \<times> task_config_class) list \<Rightarrow> queue_registry \<Rightarrow> nat \<Rightarrow> queue_class \<Rightarrow> queue_config
     \<Rightarrow> int \<Rightarrow> real \<Rightarrow> int \<Rightarrow> dispatch_job list list \<Rightarrow> bool \<Rightarrow> ttl_cache \<Rightarrow> pump_tick_stats \<Rightarrow> 's
     \<Rightarrow> (unit result \<times> pump_tick_stats) \<times> 's" where
  "pump_chunks R D tasks reg uid q config budget deadline tick [] blocked cache stats s = ((Inr (), stats), s)"
| "pump_chunks R D tasks reg uid q config budget deadline tick (chunk # rest) blocked cache stats s =
     (if blocked then ((Inr (), stats), s)
      else
        (let (t, s) = mono R s in
         if deadline \<le> t then ((Inr (), stats), s)
         else
           (let ((ttls, cache), s) = reserved_record_ttls D tasks cache chunk s in
            case reserve_jobs R (qc_namespace q) chunk config ttls tick budget s of
              (Inl e, s) \<Rightarrow> ((Inl e, stats), s)
            | (Inr statuses, s) \<Rightarrow>
                (case publish_chunk R D tasks reg uid q (zip chunk statuses) False (count_statuses statuses stats) s of
                   ((blocked, failed, stats), s) \<Rightarrow>
                     if failed then ((Inr (), stats), s)
                     else pump_chunks R D tasks reg uid q config budget deadline tick rest blocked cache stats s))))"

definition reserve_and_publish ::
  "'s env \<Rightarrow> 's db \<Rightarrow> (string \<times> task_config_class) list \<Rightarrow> queue_registry \<Rightarrow> nat \<Rightarrow> queue_class \<Rightarrow> dispatch_job list
     \<Rightarrow> queue_config \<Rightarrow> int \<Rightarrow> real \<Rightarrow> int \<Rightarrow> pump_tick_stats \<Rightarrow> 's \<Rightarrow> (unit result \<times> pump_tick_stats) \<times> 's" where
  "reserve_and_publish R D tasks reg uid q jobs config budget deadline tick stats s =
     pump_chunks R D tasks reg uid q config budget deadline tick (chunks DISPATCH_LUA_BATCH_SIZE jobs) False [] stats s"

definition flush_pump_metrics :: "'s env \<Rightarrow> string \<Rightarrow> pump_tick_stats \<Rightarrow> real \<Rightarrow> real \<Rightarrow> 's \<Rightarrow> 's" where
  "flush_pump_metrics R ns stats metric_timestamp started_at s =
     (let (t, s) = mono R s; (now, s) = wall R s in
      pipe_execute R
        (concat (map (\<lambda>(name, amount). queue_event_commands R ns name amount metric_timestamp)
           [(''ready_peeked'', st_ready_peeked stats), (''reserved'', st_newly_reserved stats),
            (''published'', st_published stats), (''blocked'', st_blocked stats), (''missing'', st_missing stats),
            (''reserve_unavailable'', st_reserve_unavailable stats), (''publish_failed'', st_publish_failed stats)])
         @ histogram_commands R ns ''queue_wait_seconds'' (st_queue_wait_samples stats) metric_timestamp
         @ histogram_commands R ns ''pump_seconds'' [t - started_at] now) s)"

text \<open>The \<open>try\<close> block of \<open>_pump_queue\<close>: what it answers, and the statistics the flush gets.\<close>

definition pump_body ::
  "'s env \<Rightarrow> 's db \<Rightarrow> (string \<times> task_config_class) list \<Rightarrow> queue_registry \<Rightarrow> nat \<Rightarrow> queue_class \<Rightarrow> queue_config
     \<Rightarrow> real \<Rightarrow> int \<Rightarrow> pydict \<Rightarrow> 's \<Rightarrow> (int result \<times> pump_tick_stats) \<times> 's" where
  "pump_body R D tasks reg uid q config deadline tick state s =
     (let (d, s) = decide R (qc_namespace q) config (Some tick) (Some state) s in
      if effective_budget d \<le> 0 then ((Inr 0, empty_stats), s)
      else
        (let (jids, s) = peek_ready R (qc_namespace q) (max 10 (effective_budget d * 3)) None s;
             stats = empty_stats\<lparr>st_ready_peeked := int (length jids)\<rparr> in
         if jids = [] then ((Inr 0, stats), s)
         else
           (let ((jobs, missing), s) = hydrate_and_drop_stale R reg uid q jids (effective_budget d) s in
            case reserve_and_publish R D tasks reg uid q jobs config (effective_budget d) deadline tick
                   (stats\<lparr>st_missing := missing\<rparr>) s of
              ((Inl e, stats), s) \<Rightarrow> ((Inl e, stats), s)
            | ((Inr _, stats), s) \<Rightarrow> ((Inr (st_published stats), stats), s))))"

definition pump_queue ::
  "nat \<Rightarrow> 's env \<Rightarrow> 's db \<Rightarrow> (string \<times> task_config_class) list \<Rightarrow> queue_registry \<Rightarrow> nat \<Rightarrow> (string \<Rightarrow> nat)
     \<Rightarrow> queue_class \<Rightarrow> real \<Rightarrow> int \<Rightarrow> 's \<Rightarrow> (int result \<times> 's) option" where
  "pump_queue fuel R D tasks reg uid digest q deadline tick s =
     (let (started_at, s) = mono R s; (t, s) = mono R s in
      if deadline \<le> t then Some (Inr 0, s)
      else
        (case queue_from_db D q s of
           (Inl e, s) \<Rightarrow> Some (Inl e, s)
         | (Inr config, s) \<Rightarrow>
             (case maybe_cleanup_queue fuel R reg uid digest q deadline s of
                None \<Rightarrow> None
              | Some s \<Rightarrow>
                  (let (state, s) = read_state R (qc_namespace q) s;
                       s = snd (record_pump_ticks_skipped R (qc_namespace q) tick state s);
                       ((r, stats), s) = pump_body R D tasks reg uid q config deadline tick state s
                   in Some (r, flush_pump_metrics R (qc_namespace q) stats (of_int (tick * PUMP_INTERVAL_SECONDS))
                                 started_at s)))))"

section \<open>The lock around it\<close>

text \<open>\<open>token\<close> is the random part of the owner name.\<close>

definition pump_owner :: "string \<Rightarrow> string \<Rightarrow> string" where
  "pump_owner ns token = ''pump:'' @ ns @ '':'' @ token"

definition pump_queue_with_lock ::
  "nat \<Rightarrow> 's env \<Rightarrow> 's db \<Rightarrow> (string \<times> task_config_class) list \<Rightarrow> queue_registry \<Rightarrow> nat \<Rightarrow> (string \<Rightarrow> nat)
     \<Rightarrow> string \<Rightarrow> queue_class \<Rightarrow> real \<Rightarrow> int \<Rightarrow> int \<Rightarrow> 's \<Rightarrow> (int result \<times> 's) option" where
  "pump_queue_with_lock fuel R D tasks reg uid digest token q deadline tick lock_ttl s =
     (let ns = qc_namespace q; owner = pump_owner ns token;
          (acquired, s) = try_acquire_lock R (pump_lock_key ns) owner (max 1 lock_ttl) s in
      if \<not> acquired then
        (let (is_paused, s) = is_queue_pump_paused R ns s in
         Some (Inr 0, if is_paused then s
                      else record_queue_event R ns ''pump_lock_contention'' 1 (of_int (tick * PUMP_INTERVAL_SECONDS)) s))
      else map_option (\<lambda>(r, s). (r, release_lock R (pump_lock_key ns) owner s))
             (pump_queue fuel R D tasks reg uid digest q deadline tick s))"

section \<open>The whole tick\<close>

definition ROTATION_MULTIPLIER :: int where "ROTATION_MULTIPLIER = 2654435761"
definition PUMP_STARVED_METRIC_LIMIT :: nat where "PUMP_STARVED_METRIC_LIMIT = 50"

definition rotate_for_tick :: "'a list \<Rightarrow> int \<Rightarrow> 'a list" where
  "rotate_for_tick queues tick =
     (if length queues < 2 then queues
      else (let offset = nat ((tick * ROTATION_MULTIPLIER) mod int (length queues))
            in drop offset queues @ take offset queues))"

text \<open>One pipeline per shard; \<open>shard\<close> resolves a namespace to its connection, or raises.\<close>

fun flush_shards :: "'s env \<Rightarrow> (string \<Rightarrow> nat result) \<Rightarrow> real \<Rightarrow> string list \<Rightarrow> nat list \<Rightarrow> 's \<Rightarrow> 's" where
  "flush_shards R shard timestamp nss [] s = s"
| "flush_shards R shard timestamp nss (c # cs) s =
     flush_shards R shard timestamp nss cs
       (pipe_execute R (concat (map (\<lambda>ns. queue_event_commands R ns ''pump_not_started'' 1 timestamp)
          (filter (\<lambda>ns. shard ns = Inr c) nss))) s)"

definition record_pump_not_started :: "'s env \<Rightarrow> (string \<Rightarrow> nat result) \<Rightarrow> queue_class list \<Rightarrow> int \<Rightarrow> 's \<Rightarrow> 's" where
  "record_pump_not_started R shard queues tick s =
     (let nss = map qc_namespace (take PUMP_STARVED_METRIC_LIMIT queues);
          shards = concat (map (\<lambda>ns. case shard ns of Inl _ \<Rightarrow> [] | Inr c \<Rightarrow> [c]) nss)
      in flush_shards R shard (of_int (tick * PUMP_INTERVAL_SECONDS)) nss (rev (remdups (rev shards))) s)"

text \<open>\<open>submit_next\<close>: whether a queue was submitted, and the queues running and waiting.\<close>

definition submit_next :: "'s env \<Rightarrow> real \<Rightarrow> 'q list \<Rightarrow> 'q list \<Rightarrow> 's \<Rightarrow> (bool \<times> 'q list \<times> 'q list) \<times> 's" where
  "submit_next R deadline running waiting s =
     (let (t, s) = mono R s in
      if deadline \<le> t then ((False, running, waiting), s)
      else (case waiting of
              [] \<Rightarrow> ((False, running, []), s)
            | q # qs \<Rightarrow> ((True, running @ [q], qs), s)))"

fun submit_first :: "nat \<Rightarrow> 's env \<Rightarrow> real \<Rightarrow> 'q list \<Rightarrow> 'q list \<Rightarrow> 's \<Rightarrow> ('q list \<times> 'q list) \<times> 's" where
  "submit_first 0 R deadline running waiting s = ((running, waiting), s)"
| "submit_first (Suc n) R deadline running waiting s =
     (let ((submitted, running, waiting), s) = submit_next R deadline running waiting s in
      if submitted then submit_first n R deadline running waiting s else ((running, waiting), s))"

text \<open>\<open>work\<close> is the call submitted for a queue; \<open>n\<close> bounds the queues left to complete.\<close>

fun pump_workers ::
  "nat \<Rightarrow> 's env \<Rightarrow> real \<Rightarrow> ('q \<Rightarrow> 's \<Rightarrow> (int result \<times> 's) option) \<Rightarrow> 'q list \<Rightarrow> 'q list \<Rightarrow> int \<Rightarrow> 's
     \<Rightarrow> ((int \<times> 'q list) \<times> 's) option" where
  "pump_workers n R deadline work [] waiting acc s = Some ((acc, waiting), s)"
| "pump_workers 0 R deadline work (q # running) waiting acc s = None"
| "pump_workers (Suc n) R deadline work (q # running) waiting acc s =
     (case work q s of
        None \<Rightarrow> None
      | Some (r, s) \<Rightarrow>
          (let acc = (case r of Inl _ \<Rightarrow> acc | Inr k \<Rightarrow> acc + k);
               ((_, running, waiting), s) = submit_next R deadline running waiting s
           in pump_workers n R deadline work running waiting acc s))"

definition dispatch_global_pump ::
  "nat \<Rightarrow> 's env \<Rightarrow> 's db \<Rightarrow> (string \<times> task_config_class) list \<Rightarrow> queue_registry \<Rightarrow> nat \<Rightarrow> (string \<Rightarrow> nat)
     \<Rightarrow> (string \<Rightarrow> string) \<Rightarrow> (string \<Rightarrow> nat result) \<Rightarrow> 's \<Rightarrow> (int \<times> 's) option" where
  "dispatch_global_pump fuel R D tasks reg uid digest token shard s =
     (let queues = registered_queues reg in
      if queues = [] then Some (0, s)
      else
        (let (now, s) = wall R s; tick = tick_id now;
             queues = rotate_for_tick queues tick;
             (t, s) = mono R s; deadline = t + deadline_seconds;
             worker_count = min (length queues) (nat (max 1 (max_parallel_queues DispatchPumpConfig)));
             ((running, waiting), s) = submit_first worker_count R deadline [] queues s in
         case pump_workers (length queues) R deadline
                (\<lambda>q. pump_queue_with_lock fuel R D tasks reg uid digest (token (qc_namespace q)) q deadline tick lock_ttl_seconds)
                running waiting 0 s of
           None \<Rightarrow> None
         | Some ((pumped, left), s) \<Rightarrow> Some (pumped, record_pump_not_started R shard left tick s)))"

section \<open>The order of the queues\<close>

lemma rotate_mset: "mset (rotate_for_tick queues tick) = mset queues"
proof -
  have "mset (drop n queues @ take n queues) = mset (take n queues @ drop n queues)" for n
    by (simp only: mset_append add.commute)
  then show ?thesis unfolding rotate_for_tick_def Let_def append_take_drop_id by (metis (full_types))
qed

lemma rotate_head:
  assumes "2 \<le> length queues"
  shows "hd (rotate_for_tick queues tick) = queues ! nat ((tick * ROTATION_MULTIPLIER) mod int (length queues))"
proof -
  let ?o = "nat ((tick * ROTATION_MULTIPLIER) mod int (length queues))"
  have "(0::int) < int (length queues)" using assms by linarith
  then have "0 \<le> (tick * ROTATION_MULTIPLIER) mod int (length queues)
      \<and> (tick * ROTATION_MULTIPLIER) mod int (length queues) < int (length queues)" by simp
  then have "?o < length queues" by linarith
  then have "hd (drop ?o queues @ take ?o queues) = queues ! ?o" by (simp add: hd_drop_conv_nth)
  with assms show ?thesis by (simp add: rotate_for_tick_def Let_def)
qed

text \<open>
  When the multiplier and the number of queues have no common factor, every queue comes first
  in one of any \<open>n\<close> consecutive ticks.
\<close>

lemma rotate_fair:
  assumes n: "2 \<le> length queues" and cop: "coprime ROTATION_MULTIPLIER (int (length queues))" and i: "i < length queues"
  shows "\<exists>tick. start \<le> tick \<and> tick < start + int (length queues) \<and> hd (rotate_for_tick queues tick) = queues ! i"
proof -
  define n where "n = int (length queues)"
  have n0: "0 < n" unfolding n_def using n by linarith
  obtain u v where uv: "u * ROTATION_MULTIPLIER + v * n = gcd ROTATION_MULTIPLIER n"
    using bezout_int by blast
  have "gcd ROTATION_MULTIPLIER n = 1" using cop by (simp add: n_def coprime_iff_gcd_eq_1)
  with uv have one: "u * ROTATION_MULTIPLIER = 1 - v * n" by simp
  define t where "t = start + (u * int i - start) mod n"
  have "t mod n = (u * int i) mod n" by (simp add: t_def mod_add_right_eq)
  then have "(t * ROTATION_MULTIPLIER) mod n = (u * int i * ROTATION_MULTIPLIER) mod n"
    by (metis mod_mult_left_eq)
  also have "u * int i * ROTATION_MULTIPLIER = int i * (u * ROTATION_MULTIPLIER)" by (simp add: algebra_simps)
  also have "\<dots> = int i + n * (- v * int i)" unfolding one by (simp add: algebra_simps)
  also have "(int i + n * (- v * int i)) mod n = int i mod n" by (rule mod_mult_self2)
  also have "\<dots> = int i" using i by (simp add: n_def)
  finally have "hd (rotate_for_tick queues t) = queues ! i" using rotate_head [OF n, of t] by (simp add: n_def)
  moreover have "start \<le> t" "t < start + n" using n0 by (simp_all add: t_def)
  ultimately show ?thesis by (auto simp: n_def)
qed

text \<open>What the workers leave is the tail of the order, and they always finish.\<close>

lemma submit_next_cases:
  obtains (refused) "fst (submit_next R deadline running waiting s) = (False, running, waiting)"
  | (taken) q qs where "waiting = q # qs" "fst (submit_next R deadline running waiting s) = (True, running @ [q], qs)"
proof (cases "deadline \<le> fst (mono R s) \<or> waiting = []")
  case True
  then show ?thesis by (intro refused) (auto simp: submit_next_def case_prod_beta Let_def)
next
  case False
  then obtain q qs where "waiting = q # qs" by (cases waiting) auto
  with False show ?thesis by (intro taken [of q qs]) (auto simp: submit_next_def case_prod_beta Let_def)
qed

lemma submit_first_split:
  assumes "submit_first n R deadline running waiting s = ((running', waiting'), s')"
  shows "running' @ waiting' = running @ waiting \<and> length waiting' \<le> length waiting"
  using assms
proof (induction n arbitrary: running waiting s)
  case (Suc n)
  obtain r s1 where 1: "submit_next R deadline running waiting s = (r, s1)" by (rule prod.exhaust)
  show ?case
  proof (cases rule: submit_next_cases [of R deadline running waiting s])
    case refused
    with Suc.prems 1 show ?thesis by simp
  next
    case (taken q qs)
    with Suc.prems 1 Suc.IH [of "running @ [q]" qs s1] show ?thesis by auto
  qed
qed simp

lemma pump_workers_total:
  assumes "\<And>q s. work q s \<noteq> None" and "length running + length waiting \<le> n"
  shows "\<exists>m left s'. pump_workers n R deadline work running waiting acc s = Some ((m, left), s') \<and> suffix left waiting"
  using assms(2)
proof (induction n arbitrary: running waiting acc s)
  case 0
  then show ?case by simp
next
  case (Suc n)
  show ?case
  proof (cases running)
    case Nil
    then show ?thesis by simp
  next
    case (Cons q running')
    obtain r s1 where w: "work q s = Some (r, s1)" using assms(1) by fastforce
    obtain x s2 where 1: "submit_next R deadline running' waiting s1 = (x, s2)" by (rule prod.exhaust)
    let ?t = "case r of Inl _ \<Rightarrow> acc | Inr k \<Rightarrow> acc + k"
    show ?thesis
    proof (cases rule: submit_next_cases [of R deadline running' waiting s1])
      case refused
      with Suc.IH [of running' waiting ?t s2] Suc.prems Cons w 1 show ?thesis by (auto simp: Let_def)
    next
      case (taken q' qs)
      with Suc.IH [of "running' @ [q']" qs ?t s2] Suc.prems Cons w 1 show ?thesis
        by (auto simp: Let_def intro: suffix_ConsI)
    qed
  qed
qed

section \<open>Only jobs that hold a slot are published\<close>

lemma subseq_distinct: "subseq xs ys \<Longrightarrow> distinct ys \<Longrightarrow> distinct xs"
proof (induction rule: list_emb.induct)
  case (list_emb_Cons2 x y xs ys)
  then show ?case using list_emb_set [OF list_emb_Cons2(2)] by auto
qed auto

lemma subseq_set: "subseq xs ys \<Longrightarrow> set xs \<subseteq> set ys"
  by (induction rule: list_emb.induct) auto

lemma distinct_zip_ids: "distinct (map f xs) \<Longrightarrow> distinct (map (\<lambda>p. f (fst p)) (zip xs ys))"
proof (induction xs arbitrary: ys)
  case (Cons x xs)
  then show ?case by (cases ys) (auto dest: set_zip_leftD)
qed simp

text \<open>Every record is stored under the id and in the namespace it carries.\<close>

definition records_named :: "string \<Rightarrow> view \<Rightarrow> bool" where
  "records_named ns v \<longleftrightarrow>
     (\<forall>jid raw job. kv v (job_key ns jid) = Some raw \<longrightarrow> decode_job raw = Inr job \<longrightarrow>
        job_id job = jid \<and> job_namespace job = ns)"

text \<open>
  Between two stores of one tick: the ids handed to the broker are those of \<open>ids\<close>, each of
  them still holds its slot, and the slots stay within the bound \<open>mx\<close>.
\<close>

definition published_in :: "string \<Rightarrow> int \<Rightarrow> string list \<Rightarrow> view \<Rightarrow> view \<Rightarrow> bool" where
  "published_in ns mx ids v v' \<longleftrightarrow>
     sent v' = sent v @ ids \<and> set ids \<subseteq> dom (resv ns v')
     \<and> int (card (dom (resv ns v'))) \<le> max (int (card (dom (resv ns v)))) mx"

context settings
begin

lemma resolve_stored_V [simp]: "V (snd (resolve_stored_task_config D tasks job s)) = V s"
  using from_db_V(2)
  by (auto simp: resolve_stored_task_config_def case_prod_beta split: option.split sum.split)

lemma resolve_ttl_V [simp]:
  "V (snd (resolve_queue_wait_ttl_from_job D tasks job s)) = V s"
  "V (snd (resolve_reserved_record_ttl_from_job D tasks job s)) = V s"
  using resolve_stored_V [of tasks job s]
  by (auto simp: resolve_queue_wait_ttl_from_job_def resolve_reserved_record_ttl_from_job_def case_prod_beta
      split: option.split)

lemma reserved_record_ttls_V [simp]: "V (snd (reserved_record_ttls D tasks cache jobs s)) = V s"
proof (induction jobs arbitrary: cache s)
  case (Cons job jobs)
  show ?case
  proof (cases "map_of cache (task_key job, config_json job)")
    case None
    let ?r = "resolve_reserved_record_ttl_from_job D tasks job s"
    show ?thesis
      using None Cons [of "((task_key job, config_json job), fst ?r) # cache" "snd ?r"] by (simp add: case_prod_beta Let_def)
  next
    case (Some t)
    then show ?thesis using Cons [of cache s] by (simp add: case_prod_beta Let_def)
  qed
qed simp

lemma requeue_reserved_slots:
  assumes reg: "\<forall>(k, p)\<in>set reg. qc_namespace p = k" and ns: "qc_namespace q = ns" "ns \<noteq> []"
    and jobs: "\<forall>(job, st)\<in>set pairs. job_namespace job = ns"
  shows "sent (V (requeue_reserved R D tasks reg uid q pairs s)) = sent (V s)
    \<and> dom (resv ns (V (requeue_reserved R D tasks reg uid q pairs s))) \<subseteq> dom (resv ns (V s))
    \<and> (\<forall>j. j \<notin> (\<lambda>(job, st). job_id job) ` set pairs \<longrightarrow>
         resv ns (V (requeue_reserved R D tasks reg uid q pairs s)) j = resv ns (V s) j)"
  using jobs
proof (induction pairs arbitrary: s)
  case (Cons x pairs)
  obtain job st where x: "x = (job, st)" by (cases x)
  let ?r = "resolve_queue_wait_ttl_from_job D tasks job s"
  let ?s1 = "if st = RSV_RESERVED then snd (requeue R reg uid q job (ready_at job) (fst ?r) (snd ?r)) else s"
  have eq: "requeue_reserved R D tasks reg uid q (x # pairs) s = requeue_reserved R D tasks reg uid q pairs ?s1"
    by (simp add: x case_prod_beta Let_def)
  have jn: "job_namespace job = ns" using Cons.prems x by simp
  note Q = requeue_slots [OF reg ns(1) jn ns(2), where uid = uid and ready = "ready_at job" and ttl = "fst ?r" and s = "snd ?r"]
  have one: "sent (V ?s1) = sent (V s)" "resv ns (V ?s1) = resv ns (V s) \<or> resv ns (V ?s1) = (resv ns (V s))(job_id job := None)"
    using Q by (auto split: if_splits)
  have "\<forall>(job, st)\<in>set pairs. job_namespace job = ns" using Cons.prems by simp
  note IH = Cons.IH [of ?s1, OF this]
  let ?v' = "V (requeue_reserved R D tasks reg uid q pairs ?s1)"
  have sub: "dom (resv ns (V ?s1)) \<subseteq> dom (resv ns (V s))" using one(2) by (auto split: if_splits)
  have other: "resv ns ?v' j = resv ns (V s) j" if "j \<notin> (\<lambda>(job, st). job_id job) ` set (x # pairs)" for j
  proof -
    have "j \<noteq> job_id job" "j \<notin> (\<lambda>(job, st). job_id job) ` set pairs" using that by (auto simp: x)
    moreover from this(1) have "resv ns (V ?s1) j = resv ns (V s) j" using one(2) by (metis fun_upd_other)
    ultimately show ?thesis using IH by simp
  qed
  have "sent ?v' = sent (V s)" using IH one(1) by simp
  moreover have "dom (resv ns ?v') \<subseteq> dom (resv ns (V s))" using IH sub by blast
  ultimately show ?case unfolding eq using other by blast
qed simp

lemma card_dom_mono: "dom (resv ns v') \<subseteq> dom (resv ns (V s)) \<Longrightarrow> card (dom (resv ns v')) \<le> card (dom (resv ns (V s)))"
  by (rule card_mono) simp_all

lemma publish_chunk_published:
  assumes reg: "\<forall>(k, p)\<in>set reg. qc_namespace p = k" and ns: "qc_namespace q = ns" "ns \<noteq> []"
    and jobs: "\<forall>(job, st)\<in>set pairs. job_namespace job = ns \<and> (st = RSV_RESERVED \<longrightarrow> resv ns (V s) (job_id job) \<noteq> None)"
    and dist: "distinct (map (\<lambda>p. job_id (fst p)) pairs)"
    and run: "publish_chunk R D tasks reg uid q pairs blocked stats s = ((b, failed, stats'), s')"
  shows "\<exists>ids. sent (V s') = sent (V s) @ ids \<and> set ids \<subseteq> (\<lambda>p. job_id (fst p)) ` set pairs \<and> distinct ids
    \<and> st_published stats' = st_published stats + int (length ids)
    \<and> dom (resv ns (V s')) \<subseteq> dom (resv ns (V s)) \<and> set ids \<subseteq> dom (resv ns (V s'))
    \<and> (\<forall>j. j \<notin> (\<lambda>p. job_id (fst p)) ` set pairs \<longrightarrow> resv ns (V s') j = resv ns (V s) j)"
  using jobs dist run
proof (induction pairs arbitrary: blocked stats s)
  case Nil
  then show ?case by auto
next
  case (Cons x pairs)
  obtain job st where x: "x = (job, st)" by (cases x)
  have rest: "\<forall>(job, st)\<in>set pairs. job_namespace job = ns \<and> (st = RSV_RESERVED \<longrightarrow> resv ns (V s) (job_id job) \<noteq> None)"
    "distinct (map (\<lambda>p. job_id (fst p)) pairs)" using Cons.prems(1,2) by simp_all
  show ?case
  proof (cases "st = RSV_RESERVED")
    case False
    then obtain b' where "publish_chunk R D tasks reg uid q pairs b' stats s = ((b, failed, stats'), s')"
      using Cons.prems(3) x by (cases "st = RSV_MISSING") auto
    from Cons.IH [OF rest this] show ?thesis by (auto simp: x)
  next
    case True
    obtain now s1 where w: "wall R s = (now, s1)" by (rule prod.exhaust)
    have V1: "V s1 = V s" using law_wall [of s] w by simp
    obtain ok s2 where p: "celery_publish R s1 (job_id job) = (ok, s2)" by (rule prod.exhaust)
    have V2: "V s2 = (if ok then (V s)\<lparr>sent := sent (V s) @ [job_id job]\<rparr> else V s)"
      using law_publish [of s1 "job_id job"] p V1 by simp
    let ?st = "stats\<lparr>st_queue_wait_samples := st_queue_wait_samples stats @ [max 0 (now - max (created_at job) (ready_at job))]\<rparr>"
    show ?thesis
    proof (cases ok)
      case ok: True
      then have r2: "resv ns (V s2) = resv ns (V s)" "sent (V s2) = sent (V s) @ [job_id job]" using V2 by simp_all
      have run2: "publish_chunk R D tasks reg uid q pairs blocked (?st\<lparr>st_published := st_published ?st + 1\<rparr>) s2
          = ((b, failed, stats'), s')"
        using Cons.prems(3) x True w p ok by (simp add: Let_def)
      have rest2: "\<forall>(job, st)\<in>set pairs. job_namespace job = ns \<and> (st = RSV_RESERVED \<longrightarrow> resv ns (V s2) (job_id job) \<noteq> None)"
        using rest(1) r2 by simp
      from Cons.IH [OF rest2 rest(2) run2] obtain ids where ids: "sent (V s') = sent (V s2) @ ids"
        "set ids \<subseteq> (\<lambda>p. job_id (fst p)) ` set pairs" "distinct ids" "st_published stats' = st_published stats + 1 + int (length ids)"
        "dom (resv ns (V s')) \<subseteq> dom (resv ns (V s2))" "set ids \<subseteq> dom (resv ns (V s'))"
        "\<forall>j. j \<notin> (\<lambda>p. job_id (fst p)) ` set pairs \<longrightarrow> resv ns (V s') j = resv ns (V s2) j" by auto
      have fresh: "job_id job \<notin> (\<lambda>p. job_id (fst p)) ` set pairs" using Cons.prems(2) x by auto
      have held: "resv ns (V s) (job_id job) \<noteq> None" using Cons.prems(1) x True by auto
      have "resv ns (V s') (job_id job) \<noteq> None" using ids(7) fresh held r2 by simp
      then show ?thesis using ids r2 fresh by (intro exI [of _ "job_id job # ids"]) (auto simp: x)
    next
      case bad: False
      then have Vs2: "V s2 = V s" using V2 by simp
      have "s' = requeue_reserved R D tasks reg uid q (x # pairs) s2" and "stats' = ?st\<lparr>st_publish_failed := st_publish_failed ?st + 1\<rparr>"
        using Cons.prems(3) x True w p bad by (simp_all add: Let_def)
      moreover have "\<forall>(job, st)\<in>set (x # pairs). job_namespace job = ns" using Cons.prems(1) by auto
      note requeue_reserved_slots [OF reg ns this, where uid = uid and tasks = tasks and s = s2]
      ultimately show ?thesis using Vs2
        by (intro exI [of _ "[]"]) (auto simp: image_def case_prod_beta)
    qed
  qed
qed

lemma pump_chunks_published:
  assumes reg: "\<forall>(k, p)\<in>set reg. qc_namespace p = k" and ns: "qc_namespace q = ns" "ns \<noteq> []"
    and jobs: "\<forall>chunk\<in>set cs. \<forall>job\<in>set chunk. job_namespace job = ns"
    and dist: "distinct (map job_id (concat cs))"
    and run: "pump_chunks R D tasks reg uid q config budget deadline tick cs blocked cache stats s = ((r, stats'), s')"
  shows "\<exists>ids. published_in ns (max 1 (max_reserved config)) ids (V s) (V s')
    \<and> set ids \<subseteq> job_id ` set (concat cs) \<and> distinct ids
    \<and> st_published stats' = st_published stats + int (length ids)
    \<and> (\<forall>j. j \<notin> job_id ` set (concat cs) \<longrightarrow> resv ns (V s) j \<noteq> None \<longrightarrow> resv ns (V s') j \<noteq> None)"
  using jobs dist run
proof (induction cs arbitrary: blocked cache stats s)
  case Nil
  then show ?case by (intro exI [of _ "[]"]) (simp add: published_in_def)
next
  case (Cons chunk cs)
  let ?mx = "max 1 (max_reserved config)"
  obtain t s1 where m: "mono R s = (t, s1)" by (rule prod.exhaust)
  have V1: "V s1 = V s" using law_mono [of s] m by simp
  show ?case
  proof (cases "blocked \<or> deadline \<le> t")
    case True
    then have "V s' = V s \<and> stats' = stats" using Cons.prems(3) m V1 by (auto split: if_splits)
    then show ?thesis by (intro exI [of _ "[]"]) (simp add: published_in_def)
  next
    case False
    obtain x s2 where c: "reserved_record_ttls D tasks cache chunk s1 = (x, s2)" by (rule prod.exhaust)
    obtain ttls cache' where x: "x = (ttls, cache')" by (cases x)
    have V2: "V s2 = V s" using reserved_record_ttls_V [of tasks cache chunk s1] c V1 by simp
    obtain out s3 where r: "reserve_jobs R ns chunk config ttls tick budget s2 = (out, s3)" by (rule prod.exhaust)
    note slots = reserve_jobs_slots(1) [OF r] and grows = reserve_jobs_grows [OF r]
    have sent3: "sent (V s3) = sent (V s)" using reserve_jobs_frame [OF r, of "{}"] V2 by (simp add: same_at_def)
    show ?thesis
    proof (cases out)
      case (Inl e)
      then have "s' = s3" "stats' = stats" using Cons.prems(3) m False c x r ns(1) by (simp_all add: Let_def)
      then show ?thesis using slots grows sent3 V2
        by (intro exI [of _ "[]"]) (auto simp: published_in_def subset_iff domIff)
    next
      case (Inr sts)
      have pj: "\<forall>(job, st)\<in>set (zip chunk sts). job_namespace job = ns
          \<and> (st = RSV_RESERVED \<longrightarrow> resv ns (V s3) (job_id job) \<noteq> None)"
        using Cons.prems(1) reserve_jobs_moved [OF r [unfolded Inr]] by (fastforce dest: set_zip_leftD)
      have cd: "distinct (map job_id chunk)" and dj: "job_id ` set chunk \<inter> job_id ` set (concat cs) = {}"
        and cd': "distinct (map job_id (concat cs))"
        using Cons.prems(2) by auto
      have zd: "distinct (map (\<lambda>p. job_id (fst p)) (zip chunk sts))" by (rule distinct_zip_ids [OF cd])
      have zs: "(\<lambda>p. job_id (fst p)) ` set (zip chunk sts) \<subseteq> job_id ` set chunk" by (auto dest: set_zip_leftD)
      obtain y s4 where p: "publish_chunk R D tasks reg uid q (zip chunk sts) False (count_statuses sts stats) s3 = (y, s4)"
        by (rule prod.exhaust)
      obtain b failed stats1 where y: "y = (b, failed, stats1)" by (cases y)
      have st0: "st_published (count_statuses sts stats) = st_published stats" by (simp add: count_statuses_def)
      from publish_chunk_published [OF reg ns pj zd p [unfolded y]] obtain ids where
        ids: "sent (V s4) = sent (V s3) @ ids" and sub: "set ids \<subseteq> (\<lambda>p. job_id (fst p)) ` set (zip chunk sts)"
          and more: "distinct ids" "st_published stats1 = st_published (count_statuses sts stats) + int (length ids)"
          "dom (resv ns (V s4)) \<subseteq> dom (resv ns (V s3))" "set ids \<subseteq> dom (resv ns (V s4))"
          and oth: "\<forall>j. j \<notin> (\<lambda>p. job_id (fst p)) ` set (zip chunk sts) \<longrightarrow> resv ns (V s4) j = resv ns (V s3) j"
        by blast
      note ids = ids subset_trans [OF sub zs] more(1) more(2) [unfolded st0] more(3,4)
      have ids7: "j \<notin> job_id ` set chunk \<Longrightarrow> resv ns (V s4) j = resv ns (V s3) j" for j using oth zs by blast
      have "card (dom (resv ns (V s4))) \<le> card (dom (resv ns (V s3)))" using ids(5) by (rule card_dom_mono)
      then have slots4: "int (card (dom (resv ns (V s4)))) \<le> max (int (card (dom (resv ns (V s))))) ?mx"
        using slots unfolding V2 by linarith
      have keep4: "resv ns (V s) j \<noteq> None \<Longrightarrow> j \<notin> job_id ` set chunk \<Longrightarrow> resv ns (V s4) j \<noteq> None" for j
        using grows ids7 V2 by (auto simp: subset_iff domIff)
      have sub_chunk: "job_id ` set chunk \<subseteq> job_id ` set (concat (chunk # cs))" by auto
      show ?thesis
      proof (cases failed)
        case True
        then have "s' = s4" "stats' = stats1" using Cons.prems(3) m False c x r Inr p y ns(1) by (simp_all add: Let_def)
        moreover have "\<forall>j. j \<notin> job_id ` set (concat (chunk # cs)) \<longrightarrow> resv ns (V s) j \<noteq> None \<longrightarrow> resv ns (V s4) j \<noteq> None"
          using keep4 sub_chunk by blast
        moreover have "set ids \<subseteq> job_id ` set (concat (chunk # cs))" using ids(2) by auto
        ultimately show ?thesis using ids slots4 sent3
          by (intro exI [of _ ids]) (simp add: published_in_def)
      next
        case notfailed: False
        have run: "pump_chunks R D tasks reg uid q config budget deadline tick cs b cache' stats1 s4 = ((r, stats'), s')"
          using Cons.prems(3) m False c x r Inr p y ns(1) notfailed by (simp add: Let_def)
        have jobs': "\<forall>chunk\<in>set cs. \<forall>job\<in>set chunk. job_namespace job = ns" using Cons.prems(1) by simp
        from Cons.IH [OF jobs' cd' run] obtain ids' where
          ids': "published_in ns ?mx ids' (V s4) (V s')" "set ids' \<subseteq> job_id ` set (concat cs)" "distinct ids'"
            "st_published stats' = st_published stats1 + int (length ids')"
            "\<forall>j. j \<notin> job_id ` set (concat cs) \<longrightarrow> resv ns (V s4) j \<noteq> None \<longrightarrow> resv ns (V s') j \<noteq> None" by auto
        have disj: "set ids \<inter> job_id ` set (concat cs) = {}" using ids(2) dj by blast
        have "set ids \<subseteq> dom (resv ns (V s'))"
        proof
          fix t assume t: "t \<in> set ids"
          then have "t \<notin> job_id ` set (concat cs)" "resv ns (V s4) t \<noteq> None" using disj ids(6) by blast+
          with ids'(5) show "t \<in> dom (resv ns (V s'))" by (simp add: domIff)
        qed
        then have "published_in ns ?mx (ids @ ids') (V s) (V s')"
          using ids'(1) ids(1) sent3 slots4 unfolding published_in_def by auto
        moreover have un: "job_id ` set (concat (chunk # cs)) = job_id ` set chunk \<union> job_id ` set (concat cs)"
          by (simp add: image_Un)
        moreover have "set (ids @ ids') \<subseteq> job_id ` set (concat (chunk # cs))"
          unfolding un using ids(2) ids'(2) by auto
        moreover have "distinct (ids @ ids')" using ids(3) ids'(2,3) disj by auto
        moreover have "st_published stats' = st_published stats + int (length (ids @ ids'))" using ids(4) ids'(4) by simp
        moreover have "\<forall>j. j \<notin> job_id ` set (concat (chunk # cs)) \<longrightarrow> resv ns (V s) j \<noteq> None \<longrightarrow> resv ns (V s') j \<noteq> None"
          unfolding un using keep4 ids'(5) by blast
        ultimately show ?thesis by blast
      qed
    qed
  qed
qed

text \<open>Hydration: the jobs kept carry the ids they were asked under, in that order.\<close>

lemma decode_jobs_mem:
  "(jid, job) \<in> set (decode_jobs (map (\<lambda>jid. (jid, f jid)) jids)) \<Longrightarrow>
     \<exists>raw. f jid = Some raw \<and> decode_job raw = Inr job"
proof (induction jids)
  case (Cons j jids)
  then show ?case by (cases "f j") (auto split: if_splits sum.splits)
qed simp

lemma get_jobs_mem:
  assumes "get_jobs R ns jids s = (jobs, s')" and "(jid, job) \<in> set jobs"
  shows "\<exists>raw. kv (V s) (job_key ns jid) = Some raw \<and> decode_job raw = Inr job"
proof -
  let ?f = "\<lambda>s. map (\<lambda>jid. (jid, r_get R s (job_key ns jid))) jids"
  obtain r s1 where r: "rread R ?f s = (r, s1)" by (rule prod.exhaust)
  from assms r obtain raws where raws: "r = Inr raws" "jobs = decode_jobs raws"
    by (cases r) (auto simp: get_jobs_def split: if_splits)
  from r raws(1) obtain t where t: "V t = V s" "raws = ?f t" by (auto elim: rread_Inr)
  from assms(2) raws(2) t(2) have "\<exists>raw. r_get R t (job_key ns jid) = Some raw \<and> decode_job raw = Inr job"
    by (auto dest: decode_jobs_mem)
  with t(1) show ?thesis by simp
qed

lemma drop_stale_kept:
  assumes reg: "\<forall>(k, p)\<in>set reg. qc_namespace p = k" and ns: "qc_namespace q = ns" "ns \<noteq> []"
    and jobs: "\<forall>(jid, job)\<in>set jobs. job_id job = jid \<and> job_namespace job = ns"
    and run: "drop_stale R reg uid q jobs now jids s = ((kept, missing), s')"
  shows "subseq (map job_id kept) jids \<and> (\<forall>job\<in>set kept. job_namespace job = ns)
    \<and> sent (V s') = sent (V s) \<and> dom (resv ns (V s')) \<subseteq> dom (resv ns (V s))"
  using run
proof (induction jids arbitrary: kept missing s)
  case (Cons jid jids)
  have gone: "sent (V s1) = sent (V s) \<and> dom (resv ns (V s1)) \<subseteq> dom (resv ns (V s))"
    if "discard_orphaned_job R reg uid q jid tk ns [] EXPIRED s = (ok, s1)" for tk ok s1
  proof -
    have "same_at {} (V s) (V s1)"
      using discard_orphaned_job_frame [OF reg ns(2), where A = "{}" and s = s and uid = uid and q = q and jid = jid
          and tk = tk and wid = "[]" and outcome = EXPIRED] that by simp
    with discard_orphaned_job_target(1) [OF reg ns(2) that] show ?thesis
      by (auto simp: same_at_def only_job_def split: if_splits)
  qed
  show ?case
  proof (cases "map_of jobs jid")
    case None
    obtain ok s1 where d: "discard_orphaned_job R reg uid q jid [] ns [] EXPIRED s = (ok, s1)" by (rule prod.exhaust)
    obtain y s2 where y: "drop_stale R reg uid q jobs now jids s1 = (y, s2)" by (rule prod.exhaust)
    obtain k m where km: "y = (k, m)" by (cases y)
    have out: "kept = k" "s' = s2" using Cons.prems None d y km ns(1) by auto
    note IH = Cons.IH [OF y [unfolded km, folded out(2)]]
    have "dom (resv ns (V s')) \<subseteq> dom (resv ns (V s))" using IH gone [OF d] by blast
    moreover have "subseq (map job_id k) (jid # jids)" using IH by auto
    ultimately show ?thesis using IH gone [OF d] out(1) by simp
  next
    case (Some job)
    have job: "job_id job = jid" "job_namespace job = ns" using jobs map_of_SomeD [OF Some] by auto
    show ?thesis
    proof (cases "wait_deadline_at job \<noteq> 0 \<and> wait_deadline_at job \<le> now")
      case True
      obtain ok s1 where d: "discard_orphaned_job R reg uid q jid (task_key job) ns [] EXPIRED s = (ok, s1)"
        by (rule prod.exhaust)
      have "drop_stale R reg uid q jobs now jids s1 = ((kept, missing), s')"
        using Cons.prems Some True d ns(1) by simp
      note IH = Cons.IH [OF this]
      have "dom (resv ns (V s')) \<subseteq> dom (resv ns (V s))" using IH gone [OF d] by blast
      moreover have "subseq (map job_id kept) (jid # jids)" using IH by auto
      ultimately show ?thesis using IH gone [OF d] by simp
    next
      case False
      obtain y s2 where y: "drop_stale R reg uid q jobs now jids s = (y, s2)" by (rule prod.exhaust)
      obtain k m where km: "y = (k, m)" by (cases y)
      have out: "kept = job # k" "s' = s2" using Cons.prems Some False y km by auto
      show ?thesis using Cons.IH [OF y [unfolded km, folded out(2)]] job out by auto
    qed
  qed
qed simp

lemma hydrate_kept:
  assumes reg: "\<forall>(k, p)\<in>set reg. qc_namespace p = k" and ns: "qc_namespace q = ns" "ns \<noteq> []"
    and named: "records_named ns (V s)" and dist: "distinct jids"
    and run: "hydrate_and_drop_stale R reg uid q jids budget s = ((jobs, missing), s')"
  shows "distinct (map job_id jobs)" and "\<forall>job\<in>set jobs. job_namespace job = ns" and "int (length jobs) \<le> max 0 budget"
    and "job_id ` set jobs \<subseteq> set jids"
    and "sent (V s') = sent (V s)" and "dom (resv ns (V s')) \<subseteq> dom (resv ns (V s))"
proof -
  obtain found s1 where g: "get_jobs R ns jids s = (found, s1)" by (rule prod.exhaust)
  have V1: "V s1 = V s" using get_jobs_V [of ns jids s] g by simp
  have ok: "\<forall>(jid, job)\<in>set found. job_id job = jid \<and> job_namespace job = ns"
    using get_jobs_mem [OF g] named unfolding records_named_def by blast
  obtain now s2 where w: "wall R s1 = (now, s2)" by (rule prod.exhaust)
  have V2: "V s2 = V s" using law_wall [of s1] w V1 by simp
  obtain y s3 where y: "drop_stale R reg uid q found now jids s2 = (y, s3)" by (rule prod.exhaust)
  obtain kept m where km: "y = (kept, m)" by (cases y)
  note K = drop_stale_kept [OF reg ns ok y [unfolded km]]
  have out: "jobs = take (nat budget) kept" "s' = s3" using run g w y km ns(1) by (simp_all add: hydrate_and_drop_stale_def)
  have d: "distinct (map job_id kept)" using K dist subseq_distinct by blast
  then show "distinct (map job_id jobs)" unfolding out by (simp add: take_map [symmetric])
  show "\<forall>job\<in>set jobs. job_namespace job = ns" unfolding out using K by (auto dest: in_set_takeD)
  show "int (length jobs) \<le> max 0 budget" unfolding out by simp
  show "job_id ` set jobs \<subseteq> set jids"
    using K set_take_subset [of "nat budget" kept] subseq_set unfolding out by fastforce
  show "sent (V s') = sent (V s)" "dom (resv ns (V s')) \<subseteq> dom (resv ns (V s))" unfolding out using K V2 by simp_all
qed

text \<open>
  One tick of a queue: what was handed to the broker is at most the budget, each of those jobs
  was pending and due, and it holds a slot when the tick is over.
\<close>

lemma pump_body_published:
  assumes reg: "\<forall>(k, p)\<in>set reg. qc_namespace p = k" and ns: "qc_namespace q = ns" "ns \<noteq> []"
    and named: "records_named ns (V s)"
    and run: "pump_body R D tasks reg uid q config deadline tick state s = ((r, stats), s')"
  shows "\<exists>ids. published_in ns (max 1 (max_reserved config)) ids (V s) (V s') \<and> distinct ids
    \<and> st_published stats = int (length ids) \<and> set ids \<subseteq> dom (pend ns (V s))
    \<and> int (length ids) \<le> max 0 (max_reserved config)"
proof -
  obtain d s1 where d: "decide R ns config (Some tick) (Some state) s = (d, s1)" by (rule prod.exhaust)
  have f1: "same_at (queue_keys ns) (V s) (V s1)"
    using decide_frame [of ns "queue_keys ns" s config "Some tick" "Some state"] d by simp
  have V1: "pend ns (V s1) = pend ns (V s)" "resv ns (V s1) = resv ns (V s)" "sent (V s1) = sent (V s)"
    "records_named ns (V s1)"
    using f1 named by (simp_all add: same_at_def records_named_def)
  have snd_d: "sound_decision ns (max_reserved config) (V s) d"
    using decide_sound [of ns config s "Some tick" "Some state"] d by simp
  have bud: "effective_budget d \<le> max 0 (max_reserved config)"
    using snd_d unfolding sound_decision_def by (auto split: if_splits)
  have none: "published_in ns (max 1 (max_reserved config)) [] (V s) (V s1)"
    using V1 by (simp add: published_in_def)
  show ?thesis
  proof (cases "effective_budget d \<le> 0")
    case True
    then have "stats = empty_stats" "s' = s1" using run d ns(1) by (simp_all add: pump_body_def)
    then show ?thesis using none by (intro exI [of _ "[]"]) (simp add: empty_stats_def)
  next
    case False
    obtain jids s2 where p: "peek_ready R ns (max 10 (effective_budget d * 3)) None s1 = (jids, s2)" by (rule prod.exhaust)
    have V2: "V s2 = V s1" using peek_ready_V [of ns "max 10 (effective_budget d * 3)" None s1] p by simp
    note P = peek_ready_props [OF p]
    have due: "set jids \<subseteq> dom (pend ns (V s))" using P(3) V1(1) by auto
    let ?stats = "empty_stats\<lparr>st_ready_peeked := int (length jids)\<rparr>"
    show ?thesis
    proof (cases "jids = []")
      case True
      then have "stats = ?stats" "s' = s2" using run d False p ns(1) by (simp_all add: pump_body_def)
      then show ?thesis using none V2 by (intro exI [of _ "[]"]) (simp add: empty_stats_def)
    next
      case jids: False
      obtain x s3 where h: "hydrate_and_drop_stale R reg uid q jids (effective_budget d) s2 = (x, s3)" by (rule prod.exhaust)
      obtain jobs missing where x: "x = (jobs, missing)" by (cases x)
      have named2: "records_named ns (V s2)" using V1(4) V2 by simp
      note H = hydrate_kept [OF reg ns named2 P(1) h [unfolded x]]
      obtain y s4 where y: "reserve_and_publish R D tasks reg uid q jobs config (effective_budget d) deadline tick
          (?stats\<lparr>st_missing := missing\<rparr>) s3 = (y, s4)" by (rule prod.exhaust)
      obtain rr st where rr: "y = (rr, st)" by (cases y)
      have cc: "concat (chunks DISPATCH_LUA_BATCH_SIZE jobs) = jobs" by (rule concat_chunks) (simp add: config_constants)
      have jn: "\<forall>chunk\<in>set (chunks DISPATCH_LUA_BATCH_SIZE jobs). \<forall>job\<in>set chunk. job_namespace job = ns"
        using H(2) cc by (metis UN_I set_concat)
      have dj: "distinct (map job_id (concat (chunks DISPATCH_LUA_BATCH_SIZE jobs)))" unfolding cc by (rule H(1))
      from pump_chunks_published [OF reg ns jn dj y [unfolded reserve_and_publish_def rr]] obtain ids where
        ids: "published_in ns (max 1 (max_reserved config)) ids (V s3) (V s4)" "set ids \<subseteq> job_id ` set jobs" "distinct ids"
          "st_published st = int (length ids)"
        unfolding cc by (auto simp: empty_stats_def)
      have out: "stats = st" "s' = s4"
        using run d False p jids h x y rr ns(1) by (auto simp: pump_body_def Let_def split: sum.splits)
      have "card (dom (resv ns (V s3))) \<le> card (dom (resv ns (V s1)))"
        using H(6) V2 by (intro card_dom_mono) simp
      then have pub: "published_in ns (max 1 (max_reserved config)) ids (V s) (V s')"
        using ids(1) H(5) V1(2,3) unfolding published_in_def out V2 by auto
      have "length ids \<le> length jobs"
        using ids(2,3) by (metis (no_types, lifting) card_length card_mono distinct_card finite_imageI finite_set le_trans
            length_map list.set_map)
      then have "int (length ids) \<le> max 0 (max_reserved config)" using H(3) bud by linarith
      then show ?thesis using pub ids H(4) due out by (intro exI [of _ ids]) auto
    qed
  qed
qed

end

section \<open>A held lock keeps every other pump out\<close>

context redis
begin

lemma is_queue_pump_paused_V [simp]: "V (snd (is_queue_pump_paused R ns s)) = V s"
  by (simp add: is_queue_pump_paused_def inspect_queue_pump_lock_def case_prod_beta)

lemma pump_locked_out:
  assumes "present (V s) (pump_lock_key (qc_namespace q))"
  obtains s' where "pump_queue_with_lock fuel R D tasks reg uid digest token q deadline tick lock_ttl s = Some (Inr 0, s')"
    and "same_at (- metrics_keys (qc_namespace q)) (V s) (V s')"
proof -
  let ?ns = "qc_namespace q"
  obtain ok s1 where a: "try_acquire_lock R (pump_lock_key ?ns) (pump_owner ?ns token) (max 1 lock_ttl) s = (ok, s1)" by force
  have ok: "\<not> ok \<and> V s1 = V s"
    by (cases rule: try_acquire_lock_cases [of s "pump_lock_key ?ns" "pump_owner ?ns token" "max 1 lock_ttl"])
       (use assms a in simp_all)
  obtain p s2 where p: "is_queue_pump_paused R ?ns s1 = (p, s2)" by force
  have V2: "V s2 = V s" using is_queue_pump_paused_V [of ?ns s1] p ok by simp
  show ?thesis
  proof (rule that)
    show "pump_queue_with_lock fuel R D tasks reg uid digest token q deadline tick lock_ttl s =
        Some (Inr 0, if p then s2
          else record_queue_event R ?ns ''pump_lock_contention'' 1 (of_int (tick * PUMP_INTERVAL_SECONDS)) s2)"
      using a ok p by (simp add: pump_queue_with_lock_def)
    have "same_at (- metrics_keys ?ns) (V s2)
        (V (record_queue_event R ?ns ''pump_lock_contention'' 1 (of_int (tick * PUMP_INTERVAL_SECONDS)) s2))"
      by (rule frame_record_queue_event) simp
    then show "same_at (- metrics_keys ?ns) (V s) (V (if p then s2
          else record_queue_event R ?ns ''pump_lock_contention'' 1 (of_int (tick * PUMP_INTERVAL_SECONDS)) s2))"
      using V2 by simp
  qed
qed

text \<open>In particular a pause keeps the pump off the queue until it is resumed.\<close>

lemma pump_paused_out:
  assumes "pause_queue_pump R (qc_namespace q) seconds s = (Inr info, s1)"
  obtains s' where "pump_queue_with_lock fuel R D tasks reg uid digest token q deadline tick lock_ttl s1 = Some (Inr 0, s')"
    and "same_at (- metrics_keys (qc_namespace q)) (V s1) (V s')"
proof -
  from assms obtain s0 where "hold_key R (qc_namespace q) (pump_lock_key (qc_namespace q)) PUMP_PAUSE_OWNER seconds s0 = (Inr info, s1)"
    by (auto simp: pause_queue_pump_def split: if_splits)
  from hold_key_held(1) [OF this] have "present (V s1) (pump_lock_key (qc_namespace q))" by (simp add: present_def)
  from pump_locked_out [OF this] show ?thesis using that by blast
qed

end

end
