(* ===== verification/Queue_Control.thy ===== *)
theory Queue_Control
  imports Queue_System Pump
begin

text \<open>
  Facts that tie components together: what a closed gate means for producers, what a requeue may
  do to a job somebody else already took, what an idle task is, how the AIMD window behaves over
  many ticks, and which operations leave another queue alone.
\<close>

section \<open>The gate and admission\<close>

lemma gate_not_metrics: "producer_gate_key ns \<notin> metrics_keys ns"
  by (auto simp: metrics_keys_def key_simps)

context redis
begin

lemma closed_gate:
  assumes pause: "pause_queue_producer R ns seconds s = (Inr info, s1)"
    and run: "enqueue_jobs R ns jobs dedupe ttls mx s1 = (out, s2)"
  shows "same_at (queue_keys ns) (V s1) (V s2)" and "\<And>sts. out = Inr sts \<Longrightarrow> ENQ_ACCEPTED \<notin> set sts"
    and "resume_queue_producer R ns s2 = (Inr b, s3) \<Longrightarrow> b \<and> \<not> present (V s3) (producer_gate_key ns)"
proof -
  from pause have "hold_key R ns (producer_gate_key ns) PRODUCER_PAUSE_OWNER seconds s = (Inr info, s1)"
    by (simp add: pause_queue_producer_def split: if_splits)
  from hold_key_held(1) [OF this] have held: "kv (V s1) (producer_gate_key ns) = Some (PStr PRODUCER_PAUSE_OWNER)" by simp
  then have gate: "present (V s1) (producer_gate_key ns)" by (simp add: present_def)
  show "same_at (queue_keys ns) (V s1) (V s2)" by (rule enqueue_jobs_paused(1) [OF run gate])
  show "\<And>sts. out = Inr sts \<Longrightarrow> ENQ_ACCEPTED \<notin> set sts" by (rule enqueue_jobs_paused(2) [OF run gate])
  have "same_at {producer_gate_key ns} (V s1) (V s2)"
    by (rule enqueue_jobs_frame [OF run]) (auto simp: gate_not_metrics)
  with held have "kv (V s2) (producer_gate_key ns) = Some (PStr PRODUCER_PAUSE_OWNER)" by (simp add: same_at_def)
  then show "resume_queue_producer R ns s2 = (Inr b, s3) \<Longrightarrow> b \<and> \<not> present (V s3) (producer_gate_key ns)"
    using resume_queue_producer_opens by blast
qed

text \<open>The owner a pump writes is never the pause marker, so its release keeps a pause.\<close>

lemma pause_survives_pump:
  assumes "pause_queue_pump R ns seconds s = (Inr info, s1)"
  shows "kv (V (release_lock R (pump_lock_key ns) (pump_owner ns token) s1)) (pump_lock_key ns) = Some (PStr PUMP_PAUSE_OWNER)"
proof -
  from assms obtain s0 where "hold_key R ns (pump_lock_key ns) PUMP_PAUSE_OWNER seconds s0 = (Inr info, s1)"
    by (auto simp: pause_queue_pump_def split: if_splits)
  then show ?thesis by (rule pause_survives_release) (simp add: pump_owner_def PUMP_PAUSE_OWNER_def)
qed

section \<open>Requeue of a job whose slot is gone\<close>

lemma requeue_slot_gone:
  assumes "\<forall>(k, p)\<in>set reg. qc_namespace p = k" and "qc_namespace q = ns" "job_namespace job = ns" "ns \<noteq> []"
    and "requeue R reg uid q job ready ttl s = (r, s')" and "resv ns (V s) (job_id job) = None"
  shows "r \<noteq> RQ_REQUEUED" and "dom (pend ns (V s')) \<subseteq> dom (pend ns (V s))"
proof -
  show "r \<noteq> RQ_REQUEUED" using requeue_requeued(1) [of reg uid q job ready ttl s s'] assms(2,5,6) by auto
  from requeue_sets [OF assms(1-5)] assms(6)
  have "pend ns (V s') = pend ns (V s) \<or> pend ns (V s') = (pend ns (V s))(job_id job := None)"
    by (auto simp only: only_job_def)
  then show "dom (pend ns (V s')) \<subseteq> dom (pend ns (V s))" by (auto split: if_splits)
qed

section \<open>Idle tasks\<close>

lemma count_dom_zero: "finite (dom m) \<Longrightarrow> count_dom p m = 0 \<Longrightarrow> m k \<noteq> None \<Longrightarrow> \<not> p k"
  using count_dom_pos [of m k p] by auto

lemma idle_task_has_no_jobs:
  assumes inv: "queue_inv owner ns (V s)" and tk: "tk \<noteq> []"
    and p: "has_pending_for_task R ns tk s = (False, s1)" and r: "has_reserved_for_task R ns tk s1 = (False, s2)"
    and same: "V s1 = V s" and jid: "owner jid = tk"
  shows "job_state ns (V s) jid = Absent"
proof -
  have c: "counts_ok owner ns (V s)" using inv by (simp add: queue_inv_def)
  have "int (count_dom (\<lambda>j. owner j = tk) (pend ns (V s))) = 0"
    using has_pending_False [OF p] field_count_hash_int [OF counts_ok_field(1) [OF c tk]] by simp
  moreover have "int (count_dom (\<lambda>j. owner j = tk) (resv ns (V s))) = 0"
    using has_reserved_False [OF r] field_count_hash_int [OF counts_ok_field(2) [OF c tk]] same by simp
  ultimately have "pend ns (V s) jid = None" "resv ns (V s) jid = None"
    using count_dom_zero [of "pend ns (V s)" "\<lambda>j. owner j = tk" jid] jid
      count_dom_zero [of "resv ns (V s)" "\<lambda>j. owner j = tk" jid] law_finite by fastforce+
  then show ?thesis by (simp add: job_state_def)
qed

end

section \<open>The AIMD window over many ticks\<close>

text \<open>Under lasting congestion the window is halved down to 1; while it is fully used without
  congestion it grows by a fixed step up to the slot ceiling.\<close>

lemma aimd_congested_iter:
  assumes "0 < counter_get previous ''congestion''" and "1 \<le> w"
  shows "((\<lambda>w. fst (aimd_step mx inc cold w (b w) previous)) ^^ n) w = congested_ticks n w"
  using assms(2)
proof (induction n arbitrary: w)
  case (Suc n)
  have "fst (aimd_step mx inc cold w (b w) previous) = max 1 (w div 2)"
    using assms(1) Suc.prems by (simp add: aimd_step_eq)
  with Suc.IH [OF max.cobounded1] show ?case
    by (simp only: funpow_Suc_right o_apply congested_ticks.simps)
qed simp

lemma aimd_growing_iter:
  assumes "counter_get previous ''congestion'' \<le> 0" and "mx \<le> counter_get previous ''published''"
    and "mx \<le> counter_get previous ''ready_peeked''" and "1 \<le> w" and "w \<le> mx"
  shows "((\<lambda>w. fst (aimd_step mx (additive_increase_step mx) cold w w previous)) ^^ n) w = uncongested_ticks mx n w"
  using assms(4,5)
proof (induction n arbitrary: w)
  case (Suc n)
  have step: "1 \<le> additive_increase_step mx" by (simp add: additive_increase_step_def)
  have s: "fst (aimd_step mx (additive_increase_step mx) cold w w previous) = min mx (w + additive_increase_step mx)"
    using assms(1-3) Suc.prems by (simp add: aimd_step_eq)
  have "1 \<le> min mx (w + additive_increase_step mx)" using Suc.prems step by simp
  from Suc.IH [OF this min.cobounded1] s show ?case
    by (simp only: funpow_Suc_right o_apply uncongested_ticks.simps)
qed simp

section \<open>Other queues\<close>

lemma queue_keys_apart:
  assumes "validate_namespace ns = Inr ()" and "validate_namespace ns' = Inr ()" and "ns \<noteq> ns'"
  shows "queue_keys ns' \<inter> queue_keys ns = {}" and "queue_keys ns' \<inter> metrics_keys ns = {}"
    and "tick_counter_key ns t \<notin> queue_keys ns'"
proof -
  note c = validate_namespace_no_colon [OF assms(1)] validate_namespace_no_colon [OF assms(2)]
  show "queue_keys ns' \<inter> queue_keys ns = {}" "tick_counter_key ns t \<notin> queue_keys ns'"
    using c assms(3) by (auto simp: queue_keys_def key_simps ns_key_inj)
  show "queue_keys ns' \<inter> metrics_keys ns = {}"
    using c assms(3) by (auto simp: metrics_keys_def queue_keys_def key_simps ns_key_inj)
qed

context redis
begin

lemma operations_stay_in_queue:
  assumes ns: "validate_namespace ns = Inr ()" "validate_namespace ns' = Inr ()" "ns \<noteq> ns'"
  shows "same_at (queue_keys ns') (V s) (V (snd (enqueue_jobs R ns jobs dedupe ttls mx s)))"
    and "same_at (queue_keys ns') (V s) (V (snd (reserve_jobs R ns jobs config ttls tick bud s)))"
    and "same_at (queue_keys ns') (V s) (V (snd (finalize_job R ns jid tk wid ttl s)))"
    and "\<forall>(k, p)\<in>set reg. qc_namespace p = k \<Longrightarrow>
      same_at (queue_keys ns') (V s) (V (snd (discard_orphaned_job R reg uid q jid tk ns wid outcome s)))"
proof -
  note apart = queue_keys_apart [OF ns]
  have "ns \<noteq> []" using ns(1) by (auto simp: validate_namespace_def namespace_pattern_match_def)
  then show "\<forall>(k, p)\<in>set reg. qc_namespace p = k \<Longrightarrow>
      same_at (queue_keys ns') (V s) (V (snd (discard_orphaned_job R reg uid q jid tk ns wid outcome s)))"
    using discard_orphaned_job_frame [OF _ _ apart(1,2)] by blast
  show "same_at (queue_keys ns') (V s) (V (snd (enqueue_jobs R ns jobs dedupe ttls mx s)))"
    by (rule enqueue_jobs_frame [OF _ apart(1,2)]) (rule prod.collapse [symmetric])
  show "same_at (queue_keys ns') (V s) (V (snd (reserve_jobs R ns jobs config ttls tick bud s)))"
    by (rule reserve_jobs_frame [OF _ apart(1,3)]) (rule prod.collapse [symmetric])
  show "same_at (queue_keys ns') (V s) (V (snd (finalize_job R ns jid tk wid ttl s)))"
    by (rule finalize_job_frame [OF apart(1)])
qed

end

section \<open>Saved settings\<close>

context settings
begin

text \<open>What a save stored is what the next load returns, provided the cache could be cleared.\<close>

lemma saved_settings_loaded:
  assumes "queue_settings_save D reg ns config s = (Inr u, s1)"
    and "\<And>t. fst (cache_delete D t (settings_cache_key ''queue'' ns)) = Inr ()"
    and "get_queue D ns s1 = (Inr v, s2)"
  shows "v = (case config of PDict d \<Rightarrow> PDict d | _ \<Rightarrow> PDict [])"
  using queue_settings_save_coherent [OF assms(1,2)] get_raw_coherent [of "''queue''" ns s1 v s2] assms(3)
  by (simp add: get_queue_def)

end

end
