(* ===== verification/Routing.thy ===== *)
theory Routing
  imports Queue "HOL-Library.Product_Lexorder" "HOL-Library.List_Lexorder" "HOL-Library.Char_ord"
begin

text \<open>
  \<open>dispatch/routing.py\<close> and \<open>models.DispatchQueueRoute\<close>: which Redis instance owns the keys of
  a namespace. Every instance of the pool has an alias. The route table is persisted and read
  through a cached copy of the whole table and a memo of the process; a row is inserted once and
  never rewritten here. A connection is represented by its alias. \<open>validate_namespace\<close> is in
  theory Keys.
\<close>

section \<open>The parameter: the route table\<close>

text \<open>\<open>rt_insert\<close> is the \<open>INSERT\<close> of one row; \<open>False\<close> is the refusal of the unique constraint.\<close>

record 's route_table =
  rt_rows :: "'s \<Rightarrow> (string \<times> string) list result \<times> 's"
  rt_get :: "'s \<Rightarrow> string \<Rightarrow> string option result \<times> 's"
  rt_insert :: "'s \<Rightarrow> string \<Rightarrow> string \<Rightarrow> bool result \<times> 's"
  rt_update :: "'s \<Rightarrow> string \<Rightarrow> string \<Rightarrow> unit result \<times> 's"

section \<open>The memo and the cached table\<close>

definition ROUTE_MEMO_TTL_SECONDS :: int where "ROUTE_MEMO_TTL_SECONDS = 30"
definition ROUTE_CACHE_TTL_SECONDS :: int where "ROUTE_CACHE_TTL_SECONDS = 60"
definition ROUTE_CACHE_KEY :: string where "ROUTE_CACHE_KEY = ''dispatch:routes''"

text \<open>The memo of the process: namespace to alias and expiry on the monotonic clock.\<close>

type_synonym route_memo = "(string \<times> string \<times> real) list"

definition get_routes :: "'s db \<Rightarrow> 's route_table \<Rightarrow> 's \<Rightarrow> pydict result \<times> 's" where
  "get_routes D RT s =
     (case cache_get D s ROUTE_CACHE_KEY of
        (Inr (Some (PDict d)), s) \<Rightarrow> (Inr d, s)
      | (_, s) \<Rightarrow>
          (case rt_rows RT s of
             (Inl _, s) \<Rightarrow> (Inl RoutingError, s)
           | (Inr rows, s) \<Rightarrow>
               (let routes = map (\<lambda>(ns, alias). (ns, PStr alias)) rows
                in (Inr routes, snd (cache_set D s ROUTE_CACHE_KEY (PDict routes) ROUTE_CACHE_TTL_SECONDS)))))"

definition invalidate_route :: "'s db \<Rightarrow> string \<Rightarrow> route_memo \<Rightarrow> 's \<Rightarrow> route_memo \<times> 's" where
  "invalidate_route D ns memo s = (AList.delete ns memo, snd (cache_delete D s ROUTE_CACHE_KEY))"

definition reset_route_cache :: "'s db \<Rightarrow> 's \<Rightarrow> route_memo \<times> 's" where
  "reset_route_cache D s = ([], snd (cache_delete D s ROUTE_CACHE_KEY))"

section \<open>\<open>DispatchQueueRoute\<close>\<close>

text \<open>\<open>full_clean\<close>: the lengths of the columns, then \<open>clean\<close>.\<close>

definition route_clean :: "string list \<Rightarrow> string \<Rightarrow> string \<Rightarrow> unit result" where
  "route_clean aliases ns alias =
     (if 128 < length ns \<or> 64 < length alias then Inl ValidationError
      else (case validate_namespace ns of
              Inl e \<Rightarrow> Inl e
            | Inr _ \<Rightarrow> if aliases = [] then Inl ValidationError
                      else if alias \<notin> set aliases then Inl ValidationError
                      else Inr ()))"

text \<open>\<open>save\<close> of a row that exists; the invalidation runs once the write is committed.\<close>

definition route_save ::
  "'s db \<Rightarrow> 's route_table \<Rightarrow> string list \<Rightarrow> string \<Rightarrow> string \<Rightarrow> route_memo \<Rightarrow> 's \<Rightarrow> unit result \<times> route_memo \<times> 's" where
  "route_save D RT aliases ns alias memo s =
     (case route_clean aliases ns alias of
        Inl e \<Rightarrow> (Inl e, memo, s)
      | Inr _ \<Rightarrow>
          (case rt_update RT s ns alias of
             (Inl e, s) \<Rightarrow> (Inl e, memo, s)
           | (Inr _, s) \<Rightarrow> (Inr (), invalidate_route D ns memo s)))"

text \<open>
  \<open>objects.get_or_create\<close>: the row, or \<open>save\<close> of a new one, whose \<open>full_clean\<close> looks for a row of
  this namespace once more; when another process inserted it after that, the unique constraint
  refuses and its row is read.
\<close>

definition route_create ::
  "'s db \<Rightarrow> 's route_table \<Rightarrow> string list \<Rightarrow> string \<Rightarrow> string \<Rightarrow> route_memo \<Rightarrow> 's \<Rightarrow> bool result \<times> route_memo \<times> 's" where
  "route_create D RT aliases ns alias memo s =
     (case route_clean aliases ns alias of
        Inl e \<Rightarrow> (Inl e, memo, s)
      | Inr _ \<Rightarrow>
          (case rt_get RT s ns of
             (Inl e, s) \<Rightarrow> (Inl e, memo, s)
           | (Inr (Some _), s) \<Rightarrow> (Inl ValidationError, memo, s)
           | (Inr None, s) \<Rightarrow>
               (case rt_insert RT s ns alias of
                  (Inl e, s) \<Rightarrow> (Inl e, memo, s)
                | (Inr True, s) \<Rightarrow> (Inr True, invalidate_route D ns memo s)
                | (Inr False, s) \<Rightarrow> (Inr False, memo, s))))"

definition route_get_or_create ::
  "'s db \<Rightarrow> 's route_table \<Rightarrow> string list \<Rightarrow> string \<Rightarrow> string \<Rightarrow> route_memo \<Rightarrow> 's
     \<Rightarrow> (string \<times> bool) result \<times> route_memo \<times> 's" where
  "route_get_or_create D RT aliases ns alias memo s =
     (case rt_get RT s ns of
        (Inl e, s) \<Rightarrow> (Inl e, memo, s)
      | (Inr (Some a), s) \<Rightarrow> (Inr (a, False), memo, s)
      | (Inr None, s) \<Rightarrow>
          (case route_create D RT aliases ns alias memo s of
             (Inl e, memo, s) \<Rightarrow> (Inl e, memo, s)
           | (Inr True, memo, s) \<Rightarrow> (Inr (alias, True), memo, s)
           | (Inr False, memo, s) \<Rightarrow>
               (case rt_get RT s ns of
                  (Inr (Some a), s) \<Rightarrow> (Inr (a, False), memo, s)
                | (_, s) \<Rightarrow> (Inl RoutingError, memo, s))))"

section \<open>Assignment and resolution\<close>

text \<open>\<open>Counter(route for ns, route in routes.items() if route in aliases)\<close>, at one alias.\<close>

definition route_load :: "pydict \<Rightarrow> string \<Rightarrow> nat" where
  "route_load routes alias = count_if (\<lambda>(ns, v). v = PStr alias) routes"

definition pool_index :: "string list \<Rightarrow> string \<Rightarrow> nat" where
  "pool_index aliases alias = length (takeWhile (\<lambda>a. a \<noteq> alias) aliases)"

definition least_loaded :: "string list \<Rightarrow> pydict \<Rightarrow> string" where
  "least_loaded aliases routes = arg_min_list (\<lambda>a. (route_load routes a, pool_index aliases a)) aliases"

definition assign_route ::
  "'s db \<Rightarrow> 's route_table \<Rightarrow> string list \<Rightarrow> string \<Rightarrow> route_memo \<Rightarrow> 's \<Rightarrow> string result \<times> route_memo \<times> 's" where
  "assign_route D RT aliases ns memo s =
     (case validate_namespace ns of
        Inl e \<Rightarrow> (Inl e, memo, s)
      | Inr _ \<Rightarrow>
        if aliases = [] then (Inl RoutingError, memo, s)
        else
          (case get_routes D RT s of
             (Inl e, s) \<Rightarrow> (Inl e, memo, s)
           | (Inr routes, s) \<Rightarrow>
               (case route_get_or_create D RT aliases ns (least_loaded aliases routes) memo s of
                  (Inl _, memo, s) \<Rightarrow> (Inl RoutingError, memo, s)
                | (Inr (alias, created), memo, s) \<Rightarrow>
                    (let (memo, s) = (if created then invalidate_route D ns memo s else (memo, s))
                     in (Inr alias, memo, s)))))"

definition resolve_alias ::
  "'s db \<Rightarrow> 's route_table \<Rightarrow> string list \<Rightarrow> string \<Rightarrow> route_memo \<Rightarrow> 's \<Rightarrow> string result \<times> route_memo \<times> 's" where
  "resolve_alias D RT aliases ns memo s =
     (case get_routes D RT s of
        (Inl _, s) \<Rightarrow> (Inl RoutingError, memo, s)
      | (Inr routes, s) \<Rightarrow>
          (case map_of routes ns of
             Some (PStr alias) \<Rightarrow>
               if alias \<in> set aliases then (Inr alias, memo, s) else (Inl RoutingError, memo, s)
           | Some PNone \<Rightarrow>
               (case assign_route D RT aliases ns memo s of
                  (Inl _, memo, s) \<Rightarrow> (Inl RoutingError, memo, s) | (Inr a, memo, s) \<Rightarrow> (Inr a, memo, s))
           | Some _ \<Rightarrow> (Inl RoutingError, memo, s)
           | None \<Rightarrow>
               (case assign_route D RT aliases ns memo s of
                  (Inl _, memo, s) \<Rightarrow> (Inl RoutingError, memo, s) | (Inr a, memo, s) \<Rightarrow> (Inr a, memo, s))))"

definition conn_for_namespace ::
  "'s env \<Rightarrow> 's db \<Rightarrow> 's route_table \<Rightarrow> string list \<Rightarrow> string \<Rightarrow> route_memo \<Rightarrow> 's \<Rightarrow> string result \<times> route_memo \<times> 's" where
  "conn_for_namespace R D RT aliases ns memo s =
     (let (now, s) = mono R s; memoized = map_of memo ns in
      case memoized of
        Some (alias, expiry) \<Rightarrow>
          if now < expiry then (Inr alias, memo, s)
          else (case resolve_alias D RT aliases ns memo s of
                  (Inl _, memo, s) \<Rightarrow> (Inr alias, memo, s)
                | (Inr a, memo, s) \<Rightarrow> (Inr a, AList.update ns (a, now + of_int ROUTE_MEMO_TTL_SECONDS) memo, s))
      | None \<Rightarrow>
          (case resolve_alias D RT aliases ns memo s of
             (Inl e, memo, s) \<Rightarrow> (Inl e, memo, s)
           | (Inr a, memo, s) \<Rightarrow> (Inr a, AList.update ns (a, now + of_int ROUTE_MEMO_TTL_SECONDS) memo, s)))"

section \<open>Namespaces of the process\<close>

text \<open>\<open>tasks\<close>: task key and namespace of every registered task class.\<close>

definition namespace_for_job_id :: "(string \<times> string) list \<Rightarrow> string \<Rightarrow> string" where
  "namespace_for_job_id tasks jid =
     (let tk = resolve_task_key_from_job_id jid (map fst tasks) in
      if tk = [] then [] else (case map_of tasks tk of None \<Rightarrow> [] | Some ns \<Rightarrow> ns))"

definition registry_namespaces :: "queue_registry \<Rightarrow> (string \<times> string) list \<Rightarrow> string list" where
  "registry_namespaces reg tasks =
     filter (\<lambda>ns. ns \<noteq> []) (map qc_namespace (registered_queues reg)) @ map snd tasks"

definition candidate_namespaces ::
  "'s route_table \<Rightarrow> queue_registry \<Rightarrow> (string \<times> string) list \<Rightarrow> 's \<Rightarrow> string list \<times> 's" where
  "candidate_namespaces RT reg tasks s =
     (let (rows, s) = rt_rows RT s;
          routed = (case rows of Inl _ \<Rightarrow> [] | Inr l \<Rightarrow> map fst l)
      in (remdups (filter (\<lambda>ns. ns \<noteq> []) (registry_namespaces reg tasks @ routed)), s))"

fun resolve_each ::
  "'s db \<Rightarrow> 's route_table \<Rightarrow> string list \<Rightarrow> string list \<Rightarrow> route_memo \<Rightarrow> 's \<Rightarrow> int result \<times> route_memo \<times> 's" where
  "resolve_each D RT aliases [] memo s = (Inr 0, memo, s)"
| "resolve_each D RT aliases (ns # nss) memo s =
     (case resolve_alias D RT aliases ns memo s of
        (Inl e, memo, s) \<Rightarrow> (Inl e, memo, s)
      | (Inr _, memo, s) \<Rightarrow>
          (case resolve_each D RT aliases nss memo s of
             (Inl e, memo, s) \<Rightarrow> (Inl e, memo, s) | (Inr n, memo, s) \<Rightarrow> (Inr (n + 1), memo, s)))"

definition bootstrap_routes ::
  "'s db \<Rightarrow> 's route_table \<Rightarrow> string list \<Rightarrow> queue_registry \<Rightarrow> (string \<times> string) list \<Rightarrow> route_memo \<Rightarrow> 's
     \<Rightarrow> int result \<times> route_memo \<times> 's" where
  "bootstrap_routes D RT aliases reg tasks memo s =
     resolve_each D RT aliases (sort (remdups (registry_namespaces reg tasks))) memo s"

section \<open>What resolution does to the memo\<close>

lemma map_of_delete_le: "map_of (AList.delete k l) \<subseteq>\<^sub>m map_of l"
  by (auto simp: delete_conv' map_le_def)

lemma invalidate_memo_le: "invalidate_route D ns memo s = (memo', s') \<Longrightarrow> map_of memo' \<subseteq>\<^sub>m map_of memo"
  by (auto simp: invalidate_route_def map_of_delete_le)

lemma create_memo:
  "route_create D RT aliases ns alias memo s = (r, memo', s') \<Longrightarrow> map_of memo' \<subseteq>\<^sub>m map_of memo"
  by (auto simp: route_create_def map_le_refl split: sum.splits option.splits bool.splits prod.splits
      dest: invalidate_memo_le)

lemma get_or_create_memo:
  "route_get_or_create D RT aliases ns alias memo s = (r, memo', s') \<Longrightarrow> map_of memo' \<subseteq>\<^sub>m map_of memo"
  by (auto simp: route_get_or_create_def map_le_refl split: sum.splits option.splits bool.splits prod.splits
      dest: create_memo)

lemma assign_memo:
  "assign_route D RT aliases ns memo s = (r, memo', s') \<Longrightarrow> map_of memo' \<subseteq>\<^sub>m map_of memo"
  by (auto simp: assign_route_def map_le_refl split: sum.splits prod.splits if_splits
      dest!: get_or_create_memo invalidate_memo_le intro: map_le_trans)

lemma resolve_memo:
  "resolve_alias D RT aliases ns memo s = (r, memo', s') \<Longrightarrow> map_of memo' \<subseteq>\<^sub>m map_of memo"
  by (auto simp: resolve_alias_def map_le_refl split: sum.splits option.splits pyval.splits prod.splits if_splits
      dest: assign_memo)

section \<open>Documented behaviour of the route table\<close>

text \<open>The cached table is some earlier state of the table, so it is part of the table; the memo holds rows of it.\<close>

definition route_cache_sound :: "('s \<Rightarrow> string \<rightharpoonup> pyval) \<Rightarrow> ('s \<Rightarrow> string \<rightharpoonup> string) \<Rightarrow> 's \<Rightarrow> bool" where
  "route_cache_sound C A s \<longleftrightarrow> (\<forall>d ns v. C s ROUTE_CACHE_KEY = Some (PDict d) \<longrightarrow> map_of d ns = Some v \<longrightarrow>
     (\<exists>a. v = PStr a \<and> A s ns = Some a))"

definition route_memo_sound :: "('s \<Rightarrow> string \<rightharpoonup> string) \<Rightarrow> route_memo \<Rightarrow> 's \<Rightarrow> bool" where
  "route_memo_sound A memo s \<longleftrightarrow> (\<forall>ns a t. map_of memo ns = Some (a, t) \<longrightarrow> A s ns = Some a)"

text \<open>
  \<open>RT\<close> through a view \<open>A\<close> of its rows. Other processes may insert rows while an operation runs,
  so every access may add rows; none is changed or removed. An answer holds of the state it
  comes with. The cache is as in \<open>settings\<close>.
\<close>

locale routing_table = settings R V D C T
  for R :: "'s env" and V :: "'s \<Rightarrow> view" and D :: "'s db" and C :: "'s \<Rightarrow> string \<rightharpoonup> pyval"
    and T :: "'s \<Rightarrow> string \<Rightarrow> string \<rightharpoonup> pyval" +
  fixes RT :: "'s route_table"
    and A :: "'s \<Rightarrow> string \<rightharpoonup> string"
  assumes law_rows: "fst (rt_rows RT s) = Inr l \<Longrightarrow> map_of l = A (snd (rt_rows RT s)) \<and> distinct (map fst l)"
    and law_rows_A: "A s \<subseteq>\<^sub>m A (snd (rt_rows RT s))"
    and law_rows_C: "C (snd (rt_rows RT s)) = C s"
    and law_get_row: "fst (rt_get RT s ns) = Inr x \<Longrightarrow> x = A (snd (rt_get RT s ns)) ns"
    and law_get_row_A: "A s \<subseteq>\<^sub>m A (snd (rt_get RT s ns))"
    and law_get_row_C: "C (snd (rt_get RT s ns)) = C s"
    and law_insert: "fst (rt_insert RT s ns a) = Inr True \<Longrightarrow> A (snd (rt_insert RT s ns a)) ns = Some a"
    and law_insert_A: "A s \<subseteq>\<^sub>m A (snd (rt_insert RT s ns a))"
    and law_insert_C: "C (snd (rt_insert RT s ns a)) = C s"
    and law_update: "fst (rt_update RT s ns a) = Inr u \<Longrightarrow> A (snd (rt_update RT s ns a)) ns = Some a"
    and law_update_other: "ns' \<noteq> ns \<Longrightarrow> A s ns' = Some b \<Longrightarrow> A (snd (rt_update RT s ns a)) ns' = Some b"
    and law_cache_get_A: "A s \<subseteq>\<^sub>m A (snd (cache_get D s k))"
    and law_cache_set_A: "A s \<subseteq>\<^sub>m A (snd (cache_set D s k v ttl))"
    and law_cache_delete_A: "A s \<subseteq>\<^sub>m A (snd (cache_delete D s k))"
    and law_mono_A: "A s \<subseteq>\<^sub>m A (snd (mono R s))"
    and law_mono_C: "C (snd (mono R s)) = C s"
begin

lemma map_leD: "m \<subseteq>\<^sub>m m' \<Longrightarrow> m k = Some v \<Longrightarrow> m' k = Some v"
  by (auto simp: map_le_def dom_def)

abbreviation cache_sound :: "'s \<Rightarrow> bool" where
  "cache_sound \<equiv> route_cache_sound C A"

lemma cache_sound_grow:
  assumes "cache_sound s" and "A s \<subseteq>\<^sub>m A s'" and "C s' = C s"
  shows "cache_sound s'"
  unfolding route_cache_sound_def
proof (intro allI impI)
  fix d ns v assume "C s' ROUTE_CACHE_KEY = Some (PDict d)" "map_of d ns = Some v"
  with assms(1,3) obtain a where "v = PStr a" "A s ns = Some a" unfolding route_cache_sound_def by metis
  with assms(2) show "\<exists>a. v = PStr a \<and> A s' ns = Some a" by (metis map_leD)
qed

lemma cache_sound_delete:
  assumes "cache_sound s"
  shows "cache_sound (snd (cache_delete D s k))"
  using law_cache_delete_C [of s k]
proof
  assume "C (snd (cache_delete D s k)) = C s"
  with assms law_cache_delete_A show ?thesis by (rule cache_sound_grow)
next
  assume c: "C (snd (cache_delete D s k)) = (C s)(k := None)"
  show ?thesis
    unfolding route_cache_sound_def c
    using assms map_leD [OF law_cache_delete_A [of s k]] unfolding route_cache_sound_def by (metis fun_upd_apply option.distinct(1))
qed

lemma map_of_routes: "map_of (map (\<lambda>(ns, alias). (ns, PStr alias)) rows) ns = map_option PStr (map_of rows ns)"
  by (induction rows) auto

text \<open>What a load returns is part of the table.\<close>

lemma get_routes_sound:
  assumes sound: "cache_sound s" and run: "get_routes D RT s = (r, s')"
  shows "A s \<subseteq>\<^sub>m A s'" and "cache_sound s'"
    and "r = Inr d \<Longrightarrow> map_of d ns = Some v \<Longrightarrow> \<exists>a. v = PStr a \<and> A s' ns = Some a"
proof -
  obtain c s1 where c: "cache_get D s ROUTE_CACHE_KEY = (c, s1)" by force
  have g1: "A s \<subseteq>\<^sub>m A s1" and C1: "C s1 = C s"
    using law_cache_get_A [of s ROUTE_CACHE_KEY] law_cache_get_C [of s ROUTE_CACHE_KEY] c by simp_all
  have sound1: "cache_sound s1" using sound g1 C1 by (rule cache_sound_grow)
  have "A s \<subseteq>\<^sub>m A s' \<and> cache_sound s' \<and>
    (r = Inr d \<longrightarrow> map_of d ns = Some v \<longrightarrow> (\<exists>a. v = PStr a \<and> A s' ns = Some a))"
  proof (cases "\<exists>d. c = Inr (Some (PDict d))")
    case True
    then obtain d0 where d0: "c = Inr (Some (PDict d0))" by blast
    with run c have "r = Inr d0" "s' = s1" by (simp_all add: get_routes_def)
    moreover have "C s ROUTE_CACHE_KEY = Some (PDict d0)" using law_cache_get [of s ROUTE_CACHE_KEY] c d0 by simp
    ultimately show ?thesis using g1 sound1 C1 unfolding route_cache_sound_def by (metis sum.inject(2))
  next
    case False
    obtain rows s2 where rows: "rt_rows RT s1 = (rows, s2)" by force
    have g2: "A s1 \<subseteq>\<^sub>m A s2" and C2: "C s2 = C s1"
      using law_rows_A [of s1] law_rows_C [of s1] rows by simp_all
    have sound2: "cache_sound s2" using sound1 g2 C2 by (rule cache_sound_grow)
    have miss: "get_routes D RT s = (case (rows, s2) of (Inl _, s) \<Rightarrow> (Inl RoutingError, s)
       | (Inr rows, s) \<Rightarrow> (let routes = map (\<lambda>(ns, alias). (ns, PStr alias)) rows
            in (Inr routes, snd (cache_set D s ROUTE_CACHE_KEY (PDict routes) ROUTE_CACHE_TTL_SECONDS))))"
      using False unfolding get_routes_def c rows [symmetric]
      by (auto split: sum.split option.split pyval.split)
    show ?thesis
    proof (cases rows)
      case (Inl e)
      with run miss have "s' = s2" "r = Inl RoutingError" by simp_all
      then show ?thesis using map_le_trans [OF g1 g2] sound2 by simp
    next
      case (Inr l)
      let ?routes = "map (\<lambda>(ns, alias). (ns, PStr alias)) l"
      let ?s3 = "snd (cache_set D s2 ROUTE_CACHE_KEY (PDict ?routes) ROUTE_CACHE_TTL_SECONDS)"
      have s': "s' = ?s3" and r: "r = Inr ?routes" using run miss Inr by (simp_all add: Let_def)
      have l: "map_of l = A s2" using law_rows [of s1 l] rows Inr by simp
      have g3: "A s2 \<subseteq>\<^sub>m A ?s3" by (rule law_cache_set_A)
      have part: "map_of ?routes ns = Some v \<Longrightarrow> \<exists>a. v = PStr a \<and> A ?s3 ns = Some a" for ns v
        unfolding map_of_routes l using map_leD [OF g3] by (auto simp: map_option_case split: option.splits)
      have sound3: "cache_sound ?s3"
        using law_cache_set_C [of s2 ROUTE_CACHE_KEY "PDict ?routes" ROUTE_CACHE_TTL_SECONDS]
      proof
        assume "C ?s3 = C s2"
        with sound2 g3 show ?thesis by (rule cache_sound_grow)
      next
        assume "C ?s3 = (C s2)(ROUTE_CACHE_KEY \<mapsto> PDict ?routes)"
        then show ?thesis unfolding route_cache_sound_def using part by simp
      qed
      show ?thesis
        using map_le_trans [OF g1 map_le_trans [OF g2 g3]] sound3 part [of ns v] unfolding s' r by auto
    qed
  qed
  then show "A s \<subseteq>\<^sub>m A s'" and "cache_sound s'"
    and "r = Inr d \<Longrightarrow> map_of d ns = Some v \<Longrightarrow> \<exists>a. v = PStr a \<and> A s' ns = Some a" by simp_all
qed

text \<open>Steps that may only add rows and keep the cached table part of it.\<close>

definition grows :: "'s \<Rightarrow> 's \<Rightarrow> bool" where
  "grows s s' \<longleftrightarrow> A s \<subseteq>\<^sub>m A s' \<and> (cache_sound s \<longrightarrow> cache_sound s')"

lemma grows_refl [simp]: "grows s s"
  by (simp add: grows_def)

lemma grows_trans [trans]: "grows s s' \<Longrightarrow> grows s' s'' \<Longrightarrow> grows s s''"
  unfolding grows_def by (meson map_le_trans)

lemma grows_row: "grows s s' \<Longrightarrow> A s ns = Some a \<Longrightarrow> A s' ns = Some a"
  unfolding grows_def by (metis map_leD)

lemma grows_steps [simp]:
  "grows s (snd (rt_get RT s ns))" "grows s (snd (rt_insert RT s ns a))"
  "grows s (snd (cache_delete D s k))" "grows s (snd (mono R s))"
  unfolding grows_def
  using law_get_row_A law_get_row_C law_insert_A law_insert_C law_cache_delete_A law_mono_A law_mono_C
    cache_sound_grow cache_sound_delete by blast+

lemma invalidate_grows [simp]: "grows s (snd (invalidate_route D ns memo s))"
  by (simp add: invalidate_route_def)

lemma invalidated_grows: "invalidate_route D ns memo s = (m, s') \<Longrightarrow> grows s s'"
  using invalidate_grows [of s ns memo] by simp

lemma get_row_cases:
  assumes "rt_get RT s ns = (r, s')"
  shows "grows s s'" and "r = Inr x \<Longrightarrow> A s' ns = x"
  using grows_steps(1) [of s ns] law_get_row [of s ns x] assms by simp_all

lemma insert_cases:
  assumes "rt_insert RT s ns a = (r, s')"
  shows "grows s s'" and "r = Inr True \<Longrightarrow> A s' ns = Some a"
  using grows_steps(2) [of s ns a] law_insert [of s ns a] assms by simp_all

lemma route_create_row:
  assumes run: "route_create D RT aliases ns alias memo s = (r, memo', s')"
  shows "grows s s'" and "r = Inr True \<Longrightarrow> A s' ns = Some alias \<and> alias \<in> set aliases"
proof -
  have "grows s s' \<and> (r = Inr True \<longrightarrow> A s' ns = Some alias \<and> alias \<in> set aliases)"
  proof (cases "route_clean aliases ns alias")
    case (Inl e)
    then show ?thesis using run by (auto simp: route_create_def)
  next
    case (Inr u)
    then have al: "alias \<in> set aliases" by (auto simp: route_clean_def split: if_splits sum.splits)
    obtain x s1 where x: "rt_get RT s ns = (x, s1)" by force
    note g1 = get_row_cases(1) [OF x]
    show ?thesis
    proof (cases "x = Inr None")
      case False
      then have "s' = s1" "\<exists>e. r = Inl e" using run Inr x by (auto simp: route_create_def split: sum.splits option.splits)
      then show ?thesis using g1 by auto
    next
      case None: True
      obtain y s2 where y: "rt_insert RT s1 ns alias = (y, s2)" by force
      note g2 = grows_trans [OF g1 insert_cases(1) [OF y]]
      show ?thesis
      proof (cases "y = Inr True")
        case True
        then have s': "s' = snd (invalidate_route D ns memo s2)"
          using run Inr x y None by (auto simp: route_create_def)
        have "grows s2 s'" unfolding s' by simp
        moreover have "A s2 ns = Some alias" using insert_cases(2) [OF y True] .
        ultimately show ?thesis using g2 grows_trans grows_row al by blast
      next
        case False
        then have "s' = s2" "r \<noteq> Inr True" using run Inr x y None by (auto simp: route_create_def split: sum.splits bool.splits)
        then show ?thesis using g2 by simp
      qed
    qed
  qed
  then show "grows s s'" and "r = Inr True \<Longrightarrow> A s' ns = Some alias \<and> alias \<in> set aliases" by simp_all
qed

text \<open>Whoever wins a race, the answer is the row.\<close>

lemma get_or_create_row:
  assumes run: "route_get_or_create D RT aliases ns alias memo s = (r, memo', s')"
  shows "grows s s'" and "r = Inr (a, created) \<Longrightarrow> A s' ns = Some a"
    and "r = Inr (a, True) \<Longrightarrow> a = alias \<and> alias \<in> set aliases"
proof -
  obtain x s1 where x: "rt_get RT s ns = (x, s1)" by force
  note g1 = get_row_cases(1) [OF x]
  obtain y m2 s2 where y: "route_create D RT aliases ns alias memo s1 = (y, m2, s2)" by (metis prod_cases3)
  note g2 = grows_trans [OF g1 route_create_row(1) [OF y]]
  obtain z s3 where z: "rt_get RT s2 ns = (z, s3)" by force
  note g3 = grows_trans [OF g2 get_row_cases(1) [OF z]]
  have "grows s s' \<and> (\<forall>a created. r = Inr (a, created) \<longrightarrow> A s' ns = Some a)
    \<and> (\<forall>a. r = Inr (a, True) \<longrightarrow> a = alias \<and> alias \<in> set aliases)"
  proof (cases "x = Inr None")
    case False
    then show ?thesis
      using run x g1 get_row_cases(2) [OF x] by (auto simp: route_get_or_create_def split: sum.splits option.splits)
  next
    case None: True
    consider (fail) e where "y = Inl e" | (made) "y = Inr True" | (lost) "y = Inr False"
      by (cases y) auto
    then show ?thesis
    proof cases
      case fail
      then show ?thesis using run x y g2 None by (auto simp: route_get_or_create_def)
    next
      case made
      then show ?thesis using run x y g2 None route_create_row(2) [OF y made]
        by (auto simp: route_get_or_create_def)
    next
      case lost
      then show ?thesis using run x y z g3 None get_row_cases(2) [OF z]
        by (auto simp: route_get_or_create_def split: sum.splits option.splits)
    qed
  qed
  then show "grows s s'" and "r = Inr (a, created) \<Longrightarrow> A s' ns = Some a"
    and "r = Inr (a, True) \<Longrightarrow> a = alias \<and> alias \<in> set aliases" by blast+
qed

lemma get_routes_grows:
  assumes "get_routes D RT s = (r, s')" and "cache_sound s"
  shows "grows s s'"
  using get_routes_sound(1,2) [OF assms(2,1)] by (simp add: grows_def)

lemma assign_route_row:
  assumes run: "assign_route D RT aliases ns memo s = (r, memo', s')" and sound: "cache_sound s"
  shows "grows s s'" and "r = Inr a \<Longrightarrow> A s' ns = Some a"
proof -
  obtain x s1 where x: "get_routes D RT s = (x, s1)" by force
  note g1 = get_routes_grows [OF x sound]
  obtain y m2 s2 where y: "route_get_or_create D RT aliases ns (least_loaded aliases (case x of Inr d \<Rightarrow> d | _ \<Rightarrow> [])) memo s1 = (y, m2, s2)"
    by (metis prod_cases3)
  note g2 = grows_trans [OF g1 get_or_create_row(1) [OF y]]
  have "grows s s' \<and> (\<forall>a. r = Inr a \<longrightarrow> A s' ns = Some a)"
  proof (cases "(\<exists>u. validate_namespace ns = Inr u) \<and> aliases \<noteq> [] \<and> (\<exists>d. x = Inr d)")
    case False
    then show ?thesis using run x g1 by (auto simp: assign_route_def split: sum.splits if_splits)
  next
    case True
    then obtain d where d: "x = Inr d" by blast
    show ?thesis
    proof (cases y)
      case (Inl e)
      then show ?thesis using run x y d True g2 by (auto simp: assign_route_def)
    next
      case (Inr p)
      obtain a c where p: "p = (a, c)" by (cases p)
      note row = get_or_create_row(2) [OF y, of a c]
      have "grows s2 s'" and r: "r = Inr a"
        using run x y d True Inr p by (auto simp: assign_route_def split: if_splits prod.splits intro: invalidated_grows)
      then show ?thesis using g2 row Inr p grows_trans grows_row by blast
    qed
  qed
  then show "grows s s'" and "r = Inr a \<Longrightarrow> A s' ns = Some a" by simp_all
qed

lemma resolve_alias_row:
  assumes run: "resolve_alias D RT aliases ns memo s = (r, memo', s')" and sound: "cache_sound s"
  shows "grows s s'" and "r = Inr a \<Longrightarrow> A s' ns = Some a" and "r = Inl e \<Longrightarrow> e = RoutingError"
proof -
  obtain x s1 where x: "get_routes D RT s = (x, s1)" by force
  note g1 = get_routes_grows [OF x sound]
  then have sound1: "cache_sound s1" using sound by (simp add: grows_def)
  obtain y m2 s2 where y: "assign_route D RT aliases ns memo s1 = (y, m2, s2)" by (metis prod_cases3)
  note g2 = grows_trans [OF g1 assign_route_row(1) [OF y sound1]]
  note row = assign_route_row(2) [OF y sound1]
  have "grows s s' \<and> (\<forall>a. r = Inr a \<longrightarrow> A s' ns = Some a) \<and> (\<forall>e. r = Inl e \<longrightarrow> e = RoutingError)"
  proof (cases x)
    case (Inl e)
    then show ?thesis using run x g1 by (auto simp: resolve_alias_def)
  next
    case (Inr d)
    show ?thesis
    proof (cases "map_of d ns")
      case None
      then show ?thesis using run x Inr y g2 row by (auto simp: resolve_alias_def split: sum.splits)
    next
      case (Some v)
      obtain a where a: "v = PStr a" "A s1 ns = Some a"
        using get_routes_sound(3) [OF sound x Inr Some] by blast
      then show ?thesis using run x Inr Some g1 by (auto simp: resolve_alias_def split: if_splits)
    qed
  qed
  then show "grows s s'" and "r = Inr a \<Longrightarrow> A s' ns = Some a" and "r = Inl e \<Longrightarrow> e = RoutingError" by simp_all
qed

abbreviation memo_sound :: "route_memo \<Rightarrow> 's \<Rightarrow> bool" where
  "memo_sound \<equiv> route_memo_sound A"

lemma memo_sound_grow: "memo_sound memo s \<Longrightarrow> grows s s' \<Longrightarrow> memo_sound memo s'"
  unfolding route_memo_sound_def by (metis grows_row)

lemma memo_sound_update:
  "memo_sound memo s \<Longrightarrow> A s ns = Some a \<Longrightarrow> memo_sound (AList.update ns (a, t) memo) s"
  by (auto simp: route_memo_sound_def AList_map_of_update split: if_splits)

lemma memo_sound_delete: "memo_sound memo s \<Longrightarrow> memo_sound (AList.delete ns memo) s"
  by (auto simp: route_memo_sound_def AList_map_of_delete split: if_splits)

lemma invalidate_memo:
  "invalidate_route D ns memo s = (memo', s') \<Longrightarrow> memo_sound memo s \<Longrightarrow> memo_sound memo' s'"
  using invalidated_grows [of ns memo s memo' s']
  by (auto simp: invalidate_route_def intro: memo_sound_delete memo_sound_grow)

text \<open>Resolution only ever drops entries of the memo.\<close>

lemma memo_sound_run:
  assumes "map_of memo' \<subseteq>\<^sub>m map_of memo" and "grows s s'" and "memo_sound memo s"
  shows "memo_sound memo' s'"
  using assms unfolding route_memo_sound_def by (metis grows_row map_leD)

text \<open>The connection of a namespace is the one its row names.\<close>

lemma conn_for_namespace_row:
  assumes run: "conn_for_namespace R D RT aliases ns memo s = (r, memo', s')"
    and sound: "cache_sound s" "memo_sound memo s"
  shows "grows s s'" and "memo_sound memo' s'"
    and "r = Inr a \<Longrightarrow> A s' ns = Some a" and "r = Inl e \<Longrightarrow> e = RoutingError \<and> map_of memo ns = None"
proof -
  obtain now s1 where m: "mono R s = (now, s1)" by force
  have g1: "grows s s1" using grows_steps(4) [of s] m by simp
  have sound1: "cache_sound s1" using g1 sound(1) by (simp add: grows_def)
  obtain y m2 s2 where y: "resolve_alias D RT aliases ns memo s1 = (y, m2, s2)" by (metis prod_cases3)
  note g2 = grows_trans [OF g1 resolve_alias_row(1) [OF y sound1]]
  note row = resolve_alias_row(2,3) [OF y sound1]
  have m2: "memo_sound m2 s2" using resolve_memo [OF y] g2 sound(2) by (rule memo_sound_run)
  have new: "memo_sound (AList.update ns (b, t) m2) s2" if "y = Inr b" for b t
    using m2 row(1) [OF that] by (rule memo_sound_update)
  have old: "memo_sound memo s1" using sound(2) g1 by (rule memo_sound_grow)
  have "grows s s' \<and> memo_sound memo' s' \<and> (\<forall>a. r = Inr a \<longrightarrow> A s' ns = Some a)
    \<and> (\<forall>e. r = Inl e \<longrightarrow> e = RoutingError \<and> map_of memo ns = None)"
  proof (cases "map_of memo ns")
    case None
    then show ?thesis
      using run m y g2 row m2 new by (cases y) (auto simp: conn_for_namespace_def Let_def)
  next
    case (Some p)
    obtain b t where p: "p = (b, t)" by (cases p)
    have b: "A s ns = Some b" using sound(2) Some p by (auto simp: route_memo_sound_def)
    show ?thesis
    proof (cases "now < t")
      case True
      then show ?thesis using run m Some p g1 old grows_row [OF g1 b] by (auto simp: conn_for_namespace_def Let_def)
    next
      case False
      then show ?thesis
        using run m y Some p g2 row m2 new grows_row [OF g2 b] by (cases y) (auto simp: conn_for_namespace_def Let_def)
    qed
  qed
  then show "grows s s'" and "memo_sound memo' s'"
    and "r = Inr a \<Longrightarrow> A s' ns = Some a" and "r = Inl e \<Longrightarrow> e = RoutingError \<and> map_of memo ns = None" by blast+
qed

end

section \<open>Balance\<close>

definition balanced :: "string list \<Rightarrow> pydict \<Rightarrow> bool" where
  "balanced aliases routes \<longleftrightarrow>
     (\<forall>a\<in>set aliases. \<forall>b\<in>set aliases. route_load routes a \<le> route_load routes b + 1)"

lemma least_loaded_min:
  assumes "aliases \<noteq> []"
  shows "least_loaded aliases routes \<in> set aliases"
    and "b \<in> set aliases \<Longrightarrow> route_load routes (least_loaded aliases routes) \<le> route_load routes b"
proof -
  let ?f = "\<lambda>a. (route_load routes a, pool_index aliases a)"
  show "least_loaded aliases routes \<in> set aliases"
    unfolding least_loaded_def by (rule arg_min_list_in [OF assms])
  assume "b \<in> set aliases"
  moreover have "?f (least_loaded aliases routes) = Min (?f ` set aliases)"
    unfolding least_loaded_def by (rule f_arg_min_list_f [OF assms])
  ultimately have "?f (least_loaded aliases routes) \<le> ?f b" by simp
  then show "route_load routes (least_loaded aliases routes) \<le> route_load routes b" by auto
qed

lemma route_load_Cons: "route_load ((ns, PStr a) # routes) b = route_load routes b + (if b = a then 1 else 0)"
  by (auto simp: route_load_def)

lemma least_loaded_balanced:
  assumes "balanced aliases routes" and "aliases \<noteq> []"
  shows "balanced aliases ((ns, PStr (least_loaded aliases routes)) # routes)"
  using assms(1) least_loaded_min [OF assms(2), where routes = routes]
  unfolding balanced_def route_load_Cons by fastforce

section \<open>The reference instance\<close>

text \<open>Rows of the table \<open>route\<close> beside the settings tables of the reference store.\<close>

definition route_alias :: "pyval \<Rightarrow> string" where
  "route_alias v = (case v of PStr a \<Rightarrow> a | _ \<Rightarrow> [])"

definition mem_route_rows :: "mem \<Rightarrow> (string \<times> string) list" where
  "mem_route_rows s = map (\<lambda>(ns, v). (ns, route_alias v)) (AList.clearjunk (sub (m_rows s) ''route''))"

definition mem_route_put :: "string \<Rightarrow> string \<Rightarrow> mem \<Rightarrow> mem" where
  "mem_route_put ns a s =
     s\<lparr>m_rows := AList.update ''route'' (AList.update ns (PStr a) (sub (m_rows s) ''route'')) (m_rows s)\<rparr>"

definition mem_routes :: "mem route_table" where
  "mem_routes = \<lparr>rt_rows = (\<lambda>s. (Inr (mem_route_rows s), s)),
     rt_get = (\<lambda>s ns. (Inr (map_of (mem_route_rows s) ns), s)),
     rt_insert = (\<lambda>s ns a. if map_of (mem_route_rows s) ns = None then (Inr True, mem_route_put ns a s) else (Inr False, s)),
     rt_update = (\<lambda>s ns a. (Inr (), mem_route_put ns a s))\<rparr>"

definition mem_route_map :: "mem \<Rightarrow> string \<rightharpoonup> string" where
  "mem_route_map s = map_of (mem_route_rows s)"

lemma map_of_map_fst: "map_of (map (\<lambda>(k, v). (k, f v)) l) k = map_option f (map_of l k)"
  by (induction l) auto

lemma mem_route_map_rows: "mem_route_map s ns = map_option route_alias (map_of (sub (m_rows s) ''route'') ns)"
  by (simp add: mem_route_map_def mem_route_rows_def map_of_map_fst map_of_clearjunk)

lemma mem_route_map_put: "mem_route_map (mem_route_put ns a s) = (mem_route_map s)(ns \<mapsto> a)"
  by (simp add: fun_eq_iff mem_route_map_rows mem_route_put_def AList_map_of_update route_alias_def)

lemma mem_route_map_scripts [simp]:
  "mem_route_map (s\<lparr>m_cache := c\<rparr>) = mem_route_map s" "mem_route_map (s\<lparr>m_mono := t\<rparr>) = mem_route_map s"
  "mem_cache_map (s\<lparr>m_mono := t\<rparr>) = mem_cache_map s" "mem_cache_map (mem_route_put ns a s) = mem_cache_map s"
  by (simp_all add: fun_eq_iff mem_route_map_rows mem_cache_map_def mem_route_put_def)

interpretation mem_routing: routing_table mem_env mem_view mem_db mem_cache_map mem_rows_map mem_routes mem_route_map
proof
  fix s :: mem and l and ns a k :: string and v :: pyval and ttl :: int and x
  show "fst (rt_rows mem_routes s) = Inr l \<Longrightarrow>
      map_of l = mem_route_map (snd (rt_rows mem_routes s)) \<and> distinct (map fst l)"
    by (auto simp: mem_routes_def mem_route_map_def mem_route_rows_def distinct_clearjunk comp_def case_prod_beta
        simp flip: map_map [of fst])
  show "fst (rt_get mem_routes s ns) = Inr x \<Longrightarrow> x = mem_route_map (snd (rt_get mem_routes s ns)) ns"
    by (auto simp: mem_routes_def mem_route_map_def)
  show "fst (rt_insert mem_routes s ns a) = Inr True \<Longrightarrow>
      mem_route_map (snd (rt_insert mem_routes s ns a)) ns = Some a"
    by (auto simp: mem_routes_def mem_route_map_put split: if_splits)
  show "mem_route_map (snd (rt_update mem_routes s ns a)) ns = Some a"
    by (simp add: mem_routes_def mem_route_map_put)
  show "mem_route_map s \<subseteq>\<^sub>m mem_route_map (snd (rt_insert mem_routes s ns a))"
    by (auto simp: mem_routes_def mem_route_map_put mem_route_map_def [symmetric] map_le_def)
  show "mem_route_map s \<subseteq>\<^sub>m mem_route_map (snd (mono mem_env s))"
    and "mem_cache_map (snd (mono mem_env s)) = mem_cache_map s"
    by (auto simp: mem_env_def map_le_refl split: list.split)
qed (simp_all add: mem_routes_def mem_db_def mem_route_map_put map_le_refl split: if_split)

end
