(* ===== verification/Remap.thy ===== *)
theory Remap
  imports Routing Locks
begin

text \<open>
  \<open>dispatch/remap.py\<close>: sweeping the keys of a namespace off one Redis instance, and moving a
  namespace to another instance. The instances of the pool are independent stores, one per
  alias; what other processes do while the code sleeps is an argument.
\<close>

section \<open>Sweeping\<close>

definition SWEEP_BATCH_SIZE :: nat where "SWEEP_BATCH_SIZE = 500"

definition convergence_window_seconds :: int where
  "convergence_window_seconds = ROUTE_MEMO_TTL_SECONDS + ROUTE_CACHE_TTL_SECONDS"

record sweep_result =
  sweep_matched :: int
  sweep_deleted :: int
  sweep_batches :: int
  sweep_dry_run :: bool

definition unlink :: "'s env \<Rightarrow> string list \<Rightarrow> 's \<Rightarrow> unit result \<times> 's" where
  "unlink R ks = rwrite R (fold (\<lambda>k s. snd (r_del R s k)) ks)"

text \<open>The loop over the keys found, with the batch not yet unlinked.\<close>

fun sweep_loop :: "'s env \<Rightarrow> string list \<Rightarrow> string list \<Rightarrow> sweep_result \<Rightarrow> 's \<Rightarrow> sweep_result result \<times> 's" where
  "sweep_loop R [] batch res s =
     (if \<not> sweep_dry_run res \<and> batch \<noteq> [] then
        (case unlink R batch s of
           (Inl e, s) \<Rightarrow> (Inl e, s)
         | (Inr _, s) \<Rightarrow> (Inr (res\<lparr>sweep_deleted := sweep_deleted res + int (length batch),
                                  sweep_batches := sweep_batches res + 1\<rparr>), s))
      else (Inr res, s))"
| "sweep_loop R (k # ks) batch res s =
     (let res = res\<lparr>sweep_matched := sweep_matched res + 1\<rparr> in
      if sweep_dry_run res then sweep_loop R ks batch res s
      else
        (let batch = batch @ [k] in
         if length batch \<ge> SWEEP_BATCH_SIZE then
           (case unlink R batch s of
              (Inl e, s) \<Rightarrow> (Inl e, s)
            | (Inr _, s) \<Rightarrow> sweep_loop R ks [] (res\<lparr>sweep_deleted := sweep_deleted res + int (length batch),
                                                  sweep_batches := sweep_batches res + 1\<rparr>) s)
         else sweep_loop R ks batch res s))"

text \<open>\<open>scan_iter\<close> with the pattern \<open>dispatch:{namespace}:*\<close>: a validated namespace holds no
  metacharacter, so the pattern is a prefix.\<close>

definition namespace_prefix :: "string \<Rightarrow> string" where
  "namespace_prefix ns = ''dispatch:'' @ ns @ '':''"

definition sweep_namespace :: "'s env \<Rightarrow> string \<Rightarrow> bool \<Rightarrow> 's \<Rightarrow> sweep_result result \<times> 's" where
  "sweep_namespace R ns dry_run s =
     (case validate_namespace ns of
        Inl e \<Rightarrow> (Inl e, s)
      | Inr _ \<Rightarrow>
          (case rread R (\<lambda>s. r_keys R s (namespace_prefix ns)) s of
             (Inl e, s) \<Rightarrow> (Inl e, s)
           | (Inr ks, s) \<Rightarrow>
               sweep_loop R ks [] \<lparr>sweep_matched = 0, sweep_deleted = 0, sweep_batches = 0, sweep_dry_run = dry_run\<rparr> s))"

section \<open>Moving a namespace\<close>

type_synonym 't pool = "string \<Rightarrow> 't"

definition on_shard :: "string \<Rightarrow> ('t \<Rightarrow> 'a \<times> 't) \<Rightarrow> 't pool \<Rightarrow> 'a \<times> 't pool" where
  "on_shard alias f w = (fst (f (w alias)), w(alias := snd (f (w alias))))"

record remap_result =
  remap_from :: string
  remap_to :: string
  remap_dry_run :: bool
  remap_moved :: bool
  first_sweep :: "sweep_result option"
  second_sweep :: "sweep_result option"

text \<open>After the route row was flipped: wait, sweep, wait, sweep. \<open>wait1\<close> and \<open>wait2\<close> are what other
  processes do in the meantime.\<close>

definition converge ::
  "'t env \<Rightarrow> string \<Rightarrow> string \<Rightarrow> ('t pool \<Rightarrow> 't pool) \<Rightarrow> ('t pool \<Rightarrow> 't pool) \<Rightarrow> 't pool
     \<Rightarrow> (sweep_result \<times> sweep_result) result \<times> 't pool" where
  "converge Q old ns wait1 wait2 w =
     (case on_shard old (sweep_namespace Q ns False) (wait1 w) of
        (Inl e, w) \<Rightarrow> (Inl e, w)
      | (Inr first, w) \<Rightarrow>
          (case on_shard old (sweep_namespace Q ns False) (wait2 w) of
             (Inl e, w) \<Rightarrow> (Inl e, w)
           | (Inr second, w) \<Rightarrow> (Inr (first, second), w)))"

definition remap_live ::
  "'t env \<Rightarrow> 's db \<Rightarrow> 's route_table \<Rightarrow> string list \<Rightarrow> string \<Rightarrow> string \<Rightarrow> string \<Rightarrow> real option
     \<Rightarrow> ('t pool \<Rightarrow> 't pool) \<Rightarrow> ('t pool \<Rightarrow> 't pool) \<Rightarrow> remap_result \<Rightarrow> route_memo \<Rightarrow> 's \<Rightarrow> 't pool
     \<Rightarrow> remap_result result \<times> route_memo \<times> 's \<times> 't pool" where
  "remap_live Q D RT aliases ns old alias pause_seconds wait1 wait2 plan memo s w =
     (case on_shard old (pause_queue_pump Q ns pause_seconds) w of
        (Inl e, w) \<Rightarrow> (Inl e, memo, s, w)
      | (Inr _, w) \<Rightarrow>
        (case on_shard old (pause_queue_producer Q ns pause_seconds) w of
           (Inl e, w) \<Rightarrow> (Inl e, memo, s, w)
         | (Inr _, w) \<Rightarrow>
           (case route_save D RT aliases ns alias memo s of
              (Inl e, memo, s) \<Rightarrow> (Inl e, memo, s, w)
            | (Inr _, memo, s) \<Rightarrow>
              (case converge Q old ns wait1 wait2 w of
                 (Inl e, w) \<Rightarrow> (Inl e, memo, s, w)
               | (Inr (a, b), w) \<Rightarrow>
                   (Inr (plan\<lparr>first_sweep := Some a, second_sweep := Some b\<rparr>), memo, s, w)))))"

definition remap_namespace ::
  "'t env \<Rightarrow> 's db \<Rightarrow> 's route_table \<Rightarrow> string list \<Rightarrow> string \<Rightarrow> string \<Rightarrow> string \<Rightarrow> bool \<Rightarrow> real option
     \<Rightarrow> ('t pool \<Rightarrow> 't pool) \<Rightarrow> ('t pool \<Rightarrow> 't pool) \<Rightarrow> route_memo \<Rightarrow> 's \<Rightarrow> 't pool
     \<Rightarrow> remap_result result \<times> route_memo \<times> 's \<times> 't pool" where
  "remap_namespace Q D RT aliases ns alias mode dry_run pause_seconds wait1 wait2 memo s w =
     (case validate_namespace ns of
        Inl e \<Rightarrow> (Inl e, memo, s, w)
      | Inr _ \<Rightarrow>
        if mode \<noteq> ''drop'' then (Inl ValueError, memo, s, w)
        else if aliases = [] then (Inl RoutingError, memo, s, w)
        else if alias \<notin> set aliases then (Inl ValueError, memo, s, w)
        else
          (case rt_get RT s ns of
             (Inl e, s) \<Rightarrow> (Inl e, memo, s, w)
           | (Inr None, s) \<Rightarrow> (Inl RoutingError, memo, s, w)
           | (Inr (Some old), s) \<Rightarrow>
               (let plan = \<lparr>remap_from = old, remap_to = alias, remap_dry_run = dry_run, remap_moved = (old \<noteq> alias),
                            first_sweep = None, second_sweep = None\<rparr> in
                if old = alias then (Inr plan, memo, s, w)
                else if dry_run then
                  (case on_shard old (sweep_namespace Q ns True) w of
                     (Inl e, w) \<Rightarrow> (Inl e, memo, s, w)
                   | (Inr a, w) \<Rightarrow> (Inr (plan\<lparr>first_sweep := Some a\<rparr>), memo, s, w))
                else remap_live Q D RT aliases ns old alias pause_seconds wait1 wait2 plan memo s w)))"

section \<open>What a sweep does\<close>

definition v_unlink :: "string list \<Rightarrow> view \<Rightarrow> view" where
  "v_unlink ks v = fold v_del ks v"

lemma v_unlink_append: "v_unlink (xs @ ys) v = v_unlink ys (v_unlink xs v)"
  by (simp add: v_unlink_def)

lemma present_v_del: "present (v_del k v) k' \<longleftrightarrow> k' \<noteq> k \<and> present v k'"
  by (auto simp: present_def v_del_def)

lemma present_unlink: "present (v_unlink ks v) k \<longleftrightarrow> k \<notin> set ks \<and> present v k"
  by (induction ks arbitrary: v) (auto simp: v_unlink_def present_v_del)

lemma same_at_unlink: "A \<inter> set ks = {} \<Longrightarrow> same_at A v (v_unlink ks v)"
proof (induction ks arbitrary: v)
  case (Cons k ks)
  then have "same_at A v (v_del k v)" by (simp add: frame_simps)
  moreover have "same_at A (v_del k v) (v_unlink ks (v_del k v))" using Cons by auto
  ultimately show ?case unfolding v_unlink_def by (auto intro: same_at_trans)
qed (simp add: v_unlink_def)

text \<open>The keys of a namespace, and those of another one.\<close>

lemma namespace_prefix_key: "starts_with (ns_key ns a) (namespace_prefix ns)"
  by (auto simp: ns_key_def namespace_prefix_def starts_with_iff)

lemma namespace_prefix_other:
  assumes "CHR '':'' \<notin> set ns" and "CHR '':'' \<notin> set ns'" and "ns \<noteq> ns'"
  shows "\<not> starts_with (ns_key ns' a) (namespace_prefix ns)"
proof
  assume "starts_with (ns_key ns' a) (namespace_prefix ns)"
  then obtain t where "ns' @ CHR '':'' # a = ns @ CHR '':'' # t"
    by (auto simp: ns_key_def namespace_prefix_def starts_with_iff)
  with assms show False by (simp add: split_at_first)
qed

lemma namespace_prefix_registered:
  assumes "CHR '':'' \<notin> set ns"
  shows "\<not> starts_with KEY_REGISTERED (namespace_prefix ns)"
proof
  assume "starts_with KEY_REGISTERED (namespace_prefix ns)"
  then obtain t where "''registered'' = ns @ CHR '':'' # t"
    by (auto simp: KEY_REGISTERED_def namespace_prefix_def starts_with_iff)
  then have "CHR '':'' \<in> set ''registered''" by (metis in_set_conv_decomp)
  then show False by simp
qed

context redis
begin

lemma fold_del_V: "V (fold (\<lambda>k s. snd (r_del R s k)) ks s) = v_unlink ks (V s)"
  by (induction ks arbitrary: s) (simp_all add: v_unlink_def)

lemma unlink_Inr: "unlink R ks s = (Inr u, s') \<Longrightarrow> V s' = v_unlink ks (V s)"
  unfolding unlink_def by (elim rwrite_Inr) (simp add: fold_del_V)

lemma unlink_view:
  obtains "V (snd (unlink R ks s)) = V s" | "V (snd (unlink R ks s)) = v_unlink ks (V s)"
proof (cases rule: rpc_cases [of s "\<lambda>s. ((), fold (\<lambda>k s. snd (r_del R s k)) ks s)"])
qed (auto simp: unlink_def rwrite_def fold_del_V intro: that)

lemma sweep_loop_dry: "sweep_dry_run res \<Longrightarrow>
    sweep_loop R ks batch res s = (Inr (res\<lparr>sweep_matched := sweep_matched res + int (length ks)\<rparr>), s)"
  by (induction ks arbitrary: res) (simp_all add: Let_def)

lemma sweep_loop_done:
  "sweep_loop R ks batch res s = (Inr res', s') \<Longrightarrow> \<not> sweep_dry_run res \<Longrightarrow>
     V s' = v_unlink (batch @ ks) (V s)
     \<and> sweep_matched res' = sweep_matched res + int (length ks)
     \<and> sweep_deleted res' = sweep_deleted res + int (length batch + length ks)"
proof (induction ks arbitrary: batch res s)
  case Nil
  then show ?case
    by (cases "batch = []") (auto simp: v_unlink_def [of "[]"] dest!: unlink_Inr split: sum.splits prod.splits)
next
  case (Cons k ks)
  let ?res = "res\<lparr>sweep_matched := sweep_matched res + 1\<rparr>" and ?b = "batch @ [k]"
  show ?case
  proof (cases "length ?b \<ge> SWEEP_BATCH_SIZE")
    case True
    obtain r s1 where u: "unlink R ?b s = (r, s1)" by force
    with Cons.prems True obtain v where r: "r = Inr v" by (auto simp: Let_def split: sum.splits)
    let ?res' = "?res\<lparr>sweep_deleted := sweep_deleted ?res + int (length ?b), sweep_batches := sweep_batches ?res + 1\<rparr>"
    have "sweep_loop R ks [] ?res' s1 = (Inr res', s')"
      using Cons.prems True u r by (simp add: Let_def)
    from Cons.IH [OF this] Cons.prems(2) unlink_Inr [OF u [unfolded r]]
    show ?thesis by (simp add: v_unlink_append [symmetric])
  next
    case False
    then have "sweep_loop R ks ?b ?res s = (Inr res', s')" using Cons.prems by (simp add: Let_def)
    from Cons.IH [OF this] Cons.prems(2) show ?thesis by simp
  qed
qed

text \<open>Whatever the connection does, a sweep touches keys of its namespace only.\<close>

lemma sweep_loop_frame:
  "A \<inter> set (batch @ ks) = {} \<Longrightarrow> same_at A (V s) (V (snd (sweep_loop R ks batch res s)))"
proof (induction ks arbitrary: batch res s)
  case Nil
  have "same_at A (V s) (V (snd (unlink R batch s)))"
    by (rule unlink_view [of batch s]) (use Nil same_at_unlink in \<open>simp_all add: same_at_unlink\<close>)
  then show ?case by (auto simp: case_prod_beta split: sum.split)
next
  case (Cons k ks)
  have u: "same_at A (V s) (V (snd (unlink R (batch @ [k]) s)))"
  proof -
    have "A \<inter> set (batch @ [k]) = {}" using Cons.prems by auto
    then have "same_at A (V s) (v_unlink (batch @ [k]) (V s))" by (rule same_at_unlink)
    then show ?thesis by (cases rule: unlink_view [of "batch @ [k]" s]) simp_all
  qed
  have "same_at A (V s) (V (snd (sweep_loop R ks [] res' (snd (unlink R (batch @ [k]) s)))))" for res'
    by (rule same_at_trans [OF u Cons.IH]) (use Cons.prems in auto)
  with u Cons.IH [of batch] Cons.IH [of "batch @ [k]"] Cons.prems show ?case
    by (simp add: Let_def case_prod_beta split: sum.split)
qed

lemma rread_V: "rread R q s = (r, s') \<Longrightarrow> V s' = V s"
  using rread_view [of q s] by simp

lemma sweep_dry:
  assumes "sweep_namespace R ns True s = (r, s')"
  shows "V s' = V s"
  using assms by (auto simp: sweep_namespace_def sweep_loop_dry rread_V split: sum.splits prod.splits)

lemma sweep_frame:
  assumes run: "sweep_namespace R ns dry s = (r, s')" and A: "\<And>k. k \<in> A \<Longrightarrow> \<not> starts_with k (namespace_prefix ns)"
  shows "same_at A (V s) (V s')"
proof -
  obtain x s1 where x: "rread R (\<lambda>s. r_keys R s (namespace_prefix ns)) s = (x, s1)" by force
  note V1 = rread_V [OF x]
  show ?thesis
  proof (cases "\<exists>u ks. validate_namespace ns = Inr u \<and> x = Inr ks")
    case True
    then obtain u ks where u: "validate_namespace ns = Inr u" and ks: "x = Inr ks" by blast
    obtain t where t: "V t = V s" "ks = r_keys R t (namespace_prefix ns)"
      using rread_Inr [OF x [unfolded ks]] by metis
    then have "A \<inter> set ([] @ ks) = {}" using A by auto
    from sweep_loop_frame [OF this, of s1] V1 run u x ks show ?thesis
      by (simp add: sweep_namespace_def) (metis snd_conv)
  next
    case False
    then have "V s' = V s" using run x V1 by (auto simp: sweep_namespace_def split: sum.splits)
    then show ?thesis by simp
  qed
qed

lemma sweep_done:
  assumes run: "sweep_namespace R ns False s = (Inr res, s')"
  shows "present (V s') k \<longleftrightarrow> present (V s) k \<and> \<not> starts_with k (namespace_prefix ns)"
    and "sweep_deleted res = sweep_matched res"
    and "sweep_matched res = 0 \<Longrightarrow> V s' = V s"
proof -
  obtain x s1 where x: "rread R (\<lambda>s. r_keys R s (namespace_prefix ns)) s = (x, s1)" by force
  note V1 = rread_V [OF x]
  from run x obtain u ks where u: "validate_namespace ns = Inr u" and ks: "x = Inr ks"
    by (auto simp: sweep_namespace_def split: sum.splits)
  obtain t where t: "V t = V s" "ks = r_keys R t (namespace_prefix ns)"
    using rread_Inr [OF x [unfolded ks]] by metis
  then have mem: "k \<in> set ks \<longleftrightarrow> present (V s) k \<and> starts_with k (namespace_prefix ns)" by simp
  have "sweep_loop R ks [] \<lparr>sweep_matched = 0, sweep_deleted = 0, sweep_batches = 0, sweep_dry_run = False\<rparr> s1 = (Inr res, s')"
    using run u x ks by (simp add: sweep_namespace_def)
  from sweep_loop_done [OF this] V1 have L: "V s' = v_unlink ks (V s)" "sweep_matched res = int (length ks)"
    "sweep_deleted res = int (length ks)" by simp_all
  show "present (V s') k \<longleftrightarrow> present (V s) k \<and> \<not> starts_with k (namespace_prefix ns)"
    unfolding L(1) present_unlink using mem by blast
  show "sweep_deleted res = sweep_matched res" using L by simp
  show "sweep_matched res = 0 \<Longrightarrow> V s' = V s" using L by (simp add: v_unlink_def)
qed

end

section \<open>What a remap does\<close>

locale remapping = routing_table R V D C T RT A + shard: redis Q W
  for R :: "'s env" and V :: "'s \<Rightarrow> view" and D :: "'s db" and C :: "'s \<Rightarrow> string \<rightharpoonup> pyval"
    and T :: "'s \<Rightarrow> string \<Rightarrow> string \<rightharpoonup> pyval" and RT :: "'s route_table" and A :: "'s \<Rightarrow> string \<rightharpoonup> string"
    and Q :: "'t env" and W :: "'t \<Rightarrow> view"
begin

lemma route_save_row:
  assumes "route_save D RT aliases ns alias memo s = (Inr u, memo', s')"
  shows "A s' ns = Some alias" and "map_of memo' ns = None" and "alias \<in> set aliases"
    and "ns' \<noteq> ns \<Longrightarrow> A s ns' = Some b \<Longrightarrow> A s' ns' = Some b"
proof -
  obtain r s1 where r: "rt_update RT s ns alias = (r, s1)" by force
  from assms r obtain w where w: "r = Inr w" and inv: "invalidate_route D ns memo s1 = (memo', s')"
    by (auto simp: route_save_def split: sum.splits)
  have row: "A s1 ns = Some alias" using law_update [of s ns "alias" w] r w by simp
  then show "A s' ns = Some alias" using invalidated_grows [OF inv] grows_row by blast
  show "map_of memo' ns = None" using inv by (auto simp: invalidate_route_def AList_map_of_delete)
  show "alias \<in> set aliases" using assms by (auto simp: route_save_def route_clean_def split: sum.splits if_splits)
  show "ns' \<noteq> ns \<Longrightarrow> A s ns' = Some b \<Longrightarrow> A s' ns' = Some b"
    using law_update_other [of ns' ns s b "alias"] r invalidated_grows [OF inv] grows_row by simp
qed

lemma on_shard_cases:
  assumes "on_shard a f w = (r, w')"
  shows "f (w a) = (r, w' a)" and "b \<noteq> a \<Longrightarrow> w' b = w b"
  using assms by (auto simp: on_shard_def)

lemma converge_done:
  assumes run: "converge Q old ns wait1 wait2 w = (Inr (a, b), w')"
  shows "starts_with k (namespace_prefix ns) \<Longrightarrow> \<not> present (W (w' old)) k"
    and "(\<And>u. wait1 u c = u c) \<Longrightarrow> (\<And>u. wait2 u c = u c) \<Longrightarrow> c \<noteq> old \<Longrightarrow> w' c = w c"
proof -
  obtain x w1 where 1: "on_shard old (sweep_namespace Q ns False) (wait1 w) = (x, w1)" by force
  obtain y w2 where 2: "on_shard old (sweep_namespace Q ns False) (wait2 w1) = (y, w2)" by force
  from run 1 2 have "y = Inr b" "w2 = w'" by (auto simp: converge_def split: sum.splits)
  with 2 have 3: "on_shard old (sweep_namespace Q ns False) (wait2 w1) = (Inr b, w')" by simp
  show "starts_with k (namespace_prefix ns) \<Longrightarrow> \<not> present (W (w' old)) k"
    using shard.sweep_done(1) [OF on_shard_cases(1) [OF 3]] by simp
  show "(\<And>u. wait1 u c = u c) \<Longrightarrow> (\<And>u. wait2 u c = u c) \<Longrightarrow> c \<noteq> old \<Longrightarrow> w' c = w c"
    using on_shard_cases(2) [OF 1] on_shard_cases(2) [OF 3] by simp
qed

lemma remap_done:
  assumes run: "remap_namespace Q D RT aliases ns alias mode False seconds wait1 wait2 memo s w = (Inr res, memo', s', w')"
    and moved: "remap_moved res"
  shows "A s' ns = Some alias" and "alias \<in> set aliases" and "map_of memo' ns = None"
    and "remap_from res \<noteq> alias"
    and "starts_with k (namespace_prefix ns) \<Longrightarrow> \<not> present (W (w' (remap_from res))) k"
    and "(\<And>u. wait1 u c = u c) \<Longrightarrow> (\<And>u. wait2 u c = u c) \<Longrightarrow> c \<noteq> remap_from res \<Longrightarrow> w' c = w c"
proof -
  obtain g s1 where g: "rt_get RT s ns = (g, s1)" by force
  from run g obtain old where old: "g = Inr (Some old)" "mode = ''drop''" "aliases \<noteq> []" "alias \<in> set aliases"
    and v: "\<exists>u. validate_namespace ns = Inr u"
    by (auto simp: remap_namespace_def split: sum.splits if_splits option.splits)
  let ?plan = "\<lparr>remap_from = old, remap_to = alias, remap_dry_run = False, remap_moved = (old \<noteq> alias),
      first_sweep = None, second_sweep = None\<rparr>"
  have body: "remap_namespace Q D RT aliases ns alias mode False seconds wait1 wait2 memo s w =
      (if old = alias then (Inr ?plan, memo, s1, w)
       else remap_live Q D RT aliases ns old alias seconds wait1 wait2 ?plan memo s1 w)"
    using v g old by (auto simp: remap_namespace_def Let_def)
  have ne: "old \<noteq> alias" using run moved unfolding body by auto
  with run body have live: "remap_live Q D RT aliases ns old alias seconds wait1 wait2 ?plan memo s1 w = (Inr res, memo', s', w')"
    by simp
  obtain p1 w1 where 1: "on_shard old (pause_queue_pump Q ns seconds) w = (p1, w1)" by force
  obtain p2 w2 where 2: "on_shard old (pause_queue_producer Q ns seconds) w1 = (p2, w2)" by force
  obtain sv m2 s2 where 3: "route_save D RT aliases ns alias memo s1 = (sv, m2, s2)" by (metis prod_cases3)
  obtain cv w3 where 4: "converge Q old ns wait1 wait2 w2 = (cv, w3)" by force
  from live 1 2 3 4 obtain u a b where parts: "sv = Inr u" "cv = Inr (a, b)" "memo' = m2" "s' = s2" "w' = w3"
    "res = ?plan\<lparr>first_sweep := Some a, second_sweep := Some b\<rparr>"
    by (auto simp: remap_live_def split: sum.splits)
  have from': "remap_from res = old" by (simp add: parts(6))
  note S = route_save_row [OF 3 [unfolded parts(1)], folded parts(3,4)]
  note K = converge_done [OF 4 [unfolded parts(2)], folded parts(5)]
  show "A s' ns = Some alias" "alias \<in> set aliases" "map_of memo' ns = None" by (rule S)+
  show "remap_from res \<noteq> alias" using ne from' by simp
  show "starts_with k (namespace_prefix ns) \<Longrightarrow> \<not> present (W (w' (remap_from res))) k"
    unfolding from' by (rule K(1))
  show "w' c = w c" if "\<And>u. wait1 u c = u c" "\<And>u. wait2 u c = u c" "c \<noteq> remap_from res"
    using K(2) [of c] on_shard_cases(2) [OF 1, of c] on_shard_cases(2) [OF 2, of c] that from' by simp
qed

text \<open>A dry run changes no store, and neither does a refusal before the pause.\<close>

lemma remap_dry:
  assumes "remap_namespace Q D RT aliases ns alias mode True seconds wait1 wait2 memo s w = (r, memo', s', w')"
  shows "W (w' b) = W (w b)" and "memo' = memo" and "A s \<subseteq>\<^sub>m A s'"
  using assms
  by (auto simp: remap_namespace_def on_shard_def Let_def map_le_refl dest!: get_row_cases(1)
      split: sum.splits if_splits option.splits prod.splits simp: grows_def shard.sweep_dry [OF surjective_pairing])

end

interpretation mem_remap: remapping mem_env mem_view mem_db mem_cache_map mem_rows_map mem_routes mem_route_map mem_env mem_view
  by unfold_locales

end
