(* ===== verification/Scheduling.thy ===== *)
theory Scheduling
  imports Redis
begin

text \<open>
  \<open>dispatch/scheduling.py\<close>: when a submitted item becomes ready. A Python float is a real or one
  of the values that are not finite, which every operation used here passes on.
\<close>

datatype pyfloat = Fin real | NonFinite

fun float_op :: "(real \<Rightarrow> real \<Rightarrow> real) \<Rightarrow> pyfloat \<Rightarrow> pyfloat \<Rightarrow> pyfloat" where
  "float_op f (Fin a) (Fin b) = Fin (f a b)"
| "float_op f _ _ = NonFinite"

fun is_finite :: "pyfloat \<Rightarrow> bool" where
  "is_finite (Fin r) = True"
| "is_finite NonFinite = False"

record spread_spec =
  window_seconds :: pyfloat
  spread_base :: pyfloat
  jitter_seconds :: pyfloat

text \<open>\<open>random.uniform(0.0, j)\<close> is \<open>u * j\<close> for the draw \<open>u\<close> of \<open>random.random()\<close>.\<close>

definition spread_resolve :: "real \<Rightarrow> spread_spec \<Rightarrow> nat \<Rightarrow> nat \<Rightarrow> pyfloat" where
  "spread_resolve u sp index n_items =
     (let step = float_op (/) (window_seconds sp) (Fin (of_nat (max 1 n_items)));
          timestamp = float_op (+) (spread_base sp) (float_op (*) (Fin (of_nat index)) step) in
      if jitter_seconds sp \<noteq> Fin 0
      then float_op (+) timestamp (float_op (*) (Fin u) (jitter_seconds sp))
      else timestamp)"

datatype ready_spec =
    ReadyNow
  | ReadyAt pyfloat
  | ReadyCall "nat \<Rightarrow> pyval \<Rightarrow> pyfloat result"
  | ReadySpread spread_spec

text \<open>\<open>u\<close> is the draw for this item. \<open>None\<close> stands for "use now".\<close>

definition resolve_ready_at :: "real \<Rightarrow> ready_spec \<Rightarrow> nat \<Rightarrow> pyval \<Rightarrow> nat option \<Rightarrow> pyfloat option result" where
  "resolve_ready_at u spec index item n_items =
     (case spec of
        ReadyNow \<Rightarrow> Inr None
      | ReadySpread sp \<Rightarrow>
          Inr (Some (spread_resolve u sp index (case n_items of None \<Rightarrow> 1 | Some n \<Rightarrow> if n = 0 then 1 else n)))
      | ReadyCall f \<Rightarrow> (case f index item of Inl e \<Rightarrow> Inl e | Inr t \<Rightarrow> Inr (Some t))
      | ReadyAt t \<Rightarrow> Inr (Some t))"

definition at_front :: "'s env \<Rightarrow> real \<Rightarrow> real option \<Rightarrow> 's \<Rightarrow> real \<times> 's" where
  "at_front R offset base s =
     (let (base, s) = (case base of None \<Rightarrow> wall R s | Some b \<Rightarrow> (b, s)) in (base - max 0 offset, s))"

definition spread :: "'s env \<Rightarrow> pyfloat \<Rightarrow> pyfloat option \<Rightarrow> pyfloat \<Rightarrow> 's \<Rightarrow> spread_spec \<times> 's" where
  "spread R window base jitter s =
     (let (base, s) = (case base of None \<Rightarrow> (let (t, s) = wall R s in (Fin t, s)) | Some b \<Rightarrow> (b, s))
      in (\<lparr>window_seconds = window, spread_base = base, jitter_seconds = jitter\<rparr>, s))"

section \<open>A spread stays in its window\<close>

lemma spread_step:
  fixes w :: real
  assumes "i < n" and "0 \<le> w"
  shows "0 \<le> of_nat i * (w / of_nat n)" and "of_nat i * (w / of_nat n) \<le> w - w / of_nat n"
proof -
  show "0 \<le> of_nat i * (w / of_nat n)" using assms by simp
  have "of_nat (Suc i) * (w / of_nat n) \<le> of_nat n * (w / of_nat n)"
    using assms by (intro mult_right_mono) simp_all
  moreover have "of_nat n * (w / of_nat n) = w" using assms(1) by simp
  ultimately show "of_nat i * (w / of_nat n) \<le> w - w / of_nat n" by (simp add: algebra_simps add_divide_distrib)
qed

lemma spread_resolve_finite:
  assumes "i < n" and "jitter_seconds sp = Fin j" and "window_seconds sp = Fin w" and "spread_base sp = Fin b"
  shows "spread_resolve u sp i n = Fin (b + of_nat i * (w / of_nat n) + u * j)"
proof -
  have "max 1 n = n" using assms(1) by simp
  then show ?thesis using assms by (simp add: spread_resolve_def Let_def)
qed

lemma spread_in_window:
  assumes "i < n" and "0 \<le> w" and "0 \<le> j" and "0 \<le> u" and "u \<le> 1"
    and "sp = \<lparr>window_seconds = Fin w, spread_base = Fin b, jitter_seconds = Fin j\<rparr>"
  obtains t where "spread_resolve u sp i n = Fin t" and "b \<le> t" and "t \<le> b + w - w / of_nat n + j"
proof (rule that)
  show "spread_resolve u sp i n = Fin (b + of_nat i * (w / of_nat n) + u * j)"
    by (rule spread_resolve_finite) (use assms in simp_all)
  have "0 \<le> u * j" "u * j \<le> j" using assms(3-5) by (simp_all add: mult_left_le_one_le)
  with spread_step [OF assms(1,2)]
  show "b \<le> b + of_nat i * (w / of_nat n) + u * j"
    and "b + of_nat i * (w / of_nat n) + u * j \<le> b + w - w / of_nat n + j" by linarith+
qed

end
