(* ===== verification/Dispatch_Task.thy ===== *)
theory Dispatch_Task
  imports Routing Scheduling Queue_System
begin

text \<open>
  \<open>dispatch/base.py\<close>: a registered consumer task. \<open>submit\<close> turns work items into jobs and admits
  them in batches; \<open>execute_job\<close> is what a worker does with a job id. The methods a subclass
  overrides are fields of a record; \<open>base_task\<close> holds the defaults.
\<close>

section \<open>Task classes\<close>

text \<open>
  \<open>tc_uid\<close> is the identity of the class object, \<open>tc_qualname\<close> its module and name.
  \<open>tc_adjust_job\<close> is what an overriding \<open>build_job\<close> does to the job after calling the base method.
  A hook may raise and may use the state.
\<close>

record 's task_class =
  tc_uid :: nat
  tc_qualname :: string
  tc_key :: string
  tc_namespace :: string
  tc_config_cls :: task_config_class
  tc_queue :: queue_class
  tc_work_item_id :: "pyval \<Rightarrow> string"
  tc_work_item_data :: "pyval \<Rightarrow> pydict"
  tc_build_payload :: "pyval \<Rightarrow> pydict \<Rightarrow> pyval"
  tc_adjust_job :: "pyval \<Rightarrow> dispatch_job \<Rightarrow> 's \<Rightarrow> dispatch_job result \<times> 's"
  tc_before_execute :: "pyval \<Rightarrow> 's \<Rightarrow> string option result \<times> 's"
  tc_execute :: "task_config \<Rightarrow> pyval \<Rightarrow> dispatch_job \<Rightarrow> 's \<Rightarrow> dispatch_outcome result \<times> 's"
  tc_should_requeue :: "task_config \<Rightarrow> dispatch_outcome \<Rightarrow> dispatch_job \<Rightarrow> bool"
  tc_on_complete :: "pyval \<Rightarrow> dispatch_outcome \<Rightarrow> dispatch_job \<Rightarrow> 's \<Rightarrow> unit result \<times> 's"

text \<open>\<open>str(x)\<close>; \<open>repr\<close> gives the text of a float, a list or a dictionary.\<close>

fun py_str :: "(pyval \<Rightarrow> string) \<Rightarrow> pyval \<Rightarrow> string" where
  "py_str repr (PStr s) = s"
| "py_str repr (PInt i) = str_of_int i"
| "py_str repr (PBool b) = (if b then ''True'' else ''False'')"
| "py_str repr PNone = ''None''"
| "py_str repr v = repr v"

definition default_work_item_id :: "(pyval \<Rightarrow> string) \<Rightarrow> pyval \<Rightarrow> string" where
  "default_work_item_id repr item =
     (case item of
        PDict d \<Rightarrow> (case map_of d ''work_item_id'' of Some v \<Rightarrow> py_str repr v | None \<Rightarrow> py_str repr item)
      | _ \<Rightarrow> py_str repr item)"

definition default_work_item_data :: "pyval \<Rightarrow> pydict" where
  "default_work_item_data item = (case item of PDict d \<Rightarrow> d | _ \<Rightarrow> [(''value'', item)])"

definition default_should_requeue :: "task_config \<Rightarrow> dispatch_outcome \<Rightarrow> dispatch_job \<Rightarrow> bool" where
  "default_should_requeue config outcome job =
     (oc_should_requeue outcome \<and> retry_count job < max_requeue_attempts config)"

definition base_task ::
  "nat \<Rightarrow> string \<Rightarrow> (pyval \<Rightarrow> string) \<Rightarrow> task_config_class \<Rightarrow> queue_class
     \<Rightarrow> (task_config \<Rightarrow> pyval \<Rightarrow> dispatch_job \<Rightarrow> 's \<Rightarrow> dispatch_outcome result \<times> 's) \<Rightarrow> 's task_class" where
  "base_task uid qualname repr cc q execute =
     \<lparr>tc_uid = uid, tc_qualname = qualname, tc_key = cc_task_key cc, tc_namespace = qc_namespace q, tc_config_cls = cc, tc_queue = q,
      tc_work_item_id = default_work_item_id repr, tc_work_item_data = default_work_item_data,
      tc_build_payload = (\<lambda>_ _. PStr []), tc_adjust_job = (\<lambda>_ job s. (Inr job, s)),
      tc_before_execute = (\<lambda>_ s. (Inr None, s)), tc_execute = execute,
      tc_should_requeue = default_should_requeue, tc_on_complete = (\<lambda>_ _ _ s. (Inr (), s))\<rparr>"

section \<open>Submitting\<close>

text \<open>\<open>overrides\<close> are the keyword arguments of \<open>submit\<close>; an explicit empty \<open>config\<close> counts.\<close>

definition apply_submit_config_overrides :: "task_config_class \<Rightarrow> task_config \<Rightarrow> pydict \<Rightarrow> task_config result" where
  "apply_submit_config_overrides cc config overrides =
     (case map_of overrides ''config'' of
        None \<Rightarrow> Inr config
      | Some v \<Rightarrow> bind_result (dict_of (py_or v (PDict [])))
                    (\<lambda>d. task_from_raw (cc_default cc) (AList.merge (task_to_raw config) d)))"

definition build_job ::
  "'s env \<Rightarrow> 's task_class \<Rightarrow> pyval \<Rightarrow> pydict \<Rightarrow> real option \<Rightarrow> task_config \<Rightarrow> 's
     \<Rightarrow> dispatch_job result \<times> 's" where
  "build_job R tc item overrides ready config s =
     (let config_json = (if map_of overrides ''config'' \<noteq> None then PJson (PDict (task_to_raw config)) else PStr []);
          (job, s) = new_job R (qc_namespace (tc_queue tc)) (tc_key tc) (tc_work_item_id tc item)
                       (tc_work_item_data tc item) (tc_build_payload tc item overrides) config_json ready s
      in tc_adjust_job tc item job s)"

fun build_jobs ::
  "'s env \<Rightarrow> 's task_class \<Rightarrow> pydict \<Rightarrow> task_config \<Rightarrow> (pyval \<times> real option) list \<Rightarrow> 's
     \<Rightarrow> dispatch_job list result \<times> 's" where
  "build_jobs R tc overrides config [] s = (Inr [], s)"
| "build_jobs R tc overrides config ((item, ready) # rest) s =
     bind_try (build_job R tc item overrides ready config) (\<lambda>job.
     bind_try (build_jobs R tc overrides config rest) (\<lambda>jobs s. (Inr (job # jobs), s))) s"

fun enqueue_outcome_of :: "enqueue_status \<Rightarrow> outcome_type" where
  "enqueue_outcome_of ENQ_ACCEPTED = ENQUEUED"
| "enqueue_outcome_of ENQ_DUPLICATE = ENQUEUE_DUPLICATE"
| "enqueue_outcome_of ENQ_CAPACITY_REJECTED = ENQUEUE_CAPACITY_REJECTED"
| "enqueue_outcome_of ENQ_DEADLINE_EXPIRED = ENQUEUE_DEADLINE_EXPIRED"
| "enqueue_outcome_of ENQ_PRODUCER_PAUSED = ENQUEUE_PRODUCER_PAUSED"
| "enqueue_outcome_of ENQ_UNAVAILABLE = ENQUEUE_UNAVAILABLE"

fun enqueue_metric_of :: "outcome_type \<Rightarrow> string" where
  "enqueue_metric_of ENQUEUED = ''enqueued''"
| "enqueue_metric_of ENQUEUE_DUPLICATE = ''enqueue_duplicate''"
| "enqueue_metric_of ENQUEUE_CAPACITY_REJECTED = ''enqueue_capacity_rejected''"
| "enqueue_metric_of ENQUEUE_DEADLINE_EXPIRED = ''enqueue_deadline_expired''"
| "enqueue_metric_of ENQUEUE_PRODUCER_PAUSED = ''enqueue_producer_paused''"
| "enqueue_metric_of ENQUEUE_UNAVAILABLE = ''enqueue_unavailable''"
| "enqueue_metric_of _ = []"

definition enqueue_outcome ::
  "'s env \<Rightarrow> 's task_class \<Rightarrow> enqueue_status \<Rightarrow> bool \<Rightarrow> 's \<Rightarrow> dispatch_outcome \<times> 's" where
  "enqueue_outcome R tc status record_unavailable s =
     (let outcome = enqueue_outcome_of status in
      (DispatchOutcome outcome,
       if status = ENQ_UNAVAILABLE \<and> record_unavailable
       then record_enqueue_outcome R (tc_namespace tc) (tc_key tc) (enqueue_metric_of outcome) 1 s else s))"

fun enqueue_outcomes ::
  "'s env \<Rightarrow> 's task_class \<Rightarrow> enqueue_status list \<Rightarrow> 's \<Rightarrow> dispatch_outcome list \<times> 's" where
  "enqueue_outcomes R tc [] s = ([], s)"
| "enqueue_outcomes R tc (st # sts) s =
     (let (o1, s) = enqueue_outcome R tc st False s; (os, s) = enqueue_outcomes R tc sts s in (o1 # os, s))"

definition record_statuses ::
  "'s env \<Rightarrow> 's task_class \<Rightarrow> enqueue_status \<Rightarrow> string \<Rightarrow> enqueue_status list \<Rightarrow> 's \<Rightarrow> 's" where
  "record_statuses R tc st name statuses s =
     (let n = count_if (\<lambda>x. x = st) statuses in
      if n \<noteq> 0 then record_enqueue_outcome R (tc_namespace tc) (tc_key tc) name (int n) s else s)"

fun submit_batches ::
  "'s env \<Rightarrow> 's task_class \<Rightarrow> pydict \<Rightarrow> task_config \<Rightarrow> queue_config \<Rightarrow> (pyval \<times> real option) list list \<Rightarrow> 's
     \<Rightarrow> dispatch_outcome list result \<times> 's" where
  "submit_batches R tc overrides config qconfig [] s = (Inr [], s)"
| "submit_batches R tc overrides config qconfig (chunk # rest) s =
     bind_try (build_jobs R tc overrides config chunk) (\<lambda>jobs s.
     (let queue_wait_ttl = resolve_queue_wait_ttl_seconds config in
      case enqueue_jobs R (qc_namespace (tc_queue tc)) jobs (uses_enqueue_dedupe config)
             (replicate (length jobs) queue_wait_ttl) (max_admitted_jobs qconfig) s of
        (Inl e, s) \<Rightarrow> (Inl e, s)
      | (Inr statuses, s) \<Rightarrow>
          (let s = record_statuses R tc ENQ_UNAVAILABLE ''enqueue_unavailable'' statuses s;
               s = record_statuses R tc ENQ_DEADLINE_EXPIRED ''enqueue_deadline_expired'' statuses s;
               (outcomes, s) = enqueue_outcomes R tc statuses s in
           case submit_batches R tc overrides config qconfig rest s of
             (Inl e, s) \<Rightarrow> (Inl e, s)
           | (Inr others, s) \<Rightarrow> (Inr (outcomes @ others), s)))) s"

fun ready_times ::
  "(nat \<Rightarrow> real) \<Rightarrow> ready_spec \<Rightarrow> nat \<Rightarrow> nat \<Rightarrow> pyval list \<Rightarrow> pyfloat option list result" where
  "ready_times draws spec n_items index [] = Inr []"
| "ready_times draws spec n_items index (item # items) =
     bind_result (resolve_ready_at (draws index) spec index item (Some n_items)) (\<lambda>t.
     bind_result (ready_times draws spec n_items (Suc index) items) (\<lambda>ts. Inr (t # ts)))"

fun finite_time :: "pyfloat option \<Rightarrow> real option" where
  "finite_time (Some (Fin t)) = Some t"
| "finite_time _ = None"

text \<open>\<open>draws\<close> are the random numbers of the items. Lists and tuples are both \<open>PList\<close>.\<close>

definition submit ::
  "'s env \<Rightarrow> 's db \<Rightarrow> 's task_class \<Rightarrow> task_config \<Rightarrow> (nat \<Rightarrow> real) \<Rightarrow> pyval \<Rightarrow> ready_spec \<Rightarrow> pydict \<Rightarrow> 's
     \<Rightarrow> dispatch_outcome list result \<times> 's" where
  "submit R D tc config draws items spec overrides s =
     (let items = (case items of PList xs \<Rightarrow> xs | _ \<Rightarrow> [items]) in
      if items = [] then (Inr [], s)
      else
        (case ready_times draws spec (length items) 0 items of
           Inl e \<Rightarrow> (Inl e, s)
         | Inr moments \<Rightarrow>
             if \<exists>t\<in>set moments. t = Some NonFinite then (Inl ValueError, s)
             else
               (case apply_submit_config_overrides (tc_config_cls tc) config overrides of
                  Inl e \<Rightarrow> (Inl e, s)
                | Inr task_config \<Rightarrow>
                    (case queue_from_db D (tc_queue tc) s of
                       (Inl e, s) \<Rightarrow> (Inl e, s)
                     | (Inr qconfig, s) \<Rightarrow>
                         submit_batches R tc overrides task_config qconfig
                           (chunks DISPATCH_LUA_BATCH_SIZE (zip items (map finite_time moments))) s))))"

section \<open>Observing\<close>

text \<open>\<open>DispatchTask.load_config\<close> and the properties over the counts of the task.\<close>

definition load_config :: "'s db \<Rightarrow> 's task_class \<Rightarrow> 's \<Rightarrow> task_config result \<times> 's" where
  "load_config D tc = task_from_db D (tc_config_cls tc)"

definition is_idle :: "'s env \<Rightarrow> 's task_class \<Rightarrow> 's \<Rightarrow> bool \<times> 's" where
  "is_idle R tc s =
     (if tc_key tc = [] then (False, s)
      else (let (pending, s) = has_pending_for_task R (qc_namespace (tc_queue tc)) (tc_key tc) s in
            if pending then (False, s)
            else (let (reserved, s) = has_reserved_for_task R (qc_namespace (tc_queue tc)) (tc_key tc) s
                  in (\<not> reserved, s))))"

definition task_pending_count :: "'s env \<Rightarrow> 's task_class \<Rightarrow> 's \<Rightarrow> int \<times> 's" where
  "task_pending_count R tc s =
     (if tc_key tc = [] then (-1, s) else pending_count_for_task R (qc_namespace (tc_queue tc)) (tc_key tc) s)"

definition task_reserved_count :: "'s env \<Rightarrow> 's task_class \<Rightarrow> 's \<Rightarrow> int \<times> 's" where
  "task_reserved_count R tc s =
     (if tc_key tc = [] then (-1, s) else reserved_count_for_task R (qc_namespace (tc_queue tc)) (tc_key tc) s)"

definition task_stats :: "'s env \<Rightarrow> 's task_class \<Rightarrow> 's \<Rightarrow> (int \<times> int \<times> (string \<times> int) list) \<times> 's" where
  "task_stats R tc s =
     (if tc_key tc = [] then ((-1, -1, []), s)
      else (let (pending, s) = task_pending_count R tc s; (reserved, s) = task_reserved_count R tc s;
                (outcomes, s) = outcomes_for_task R (qc_namespace (tc_queue tc)) (tc_key tc) s
            in ((pending, reserved, outcomes), s)))"

section \<open>Executing\<close>

text \<open>\<open>queue_for_namespace(ns) or ephemeral_queue_for_namespace(ns)\<close>, then the payload.\<close>

definition get_job_in ::
  "'s env \<Rightarrow> queue_registry \<Rightarrow> nat \<Rightarrow> string \<Rightarrow> string \<Rightarrow> 's \<Rightarrow> dispatch_job option result \<times> 's" where
  "get_job_in R reg uid ns jid s =
     (case serving_queue uid ns reg of
        Inl e \<Rightarrow> (Inl e, s)
      | Inr (q, _) \<Rightarrow> (let (job, s) = get_job R (qc_namespace q) jid s in (Inr job, s)))"

fun fetch_from ::
  "'s env \<Rightarrow> queue_registry \<Rightarrow> nat \<Rightarrow> string list \<Rightarrow> string \<Rightarrow> 's \<Rightarrow> dispatch_job option result \<times> 's" where
  "fetch_from R reg uid [] jid s = (Inr None, s)"
| "fetch_from R reg uid (ns # nss) jid s =
     (case get_job_in R reg uid ns jid s of
        (Inl e, s) \<Rightarrow> (Inl e, s)
      | (Inr (Some job), s) \<Rightarrow> (Inr (Some job), s)
      | (Inr None, s) \<Rightarrow> fetch_from R reg uid nss jid s)"

text \<open>\<open>DISPATCH_REGISTRY\<close>, and its task keys with their namespaces.\<close>

type_synonym 's task_registry = "(string \<times> 's task_class) list"

definition task_namespaces :: "'s task_registry \<Rightarrow> (string \<times> string) list" where
  "task_namespaces tasks = map (\<lambda>(tk, tc). (tk, tc_namespace tc)) tasks"

definition task_configs :: "'s task_registry \<Rightarrow> (string \<times> task_config_class) list" where
  "task_configs tasks = map (\<lambda>(tk, tc). (tk, tc_config_cls tc)) tasks"

definition fetch_job ::
  "'s env \<Rightarrow> 's route_table \<Rightarrow> queue_registry \<Rightarrow> nat \<Rightarrow> 's task_registry \<Rightarrow> string \<Rightarrow> 's
     \<Rightarrow> dispatch_job option result \<times> 's" where
  "fetch_job R RT reg uid tasks jid s =
     (let namespace = namespace_for_job_id (task_namespaces tasks) jid in
      if namespace \<noteq> [] then get_job_in R reg uid namespace jid s
      else (let (nss, s) = candidate_namespaces RT reg (task_namespaces tasks) s
            in fetch_from R reg uid (sort nss) jid s))"

text \<open>\<open>DispatchTask.discard_orphaned_job\<close>; \<open>DispatchQueue\<close> itself has no namespace.\<close>

definition discard_orphaned ::
  "'s env \<Rightarrow> queue_registry \<Rightarrow> nat \<Rightarrow> 's task_registry \<Rightarrow> string \<Rightarrow> 's \<Rightarrow> unit result \<times> 's" where
  "discard_orphaned R reg uid tasks jid s =
     (let namespace = namespace_for_job_id (task_namespaces tasks) jid in
      if namespace \<noteq> [] then
        (case serving_queue uid namespace reg of
           Inl e \<Rightarrow> (Inl e, s)
         | Inr (q, _) \<Rightarrow> (Inr (), snd (discard_orphaned_job R reg uid q jid [] [] [] EXPIRED s)))
      else (Inr (), snd (discard_orphaned_job R reg uid (base_queue_class ''DispatchQueue'' 0 []) jid [] [] [] EXPIRED s)))"

definition job_item :: "dispatch_job \<Rightarrow> pyval" where
  "job_item job = PDict (if work_item_data job \<noteq> [] then work_item_data job
                         else [(''work_item_id'', PStr (work_item_id job))])"

text \<open>The time the execution took, as the outcome says or measured.\<close>

definition outcome_elapsed :: "'s env \<Rightarrow> real \<Rightarrow> dispatch_outcome \<Rightarrow> 's \<Rightarrow> real \<times> 's" where
  "outcome_elapsed R started outcome s =
     (if 0 \<le> elapsed_seconds outcome then (elapsed_seconds outcome, s)
      else (let (t, s) = mono R s in (max 0 (t - started), s)))"

text \<open>The next attempt; \<open>None\<close> when the task does not want one.\<close>

definition try_requeue ::
  "'s env \<Rightarrow> queue_registry \<Rightarrow> nat \<Rightarrow> 's task_class \<Rightarrow> task_config \<Rightarrow> dispatch_outcome \<Rightarrow> dispatch_job \<Rightarrow> 's
     \<Rightarrow> requeue_result option \<times> 's" where
  "try_requeue R reg uid tc config outcome job s =
     (if tc_should_requeue tc config outcome job then
        (let (now, s) = wall R s;
             (res, s) = requeue R reg uid (tc_queue tc) (job\<lparr>retry_count := retry_count job + 1\<rparr>)
               (now + of_int (oc_requeue_cooldown_seconds outcome)) (resolve_queue_wait_ttl_seconds config) s
         in (Some res, s))
      else (None, s))"

text \<open>Whether the job was requeued, or what the hooks raised.\<close>

definition execute_from_job ::
  "'s env \<Rightarrow> queue_registry \<Rightarrow> nat \<Rightarrow> 's task_class \<Rightarrow> task_config \<Rightarrow> dispatch_job \<Rightarrow> 's \<Rightarrow> bool result \<times> 's" where
  "execute_from_job R reg uid tc config job s =
     (let (started, s) = mono R s; item = job_item job in
      case tc_before_execute tc item s of
        (Inl e, s) \<Rightarrow> (Inl e, s)
      | (Inr reason, s) \<Rightarrow>
        if reason \<noteq> None \<and> reason \<noteq> Some [] then
          (Inr False, record_outcome R (tc_queue tc) (tc_key tc) SKIPPED (-1) True s)
        else
          (case tc_execute tc config item job s of
             (Inl e, s) \<Rightarrow> (Inl e, s)
           | (Inr outcome, s) \<Rightarrow>
               (let (elapsed, s) = outcome_elapsed R started outcome s;
                    (result, s) = try_requeue R reg uid tc config outcome job s in
                if result = Some RQ_REQUEUED then
                  (Inr True, record_outcome R (tc_queue tc) (tc_key tc) (oc_outcome outcome) elapsed True s)
                else
                  (let s = record_outcome R (tc_queue tc) (tc_key tc)
                             (case exhausted_outcome outcome of None \<Rightarrow> oc_outcome outcome | Some x \<Rightarrow> x) elapsed True s in
                   case tc_on_complete tc item outcome job s of
                     (Inl e, s) \<Rightarrow> (Inl e, s)
                   | (Inr _, s) \<Rightarrow> (Inr False, s)))))"

text \<open>The job of a registered task: configuration, execution, and the slot freed unless it was
  requeued, whatever was raised.\<close>

definition execute_registered ::
  "'s env \<Rightarrow> 's db \<Rightarrow> queue_registry \<Rightarrow> nat \<Rightarrow> 's task_registry \<Rightarrow> 's task_class \<Rightarrow> string \<Rightarrow> dispatch_job \<Rightarrow> 's
     \<Rightarrow> unit result \<times> 's" where
  "execute_registered R D reg uid tasks tc jid job s =
     (let (started, s) = mono R s;
          failed = (\<lambda>s. let (t, s) = mono R s
                         in record_outcome R (tc_queue tc) (task_key job) ERROR (max 0 (t - started)) True s);
          (result, s) =
            (case resolve_stored_task_config D (task_configs tasks) job s of
               (None, s) \<Rightarrow> (Inr False, failed s)
             | (Some config, s) \<Rightarrow>
                 (case execute_from_job R reg uid tc config job s of
                    (Inl e, s) \<Rightarrow> (Inl e, failed s)
                  | (Inr requeued, s) \<Rightarrow> (Inr requeued, s)));
          s = (if result = Inr True then s
               else snd (finalize_job R (qc_namespace (tc_queue tc)) jid (task_key job) (work_item_id job)
                           TASK_COUNTS_TTL_SECONDS s))
      in (case result of Inl e \<Rightarrow> Inl e | Inr _ \<Rightarrow> Inr (), s))"

definition execute_job ::
  "'s env \<Rightarrow> 's db \<Rightarrow> 's route_table \<Rightarrow> queue_registry \<Rightarrow> nat \<Rightarrow> 's task_registry \<Rightarrow> string \<Rightarrow> 's \<Rightarrow> unit result \<times> 's" where
  "execute_job R D RT reg uid tasks jid s =
     (case fetch_job R RT reg uid tasks jid s of
        (Inl e, s) \<Rightarrow> (Inl e, s)
      | (Inr None, s) \<Rightarrow>
          if namespace_for_job_id (task_namespaces tasks) jid \<noteq> [] then discard_orphaned R reg uid tasks jid s
          else (Inr (), s)
      | (Inr (Some job), s) \<Rightarrow>
          (case map_of tasks (task_key job) of
             None \<Rightarrow>
               (case serving_queue uid (job_namespace job) reg of
                  Inl e \<Rightarrow> (Inl e, s)
                | Inr (q, _) \<Rightarrow>
                    (Inr (), snd (finalize_job R (qc_namespace q) jid (task_key job) (work_item_id job)
                       TASK_COUNTS_TTL_SECONDS (record_outcome R q (task_key job) ERROR (-1) True s))))
           | Some tc \<Rightarrow> execute_registered R D reg uid tasks tc jid job s))"

section \<open>One outcome per item\<close>

lemma fill_statuses_length: "length (fill_statuses ps rs) = length ps"
  by (induction ps rs rule: fill_statuses.induct) simp_all

lemma enqueue_jobs_length:
  assumes "enqueue_jobs R ns jobs dd ttls mx s = (Inr sts, s')"
  shows "length sts = length jobs"
proof (cases "jobs = []")
  case False
  have len: "length jobs = length ttls"
    using assms False by (simp add: enqueue_jobs_def split: if_splits)
  define ps where "ps = map (\<lambda>(job, ttl). prepare_job (fst (wall R s)) job ttl) (zip jobs ttls)"
  have "\<exists>rs. sts = fill_statuses ps rs"
    using assms False unfolding enqueue_jobs_def Let_def case_prod_beta ps_def
    by (simp only: if_False split: if_split_asm) (simp_all only: prod.inject sum.inject split: sum.split_asm, blast+)
  then show ?thesis using len by (auto simp: fill_statuses_length ps_def)
qed (use assms in \<open>simp add: enqueue_jobs_def\<close>)

lemma build_jobs_Cons:
  assumes "build_jobs R tc ov c ((item, ready) # chunk) s = (r, s')"
  obtains (raised) e where "build_job R tc item ov ready c s = (Inl e, s')" "r = Inl e"
  | (rest_raised) job s1 e where "build_job R tc item ov ready c s = (Inr job, s1)"
      "build_jobs R tc ov c chunk s1 = (Inl e, s')" "r = Inl e"
  | (built) job s1 jobs where "build_job R tc item ov ready c s = (Inr job, s1)"
      "build_jobs R tc ov c chunk s1 = (Inr jobs, s')" "r = Inr (job # jobs)"
proof -
  obtain b s1 where b: "build_job R tc item ov ready c s = (b, s1)" by force
  show thesis
  proof (cases b)
    case (Inl e)
    with assms b show thesis by (intro raised [of e]) auto
  next
    case job: (Inr job)
    obtain bs s2 where bs: "build_jobs R tc ov c chunk s1 = (bs, s2)" by force
    with assms b job show thesis by (cases bs) (auto intro: rest_raised built)
  qed
qed

lemma build_jobs_length: "build_jobs R tc ov c chunk s = (Inr jobs, s') \<Longrightarrow> length jobs = length chunk"
proof (induction chunk arbitrary: s jobs)
  case (Cons x chunk)
  obtain item ready where x: "x = (item, ready)" by (cases x)
  from Cons.prems [unfolded x] show ?case
    by (cases rule: build_jobs_Cons) (use Cons.IH in auto)
qed simp

lemma enqueue_outcomes_map:
  "enqueue_outcomes R tc sts s = (map (\<lambda>st. DispatchOutcome (enqueue_outcome_of st)) sts, s)"
  by (induction sts arbitrary: s) (simp_all add: Let_def case_prod_beta enqueue_outcome_def)

text \<open>One batch: its jobs, the answer of admission, and what is recorded of it.\<close>

definition record_batch :: "'s env \<Rightarrow> 's task_class \<Rightarrow> enqueue_status list \<Rightarrow> 's \<Rightarrow> 's" where
  "record_batch R tc sts s = record_statuses R tc ENQ_DEADLINE_EXPIRED ''enqueue_deadline_expired'' sts
      (record_statuses R tc ENQ_UNAVAILABLE ''enqueue_unavailable'' sts s)"

lemma submit_batch_cases:
  assumes "submit_batches R tc ov c qc (chunk # rest) s = (r, s')"
    and "build_jobs R tc ov c chunk s = (Inr jobs, s1)"
    and "enqueue_jobs R (qc_namespace (tc_queue tc)) jobs (uses_enqueue_dedupe c)
      (replicate (length jobs) (resolve_queue_wait_ttl_seconds c)) (max_admitted_jobs qc) s1 = (er, s2)"
  obtains (raised) e where "er = Inl e" "r = Inl e" "s' = s2"
  | (admitted) sts r2 where "er = Inr sts" "submit_batches R tc ov c qc rest (record_batch R tc sts s2) = (r2, s')"
      "r = (case r2 of Inl e \<Rightarrow> Inl e
            | Inr others \<Rightarrow> Inr (map (\<lambda>st. DispatchOutcome (enqueue_outcome_of st)) sts @ others))"
proof (cases er)
  case (Inl e)
  with assms show thesis by (intro raised [of e]) auto
next
  case (Inr sts)
  obtain r2 s3 where r2: "submit_batches R tc ov c qc rest (record_batch R tc sts s2) = (r2, s3)" by force
  have "(r, s') = (case r2 of Inl e \<Rightarrow> (Inl e, s3)
      | Inr others \<Rightarrow> (Inr (map (\<lambda>st. DispatchOutcome (enqueue_outcome_of st)) sts @ others), s3))"
    using assms(1) r2 by (simp add: assms(2,3) Inr Let_def enqueue_outcomes_map record_batch_def split: sum.split)
  with r2 Inr show thesis by (cases r2) (auto intro: admitted)
qed

lemma submit_batch_unbuilt:
  "build_jobs R tc ov c chunk s = (Inl e, s1) \<Longrightarrow> submit_batches R tc ov c qc (chunk # rest) s = (Inl e, s1)"
  by simp

lemma submit_batches_length:
  "submit_batches R tc ov c qc cs s = (Inr outs, s') \<Longrightarrow> length outs = length (concat cs)"
proof (induction cs arbitrary: s outs)
  case (Cons chunk rest)
  obtain jobs s1 where j: "build_jobs R tc ov c chunk s = (Inr jobs, s1)"
    using Cons.prems submit_batch_unbuilt by (cases "build_jobs R tc ov c chunk s"; cases "fst (build_jobs R tc ov c chunk s)") auto
  obtain er s2 where er: "enqueue_jobs R (qc_namespace (tc_queue tc)) jobs (uses_enqueue_dedupe c)
      (replicate (length jobs) (resolve_queue_wait_ttl_seconds c)) (max_admitted_jobs qc) s1 = (er, s2)" by force
  have jobs: "length jobs = length chunk" using build_jobs_length [OF j] .
  from Cons.prems j er show ?case
  proof (cases rule: submit_batch_cases)
    case raised
    then show ?thesis by simp
  next
    case (admitted sts r2)
    then obtain others where r2: "r2 = Inr others"
      and outs: "outs = map (\<lambda>st. DispatchOutcome (enqueue_outcome_of st)) sts @ others"
      by (cases r2) auto
    have "length sts = length chunk" using enqueue_jobs_length [OF er [unfolded admitted(1)]] jobs by simp
    with Cons.IH [OF admitted(2) [unfolded r2]] outs show ?thesis by simp
  qed
qed simp

lemma ready_times_length: "ready_times dr spec n i items = Inr ts \<Longrightarrow> length ts = length items"
  by (induction items arbitrary: i ts) (auto simp: bind_result_def split: sum.splits)

text \<open>A submit that returns ran its batches on the snapshots it took.\<close>

lemma submit_run:
  assumes "submit R D tc config draws (PList items) spec overrides s = (r, s')"
  obtains (empty) "items = []" "r = Inr []" "s' = s"
  | (refused) e where "r = Inl e" "s' = s \<or> s' = snd (queue_from_db D (tc_queue tc) s)"
  | (batches) ts c qc s1 where "ready_times draws spec (length items) 0 items = Inr ts"
      "apply_submit_config_overrides (tc_config_cls tc) config overrides = Inr c"
      "queue_from_db D (tc_queue tc) s = (Inr qc, s1)"
      "submit_batches R tc overrides c qc (chunks DISPATCH_LUA_BATCH_SIZE (zip items (map finite_time ts))) s1 = (r, s')"
proof (cases "items = []")
  case True
  with assms show thesis by (intro empty) (simp_all add: submit_def)
next
  case ne: False
  show thesis
  proof (cases "ready_times draws spec (length items) 0 items")
    case (Inl e)
    with assms ne show thesis by (intro refused [of e]) (simp_all add: submit_def)
  next
    case ts: (Inr ts)
    show thesis
    proof (cases "\<exists>t\<in>set ts. t = Some NonFinite")
      case True
      with assms ne ts show thesis by (intro refused [of ValueError]) (simp_all add: submit_def)
    next
      case fin: False
      show thesis
      proof (cases "apply_submit_config_overrides (tc_config_cls tc) config overrides")
        case (Inl e)
        with assms ne ts fin show thesis by (intro refused [of e]) (simp_all add: submit_def)
      next
        case c: (Inr c)
        obtain qr s1 where q: "queue_from_db D (tc_queue tc) s = (qr, s1)" by force
        with assms ne ts fin c show thesis
          by (cases qr) (auto simp: submit_def intro: refused batches)
      qed
    qed
  qed
qed

lemma submit_length:
  assumes "submit R D tc config draws (PList items) spec overrides s = (Inr outs, s')"
  shows "length outs = length items"
  using assms
proof (cases rule: submit_run)
  case (batches ts c qc s1)
  have "concat (chunks DISPATCH_LUA_BATCH_SIZE (zip items (map finite_time ts))) = zip items (map finite_time ts)"
    by (rule concat_chunks) (simp add: DISPATCH_LUA_BATCH_SIZE_def)
  with submit_batches_length [OF batches(4)] ready_times_length [OF batches(1)] show ?thesis by simp
qed simp_all

section \<open>Submitting and executing as steps of the queue\<close>

text \<open>
  What is asked of the methods a subclass overrides: each is a path of the step relation (it may
  itself submit, and it may do anything outside this queue), and \<open>build_job\<close> keeps the identity of
  the job.
\<close>

definition same_identity :: "dispatch_job \<Rightarrow> dispatch_job \<Rightarrow> bool" where
  "same_identity j job \<longleftrightarrow> job_id j = job_id job \<and> task_key j = task_key job \<and> job_namespace j = job_namespace job"

definition hooks_step :: "('s \<Rightarrow> 's \<Rightarrow> bool) \<Rightarrow> 's task_class \<Rightarrow> bool" where
  "hooks_step P tc \<longleftrightarrow>
     (\<forall>item job s. P s (snd (tc_adjust_job tc item job s))
        \<and> (\<forall>j. fst (tc_adjust_job tc item job s) = Inr j \<longrightarrow> same_identity j job))
     \<and> (\<forall>item s. P s (snd (tc_before_execute tc item s)))
     \<and> (\<forall>c item job s. P s (snd (tc_execute tc c item job s)))
     \<and> (\<forall>item outcome job s. P s (snd (tc_on_complete tc item outcome job s)))"

lemma hooks_stepD:
  assumes "hooks_step P tc"
  shows "tc_adjust_job tc item job s = (r, s') \<Longrightarrow> P s s' \<and> (\<forall>j. r = Inr j \<longrightarrow> same_identity j job)"
    and "tc_before_execute tc item s = (b, s') \<Longrightarrow> P s s'"
    and "tc_execute tc c item job s = (x, s') \<Longrightarrow> P s s'"
    and "tc_on_complete tc item oc job s = (u, s') \<Longrightarrow> P s s'"
  using assms unfolding hooks_step_def by (metis fst_conv snd_conv)+

lemma hooks_step_base: "(\<And>s. P s s) \<Longrightarrow> (\<And>c item job s. P s (snd (execute c item job s))) \<Longrightarrow> hooks_step P (base_task uid qualname repr cc q execute)"
  by (simp add: hooks_step_def base_task_def same_identity_def)

text \<open>
  What tasks rely on of the queue they use: calls of admission, finalize, requeue and telemetry are steps
  of a transitive relation \<open>P\<close>, reading is one, and telemetry stays in its keys. \<open>limit\<close> bounds the
  admission limits in use.
\<close>

locale queue_client = settings R V D C T
  for R :: "'s env" and V :: "'s \<Rightarrow> view" and D :: "'s db" and C :: "'s \<Rightarrow> string \<rightharpoonup> pyval"
    and T :: "'s \<Rightarrow> string \<Rightarrow> string \<rightharpoonup> pyval" +
  fixes reg :: queue_registry and owner :: "string \<Rightarrow> string" and ns :: string and limit :: int
    and P :: "'s \<Rightarrow> 's \<Rightarrow> bool"
  assumes step_trans: "P a b \<Longrightarrow> P b c \<Longrightarrow> P a c"
    and step_view: "V b = V a \<Longrightarrow> P a b"
    and step_enqueue: "enqueue_jobs R ns jobs True ttls mx a = (out, b) \<Longrightarrow> mx \<le> limit
      \<Longrightarrow> \<forall>j\<in>set jobs. owned_job owner ns j \<Longrightarrow> P a b"
    and step_finalize: "owner jid \<noteq> [] \<Longrightarrow> P a (snd (finalize_job R ns jid (owner jid) wid ttl a))"
    and step_requeue: "qc_namespace q = ns \<Longrightarrow> owned_job owner ns job
      \<Longrightarrow> P a (snd (requeue R reg uid q job ready ttl a))"
    and step_metrics: "same_at (- metrics_keys ns) (V a) (V b) \<Longrightarrow> P a b"
begin

lemma step_refl [simp]: "P a a"
  by (rule step_view) simp

lemma record_statuses_steps:
  assumes "tc_namespace tc = ns"
  shows "P s (record_statuses R tc st name sts s)"
proof -
  have "P s (record_enqueue_outcome R ns (tc_key tc) name n s)" for n
    by (rule step_metrics, rule frame_record_enqueue_outcome) simp
  with assms show ?thesis by (auto simp: record_statuses_def Let_def)
qed

lemma record_outcome_steps: "qc_namespace q = ns \<Longrightarrow> P s (record_outcome R q tk oc el fin s)"
  unfolding record_outcome_def by (rule step_metrics, rule frame_record_task_outcome) simp

lemma build_job_steps:
  assumes hooks: "hooks_step P tc" and run: "build_job R tc item ov ready c s = (r, s')"
  shows "P s s'"
    and "r = Inr job \<Longrightarrow> task_key job = tc_key tc \<and> job_id job = build_job_id (tc_key tc) (tc_work_item_id tc item)
      \<and> job_namespace job = qc_namespace (tc_queue tc)"
proof -
  let ?j = "new_job R (qc_namespace (tc_queue tc)) (tc_key tc) (tc_work_item_id tc item) (tc_work_item_data tc item)
      (tc_build_payload tc item ov)
      (if map_of ov ''config'' \<noteq> None then PJson (PDict (task_to_raw c)) else PStr []) ready s"
  have a: "tc_adjust_job tc item (fst ?j) (snd ?j) = (r, s')"
    using run by (simp add: build_job_def Let_def case_prod_beta)
  note h = hooks_stepD(1) [OF hooks a]
  have "P s (snd ?j)" by (rule step_view) (rule new_job_V)
  with h show "P s s'" by (blast intro: step_trans)
  show "r = Inr job \<Longrightarrow> task_key job = tc_key tc \<and> job_id job = build_job_id (tc_key tc) (tc_work_item_id tc item)
      \<and> job_namespace job = qc_namespace (tc_queue tc)"
    using h by (simp add: new_job_def Let_def case_prod_beta same_identity_def)
qed

lemma build_jobs_steps:
  assumes hooks: "hooks_step P tc"
    and own: "\<And>wid. owner (build_job_id (tc_key tc) wid) = tc_key tc"
    and tc: "qc_namespace (tc_queue tc) = ns" "tc_key tc \<noteq> []"
  shows "build_jobs R tc ov c chunk s = (r, s') \<Longrightarrow> P s s'
    \<and> (\<forall>jobs. r = Inr jobs \<longrightarrow> (\<forall>j\<in>set jobs. owned_job owner ns j))"
proof (induction chunk arbitrary: s r s')
  case (Cons x chunk)
  obtain item ready where x: "x = (item, ready)" by (cases x)
  from Cons.prems [unfolded x] show ?case
  proof (cases rule: build_jobs_Cons)
    case raised
    with build_job_steps(1) [OF hooks] show ?thesis by blast
  next
    case (rest_raised job s1 e)
    from build_job_steps(1) [OF hooks rest_raised(1)] Cons.IH [OF rest_raised(2)] rest_raised(3)
    show ?thesis by (auto intro: step_trans)
  next
    case (built job s1 jobs)
    from build_job_steps [OF hooks built(1)] Cons.IH [OF built(2)] built(3) own tc
    show ?thesis by (auto simp: owned_job_def intro: step_trans)
  qed
qed simp

lemma submit_batches_steps:
  assumes hooks: "hooks_step P tc"
    and tc: "tc_namespace tc = ns" "qc_namespace (tc_queue tc) = ns" "tc_key tc \<noteq> []"
    and own: "\<And>wid. owner (build_job_id (tc_key tc) wid) = tc_key tc"
    and dd: "uses_enqueue_dedupe c = True" and lim: "max_admitted_jobs qc \<le> limit"
  shows "submit_batches R tc ov c qc cs s = (r, s') \<Longrightarrow> P s s'"
proof (induction cs arbitrary: s r)
  case (Cons chunk rest)
  obtain br s1 where br: "build_jobs R tc ov c chunk s = (br, s1)" by force
  note J = build_jobs_steps [OF hooks own tc(2,3) br]
  show ?case
  proof (cases br)
    case (Inl e)
    with Cons.prems br J show ?thesis by simp
  next
    case jobs: (Inr jobs)
    note j = br [unfolded jobs]
    obtain er s2 where er: "enqueue_jobs R (qc_namespace (tc_queue tc)) jobs (uses_enqueue_dedupe c)
        (replicate (length jobs) (resolve_queue_wait_ttl_seconds c)) (max_admitted_jobs qc) s1 = (er, s2)" by force
    have "P s1 s2" by (rule step_enqueue [OF er [unfolded tc(2) dd] lim]) (use J jobs in auto)
    with J have two: "P s s2" by (blast intro: step_trans)
    from Cons.prems j er show ?thesis
    proof (cases rule: submit_batch_cases)
      case raised
      with two show ?thesis by simp
    next
      case (admitted sts r2)
      have "P s2 (record_batch R tc sts s2)"
        unfolding record_batch_def using record_statuses_steps [OF tc(1)] by (blast intro: step_trans)
      with two Cons.IH [OF admitted(2)] show ?thesis by (blast intro: step_trans)
    qed
  qed
qed simp

lemma submit_steps:
  assumes hooks: "hooks_step P tc"
    and tc: "tc_namespace tc = ns" "qc_namespace (tc_queue tc) = ns" "tc_key tc \<noteq> []"
    and own: "\<And>wid. owner (build_job_id (tc_key tc) wid) = tc_key tc"
    and dd: "\<And>c. apply_submit_config_overrides (tc_config_cls tc) config ov = Inr c \<Longrightarrow> uses_enqueue_dedupe c"
    and lim: "\<And>qc. fst (queue_from_db D (tc_queue tc) s) = Inr qc \<Longrightarrow> max_admitted_jobs qc \<le> limit"
    and run: "submit R D tc config draws (PList items) spec ov s = (r, s')"
  shows "P s s'"
  using run
proof (cases rule: submit_run)
  case (refused e)
  have "P s (snd (queue_from_db D (tc_queue tc) s))" by (rule step_view) simp
  with refused show ?thesis by auto
next
  case (batches ts c qc s1)
  have "P s s1" by (rule step_view) (use from_db_V(1) [of "tc_queue tc" s] batches(3) in simp)
  moreover have "P s1 s'"
    by (rule submit_batches_steps [OF hooks tc own _ _ batches(4)]) (use dd batches(2) lim batches(3) in simp_all)
  ultimately show ?thesis by (rule step_trans)
qed simp

end

section \<open>What a worker does with a job\<close>

text \<open>The ways \<open>execute_from_job\<close> ends.\<close>

lemma execute_from_job_run:
  assumes "execute_from_job R reg uid tc config job s = (r, s')"
  obtains (before) e started s1 where "mono R s = (started, s1)" "tc_before_execute tc (job_item job) s1 = (Inl e, s')" "r = Inl e"
  | (skipped) started s1 reason s2 where "mono R s = (started, s1)"
      "tc_before_execute tc (job_item job) s1 = (Inr reason, s2)" "r = Inr False"
      "s' = record_outcome R (tc_queue tc) (tc_key tc) SKIPPED (-1) True s2"
  | (failed) started s1 reason s2 e where "mono R s = (started, s1)"
      "tc_before_execute tc (job_item job) s1 = (Inr reason, s2)"
      "tc_execute tc config (job_item job) job s2 = (Inl e, s')" "r = Inl e"
  | (requeued) started s1 reason s2 oc s3 s4 now s5 s6 el where "mono R s = (started, s1)"
      "tc_before_execute tc (job_item job) s1 = (Inr reason, s2)"
      "tc_execute tc config (job_item job) job s2 = (Inr oc, s3)" "s4 = s3 \<or> s4 = snd (mono R s3)"
      "tc_should_requeue tc config oc job" "wall R s4 = (now, s5)"
      "requeue R reg uid (tc_queue tc) (job\<lparr>retry_count := retry_count job + 1\<rparr>)
         (now + of_int (oc_requeue_cooldown_seconds oc)) (resolve_queue_wait_ttl_seconds config) s5 = (RQ_REQUEUED, s6)"
      "s' = record_outcome R (tc_queue tc) (tc_key tc) (oc_outcome oc) el True s6" "r = Inr True"
  | (finished) started s1 reason s2 oc s3 s4 s5 out el u where "mono R s = (started, s1)"
      "tc_before_execute tc (job_item job) s1 = (Inr reason, s2)"
      "tc_execute tc config (job_item job) job s2 = (Inr oc, s3)" "s4 = s3 \<or> s4 = snd (mono R s3)"
      "s5 = s4 \<or> (\<exists>res. requeue R reg uid (tc_queue tc) (job\<lparr>retry_count := retry_count job + 1\<rparr>)
         (fst (wall R s4) + of_int (oc_requeue_cooldown_seconds oc)) (resolve_queue_wait_ttl_seconds config)
         (snd (wall R s4)) = (res, s5))"
      "tc_on_complete tc (job_item job) oc job (record_outcome R (tc_queue tc) (tc_key tc) out el True s5) = (u, s')"
      "r = (case u of Inl e \<Rightarrow> Inl e | Inr _ \<Rightarrow> Inr False)"
proof -
  obtain started s1 where 1: "mono R s = (started, s1)" by force
  obtain b s2 where 2: "tc_before_execute tc (job_item job) s1 = (b, s2)" by force
  show thesis
  proof (cases b)
    case (Inl e)
    with assms 1 2 show thesis by (intro before) (auto simp: execute_from_job_def)
  next
    case b: (Inr reason)
    show thesis
    proof (cases "reason \<noteq> None \<and> reason \<noteq> Some []")
      case True
      with assms 1 2 b show thesis by (intro skipped) (auto simp: execute_from_job_def)
    next
      case False
      then have no: "\<not> (reason \<noteq> None \<and> reason \<noteq> Some [])" .
      obtain x s3 where 3: "tc_execute tc config (job_item job) job s2 = (x, s3)" by force
      show thesis
      proof (cases x)
        case (Inl e)
        with assms 1 2 3 b no show thesis
          by (intro failed [of started s1 reason s2 e]) (auto simp: execute_from_job_def simp del: de_Morgan_conj not_None_eq)
      next
        case oc: (Inr oc)
        obtain el s4 where 4: "outcome_elapsed R started oc s3 = (el, s4)" by force
        then have s4: "s4 = s3 \<or> s4 = snd (mono R s3)"
          by (auto simp: outcome_elapsed_def Let_def case_prod_beta split: if_splits)
        obtain res s5 where 5: "try_requeue R reg uid tc config oc job s4 = (res, s5)" by force
        let ?rq = "requeue R reg uid (tc_queue tc) (job\<lparr>retry_count := retry_count job + 1\<rparr>)
            (fst (wall R s4) + of_int (oc_requeue_cooldown_seconds oc)) (resolve_queue_wait_ttl_seconds config) (snd (wall R s4))"
        have rq: "(res, s5) = (if tc_should_requeue tc config oc job then (Some (fst ?rq), snd ?rq) else (None, s4))"
          using 5 by (auto simp: try_requeue_def Let_def case_prod_beta)
        define out where "out = (case exhausted_outcome oc of None \<Rightarrow> oc_outcome oc | Some x \<Rightarrow> x)"
        have fin: "(r, s') = (if res = Some RQ_REQUEUED then
              (Inr True, record_outcome R (tc_queue tc) (tc_key tc) (oc_outcome oc) el True s5)
            else (case tc_on_complete tc (job_item job) oc job (record_outcome R (tc_queue tc) (tc_key tc) out el True s5) of
                    (Inl e, s) \<Rightarrow> (Inl e, s) | (Inr _, s) \<Rightarrow> (Inr False, s)))"
          unfolding assms [symmetric]
          by (simp add: execute_from_job_def 1 2 3 4 5 b oc out_def Let_def no del: not_None_eq de_Morgan_conj)
        show thesis
        proof (cases "res = Some RQ_REQUEUED")
          case True
          with rq have "tc_should_requeue tc config oc job" "?rq = (RQ_REQUEUED, s5)"
            by (auto simp: prod_eq_iff split: if_splits)
          with True fin show thesis
            by (intro requeued [OF 1 2 [unfolded b] 3 [unfolded oc] s4 _ prod.collapse [symmetric]]) auto
        next
          case False
          obtain u s6 where u: "tc_on_complete tc (job_item job) oc job (record_outcome R (tc_queue tc) (tc_key tc) out el True s5)
              = (u, s6)" by force
          have d: "s5 = s4 \<or> (\<exists>res. ?rq = (res, s5))" using rq by (auto simp: prod_eq_iff split: if_splits)
          have "(r, s') = (case u of Inl e \<Rightarrow> (Inl e, s6) | Inr _ \<Rightarrow> (Inr False, s6))"
            using fin False u by (simp split: sum.splits)
          then have e: "s6 = s'" "r = (case u of Inl e \<Rightarrow> Inl e | Inr _ \<Rightarrow> Inr False)" by (cases u; simp)+
          show thesis by (rule finished [OF 1 2 [unfolded b] 3 [unfolded oc] s4 d u [unfolded e(1)] e(2)])
        qed
      qed
    qed
  qed
qed

context queue_client
begin

lemma execute_from_job_steps:
  assumes hooks: "hooks_step P tc"
    and q: "qc_namespace (tc_queue tc) = ns"
    and job: "owned_job owner ns job"
    and run: "execute_from_job R reg uid tc config job s = (r, s')"
  shows "P s s'"
proof -
  have mono: "P a b" if "mono R a = (t, b)" for a b t
    by (rule step_view) (use law_mono [of a] that in simp)
  have mono': "P a b" if "b = a \<or> b = snd (mono R a)" for a b
    using that mono [of a "fst (mono R a)" b] by auto
  have wall: "P a (snd (wall R a))" for a
    by (rule step_view) simp
  have out: "P a (record_outcome R (tc_queue tc) tk oc el fin a)" for a tk oc el fin
    by (rule record_outcome_steps [OF q])
  have req: "P a b" if "requeue R reg uid (tc_queue tc) (job\<lparr>retry_count := n\<rparr>) t ttl a = (res, b)" for a b n t ttl res
    using step_requeue [OF q, of "job\<lparr>retry_count := n\<rparr>" a uid t ttl] that job by simp
  note H = hooks_stepD [OF hooks]
  from run show ?thesis
  proof (cases rule: execute_from_job_run)
    case before
    then show ?thesis using mono H(2) by (meson step_trans)
  next
    case (skipped started s1 reason s2)
    have "P s s2" using mono [OF skipped(1)] H(2) [OF skipped(2)] by (rule step_trans)
    then show ?thesis unfolding skipped(4) by (rule step_trans) (rule out)
  next
    case failed
    then show ?thesis using mono H(2,3) by (meson step_trans)
  next
    case (requeued started s1 reason s2 oc s3 s4 now s5 s6 el)
    have "P s s2" using mono [OF requeued(1)] H(2) [OF requeued(2)] by (rule step_trans)
    also have "P s2 s3" by (rule H(3) [OF requeued(3)])
    also (step_trans) have "P s3 s4" by (rule mono' [OF requeued(4)])
    also (step_trans) have "P s4 s5" using wall [of s4] requeued(6) by simp
    also (step_trans) have "P s5 s6" by (rule req [OF requeued(7)])
    also (step_trans) have "P s6 s'" unfolding requeued(8) by (rule out)
    finally (step_trans) show ?thesis .
  next
    case (finished started s1 reason s2 oc s3 s4 s5 ot el u)
    have "P s s2" using mono [OF finished(1)] H(2) [OF finished(2)] by (rule step_trans)
    also have "P s2 s3" by (rule H(3) [OF finished(3)])
    also (step_trans) have "P s3 s4" by (rule mono' [OF finished(4)])
    also (step_trans) have "P s4 s5" using finished(5)
    proof
      assume "\<exists>res. requeue R reg uid (tc_queue tc) (job\<lparr>retry_count := retry_count job + 1\<rparr>)
         (fst (wall R s4) + of_int (oc_requeue_cooldown_seconds oc)) (resolve_queue_wait_ttl_seconds config)
         (snd (wall R s4)) = (res, s5)"
      then have "P (snd (wall R s4)) s5" using req by blast
      with wall show "P s4 s5" by (rule step_trans)
    qed simp
    also (step_trans) have "P s5 (record_outcome R (tc_queue tc) (tc_key tc) ot el True s5)" by (rule out)
    also (step_trans) have "P \<dots> s'" by (rule H(4) [OF finished(6)])
    finally (step_trans) show ?thesis .
  qed
qed

end

context redis
begin

text \<open>A requeue was asked for by the policy, and the slot is given up for a pending entry.\<close>

lemma execute_from_job_requeued:
  assumes run: "execute_from_job R reg uid tc config job s = (Inr True, s')"
  shows "\<exists>oc. tc_should_requeue tc config oc job"
    and "resv (qc_namespace (tc_queue tc)) (V s') (job_id job) = None"
    and "pend (qc_namespace (tc_queue tc)) (V s') (job_id job) \<noteq> None"
    and "\<exists>t d. kv (V s') (job_key (qc_namespace (tc_queue tc)) (job_id job)) =
      Some (job_snapshot (job\<lparr>retry_count := retry_count job + 1, ready_at := t, wait_deadline_at := d\<rparr>))
      \<and> (wait_deadline_at job \<noteq> 0 \<longrightarrow> d = wait_deadline_at job)"
proof -
  let ?ns = "qc_namespace (tc_queue tc)" and ?job = "job\<lparr>retry_count := retry_count job + 1\<rparr>"
  have "(\<exists>oc. tc_should_requeue tc config oc job) \<and> resv ?ns (V s') (job_id job) = None
    \<and> pend ?ns (V s') (job_id job) \<noteq> None \<and> (\<exists>t d. kv (V s') (job_key ?ns (job_id job)) =
      Some (job_snapshot (?job\<lparr>ready_at := t, wait_deadline_at := d\<rparr>))
      \<and> (wait_deadline_at job \<noteq> 0 \<longrightarrow> d = wait_deadline_at job))"
    using run
  proof (cases rule: execute_from_job_run)
    case (requeued started s1 reason s2 oc s3 s4 now s5 s6 el)
    note D = requeue_requeued [OF requeued(7)]
    have "same_at (queue_keys ?ns) (V s6) (V s')" unfolding requeued(8) by (rule record_outcome_queue [OF refl])
    then have "pend ?ns (V s') = pend ?ns (V s6)" "resv ?ns (V s') = resv ?ns (V s6)"
      "kv (V s') (job_key ?ns (job_id job)) = kv (V s6) (job_key ?ns (job_id job))"
      by (simp_all add: same_at_def)
    moreover obtain d where "kv (V s6) (job_key ?ns (job_id job)) = Some (job_snapshot (?job\<lparr>ready_at :=
        now + of_int (oc_requeue_cooldown_seconds oc), wait_deadline_at := d\<rparr>))"
      "wait_deadline_at job \<noteq> 0 \<longrightarrow> d = wait_deadline_at job" using D(4) by auto
    ultimately show ?thesis using D(2,3) requeued(5) by auto
  qed (auto split: sum.splits)
  then show "\<exists>oc. tc_should_requeue tc config oc job" "resv ?ns (V s') (job_id job) = None"
    "pend ?ns (V s') (job_id job) \<noteq> None"
    "\<exists>t d. kv (V s') (job_key ?ns (job_id job)) =
      Some (job_snapshot (job\<lparr>retry_count := retry_count job + 1, ready_at := t, wait_deadline_at := d\<rparr>))
      \<and> (wait_deadline_at job \<noteq> 0 \<longrightarrow> d = wait_deadline_at job)" by simp_all
qed

end

section \<open>The slot of an executed job\<close>

text \<open>Without a configuration nothing is executed: the overridable methods do not matter.\<close>

lemma unconfigured_not_executed:
  assumes "fst (resolve_stored_task_config D (task_configs tasks) job (snd (mono R s))) = None"
  shows "execute_registered R D reg uid tasks (tc\<lparr>tc_before_execute := b, tc_execute := x, tc_on_complete := c\<rparr>) jid job s
    = execute_registered R D reg uid tasks tc jid job s"
  using assms by (auto simp: execute_registered_def Let_def case_prod_beta split: prod.splits)

text \<open>The run of a registered job: how it ended, and the state it was finalized in.\<close>

lemma execute_registered_run:
  assumes "execute_registered R D reg uid tasks tc jid job s = (r, s')"
  obtains (unconfigured) s1 t s2 where "resolve_stored_task_config D (task_configs tasks) job (snd (mono R s)) = (None, s1)"
      "s2 = record_outcome R (tc_queue tc) (task_key job) ERROR t True (snd (mono R s1))" "r = Inr ()"
      "s' = snd (finalize_job R (qc_namespace (tc_queue tc)) jid (task_key job) (work_item_id job) TASK_COUNTS_TTL_SECONDS s2)"
  | (raised) config s1 e s2 t s3 where
      "resolve_stored_task_config D (task_configs tasks) job (snd (mono R s)) = (Some config, s1)"
      "execute_from_job R reg uid tc config job s1 = (Inl e, s2)" "r = Inl e"
      "s3 = record_outcome R (tc_queue tc) (task_key job) ERROR t True (snd (mono R s2))"
      "s' = snd (finalize_job R (qc_namespace (tc_queue tc)) jid (task_key job) (work_item_id job) TASK_COUNTS_TTL_SECONDS s3)"
  | (requeued) config s1 where
      "resolve_stored_task_config D (task_configs tasks) job (snd (mono R s)) = (Some config, s1)"
      "execute_from_job R reg uid tc config job s1 = (Inr True, s')" "r = Inr ()"
  | (finished) config s1 s2 where
      "resolve_stored_task_config D (task_configs tasks) job (snd (mono R s)) = (Some config, s1)"
      "execute_from_job R reg uid tc config job s1 = (Inr False, s2)" "r = Inr ()"
      "s' = snd (finalize_job R (qc_namespace (tc_queue tc)) jid (task_key job) (work_item_id job) TASK_COUNTS_TTL_SECONDS s2)"
proof -
  obtain co s1 where c: "resolve_stored_task_config D (task_configs tasks) job (snd (mono R s)) = (co, s1)" by force
  show thesis
  proof (cases co)
    case None
    with assms c show thesis by (intro unconfigured) (auto simp: execute_registered_def Let_def case_prod_beta)
  next
    case (Some config)
    obtain x s2 where x: "execute_from_job R reg uid tc config job s1 = (x, s2)" by force
    consider (e) e where "x = Inl e" | (t) "x = Inr True" | (f) "x = Inr False" by (cases x) auto
    then show thesis
    proof cases
      case e
      with assms c x Some show thesis by (intro raised) (auto simp: execute_registered_def Let_def case_prod_beta)
    next
      case t
      with assms c x Some show thesis by (intro requeued [of config s1]) (auto simp: execute_registered_def Let_def case_prod_beta)
    next
      case f
      with assms c x Some show thesis by (intro finished) (auto simp: execute_registered_def Let_def case_prod_beta)
    qed
  qed
qed

context settings
begin

lemma resolve_config_V [simp]: "V (snd (resolve_stored_task_config D tasks job s)) = V s"
proof (cases "map_of tasks (task_key job)")
  case (Some cls)
  then show ?thesis
    using from_db_V(2) [of cls s] by (auto simp: resolve_stored_task_config_def case_prod_beta split: sum.split)
qed (simp add: resolve_stored_task_config_def)

end

context queue_client
begin

lemma execute_registered_steps:
  assumes hooks: "hooks_step P tc"
    and q: "qc_namespace (tc_queue tc) = ns"
    and job: "job_id job = jid" "owned_job owner ns job"
    and run: "execute_registered R D reg uid tasks tc jid job s = (r, s')"
  shows "P s s'"
proof -
  have config: "P s u" if "resolve_stored_task_config D (task_configs tasks) job (snd (mono R s)) = (x, u)" for x u
    by (rule step_view) (use resolve_config_V [of "task_configs tasks" job "snd (mono R s)"] that in simp)
  have err: "P a (record_outcome R (tc_queue tc) tk oc t True (snd (mono R a)))" for a tk oc t
  proof -
    have "P a (snd (mono R a))" by (rule step_view) simp
    then show ?thesis by (rule step_trans) (rule record_outcome_steps [OF q])
  qed
  have fin: "P a (snd (finalize_job R (qc_namespace (tc_queue tc)) jid (task_key job) (work_item_id job) TASK_COUNTS_TTL_SECONDS a))" for a
    using step_finalize [of jid a "work_item_id job" TASK_COUNTS_TTL_SECONDS] job q by (auto simp: owned_job_def)
  have ex: "P a b" if "execute_from_job R reg uid tc c job a = (x, b)" for a b c x
    by (rule execute_from_job_steps [OF hooks q job(2) that])
  from run show ?thesis
  proof (cases rule: execute_registered_run)
    case (unconfigured s1 t s2)
    have "P s s1" by (rule config [OF unconfigured(1)])
    also have "P s1 s2" unfolding unconfigured(2) by (rule err)
    also (step_trans) have "P s2 s'" unfolding unconfigured(4) by (rule fin)
    finally (step_trans) show ?thesis .
  next
    case (raised config s1 e s2 t s3)
    have "P s s1" by (rule config [OF raised(1)])
    also have "P s1 s2" by (rule ex [OF raised(2)])
    also (step_trans) have "P s2 s3" unfolding raised(4) by (rule err)
    also (step_trans) have "P s3 s'" unfolding raised(5) by (rule fin)
    finally (step_trans) show ?thesis .
  next
    case (requeued c s1)
    from config [OF requeued(1)] ex [OF requeued(2)] show ?thesis by (rule step_trans)
  next
    case (finished c s1 s2)
    have "P s s1" by (rule config [OF finished(1)])
    also have "P s1 s2" by (rule ex [OF finished(2)])
    also (step_trans) have "P s2 s'" unfolding finished(4) by (rule fin)
    finally (step_trans) show ?thesis .
  qed
qed

end

text \<open>The same with a connection that is up.\<close>

context redis_up
begin

lemma finalize_up:
  "resv ns (V (snd (finalize_job R ns jid tk wid ttl s))) jid = None"
  "kv (V (snd (finalize_job R ns jid tk wid ttl s))) (job_key ns jid) = None"
proof -
  let ?dd = "if tk \<noteq> [] \<and> wid \<noteq> [] then dedupe_key ns tk wid else []"
  let ?fin = "fin_script ns jid ?dd (if tk \<noteq> [] then reserved_count_field tk else []) (max 1 ttl) (snd (net R s))"
  have s': "snd (finalize_job R ns jid tk wid ttl s) = snd ?fin"
    by (simp add: finalize_job_def rpc_script_up case_prod_beta split: sum.split)
  show "resv ns (V (snd (finalize_job R ns jid tk wid ttl s))) jid = None"
    "kv (V (snd (finalize_job R ns jid tk wid ttl s))) (job_key ns jid) = None"
    unfolding s' by (simp_all add: finalize_script_sets [OF finalize_job_dedupe])
qed

text \<open>
  Whatever the overridable methods do and raise, the slot of the job is free when the worker is
  done with it; either the record is gone, or the job was requeued as the policy asked.
\<close>

lemma executed_slot_free:
  assumes run: "execute_registered R D reg uid tasks tc jid job s = (r, s')" and jid: "job_id job = jid"
  shows "resv (qc_namespace (tc_queue tc)) (V s') jid = None"
    and "kv (V s') (job_key (qc_namespace (tc_queue tc)) jid) = None
      \<or> r = Inr () \<and> pend (qc_namespace (tc_queue tc)) (V s') jid \<noteq> None
        \<and> (\<exists>config oc. tc_should_requeue tc config oc job)
        \<and> (\<exists>t d. kv (V s') (job_key (qc_namespace (tc_queue tc)) jid) =
             Some (job_snapshot (job\<lparr>retry_count := retry_count job + 1, ready_at := t, wait_deadline_at := d\<rparr>))
             \<and> (wait_deadline_at job \<noteq> 0 \<longrightarrow> d = wait_deadline_at job))"
proof -
  let ?ns = "qc_namespace (tc_queue tc)"
  have "resv ?ns (V s') jid = None \<and> (kv (V s') (job_key ?ns jid) = None
      \<or> r = Inr () \<and> pend ?ns (V s') jid \<noteq> None \<and> (\<exists>config oc. tc_should_requeue tc config oc job)
        \<and> (\<exists>t d. kv (V s') (job_key ?ns jid) =
             Some (job_snapshot (job\<lparr>retry_count := retry_count job + 1, ready_at := t, wait_deadline_at := d\<rparr>))
             \<and> (wait_deadline_at job \<noteq> 0 \<longrightarrow> d = wait_deadline_at job)))"
    using run
  proof (cases rule: execute_registered_run)
    case (requeued config s1)
    from execute_from_job_requeued [OF requeued(2), unfolded jid] requeued(3) show ?thesis by blast
  qed (simp_all add: finalize_up)
  then show "resv ?ns (V s') jid = None"
    "kv (V s') (job_key ?ns jid) = None
      \<or> r = Inr () \<and> pend ?ns (V s') jid \<noteq> None \<and> (\<exists>config oc. tc_should_requeue tc config oc job)
        \<and> (\<exists>t d. kv (V s') (job_key ?ns jid) =
             Some (job_snapshot (job\<lparr>retry_count := retry_count job + 1, ready_at := t, wait_deadline_at := d\<rparr>))
             \<and> (wait_deadline_at job \<noteq> 0 \<longrightarrow> d = wait_deadline_at job))" by blast+
qed

end

end
