(* ===== verification/Registry.thy ===== *)
theory Registry
  imports Dispatch_Task
begin

text \<open>
  \<open>dispatch/registry.py\<close> and \<open>dispatch/signals.py\<close>: registration of task classes, and the handler that
  frees the slot of a job whose worker was killed. \<open>dispatch_execute_job\<close>, the Celery task, is
  \<open>execute_job\<close>.
\<close>

section \<open>Registration\<close>

definition bind_identity :: "string \<Rightarrow> string \<Rightarrow> 's task_class \<Rightarrow> 's task_class" where
  "bind_identity ns tk cls =
     cls\<lparr>tc_namespace := ns, tc_key := tk,
         tc_config_cls := (tc_config_cls cls)\<lparr>cc_task_key := tk, cc_queue_namespace := ns\<rparr>\<rparr>"

definition registration_metadata :: "'s task_class \<Rightarrow> string \<Rightarrow> string \<Rightarrow> pydict \<Rightarrow> pydict" where
  "registration_metadata cls ns tk metadata =
     AList.merge [(''task_key'', PStr tk), (''namespace'', PStr ns), (''class'', PStr (tc_qualname cls))] metadata"

definition register_dispatch_task ::
  "'s env \<Rightarrow> queue_registry \<Rightarrow> task_config_class option \<Rightarrow> pydict \<Rightarrow> 's task_class \<Rightarrow> 's task_registry \<Rightarrow> 's
     \<Rightarrow> ('s task_class \<times> 's task_registry) result \<times> 's" where
  "register_dispatch_task R reg config_cls metadata cls tasks s =
     (let cls = (case config_cls of None \<Rightarrow> cls | Some cc \<Rightarrow> cls\<lparr>tc_config_cls := cc\<rparr>);
          namespace = qc_namespace (tc_queue cls);
          tk = cc_task_key (tc_config_cls cls) in
      if namespace = [] then (Inl ValueError, s)
      else if tk = [] then (Inl ValueError, s)
      else if \<exists>existing. map_of tasks tk = Some existing \<and> tc_uid existing \<noteq> tc_uid cls then (Inl ValueError, s)
      else
        (let cls = bind_identity namespace tk cls;
             tasks = AList.update tk cls tasks
         in (Inr (cls, tasks),
             register_task_metadata R reg (task_namespaces tasks) tk (registration_metadata cls namespace tk metadata) s)))"

section \<open>Lost workers\<close>

datatype task_failure = WorkerLost | HardTimeLimit | SoftTimeLimit | OtherFailure

definition worker_gone :: "task_failure \<Rightarrow> bool" where
  "worker_gone failure \<longleftrightarrow> failure = WorkerLost \<or> failure = HardTimeLimit"

definition drop_reserved ::
  "'s env \<Rightarrow> queue_registry \<Rightarrow> nat \<Rightarrow> string \<Rightarrow> dispatch_job \<Rightarrow> 's \<Rightarrow> 's" where
  "drop_reserved R reg uid jid job s =
     (let (now, s) = wall R s;
          s = record_queue_event R (job_namespace job) ''celery_failure'' 1 now s in
      case serving_queue uid (job_namespace job) reg of
        Inl _ \<Rightarrow> s
      | Inr (q, _) \<Rightarrow>
          snd (finalize_job R (qc_namespace q) jid (task_key job) (work_item_id job) TASK_COUNTS_TTL_SECONDS
                 (record_outcome R q (task_key job) ERROR (-1) True s)))"

text \<open>\<open>args\<close> are the arguments of the Celery task. The handler never raises.\<close>

definition dispatch_failure_handler ::
  "'s env \<Rightarrow> 's route_table \<Rightarrow> queue_registry \<Rightarrow> nat \<Rightarrow> 's task_registry \<Rightarrow> task_failure \<Rightarrow> string list \<Rightarrow> 's \<Rightarrow> 's" where
  "dispatch_failure_handler R RT reg uid tasks failure args s =
     (if \<not> worker_gone failure then s
      else (let jid = (case args of [] \<Rightarrow> [] | a # _ \<Rightarrow> a) in
            if jid = [] then s
            else (case fetch_job R RT reg uid tasks jid s of
                    (Inr (Some job), s) \<Rightarrow> drop_reserved R reg uid jid job s
                  | (_, s) \<Rightarrow> s)))"

section \<open>The registry is consistent\<close>

text \<open>
  What the rest of the package relies on: a class is registered under its own key, its queue and
  its configuration name the same namespace and key, and keys are unique.
\<close>

definition task_ok :: "string \<Rightarrow> 's task_class \<Rightarrow> bool" where
  "task_ok tk tc \<longleftrightarrow> tk \<noteq> [] \<and> tc_key tc = tk \<and> cc_task_key (tc_config_cls tc) = tk
     \<and> tc_namespace tc \<noteq> [] \<and> tc_namespace tc = qc_namespace (tc_queue tc)
     \<and> cc_queue_namespace (tc_config_cls tc) = tc_namespace tc"

definition registry_ok :: "'s task_registry \<Rightarrow> bool" where
  "registry_ok tasks \<longleftrightarrow> distinct (map fst tasks) \<and> (\<forall>(tk, tc)\<in>set tasks. task_ok tk tc)"

lemma registry_ok_update:
  assumes "registry_ok tasks" and "task_ok tk tc"
  shows "registry_ok (AList.update tk tc tasks)"
proof -
  have d: "distinct (map fst (AList.update tk tc tasks))" using assms(1) by (simp add: registry_ok_def distinct_update)
  have "task_ok k c" if "(k, c) \<in> set (AList.update tk tc tasks)" for k c
  proof -
    from d that have "map_of (AList.update tk tc tasks) k = Some c" by simp
    then have "k = tk \<and> c = tc \<or> map_of tasks k = Some c" by (auto simp: AList_map_of_update split: if_splits)
    with assms show ?thesis by (auto simp: registry_ok_def dest: map_of_SomeD)
  qed
  with d show ?thesis by (auto simp: registry_ok_def)
qed

lemma register_run:
  assumes "register_dispatch_task R reg config_cls metadata cls tasks s = (Inr (cls', tasks'), s')"
  obtains tk where "task_ok tk cls'" "tasks' = AList.update tk cls' tasks" "tc_uid cls' = tc_uid cls"
      "\<forall>existing. map_of tasks tk = Some existing \<longrightarrow> tc_uid existing = tc_uid cls"
proof -
  define c where "c = (case config_cls of None \<Rightarrow> cls | Some cc \<Rightarrow> cls\<lparr>tc_config_cls := cc\<rparr>)"
  have u: "tc_uid c = tc_uid cls" by (simp add: c_def split: option.split)
  let ?ns = "qc_namespace (tc_queue c)" and ?tk = "cc_task_key (tc_config_cls c)"
  have d: "register_dispatch_task R reg config_cls metadata cls tasks s =
     (if ?ns = [] then (Inl ValueError, s) else if ?tk = [] then (Inl ValueError, s)
      else if \<exists>existing. map_of tasks ?tk = Some existing \<and> tc_uid existing \<noteq> tc_uid c then (Inl ValueError, s)
      else (Inr (bind_identity ?ns ?tk c, AList.update ?tk (bind_identity ?ns ?tk c) tasks),
            register_task_metadata R reg (task_namespaces (AList.update ?tk (bind_identity ?ns ?tk c) tasks)) ?tk
              (registration_metadata (bind_identity ?ns ?tk c) ?ns ?tk metadata) s))"
    unfolding register_dispatch_task_def c_def [symmetric] Let_def by (rule refl)
  have ne: "?ns \<noteq> []" "?tk \<noteq> []" and ex: "\<not> (\<exists>existing. map_of tasks ?tk = Some existing \<and> tc_uid existing \<noteq> tc_uid c)"
    using assms unfolding d by (simp_all only: split: if_split_asm) simp_all
  with assms have "Inr (bind_identity ?ns ?tk c, AList.update ?tk (bind_identity ?ns ?tk c) tasks) = (Inr (cls', tasks') :: ('a task_class \<times> 'a task_registry) result)"
    unfolding d by (simp only: if_False prod.inject)
  then have cls': "cls' = bind_identity ?ns ?tk c" and tasks': "tasks' = AList.update ?tk cls' tasks" by auto
  show thesis
  proof (rule that)
    show "task_ok ?tk cls'" using ne by (simp add: cls' task_ok_def bind_identity_def)
    show "tasks' = AList.update ?tk cls' tasks" by (rule tasks')
    show "tc_uid cls' = tc_uid cls" by (simp add: cls' bind_identity_def u)
    show "\<forall>existing. map_of tasks ?tk = Some existing \<longrightarrow> tc_uid existing = tc_uid cls" using ex u by metis
  qed
qed

text \<open>Registration keeps the registry consistent and never hands a key to another class.\<close>

lemma register_keeps_ok:
  assumes "register_dispatch_task R reg config_cls metadata cls tasks s = (Inr (cls', tasks'), s')" and "registry_ok tasks"
  shows "registry_ok tasks'"
    and "map_of tasks tk = Some owner \<Longrightarrow> \<exists>owner'. map_of tasks' tk = Some owner' \<and> tc_uid owner' = tc_uid owner"
proof -
  obtain k where k: "task_ok k cls'" "tasks' = AList.update k cls' tasks" "tc_uid cls' = tc_uid cls"
    "\<forall>existing. map_of tasks k = Some existing \<longrightarrow> tc_uid existing = tc_uid cls"
    using assms(1) by (rule register_run) (rule that)
  show "registry_ok tasks'" unfolding k(2) by (rule registry_ok_update [OF assms(2) k(1)])
  show "map_of tasks tk = Some owner \<Longrightarrow> \<exists>owner'. map_of tasks' tk = Some owner' \<and> tc_uid owner' = tc_uid owner"
    unfolding k(2) AList_map_of_update using k(3,4) by (metis fun_upd_apply)
qed

lemma registry_task: "registry_ok tasks \<Longrightarrow> map_of tasks tk = Some tc \<Longrightarrow> task_ok tk tc"
  by (auto simp: registry_ok_def dest: map_of_SomeD)

section \<open>Finding the queue of a job\<close>

lemma task_namespaces_simps [simp]:
  "map fst (task_namespaces tasks) = map fst tasks"
  "map_of (task_namespaces tasks) tk = map_option tc_namespace (map_of tasks tk)"
  by (simp add: task_namespaces_def case_prod_beta comp_def) (induction tasks, auto simp: task_namespaces_def)

text \<open>With keys that hold no separator, a job id leads to the namespace of its task.\<close>

lemma namespace_of_job:
  assumes "registry_ok tasks" and "map_of tasks tk = Some tc" and "\<forall>k\<in>fst ` set tasks. CHR '':'' \<notin> set k"
  shows "namespace_for_job_id (task_namespaces tasks) (build_job_id tk wid) = tc_namespace tc"
proof -
  have "tk \<in> set (map fst tasks)" using assms(2) by (auto dest!: map_of_SomeD intro: rev_image_eqI)
  then have "resolve_task_key_from_job_id (build_job_id tk wid) (map fst tasks) = tk"
    using assms(3) by (intro resolve_build_job_id) auto
  moreover have "tk \<noteq> []" using registry_task [OF assms(1,2)] by (simp add: task_ok_def)
  ultimately show ?thesis using assms(2) by (simp add: namespace_for_job_id_def)
qed

context redis_up
begin

lemma get_job_up:
  assumes "kv (V s) (job_key ns jid) = Some (job_snapshot job)" and "decode_job (job_snapshot job) = Inr job"
  shows "get_job R ns jid s = (Some job, snd (net R s))"
  using assms by (simp add: get_job_def rread_up job_snapshot_def)

text \<open>A stored job of a registered queue is found.\<close>

lemma fetch_stored_job:
  assumes ns: "namespace_for_job_id (task_namespaces tasks) jid = ns" "ns \<noteq> []"
    and q: "map_of reg ns = Some q" "qc_namespace q = ns"
    and job: "kv (V s) (job_key ns jid) = Some (job_snapshot job)" "decode_job (job_snapshot job) = Inr job"
  shows "fetch_job R RT reg uid tasks jid s = (Inr (Some job), snd (net R s))"
  using ns q get_job_up [OF job]
  by (simp add: fetch_job_def get_job_in_def serving_queue_def queue_for_namespace_def)

lemma execute_stored_job:
  assumes ns: "namespace_for_job_id (task_namespaces tasks) jid = ns" "ns \<noteq> []"
    and q: "map_of reg ns = Some q" "qc_namespace q = ns"
    and job: "kv (V s) (job_key ns jid) = Some (job_snapshot job)" "decode_job (job_snapshot job) = Inr job"
    and tc: "map_of tasks (task_key job) = Some tc"
  shows "execute_job R D RT reg uid tasks jid s = execute_registered R D reg uid tasks tc jid job (snd (net R s))"
  using fetch_stored_job [OF ns q job] tc by (simp add: execute_job_def)

text \<open>A job whose worker was killed loses its slot and its record.\<close>

lemma failure_frees_slot:
  assumes ns: "namespace_for_job_id (task_namespaces tasks) jid = ns" "ns \<noteq> []"
    and q: "map_of reg ns = Some q" "qc_namespace q = ns"
    and job: "kv (V s) (job_key ns jid) = Some (job_snapshot job)" "decode_job (job_snapshot job) = Inr job"
      "job_namespace job = ns"
    and fail: "worker_gone failure" "jid \<noteq> []"
    and run: "dispatch_failure_handler R RT reg uid tasks failure (jid # args) s = s'"
  shows "resv ns (V s') jid = None" and "kv (V s') (job_key ns jid) = None"
  using run fetch_stored_job [OF ns q job(1,2)] ns q job(3) fail
  by (auto simp: dispatch_failure_handler_def drop_reserved_def Let_def case_prod_beta serving_queue_def
      queue_for_namespace_def finalize_up)

end

end
