(* ===== verification/Settings_Models.thy ===== *)
theory Settings_Models
  imports Registry
begin

text \<open>
  The persisted settings of a task: \<open>models.DispatchTaskSettings\<close> and
  \<open>config.DispatchTaskConfig.save_to_db\<close>. The row of a queue is in theory App. The foreign key of a
  task row is the namespace of its queue row, and it matters in \<open>clean\<close> only.
\<close>

definition task_settings_clean :: "'s task_registry \<Rightarrow> string \<Rightarrow> string \<Rightarrow> pyval \<Rightarrow> unit result" where
  "task_settings_clean tasks queue_namespace tk config =
     (case map_of tasks tk of
        Some tc \<Rightarrow> if queue_namespace \<noteq> tc_namespace tc then Inl ValidationError
                   else task_validate_raw (cc_default (tc_config_cls tc)) config
      | None \<Rightarrow> (case config of PDict _ \<Rightarrow> Inr () | _ \<Rightarrow> Inl ValidationError))"

definition task_settings_save ::
  "'s db \<Rightarrow> 's task_registry \<Rightarrow> string \<Rightarrow> string \<Rightarrow> pyval \<Rightarrow> 's \<Rightarrow> unit result \<times> 's" where
  "task_settings_save D tasks queue_namespace tk config s =
     (case task_settings_clean tasks queue_namespace tk config of
        Inl e \<Rightarrow> (Inl e, s)
      | Inr _ \<Rightarrow>
          (case row_write D s ''task'' tk config of
             (Inl e, s) \<Rightarrow> (Inl e, s)
           | (Inr _, s) \<Rightarrow> (Inr (), settings_invalidate D ''task'' tk s)))"

text \<open>\<open>DispatchQueueSettings.objects.get_or_create(namespace, defaults={"config": {}})\<close>.\<close>

definition ensure_queue_row :: "'s db \<Rightarrow> queue_registry \<Rightarrow> string \<Rightarrow> 's \<Rightarrow> unit result \<times> 's" where
  "ensure_queue_row D reg ns s =
     (case row_config D s ''queue'' ns of
        (Inl e, s) \<Rightarrow> (Inl e, s)
      | (Inr (Some _), s) \<Rightarrow> (Inr (), s)
      | (Inr None, s) \<Rightarrow> queue_settings_save D reg ns (PDict []) s)"

text \<open>The row is created or rewritten; both go through \<open>save\<close>.\<close>

definition task_save_to_db ::
  "'s db \<Rightarrow> queue_registry \<Rightarrow> 's task_registry \<Rightarrow> task_config_class \<Rightarrow> task_config \<Rightarrow> 's \<Rightarrow> unit result \<times> 's" where
  "task_save_to_db D reg tasks cc c s =
     (if cc_queue_namespace cc = [] \<or> cc_task_key cc = [] then (Inl ValueError, s)
      else
        (let raw = PDict (task_to_raw c) in
         case ensure_queue_row D reg (cc_queue_namespace cc) s of
           (Inl e, s) \<Rightarrow> (Inl e, s)
         | (Inr _, s) \<Rightarrow>
             (case row_config D s ''task'' (cc_task_key cc) of
                (Inl e, s) \<Rightarrow> (Inl e, s)
              | (Inr _, s) \<Rightarrow> task_settings_save D tasks (cc_queue_namespace cc) (cc_task_key cc) raw s)))"

section \<open>What is saved is loaded\<close>

text \<open>A valid configuration passes the validation of its own class, whatever the defaults are.\<close>

lemma task_validate_own:
  assumes "1 \<le> queue_wait_ttl_seconds c" and "1 \<le> execution_timeout_seconds c" and "0 \<le> max_requeue_attempts c"
  shows "task_validate_raw dflt (PDict (task_to_raw c)) = Inr ()"
proof -
  have "validate_raw_keys task_config_fields (task_from_raw dflt) (PDict (task_to_raw c)) = Inr c"
    by (simp add: validate_raw_keys_Inr task_raw_roundtrip) (simp add: task_to_raw_def task_config_fields_def)
  moreover have "validate_positive [queue_wait_ttl_seconds c, execution_timeout_seconds c] = Inr ()"
    using assms by (simp add: validate_positive_iff)
  ultimately show ?thesis using assms(3) by (simp add: task_validate_raw_def)
qed

context settings
begin

lemma task_settings_save_coherent:
  assumes "task_settings_save D tasks ns tk config s = (Inr u, s')"
    and "\<And>t. fst (cache_delete D t (settings_cache_key ''task'' tk)) = Inr ()"
  shows "T s' ''task'' tk = Some config \<and> coherent ''task'' tk s'"
proof -
  obtain r s1 where r: "row_write D s ''task'' tk config = (r, s1)" by force
  with assms(1) obtain w where w: "r = Inr w" and s': "s' = settings_invalidate D ''task'' tk s1"
    by (auto simp: task_settings_save_def split: sum.splits)
  have T1: "T s1 ''task'' tk = Some config" using law_write [of s "''task''" tk config] r w by simp
  have "C s' (settings_cache_key ''task'' tk) = None"
    using law_cache_delete_ok [OF assms(2), of s1] s' by (simp add: settings_invalidate_def)
  moreover have "T s' = T s1" using s' by (simp add: settings_invalidate_def)
  ultimately show ?thesis using T1 by (simp add: coherent_def)
qed

lemma saved_task_config_loaded:
  assumes save: "task_save_to_db D reg tasks cc c s = (Inr u, s1)"
    and cache: "\<And>t. fst (cache_delete D t (settings_cache_key ''task'' (cc_task_key cc))) = Inr ()"
    and load: "task_from_db D cc s1 = (Inr c', s2)"
  shows "c' = c"
proof -
  obtain q s3 where q: "ensure_queue_row D reg (cc_queue_namespace cc) s = (q, s3)" by force
  obtain r s4 where r: "row_config D s3 ''task'' (cc_task_key cc) = (r, s4)" by force
  from save q r have ne: "cc_task_key cc \<noteq> []" and sv: "task_settings_save D tasks (cc_queue_namespace cc) (cc_task_key cc)
      (PDict (task_to_raw c)) s4 = (Inr u, s1)"
    by (auto simp: task_save_to_db_def Let_def split: if_splits sum.splits)
  note co = task_settings_save_coherent [OF sv cache]
  obtain v s5 where v: "get_task D (cc_task_key cc) s1 = (v, s5)" by force
  with load ne obtain x where x: "v = Inr x" and c': "bind_result (raw_items x) (task_from_raw (cc_default cc)) = Inr c'"
    by (auto simp: task_from_db_def split: sum.splits)
  have "x = PDict (task_to_raw c)"
    using get_raw_coherent [of "''task''" "cc_task_key cc" s1 x s5] co v x by (simp add: get_task_def)
  with c' show ?thesis by (simp add: raw_items_def task_raw_roundtrip)
qed

end

end
