(* ===== verification/Pump_System.thy ===== *)
theory Pump_System
  imports Queue_System Pump
begin

text \<open>
  The tick of \<open>dispatch/pump.py\<close> as a path of the queue's step relation: cleanup, hydration,
  reservation, publication and the requeue after a failed publication are steps of the queue, and
  everything between them leaves the queue alone. A job that is discarded without a record may be
  counted under the wrong task, so the path is one of \<open>drift_step\<close>.
\<close>

context redis
begin

section \<open>The reaper\<close>

lemma discard_orphans_steps:
  assumes reg: "\<forall>(k, p)\<in>set reg. qc_namespace p = k" and q: "qc_namespace q = ns" "ns \<noteq> []"
  shows "tick_steps R V reg owner ns config s (snd (discard_orphans R reg uid q registered jids s))"
proof (induction jids arbitrary: s)
  case (Cons jid jids)
  let ?tk = "resolve_task_key_from_job_id jid registered"
  let ?d = "discard_orphaned_job R reg uid q jid ?tk ns (work_item_id_from_job_id jid ?tk) EXPIRED s"
  have "tick_steps R V reg owner ns config s (snd ?d)" by (rule tick_discard [OF reg q(2)])
  moreover have "tick_steps R V reg owner ns config (snd ?d) (snd (discard_orphans R reg uid q registered jids (snd ?d)))"
    by (rule Cons.IH)
  ultimately show ?case using q(1) by (simp add: Let_def case_prod_beta)
qed simp

lemma reap_page_steps:
  assumes reg: "\<forall>(k, p)\<in>set reg. qc_namespace p = k" and q: "qc_namespace q = ns" "ns \<noteq> []"
  shows "tick_steps R V reg owner ns config s (snd (reap_page R reg uid q registered zkey cursor room s))"
proof -
  let ?S = "tick_steps R V reg owner ns config"
  have fin: "?S s (snd (discard_orphans R reg uid q registered jids t))" if "?S s t" for jids t
    using that by (rule rtranclp_trans) (rule discard_orphans_steps [OF reg q])
  show ?thesis
    unfolding reap_page_def case_prod_beta Let_def
  proof (rule bind_try_keeps [where P = "?S s"])
    show "?S s (snd (rread R (\<lambda>s. r_zscan R s zkey cursor 100) s))" by (rule tick_read) simp
    fix x t assume t: "?S s t"
    show "?S s (snd (bind_try (if take (nat (max 0 room)) (snd x) = [] then \<lambda>s. (Inr [], s)
        else rread R (\<lambda>s. map (\<lambda>jid. (jid, r_get R s (job_key (qc_namespace q) jid))) (take (nat (max 0 room)) (snd x))))
        (\<lambda>payloads s. (Inr (fst x, int (length (take (nat (max 0 room)) (snd x))),
           fst (discard_orphans R reg uid q registered (map fst (filter (\<lambda>p. case snd p of None \<Rightarrow> True | Some v \<Rightarrow> \<not> py_truthy v) payloads)) s)),
           snd (discard_orphans R reg uid q registered (map fst (filter (\<lambda>p. case snd p of None \<Rightarrow> True | Some v \<Rightarrow> \<not> py_truthy v) payloads)) s))) t))"
      by (rule bind_try_keeps [where P = "?S s"]) (use t fin in \<open>auto intro: tick_read\<close>)
  qed
qed

lemma reap_cursor_steps:
  assumes "zkey = pending_key ns \<or> zkey = reserved_key ns"
  shows "tick_steps R V reg owner ns config s (write_reap_cursor R zkey c s)"
    and "tick_steps R V reg owner ns config s (clear_reap_cursor R zkey s)"
proof -
  have "reap_cursor_key zkey \<notin> quiet_keys ns" using assms by auto
  then show "tick_steps R V reg owner ns config s (write_reap_cursor R zkey c s)"
    "tick_steps R V reg owner ns config s (clear_reap_cursor R zkey s)"
    unfolding write_reap_cursor_def clear_reap_cursor_def rwrite_def
    by (auto intro!: tick_quiet frame_rpc simp: frame_simps)
qed

lemma reap_steps:
  assumes reg: "\<forall>(k, p)\<in>set reg. qc_namespace p = k" and q: "qc_namespace q = ns" "ns \<noteq> []"
    and run: "reap_orphaned_queue_jobs fuel R reg uid q limit deadline s = Some (n, s')"
  shows "tick_steps R V reg owner ns config s s'"
  by (rule reap_path [where P = "tick_steps R V reg owner ns config", OF rtranclp_trans _ _ _ _ q(1) run])
     (simp_all add: tick_view reap_page_steps [OF reg q] reap_cursor_steps)

section \<open>Hydration\<close>

lemma drop_stale_steps:
  assumes reg: "\<forall>(k, p)\<in>set reg. qc_namespace p = k" and q: "qc_namespace q = ns" "ns \<noteq> []"
  shows "tick_steps R V reg owner ns config s (snd (drop_stale R reg uid q jobs now jids s))
    \<and> set (fst (fst (drop_stale R reg uid q jobs now jids s))) \<subseteq> snd ` set jobs"
proof (induction jids arbitrary: s)
  case (Cons jid jids)
  let ?S = "tick_steps R V reg owner ns config"
  note IH = Cons.IH
  have gone: "?S s (snd (drop_stale R reg uid q jobs now jids (snd (discard_orphaned_job R reg uid q jid tk ns [] EXPIRED s))))" for tk
    using IH [THEN conjunct1] by (rule rtranclp_trans [OF tick_discard [OF reg q(2)]])
  show ?case
  proof (cases "map_of jobs jid")
    case None
    then show ?thesis using IH gone q(1) by (simp add: Let_def case_prod_beta)
  next
    case (Some job)
    then have "job \<in> snd ` set jobs" by (auto dest!: map_of_SomeD intro: rev_image_eqI)
    with Some show ?thesis using IH gone q(1) by (simp add: Let_def case_prod_beta)
  qed
qed simp

end

context settings
begin

lemma hydrate_steps:
  assumes reg: "\<forall>(k, p)\<in>set reg. qc_namespace p = k" and q: "qc_namespace q = ns" "ns \<noteq> []" and recs: "records_owned owner ns (V s)"
    and run: "hydrate_and_drop_stale R reg uid q jids budget s = ((jobs, missing), s')"
  shows "tick_steps R V reg owner ns config s s'" and "\<forall>job\<in>set jobs. owned_job owner ns job"
proof -
  let ?S = "tick_steps R V reg owner ns config"
  obtain found s1 where g: "get_jobs R ns jids s = (found, s1)" by force
  obtain now s2 where w: "wall R s1 = (now, s2)" by force
  have S2: "?S s s2" by (rule tick_view) (use get_jobs_V [of ns jids s] law_wall [of s1] g w in simp)
  have ok: "\<forall>(jid, job)\<in>set found. owned_job owner ns job"
    using get_jobs_mem [OF g] recs unfolding records_owned_def record_owned_def by blast
  let ?d = "drop_stale R reg uid q found now jids s2"
  note K = drop_stale_steps [OF reg q, of owner config s2 uid found now jids]
  have out: "jobs = take (nat budget) (fst (fst ?d))" "s' = snd ?d"
    using run g w q(1) by (simp_all add: hydrate_and_drop_stale_def Let_def case_prod_beta)
  show "?S s s'" unfolding out using S2 K by (meson rtranclp_trans)
  show "\<forall>job\<in>set jobs. owned_job owner ns job" unfolding out using K ok by (fastforce dest: in_set_takeD)
qed

section \<open>Reservation and publication\<close>

lemma requeue_reserved_steps:
  assumes reg: "\<forall>(k, p)\<in>set reg. qc_namespace p = k" and q: "qc_namespace q = ns" "ns \<noteq> []"
    and pairs: "\<forall>(job, st)\<in>set pairs. owned_job owner ns job"
  shows "tick_steps R V reg owner ns config s (requeue_reserved R D tasks reg uid q pairs s)"
  using pairs
proof (induction pairs arbitrary: s)
  case (Cons x pairs)
  obtain job st where x: "x = (job, st)" by (cases x)
  let ?S = "tick_steps R V reg owner ns config"
  let ?r = "resolve_queue_wait_ttl_from_job D tasks job s"
  let ?q = "requeue R reg uid q job (ready_at job) (fst ?r) (snd ?r)"
  have "?S s (snd ?r)" by (rule tick_view) simp
  moreover have "?S (snd ?r) (snd ?q)"
    by (rule tick_requeue [OF reg q]) (use Cons.prems x in simp)
  ultimately have one: "?S s (if st = RSV_RESERVED then snd ?q else s)" by (auto intro: rtranclp_trans)
  have rest: "?S t (requeue_reserved R D tasks reg uid q pairs t)" for t using Cons by simp
  have "requeue_reserved R D tasks reg uid q (x # pairs) s
      = requeue_reserved R D tasks reg uid q pairs (if st = RSV_RESERVED then snd ?q else s)"
    by (simp add: x Let_def case_prod_beta)
  then show ?case using rtranclp_trans [OF one rest] by simp
qed simp

lemma publish_chunk_steps:
  assumes reg: "\<forall>(k, p)\<in>set reg. qc_namespace p = k" and q: "qc_namespace q = ns" "ns \<noteq> []"
    and pairs: "\<forall>(job, st)\<in>set pairs. owned_job owner ns job"
  shows "tick_steps R V reg owner ns config s (snd (publish_chunk R D tasks reg uid q pairs blocked stats s))"
  using pairs
proof (induction pairs arbitrary: blocked stats s)
  case (Cons x pairs)
  obtain job st where x: "x = (job, st)" by (cases x)
  let ?S = "tick_steps R V reg owner ns config"
  have rest: "?S t (snd (publish_chunk R D tasks reg uid q pairs b sts t))" for b sts t using Cons by simp
  show ?case
  proof (cases "st = RSV_RESERVED")
    case False
    then show ?thesis using rest unfolding x by simp
  next
    case True
    let ?w = "wall R s" and ?p = "celery_publish R (snd (wall R s)) (job_id job)"
    have "?S s (snd ?w)" by (rule tick_view) simp
    moreover have "?S (snd ?w) (snd ?p)" by (rule tick_publish)
    ultimately have two: "?S s (snd ?p)" by (rule rtranclp_trans)
    have revert: "?S t (requeue_reserved R D tasks reg uid q (x # pairs) t)" for t
      by (rule requeue_reserved_steps [OF reg q Cons.prems])
    show ?thesis
      using rtranclp_trans [OF two rest] rtranclp_trans [OF two revert [unfolded x]] True unfolding x
      by (simp add: Let_def case_prod_beta)
  qed
qed simp

lemma pump_chunks_steps:
  assumes reg: "\<forall>(k, p)\<in>set reg. qc_namespace p = k" and q: "qc_namespace q = ns" "ns \<noteq> []" and lim: "max_reserved c \<le> max_reserved config"
  shows "\<forall>chunk\<in>set cs. \<forall>job\<in>set chunk. owned_job owner ns job \<Longrightarrow>
    tick_steps R V reg owner ns config s (snd (pump_chunks R D tasks reg uid q c budget deadline tick cs blocked cache stats s))"
proof (induction cs arbitrary: blocked cache stats s)
  case (Cons chunk cs)
  let ?S = "tick_steps R V reg owner ns config"
  obtain t s1 where m: "mono R s = (t, s1)" by force
  have S1: "?S s s1" by (rule tick_view) (use law_mono [of s] m in simp)
  show ?case
  proof (cases "blocked \<or> deadline \<le> t")
    case True
    then show ?thesis using m S1 by auto
  next
    case False
    obtain ttls cache' s2 where c: "reserved_record_ttls D tasks cache chunk s1 = ((ttls, cache'), s2)" by (metis surj_pair)
    have S2: "?S s1 s2" by (rule tick_view) (use reserved_record_ttls_V [of tasks cache chunk s1] c in simp)
    obtain out s3 where r: "reserve_jobs R ns chunk c ttls tick budget s2 = (out, s3)" by force
    have S3: "?S s2 s3" by (rule tick_reserve [OF r lim]) (use Cons.prems in simp)
    have S: "?S s s3" using S1 S2 S3 by (meson rtranclp_trans)
    show ?thesis
    proof (cases out)
      case (Inl e)
      then show ?thesis using m False c r S q(1) by simp
    next
      case (Inr sts)
      have pairs: "\<forall>(job, st)\<in>set (zip chunk sts). owned_job owner ns job"
        using Cons.prems by (auto dest: set_zip_leftD)
      obtain b failed stats' s4 where p: "publish_chunk R D tasks reg uid q (zip chunk sts) False (count_statuses sts stats) s3
          = ((b, failed, stats'), s4)" by (metis surj_pair)
      have S4: "?S s s4"
        using S publish_chunk_steps [OF reg q pairs, of config s3 tasks uid False "count_statuses sts stats"] p
        by (auto intro: rtranclp_trans)
      have IH: "?S s4 (snd (pump_chunks R D tasks reg uid q c budget deadline tick cs b cache' stats' s4))"
        using Cons by simp
      show ?thesis using m False c r Inr p q(1) S4 rtranclp_trans [OF S4 IH] by simp
    qed
  qed
qed simp

lemma pump_body_steps:
  assumes reg: "\<forall>(k, p)\<in>set reg. qc_namespace p = k" and q: "qc_namespace q = ns" "ns \<noteq> []"
    and lim: "max_reserved c \<le> max_reserved config" and recs: "records_owned owner ns (V s)"
  shows "tick_steps R V reg owner ns config s (snd (pump_body R D tasks reg uid q c deadline tick state s))"
proof -
  let ?S = "tick_steps R V reg owner ns config"
  obtain d s1 where d: "decide R ns c (Some tick) (Some state) s = (d, s1)" by force
  have S1: "?S s s1"
    by (rule tick_quiet) (use decide_frame [of ns "quiet_keys ns" s c "Some tick" "Some state"] d in simp)
  obtain jids s2 where p: "peek_ready R ns (max 10 (effective_budget d * 3)) None s1 = (jids, s2)" by force
  have "?S s1 s2" by (rule tick_view) (use peek_ready_V [of ns "max 10 (effective_budget d * 3)" None s1] p in simp)
  with S1 have S2: "?S s s2" by (rule rtranclp_trans)
  obtain jobs missing s3 where h: "hydrate_and_drop_stale R reg uid q jids (effective_budget d) s2 = ((jobs, missing), s3)"
    by (metis surj_pair)
  note H = hydrate_steps [OF reg q tick_records [OF S2 reg q(2) recs] h]
  have S3: "?S s s3" using S2 H(1) by (rule rtranclp_trans)
  let ?st = "empty_stats\<lparr>st_ready_peeked := int (length jids)\<rparr>\<lparr>st_missing := missing\<rparr>"
  obtain rr st s4 where y: "reserve_and_publish R D tasks reg uid q jobs c (effective_budget d) deadline tick ?st s3 = ((rr, st), s4)"
    by (metis surj_pair)
  have cc: "concat (chunks DISPATCH_LUA_BATCH_SIZE jobs) = jobs" by (rule concat_chunks) (simp add: config_constants)
  have own: "\<forall>chunk\<in>set (chunks DISPATCH_LUA_BATCH_SIZE jobs). \<forall>job\<in>set chunk. owned_job owner ns job"
    using H(2) cc by (metis UN_I set_concat)
  have S4: "?S s s4"
    using S3 pump_chunks_steps [OF reg q lim own, of s3 tasks uid "effective_budget d" deadline tick False "[]" ?st] y
    by (auto simp: reserve_and_publish_def intro: rtranclp_trans)
  show ?thesis
    using S1 S2 S4 d p h y q(1) by (auto simp: pump_body_def Let_def split: sum.split)
qed

section \<open>The tick\<close>

lemma maybe_cleanup_steps:
  assumes reg: "\<forall>(k, p)\<in>set reg. qc_namespace p = k" and q: "qc_namespace q = ns" "ns \<noteq> []" and run: "maybe_cleanup_queue fuel R reg uid digest q deadline s = Some s'"
  shows "tick_steps R V reg owner ns config s s'"
proof -
  let ?S = "tick_steps R V reg owner ns config"
  have mono: "?S a (snd (mono R a))" for a by (rule tick_view) simp
  have due: "?S a (snd (cleanup_due R ns n a))" for a n
    by (rule tick_quiet)
      (auto simp: cleanup_due_def try_acquire_ttl_gate_def case_prod_beta frame_simps split: sum.split intro!: frame_rpc)
  have dr: "V (snd (counts_drifted R ns a)) = V a" for a
    by (simp add: counts_drifted_def pending_count_def reserved_count_def count_or_unknown_def case_prod_beta Let_def
        split: sum.split option.split)
  have rb: "?S a (snd (request_rebuild R ns reason a))" for a reason
    by (rule tick_quiet)
      (auto simp: request_rebuild_def rwrite_def case_prod_beta frame_simps split: sum.split intro!: frame_rpc)
  let ?c = "cleanup_due R ns (cleanup_interval_for digest ns) (snd (mono R s))"
  have S1: "?S s (snd ?c)" using mono due by (meson rtranclp_trans)
  show ?thesis
  proof (cases "deadline \<le> fst (mono R s) \<or> \<not> fst ?c")
    case True
    with run q(1) have "s' = snd (mono R s) \<or> s' = snd ?c"
      by (auto simp: maybe_cleanup_queue_def Let_def case_prod_beta split: if_splits)
    then show ?thesis using mono S1 by auto
  next
    case False
    with run q(1) obtain n s2 where r: "reap_orphaned_queue_jobs fuel R reg uid q REAP_SCAN_LIMIT (Some deadline) (snd ?c) = Some (n, s2)"
      by (auto simp: maybe_cleanup_queue_def Let_def case_prod_beta split: option.splits)
    have S2: "?S s s2" using S1 reap_steps [OF reg q r] by (rule rtranclp_trans)
    from run q(1) False r have "s' = snd (mono R s2) \<or> s' = snd (counts_drifted R ns (snd (mono R s2)))
        \<or> (\<exists>reason. s' = snd (request_rebuild R ns reason (snd (counts_drifted R ns (snd (mono R s2))))))"
      by (auto simp: maybe_cleanup_queue_def Let_def case_prod_beta split: if_splits)
    moreover have "?S s (snd (mono R s2))" using S2 mono by (rule rtranclp_trans)
    moreover from this have "?S s (snd (counts_drifted R ns (snd (mono R s2))))"
      by (rule rtranclp_trans) (rule tick_view, rule dr)
    ultimately show ?thesis using rb by (auto intro: rtranclp_trans)
  qed
qed

lemma pump_queue_steps:
  assumes reg: "\<forall>(k, p)\<in>set reg. qc_namespace p = k" and q: "qc_namespace q = ns" "ns \<noteq> []"
    and lim: "\<And>s c. fst (queue_from_db D q s) = Inr c \<Longrightarrow> max_reserved c \<le> max_reserved config"
    and recs: "records_owned owner ns (V s)"
    and run: "pump_queue fuel R D tasks reg uid digest q deadline tick s = Some (r, s')"
  shows "tick_steps R V reg owner ns config s s'"
proof -
  let ?S = "tick_steps R V reg owner ns config"
  let ?s0 = "snd (mono R (snd (mono R s)))"
  obtain co s1 where c: "queue_from_db D q ?s0 = (co, s1)" by force
  have S0: "?S s ?s0" by (rule tick_view) simp
  have S1: "?S s s1" by (rule tick_view) (use from_db_V(1) [of q ?s0] c in simp)
  show ?thesis
  proof (cases "deadline \<le> fst (mono R (snd (mono R s))) \<or> (\<exists>e. co = Inl e)")
    case True
    with run c have "s' = ?s0 \<or> s' = s1"
      by (auto simp: pump_queue_def Let_def case_prod_beta split: if_splits)
    then show ?thesis using S0 S1 by auto
  next
    case False
    then obtain cfg where cfg: "co = Inr cfg" by (cases co) auto
    have l: "max_reserved cfg \<le> max_reserved config" by (rule lim [of ?s0]) (simp add: c cfg)
    from run c cfg False obtain s2 where m: "maybe_cleanup_queue fuel R reg uid digest q deadline s1 = Some s2"
      by (auto simp: pump_queue_def Let_def case_prod_beta split: option.splits)
    have S2: "?S s s2" using S1 maybe_cleanup_steps [OF reg q m] by (rule rtranclp_trans)
    let ?st = "read_state R ns s2" let ?sk = "record_pump_ticks_skipped R ns tick (fst ?st) (snd ?st)"
    have "?S s2 (snd ?sk)"
    proof (rule tick_quiet)
      have "same_at (quiet_keys ns) (V (snd (read_pump_ticks_skipped_baseline R ns (snd ?st)))) (V (snd ?sk))"
        unfolding record_pump_ticks_skipped_def Let_def case_prod_beta
        by (auto intro!: frame_record_queue_event own_keys_disjoint(3))
      moreover have "V (snd (read_pump_ticks_skipped_baseline R ns (snd ?st))) = V s2"
        by (simp add: read_pump_ticks_skipped_baseline_def case_prod_beta split: sum.split option.split)
      ultimately show "same_at (quiet_keys ns) (V s2) (V (snd ?sk))" by simp
    qed
    with S2 have S3: "?S s (snd ?sk)" by (rule rtranclp_trans)
    let ?b = "pump_body R D tasks reg uid q cfg deadline tick (fst ?st) (snd ?sk)"
    have S4: "?S s (snd ?b)"
      using S3 pump_body_steps [OF reg q l tick_records [OF S3 reg q(2) recs]] by (rule rtranclp_trans)
    let ?f = "flush_pump_metrics R ns (snd (fst ?b)) (of_int (tick * PUMP_INTERVAL_SECONDS)) (fst (mono R s)) (snd ?b)"
    have "?S (snd ?b) ?f"
    proof (rule tick_quiet)
      have "same_at (quiet_keys ns) (V (snd (wall R (snd (mono R (snd ?b)))))) (V ?f)"
        unfolding flush_pump_metrics_def Let_def case_prod_beta
        by (rule frame_pipe) (auto dest: frame_event_commands [OF own_keys_disjoint(3)])
      then show "same_at (quiet_keys ns) (V (snd ?b)) (V ?f)" by simp
    qed
    with S4 have "?S s ?f" by (rule rtranclp_trans)
    moreover have "s' = ?f" using run c cfg False m q(1) by (simp add: pump_queue_def Let_def case_prod_beta)
    ultimately show ?thesis by simp
  qed
qed

lemma pump_queue_with_lock_steps:
  assumes reg: "\<forall>(k, p)\<in>set reg. qc_namespace p = k" and q: "qc_namespace q = ns" "ns \<noteq> []"
    and lim: "\<And>s c. fst (queue_from_db D q s) = Inr c \<Longrightarrow> max_reserved c \<le> max_reserved config"
    and recs: "records_owned owner ns (V s)"
    and run: "pump_queue_with_lock fuel R D tasks reg uid digest token q deadline tick lock_ttl s = Some (r, s')"
  shows "tick_steps R V reg owner ns config s s'"
proof -
  let ?S = "tick_steps R V reg owner ns config"
  let ?w = "pump_owner ns token"
  obtain ok s1 where a: "try_acquire_lock R (pump_lock_key ns) ?w (max 1 lock_ttl) s = (ok, s1)" by force
  have S1: "?S s s1"
    by (rule tick_quiet, cases rule: try_acquire_lock_cases [of s "pump_lock_key ns" ?w "max 1 lock_ttl"])
      (use a in \<open>simp_all add: frame_simps\<close>)
  show ?thesis
  proof (cases ok)
    case True
    with run a q(1) obtain r1 s2 where p: "pump_queue fuel R D tasks reg uid digest q deadline tick s1 = Some (r1, s2)"
      "s' = release_lock R (pump_lock_key ns) ?w s2"
      by (auto simp: pump_queue_with_lock_def Let_def)
    have "?S s1 s2" by (rule pump_queue_steps [OF reg q lim tick_records [OF S1 reg q(2) recs] p(1)])
    moreover have "?S s2 s'" unfolding p(2)
      by (rule tick_quiet) (use release_lock_cases [of "pump_lock_key ns" ?w s2] in \<open>auto simp: frame_simps\<close>)
    ultimately show ?thesis using S1 by (meson rtranclp_trans)
  next
    case False
    let ?p = "is_queue_pump_paused R ns s1"
    have "?S s1 (snd ?p)" by (rule tick_view) simp
    moreover have "?S t (record_queue_event R ns nm n x t)" for t nm n x
      by (rule tick_quiet) (rule frame_record_queue_event, rule own_keys_disjoint(3))
    ultimately show ?thesis using run a q(1) False S1
      by (auto simp: pump_queue_with_lock_def Let_def case_prod_beta split: if_splits intro: rtranclp_trans)
  qed
qed

end

end
