(* ===== verification/Maintenance.thy ===== *)
theory Maintenance
  imports TaskCounts Locks
begin

text \<open>
  \<open>dispatch/maintenance.py\<close>: the periodic rebuild of the per-task counts, one namespace per run,
  under a lock of the namespace. The lock itself is in theory Locks.
\<close>

definition RELEASE_REBUILD_LOCK_LUA :: "'s env \<Rightarrow> string \<Rightarrow> string \<Rightarrow> 's \<Rightarrow> int result \<times> 's" where
  "RELEASE_REBUILD_LOCK_LUA R key owner s =
     (if r_get R s key = Some (PStr owner) then (let (n, s) = r_del R s key in (Inr n, s)) else (Inr 0, s))"

definition try_acquire_rebuild_lock :: "'s env \<Rightarrow> string \<Rightarrow> string \<Rightarrow> 's \<Rightarrow> bool \<times> 's" where
  "try_acquire_rebuild_lock R ns owner s =
     (case rpc R (\<lambda>s. r_setnx R s (rebuild_lock_key ns) (PStr owner) (Some TASK_COUNTS_REBUILD_LOCK_SECONDS)) s of
        (Inl _, s) \<Rightarrow> (False, s)
      | (Inr acquired, s) \<Rightarrow> (acquired, s))"

definition release_rebuild_lock :: "'s env \<Rightarrow> string \<Rightarrow> string \<Rightarrow> 's \<Rightarrow> 's" where
  "release_rebuild_lock R ns owner s = snd (rpc_script R (RELEASE_REBUILD_LOCK_LUA R (rebuild_lock_key ns) owner) s)"

text \<open>
  \<open>token\<close> is \<open>uuid4().hex\<close>. \<open>None\<close> outside: \<open>fuel\<close> pages were not enough; the value is \<open>None\<close> when the
  lock or the back-off skipped the namespace.
\<close>

definition rebuild_owner :: "string \<Rightarrow> string \<Rightarrow> string" where
  "rebuild_owner ns token = ''task-counts:'' @ ns @ '':'' @ token"

definition maintain_queue :: "nat \<Rightarrow> 's env \<Rightarrow> string \<Rightarrow> string \<Rightarrow> 's \<Rightarrow> (bool option \<times> 's) option" where
  "maintain_queue fuel R ns token s =
     (let owner = rebuild_owner ns token;
          (acquired, s) = try_acquire_rebuild_lock R ns owner s in
      if \<not> acquired then Some (None, s)
      else
        (let (started_at, s) = mono R s; (started, s) = try_start_rebuild R ns s in
         if \<not> started then Some (None, release_rebuild_lock R ns owner s)
         else
           (case rebuild fuel R ns (Some (started_at + of_int TASK_COUNTS_REBUILD_DEADLINE_SECONDS))
                   TASK_COUNTS_REBUILD_SCAN_COUNT s of
              None \<Rightarrow> None
            | Some (rebuilt, s) \<Rightarrow>
                (let (elapsed, s) = mono R s in
                 case rebuilt of
                   None \<Rightarrow> Some (Some False, release_rebuild_lock R ns owner s)
                 | Some _ \<Rightarrow>
                     (let (marked, s) = mark_rebuilt R ns s
                      in Some (Some marked, release_rebuild_lock R ns owner s))))))"

text \<open>The first candidate that was not skipped.\<close>

fun maintain_first ::
  "nat \<Rightarrow> 's env \<Rightarrow> string \<Rightarrow> string list \<Rightarrow> (string \<Rightarrow> string) \<Rightarrow> 's \<Rightarrow> ((string \<times> string \<times> bool) option \<times> 's) option" where
  "maintain_first fuel R trigger [] token s = Some (None, s)"
| "maintain_first fuel R trigger (ns # nss) token s =
     (case maintain_queue fuel R ns (token ns) s of
        None \<Rightarrow> None
      | Some (Some success, s) \<Rightarrow> Some (Some (ns, trigger, success), s)
      | Some (None, s) \<Rightarrow> maintain_first fuel R trigger nss token s)"

fun filter_state :: "(string \<Rightarrow> 's \<Rightarrow> bool \<times> 's) \<Rightarrow> string list \<Rightarrow> 's \<Rightarrow> string list \<times> 's" where
  "filter_state p [] s = ([], s)"
| "filter_state p (x # xs) s =
     (let (b, s) = p x s; (ys, s) = filter_state p xs s in (if b then x # ys else ys, s))"

text \<open>What the run reports: the namespace attempted, why, and whether it succeeded.\<close>

definition dispatch_task_counts_maintenance ::
  "nat \<Rightarrow> 's env \<Rightarrow> queue_registry \<Rightarrow> (string \<Rightarrow> string) \<Rightarrow> 's \<Rightarrow> ((string \<times> string \<times> bool) option \<times> 's) option" where
  "dispatch_task_counts_maintenance fuel R reg token s =
     (let queues = map qc_namespace (registered_queues reg);
          (requested, s) = filter_state (rebuild_requested R) queues s;
          (daily, s) = filter_state (hard_rebuild_due R) (filter (\<lambda>ns. ns \<notin> set requested) queues) s in
      case maintain_first fuel R ''requested'' requested token s of
        None \<Rightarrow> None
      | Some (Some report, s) \<Rightarrow> Some (Some report, s)
      | Some (None, s) \<Rightarrow> maintain_first fuel R ''daily'' daily token s)"

section \<open>What a run does\<close>

text \<open>The lock operations are those of the pump lock, on another key.\<close>

lemma release_script_same: "RELEASE_REBUILD_LOCK_LUA = release_lock_lua"
  by (intro ext) (simp add: RELEASE_REBUILD_LOCK_LUA_def release_lock_lua_def)

lemma rebuild_lock_ops:
  "try_acquire_rebuild_lock R ns owner = try_acquire_lock R (rebuild_lock_key ns) owner TASK_COUNTS_REBUILD_LOCK_SECONDS"
  "release_rebuild_lock R ns owner = release_lock R (rebuild_lock_key ns) owner"
  by (simp_all add: fun_eq_iff try_acquire_rebuild_lock_def try_acquire_lock_def release_rebuild_lock_def release_lock_def
      release_script_same)

text \<open>What the counts depend on: the queue state and the registered tasks.\<close>

definition counted_keys :: "string \<Rightarrow> string set" where
  "counted_keys ns = insert KEY_REGISTERED (core_keys ns)"

lemma maintenance_keys [simp]:
  "rebuild_lock_key ns \<notin> counted_keys ns" "rebuilt_key ns \<notin> counted_keys ns"
  "rebuild_requested_key ns \<notin> counted_keys ns" "rebuild_attempt_key ns \<notin> counted_keys ns"
  using core_keys_subset [of ns] queue_keys_other [where ns = ns]
  by (auto simp: counted_keys_def rebuild_lock_key_def rebuilt_key_def rebuild_requested_key_def rebuild_attempt_key_def)

lemma counted_core:
  assumes "same_at (counted_keys ns) v v'"
  shows "same_at (core_keys ns) v v'" and "hs v' KEY_REGISTERED = hs v KEY_REGISTERED"
  using assms by (auto simp: same_at_def counted_keys_def)

lemma filter_state_subset: "filter_state p xs s = (ys, s') \<Longrightarrow> set ys \<subseteq> set xs"
proof (induction xs arbitrary: s ys)
  case (Cons x xs)
  then show ?case by (fastforce split: prod.splits if_splits)
qed simp

context redis
begin

lemma filter_state_V: "(\<And>x s. V (snd (p x s)) = V s) \<Longrightarrow> V (snd (filter_state p xs s)) = V s"
  by (induction xs arbitrary: s) (simp_all add: Let_def case_prod_beta)

lemma marker_reads_V [simp]:
  "V (snd (rebuild_requested R ns s)) = V s" "V (snd (hard_rebuild_due R ns s)) = V s"
  by (simp_all add: rebuild_requested_def hard_rebuild_due_def case_prod_beta split: sum.split)

text \<open>Taking and giving back the lock, the back-off and the markers touch only their own keys.\<close>

lemma marker_frames:
  assumes "A \<inter> {rebuild_lock_key ns, rebuilt_key ns, rebuild_requested_key ns, rebuild_attempt_key ns} = {}"
  shows "same_at A (V s) (V (snd (try_acquire_rebuild_lock R ns w s)))"
    and "same_at A (V s) (V (release_rebuild_lock R ns w s))"
    and "same_at A (V s) (V (snd (try_start_rebuild R ns s)))"
    and "same_at A (V s) (V (snd (mark_rebuilt R ns s)))"
proof -
  have A: "rebuild_lock_key ns \<notin> A" "rebuilt_key ns \<notin> A" "rebuild_requested_key ns \<notin> A" "rebuild_attempt_key ns \<notin> A"
    using assms by blast+
  show "same_at A (V s) (V (snd (try_acquire_rebuild_lock R ns w s)))"
    unfolding rebuild_lock_ops
    by (cases rule: try_acquire_lock_cases [of s "rebuild_lock_key ns" w TASK_COUNTS_REBUILD_LOCK_SECONDS])
       (use A in \<open>simp_all add: frame_simps\<close>)
  show "same_at A (V s) (V (release_rebuild_lock R ns w s))"
    unfolding rebuild_lock_ops using release_lock_cases [of "rebuild_lock_key ns" w s] A by (auto simp: frame_simps)
  have "same_at A (V s)
      (V (snd (rpc R (\<lambda>s. r_setnx R s (rebuild_attempt_key ns) (PStr ''1'') (Some (max 1 TASK_COUNTS_REBUILD_RETRY_SECONDS))) s)))"
    by (rule rpc_invariant) (use A in \<open>simp_all add: frame_simps\<close>)
  then show "same_at A (V s) (V (snd (try_start_rebuild R ns s)))"
    by (simp add: try_start_rebuild_def try_acquire_ttl_gate_def case_prod_beta split: sum.split)
  let ?w = "\<lambda>s. let s = r_set R s (rebuilt_key ns) (PStr ''1'') (Some TASK_COUNTS_REBUILD_FORCE_SECONDS);
      s = snd (r_del R s (rebuild_requested_key ns)) in snd (r_del R s (rebuild_attempt_key ns))"
  have "same_at A (V s) (V (snd (rpc R (\<lambda>s. ((), ?w s)) s)))"
    by (rule rpc_invariant) (use A in \<open>simp_all add: Let_def frame_simps\<close>)
  then show "same_at A (V s) (V (snd (mark_rebuilt R ns s)))"
    by (simp add: mark_rebuilt_def rwrite_def case_prod_beta split: sum.split)
qed

lemma markers_uncounted: "counted_keys ns \<inter> {rebuild_lock_key ns, rebuilt_key ns, rebuild_requested_key ns, rebuild_attempt_key ns} = {}"
  using maintenance_keys [of ns] by blast

lemmas maintenance_frames = marker_frames [OF markers_uncounted]

text \<open>A rebuild writes the hash of the counts and nothing else, and so does a run beside the markers.\<close>

lemma rebuild_frame:
  assumes A: "task_counts_key ns \<notin> A" and run: "rebuild fuel R ns deadline n s = Some (r, s')"
  shows "same_at A (V s) (V s')"
proof -
  obtain t s1 where 1: "mono R s = (t, s1)" by force
  obtain registered s2 where 2: "registered_task_keys R s1 = (registered, s2)" by force
  have V2: "V s2 = V s" using law_mono [of s] registered_task_keys_V [of s1] 1 2 by simp
  have fin: "same_at A (V u) (V (snd (rebuild_finish R ns deadline p q u)))" for p q u
  proof -
    have f: "same_at A (V v) (V (snd (replace_task_counts_lua R (pending_key ns) (reserved_key ns) (task_counts_key ns) ep er ttl m v)))"
      for ep er ttl m v
    proof -
      have "same_at A (V v) (fold (\<lambda>(f, n). v_hset (task_counts_key ns) f (PInt n)) m w)" if "same_at A (V v) w" for w
        using that A by (induction m arbitrary: w) (auto simp: frame_simps)
      then show ?thesis using A by (simp add: replace_script v_counts_def frame_simps)
    qed
    have g: "same_at A (V v) (V (snd (replace_if_current R ns m ep er v)))" for m ep er v
      using frame_rpc_script [where A = A and s = v, OF f] by (simp add: replace_if_current_def case_prod_beta split: sum.split)
    show ?thesis
      using g [of "snd (deadline_passed R deadline u)"]
      by (simp add: rebuild_finish_def Let_def case_prod_beta split: sum.split)
  qed
  from run 1 2 obtain x s3 where 3: "scan_zset fuel R (pending_key ns) registered deadline n 0 empty_scan s2 = Some (x, s3)"
    by (auto simp: rebuild_def split: option.splits)
  have V3: "V s3 = V s" using scan_zset_V [OF 3] V2 by simp
  show ?thesis
  proof (cases x)
    case (Inl e)
    with run 1 2 3 V3 show ?thesis by (simp add: rebuild_def)
  next
    case (Inr p)
    with run 1 2 3 obtain y s4 where 4: "scan_zset fuel R (reserved_key ns) registered deadline n 0 empty_scan s3 = Some (y, s4)"
      by (auto simp: rebuild_def split: option.splits)
    have V4: "V s4 = V s" using scan_zset_V [OF 4] V3 by simp
    from run 1 2 3 4 Inr have "s' = s4 \<or> (\<exists>p q. rebuild_finish R ns deadline p q s4 = (r, s'))"
      by (auto simp: rebuild_def split: sum.splits option.splits)
    then show ?thesis using V4 fin [of s4] by (metis same_at_refl snd_conv)
  qed
qed

lemma maintain_queue_frame:
  assumes A: "A \<inter> {rebuild_lock_key ns, rebuilt_key ns, rebuild_requested_key ns, rebuild_attempt_key ns} = {}"
    "task_counts_key ns \<notin> A"
    and run: "maintain_queue fuel R ns token s = Some (r, s')"
  shows "same_at A (V s) (V s')"
proof -
  note F = marker_frames [OF A(1)]
  obtain acq s1 where 1: "try_acquire_rebuild_lock R ns (rebuild_owner ns token) s = (acq, s1)" by force
  have S1: "same_at A (V s) (V s1)" using F(1) [of s "rebuild_owner ns token"] 1 by simp
  obtain t s2 where 2: "mono R s1 = (t, s2)" by force
  obtain st s3 where 3: "try_start_rebuild R ns s2 = (st, s3)" by force
  have S3: "same_at A (V s) (V s3)"
    using S1 F(3) [of s2] law_mono [of s1] 2 3 by (auto intro: same_at_trans)
  let ?d = "Some (t + of_int TASK_COUNTS_REBUILD_DEADLINE_SECONDS)" and ?w = "rebuild_owner ns token"
  have rel: "same_at A (V s) (V u) \<Longrightarrow> same_at A (V s) (V (release_rebuild_lock R ns ?w u))" for u
    using F(2) by (blast intro: same_at_trans)
  show ?thesis
  proof (cases "acq \<and> st")
    case False
    with run 1 2 3 have "s' = s1 \<or> s' = release_rebuild_lock R ns ?w s3"
      by (auto simp: maintain_queue_def Let_def split: if_splits)
    then show ?thesis using S1 rel [OF S3] by auto
  next
    case True
    with run 1 2 3 obtain x s4 where 4: "rebuild fuel R ns ?d TASK_COUNTS_REBUILD_SCAN_COUNT s3 = Some (x, s4)"
      by (auto simp: maintain_queue_def Let_def split: option.splits)
    have S4: "same_at A (V s) (V s4)" using S3 rebuild_frame [OF A(2) 4] by (rule same_at_trans)
    have "same_at A (V s) (V (snd (mono R s4)))" using S4 by simp
    moreover have "same_at A (V s) (V (snd (mark_rebuilt R ns (snd (mono R s4)))))"
      by (rule same_at_trans [OF calculation F(4)])
    moreover have "s' = release_rebuild_lock R ns ?w (snd (mono R s4))
        \<or> s' = release_rebuild_lock R ns ?w (snd (mark_rebuilt R ns (snd (mono R s4))))"
      using run 1 2 3 4 True by (auto simp: maintain_queue_def Let_def case_prod_beta split: option.splits)
    ultimately show ?thesis using rel by auto
  qed
qed

text \<open>While someone else holds the lock, a run does nothing.\<close>

lemma maintenance_excluded:
  assumes "present (V s) (rebuild_lock_key ns)"
  obtains s' where "maintain_queue fuel R ns token s = Some (None, s')" and "V s' = V s"
proof (cases rule: try_acquire_lock_cases [of s "rebuild_lock_key ns" "rebuild_owner ns token" TASK_COUNTS_REBUILD_LOCK_SECONDS])
  case failed
  then show thesis
    by (intro that [of "snd (try_acquire_lock R (rebuild_lock_key ns) (rebuild_owner ns token) TASK_COUNTS_REBUILD_LOCK_SECONDS s)"])
       (simp_all add: maintain_queue_def rebuild_lock_ops Let_def case_prod_beta)
qed (use assms in simp_all)

end

context redis_scan
begin

text \<open>A run that reports success leaves counts that are exact, and the queue as it was.\<close>

lemma maintenance_exact:
  assumes run: "maintain_queue fuel R ns token s = Some (Some True, s')"
  obtains registered where "registered = [] \<or> set registered = dom (hs (V s) KEY_REGISTERED)"
    "pend ns (V s') = pend ns (V s)" "resv ns (V s') = resv ns (V s)" "counts_ok (member_task registered) ns (V s')"
proof -
  obtain acq s1 where 1: "try_acquire_rebuild_lock R ns (rebuild_owner ns token) s = (acq, s1)" by force
  obtain t s2 where 2: "mono R s1 = (t, s2)" by force
  obtain st s3 where 3: "try_start_rebuild R ns s2 = (st, s3)" by force
  from run 1 2 3 have ok: "acq" "st" by (auto simp: maintain_queue_def Let_def split: if_splits)
  let ?d = "Some (t + of_int TASK_COUNTS_REBUILD_DEADLINE_SECONDS)"
  obtain m s4 where 4: "rebuild fuel R ns ?d TASK_COUNTS_REBUILD_SCAN_COUNT s3 = Some (Some m, s4)"
    using run 1 2 3 ok by (auto simp: maintain_queue_def Let_def split: option.splits prod.splits)
  obtain e s5 where 5: "mono R s4 = (e, s5)" by force
  obtain mk s6 where 6: "mark_rebuilt R ns s5 = (mk, s6)" by force
  have s': "s' = release_rebuild_lock R ns (rebuild_owner ns token) s6"
    using run 1 2 3 ok 4 5 6 by (simp add: maintain_queue_def Let_def)
  have before: "same_at (counted_keys ns) (V s) (V s3)"
    using maintenance_frames(1) [of ns s "rebuild_owner ns token"] maintenance_frames(3) [of ns s2] law_mono [of s1] 1 2 3
    by (auto intro: same_at_trans)
  have after: "same_at (counted_keys ns) (V s4) (V s')"
    using maintenance_frames(4) [of ns s5] maintenance_frames(2) [of ns s6] law_mono [of s4] 5 6 unfolding s'
    by (auto intro: same_at_trans)
  note before = counted_core [OF before] and after = counted_core [OF after]
  from rebuild_exact [OF 4] obtain registered where
    r: "registered = [] \<or> set registered = dom (hs (V s3) KEY_REGISTERED)" "pend ns (V s4) = pend ns (V s3)"
      "resv ns (V s4) = resv ns (V s3)" "counts_ok (member_task registered) ns (V s4)" by blast
  show thesis
  proof (rule that)
    show "registered = [] \<or> set registered = dom (hs (V s) KEY_REGISTERED)" using r(1) before(2) by simp
    show "pend ns (V s') = pend ns (V s)" "resv ns (V s') = resv ns (V s)"
      using queue_inv_core(5,6) [OF before(1)] queue_inv_core(5,6) [OF after(1)] r(2,3) by simp_all
    show "counts_ok (member_task registered) ns (V s')"
      using queue_inv_core(2) [OF after(1), of "member_task registered" "\<lambda>_. 0"] r(4) by (simp add: counts_ok_def)
  qed
qed

end

end
