(* ===== verification/System.thy ===== *)
theory System
  imports Registry Pump_System Maintenance
begin

text \<open>
  The whole program at work on one keyspace: producers that submit, the global pump, workers, the handler
  of lost workers, the maintenance of the counts, and whatever else happens beside the queues, in any order.
  Each handler is a path of every queue, so no interleaving of them passes a ceiling of a queue, puts a job
  into both of its sets, or stores a record under another job's key.
\<close>

section \<open>Clients of a queue\<close>

text \<open>The interface \<open>queue_client\<close> holds for the exact steps of one queue, and for paths of all queues.\<close>

context settings
begin

lemma client_exact:
  assumes reg: "\<forall>(k, p)\<in>set reg. qc_namespace p = k"
  shows "queue_client R V D C T reg owner ns (max_admitted_jobs config) (queue_steps R V reg owner ns config)"
proof unfold_locales
  fix q :: queue_class and job ready ttl uid a
  assume "qc_namespace q = ns" "owned_job owner ns job"
  then show "queue_steps R V reg owner ns config a (snd (requeue R reg uid q job ready ttl a))"
    by (intro r_into_rtranclp queue_step.requeue [OF prod.collapse [symmetric]])
next
  fix jid wid ttl a
  assume "owner jid \<noteq> []"
  then show "queue_steps R V reg owner ns config a (snd (finalize_job R ns jid (owner jid) wid ttl a))"
    by (intro r_into_rtranclp queue_step.finalize [OF prod.collapse [symmetric]])
next
  fix a b
  assume "same_at (- metrics_keys ns) (V a) (V b)"
  then have "same_at (queue_keys ns) (V a) (V b)" by (rule same_at_mono) (use metrics_keys_queue [of ns] in blast)
  then show "queue_steps R V reg owner ns config a b" by (intro r_into_rtranclp quiet_step)
qed (auto intro: view_step queue_step.enqueue)

lemma client_world:
  assumes reg: "\<forall>(k, p)\<in>set reg. qc_namespace p = k" and ns: "ns \<noteq> []" "\<forall>m\<in>insert ns N. CHR '':'' \<notin> set m"
  shows "queue_client R V D C T reg owner ns (max_admitted_jobs (config ns)) (world_steps R V reg owner N config)"
proof unfold_locales
  fix q :: queue_class and job ready ttl uid a
  assume "qc_namespace q = ns" "owned_job owner ns job"
  with reg ns(1) show "world_steps R V reg owner N config a (snd (requeue R reg uid q job ready ttl a))"
    by (intro world_of_tick [OF tick_requeue ns(2)])
next
  fix jid wid ttl a
  assume "owner jid \<noteq> []"
  then show "world_steps R V reg owner N config a (snd (finalize_job R ns jid (owner jid) wid ttl a))"
    by (intro world_of_tick [OF tick_finalize ns(2)])
next
  fix a b
  assume "same_at (- metrics_keys ns) (V a) (V b)"
  then have "same_at (quiet_keys ns) (V a) (V b)" by (rule same_at_mono) (use own_keys_disjoint(3) [of ns] in blast)
  then show "world_steps R V reg owner N config a b" by (intro world_of_tick [OF tick_quiet ns(2)])
next
  fix jobs ttls mx a out b
  assume "enqueue_jobs R ns jobs True ttls mx a = (out, b)" "mx \<le> max_admitted_jobs (config ns)"
    "\<forall>j\<in>set jobs. owned_job owner ns j"
  then show "world_steps R V reg owner N config a b" by (intro world_of_tick [OF tick_enqueue ns(2)])
qed (auto intro: world_steps_trans world_view)

end

section \<open>A discard anywhere\<close>

text \<open>A job id discarded without a known namespace is purged from every registered queue; no other job
  of any queue is touched.\<close>

lemma queue_keys_disjoint_ns:
  assumes "CHR '':'' \<notin> set m" and "CHR '':'' \<notin> set ns" and "ns \<noteq> m"
  shows "queue_keys m \<inter> queue_keys ns = {}" and "queue_keys m \<inter> metrics_keys ns = {}"
proof -
  have "ns_key ns a \<notin> queue_keys m" for a by (rule queue_keys_other_ns) (use assms in auto)
  then show "queue_keys m \<inter> queue_keys ns = {}" "queue_keys m \<inter> metrics_keys ns = {}"
    using own_keys_quiet(1,2) [of ns] by blast+
qed

context redis
begin

lemma purge_job_anywhere:
  assumes "CHR '':'' \<notin> set m" and "CHR '':'' \<notin> set ns"
  shows "only_job m jid (V s) (V (snd (purge_job R ns jid tk s)))"
proof (cases "ns = m")
  case True
  then show ?thesis by (simp add: purge_job_only)
next
  case False
  with assms show ?thesis by (intro only_job_same purge_job_frame queue_keys_disjoint_ns)
qed

lemma purge_queues_anywhere:
  assumes "CHR '':'' \<notin> set m" and "\<forall>ns\<in>set nss. CHR '':'' \<notin> set ns"
  shows "only_job m jid (V s) (V (snd (purge_queues R nss jid tk s)))"
  using assms(2)
proof (induction nss arbitrary: s)
  case (Cons ns nss)
  let ?I = "\<lambda>t. only_job m jid (V s) (V t)"
  have "?I (snd (bind_try (purge_job R ns jid tk) (\<lambda>(p, r).
     bind_try (purge_queues R nss jid tk) (\<lambda>(p', r', hits) s.
       (Inr (p + p', r + r', if 0 < p \<or> 0 < r then ns # hits else hits), s))) s))"
    unfolding case_prod_beta
    by (intro bind_try_keeps [where P = ?I])
      (use Cons purge_job_anywhere [OF assms(1)] in \<open>auto intro: only_job_trans\<close>)
  then show ?case by simp
qed simp

lemma purge_queues_hits:
  "purge_queues R nss jid tk s = (Inr (p, r, hits), s') \<Longrightarrow> set hits \<subseteq> set nss"
proof (induction nss arbitrary: s p r hits)
  case (Cons ns nss)
  then show ?case by (fastforce simp: bind_try_def split: sum.splits prod.splits if_splits)
qed simp

lemma delete_records_anywhere:
  assumes "CHR '':'' \<notin> set m" and "\<forall>ns\<in>set nss. ns \<noteq> [] \<and> CHR '':'' \<notin> set ns"
  shows "only_job m jid (V s) (V (snd (delete_records R nss jid tk wid s)))"
  using assms(2)
proof (induction nss arbitrary: s)
  case (Cons ns nss)
  let ?I = "\<lambda>t. only_job m jid (V s) (V t)"
  have one: "only_job m jid (V t) (V (snd (rpc R (delete_keys R (keys_to_delete ns jid tk wid)) t)))" for t
  proof (rule rpc_invariant [where I = "only_job m jid (V t)"])
    fix u assume u: "V u = V t"
    have "only_job m jid (V u) (V (snd (delete_keys R (keys_to_delete ns jid tk wid) u)))"
    proof (cases "ns = m")
      case True
      with Cons.prems delete_keys_only show ?thesis by simp
    next
      case False
      have "set (keys_to_delete ns jid tk wid) \<subseteq> queue_keys ns"
        using keys_to_delete_mem [of ns jid tk wid] Cons.prems by auto
      then have "set (keys_to_delete ns jid tk wid) \<inter> queue_keys m = {}"
        using queue_keys_disjoint_ns(1) [OF assms(1) _ False] Cons.prems by auto
      then show ?thesis by (intro only_job_same delete_keys_frame)
    qed
    with u show "only_job m jid (V t) (V (snd (delete_keys R (keys_to_delete ns jid tk wid) u)))" by simp
  qed simp
  have "?I (snd (bind_try (rpc R (delete_keys R (keys_to_delete ns jid tk wid))) (\<lambda>results.
     bind_try (delete_records R nss jid tk wid) (\<lambda>deleted s.
       (Inr (0 < hd results \<or> deleted), s))) s))"
    by (intro bind_try_keeps [where P = ?I]) (use Cons one in \<open>auto intro: only_job_trans\<close>)
  then show ?case by simp
qed simp


lemma discard_body_anywhere:
  assumes reg: "\<forall>(k, p)\<in>set reg. qc_namespace p = k" and m: "CHR '':'' \<notin> set m" "m \<noteq> []"
    and names: "\<forall>ns\<in>fst ` set reg. ns \<noteq> [] \<and> CHR '':'' \<notin> set ns"
    and ns: "CHR '':'' \<notin> set ns" "CHR '':'' \<notin> set (qc_namespace q)"
  shows "only_job m jid (V s) (V (snd (discard_body R reg uid q jid tk ns wid outcome s)))"
proof (cases "ns = []")
  case False
  show ?thesis
  proof (cases "ns = m")
    case True
    then show ?thesis using discard_body_target(1) [OF reg False] by simp
  next
    case neq: False
    show ?thesis by (rule only_job_same, rule discard_body_frame [OF reg False]) (rule queue_keys_disjoint_ns [OF m(1) ns(1) neq])+
  qed
next
  case True
  let ?nss = "map qc_namespace (registered_queues reg)"
  let ?I = "\<lambda>t. only_job m jid (V s) (V t)"
  have nss: "\<forall>ns\<in>set ?nss. ns \<noteq> [] \<and> CHR '':'' \<notin> set ns"
    using reg names by (force simp: registered_queues_def)
  obtain x s1 where x: "purge_queues R ?nss jid tk s = (x, s1)" by force
  have I1: "?I s1" using purge_queues_anywhere [OF m(1), of ?nss jid s tk] nss x by simp
  show ?thesis
  proof (cases x)
    case (Inl e)
    then show ?thesis using x I1 True by (simp add: discard_body_def bind_try_def)
  next
    case (Inr y)
    obtain p r hits where y: "y = (p, r, hits)" by (cases y)
    have hits: "\<forall>ns\<in>set (remdups hits). ns \<noteq> [] \<and> CHR '':'' \<notin> set ns"
      using subsetD [OF purge_queues_hits [OF x [unfolded Inr y]]] nss by (simp only: set_remdups) blast
    have rec: "?I t \<Longrightarrow> ?I (record_outcome R q tk outcome (-1) False t)" for t
    proof -
      have "queue_keys m \<inter> metrics_keys (qc_namespace q) = {}"
        using queue_keys_disjoint_ns(2) [OF m(1) ns(2)] metrics_keys_queue [of m] by (cases "qc_namespace q = m") auto
      then have "only_job m jid (V t) (V (record_outcome R q tk outcome (-1) False t))"
        unfolding record_outcome_def by (intro only_job_same frame_record_task_outcome)
      then show "?I t \<Longrightarrow> ?I (record_outcome R q tk outcome (-1) False t)" by (rule only_job_trans [rotated])
    qed
    have del: "?I (snd (delete_records R (remdups hits) jid tk wid s1))"
      using only_job_trans [OF I1 delete_records_anywhere [OF m(1) hits]] .
    have "?I (snd (bind_try (delete_records R (remdups hits) jid tk wid) (\<lambda>deleted s.
          (Inr (), if tk \<noteq> [] \<and> (0 < p \<or> 0 < r \<or> deleted)
                   then record_outcome R q tk outcome (-1) False s else s)) s1))"
      by (rule bind_try_keeps [where P = ?I]) (use del rec in auto)
    then show ?thesis using True x Inr y by (simp add: discard_body_def bind_try_def)
  qed
qed

lemma discard_anywhere:
  assumes reg: "\<forall>(k, p)\<in>set reg. qc_namespace p = k" and m: "CHR '':'' \<notin> set m" "m \<noteq> []"
    and names: "\<forall>ns\<in>fst ` set reg. ns \<noteq> [] \<and> CHR '':'' \<notin> set ns"
    and ns: "CHR '':'' \<notin> set ns" "CHR '':'' \<notin> set (qc_namespace q)"
    and recs: "records_owned owner (qc_namespace q) (V s)"
  shows "only_job m jid (V s) (V (snd (discard_orphaned_job R reg uid q jid tk ns wid outcome s)))"
proof -
  obtain tk1 s1 where 1: "(if tk \<noteq> [] then (tk, s)
      else (let (ks, s) = registered_task_keys R s in (resolve_task_key_from_job_id jid ks, s))) = (tk1, s1)" by force
  have V1: "V s1 = V s" using 1 registered_task_keys_V [of s] by (auto simp: case_prod_beta Let_def split: if_splits)
  obtain job s2 where 2: "get_job R (qc_namespace q) jid s1 = (job, s2)" by force
  have V2: "V s2 = V s" using get_job_V [of "qc_namespace q" jid s1] 2 V1 by simp
  define ns' where "ns' = (case job of None \<Rightarrow> ns | Some j \<Rightarrow> if ns \<noteq> [] then ns else job_namespace j)"
  have c: "CHR '':'' \<notin> set ns'"
    using get_job_owned [of owner "qc_namespace q" s1 jid] 2 V1 recs ns
    by (auto simp: ns'_def owned_job_def split: option.split)
  define tk2 where "tk2 = (case job of None \<Rightarrow> tk1 | Some j \<Rightarrow> if tk1 \<noteq> [] then tk1 else task_key j)"
  define wid1 where "wid1 = (case job of None \<Rightarrow> wid | Some j \<Rightarrow> if wid \<noteq> [] then wid else work_item_id j)"
  define wid2 where "wid2 = (if wid1 = [] \<and> tk2 \<noteq> [] then work_item_id_from_job_id jid tk2 else wid1)"
  have "snd (discard_orphaned_job R reg uid q jid tk ns wid outcome s)
      = snd (discard_body R reg uid q jid tk2 ns' wid2 outcome s2)"
    unfolding discard_orphaned_job_def Let_def 1 [unfolded Let_def] 2 prod.case tk2_def wid2_def wid1_def ns'_def
    by (simp add: case_prod_beta split: sum.split)
  with discard_body_anywhere [OF reg m names c ns(2), of jid s2 uid tk2 wid2 outcome] V2 show ?thesis by simp
qed

end

section \<open>The tick of the process\<close>

text \<open>Whatever path every worker takes, the worker loop takes.\<close>

lemma pump_workers_path:
  assumes trans: "\<And>a b c. P a b \<Longrightarrow> P b c \<Longrightarrow> P a c" and mono: "\<And>a. P a (snd (mono R a))"
    and work: "\<And>q a r b. q \<in> Q \<Longrightarrow> work q a = Some (r, b) \<Longrightarrow> P a b" and refl: "\<And>a. P a a"
  shows "pump_workers n R deadline work running waiting acc s = Some (out, s') \<Longrightarrow> set running \<union> set waiting \<subseteq> Q
    \<Longrightarrow> P s s' \<and> set (snd out) \<subseteq> Q"
proof (induction n arbitrary: running waiting acc s)
  case 0
  then show ?case by (cases running) (auto intro: refl)
next
  case (Suc n)
  show ?case
  proof (cases running)
    case Nil
    with Suc.prems show ?thesis by (auto intro: refl)
  next
    case (Cons q running1)
    obtain r s1 where w: "work q s = Some (r, s1)" using Suc.prems(1) Cons by (auto split: option.splits)
    obtain x running2 waiting2 s2 where n: "submit_next R deadline running1 waiting s1 = ((x, running2, waiting2), s2)"
      by (metis surj_pair)
    have s2: "s2 = snd (mono R s1)" using n by (auto simp: submit_next_def Let_def case_prod_beta split: if_splits list.splits)
    have sub: "set running2 \<union> set waiting2 \<subseteq> Q"
      by (cases rule: submit_next_cases [of R deadline running1 waiting s1]) (use n Suc.prems(2) Cons in auto)
    have "P s s1" using work [of q s r s1] w Suc.prems(2) Cons by simp
    then have two: "P s s2" unfolding s2 by (rule trans) (rule mono)
    have "pump_workers n R deadline work running2 waiting2 (case r of Inl _ \<Rightarrow> acc | Inr k \<Rightarrow> acc + k) s2 = Some (out, s')"
      using Suc.prems(1) w n Cons by (simp add: Let_def)
    from Suc.IH [OF this sub] two show ?thesis by (blast intro: trans)
  qed
qed

lemma submit_first_path:
  assumes trans: "\<And>a b c. P a b \<Longrightarrow> P b c \<Longrightarrow> P a c" and mono: "\<And>a. P a (snd (mono R a))" and refl: "\<And>a. P a a"
  shows "submit_first n R deadline running waiting s = (x, s') \<Longrightarrow> P s s'"
proof (induction n arbitrary: running waiting s)
  case (Suc n)
  obtain b running1 waiting1 s1 where n: "submit_next R deadline running waiting s = ((b, running1, waiting1), s1)"
    by (metis surj_pair)
  have s1: "s1 = snd (mono R s)" using n by (auto simp: submit_next_def Let_def case_prod_beta split: if_splits list.splits)
  show ?case using Suc.IH [of running1 waiting1 s1] Suc.prems n mono [of s]
    by (auto simp: s1 split: if_splits intro: trans)
qed (simp add: refl)

lemma rotate_set: "set (rotate_for_tick queues tick) = set queues"
  using rotate_mset [of queues tick] by (metis set_mset_mset)

lemma pump_workers_cong:
  assumes "\<And>q. q \<in> Q \<Longrightarrow> work q = work' q"
  shows "set running \<union> set waiting \<subseteq> Q
    \<Longrightarrow> pump_workers n R deadline work running waiting acc s = pump_workers n R deadline work' running waiting acc s"
proof (induction n arbitrary: running waiting acc s)
  case 0
  then show ?case by (cases running) simp_all
next
  case (Suc n)
  show ?case
  proof (cases running)
    case (Cons q running1)
    have w: "work q = work' q" using assms Suc.prems Cons by simp
    let ?x = "\<lambda>u. snd (fst (submit_next R deadline running1 waiting u))"
    have "pump_workers n R deadline work (fst (?x u)) (snd (?x u)) a t = pump_workers n R deadline work' (fst (?x u)) (snd (?x u)) a t"
      for u a t
      by (rule Suc.IH, cases rule: submit_next_cases [of R deadline running1 waiting u]) (use Suc.prems Cons in auto)
    then show ?thesis using Cons w by (auto simp: Let_def case_prod_beta split: option.split)
  qed simp
qed

text \<open>A tick only fails to answer when a reaper pass runs out of fuel.\<close>

lemma pump_queue_with_lock_returns:
  assumes "\<And>l d t. reap_orphaned_queue_jobs fuel R reg uid q l d t \<noteq> None"
  shows "pump_queue_with_lock fuel R D tasks reg uid digest token q deadline tick lock_ttl s \<noteq> None"
proof -
  have c: "maybe_cleanup_queue fuel R reg uid digest q d t \<noteq> None" for d t
    using assms by (auto simp: maybe_cleanup_queue_def Let_def case_prod_beta simp del: not_None_eq split: option.splits)
  have "pump_queue fuel R D tasks reg uid digest q deadline tick t \<noteq> None" for t
    using c by (auto simp: pump_queue_def Let_def case_prod_beta simp del: not_None_eq split: option.splits sum.splits)
  then show ?thesis
    by (auto simp: pump_queue_with_lock_def Let_def case_prod_beta simp del: not_None_eq split: option.splits)
qed

lemma dispatch_global_pump_returns:
  assumes "\<And>q l d t. q \<in> set (registered_queues reg) \<Longrightarrow> reap_orphaned_queue_jobs fuel R reg uid q l d t \<noteq> None"
  shows "\<exists>n s'. dispatch_global_pump fuel R D tasks reg uid digest token shard s = Some (n, s')"
proof (cases "registered_queues reg = []")
  case True
  then show ?thesis by (simp add: dispatch_global_pump_def)
next
  case False
  let ?now = "fst (wall R s)" and ?s1 = "snd (wall R s)"
  let ?queues = "rotate_for_tick (registered_queues reg) (tick_id ?now)" and ?d = "fst (mono R ?s1) + deadline_seconds"
  let ?n = "min (length ?queues) (nat (max 1 (max_parallel_queues DispatchPumpConfig)))"
    and ?work = "\<lambda>q. pump_queue_with_lock fuel R D tasks reg uid digest (token (qc_namespace q)) q ?d (tick_id ?now) lock_ttl_seconds"
  obtain running waiting s3 where 3: "submit_first ?n R ?d [] ?queues (snd (mono R ?s1)) = ((running, waiting), s3)"
    by (metis surj_pair)
  have "length running + length waiting \<le> length ?queues"
    using submit_first_split [OF 3] by (metis append_Nil length_append order_refl)
  moreover have sub: "set running \<union> set waiting \<subseteq> set (registered_queues reg)"
    using submit_first_split [OF 3] rotate_set [of "registered_queues reg" "tick_id ?now"] by (metis append_Nil equalityD1 set_append)
  let ?total = "\<lambda>q t. if q \<in> set (registered_queues reg) then ?work q t else Some (Inr 0, t)"
  have "?total q t \<noteq> None" for q t using pump_queue_with_lock_returns [OF assms] by auto
  ultimately obtain m left s4 where "pump_workers (length ?queues) R ?d ?total running waiting 0 s3 = Some ((m, left), s4)"
    using pump_workers_total [of ?total running waiting "length ?queues" R ?d 0 s3] by blast
  moreover have "pump_workers (length ?queues) R ?d ?total running waiting 0 s3 = pump_workers (length ?queues) R ?d ?work running waiting 0 s3"
    by (rule pump_workers_cong [OF _ sub]) (simp add: fun_eq_iff)
  ultimately have "pump_workers (length ?queues) R ?d ?work running waiting 0 s3 = Some ((m, left), s4)" by simp
  with False 3 show ?thesis by (simp add: dispatch_global_pump_def Let_def case_prod_beta)
qed

context redis
begin

lemma frame_flush_shards:
  "(\<And>ns. ns \<in> set nss \<Longrightarrow> A \<inter> metrics_keys ns = {}) \<Longrightarrow> same_at A (V s) (V (flush_shards R shard timestamp nss cs s))"
proof (induction cs arbitrary: s)
  case (Cons c cs)
  let ?s1 = "pipe_execute R (concat (map (\<lambda>ns. queue_event_commands R ns ''pump_not_started'' 1 timestamp)
      (filter (\<lambda>ns. shard ns = Inr c) nss))) s"
  have "same_at A (V s) (V ?s1)"
  proof (rule frame_pipe)
    fix cmd t
    assume "cmd \<in> set (concat (map (\<lambda>ns. queue_event_commands R ns ''pump_not_started'' 1 timestamp)
        (filter (\<lambda>ns. shard ns = Inr c) nss)))"
    then obtain ns where "ns \<in> set nss" "cmd \<in> set (queue_event_commands R ns ''pump_not_started'' 1 timestamp)" by auto
    then show "same_at A (V t) (V (cmd t))" by (blast intro: frame_event_commands(1) [OF Cons.prems])
  qed
  moreover have "same_at A (V ?s1) (V (flush_shards R shard timestamp nss cs ?s1))" using Cons by blast
  ultimately show ?case by (auto intro: same_at_trans)
qed simp

end

section \<open>The program\<close>

text \<open>Which task a job id belongs to.\<close>

definition task_owner :: "'s task_registry \<Rightarrow> string \<Rightarrow> string" where
  "task_owner tasks jid = resolve_task_key_from_job_id jid (map fst tasks)"

text \<open>
  What is asked of a deployment: a consistent task registry, queues registered under their own names,
  names and keys without separators, every task's queue among \<open>N\<close>, configurations in the tables within
  the ceilings of \<open>config\<close>, and overridden methods that only use queues the way the package does.
\<close>

locale dispatch_system = settings R V D C T
  for R :: "'s env" and V :: "'s \<Rightarrow> view" and D :: "'s db" and C :: "'s \<Rightarrow> string \<rightharpoonup> pyval"
    and T :: "'s \<Rightarrow> string \<Rightarrow> string \<rightharpoonup> pyval" +
  fixes tasks :: "'s task_registry" and reg :: queue_registry and N :: "string set" and config :: "string \<Rightarrow> queue_config"
  assumes tasks_ok: "registry_ok tasks"
    and keys_ok: "\<forall>k\<in>fst ` set tasks. CHR '':'' \<notin> set k"
    and reg_ok: "\<forall>(k, p)\<in>set reg. qc_namespace p = k \<and> k \<in> N"
    and names_ok: "\<forall>ns\<in>N. ns \<noteq> [] \<and> CHR '':'' \<notin> set ns"
    and served: "\<forall>(tk, tc)\<in>set tasks. tc_namespace tc \<in> N"
    and limits: "\<And>q s c. q \<in> snd ` set reg \<union> (\<lambda>x. tc_queue (snd x)) ` set tasks \<Longrightarrow> fst (queue_from_db D q s) = Inr c
      \<Longrightarrow> max_admitted_jobs c \<le> max_admitted_jobs (config (qc_namespace q)) \<and> max_reserved c \<le> max_reserved (config (qc_namespace q))"
    and hooks: "\<forall>(tk, tc)\<in>set tasks. hooks_step (world_steps R V reg (task_owner tasks) N config) tc"

text \<open>What can happen next. A job is executed, or its worker lost, only under the id of a registered task.\<close>

inductive system_step ::
  "'s env \<Rightarrow> ('s \<Rightarrow> view) \<Rightarrow> 's db \<Rightarrow> 's route_table \<Rightarrow> 's task_registry \<Rightarrow> queue_registry \<Rightarrow> string set \<Rightarrow> 's \<Rightarrow> 's \<Rightarrow> bool"
  for R :: "'s env" and V :: "'s \<Rightarrow> view" and D :: "'s db" and RT :: "'s route_table" and tasks :: "'s task_registry"
    and reg :: queue_registry and N :: "string set" where
  submitted: "(tk, tc) \<in> set tasks \<Longrightarrow> submit R D tc c draws (PList items) spec ov s = (r, s') \<Longrightarrow>
      (\<And>c'. apply_submit_config_overrides (tc_config_cls tc) c ov = Inr c' \<Longrightarrow> uses_enqueue_dedupe c') \<Longrightarrow>
      system_step R V D RT tasks reg N s s'"
| pumped: "dispatch_global_pump fuel R D (task_configs tasks) reg uid digest token shard s = Some (n, s') \<Longrightarrow>
      system_step R V D RT tasks reg N s s'"
| executed: "execute_job R D RT reg uid tasks jid s = (u, s') \<Longrightarrow> task_owner tasks jid \<noteq> [] \<Longrightarrow>
      system_step R V D RT tasks reg N s s'"
| worker_lost: "dispatch_failure_handler R RT reg uid tasks failure [jid] s = s' \<Longrightarrow> task_owner tasks jid \<noteq> [] \<Longrightarrow>
      system_step R V D RT tasks reg N s s'"
| maintained: "dispatch_task_counts_maintenance fuel R reg token s = Some (report, s') \<Longrightarrow> system_step R V D RT tasks reg N s s'"
| beside: "(\<And>ns. ns \<in> N \<Longrightarrow> pend ns (V s') = pend ns (V s) \<and> resv ns (V s') = resv ns (V s) \<and> records_kept ns (V s) (V s'))
      \<Longrightarrow> system_step R V D RT tasks reg N s s'"

inductive_cases system_stepE: "system_step R V D RT tasks reg N s s'"

abbreviation system_steps ::
  "'s env \<Rightarrow> ('s \<Rightarrow> view) \<Rightarrow> 's db \<Rightarrow> 's route_table \<Rightarrow> 's task_registry \<Rightarrow> queue_registry \<Rightarrow> string set \<Rightarrow> 's \<Rightarrow> 's \<Rightarrow> bool" where
  "system_steps R V D RT tasks reg N \<equiv> (system_step R V D RT tasks reg N)\<^sup>*\<^sup>*"

context dispatch_system
begin

abbreviation world :: "'s \<Rightarrow> 's \<Rightarrow> bool" where
  "world \<equiv> world_steps R V reg (task_owner tasks) N config"

abbreviation typed :: "'s \<Rightarrow> bool" where
  "typed s \<equiv> \<forall>ns\<in>N. records_owned (task_owner tasks) ns (V s)"

lemma reg_named: "\<forall>(k, p)\<in>set reg. qc_namespace p = k"
  using reg_ok by auto

lemma colon_free: "ns \<in> N \<Longrightarrow> \<forall>m\<in>insert ns N. CHR '':'' \<notin> set m"
  using names_ok by auto

lemma world_typed: "world s s' \<Longrightarrow> typed s \<Longrightarrow> typed s'"
  unfolding world_steps_def using drift_steps_records [OF _ reg_named] names_ok by blast

lemma own_tick:
  "tick_steps R V reg (task_owner tasks) ns (config ns) s s' \<Longrightarrow> ns \<in> N \<Longrightarrow> world s s'"
  using world_of_tick colon_free by blast

lemma client: "ns \<in> N \<Longrightarrow>
    queue_client R V D C T reg (task_owner tasks) ns (max_admitted_jobs (config ns)) world"
  using names_ok by (intro client_world [OF reg_named _ colon_free]) auto

lemma task_facts:
  assumes "(tk, tc) \<in> set tasks"
  shows "tk \<noteq> []" and "tc_key tc = tk" and "tc_namespace tc = qc_namespace (tc_queue tc)" and "tc_namespace tc \<in> N"
    and "hooks_step world tc" and "task_owner tasks (build_job_id tk wid) = tk"
  using assms tasks_ok served hooks keys_ok
  by (auto simp: registry_ok_def task_ok_def task_owner_def rev_image_eqI intro!: resolve_build_job_id)

lemma submitted_world:
  assumes tc: "(tk, tc) \<in> set tasks" and run: "submit R D tc c draws (PList items) spec ov s = (r, s')"
    and dd: "\<And>c'. apply_submit_config_overrides (tc_config_cls tc) c ov = Inr c' \<Longrightarrow> uses_enqueue_dedupe c'"
  shows "world s s'"
proof (rule queue_client.submit_steps [OF client [OF task_facts(4) [OF tc]] task_facts(5) [OF tc] _ _ _ _ dd _ run])
  note F = task_facts [OF tc]
  show "qc_namespace (tc_queue tc) = tc_namespace tc" "tc_key tc \<noteq> []" using F by simp_all
  show "task_owner tasks (build_job_id (tc_key tc) wid) = tc_key tc" for wid using F(2,6) by simp
  fix qc assume "fst (queue_from_db D (tc_queue tc) s) = Inr qc"
  moreover have "tc_queue tc \<in> (\<lambda>x. tc_queue (snd x)) ` set tasks" using tc by (rule rev_image_eqI) simp
  ultimately show "max_admitted_jobs qc \<le> max_admitted_jobs (config (tc_namespace tc))"
    using limits [of "tc_queue tc" s qc] F(3) by simp
qed simp_all

lemma pumped_world:
  assumes typed: "typed s" and run: "dispatch_global_pump fuel R D cfgs reg uid digest token shard s = Some (n, s')"
  shows "world s s'"
proof -
  let ?P = "\<lambda>a b. typed a \<longrightarrow> world a b" and ?Q = "set (registered_queues reg)"
  have refl: "?P a a" for a by (simp add: world_view)
  have trans: "?P a c" if "?P a b" "?P b c" for a b c
  proof
    assume a: "typed a"
    from that(1) a have ab: "world a b" by (rule mp)
    from that(2) world_typed [OF ab a] have "world b c" by (rule mp)
    with ab show "world a c" by (rule world_steps_trans)
  qed
  have mono: "?P a (snd (mono R a))" for a by (simp add: world_view)
  have Q: "qc_namespace q \<in> N" if "q \<in> ?Q" for q using that reg_ok by (auto simp: registered_queues_def)
  show ?thesis
  proof (cases "registered_queues reg = []")
    case True
    with run show ?thesis by (simp add: dispatch_global_pump_def world_view)
  next
    case False
    obtain now s1 where 1: "wall R s = (now, s1)" by force
    let ?tick = "tick_id now" and ?queues = "rotate_for_tick (registered_queues reg) (tick_id now)"
    obtain t s2 where 2: "mono R s1 = (t, s2)" by force
    let ?d = "t + deadline_seconds"
      and ?n = "min (length ?queues) (nat (max 1 (max_parallel_queues DispatchPumpConfig)))"
      and ?work = "\<lambda>q. pump_queue_with_lock fuel R D cfgs reg uid digest (token (qc_namespace q)) q (t + deadline_seconds)
          (tick_id now) lock_ttl_seconds"
    obtain running waiting s3 where 3: "submit_first ?n R ?d [] ?queues s2 = ((running, waiting), s3)" by (metis surj_pair)
    from run False 1 2 3 obtain pumped left s4 where 4: "pump_workers (length ?queues) R ?d ?work running waiting 0 s3 = Some ((pumped, left), s4)"
      and s': "s' = record_pump_not_started R shard left ?tick s4"
      by (auto simp: dispatch_global_pump_def Let_def split: option.splits)
    have V2: "V s2 = V s" using law_wall [of s] law_mono [of s1] 1 2 by simp
    have P3: "?P s2 s3" by (rule submit_first_path [where P = ?P, OF trans mono refl 3])
    have sub: "set running \<union> set waiting \<subseteq> ?Q"
      using submit_first_split [OF 3] rotate_set [of "registered_queues reg" ?tick] by (metis append_Nil equalityD1 set_append)
    have work: "?P a b" if "q \<in> ?Q" "?work q a = Some (r, b)" for q a r b
    proof
      assume a: "typed a"
      have lim: "fst (queue_from_db D q s) = Inr c \<Longrightarrow> max_reserved c \<le> max_reserved (config (qc_namespace q))" for s c
        using limits [of q s c] that(1) by (auto simp: registered_queues_def)
      have "tick_steps R V reg (task_owner tasks) (qc_namespace q) (config (qc_namespace q)) a b"
        by (rule pump_queue_with_lock_steps [OF reg_named _ _ lim _ that(2)]) (use names_ok Q [OF that(1)] a in simp_all)
      then show "world a b" by (rule own_tick) (rule Q [OF that(1)])
    qed
    from pump_workers_path [where P = ?P and Q = ?Q, OF trans mono work refl 4 sub]
    have P4: "?P s3 s4" and left: "set left \<subseteq> ?Q" by simp_all
    have "world s s4" using trans [OF trans [OF _ P3] P4, of s] typed V2 by (simp add: world_view)
    moreover have "world s4 s'" unfolding s' record_pump_not_started_def Let_def
    proof (rule world_quiet, rule frame_flush_shards)
      fix m ns assume m: "m \<in> N" and "ns \<in> set (map qc_namespace (take PUMP_STARVED_METRIC_LIMIT left))"
      then have "ns \<in> N" using left Q by (auto dest: in_set_takeD)
      with m show "queue_keys m \<inter> metrics_keys ns = {}"
        using queue_keys_disjoint_ns(2) [of m ns] names_ok metrics_keys_queue [of m] by (cases "ns = m") auto
    qed
    ultimately show ?thesis by (rule world_steps_trans)
  qed
qed

lemma resolved_task:
  assumes "task_owner tasks jid \<noteq> []"
  obtains tc where "(task_owner tasks jid, tc) \<in> set tasks" "map_of tasks (task_owner tasks jid) = Some tc"
    "namespace_for_job_id (task_namespaces tasks) jid = tc_namespace tc" "tc_namespace tc \<in> N" "tc_namespace tc \<noteq> []"
proof -
  from resolve_matches(1) [OF assms [unfolded task_owner_def]]
  have "task_owner tasks jid \<in> fst ` set tasks" by (simp add: task_owner_def)
  then obtain tc where m: "map_of tasks (task_owner tasks jid) = Some tc" by (metis domIff not_None_eq dom_map_of_conv_image_fst)
  then have mem: "(task_owner tasks jid, tc) \<in> set tasks" by (rule map_of_SomeD)
  show thesis
  proof (rule that [OF mem m])
    show "namespace_for_job_id (task_namespaces tasks) jid = tc_namespace tc"
      using m assms by (simp add: namespace_for_job_id_def task_owner_def)
  qed (use task_facts(4) [OF mem] names_ok in auto)
qed

lemma fetched_job:
  assumes typed: "typed s" and jid: "task_owner tasks jid \<noteq> []"
    and run: "fetch_job R RT reg uid tasks jid s = (x, s')"
  shows "V s' = V s"
    and "x = Inr (Some job) \<Longrightarrow> job_id job = jid \<and> task_key job = task_owner tasks jid
      \<and> owned_job (task_owner tasks) (namespace_for_job_id (task_namespaces tasks) jid) job"
proof -
  obtain tc where tc: "(task_owner tasks jid, tc) \<in> set tasks" "map_of tasks (task_owner tasks jid) = Some tc"
    "namespace_for_job_id (task_namespaces tasks) jid = tc_namespace tc" "tc_namespace tc \<in> N" "tc_namespace tc \<noteq> []"
    by (rule resolved_task [OF jid]) (rule that)
  let ?ns = "tc_namespace tc"
  have run: "get_job_in R reg uid ?ns jid s = (x, s')" using run tc by (simp add: fetch_job_def)
  show "V s' = V s"
    using run get_job_V by (auto simp: get_job_in_def case_prod_beta split: sum.splits)
  show "x = Inr (Some job) \<Longrightarrow> job_id job = jid \<and> task_key job = task_owner tasks jid
      \<and> owned_job (task_owner tasks) (namespace_for_job_id (task_namespaces tasks) jid) job"
  proof -
    assume "x = Inr (Some job)"
    with run obtain q reg' where q: "serving_queue uid ?ns reg = Inr (q, reg')" "get_job R (qc_namespace q) jid s = (Some job, s')"
      by (auto simp: get_job_in_def split: sum.splits prod.splits)
    have "qc_namespace q = ?ns" by (rule serving_queue_namespace [OF q(1) tc(5) reg_named])
    with get_job_owned [of "task_owner tasks" ?ns s jid job s'] q(2) typed tc show ?thesis
      by (auto simp: owned_job_def)
  qed
qed


lemma executed_world:
  assumes typed: "typed s" and jid: "task_owner tasks jid \<noteq> []"
    and run: "execute_job R D RT reg uid tasks jid s = (u, s')"
  shows "world s s'"
proof -
  obtain tc where tc: "(task_owner tasks jid, tc) \<in> set tasks" "map_of tasks (task_owner tasks jid) = Some tc"
    "namespace_for_job_id (task_namespaces tasks) jid = tc_namespace tc" "tc_namespace tc \<in> N" "tc_namespace tc \<noteq> []"
    by (rule resolved_task [OF jid]) (rule that)
  let ?ns = "tc_namespace tc"
  obtain x s1 where 1: "fetch_job R RT reg uid tasks jid s = (x, s1)" by force
  note V1 = fetched_job(1) [OF typed jid 1] and job = fetched_job(2) [OF typed jid 1, unfolded tc(3)]
  have w1: "world s s1" by (rule world_view) (rule V1)
  consider (err) e where "x = Inl e" | (none) "x = Inr None" | (some) job where "x = Inr (Some job)"
    by (cases x) auto
  then show ?thesis
  proof cases
    case err
    with run 1 w1 show ?thesis by (simp add: execute_job_def)
  next
    case none
    with run 1 tc have d: "discard_orphaned R reg uid tasks jid s1 = (u, s')" by (simp add: execute_job_def)
    show ?thesis
    proof (cases "serving_queue uid ?ns reg")
      case (Inl e)
      with d tc w1 show ?thesis by (simp add: discard_orphaned_def)
    next
      case (Inr y)
      obtain q reg' where y: "y = (q, reg')" by (cases y)
      have q: "qc_namespace q = ?ns" by (rule serving_queue_namespace [OF Inr [unfolded y] tc(5) reg_named])
      have s': "s' = snd (discard_orphaned_job R reg uid q jid [] [] [] EXPIRED s1)"
        using d tc Inr y by (auto simp: discard_orphaned_def)
      have "only_job m jid (V s1) (V s')" if "m \<in> N" for m
        unfolding s' using that names_ok reg_ok typed V1 q tc(4)
        by (intro discard_anywhere [OF reg_named, where owner = "task_owner tasks"]) auto
      then have "world s1 s'" by (auto simp: world_steps_def intro: drift_step.drift)
      with w1 show ?thesis by (rule world_steps_trans)
    qed
  next
    case some
    note J = job [OF some]
    from run 1 some tc J have "execute_registered R D reg uid tasks tc jid job s1 = (u, s')" by (simp add: execute_job_def)
    with J have "world s1 s'"
      using task_facts(3,5) [OF tc(1)]
      by (intro queue_client.execute_registered_steps [OF client [OF tc(4)]]) simp_all
    with w1 show ?thesis by (rule world_steps_trans)
  qed
qed

lemma lost_world:
  assumes typed: "typed s" and jid: "task_owner tasks jid \<noteq> []"
    and run: "dispatch_failure_handler R RT reg uid tasks failure [jid] s = s'"
  shows "world s s'"
proof -
  obtain tc where tc: "(task_owner tasks jid, tc) \<in> set tasks" "map_of tasks (task_owner tasks jid) = Some tc"
    "namespace_for_job_id (task_namespaces tasks) jid = tc_namespace tc" "tc_namespace tc \<in> N" "tc_namespace tc \<noteq> []"
    by (rule resolved_task [OF jid]) (rule that)
  let ?ns = "tc_namespace tc"
  obtain x s1 where 1: "fetch_job R RT reg uid tasks jid s = (x, s1)" by force
  have w1: "world s s1" by (rule world_view) (rule fetched_job(1) [OF typed jid 1])
  show ?thesis
  proof (cases "\<exists>job. x = Inr (Some job) \<and> worker_gone failure \<and> jid \<noteq> []")
    case False
    with run 1 have "s' = s \<or> s' = s1"
      by (auto simp: dispatch_failure_handler_def split: sum.splits option.splits if_splits)
    then show ?thesis using w1 by (auto intro: world_view)
  next
    case True
    then obtain job where x: "x = Inr (Some job)" "worker_gone failure" "jid \<noteq> []" by blast
    have J: "job_id job = jid" "owned_job (task_owner tasks) ?ns job"
      using fetched_job(2) [OF typed jid 1 x(1)] tc by simp_all
    have ns: "job_namespace job = ?ns" "task_key job = task_owner tasks jid" "task_key job \<noteq> []"
      using J by (auto simp: owned_job_def)
    note C = client [OF tc(4)]
    have s': "s' = drop_reserved R reg uid jid job s1" using run 1 x by (simp add: dispatch_failure_handler_def)
    let ?s2 = "record_queue_event R ?ns ''celery_failure'' 1 (fst (wall R s1)) (snd (wall R s1))"
    have "world s1 (snd (wall R s1))" by (rule world_view) simp
    moreover have "world (snd (wall R s1)) ?s2"
      by (rule own_tick [OF _ tc(4)], rule tick_quiet, rule frame_record_queue_event, rule own_keys_disjoint(3))
    ultimately have w2: "world s ?s2" using w1 by (meson world_steps_trans)
    show ?thesis
    proof (cases "serving_queue uid ?ns reg")
      case (Inl e)
      then show ?thesis using w2 s' ns by (simp add: drop_reserved_def Let_def case_prod_beta)
    next
      case (Inr y)
      obtain q reg' where y: "y = (q, reg')" by (cases y)
      have q: "qc_namespace q = ?ns" by (rule serving_queue_namespace [OF Inr [unfolded y] tc(5) reg_named])
      let ?s3 = "record_outcome R q (task_key job) ERROR (-1) True ?s2"
      have "world ?s2 ?s3" by (rule queue_client.record_outcome_steps [OF C q])
      moreover have "world ?s3 (snd (finalize_job R ?ns jid (task_owner tasks jid) (work_item_id job) TASK_COUNTS_TTL_SECONDS ?s3))"
        by (rule queue_client.step_finalize [OF C]) (use ns in simp)
      moreover have "s' = snd (finalize_job R ?ns jid (task_owner tasks jid) (work_item_id job) TASK_COUNTS_TTL_SECONDS ?s3)"
        using s' ns q Inr y by (simp add: drop_reserved_def Let_def case_prod_beta)
      ultimately show ?thesis using w2 by (meson world_steps_trans)
    qed
  qed
qed


text \<open>Maintenance writes the counts of one queue and its own markers.\<close>

lemma maintain_queue_world:
  assumes ns: "ns \<in> N" and run: "maintain_queue fuel R ns token s = Some (r, s')"
  shows "world s s'"
  unfolding world_steps_def
proof
  fix m assume m: "m \<in> N"
  let ?A = "{pending_key m, reserved_key m} \<union> range (job_key m)"
  have "?A \<inter> {rebuild_lock_key ns, rebuilt_key ns, rebuild_requested_key ns, rebuild_attempt_key ns} = {}"
    and "task_counts_key ns \<notin> ?A"
    using m ns names_ok by (auto simp: key_simps ns_key_inj)
  from maintain_queue_frame [OF this run] have "only_job m [] (V s) (V s')" by (simp add: only_job_def same_at_def)
  then show "drift_steps R V reg (task_owner tasks) m (config m) s s'" by (intro r_into_rtranclp drift_step.drift)
qed

lemma maintain_first_world:
  "maintain_first fuel R trigger nss token s = Some (x, s') \<Longrightarrow> set nss \<subseteq> N \<Longrightarrow> world s s'"
proof (induction nss arbitrary: s)
  case (Cons ns nss)
  obtain r s1 where m: "maintain_queue fuel R ns (token ns) s = Some (r, s1)"
    using Cons.prems(1) by (auto split: option.splits)
  have w: "world s s1" by (rule maintain_queue_world [OF _ m]) (use Cons.prems(2) in simp)
  show ?case
  proof (cases r)
    case None
    with Cons m have "world s1 s'" by simp
    with w show ?thesis by (rule world_steps_trans)
  next
    case (Some b)
    with Cons.prems(1) m w show ?thesis by simp
  qed
qed (simp add: world_view)

lemma maintained_world:
  assumes "dispatch_task_counts_maintenance fuel R reg token s = Some (report, s')"
  shows "world s s'"
proof -
  let ?queues = "map qc_namespace (registered_queues reg)"
  obtain requested s1 where 1: "filter_state (rebuild_requested R) ?queues s = (requested, s1)" by force
  obtain daily s2 where 2: "filter_state (hard_rebuild_due R) (filter (\<lambda>ns. ns \<notin> set requested) ?queues) s1 = (daily, s2)"
    by force
  have V2: "V s2 = V s"
    using filter_state_V [of "rebuild_requested R" ?queues s]
      filter_state_V [of "hard_rebuild_due R" "filter (\<lambda>ns. ns \<notin> set requested) ?queues" s1] 1 2 by simp
  have Q: "set ?queues \<subseteq> N" using reg_ok by (auto simp: registered_queues_def)
  have sub: "set requested \<subseteq> N" "set daily \<subseteq> N"
    using filter_state_subset [OF 1] filter_state_subset [OF 2] Q by auto
  have w2: "world s s2" by (rule world_view) (rule V2)
  from assms 1 2 obtain x s3 where 3: "maintain_first fuel R ''requested'' requested token s2 = Some (x, s3)"
    by (auto simp: dispatch_task_counts_maintenance_def Let_def split: option.splits)
  have w3: "world s s3" using w2 maintain_first_world [OF 3 sub(1)] by (rule world_steps_trans)
  show ?thesis
  proof (cases x)
    case None
    with assms 1 2 3 have "maintain_first fuel R ''daily'' daily token s3 = Some (report, s')"
      by (simp add: dispatch_task_counts_maintenance_def Let_def)
    from w3 maintain_first_world [OF this sub(2)] show ?thesis by (rule world_steps_trans)
  next
    case (Some y)
    with assms 1 2 3 w3 show ?thesis by (simp add: dispatch_task_counts_maintenance_def Let_def)
  qed
qed

text \<open>Every step of the program is a path of every queue.\<close>

lemma system_step_world:
  assumes "system_step R V D RT tasks reg N s s'" and typed: "typed s"
  shows "world s s'"
  using assms(1)
proof cases
  case (submitted tk tc c draws items spec ov r)
  then show ?thesis by (blast intro: submitted_world)
next
  case (pumped fuel uid digest token shard n)
  then show ?thesis by (rule pumped_world [OF typed])
next
  case (executed uid jid u)
  then show ?thesis by (blast intro: executed_world [OF typed])
next
  case (worker_lost uid failure jid)
  then show ?thesis by (blast intro: lost_world [OF typed])
next
  case (maintained fuel token report)
  then show ?thesis by (rule maintained_world)
next
  case beside
  then show ?thesis by (auto simp: world_steps_def intro!: r_into_rtranclp drift_step.lapse)
qed


text \<open>So from well-formed queues, every run of the program leaves every queue safe.\<close>

lemma system_steps_world: "system_steps R V D RT tasks reg N s s' \<Longrightarrow> typed s \<Longrightarrow> world s s'"
proof (induction rule: rtranclp_induct)
  case base
  show ?case by (rule world_view) simp
next
  case (step t u)
  then have "world s t" by blast
  moreover have "world t u" by (rule system_step_world [OF step(2) world_typed [OF \<open>world s t\<close> step(4)]])
  ultimately show ?case by (rule world_steps_trans)
qed

lemma system_safe:
  assumes "system_steps R V D RT tasks reg N s s'" and "ns \<in> N" and "typed s" and "slots_disjoint ns (V s)"
  shows "queue_safe_from (task_owner tasks) ns (config ns) (V s) (V s')"
proof (rule drift_steps_safe [OF _ reg_named])
  show "drift_steps R V reg (task_owner tasks) ns (config ns) s s'"
    using system_steps_world [OF assms(1,3)] assms(2) by (simp add: world_steps_def)
  show "ns \<noteq> []" "slots_disjoint ns (V s)" "records_owned (task_owner tasks) ns (V s)"
    using assms names_ok by auto
qed


text \<open>A job a worker fetches in such a run is the one its id names, and its task and queue are registered.\<close>

lemma fetched_job_typed:
  assumes "system_steps R V D RT tasks reg N s s'" and "typed s" and jid: "task_owner tasks jid \<noteq> []"
    and run: "fetch_job R RT reg uid tasks jid s' = (Inr (Some job), s'')"
  shows "job_id job = jid \<and> task_key job = task_owner tasks jid
    \<and> (\<exists>tc. map_of tasks (task_key job) = Some tc \<and> qc_namespace (tc_queue tc) = job_namespace job \<and> job_namespace job \<in> N)"
proof -
  have "typed s'" by (rule world_typed [OF system_steps_world [OF assms(1,2)] assms(2)])
  from fetched_job(2) [OF this jid run refl]
  have J: "job_id job = jid" "task_key job = task_owner tasks jid" "job_namespace job = namespace_for_job_id (task_namespaces tasks) jid"
    by (simp_all add: owned_job_def)
  obtain tc where tc: "(task_owner tasks jid, tc) \<in> set tasks" "map_of tasks (task_owner tasks jid) = Some tc"
    "namespace_for_job_id (task_namespaces tasks) jid = tc_namespace tc" "tc_namespace tc \<in> N" "tc_namespace tc \<noteq> []"
    by (rule resolved_task [OF jid]) (rule that)
  with J task_facts(3) [OF tc(1)] show ?thesis by auto
qed

end

end
