(* ===== verification/Concrete_Queues.thy ===== *)
theory Concrete_Queues
  imports System
begin

text \<open>
  The queues the package itself defines: the single lane of the name service with its call gate
  (\<open>nameservice_queue.py\<close>), the cluster portrait queue (\<open>portrait_queue.py\<close>), and the verification
  queue with its task (\<open>dummy.py\<close>).
\<close>

section \<open>The name service lane\<close>

definition NAMESERVICE_NAMESPACE :: string where "NAMESERVICE_NAMESPACE = ''nameservice''"
definition NAMESERVICE_CALL_QPS :: int where "NAMESERVICE_CALL_QPS = 15"
definition NAMESERVICE_MAX_RESERVED :: int where "NAMESERVICE_MAX_RESERVED = 1"

record call_gate =
  min_interval :: real
  next_allowed :: real

definition CallIntervalGate :: "int \<Rightarrow> call_gate" where
  "CallIntervalGate qps = \<lparr>min_interval = 1 / of_int qps, next_allowed = 0\<rparr>"

text \<open>
  \<open>acquire\<close> under the lock: the time the caller goes on, on the monotonic clock, with \<open>now\<close> the time
  it reads. \<open>time.sleep\<close> lasts at least what is asked.
\<close>

definition gate_acquire :: "real \<Rightarrow> call_gate \<Rightarrow> real \<times> call_gate" where
  "gate_acquire now g =
     (let now = (if next_allowed g > now then next_allowed g else now)
      in (now, g\<lparr>next_allowed := now + min_interval g\<rparr>))"

fun gate_run :: "real list \<Rightarrow> call_gate \<Rightarrow> real list" where
  "gate_run [] g = []"
| "gate_run (t # ts) g = (let (granted, g) = gate_acquire t g in granted # gate_run ts g)"

definition NameserviceQueueConfig :: queue_config where
  "NameserviceQueueConfig = DispatchQueueConfig\<lparr>max_reserved := NAMESERVICE_MAX_RESERVED\<rparr>"

definition nameservice_from_raw :: "pydict \<Rightarrow> queue_config result" where
  "nameservice_from_raw raw =
     (case queue_from_raw NameserviceQueueConfig raw of
        Inl e \<Rightarrow> Inl e
      | Inr c \<Rightarrow> Inr (c\<lparr>max_reserved := NAMESERVICE_MAX_RESERVED\<rparr>))"

definition nameservice_validate_raw :: "pyval \<Rightarrow> unit result" where
  "nameservice_validate_raw raw =
     (case queue_validate_raw nameservice_from_raw raw of
        Inl e \<Rightarrow> Inl e
      | Inr _ \<Rightarrow>
          (case raw_items raw of
             Inl e \<Rightarrow> Inl e
           | Inr d \<Rightarrow> if dict_get d ''max_reserved'' (PInt NAMESERVICE_MAX_RESERVED) \<noteq> PInt NAMESERVICE_MAX_RESERVED
                      then Inl ValidationError else Inr ()))"

definition NameserviceQueue :: "nat \<Rightarrow> queue_class" where
  "NameserviceQueue uid = (base_queue_class ''NameserviceQueue'' uid NAMESERVICE_NAMESPACE)
     \<lparr>qc_default := NameserviceQueueConfig, qc_from_raw := nameservice_from_raw,
      qc_validate_raw := nameservice_validate_raw\<rparr>"

lemma nameservice_pinned: "nameservice_from_raw raw = Inr c \<Longrightarrow> max_reserved c = 1"
  by (auto simp: nameservice_from_raw_def NAMESERVICE_MAX_RESERVED_def split: sum.splits)

text \<open>The lane holds one job at a time, whatever was persisted.\<close>

lemma nameservice_one_lane:
  assumes "fst (queue_from_db D (NameserviceQueue uid) s) = Inr c"
  shows "max_reserved c = 1"
proof -
  obtain v s1 where v: "get_queue D NAMESERVICE_NAMESPACE s = (v, s1)" by force
  with assms obtain x d where "v = Inr x" "raw_items x = Inr d" "nameservice_from_raw d = Inr c"
    by (auto simp: queue_from_db_def NameserviceQueue_def base_queue_class_def NAMESERVICE_NAMESPACE_def
        bind_result_def split: sum.splits)
  then show ?thesis by (blast intro: nameservice_pinned)
qed

text \<open>The gate: grants are at least \<open>min_interval\<close> apart, never before the call.\<close>

lemma gate_acquire_after:
  "gate_acquire t g = (granted, g') \<Longrightarrow>
     t \<le> granted \<and> next_allowed g \<le> granted \<and> next_allowed g' = granted + min_interval g \<and> min_interval g' = min_interval g"
  by (auto simp: gate_acquire_def Let_def split: if_splits)

lemma gate_run_length: "length (gate_run ts g) = length ts"
  by (induction ts arbitrary: g) (simp_all add: Let_def case_prod_beta)

lemma gate_run_spacing:
  "i < length ts \<Longrightarrow> 0 \<le> min_interval g \<Longrightarrow> next_allowed g + of_nat i * min_interval g \<le> gate_run ts g ! i"
proof (induction ts arbitrary: g i)
  case (Cons t ts)
  obtain a g' where a: "gate_acquire t g = (a, g')" by force
  note A = gate_acquire_after [OF a]
  show ?case
  proof (cases i)
    case 0
    then show ?thesis using a A by simp
  next
    case (Suc j)
    from Cons.IH [of j g'] Cons.prems Suc A
    have "a + min_interval g + of_nat j * min_interval g \<le> gate_run ts g' ! j" by simp
    with A Suc a show ?thesis by (simp add: algebra_simps)
  qed
qed simp

lemma gate_run_apart:
  "i < j \<Longrightarrow> j < length ts \<Longrightarrow> 0 \<le> min_interval g \<Longrightarrow>
     gate_run ts g ! i + of_nat (j - i) * min_interval g \<le> gate_run ts g ! j"
proof (induction ts arbitrary: g i j)
  case (Cons t ts)
  obtain a g' where a: "gate_acquire t g = (a, g')" by force
  note A = gate_acquire_after [OF a]
  obtain k where j: "j = Suc k" using Cons.prems(1) by (cases j) auto
  show ?case
  proof (cases i)
    case 0
    have "next_allowed g' + of_nat k * min_interval g' \<le> gate_run ts g' ! k"
      by (rule gate_run_spacing) (use Cons.prems j A in auto)
    with A a j 0 show ?thesis by (simp add: algebra_simps)
  next
    case (Suc i')
    with Cons.IH [of i' k g'] Cons.prems j A a show ?thesis by simp
  qed
qed simp

section \<open>The portrait queue\<close>

definition CLUSTER_PORTRAIT_NAMESPACE :: string where "CLUSTER_PORTRAIT_NAMESPACE = ''cluster_portrait''"

definition portrait_is_congestion_outcome :: "outcome_type \<Rightarrow> bool" where
  "portrait_is_congestion_outcome outcome \<longleftrightarrow> outcome \<in> {REQUEUED, REQUEUE_EXHAUSTED}"

definition PortraitQueue :: "nat \<Rightarrow> queue_class" where
  "PortraitQueue uid = (base_queue_class ''PortraitQueue'' uid CLUSTER_PORTRAIT_NAMESPACE)
     \<lparr>qc_congestion := portrait_is_congestion_outcome\<rparr>"

section \<open>The verification queue and its task\<close>

definition DUMMY_NAMESPACE :: string where "DUMMY_NAMESPACE = ''dummy''"
definition DUMMY_TASK_KEY :: string where "DUMMY_TASK_KEY = ''dummy.smoke''"

definition dummy_is_congestion_outcome :: "outcome_type \<Rightarrow> bool" where
  "dummy_is_congestion_outcome outcome \<longleftrightarrow> outcome \<in> {REQUEUED, REQUEUE_EXHAUSTED}"

definition DummyTaskQueue :: "nat \<Rightarrow> queue_class" where
  "DummyTaskQueue uid = (base_queue_class ''DummyTaskQueue'' uid DUMMY_NAMESPACE)
     \<lparr>qc_congestion := dummy_is_congestion_outcome\<rparr>"

definition DummyTaskConfig :: task_config_class where
  "DummyTaskConfig = \<lparr>cc_task_key = DUMMY_TASK_KEY, cc_queue_namespace = DUMMY_NAMESPACE,
     cc_default = DispatchTaskConfig\<lparr>enabled := True\<rparr>\<rparr>"

definition item_flag :: "pyval \<Rightarrow> string \<Rightarrow> bool" where
  "item_flag item name = (case item of PDict d \<Rightarrow> py_truthy (dict_get d name PNone) | _ \<Rightarrow> False)"

definition dummy_work_item_id :: "(pyval \<Rightarrow> string) \<Rightarrow> pyval \<Rightarrow> string" where
  "dummy_work_item_id repr item =
     (case item of
        PDict d \<Rightarrow> py_str repr (py_or (dict_get d ''name'' PNone) (py_or (dict_get d ''work_item_id'' PNone) item))
      | _ \<Rightarrow> py_str repr item)"

definition dummy_before_execute :: "pyval \<Rightarrow> 's \<Rightarrow> string option result \<times> 's" where
  "dummy_before_execute item s =
     (Inr (if item_flag item ''skip_execute'' then Some ''dummy_skip_execute'' else None), s)"

text \<open>\<open>build_job\<close> after the base method.\<close>

definition dummy_adjust_job :: "'s env \<Rightarrow> pyval \<Rightarrow> dispatch_job \<Rightarrow> 's \<Rightarrow> dispatch_job result \<times> 's" where
  "dummy_adjust_job R item job s =
     (case item of
        PDict d \<Rightarrow>
          (if dict_get d ''ready_at'' PNone \<noteq> PNone then
             (bind_result (py_float (dict_get d ''ready_at'' PNone)) (\<lambda>t. Inr (job\<lparr>ready_at := t\<rparr>)), s)
           else if dict_get d ''delay_seconds'' PNone \<noteq> PNone then
             (let (now, s) = wall R s in
              (bind_result (py_float (dict_get d ''delay_seconds'' PNone)) (\<lambda>t. Inr (job\<lparr>ready_at := now + t\<rparr>)), s))
           else (Inr job, s))
      | _ \<Rightarrow> (Inr job, s))"

text \<open>The answer to an injected rate limit, when there is one.\<close>

definition dummy_ratelimit :: "pydict \<Rightarrow> dispatch_job \<Rightarrow> dispatch_outcome option result" where
  "dummy_ratelimit d job =
     bind_result (py_int (dict_get d ''cooldown'' (PInt 1))) (\<lambda>cooldown.
     bind_result (if py_truthy (dict_get d ''ratelimit_always'' PNone) then Inr True
                  else bind_result (py_int (dict_get d ''ratelimit_until'' (PInt 1))) (\<lambda>u. Inr (retry_count job < u)))
       (\<lambda>still_limited.
       Inr (if still_limited then
              Some ((DispatchOutcome REQUEUED)\<lparr>oc_should_requeue := True,
                      oc_requeue_cooldown_seconds := max 1 cooldown, exhausted_outcome := Some REQUEUE_EXHAUSTED\<rparr>)
            else None)))"

text \<open>Sleeping leaves the state alone.\<close>

definition dummy_execute :: "task_config \<Rightarrow> pyval \<Rightarrow> dispatch_job \<Rightarrow> 's \<Rightarrow> dispatch_outcome result \<times> 's" where
  "dummy_execute config item job s =
     (if item_flag item ''raise'' then (Inl UserError, s)
      else if item_flag item ''timeout'' then (Inr (DispatchOutcome TIMEOUT), s)
      else
        (case (if item_flag item ''ratelimit'' \<or> item_flag item ''ratelimit_always''
               then (case item of PDict d \<Rightarrow> dummy_ratelimit d job | _ \<Rightarrow> Inr None) else Inr None) of
           Inl e \<Rightarrow> (Inl e, s)
         | Inr (Some outcome) \<Rightarrow> (Inr outcome, s)
         | Inr None \<Rightarrow>
             (case item of
                PDict d \<Rightarrow>
                  (if dict_get d ''sleep'' PNone \<noteq> PNone then
                     (case py_float (py_or (dict_get d ''sleep'' PNone) (PInt 0)) of
                        Inl e \<Rightarrow> (Inl e, s) | Inr _ \<Rightarrow> (Inr (DispatchOutcome SUCCESS), s))
                   else (Inr (DispatchOutcome SUCCESS), s))
              | _ \<Rightarrow> (Inr (DispatchOutcome SUCCESS), s))))"

definition DummyTask :: "'s env \<Rightarrow> nat \<Rightarrow> nat \<Rightarrow> (pyval \<Rightarrow> string) \<Rightarrow> 's task_class" where
  "DummyTask R uid queue_uid repr =
     (base_task uid ''DummyTask'' repr DummyTaskConfig (DummyTaskQueue queue_uid) dummy_execute)
       \<lparr>tc_work_item_id := dummy_work_item_id repr, tc_adjust_job := dummy_adjust_job R,
        tc_before_execute := dummy_before_execute\<rparr>"

text \<open>The task is registered under its own key and asks no more of the queue than a step.\<close>

lemma DummyTask_ok: "task_ok DUMMY_TASK_KEY (DummyTask R uid quid repr)"
  by (simp add: task_ok_def DummyTask_def base_task_def DummyTaskConfig_def DummyTaskQueue_def base_queue_class_def
      DUMMY_TASK_KEY_def DUMMY_NAMESPACE_def)

lemma dummy_execute_state: "snd (dummy_execute c item job s) = s"
  by (simp add: dummy_execute_def split: sum.split option.split pyval.split)

lemma dummy_adjust_identity: "fst (dummy_adjust_job R item job s) = Inr j \<Longrightarrow> same_identity j job"
  by (auto simp: same_identity_def dummy_adjust_job_def bind_result_def Let_def case_prod_beta split: sum.splits pyval.splits if_splits)

context redis
begin

lemma dummy_adjust_V: "V (snd (dummy_adjust_job R item job s)) = V s"
  by (simp add: dummy_adjust_job_def Let_def case_prod_beta split: sum.split pyval.split)

lemma DummyTask_hooks:
  assumes "\<And>a b. V b = V a \<Longrightarrow> P a b"
  shows "hooks_step P (DummyTask R uid quid repr)"
  using dummy_adjust_identity assms [OF dummy_adjust_V] assms
  by (auto simp: hooks_step_def DummyTask_def base_task_def dummy_before_execute_def dummy_execute_state)

end

section \<open>The verification queue as a deployment\<close>

text \<open>The reference instance without a cache and without saved settings, on which the class defaults apply.\<close>

definition bare_db :: "mem db" where
  "bare_db = \<lparr>cache_get = (\<lambda>s k. (Inr None, s)), cache_set = (\<lambda>s k v ttl. (Inr (), s)),
     cache_delete = (\<lambda>s k. (Inr (), s)), row_config = (\<lambda>s kind ident. (Inr None, s)),
     row_write = (\<lambda>s kind ident v. (Inl ValueError, s))\<rparr>"

definition bare_cache_map :: "mem \<Rightarrow> string \<rightharpoonup> pyval" where
  "bare_cache_map s = Map.empty"

definition bare_rows_map :: "mem \<Rightarrow> string \<Rightarrow> string \<rightharpoonup> pyval" where
  "bare_rows_map s kind = Map.empty"

interpretation bare_settings: settings mem_env mem_view bare_db bare_cache_map bare_rows_map
  by unfold_locales (simp_all add: bare_db_def bare_cache_map_def bare_rows_map_def fun_eq_iff)

definition dummy_tasks :: "mem task_registry" where
  "dummy_tasks = [(DUMMY_TASK_KEY, DummyTask mem_env 1 2 (\<lambda>_. []))]"

definition dummy_queues :: queue_registry where
  "dummy_queues = [(DUMMY_NAMESPACE, DummyTaskQueue 2)]"

lemma dummy_names [simp]:
  "qc_namespace (DummyTaskQueue uid) = ''dummy''" "tc_queue (DummyTask R uid quid repr) = DummyTaskQueue quid"
  "tc_namespace (DummyTask R uid quid repr) = ''dummy''" "tc_key (DummyTask R uid quid repr) = ''dummy.smoke''"
  by (simp_all add: DummyTask_def base_task_def DummyTaskConfig_def DummyTaskQueue_def base_queue_class_def
      DUMMY_TASK_KEY_def DUMMY_NAMESPACE_def)

lemma dummy_config: "fst (queue_from_db bare_db (DummyTaskQueue uid) s) = Inr DispatchQueueConfig"
  by code_simp

interpretation dummy_client: queue_client mem_env mem_view mem_db mem_cache_map mem_rows_map dummy_queues
    "task_owner dummy_tasks" DUMMY_NAMESPACE "max_admitted_jobs DispatchQueueConfig"
    "queue_steps mem_env mem_view dummy_queues (task_owner dummy_tasks) DUMMY_NAMESPACE DispatchQueueConfig"
  by (rule mem_settings.client_exact) (simp add: dummy_queues_def DUMMY_NAMESPACE_def)

interpretation dummy_system: dispatch_system mem_env mem_view bare_db bare_cache_map bare_rows_map
    dummy_tasks dummy_queues "{DUMMY_NAMESPACE}" "\<lambda>_. DispatchQueueConfig"
proof unfold_locales
  show "registry_ok dummy_tasks" using DummyTask_ok by (simp add: registry_ok_def dummy_tasks_def)
  show "\<forall>(tk, tc)\<in>set dummy_tasks. hooks_step (world_steps mem_env mem_view dummy_queues (task_owner dummy_tasks)
      {DUMMY_NAMESPACE} (\<lambda>_. DispatchQueueConfig)) tc"
    unfolding dummy_tasks_def by (auto intro!: mem.DummyTask_hooks mem.world_view)
qed (auto simp: dummy_tasks_def dummy_queues_def DUMMY_TASK_KEY_def DUMMY_NAMESPACE_def dummy_config)

end
