(* ===== verification/Histograms.thy ===== *)
theory Histograms
  imports Queue_State
begin

text \<open>
  The histograms of \<open>dispatch/metrics.py\<close> against their specification. A histogram is kept as one counter
  per bin, raised batch by batch; what is read back are cumulative buckets. The specification counts, for
  every boundary, the observations that do not exceed it.
\<close>

section \<open>The specification\<close>

definition bucket_count :: "real list \<Rightarrow> real option \<Rightarrow> int" where
  "bucket_count xs b = (case b of None \<Rightarrow> int (length xs) | Some x \<Rightarrow> int (length (filter (\<lambda>v. v \<le> x) xs)))"

definition reference_histogram :: "real option list \<Rightarrow> real list \<Rightarrow> histogram_summary" where
  "reference_histogram bounds xs =
     \<lparr>hist_buckets = map (\<lambda>b. (b, bucket_count xs b)) bounds, hist_count = int (length xs), hist_sum = sum_list xs\<rparr>"

text \<open>A sequence of recordings, and the observations of one stage it holds.\<close>

fun record_all :: "'s env \<Rightarrow> string \<Rightarrow> (string \<times> real list \<times> real) list \<Rightarrow> 's \<Rightarrow> 's" where
  "record_all R ns [] s = s"
| "record_all R ns ((stage, vals, t) # rest) s = record_all R ns rest (record_histogram_values R ns stage vals t s)"

definition observations :: "string \<Rightarrow> (string \<times> real list \<times> real) list \<Rightarrow> real list" where
  "observations stage recs = concat (map (\<lambda>(st, vals, t). if st = stage then filter (\<lambda>v. 0 \<le> v) vals else []) recs)"

section \<open>Bins and boundaries\<close>

definition bound_le :: "real option \<Rightarrow> real option \<Rightarrow> bool" where
  "bound_le a b = (case b of None \<Rightarrow> True | Some y \<Rightarrow> (case a of None \<Rightarrow> False | Some x \<Rightarrow> x \<le> y))"

lemma bound_le_below: "bound_le a b \<Longrightarrow> below b v \<Longrightarrow> below a v"
  by (auto simp: bound_le_def below_def split: option.splits)

text \<open>With ascending boundaries, a value is in a bin up to \<open>i\<close> iff it does not exceed boundary \<open>i\<close>.\<close>

lemma bisect_left_upto:
  "sorted_wrt bound_le bs \<Longrightarrow> i < length bs \<Longrightarrow> bisect_left bs v \<le> i \<longleftrightarrow> \<not> below (bs ! i) v"
proof (induction bs arbitrary: i)
  case (Cons b bs)
  show ?case
  proof (cases i)
    case 0
    then show ?thesis by (simp add: bisect_left_def)
  next
    case (Suc j)
    with Cons.prems have "bound_le b (bs ! j)" by simp
    then have "below (bs ! j) v \<Longrightarrow> below b v" by (rule bound_le_below)
    with Cons.IH [of j] Cons.prems Suc show ?thesis by (auto simp: bisect_left_def)
  qed
qed simp

lemma count_if_Suc: "count_if (\<lambda>v. f v < Suc n) xs = count_if (\<lambda>v. f v < n) xs + count_if (\<lambda>v. f v = n) xs"
  by (induction xs) auto

lemma bucket_count_below: "bucket_count xs b = int (count_if (\<lambda>v. \<not> below b v) xs)"
  by (induction xs) (auto simp: bucket_count_def below_def split: option.splits)

text \<open>Reading the bins back sums them up to the specification.\<close>

lemma cumulative_buckets_reference:
  assumes "sorted_wrt bound_le (pre @ bs)"
    and "\<And>j. read_counter raw (stage @ '':bin:'' @ str_of_nat j) = Inr (int (count_if (\<lambda>v. bisect_left (pre @ bs) v = j) xs))"
  shows "cumulative_buckets raw stage (length pre) (int (count_if (\<lambda>v. bisect_left (pre @ bs) v < length pre) xs)) bs
    = Inr (map (\<lambda>b. (b, bucket_count xs b)) bs)"
  using assms
proof (induction bs arbitrary: pre)
  case (Cons b bs)
  let ?f = "bisect_left (pre @ b # bs)" and ?i = "length pre"
  have "?f v < Suc ?i \<longleftrightarrow> \<not> below b v" for v
    using bisect_left_upto [OF Cons.prems(1), of ?i v] by (simp add: less_Suc_eq_le)
  then have "bucket_count xs b = int (count_if (\<lambda>v. ?f v < Suc ?i) xs)" by (simp add: bucket_count_below)
  then have b: "int (count_if (\<lambda>v. ?f v < ?i) xs) + int (count_if (\<lambda>v. ?f v = ?i) xs) = bucket_count xs b"
    by (simp add: count_if_Suc)
  from Cons.IH [of "pre @ [b]"] Cons.prems
  have "cumulative_buckets raw stage (Suc ?i) (int (count_if (\<lambda>v. ?f v < Suc ?i) xs)) bs
      = Inr (map (\<lambda>b. (b, bucket_count xs b)) bs)" by simp
  then show ?case using Cons.prems(2) [of ?i] b by (simp add: count_if_Suc)
qed simp

lemma bin_counts_map:
  "(case map_of (bin_counts bs xs) i of None \<Rightarrow> 0 | Some n \<Rightarrow> n) = int (count_if (\<lambda>v. bisect_left bs v = i) xs)"
proof -
  let ?c = "\<lambda>i. int (count_if (\<lambda>v. bisect_left bs v = i) xs)"
  have sel: "map_of (filter (\<lambda>(i, n). n \<noteq> 0) (map (\<lambda>i. (i, ?c i)) is)) i
      = (if i \<in> set is \<and> ?c i \<noteq> 0 then Some (?c i) else None)" for "is"
    by (induction "is") auto
  have "?c i = 0" if "Suc (length bs) \<le> i"
  proof -
    have "bisect_left bs v \<noteq> i" for v using bisect_left_le [of bs v] that by linarith
    then show ?thesis by simp
  qed
  then show ?thesis unfolding bin_counts_def sel by (cases "i < Suc (length bs)") (simp_all del: upt_Suc length_0_conv)
qed

lemma bin_counts_distinct: "distinct (map fst (bin_counts bs xs))"
proof -
  have d: "distinct (map fst (filter P (map (\<lambda>i. (i, c i)) is)))" if "distinct is" for P and c :: "nat \<Rightarrow> int" and "is" :: "nat list"
    using that by (induction "is") auto
  show ?thesis unfolding bin_counts_def by (rule d) (rule distinct_upt)
qed

section \<open>The fields of a histogram\<close>

text \<open>Decimal numerals are read back, so the fields of two bins differ.\<close>

definition digit_value :: "char \<Rightarrow> nat" where
  "digit_value c = of_char c - 48"

definition value_of_numeral :: "string \<Rightarrow> nat" where
  "value_of_numeral s = foldl (\<lambda>n c. 10 * n + digit_value c) 0 s"

lemma digit_value_char: "d < 10 \<Longrightarrow> digit_value (digit_char d) = d"
proof -
  have "\<forall>d\<in>set [0..<10]. digit_value (digit_char d) = d" by code_simp
  then show "d < 10 \<Longrightarrow> digit_value (digit_char d) = d" by simp
qed

lemma value_of_str: "value_of_numeral (str_of_nat n) = n"
proof (induction n rule: str_of_nat.induct)
  case (1 n)
  then show ?case
    by (subst str_of_nat.simps) (simp add: value_of_numeral_def digit_value_char)
qed

lemma str_of_nat_inj: "str_of_nat m = str_of_nat n \<longleftrightarrow> m = n"
  by (metis value_of_str)

text \<open>What the hash of the histograms holds of one stage.\<close>

definition stage_holds :: "view \<Rightarrow> string \<Rightarrow> string \<Rightarrow> real option list \<Rightarrow> real list \<Rightarrow> bool" where
  "stage_holds v key stage bs xs \<longleftrightarrow>
     hash_int v key (stage @ '':count'') = Some (int (length xs))
     \<and> (\<forall>i. hash_int v key (stage @ '':bin:'' @ str_of_nat i) = Some (int (count_if (\<lambda>x. bisect_left bs x = i) xs)))
     \<and> (case hs v key (stage @ '':sum'') of None \<Rightarrow> sum_list xs = 0 | Some y \<Rightarrow> y = PFloat (sum_list xs))"

lemma stage_fields:
  "stage @ '':count'' \<noteq> stage @ '':sum''" "stage @ '':count'' \<noteq> stage @ '':bin:'' @ x" "stage @ '':sum'' \<noteq> stage @ '':bin:'' @ x"
  "stage @ '':bin:'' @ str_of_nat i = stage @ '':bin:'' @ str_of_nat j \<longleftrightarrow> i = j"
  by (simp_all add: str_of_nat_inj)

text \<open>The three stages do not share a field.\<close>

lemma other_stage_fields:
  assumes "(st, bs) \<in> set HISTOGRAM_BUCKETS" and "(st', bs') \<in> set HISTOGRAM_BUCKETS" and "st \<noteq> st'"
  shows "st @ CHR '':'' # x \<noteq> st' @ CHR '':'' # y"
  using assms by (auto simp: HISTOGRAM_BUCKETS_def)

lemma stages_ascending: "(st, bs) \<in> set HISTOGRAM_BUCKETS \<Longrightarrow> sorted_wrt bound_le bs"
  by (auto simp: HISTOGRAM_BUCKETS_def bound_le_def)

lemma stage_boundaries: "(st, bs) \<in> set HISTOGRAM_BUCKETS \<Longrightarrow> map_of HISTOGRAM_BUCKETS st = Some bs"
  by (auto simp: HISTOGRAM_BUCKETS_def)

section \<open>Recording\<close>

context redis
begin

lemma histogram_bins_lua_effect:
  assumes "distinct (map fst bins)"
    and "\<And>i. hash_int (V s) hk (stage @ '':bin:'' @ str_of_nat i) = Some (g i)"
  shows "fst (histogram_bins_lua R hk stage bins s) = Inr ()"
    and "hash_int (V (snd (histogram_bins_lua R hk stage bins s))) hk (stage @ '':bin:'' @ str_of_nat i)
      = Some (g i + (case map_of bins i of None \<Rightarrow> 0 | Some n \<Rightarrow> n))"
    and "(\<And>i. f \<noteq> stage @ '':bin:'' @ str_of_nat i) \<Longrightarrow> hs (V (snd (histogram_bins_lua R hk stage bins s))) hk f = hs (V s) hk f"
proof -
  have "fst (histogram_bins_lua R hk stage bins s) = Inr ()
    \<and> (\<forall>i. hash_int (V (snd (histogram_bins_lua R hk stage bins s))) hk (stage @ '':bin:'' @ str_of_nat i)
        = Some (g i + (case map_of bins i of None \<Rightarrow> 0 | Some n \<Rightarrow> n)))
    \<and> (\<forall>f. (\<forall>i. f \<noteq> stage @ '':bin:'' @ str_of_nat i) \<longrightarrow> hs (V (snd (histogram_bins_lua R hk stage bins s))) hk f = hs (V s) hk f)"
    using assms
  proof (induction bins arbitrary: s g)
    case (Cons b bins)
    obtain k n where b: "b = (k, n)" by (cases b)
    let ?f = "\<lambda>i. stage @ '':bin:'' @ str_of_nat i" and ?s = "snd (r_hincrby R s hk (stage @ '':bin:'' @ str_of_nat k) n)"
    let ?g = "\<lambda>i. if i = k then g k + n else g i"
    have V1: "V ?s = v_hset hk (?f k) (PInt (g k + n)) (V s)" using Cons.prems(2) [of k] by (simp add: v_hincrby_def)
    have g: "hash_int (V ?s) hk (?f i) = Some (?g i)" for i
      unfolding V1 hash_int_hset using Cons.prems(2) stage_fields(4) by simp
    have run: "histogram_bins_lua R hk stage (b # bins) s = histogram_bins_lua R hk stage bins ?s"
      using Cons.prems(2) [of k] by (simp add: b Let_def case_prod_beta)
    have k: "map_of bins k = None" using Cons.prems(1) b by (simp add: map_of_eq_None_iff)
    have other: "hs (V ?s) hk f = hs (V s) hk f" if "\<forall>i. f \<noteq> ?f i" for f
      using that unfolding V1 by (simp add: v_hset_def)
    from Cons.IH [OF _ g] Cons.prems(1) b k other show ?case unfolding run by (auto split: option.splits)
  qed simp
  then show "fst (histogram_bins_lua R hk stage bins s) = Inr ()"
    and "hash_int (V (snd (histogram_bins_lua R hk stage bins s))) hk (stage @ '':bin:'' @ str_of_nat i)
      = Some (g i + (case map_of bins i of None \<Rightarrow> 0 | Some n \<Rightarrow> n))"
    and "(\<And>i. f \<noteq> stage @ '':bin:'' @ str_of_nat i) \<Longrightarrow> hs (V (snd (histogram_bins_lua R hk stage bins s))) hk f = hs (V s) hk f"
    by blast+
qed


lemma histogram_lua_effect:
  fixes s :: 's and vs :: "real list" and started :: string and t :: real
  assumes "stage_holds (V s) key stage bs xs"
  defines "s' \<equiv> snd (record_histogram_lua R key started stage (int (length vs)) (sum_list vs) t (bin_counts bs vs) s)"
  shows "stage_holds (V s') key stage bs (xs @ vs)"
    and "f \<noteq> stage @ '':count'' \<Longrightarrow> f \<noteq> stage @ '':sum'' \<Longrightarrow> (\<And>i. f \<noteq> stage @ '':bin:'' @ str_of_nat i)
      \<Longrightarrow> hs (V s') key f = hs (V s) key f"
proof -
  let ?f = "\<lambda>i. stage @ '':bin:'' @ str_of_nat i"
  let ?s1 = "snd (r_setnx R s started (PFloat t) None)"
  have h1: "hs (V ?s1) = hs (V s)" by (simp add: v_set_def)
  note H = assms(1) [unfolded stage_holds_def]
  let ?s2 = "snd (r_hincrby R ?s1 key (stage @ '':count'') (int (length vs)))"
  have c1: "hash_int (V ?s1) key g = hash_int (V s) key g" for g by (simp only: hash_int_def h1)
  have r2: "fst (r_hincrby R ?s1 key (stage @ '':count'') (int (length vs))) = Inr (int (length (xs @ vs)))"
    unfolding law_hincrby_r c1 using H by simp
  have V2: "V ?s2 = v_hset key (stage @ '':count'') (PInt (int (length (xs @ vs)))) (V ?s1)"
    unfolding law_hincrby v_hincrby_def c1 using H by simp
  let ?s3 = "r_hincrbyfloat R ?s2 key (stage @ '':sum'') (sum_list vs)"
  have "hs (V ?s2) key (stage @ '':sum'') = hs (V s) key (stage @ '':sum'')"
    unfolding V2 using stage_fields(1) [of stage] by (simp add: v_hset_def h1 del: laws)
  then have sum2: "hash_real (V ?s2) key (stage @ '':sum'') = sum_list xs"
    using H unfolding hash_real_def by (simp split: option.splits)
  have V3: "V ?s3 = v_hset key (stage @ '':sum'') (PFloat (sum_list (xs @ vs))) (V ?s2)"
    unfolding law_hincrbyfloat v_hincrbyfloat_def sum2 by simp
  have hs3: "hs (V ?s3) key g = (if g = stage @ '':sum'' then Some (PFloat (sum_list (xs @ vs)))
      else if g = stage @ '':count'' then Some (PInt (int (length (xs @ vs)))) else hs (V s) key g)" for g
    unfolding V3 V2 by (simp add: v_hset_def h1 del: laws)
  have bins3: "hash_int (V ?s3) key (?f i) = Some (int (count_if (\<lambda>x. bisect_left bs x = i) xs))" for i
    using H stage_fields unfolding hash_int_def hs3 by auto
  let ?b = "histogram_bins_lua R key stage (bin_counts bs vs) ?s3"
  note B = histogram_bins_lua_effect [OF bin_counts_distinct bins3]
  have run: "record_histogram_lua R key started stage (int (length vs)) (sum_list vs) t (bin_counts bs vs) s
      = (Inr (int (length vs)), snd ?b)"
    unfolding record_histogram_lua_def Let_def case_prod_beta r2 sum.case B(1) by (rule refl)
  have s': "s' = snd ?b" unfolding s'_def run by simp
  have out: "hs (V s') key g = (if g = stage @ '':sum'' then Some (PFloat (sum_list (xs @ vs)))
      else if g = stage @ '':count'' then Some (PInt (int (length (xs @ vs)))) else hs (V s) key g)" if "\<And>i. g \<noteq> ?f i" for g
    unfolding s' hs3 [symmetric] by (rule B(3)) (rule that)
  have cnt: "hs (V s') key (stage @ '':count'') = Some (PInt (int (length (xs @ vs))))"
    "hs (V s') key (stage @ '':sum'') = Some (PFloat (sum_list (xs @ vs)))"
    using out [of "stage @ '':count''"] out [of "stage @ '':sum''"] by simp_all
  have bins: "hash_int (V s') key (?f i) = Some (int (count_if (\<lambda>x. bisect_left bs x = i) (xs @ vs)))" for i
    unfolding s' B(2) bin_counts_map by simp
  show "stage_holds (V s') key stage bs (xs @ vs)"
    unfolding stage_holds_def using bins cnt by (simp add: hash_int_def)
  show "f \<noteq> stage @ '':count'' \<Longrightarrow> f \<noteq> stage @ '':sum'' \<Longrightarrow> (\<And>i. f \<noteq> ?f i) \<Longrightarrow> hs (V s') key f = hs (V s) key f"
    using out [of f] by simp
qed

lemma stage_holds_cong:
  "(\<And>x. hs v' key (stage @ CHR '':'' # x) = hs v key (stage @ CHR '':'' # x)) \<Longrightarrow>
     stage_holds v' key stage bs xs = stage_holds v key stage bs xs"
  by (simp add: stage_holds_def hash_int_def)

end

text \<open>On a connection that answers, recording keeps what every stage holds up to date, whatever the stage.\<close>

definition all_stages_hold :: "view \<Rightarrow> string \<Rightarrow> (string \<Rightarrow> real list) \<Rightarrow> bool" where
  "all_stages_hold v key obs \<longleftrightarrow> (\<forall>(stage, bs)\<in>set HISTOGRAM_BUCKETS. stage_holds v key stage bs (obs stage))"

lemma all_stages_cong: "hs v' key = hs v key \<Longrightarrow> all_stages_hold v' key obs = all_stages_hold v key obs"
  by (simp add: all_stages_hold_def stage_holds_def hash_int_def)

lemma observations_Cons: "observations st ((stage, vals, t) # recs) = (if stage = st then filter (\<lambda>v. 0 \<le> v) vals else []) @ observations st recs"
  by (simp add: observations_def)

lemma unknown_stage_observations: "map_of HISTOGRAM_BUCKETS stage = None \<Longrightarrow> (st, bs) \<in> set HISTOGRAM_BUCKETS \<Longrightarrow> stage \<noteq> st"
  using stage_boundaries by fastforce

context redis_up
begin

lemma pipe_one_up: "pipe_execute R [c] s = c (snd (net R s))"
  by (simp add: pipe_execute_def rpc_up)

lemma record_histogram_holds:
  assumes "all_stages_hold (V s) (histograms_key ns) obs"
  shows "all_stages_hold (V (record_histogram_values R ns stage vals t s)) (histograms_key ns)
    (\<lambda>st. obs st @ (if stage = st then filter (\<lambda>v. 0 \<le> v) vals else []))"
proof (cases "map_of HISTOGRAM_BUCKETS stage = None \<or> filter (\<lambda>v. 0 \<le> v) vals = []")
  case True
  then have r: "record_histogram_values R ns stage vals t s = s"
    by (auto simp: record_histogram_values_def histogram_commands_def Let_def simp del: filter_empty_conv split: option.split)
  have "(if stage = st then filter (\<lambda>v. 0 \<le> v) vals else []) = []" if "(st, bs) \<in> set HISTOGRAM_BUCKETS" for st bs
    using True unknown_stage_observations [OF _ that] by (cases "stage = st") auto
  with assms show ?thesis unfolding r by (fastforce simp: all_stages_hold_def)
next
  case False
  then obtain bounds where b: "map_of HISTOGRAM_BUCKETS stage = Some bounds" by auto
  then have mem: "(stage, bounds) \<in> set HISTOGRAM_BUCKETS" by (rule map_of_SomeD)
  let ?key = "histograms_key ns" and ?vs = "filter (\<lambda>v. 0 \<le> v) vals" and ?s1 = "snd (net R s)"
  let ?s' = "snd (record_histogram_lua R ?key (started_at_key ns) stage (int (length ?vs)) (sum_list ?vs) t (bin_counts bounds ?vs) ?s1)"
  have s': "record_histogram_values R ns stage vals t s = ?s'"
    using False b by (simp add: record_histogram_values_def histogram_commands_def Let_def pipe_one_up del: filter_empty_conv)
  have h: "stage_holds (V ?s1) ?key st bs (obs st)" if "(st, bs) \<in> set HISTOGRAM_BUCKETS" for st bs
    using assms that by (auto simp: all_stages_hold_def)
  note E = histogram_lua_effect [OF h [OF mem], where vs = ?vs and started = "started_at_key ns" and t = t]
  have "stage_holds (V ?s') ?key st bs (obs st @ (if stage = st then ?vs else []))"
    if st: "(st, bs) \<in> set HISTOGRAM_BUCKETS" for st bs
  proof (cases "stage = st")
    case True
    then have "bs = bounds" using stage_boundaries [OF st] b by simp
    then show ?thesis using E(1) True by simp
  next
    case other: False
    have "hs (V ?s') ?key (st @ CHR '':'' # x) = hs (V ?s1) ?key (st @ CHR '':'' # x)" for x
      by (rule E(2)) (use other_stage_fields [OF st mem] other in auto)
    then have "stage_holds (V ?s') ?key st bs (obs st) = stage_holds (V ?s1) ?key st bs (obs st)" by (rule stage_holds_cong)
    then show ?thesis using h [OF st] other by simp
  qed
  then show ?thesis unfolding s' all_stages_hold_def by blast
qed

lemma record_all_holds:
  "all_stages_hold (V s) (histograms_key ns) obs \<Longrightarrow>
     all_stages_hold (V (record_all R ns recs s)) (histograms_key ns) (\<lambda>st. obs st @ observations st recs)"
proof (induction recs arbitrary: s obs)
  case Nil
  then show ?case by (simp add: observations_def)
next
  case (Cons x recs)
  obtain stage vals t where x: "x = (stage, vals, t)" by (cases x)
  from Cons.IH [OF record_histogram_holds [OF Cons.prems, of stage vals t]]
  show ?case unfolding x observations_Cons by simp
qed

end

section \<open>Reading\<close>

lemma read_counter_of_hash:
  assumes "map_of raw = hs v key" and "hash_int v key f = Some n"
  shows "read_counter raw f = Inr n"
  using assms by (auto simp: read_counter_def dict_get_def hash_int_def py_or_def split: option.splits pyval.splits)

lemma read_histogram_reference:
  assumes raw: "map_of raw = hs v key" and mem: "(stage, bs) \<in> set HISTOGRAM_BUCKETS" and h: "stage_holds v key stage bs xs"
  shows "read_histogram raw stage bs = Inr (reference_histogram bs xs)"
proof -
  note H = h [unfolded stage_holds_def]
  have "cumulative_buckets raw stage (length ([] :: real option list)) (int (count_if (\<lambda>v. bisect_left ([] @ bs) v < length ([] :: real option list)) xs)) bs
      = Inr (map (\<lambda>b. (b, bucket_count xs b)) bs)"
    by (rule cumulative_buckets_reference)
      (use H stages_ascending [OF mem] in \<open>auto intro: read_counter_of_hash [OF raw]\<close>)
  then have c: "cumulative_buckets raw stage 0 0 bs = Inr (map (\<lambda>b. (b, bucket_count xs b)) bs)" by simp
  have n: "read_counter raw (stage @ '':count'') = Inr (int (length xs))" using H by (intro read_counter_of_hash [OF raw]) simp
  have "py_float (py_or (dict_get raw (stage @ '':sum'') (PFloat 0)) (PFloat 0)) = Inr (sum_list xs)"
    using H raw by (auto simp: dict_get_def py_or_def split: option.splits)
  with c n show ?thesis by (simp add: read_histogram_def reference_histogram_def)
qed

lemma read_stages_reference:
  assumes "map_of raw = hs v key"
    and "\<forall>(stage, bs)\<in>set stages. (stage, bs) \<in> set HISTOGRAM_BUCKETS \<and> stage_holds v key stage bs (obs stage)"
  shows "read_stages raw stages = Inr (map (\<lambda>(stage, bs). (stage, reference_histogram bs (obs stage))) stages)"
  using assms(2)
  by (induction stages) (auto simp: read_histogram_reference [OF assms(1)])

context redis_up
begin

text \<open>Whatever was recorded, in whatever batches, reads back as the histogram of all observations.\<close>

lemma histograms_reference:
  assumes "hs (V s) (histograms_key ns) = Map.empty"
  shows "fst (read_histograms R ns (record_all R ns recs s))
    = Inr (map (\<lambda>(stage, bs). (stage, reference_histogram bs (observations stage recs))) HISTOGRAM_BUCKETS)"
proof -
  let ?key = "histograms_key ns" and ?s' = "record_all R ns recs s"
  have "all_stages_hold (V s) ?key (\<lambda>_. [])"
    using assms by (auto simp: all_stages_hold_def stage_holds_def hash_int_def)
  from record_all_holds [OF this, of recs]
  have h: "all_stages_hold (V (snd (net R ?s'))) ?key (\<lambda>st. observations st recs)" by simp
  let ?raw = "r_hgetall R (snd (net R ?s')) ?key"
  have "map_of ?raw = hs (V (snd (net R ?s'))) ?key" by (rule law_hgetall)
  from read_stages_reference [OF this, of HISTOGRAM_BUCKETS "\<lambda>st. observations st recs"] h
  have "read_stages ?raw HISTOGRAM_BUCKETS
      = Inr (map (\<lambda>(stage, bs). (stage, reference_histogram bs (observations stage recs))) HISTOGRAM_BUCKETS)"
    by (auto simp: all_stages_hold_def)
  then show ?thesis by (simp add: read_histograms_def rread_up)
qed

end

end
