(* ===== verification/Ticket_Base.thy ===== *)
theory Ticket_Base
  imports Prelude
begin

text \<open>
  The rows of one ticket (\<open>backend/ticket\<close>): the enumerations of \<open>constants.py\<close>, the models \<open>Flow\<close>, \<open>Todo\<close>
  and \<open>Ticket\<close> with the columns the flow engine reads or writes, and what saving a row does. A Python
  model object is a copy of its row, passed as a value; \<open>save(update_fields=...)\<close> writes the named
  columns of the copy into the row. The services a ticket depends on (the pipeline engine, the ITSM
  service, the resource pool, the lists of administrators) are fields of \<open>ticket_env\<close>.
\<close>

section \<open>Enumerations\<close>

datatype flow_type =
    BK_ITSM | INNER_FLOW | QUICK_INNER_FLOW | IGNORE_RESULT_INNER_FLOW | PAUSE | DELIVERY | DESCRIBE_TASK | TIMER
  | RESOURCE_APPLY | RESOURCE_DELIVERY | RESOURCE_BATCH_DELIVERY | RESOURCE_BATCH_APPLY | HOST_RECYCLE
  | RESOURCE_HCM_REPLENISH

datatype flow_status =
    FLOW_PENDING | FLOW_RUNNING | FLOW_SUCCEEDED | FLOW_TERMINATED | FLOW_FAILED | FLOW_REVOKED | FLOW_SKIPPED

datatype ticket_status =
    TICKET_PENDING | TICKET_APPROVE | TICKET_RESOURCE_REPLENISH | TICKET_TODO | TICKET_TIMER | TICKET_RUNNING
  | TICKET_SUCCEEDED | TICKET_FAILED | TICKET_REVOKED | TICKET_TERMINATED | TICKET_INNER_TODO

datatype todo_type =
    TODO_ITSM | TODO_APPROVE | TODO_INNER_FAILED | TODO_INNER_APPROVE | TODO_RESOURCE_REPLENISH
  | TODO_RESOURCE_HCM_REPLENISH | TODO_TIMER | TODO_CLUSTER_DISABLE | TODO_RECYCLE_HOST | TODO_FAULT_HOST

datatype todo_status = TODO_OPEN | DONE_SUCCESS | DONE_FAILED

datatype todo_action =
    ACTION_APPROVE | ACTION_TERMINATE | ACTION_DELIVER | ACTION_SKIP | ACTION_CHANGE | ACTION_ENABLE | ACTION_DESTROY

datatype flow_err_code =
    GENERAL_ERROR | AUTO_EXCLUSIVE_ERROR | MANUAL_EXCLUSIVE_ERROR | SYSTEM_TERMINATED_ERROR | HCM_APPLY_LACK_RESOURCE_ERROR

datatype flow_retry_type = AUTO_RETRY | MANUAL_RETRY

text \<open>\<open>StateType\<close> of a pipeline, and \<open>ItsmTicketStatus\<close>.\<close>

datatype tree_state =
    TREE_CREATED | TREE_READY | TREE_RUNNING | TREE_SUSPENDED | TREE_BLOCKED | TREE_FINISHED | TREE_FAILED
  | TREE_REVOKED | TREE_EXPIRED

datatype itsm_status = ITSM_RUNNING | ITSM_FINISHED | ITSM_REVOKED | ITSM_TERMINATED | ITSM_OTHER

definition FLOW_FINISHED_STATUS :: "flow_status list" where
  "FLOW_FINISHED_STATUS = [FLOW_SKIPPED, FLOW_SUCCEEDED]"

definition FLOW_TASK_TYPES :: "flow_type list" where
  "FLOW_TASK_TYPES = [INNER_FLOW, HOST_RECYCLE, RESOURCE_HCM_REPLENISH]"

definition TODO_RUNNING_STATUS :: "todo_status list" where
  "TODO_RUNNING_STATUS = [TODO_OPEN]"

definition TICKET_FINISHED_STATUS_SET :: "ticket_status list" where
  "TICKET_FINISHED_STATUS_SET = [TICKET_SUCCEEDED, TICKET_REVOKED, TICKET_TERMINATED]"

definition BAMBOO_STATE__TICKET_STATE_MAP :: "(tree_state \<times> flow_status) list" where
  "BAMBOO_STATE__TICKET_STATE_MAP =
     [(TREE_FINISHED, FLOW_SUCCEEDED), (TREE_FAILED, FLOW_FAILED), (TREE_REVOKED, FLOW_TERMINATED),
      (TREE_RUNNING, FLOW_RUNNING), (TREE_CREATED, FLOW_RUNNING), (TREE_READY, FLOW_RUNNING)]"

definition INNER_FLOW_TODO_STATUS_MAP :: "(flow_status \<times> todo_status) list" where
  "INNER_FLOW_TODO_STATUS_MAP =
     [(FLOW_TERMINATED, DONE_FAILED), (FLOW_FAILED, TODO_OPEN), (FLOW_SUCCEEDED, DONE_SUCCESS), (FLOW_RUNNING, DONE_SUCCESS)]"

definition RUNNING_FLOW__TICKET_STATUS :: "(flow_type \<times> ticket_status) list" where
  "RUNNING_FLOW__TICKET_STATUS =
     [(BK_ITSM, TICKET_APPROVE), (RESOURCE_APPLY, TICKET_RESOURCE_REPLENISH), (RESOURCE_BATCH_APPLY, TICKET_RESOURCE_REPLENISH),
      (PAUSE, TICKET_TODO), (INNER_FLOW, TICKET_RUNNING), (TIMER, TICKET_TIMER)]"

definition audit_ticket_status :: "ticket_status list" where
  "audit_ticket_status = [TICKET_RUNNING, TICKET_SUCCEEDED, TICKET_FAILED, TICKET_TERMINATED]"

text \<open>\<open>FlowErrCode.get_err_code\<close>: without a retry type an exclusion error has no code.\<close>

definition get_err_code :: "exn \<Rightarrow> flow_retry_type option \<Rightarrow> flow_err_code option" where
  "get_err_code err retry =
     (if err \<noteq> ExclusiveOperateError then Some GENERAL_ERROR
      else if retry = Some MANUAL_RETRY then Some MANUAL_EXCLUSIVE_ERROR
      else if retry = Some AUTO_RETRY then Some AUTO_EXCLUSIVE_ERROR
      else None)"

section \<open>Rows\<close>

text \<open>
  \<open>Flow\<close>. \<open>fl_failed\<close> is the truth value of \<open>err_msg\<close>, whose text no code reads. \<open>fl_ack\<close>, \<open>fl_remark\<close> and
  \<open>fl_expire\<close> are the keys of \<open>context\<close>; the rest after them are the keys of \<open>details\<close> the engine uses.
\<close>

record flow_row =
  fl_id :: nat
  fl_type :: flow_type
  fl_obj_id :: string
  fl_status :: flow_status
  fl_failed :: bool
  fl_err_code :: "flow_err_code option"
  fl_retry_type :: "flow_retry_type option"
  fl_ack :: bool
  fl_remark :: string
  fl_expire :: "int option"
  fl_expired_flag :: "bool option"
  fl_run_time :: "real option"
  fl_trigger_time :: "real option"
  fl_task_id :: string
  fl_build_task :: string
  fl_resource_done :: bool
  fl_operators :: "string list"

record todo_row =
  td_id :: nat
  td_flow :: nat
  td_type :: todo_type
  td_status :: todo_status
  td_operators :: "string list"
  td_helpers :: "string list"
  td_done_by :: string

record itsm_result =
  itsm_current :: itsm_status
  itsm_approved :: bool
  itsm_operator :: "string option"

text \<open>Asynchronous tasks the engine sends and does not wait for.\<close>

datatype ticket_task =
    AuditEvent | SendMsg | RecycleOldHost | DtsDestroy | RecycleApplyHost | ClusterTodo | MonitorGrafana | DeliveryInfo
  | LogAnalysis string
  | NextFlowAt real string | RevokeTask string | BuildFlow nat

text \<open>
  Everything the operations of one ticket read and write: its rows, the pipelines by root id (with
  \<open>is_expired\<close>), the ITSM tickets by number, the clock, a counter for fresh identifiers, the tasks sent, and
  the operation records: which flow of the ticket works on a cluster, and on an instance.
\<close>

record ticket_state =
  tk_status :: ticket_status
  tk_updater :: string
  tk_flows :: "flow_row list"
  tk_todos :: "todo_row list"
  tk_history :: "(nat \<times> string \<times> todo_action) list"
  tk_trees :: "string \<Rightarrow> (tree_state \<times> bool) option"
  tk_itsm :: "string \<Rightarrow> itsm_result option"
  tk_clock :: real
  tk_fresh :: nat
  tk_tasks :: "ticket_task list"
  tk_cluster_records :: "(nat \<times> nat) list"
  tk_instance_records :: "(nat \<times> nat) list"

type_synonym 'a ticket_op = "ticket_state \<Rightarrow> 'a result \<times> ticket_state"

text \<open>
  What a ticket depends on. \<open>te_uid\<close> makes the identifiers (\<open>generate_root_id\<close>, \<open>uuid1\<close>); \<open>te_hooks\<close>
  are the callbacks of the parameter builders; \<open>te_build\<close> the pipeline controller; \<open>te_resource\<close> the answer of
  the resource pool and \<open>te_confirm\<close> of its confirmation; \<open>te_engine_callback\<close>, \<open>te_engine_fail\<close> and
  \<open>te_engine_revoke\<close> of the pipeline engine; \<open>te_itsm_create\<close> and \<open>te_itsm_operate\<close> the calls of the
  ITSM service; \<open>te_superuser\<close> has no answer for a user that does not exist.
\<close>

datatype itsm_action = TRANSITION | ITSM_TERMINATE | WITHDRAW | ITSM_DELIVER

datatype callback_type = PRE_CALLBACK | POST_CALLBACK

record ticket_env =
  te_creator :: string
  te_recycle :: bool
  te_dts :: bool
  te_apply :: bool
  te_phase :: bool
  te_grafana :: bool
  te_send :: bool
  te_async_build :: bool
  te_skip_itsm :: bool
  te_trigger_time :: "real option"
  te_describe_root :: "string option"
  te_expire_days :: "flow_type \<Rightarrow> int"
  te_approvers :: "string list"
  te_special_approve :: bool
  te_dba :: "string list"
  te_second_dba :: "string list"
  te_other_dba :: "string list"
  te_ticket_helpers :: "string list"
  te_superuser :: "string \<Rightarrow> bool option"
  te_uid :: "nat \<Rightarrow> string"
  te_exclusive :: "flow_row \<Rightarrow> ticket_state \<Rightarrow> unit result"
  te_hooks :: "callback_type \<Rightarrow> flow_row \<Rightarrow> unit ticket_op"
  te_build :: "flow_row \<Rightarrow> unit ticket_op"
  te_confirm :: "unit result"
  te_engine_callback :: "unit result"
  te_engine_fail :: "unit result"
  te_engine_revoke :: "unit result"
  te_resource :: "flow_row \<Rightarrow> ticket_state \<Rightarrow> unit result"
  te_itsm_create :: "flow_row \<Rightarrow> string ticket_op"
  te_itsm_operate :: "string \<Rightarrow> itsm_action \<Rightarrow> bool \<Rightarrow> string \<Rightarrow> unit ticket_op"
  te_hcm_count :: int
  te_hcm_applied :: "nat \<Rightarrow> int"
  te_request_user :: string
  te_ai :: bool
  te_cluster_ids :: "flow_row \<Rightarrow> nat list"
  te_instance_ids :: "flow_row \<Rightarrow> nat list"

section \<open>Sequencing\<close>

definition op_ok :: "'a \<Rightarrow> 'a ticket_op" where
  "op_ok x = (\<lambda>s. (Inr x, s))"

definition op_raise :: "exn \<Rightarrow> 'a ticket_op" where
  "op_raise e = (\<lambda>s. (Inl e, s))"

definition op_bind :: "'a ticket_op \<Rightarrow> ('a \<Rightarrow> 'b ticket_op) \<Rightarrow> 'b ticket_op" where
  "op_bind m k = (\<lambda>s. case m s of (Inl e, s) \<Rightarrow> (Inl e, s) | (Inr x, s) \<Rightarrow> k x s)"

definition op_then :: "unit ticket_op \<Rightarrow> 'a ticket_op \<Rightarrow> 'a ticket_op" where
  "op_then m k = op_bind m (\<lambda>_. k)"

text \<open>\<open>try: m except Exception as err: h(err) else: k\<close>.\<close>

definition op_try :: "'a ticket_op \<Rightarrow> (exn \<Rightarrow> 'b ticket_op) \<Rightarrow> ('a \<Rightarrow> 'b ticket_op) \<Rightarrow> 'b ticket_op" where
  "op_try m h k = (\<lambda>s. case m s of (Inl e, s) \<Rightarrow> h e s | (Inr x, s) \<Rightarrow> k x s)"

definition op_get :: "(ticket_state \<Rightarrow> 'a) \<Rightarrow> 'a ticket_op" where
  "op_get f = (\<lambda>s. (Inr (f s), s))"

definition op_change :: "(ticket_state \<Rightarrow> ticket_state) \<Rightarrow> unit ticket_op" where
  "op_change f = (\<lambda>s. (Inr (), f s))"

definition op_result :: "'a result \<Rightarrow> 'a ticket_op" where
  "op_result r = (\<lambda>s. (r, s))"

lemmas op_defs = op_ok_def op_raise_def op_bind_def op_then_def op_try_def op_get_def op_change_def op_result_def

section \<open>Saving a flow\<close>

text \<open>
  Every save of a flow sends \<open>post_save\<close>, whose receiver is \<open>update_ticket_status\<close>: \<open>sig\<close> below.
\<close>

definition update_rows :: "nat \<Rightarrow> (flow_row \<Rightarrow> flow_row) \<Rightarrow> ticket_state \<Rightarrow> ticket_state" where
  "update_rows i upd s = s\<lparr>tk_flows := map (\<lambda>r. if fl_id r = i then upd r else r) (tk_flows s)\<rparr>"

definition save_flow :: "unit ticket_op \<Rightarrow> nat \<Rightarrow> (flow_row \<Rightarrow> flow_row) \<Rightarrow> unit ticket_op" where
  "save_flow sig i upd = (\<lambda>s. sig (update_rows i upd s))"

text \<open>\<open>Flow.update_status\<close>: saved only when the copy has another status.\<close>

definition flow_update_status :: "unit ticket_op \<Rightarrow> flow_status \<Rightarrow> flow_row \<Rightarrow> flow_status option ticket_op" where
  "flow_update_status sig st f =
     (if fl_status f = st then op_ok (Some st)
      else op_then (save_flow sig (fl_id f) (\<lambda>r. r\<lparr>fl_status := st\<rparr>)) (op_ok (Some st)))"

text \<open>\<open>Flow.objects.get(id=...)\<close>.\<close>

definition flow_by_id :: "nat \<Rightarrow> flow_row ticket_op" where
  "flow_by_id i = (\<lambda>s. case filter (\<lambda>r. fl_id r = i) (tk_flows s) of [] \<Rightarrow> (Inl DoesNotExist, s) | r # _ \<Rightarrow> (Inr r, s))"

section \<open>Todos\<close>

definition todo_open :: "todo_row \<Rightarrow> bool" where
  "todo_open td \<longleftrightarrow> td_status td \<in> set TODO_RUNNING_STATUS"

definition exist_unfinished :: "ticket_state \<Rightarrow> bool" where
  "exist_unfinished s = list_ex todo_open (tk_todos s)"

definition exist_lack_unfinished :: "ticket_state \<Rightarrow> bool" where
  "exist_lack_unfinished s = list_ex (\<lambda>td. todo_open td \<and> td_type td = TODO_RESOURCE_REPLENISH) (tk_todos s)"

text \<open>\<open>flow.todo_of_flow.first()\<close>, and with \<open>filter(type=...)\<close>.\<close>

definition todos_of :: "nat \<Rightarrow> ticket_state \<Rightarrow> todo_row list" where
  "todos_of i s = filter (\<lambda>td. td_flow td = i) (tk_todos s)"

definition first_of :: "'a list \<Rightarrow> 'a option" where
  "first_of xs = (case xs of [] \<Rightarrow> None | x # _ \<Rightarrow> Some x)"

definition get_itsm_todo_operators :: "ticket_env \<Rightarrow> flow_row \<Rightarrow> string list \<times> string list" where
  "get_itsm_todo_operators E f =
     (let approvers = (if fl_type f = BK_ITSM then te_approvers E else [])
      in if te_special_approve E then (approvers, []) else (take 1 approvers, drop 1 approvers))"

definition todo_operators_map :: "ticket_env \<Rightarrow> flow_row \<Rightarrow> todo_type \<Rightarrow> string list" where
  "todo_operators_map E f ty = (case ty of
     TODO_ITSM \<Rightarrow> fst (get_itsm_todo_operators E f)
   | TODO_APPROVE \<Rightarrow> [te_creator E] | TODO_TIMER \<Rightarrow> [te_creator E]
   | TODO_INNER_APPROVE \<Rightarrow> te_creator E # te_dba E
   | TODO_RESOURCE_REPLENISH \<Rightarrow> te_creator E # te_dba E
   | TODO_INNER_FAILED \<Rightarrow> te_creator E # te_dba E
   | _ \<Rightarrow> [])"

definition todo_helpers_map :: "ticket_env \<Rightarrow> flow_row \<Rightarrow> todo_type \<Rightarrow> string list" where
  "todo_helpers_map E f ty = (case ty of
     TODO_ITSM \<Rightarrow> snd (get_itsm_todo_operators E f)
   | TODO_APPROVE \<Rightarrow> te_ticket_helpers E | TODO_TIMER \<Rightarrow> te_ticket_helpers E
   | TODO_INNER_APPROVE \<Rightarrow> te_ticket_helpers E @ te_second_dba E @ te_other_dba E
   | TODO_RESOURCE_REPLENISH \<Rightarrow> te_ticket_helpers E @ te_second_dba E @ te_other_dba E
   | TODO_INNER_FAILED \<Rightarrow> te_ticket_helpers E @ te_second_dba E @ te_other_dba E
   | _ \<Rightarrow> [])"

text \<open>\<open>list(dict.fromkeys(xs))\<close>: the first occurrence stays.\<close>

fun dict_fromkeys :: "'a list \<Rightarrow> 'a list" where
  "dict_fromkeys [] = []"
| "dict_fromkeys (x # xs) = x # filter (\<lambda>y. y \<noteq> x) (dict_fromkeys xs)"

definition get_operators :: "ticket_env \<Rightarrow> todo_type \<Rightarrow> flow_row \<Rightarrow> string list \<Rightarrow> string list \<times> string list" where
  "get_operators E ty f operators =
     (let operators = dict_fromkeys (operators @ todo_operators_map E f ty);
          helpers = filter (\<lambda>x. x \<notin> set operators) (todo_helpers_map E f ty)
      in (helpers, operators))"

definition todo_create :: "ticket_env \<Rightarrow> todo_type \<Rightarrow> flow_row \<Rightarrow> string list \<Rightarrow> todo_row ticket_op" where
  "todo_create E ty f operators =
     (\<lambda>s. let (helpers, operators) = get_operators E ty f operators;
              td = \<lparr>td_id = tk_fresh s, td_flow = fl_id f, td_type = ty, td_status = TODO_OPEN, td_operators = operators,
                    td_helpers = helpers, td_done_by = []\<rparr>
          in (Inr td, s\<lparr>tk_todos := tk_todos s @ [td], tk_fresh := Suc (tk_fresh s)\<rparr>))"

definition todo_save :: "todo_row \<Rightarrow> unit ticket_op" where
  "todo_save td = op_change (\<lambda>s. s\<lparr>tk_todos := map (\<lambda>r. if td_id r = td_id td then td else r) (tk_todos s)\<rparr>)"

definition todo_set_status :: "string \<Rightarrow> todo_status \<Rightarrow> todo_row \<Rightarrow> todo_row ticket_op" where
  "todo_set_status username status td =
     (if td_status td = status then op_ok td
      else (let td = td\<lparr>td_status := status\<rparr>;
                td = (if status \<in> {DONE_SUCCESS, DONE_FAILED} then td\<lparr>td_done_by := username\<rparr> else td)
            in op_then (todo_save td) (op_ok td)))"

definition todo_history :: "todo_row \<Rightarrow> string \<Rightarrow> todo_action \<Rightarrow> unit ticket_op" where
  "todo_history td username action = op_change (\<lambda>s. s\<lparr>tk_history := tk_history s @ [(td_id td, username, action)]\<rparr>)"

definition todo_set_success :: "string \<Rightarrow> todo_action \<Rightarrow> todo_row \<Rightarrow> unit ticket_op" where
  "todo_set_success username action td =
     op_bind (todo_set_status username DONE_SUCCESS td) (\<lambda>td. todo_history td username action)"

text \<open>\<open>f\<close> is the flow object the todo holds.\<close>

definition todo_set_terminated :: "unit ticket_op \<Rightarrow> flow_row \<Rightarrow> string \<Rightarrow> todo_action \<Rightarrow> todo_row \<Rightarrow> unit ticket_op" where
  "todo_set_terminated sig f username action td =
     op_bind (todo_set_status username DONE_FAILED td) (\<lambda>td.
     op_bind (flow_update_status sig FLOW_TERMINATED f) (\<lambda>_.
     op_then (op_change (\<lambda>s. s\<lparr>tk_updater := username\<rparr>)) (todo_history td username action)))"

text \<open>Sending a task, and a fresh identifier.\<close>

definition send_task :: "ticket_task \<Rightarrow> unit ticket_op" where
  "send_task t = op_change (\<lambda>s. s\<lparr>tk_tasks := tk_tasks s @ [t]\<rparr>)"

definition fresh_uid :: "ticket_env \<Rightarrow> string ticket_op" where
  "fresh_uid E = (\<lambda>s. (Inr (te_uid E (tk_fresh s)), s\<lparr>tk_fresh := Suc (tk_fresh s)\<rparr>))"

section \<open>Reasoning about operations\<close>

text \<open>
  From a state with \<open>P\<close>, a normal end satisfies \<open>Q\<close> and an exception \<open>R\<close>.
\<close>

definition op_valid :: "(ticket_state \<Rightarrow> bool) \<Rightarrow> 'a ticket_op \<Rightarrow> ('a \<Rightarrow> ticket_state \<Rightarrow> bool) \<Rightarrow> (exn \<Rightarrow> ticket_state \<Rightarrow> bool) \<Rightarrow> bool" where
  "op_valid P m Q R \<longleftrightarrow> (\<forall>s. P s \<longrightarrow> (case m s of (Inr x, s') \<Rightarrow> Q x s' | (Inl e, s') \<Rightarrow> R e s'))"

named_theorems op_rules \<open>rules for operations\<close>

lemma op_validI: "(\<And>s. P s \<Longrightarrow> case m s of (Inr x, s') \<Rightarrow> Q x s' | (Inl e, s') \<Rightarrow> R e s') \<Longrightarrow> op_valid P m Q R"
  by (simp add: op_valid_def)

lemma op_validD:
  assumes "op_valid P m Q R" and "P s"
  shows "m s = (Inr x, s') \<Longrightarrow> Q x s'" and "m s = (Inl e, s') \<Longrightarrow> R e s'"
  using assms unfolding op_valid_def by fastforce+

lemma op_valid_weaken:
  "op_valid P m Q R \<Longrightarrow> (\<And>s. P' s \<Longrightarrow> P s) \<Longrightarrow> (\<And>x s. Q x s \<Longrightarrow> Q' x s) \<Longrightarrow> (\<And>e s. R e s \<Longrightarrow> R' e s) \<Longrightarrow> op_valid P' m Q' R'"
  unfolding op_valid_def by (fastforce split: prod.splits sum.splits)

lemma op_valid_ok [op_rules]: "(\<And>s. P s \<Longrightarrow> Q x s) \<Longrightarrow> op_valid P (op_ok x) Q R"
  by (simp add: op_valid_def op_ok_def)

lemma op_valid_raise [op_rules]: "(\<And>s. P s \<Longrightarrow> R e s) \<Longrightarrow> op_valid P (op_raise e) Q R"
  by (simp add: op_valid_def op_raise_def)

lemma op_valid_get [op_rules]: "(\<And>s. P s \<Longrightarrow> Q (f s) s) \<Longrightarrow> op_valid P (op_get f) Q R"
  by (simp add: op_valid_def op_get_def)

lemma op_valid_change [op_rules]: "(\<And>s. P s \<Longrightarrow> Q () (f s)) \<Longrightarrow> op_valid P (op_change f) Q R"
  by (simp add: op_valid_def op_change_def)

lemma op_valid_bind:
  "op_valid P m Q R \<Longrightarrow> (\<And>x. op_valid (Q x) (k x) Q' R) \<Longrightarrow> op_valid P (op_bind m k) Q' R"
  unfolding op_valid_def op_bind_def by (fastforce split: prod.splits sum.splits)

lemma op_valid_then: "op_valid P m Q R \<Longrightarrow> op_valid (Q ()) k Q' R \<Longrightarrow> op_valid P (op_then m k) Q' R"
  unfolding op_then_def by (rule op_valid_bind) simp_all

lemma op_valid_try:
  "op_valid P m Q R' \<Longrightarrow> (\<And>e. op_valid (R' e) (h e) Q' R) \<Longrightarrow> (\<And>x. op_valid (Q x) (k x) Q' R) \<Longrightarrow> op_valid P (op_try m h k) Q' R"
  unfolding op_valid_def op_try_def by (fastforce split: prod.splits sum.splits)

text \<open>Operations on the todos, the tasks and the counter leave the flows alone.\<close>

definition flows_kept :: "'a ticket_op \<Rightarrow> bool" where
  "flows_kept m \<longleftrightarrow> (\<forall>s x s'. m s = (x, s') \<longrightarrow>
     tk_flows s' = tk_flows s \<and> tk_trees s' = tk_trees s \<and> tk_itsm s' = tk_itsm s \<and> tk_clock s' = tk_clock s)"

lemma flows_kept_bind: "flows_kept m \<Longrightarrow> (\<And>x. flows_kept (k x)) \<Longrightarrow> flows_kept (op_bind m k)"
  unfolding flows_kept_def op_bind_def by (fastforce split: prod.splits sum.splits)

lemma flows_kept_then: "flows_kept m \<Longrightarrow> flows_kept k \<Longrightarrow> flows_kept (op_then m k)"
  unfolding op_then_def by (rule flows_kept_bind)

lemma flows_kept_ok: "flows_kept (op_ok x)"
  by (simp add: flows_kept_def op_ok_def)

lemma flows_kept_get: "flows_kept (op_get f)"
  by (simp add: flows_kept_def op_get_def)

lemma todo_ops_flows_kept:
  "flows_kept (todo_save td)" "flows_kept (todo_history td username action)" "flows_kept (send_task t)"
  "flows_kept (fresh_uid E)" "flows_kept (todo_create E ty f operators)"
  by (auto simp: flows_kept_def op_defs todo_save_def todo_history_def send_task_def fresh_uid_def todo_create_def Let_def
      split: prod.splits)

lemma todo_set_status_flows_kept: "flows_kept (todo_set_status username status td)"
  unfolding todo_set_status_def Let_def
  by (auto intro!: flows_kept_then flows_kept_ok todo_ops_flows_kept)

lemmas flows_kept_rules = flows_kept_bind flows_kept_then flows_kept_ok flows_kept_get todo_ops_flows_kept todo_set_status_flows_kept

text \<open>Operations that never raise one of \<open>X\<close>.\<close>

definition op_never :: "exn set \<Rightarrow> 'a ticket_op \<Rightarrow> bool" where
  "op_never X m \<longleftrightarrow> (\<forall>s e s'. m s = (Inl e, s') \<longrightarrow> e \<notin> X)"

lemma op_never_bind: "op_never X m \<Longrightarrow> (\<And>x. op_never X (k x)) \<Longrightarrow> op_never X (op_bind m k)"
  unfolding op_never_def op_bind_def by (fastforce split: prod.splits sum.splits)

lemma op_never_then: "op_never X m \<Longrightarrow> op_never X k \<Longrightarrow> op_never X (op_then m k)"
  unfolding op_then_def by (rule op_never_bind)

lemma op_never_basic:
  "op_never X (op_ok x)" "op_never X (op_get h)" "op_never X (op_change g)" "op_never X (todo_save td)"
  "op_never X (todo_history td username action)" "op_never X (todo_create E ty f operators)" "op_never X (send_task t)"
  "op_never X (fresh_uid E)"
  by (auto simp: op_never_def op_defs todo_save_def todo_history_def todo_create_def send_task_def fresh_uid_def Let_def
      split: prod.splits)

lemma op_never_set_status: "op_never X (todo_set_status username status td)"
  unfolding todo_set_status_def Let_def by (auto intro!: op_never_then op_never_basic)

lemma op_never_flow_by_id: "DoesNotExist \<notin> X \<Longrightarrow> op_never X (flow_by_id i)"
  by (auto simp: op_never_def flow_by_id_def split: list.splits)

lemmas op_never_rules = op_never_bind op_never_then op_never_basic op_never_set_status op_never_flow_by_id

end
