(* ===== verification/Ticket_Status.thy ===== *)
theory Ticket_Status
  imports Ticket_Base
begin

text \<open>
  What status a flow has (\<open>BaseTicketFlow.status\<close> and the \<open>_status\<close> of each kind of flow in
  \<open>ticket/flow_manager\<close>), and \<open>TicketFlowManager.update_ticket_status\<close>. Asking a flow for its status can save it,
  and every save asks all flows of the ticket again: the recursion of the signal is a fuel that stands for
  Python's recursion limit.
\<close>

section \<open>Creating the flow object\<close>

text \<open>What \<open>__init__\<close> of the flow classes raises.\<close>

definition flow_init :: "ticket_env \<Rightarrow> flow_row \<Rightarrow> unit ticket_op" where
  "flow_init E f = (\<lambda>s.
     case fl_type f of
       TIMER \<Rightarrow> (if te_trigger_time E = None then Inl IndexError else Inr (), s)
     | DESCRIBE_TASK \<Rightarrow>
         (case te_describe_root E of
            None \<Rightarrow> (Inl KeyError, s)
          | Some rid \<Rightarrow> (if tk_trees s rid = None then Inl DoesNotExist else Inr (), s))
     | _ \<Rightarrow> (Inr (), s))"

section \<open>Approval, confirmation, timers, delivery\<close>

definition itsm_flow_status :: "unit ticket_op \<Rightarrow> flow_row \<Rightarrow> flow_status option ticket_op" where
  "itsm_flow_status sig f = (\<lambda>s.
     case tk_itsm s (fl_obj_id f) of
       None \<Rightarrow> (Inl TypeError, s)
     | Some r \<Rightarrow>
         if itsm_current r = ITSM_RUNNING then flow_update_status sig FLOW_RUNNING f s
         else (case itsm_operator r of
                 None \<Rightarrow> (Inl IndexError, s)
               | Some updater \<Rightarrow>
                   let close = (\<lambda>done st.
                         case first_of (todos_of (fl_id f) s) of
                           None \<Rightarrow> (Inl AttributeError, s)
                         | Some td \<Rightarrow> op_bind (todo_set_status updater done td) (\<lambda>_. flow_update_status sig st f) s)
                   in case itsm_current r of
                        ITSM_REVOKED \<Rightarrow> close DONE_FAILED FLOW_TERMINATED
                      | ITSM_FINISHED \<Rightarrow>
                          if itsm_approved r then close DONE_SUCCESS FLOW_SUCCEEDED else close DONE_FAILED FLOW_TERMINATED
                      | ITSM_TERMINATED \<Rightarrow> close DONE_FAILED FLOW_TERMINATED
                      | _ \<Rightarrow> (Inr None, s)))"

definition pause_flow_status :: "unit ticket_op \<Rightarrow> flow_row \<Rightarrow> flow_status option ticket_op" where
  "pause_flow_status sig f =
     op_bind (op_get exist_unfinished) (\<lambda>unfinished.
       flow_update_status sig (if unfinished then FLOW_RUNNING else FLOW_SUCCEEDED) f)"

definition timer_trigger :: "ticket_env \<Rightarrow> flow_row \<Rightarrow> real" where
  "timer_trigger E f = (case fl_trigger_time f of Some t \<Rightarrow> t | None \<Rightarrow> the (te_trigger_time E))"

definition timer_flow_status :: "ticket_env \<Rightarrow> unit ticket_op \<Rightarrow> flow_row \<Rightarrow> flow_status option ticket_op" where
  "timer_flow_status E sig f = (\<lambda>s.
     if fl_expired_flag f = None then (Inr (Some FLOW_PENDING), s)
     else if fl_expired_flag f = Some True \<and> exist_unfinished s then flow_update_status sig FLOW_RUNNING f s
     else if timer_trigger E f > tk_clock s then flow_update_status sig FLOW_RUNNING f s
     else op_then (op_change (\<lambda>s. s\<lparr>tk_todos := map (\<lambda>td. if td_flow td = fl_id f then td\<lparr>td_status := DONE_SUCCESS\<rparr> else td) (tk_todos s)\<rparr>))
            (flow_update_status sig FLOW_SUCCEEDED f) s)"

definition delivery_flow_status :: "unit ticket_op \<Rightarrow> flow_row \<Rightarrow> flow_status option ticket_op" where
  "delivery_flow_status sig f = flow_update_status sig FLOW_SUCCEEDED f"

section \<open>Pipelines\<close>

definition live_tree :: "ticket_state \<Rightarrow> string \<Rightarrow> tree_state option" where
  "live_tree s rid = (case tk_trees s rid of Some (st, False) \<Rightarrow> Some st | _ \<Rightarrow> None)"

definition tree_flow_status :: "tree_state \<Rightarrow> flow_status" where
  "tree_flow_status st = (case map_of BAMBOO_STATE__TICKET_STATE_MAP st of Some v \<Rightarrow> v | None \<Rightarrow> FLOW_RUNNING)"

definition inner_todo_status :: "flow_status \<Rightarrow> todo_status" where
  "inner_todo_status st = (case map_of INNER_FLOW_TODO_STATUS_MAP st of Some v \<Rightarrow> v | None \<Rightarrow> DONE_SUCCESS)"

definition set_inner_flow_todo :: "ticket_env \<Rightarrow> flow_row \<Rightarrow> flow_status \<Rightarrow> unit ticket_op" where
  "set_inner_flow_todo E f status =
     op_bind (flow_by_id (fl_id f)) (\<lambda>flow.
     op_bind (op_get (\<lambda>s. first_of (filter (\<lambda>td. td_type td = TODO_INNER_FAILED) (todos_of (fl_id flow) s)))) (\<lambda>fail_todo.
       case fail_todo of
         None \<Rightarrow> if inner_todo_status status = TODO_OPEN then op_bind (todo_create E TODO_INNER_FAILED flow []) (\<lambda>_. op_ok ()) else op_ok ()
       | Some td \<Rightarrow> if td_status td \<noteq> inner_todo_status status
                     then op_bind (todo_set_status (te_request_user E) (inner_todo_status status) td) (\<lambda>_. op_ok ()) else op_ok ()))"

definition inner_flow_status :: "ticket_env \<Rightarrow> unit ticket_op \<Rightarrow> flow_row \<Rightarrow> flow_status option ticket_op" where
  "inner_flow_status E sig f =
     (if fl_failed f \<and> fl_err_code f = Some AUTO_EXCLUSIVE_ERROR then op_ok (Some FLOW_RUNNING)
      else op_bind (op_get (\<lambda>s. live_tree s (fl_obj_id f))) (\<lambda>tree.
             let status = (case tree of None \<Rightarrow> fl_status f | Some st \<Rightarrow> tree_flow_status st)
             in op_then (set_inner_flow_todo E f status) (flow_update_status sig status f)))"

definition quick_flow_status :: "flow_status option ticket_op" where
  "quick_flow_status = op_ok (Some FLOW_SUCCEEDED)"

definition ignore_flow_status :: "ticket_env \<Rightarrow> unit ticket_op \<Rightarrow> flow_row \<Rightarrow> flow_status option ticket_op" where
  "ignore_flow_status E sig f =
     op_bind (inner_flow_status E sig f) (\<lambda>status.
       op_ok (if status \<in> Some ` {FLOW_FAILED, FLOW_SUCCEEDED, FLOW_REVOKED, FLOW_TERMINATED} then Some FLOW_SUCCEEDED else status))"

text \<open>The last save writes every column of the copy.\<close>

definition save_whole :: "unit ticket_op \<Rightarrow> flow_status \<Rightarrow> flow_row \<Rightarrow> flow_status option ticket_op" where
  "save_whole sig status f =
     op_then (if fl_status f \<noteq> status then save_flow sig (fl_id f) (\<lambda>_. f\<lparr>fl_status := status\<rparr>) else op_ok ())
       (op_ok (Some status))"

definition hcm_flow_status :: "ticket_env \<Rightarrow> unit ticket_op \<Rightarrow> flow_row \<Rightarrow> flow_status option ticket_op" where
  "hcm_flow_status E sig f =
     op_bind (op_get (\<lambda>s. live_tree s (fl_obj_id f))) (\<lambda>tree.
       case tree of
         None \<Rightarrow> op_ok (Some (fl_status f))
       | Some st \<Rightarrow>
           if tree_flow_status st \<noteq> FLOW_SUCCEEDED then flow_update_status sig (tree_flow_status st) f
           else let lack = te_hcm_count E \<noteq> te_hcm_applied E (fl_id f);
                    f = (if lack then f\<lparr>fl_err_code := Some HCM_APPLY_LACK_RESOURCE_ERROR, fl_failed := True\<rparr> else f);
                    status = (if lack then FLOW_FAILED else FLOW_SUCCEEDED)
                in op_then (set_inner_flow_todo E f status) (save_whole sig status f))"

section \<open>Resources\<close>

definition resource_types :: "flow_type set" where
  "resource_types = {RESOURCE_APPLY, RESOURCE_BATCH_APPLY}"

definition resource_flow_status :: "unit ticket_op \<Rightarrow> flow_row \<Rightarrow> flow_status option ticket_op" where
  "resource_flow_status sig f =
     (if fl_obj_id f = [] then flow_update_status sig FLOW_PENDING f
      else if fl_resource_done f then flow_update_status sig FLOW_SUCCEEDED f
      else if fl_failed f then
        op_bind (op_get exist_lack_unfinished) (\<lambda>lack.
          if lack then flow_update_status sig FLOW_RUNNING f else op_ok (Some (fl_status f)))
      else flow_update_status sig FLOW_RUNNING f)"

section \<open>The status of a flow\<close>

definition class_status :: "ticket_env \<Rightarrow> unit ticket_op \<Rightarrow> flow_row \<Rightarrow> flow_status option ticket_op" where
  "class_status E sig f = (case fl_type f of
     BK_ITSM \<Rightarrow> itsm_flow_status sig f
   | INNER_FLOW \<Rightarrow> inner_flow_status E sig f
   | QUICK_INNER_FLOW \<Rightarrow> quick_flow_status
   | IGNORE_RESULT_INNER_FLOW \<Rightarrow> ignore_flow_status E sig f
   | PAUSE \<Rightarrow> pause_flow_status sig f
   | DELIVERY \<Rightarrow> delivery_flow_status sig f
   | DESCRIBE_TASK \<Rightarrow> delivery_flow_status sig f
   | TIMER \<Rightarrow> timer_flow_status E sig f
   | RESOURCE_APPLY \<Rightarrow> resource_flow_status sig f
   | RESOURCE_DELIVERY \<Rightarrow> delivery_flow_status sig f
   | RESOURCE_BATCH_DELIVERY \<Rightarrow> delivery_flow_status sig f
   | RESOURCE_BATCH_APPLY \<Rightarrow> resource_flow_status sig f
   | HOST_RECYCLE \<Rightarrow> inner_flow_status E sig f
   | RESOURCE_HCM_REPLENISH \<Rightarrow> hcm_flow_status E sig f)"

definition base_flow_status :: "ticket_env \<Rightarrow> unit ticket_op \<Rightarrow> flow_row \<Rightarrow> flow_status option ticket_op" where
  "base_flow_status E sig f =
     (if fl_status f \<in> set FLOW_FINISHED_STATUS then op_ok (Some (fl_status f))
      else if fl_status f \<in> {FLOW_REVOKED, FLOW_TERMINATED} then op_ok (Some (fl_status f))
      else if fl_failed f then (if fl_type f \<in> set FLOW_TASK_TYPES then class_status E sig f else op_ok (Some FLOW_FAILED))
      else if fl_status f \<in> {FLOW_RUNNING, FLOW_FAILED} then class_status E sig f
      else op_ok (Some FLOW_PENDING))"

definition flow_status_of :: "ticket_env \<Rightarrow> unit ticket_op \<Rightarrow> flow_row \<Rightarrow> flow_status option ticket_op" where
  "flow_status_of E sig f =
     op_then (flow_init E f)
       (if fl_type f \<in> resource_types then resource_flow_status sig f else base_flow_status E sig f)"

section \<open>The status of the ticket\<close>

fun collect_statuses :: "ticket_env \<Rightarrow> unit ticket_op \<Rightarrow> flow_row list \<Rightarrow> (flow_status option \<times> flow_row) list ticket_op" where
  "collect_statuses E sig [] = op_ok []"
| "collect_statuses E sig (f # fs) =
     op_bind (flow_status_of E sig f) (\<lambda>st. op_bind (collect_statuses E sig fs) (\<lambda>rest. op_ok ((st, f) # rest)))"

text \<open>\<open>flow_status_map\<close>: of several flows with one status the last is kept.\<close>

definition target_status :: "(flow_status option \<times> flow_row) list \<Rightarrow> ticket_status option" where
  "target_status xs =
     (let statuses = set (map fst xs) in
      if Some FLOW_TERMINATED \<in> statuses then Some TICKET_TERMINATED
      else if Some FLOW_FAILED \<in> statuses then Some TICKET_FAILED
      else if Some FLOW_REVOKED \<in> statuses then Some TICKET_REVOKED
      else case map_of (rev xs) (Some FLOW_RUNNING) of
             Some flow \<Rightarrow> Some (case map_of RUNNING_FLOW__TICKET_STATUS (fl_type flow) of Some t \<Rightarrow> t | None \<Rightarrow> TICKET_RUNNING)
           | None \<Rightarrow> if statuses \<subseteq> Some ` set FLOW_FINISHED_STATUS then Some TICKET_SUCCEEDED else None)"

text \<open>\<open>ticket_status_trigger\<close>: what is sent when the ticket has the new status.\<close>

definition status_tasks :: "ticket_env \<Rightarrow> ticket_status \<Rightarrow> ticket_task list" where
  "status_tasks E target =
     (if target \<in> set audit_ticket_status then [AuditEvent] else [])
     @ (if target \<notin> {TICKET_RUNNING, TICKET_RESOURCE_REPLENISH, TICKET_APPROVE} then [SendMsg] else [])
     @ (if target = TICKET_SUCCEEDED \<and> te_recycle E then [RecycleOldHost] else [])
     @ (if target = TICKET_SUCCEEDED \<and> te_dts E then [DtsDestroy] else [])
     @ (if target = TICKET_TERMINATED \<and> te_apply E then [RecycleApplyHost] else [])
     @ (if te_phase E \<and> target = TICKET_SUCCEEDED then [ClusterTodo] else [])
     @ (if te_grafana E \<and> target = TICKET_SUCCEEDED then [MonitorGrafana] else [])
     @ (if te_send E \<and> target = TICKET_SUCCEEDED then [DeliveryInfo] else [])"

definition set_ticket_status :: "ticket_env \<Rightarrow> ticket_status \<Rightarrow> unit ticket_op" where
  "set_ticket_status E target = op_change (\<lambda>s.
     if tk_status s = target then s
     else s\<lparr>tk_status := target, tk_tasks := tk_tasks s @ status_tasks E target\<rparr>)"

primrec update_ticket_status :: "ticket_env \<Rightarrow> nat \<Rightarrow> unit ticket_op" where
  "update_ticket_status E 0 = op_raise RecursionError"
| "update_ticket_status E (Suc n) =
     op_bind (op_get tk_flows) (\<lambda>fs.
     op_bind (collect_statuses E (update_ticket_status E n) fs) (\<lambda>xs.
       case target_status xs of None \<Rightarrow> op_ok () | Some target \<Rightarrow> set_ticket_status E target))"

text \<open>The receiver of \<open>post_save\<close>, with as many nested calls as are ever needed.\<close>

definition flow_signal :: "ticket_env \<Rightarrow> unit ticket_op" where
  "flow_signal E = (\<lambda>s. update_ticket_status E (2 * length (tk_flows s) + 2) s)"

end
