(* ===== verification/Ticket_Settle.thy ===== *)
theory Ticket_Settle
  imports Ticket_Status
begin

text \<open>
  The recursion of the save signal ends: each nested call is due to a flow that was saved with the status
  its own service reports, and a flow can be saved so at most twice. \<open>rank\<close> bounds how often.
\<close>

section \<open>How often a flow can still be saved\<close>

definition flow_core :: "flow_row \<Rightarrow> nat \<times> flow_type \<times> string \<times> bool" where
  "flow_core r = (fl_id r, fl_type r, fl_obj_id r, fl_resource_done r)"

text \<open>The status a flow's service reports, where it does not depend on the todos.\<close>

definition reported :: "ticket_env \<Rightarrow> ticket_state \<Rightarrow> flow_row \<Rightarrow> flow_status option" where
  "reported E s r = (case fl_type r of
     BK_ITSM \<Rightarrow> map_option (\<lambda>q. case itsm_current q of ITSM_RUNNING \<Rightarrow> FLOW_RUNNING
                    | ITSM_FINISHED \<Rightarrow> if itsm_approved q then FLOW_SUCCEEDED else FLOW_TERMINATED
                    | _ \<Rightarrow> FLOW_TERMINATED) (tk_itsm s (fl_obj_id r))
   | QUICK_INNER_FLOW \<Rightarrow> None
   | PAUSE \<Rightarrow> None
   | TIMER \<Rightarrow> None
   | RESOURCE_APPLY \<Rightarrow> Some (if fl_obj_id r = [] then FLOW_PENDING else if fl_resource_done r then FLOW_SUCCEEDED else FLOW_RUNNING)
   | RESOURCE_BATCH_APPLY \<Rightarrow> Some (if fl_obj_id r = [] then FLOW_PENDING else if fl_resource_done r then FLOW_SUCCEEDED else FLOW_RUNNING)
   | RESOURCE_HCM_REPLENISH \<Rightarrow> map_option (\<lambda>t. let v = tree_flow_status t in
        if v = FLOW_SUCCEEDED \<and> te_hcm_count E \<noteq> te_hcm_applied E (fl_id r) then FLOW_FAILED else v) (live_tree s (fl_obj_id r))
   | INNER_FLOW \<Rightarrow> map_option tree_flow_status (live_tree s (fl_obj_id r))
   | IGNORE_RESULT_INNER_FLOW \<Rightarrow> map_option tree_flow_status (live_tree s (fl_obj_id r))
   | HOST_RECYCLE \<Rightarrow> map_option tree_flow_status (live_tree s (fl_obj_id r))
   | _ \<Rightarrow> Some FLOW_SUCCEEDED)"

definition closed_status :: "flow_status set" where
  "closed_status = {FLOW_SKIPPED, FLOW_SUCCEEDED, FLOW_REVOKED, FLOW_TERMINATED}"

definition rank :: "ticket_env \<Rightarrow> ticket_state \<Rightarrow> flow_row \<Rightarrow> nat" where
  "rank E s r =
     (if fl_type r \<notin> resource_types \<and> fl_status r \<in> closed_status then 0
      else if fl_type r \<in> {PAUSE, TIMER} then (case fl_status r of FLOW_FAILED \<Rightarrow> 2 | FLOW_RUNNING \<Rightarrow> 1 | _ \<Rightarrow> 0)
      else case reported E s r of None \<Rightarrow> 0 | Some v \<Rightarrow> if fl_status r = v then 0 else 1)"

definition same_world :: "ticket_state \<Rightarrow> ticket_state \<Rightarrow> bool" where
  "same_world s t \<longleftrightarrow> tk_trees t = tk_trees s \<and> tk_itsm t = tk_itsm s \<and> tk_clock t = tk_clock s"

definition row_polled :: "ticket_env \<Rightarrow> ticket_state \<Rightarrow> flow_row \<Rightarrow> flow_row \<Rightarrow> bool" where
  "row_polled E s r r' \<longleftrightarrow> flow_core r' = flow_core r \<and> rank E s r' \<le> rank E s r"

definition polled :: "ticket_env \<Rightarrow> ticket_state \<Rightarrow> ticket_state \<Rightarrow> bool" where
  "polled E s t \<longleftrightarrow> same_world s t \<and> list_all2 (row_polled E s) (tk_flows s) (tk_flows t)"

definition unsettled :: "ticket_env \<Rightarrow> ticket_state \<Rightarrow> nat" where
  "unsettled E s = sum_list (map (rank E s) (tk_flows s))"

lemma rank_le: "rank E s r \<le> 2"
  by (auto simp: rank_def split: flow_status.splits option.splits)

lemma unsettled_le: "unsettled E s \<le> 2 * length (tk_flows s)"
proof -
  have "sum_list (map (rank E s) fs) \<le> 2 * length fs" for fs :: "flow_row list"
  proof (induction fs)
    case (Cons f fs)
    then show ?case using rank_le [of E s f] by simp
  qed simp
  then show ?thesis by (simp add: unsettled_def)
qed

lemma reported_cong: "flow_core r = flow_core f \<Longrightarrow> reported E s r = reported E s f"
  unfolding reported_def flow_core_def prod.inject by (elim conjE) (simp only:)

lemma rank_cong: "flow_core r = flow_core f \<Longrightarrow> fl_status r = fl_status f \<Longrightarrow> rank E s r = rank E s f"
  unfolding rank_def by (frule reported_cong [of r f E s]) (simp add: flow_core_def split: option.splits)

lemma rank_same_world: "same_world s t \<Longrightarrow> rank E t = rank E s"
  by (rule ext) (simp add: rank_def reported_def same_world_def live_tree_def split: flow_type.splits)

lemma polled_refl: "polled E s s"
  by (simp add: polled_def same_world_def row_polled_def list_all2_refl)

lemma polled_trans: "polled E s t \<Longrightarrow> polled E t u \<Longrightarrow> polled E s u"
  using rank_same_world [of s t E]
  by (fastforce simp: polled_def same_world_def row_polled_def elim: list_all2_trans [rotated])

lemma polled_rows:
  "polled E s t \<Longrightarrow> map fl_id (tk_flows t) = map fl_id (tk_flows s)"
  "polled E s t \<Longrightarrow> map flow_core (tk_flows t) = map flow_core (tk_flows s)"
  "polled E s t \<Longrightarrow> length (tk_flows t) = length (tk_flows s)"
  by (auto simp: polled_def row_polled_def flow_core_def list_all2_conv_all_nth intro!: nth_equalityI)

lemma polled_flows_kept: "flows_kept m \<Longrightarrow> polled E s t \<Longrightarrow> m t = (x, t') \<Longrightarrow> polled E s t'"
  unfolding flows_kept_def polled_def same_world_def by metis

section \<open>One save\<close>

lemma polled_save:
  assumes t: "polled E s t" and f: "f \<in> set (tk_flows s)" and d: "distinct (map fl_id (tk_flows s))"
    and upd: "\<And>r. flow_core r = flow_core f \<Longrightarrow> flow_core (upd r) = flow_core f \<and> rank E s (upd r) < rank E s f"
  shows "polled E s (update_rows (fl_id f) upd t)" and "unsettled E (update_rows (fl_id f) upd t) < unsettled E s"
proof -
  let ?t = "update_rows (fl_id f) upd t" and ?fs = "tk_flows s" and ?gs = "tk_flows t"
  let ?hs = "tk_flows ?t"
  obtain i where i: "i < length ?fs" "?fs ! i = f" using f by (auto simp: in_set_conv_nth)
  from t have len: "length ?gs = length ?fs"
    and rows: "\<And>j. j < length ?fs \<Longrightarrow> flow_core (?gs ! j) = flow_core (?fs ! j) \<and> rank E s (?gs ! j) \<le> rank E s (?fs ! j)"
    by (auto simp: polled_def row_polled_def list_all2_conv_all_nth)
  have hs: "?hs ! j = (if j = i then upd (?gs ! i) else ?gs ! j)" if j: "j < length ?fs" for j
  proof -
    have "fl_id (?gs ! j) = fl_id (?fs ! j)" using rows [OF j] by (simp add: flow_core_def)
    then have "fl_id (?gs ! j) = fl_id f \<longleftrightarrow> j = i" using d i j by (auto simp: distinct_conv_nth)
    then show ?thesis using j len by (simp add: update_rows_def)
  qed
  have hlen: "length ?hs = length ?fs" using len by (simp add: update_rows_def)
  have strict: "flow_core (?hs ! i) = flow_core (?fs ! i)" "rank E s (?hs ! i) < rank E s (?fs ! i)"
    using upd [of "?gs ! i"] rows [OF i(1)] i hs [OF i(1)] by auto
  have le: "flow_core (?hs ! j) = flow_core (?fs ! j) \<and> rank E s (?hs ! j) \<le> rank E s (?fs ! j)" if "j < length ?fs" for j
    using strict rows [OF that] hs [OF that] by (cases "j = i") auto
  have w: "same_world s ?t" using t by (simp add: polled_def same_world_def update_rows_def)
  then show "polled E s ?t" using le hlen by (simp add: polled_def row_polled_def list_all2_conv_all_nth)
  have "(\<Sum>j = 0..<length ?fs. rank E s (?hs ! j)) < (\<Sum>j = 0..<length ?fs. rank E s (?fs ! j))"
    using le strict i(1) by (intro sum_strict_mono_ex1) auto
  then show "unsettled E ?t < unsettled E s"
    using hlen by (simp add: unsettled_def rank_same_world [OF w] sum_list_sum_nth)
qed

section \<open>A whole poll\<close>

abbreviation settles :: "ticket_env \<Rightarrow> ticket_state \<Rightarrow> 'a ticket_op \<Rightarrow> bool" where
  "settles E s m \<equiv> op_valid (polled E s) m (\<lambda>_. polled E s) (\<lambda>e t. polled E s t \<and> e \<noteq> RecursionError)"

lemma settles_bind: "settles E s m \<Longrightarrow> (\<And>x. settles E s (k x)) \<Longrightarrow> settles E s (op_bind m k)"
  by (rule op_valid_bind)

lemma settles_then: "settles E s m \<Longrightarrow> settles E s k \<Longrightarrow> settles E s (op_then m k)"
  by (rule op_valid_then)

lemma settles_kept: "flows_kept m \<Longrightarrow> op_never {RecursionError} m \<Longrightarrow> settles E s m"
  by (rule op_validI) (auto simp: op_never_def split: prod.splits sum.splits dest: polled_flows_kept)

text \<open>\<open>sig\<close> is a signal that settles once less is unsettled than in \<open>s\<close>, and \<open>f\<close> is a row of \<open>s\<close>.\<close>

definition signal_settles :: "ticket_env \<Rightarrow> ticket_state \<Rightarrow> unit ticket_op \<Rightarrow> bool" where
  "signal_settles E s sig \<longleftrightarrow> op_valid (\<lambda>t. polled E s t \<and> unsettled E t < unsettled E s) sig (\<lambda>_. polled E s)
     (\<lambda>e t. polled E s t \<and> e \<noteq> RecursionError)"

lemma settles_save:
  assumes "signal_settles E s sig" "f \<in> set (tk_flows s)" "distinct (map fl_id (tk_flows s))"
    and "\<And>r. flow_core r = flow_core f \<Longrightarrow> flow_core (upd r) = flow_core f \<and> rank E s (upd r) < rank E s f"
  shows "settles E s (save_flow sig (fl_id f) upd)"
proof (rule op_validI)
  fix t assume t: "polled E s t"
  let ?t = "update_rows (fl_id f) upd t"
  have "polled E s ?t" by (rule polled_save(1) [OF t assms(2,3)]) (rule assms(4))
  moreover have "unsettled E ?t < unsettled E s" by (rule polled_save(2) [OF t assms(2,3)]) (rule assms(4))
  ultimately have "polled E s ?t \<and> unsettled E ?t < unsettled E s" ..
  note op_validD [OF assms(1) [unfolded signal_settles_def] this]
  then show "case save_flow sig (fl_id f) upd t of (Inr x, u) \<Rightarrow> polled E s u | (Inl e, u) \<Rightarrow> polled E s u \<and> e \<noteq> RecursionError"
    by (cases "sig ?t") (auto simp: save_flow_def split: sum.split)
qed

lemma settles_update_status:
  assumes "signal_settles E s sig" "f \<in> set (tk_flows s)" "distinct (map fl_id (tk_flows s))"
    and "fl_status f \<noteq> st \<Longrightarrow> rank E s (f\<lparr>fl_status := st\<rparr>) < rank E s f"
  shows "settles E s (flow_update_status sig st f)"
proof (cases "fl_status f = st")
  case True
  then show ?thesis by (simp add: flow_update_status_def op_valid_ok)
next
  case False
  have upd: "flow_core (r\<lparr>fl_status := st\<rparr>) = flow_core f \<and> rank E s (r\<lparr>fl_status := st\<rparr>) < rank E s f"
    if r: "flow_core r = flow_core f" for r
  proof -
    have "rank E s (r\<lparr>fl_status := st\<rparr>) = rank E s (f\<lparr>fl_status := st\<rparr>)"
      using r by (intro rank_cong) (simp_all add: flow_core_def)
    also have "\<dots> < rank E s f" by (rule assms(4) [OF False])
    finally show ?thesis using r by (simp add: flow_core_def)
  qed
  from assms(1-3) upd have "settles E s (save_flow sig (fl_id f) (\<lambda>r. r\<lparr>fl_status := st\<rparr>))"
    by (rule settles_save)
  with False show ?thesis unfolding flow_update_status_def by (simp add: settles_then op_valid_ok)
qed

lemma inner_todo_frame:
  "flows_kept (set_inner_flow_todo E f status)" "DoesNotExist \<notin> X \<Longrightarrow> op_never X (set_inner_flow_todo E f status)"
  unfolding set_inner_flow_todo_def
  by (auto intro!: flows_kept_rules op_never_rules split: option.split)
     (auto simp: flows_kept_def flow_by_id_def split: list.splits)

lemma settles_inner_todo: "settles E s (set_inner_flow_todo E f status)"
  by (rule settles_kept) (simp_all add: inner_todo_frame)

lemma op_valid_at:
  "op_valid P m Q R \<Longrightarrow> P s \<Longrightarrow> case m s of (Inr x, s') \<Rightarrow> Q x s' | (Inl e, s') \<Rightarrow> R e s'"
  by (simp add: op_valid_def)

lemma rank_reported:
  assumes "reported E s f = Some v" and "fl_type f \<in> resource_types \<or> fl_status f \<notin> closed_status" and "fl_status f \<noteq> v"
  shows "rank E s (f\<lparr>fl_status := v\<rparr>) < rank E s f"
proof -
  have r: "reported E s (f\<lparr>fl_status := v\<rparr>) = Some v"
    using assms(1) reported_cong [of "f\<lparr>fl_status := v\<rparr>" f E s] by (simp add: flow_core_def)
  have ty: "fl_type f \<notin> {PAUSE, TIMER}" using assms(1) by (auto simp: reported_def)
  show ?thesis using assms r ty by (auto simp: rank_def)
qed

lemma rank_waiting:
  assumes "fl_type f \<in> {PAUSE, TIMER}" and "fl_status f \<in> {FLOW_RUNNING, FLOW_FAILED}" and "st \<in> {FLOW_RUNNING, FLOW_SUCCEEDED}"
    and "fl_status f \<noteq> st"
  shows "rank E s (f\<lparr>fl_status := st\<rparr>) < rank E s f"
  using assms by (auto simp: rank_def resource_types_def closed_status_def)

lemma settles_itsm:
  assumes "signal_settles E s sig" "f \<in> set (tk_flows s)" "distinct (map fl_id (tk_flows s))"
    and f: "fl_type f = BK_ITSM" "fl_status f \<notin> closed_status"
  shows "settles E s (itsm_flow_status sig f)"
proof (rule op_validI)
  fix t assume t: "polled E s t"
  have upd: "settles E s (flow_update_status sig v f)" if "reported E s f = Some v" for v
    using assms(1-3) by (rule settles_update_status) (rule rank_reported [OF that]; use f in simp)
  have set: "settles E s (op_bind (todo_set_status u d td) (\<lambda>_. flow_update_status sig v f))" if "reported E s f = Some v" for u d td v
    by (intro settles_bind settles_kept flows_kept_rules op_never_rules upd that)
  show "case itsm_flow_status sig f t of (Inr x, u) \<Rightarrow> polled E s u | (Inl e, u) \<Rightarrow> polled E s u \<and> e \<noteq> RecursionError"
  proof (cases "tk_itsm t (fl_obj_id f)")
    case None
    then show ?thesis using t by (simp add: itsm_flow_status_def)
  next
    case (Some r)
    then have r: "tk_itsm s (fl_obj_id f) = Some r" using t by (simp add: polled_def same_world_def)
    let ?v = "the (reported E s f)"
    have v: "reported E s f = Some ?v" using r f by (simp add: reported_def)
    have "itsm_flow_status sig f t \<in> {flow_update_status sig ?v f t, (Inl IndexError, t), (Inl AttributeError, t), (Inr None, t)}
        \<union> {op_bind (todo_set_status u d td) (\<lambda>_. flow_update_status sig ?v f) t |u d td. True}"
      using Some r f by (auto simp: itsm_flow_status_def reported_def split: option.splits itsm_status.splits)
    then consider "itsm_flow_status sig f t = flow_update_status sig ?v f t"
      | u d td where "itsm_flow_status sig f t = op_bind (todo_set_status u d td) (\<lambda>_. flow_update_status sig ?v f) t"
      | e where "itsm_flow_status sig f t = (e, t)" "e \<noteq> Inl RecursionError" by auto
    then show ?thesis
    proof cases
      case 1
      then show ?thesis using op_valid_at [OF upd [OF v] t] by simp
    next
      case (2 u d td)
      then show ?thesis using op_valid_at [OF set [OF v] t, of u d td] by simp
    next
      case (3 e)
      then show ?thesis using t by (auto split: sum.split)
    qed
  qed
qed

lemma settles_pause:
  assumes "signal_settles E s sig" "f \<in> set (tk_flows s)" "distinct (map fl_id (tk_flows s))"
    and f: "fl_type f = PAUSE" "fl_status f \<in> {FLOW_RUNNING, FLOW_FAILED}"
  shows "settles E s (pause_flow_status sig f)"
  unfolding pause_flow_status_def
  by (intro settles_bind settles_update_status [OF assms(1-3)] settles_kept flows_kept_rules op_never_rules rank_waiting)
    (use f in auto)

lemma settles_timer:
  assumes "signal_settles E s sig" "f \<in> set (tk_flows s)" "distinct (map fl_id (tk_flows s))"
    and f: "fl_type f = TIMER" "fl_status f \<in> {FLOW_RUNNING, FLOW_FAILED}"
  shows "settles E s (timer_flow_status E sig f)"
proof (rule op_validI)
  fix t assume t: "polled E s t"
  have upd: "settles E s (flow_update_status sig v f)" if "v \<in> {FLOW_RUNNING, FLOW_SUCCEEDED}" for v
    using assms(1-3) by (rule settles_update_status) (rule rank_waiting; use f that in simp)
  have close: "settles E s (op_then (op_change (\<lambda>s. s\<lparr>tk_todos := h s\<rparr>)) (flow_update_status sig FLOW_SUCCEEDED f))" for h
    by (intro settles_then upd settles_kept op_never_rules) (simp_all add: flows_kept_def op_change_def)
  show "case timer_flow_status E sig f t of (Inr x, u) \<Rightarrow> polled E s u | (Inl e, u) \<Rightarrow> polled E s u \<and> e \<noteq> RecursionError"
    using t op_valid_at [OF upd t, of FLOW_RUNNING] op_valid_at [OF close t] by (simp add: timer_flow_status_def)
qed

lemma settles_inner:
  assumes "signal_settles E s sig" "f \<in> set (tk_flows s)" "distinct (map fl_id (tk_flows s))"
    and f: "fl_type f \<in> {INNER_FLOW, IGNORE_RESULT_INNER_FLOW, HOST_RECYCLE}" "fl_status f \<notin> closed_status"
  shows "settles E s (inner_flow_status E sig f)"
proof (cases "fl_failed f \<and> fl_err_code f = Some AUTO_EXCLUSIVE_ERROR")
  case True
  then show ?thesis by (simp add: inner_flow_status_def op_valid_ok)
next
  case False
  let ?status = "\<lambda>tree. case tree of None \<Rightarrow> fl_status f | Some st \<Rightarrow> tree_flow_status st"
  have "op_valid (polled E s) (op_get (\<lambda>s. live_tree s (fl_obj_id f))) (\<lambda>tree t. polled E s t \<and> tree = live_tree s (fl_obj_id f))
      (\<lambda>e t. polled E s t \<and> e \<noteq> RecursionError)"
    by (rule op_valid_get) (simp add: polled_def same_world_def live_tree_def)
  moreover have "op_valid (\<lambda>t. polled E s t \<and> tree = live_tree s (fl_obj_id f))
      (op_then (set_inner_flow_todo E f (?status tree)) (flow_update_status sig (?status tree) f))
      (\<lambda>_. polled E s) (\<lambda>e t. polled E s t \<and> e \<noteq> RecursionError)" for tree
  proof (cases "tree = live_tree s (fl_obj_id f)")
    case True
    have r: "reported E s f = map_option tree_flow_status tree" using f True by (auto simp: reported_def)
    have "settles E s (op_then (set_inner_flow_todo E f (?status tree)) (flow_update_status sig (?status tree) f))"
      by (intro settles_then settles_inner_todo settles_update_status [OF assms(1-3)] rank_reported)
        (use r f in \<open>auto split: option.splits\<close>)
    then show ?thesis by (rule op_valid_weaken) simp_all
  qed (simp add: op_valid_def)
  ultimately show ?thesis using False unfolding inner_flow_status_def Let_def by (auto intro: op_valid_bind)
qed

lemma settles_hcm:
  assumes "signal_settles E s sig" "f \<in> set (tk_flows s)" "distinct (map fl_id (tk_flows s))"
    and f: "fl_type f = RESOURCE_HCM_REPLENISH" "fl_status f \<notin> closed_status"
  shows "settles E s (hcm_flow_status E sig f)"
proof -
  let ?lack = "te_hcm_count E \<noteq> te_hcm_applied E (fl_id f)"
  let ?g = "if ?lack then f\<lparr>fl_err_code := Some HCM_APPLY_LACK_RESOURCE_ERROR, fl_failed := True\<rparr> else f"
  let ?v = "if ?lack then FLOW_FAILED else FLOW_SUCCEEDED"
  have "op_valid (polled E s) (op_get (\<lambda>s. live_tree s (fl_obj_id f))) (\<lambda>tree t. polled E s t \<and> tree = live_tree s (fl_obj_id f))
      (\<lambda>e t. polled E s t \<and> e \<noteq> RecursionError)"
    by (rule op_valid_get) (simp add: polled_def same_world_def live_tree_def)
  moreover have "settles E s (case live_tree s (fl_obj_id f) of
         None \<Rightarrow> op_ok (Some (fl_status f))
       | Some st \<Rightarrow>
           if tree_flow_status st \<noteq> FLOW_SUCCEEDED then flow_update_status sig (tree_flow_status st) f
           else op_then (set_inner_flow_todo E ?g ?v)
                  (op_then (if fl_status ?g \<noteq> ?v then save_flow sig (fl_id ?g) (\<lambda>_. ?g\<lparr>fl_status := ?v\<rparr>) else op_ok ()) (op_ok (Some ?v))))"
  proof (cases "live_tree s (fl_obj_id f)")
    case None
    then show ?thesis by (simp add: op_valid_ok)
  next
    case (Some st)
    show ?thesis
    proof (cases "tree_flow_status st = FLOW_SUCCEEDED")
      case False
      then have "reported E s f = Some (tree_flow_status st)" using Some f by (simp add: reported_def Let_def)
      then have "settles E s (flow_update_status sig (tree_flow_status st) f)"
        using f by (intro settles_update_status [OF assms(1-3)] rank_reported) auto
      with Some False show ?thesis by simp
    next
      case True
      then have r: "reported E s f = Some ?v" using Some f by (simp add: reported_def Let_def)
      have save: "settles E s (save_flow sig (fl_id f) (\<lambda>_. ?g\<lparr>fl_status := ?v\<rparr>))" if ne: "fl_status f \<noteq> ?v"
      proof (rule settles_save [OF assms(1-3)])
        fix r
        have "rank E s (?g\<lparr>fl_status := ?v\<rparr>) = rank E s (f\<lparr>fl_status := ?v\<rparr>)"
          by (rule rank_cong) (simp_all add: flow_core_def)
        also have "\<dots> < rank E s f" using r f ne by (intro rank_reported) auto
        finally show "flow_core (?g\<lparr>fl_status := ?v\<rparr>) = flow_core f \<and> rank E s (?g\<lparr>fl_status := ?v\<rparr>) < rank E s f"
          by (simp add: flow_core_def)
      qed
      have g: "fl_id ?g = fl_id f" "fl_status ?g = fl_status f" by simp_all
      have "settles E s (op_then (set_inner_flow_todo E ?g ?v)
                  (op_then (if fl_status ?g \<noteq> ?v then save_flow sig (fl_id ?g) (\<lambda>_. ?g\<lparr>fl_status := ?v\<rparr>) else op_ok ()) (op_ok (Some ?v))))"
      proof (intro settles_then settles_inner_todo)
        show "settles E s (if fl_status ?g \<noteq> ?v then save_flow sig (fl_id ?g) (\<lambda>_. ?g\<lparr>fl_status := ?v\<rparr>) else op_ok ())"
          unfolding g
        proof (cases "fl_status f \<noteq> ?v")
          case True
          show "settles E s (if fl_status f \<noteq> ?v then save_flow sig (fl_id f) (\<lambda>_. ?g\<lparr>fl_status := ?v\<rparr>) else op_ok ())"
            unfolding if_P [OF True] by (rule save [OF True])
        next
          case False
          show "settles E s (if fl_status f \<noteq> ?v then save_flow sig (fl_id f) (\<lambda>_. ?g\<lparr>fl_status := ?v\<rparr>) else op_ok ())"
            unfolding if_not_P [OF False] by (rule op_valid_ok)
        qed
      qed (rule op_valid_ok)
      with Some True show ?thesis by simp
    qed
  qed
  then have "op_valid (\<lambda>t. polled E s t \<and> tree = live_tree s (fl_obj_id f)) (case tree of
         None \<Rightarrow> op_ok (Some (fl_status f))
       | Some st \<Rightarrow>
           if tree_flow_status st \<noteq> FLOW_SUCCEEDED then flow_update_status sig (tree_flow_status st) f
           else op_then (set_inner_flow_todo E ?g ?v)
                  (op_then (if fl_status ?g \<noteq> ?v then save_flow sig (fl_id ?g) (\<lambda>_. ?g\<lparr>fl_status := ?v\<rparr>) else op_ok ()) (op_ok (Some ?v))))
      (\<lambda>_. polled E s) (\<lambda>e t. polled E s t \<and> e \<noteq> RecursionError)" for tree
    by (cases "tree = live_tree s (fl_obj_id f)") (auto simp: op_valid_def)
  ultimately show ?thesis unfolding hcm_flow_status_def save_whole_def Let_def by (rule op_valid_bind)
qed

lemma settles_resource:
  assumes "signal_settles E s sig" "f \<in> set (tk_flows s)" "distinct (map fl_id (tk_flows s))"
    and f: "fl_type f \<in> resource_types"
  shows "settles E s (resource_flow_status sig f)"
proof -
  have r: "reported E s f = Some (if fl_obj_id f = [] then FLOW_PENDING else if fl_resource_done f then FLOW_SUCCEEDED else FLOW_RUNNING)"
    using f by (auto simp: reported_def resource_types_def)
  then have upd: "settles E s (flow_update_status sig v f)" if "reported E s f = Some v" for v
    using that f by (intro settles_update_status [OF assms(1-3)] rank_reported) auto
  have "settles E s (op_bind (op_get exist_lack_unfinished) (\<lambda>lack.
      if lack then flow_update_status sig FLOW_RUNNING f else op_ok (Some (fl_status f))))" if "reported E s f = Some FLOW_RUNNING"
    by (rule settles_bind [OF op_valid_get]) (auto intro: upd [OF that] op_valid_ok)
  with r upd show ?thesis
    by (cases "fl_obj_id f = []"; cases "fl_resource_done f") (simp_all add: resource_flow_status_def)
qed

lemma settles_delivery:
  assumes "signal_settles E s sig" "f \<in> set (tk_flows s)" "distinct (map fl_id (tk_flows s))"
    and f: "fl_type f \<in> {DELIVERY, DESCRIBE_TASK, RESOURCE_DELIVERY, RESOURCE_BATCH_DELIVERY}" "fl_status f \<notin> closed_status"
  shows "settles E s (delivery_flow_status sig f)"
  unfolding delivery_flow_status_def
  by (intro settles_update_status [OF assms(1-3)] rank_reported) (use f in \<open>auto simp: reported_def\<close>)

lemma settles_flow_status:
  assumes "signal_settles E s sig" "f \<in> set (tk_flows s)" "distinct (map fl_id (tk_flows s))"
  shows "settles E s (flow_status_of E sig f)"
proof -
  have init: "settles E s (flow_init E f)"
    by (rule settles_kept)
      (auto simp: flows_kept_def op_never_def flow_init_def split: flow_type.splits option.splits if_splits)
  have cls: "settles E s (class_status E sig f)"
    if st: "fl_status f \<notin> closed_status"
      and w: "fl_type f \<in> {PAUSE, TIMER} \<Longrightarrow> fl_status f \<in> {FLOW_RUNNING, FLOW_FAILED}"
      and ty: "fl_type f \<notin> resource_types"
  proof (cases "fl_type f")
    case IGNORE_RESULT_INNER_FLOW
    then show ?thesis using settles_inner [OF assms] st
      by (auto simp: class_status_def ignore_flow_status_def intro!: settles_bind op_valid_ok)
  qed (use assms st w ty settles_itsm settles_inner settles_pause settles_timer settles_delivery settles_hcm in
        \<open>auto simp: class_status_def quick_flow_status_def resource_types_def op_valid_ok\<close>)
  have "settles E s (base_flow_status E sig f)" if ty: "fl_type f \<notin> resource_types"
    using cls ty
    by (auto simp: base_flow_status_def closed_status_def FLOW_FINISHED_STATUS_def FLOW_TASK_TYPES_def intro!: op_valid_ok)
  with init settles_resource [OF assms] show ?thesis
    by (auto simp: flow_status_of_def intro!: settles_then)
qed

lemma settles_collect:
  assumes "signal_settles E s sig" "distinct (map fl_id (tk_flows s))" "set fs \<subseteq> set (tk_flows s)"
  shows "settles E s (collect_statuses E sig fs)"
  using assms(3)
proof (induction fs)
  case Nil
  then show ?case by (simp add: op_valid_ok)
next
  case (Cons f fs)
  then show ?case using settles_flow_status [OF assms(1) _ assms(2)]
    by (auto intro!: settles_bind op_valid_ok)
qed

section \<open>The signal settles\<close>

lemma settles_update:
  assumes "unsettled E s < n" and "distinct (map fl_id (tk_flows s))"
  shows "op_valid (\<lambda>t. t = s) (update_ticket_status E n) (\<lambda>_. polled E s) (\<lambda>e t. polled E s t \<and> e \<noteq> RecursionError)"
  using assms
proof (induction n arbitrary: s)
  case (Suc n)
  have sig: "signal_settles E s (update_ticket_status E n)"
    unfolding signal_settles_def
  proof (rule op_validI)
    fix t assume t: "polled E s t \<and> unsettled E t < unsettled E s"
    then have "unsettled E t < n" and "distinct (map fl_id (tk_flows t))" using Suc.prems polled_rows(1) [of E s t] by auto
    from op_valid_at [OF Suc.IH [OF this]] t polled_trans [of E s t]
    show "case update_ticket_status E n t of (Inr x, u) \<Rightarrow> polled E s u | (Inl e, u) \<Rightarrow> polled E s u \<and> e \<noteq> RecursionError"
      by (auto split: prod.splits sum.splits)
  qed
  have target: "settles E s (case target_status xs of None \<Rightarrow> op_ok () | Some target \<Rightarrow> set_ticket_status E target)" for xs
    by (rule settles_kept)
      (auto simp: flows_kept_def op_never_def set_ticket_status_def op_ok_def op_change_def split: option.splits)
  have "settles E s (op_bind (collect_statuses E (update_ticket_status E n) (tk_flows s))
      (\<lambda>xs. case target_status xs of None \<Rightarrow> op_ok () | Some target \<Rightarrow> set_ticket_status E target))"
    by (rule settles_bind [OF settles_collect [OF sig Suc.prems(2) order_refl] target])
  then show ?case using polled_refl [of E s] by (simp add: op_valid_def op_bind_def op_get_def)
qed simp

theorem flow_signal_settles:
  assumes "distinct (map fl_id (tk_flows s))" and "flow_signal E s = (r, s')"
  shows "r \<noteq> Inl RecursionError" and "polled E s s'"
proof -
  have "unsettled E s < 2 * length (tk_flows s) + 2" using unsettled_le [of E s] by simp
  from op_valid_at [OF settles_update [OF this assms(1)] refl] assms(2)
  show "r \<noteq> Inl RecursionError" and "polled E s s'" by (auto simp: flow_signal_def split: sum.splits)
qed

end
