(* ===== verification/Ticket_Flow.thy ===== *)
theory Ticket_Flow
  imports Ticket_Settle
begin

text \<open>
  Running the flows of a ticket: \<open>run\<close> and \<open>retry\<close> of every kind of flow (\<open>ticket/flow_manager\<close>), and
  \<open>TicketFlowManager.run_next_flow\<close>, which a flow without work of its own calls again when it has run.
\<close>

section \<open>What every kind of flow does\<close>

text \<open>\<open>check_flow_ack\<close> reads and writes the row under a lock.\<close>

definition check_flow_ack :: "ticket_env \<Rightarrow> nat \<Rightarrow> bool ticket_op" where
  "check_flow_ack E i =
     op_bind (flow_by_id i) (\<lambda>flow.
       if fl_ack flow then op_ok True
       else op_then (save_flow (flow_signal E) i (\<lambda>r. r\<lparr>fl_ack := True\<rparr>)) (op_ok False))"

definition run_status_handler :: "ticket_env \<Rightarrow> string \<Rightarrow> flow_row \<Rightarrow> flow_row ticket_op" where
  "run_status_handler E obj_id f =
     op_then (save_flow (flow_signal E) (fl_id f) (\<lambda>r. r\<lparr>fl_obj_id := obj_id, fl_status := FLOW_RUNNING\<rparr>))
       (op_ok (f\<lparr>fl_obj_id := obj_id, fl_status := FLOW_RUNNING\<rparr>))"

definition run_error_status_handler :: "ticket_env \<Rightarrow> exn \<Rightarrow> flow_row \<Rightarrow> unit ticket_op" where
  "run_error_status_handler E err f =
     (let code = get_err_code err (fl_retry_type f);
          f = f\<lparr>fl_failed := True, fl_err_code := code, fl_status := FLOW_FAILED\<rparr>
      in op_then (save_flow (flow_signal E) (fl_id f) (\<lambda>r. r\<lparr>fl_err_code := code, fl_failed := True, fl_status := FLOW_FAILED\<rparr>))
           (op_then (if code = Some AUTO_EXCLUSIVE_ERROR
                     then op_bind (run_status_handler E (fl_obj_id f) f) (\<lambda>_. op_ok ()) else op_ok ())
              (if te_ai E \<and> fl_obj_id f \<noteq> [] then send_task (LogAnalysis (fl_obj_id f)) else op_ok ())))"

definition flush_error_status_handler :: "ticket_env \<Rightarrow> flow_row \<Rightarrow> flow_row ticket_op" where
  "flush_error_status_handler E f =
     (let flush = (\<lambda>r. r\<lparr>fl_failed := False, fl_err_code := None, fl_status := FLOW_RUNNING, fl_ack := False, fl_remark := [], fl_expire := None\<rparr>)
      in op_then (save_flow (flow_signal E) (fl_id f) flush) (op_ok (flush f)))"

definition DEFAULT_SYSTEM_USER :: string where "DEFAULT_SYSTEM_USER = ''system''"

definition get_current_config_expire_time :: "ticket_env \<Rightarrow> flow_row \<Rightarrow> int" where
  "get_current_config_expire_time E f =
     (if fl_type f \<in> {BK_ITSM, INNER_FLOW, PAUSE, RESOURCE_APPLY, RESOURCE_BATCH_APPLY} then te_expire_days E (fl_type f) else -1)"

definition flush_revoke_status_handler :: "ticket_env \<Rightarrow> string \<Rightarrow> string \<Rightarrow> flow_row \<Rightarrow> flow_row ticket_op" where
  "flush_revoke_status_handler E operator remark f =
     (let f = f\<lparr>fl_status := FLOW_TERMINATED, fl_remark := remark\<rparr>;
          f = (if operator = DEFAULT_SYSTEM_USER
               then f\<lparr>fl_err_code := Some SYSTEM_TERMINATED_ERROR, fl_expire := Some (get_current_config_expire_time E f)\<rparr>
               else f\<lparr>fl_err_code := Some GENERAL_ERROR\<rparr>)
      in op_then (save_flow (flow_signal E) (fl_id f)
            (\<lambda>r. r\<lparr>fl_status := fl_status f, fl_err_code := fl_err_code f, fl_ack := fl_ack f, fl_remark := fl_remark f, fl_expire := fl_expire f\<rparr>))
         (op_then (op_change (\<lambda>s. s\<lparr>tk_updater := operator\<rparr>)) (op_ok f)))"

text \<open>The clusters and instances in the details of the flow and the ticket are now worked on by this flow.\<close>

definition create_operate_records :: "nat \<Rightarrow> nat list \<Rightarrow> (nat \<times> nat) list \<Rightarrow> (nat \<times> nat) list" where
  "create_operate_records i objs recs =
     (if objs = [] then recs
      else map (\<lambda>(x, fl). if x \<in> set objs then (x, i) else (x, fl)) recs
           @ map (\<lambda>x. (x, i)) (filter (\<lambda>x. x \<notin> fst ` set recs) objs))"

definition create_cluster_operate_records :: "ticket_env \<Rightarrow> flow_row \<Rightarrow> unit ticket_op" where
  "create_cluster_operate_records E f = op_change (\<lambda>s.
     s\<lparr>tk_cluster_records := create_operate_records (fl_id f) (remdups (te_cluster_ids E f)) (tk_cluster_records s)\<rparr>)"

definition create_instance_operate_records :: "ticket_env \<Rightarrow> flow_row \<Rightarrow> unit ticket_op" where
  "create_instance_operate_records E f = op_change (\<lambda>s.
     s\<lparr>tk_instance_records := create_operate_records (fl_id f) (remdups (te_instance_ids E f)) (tk_instance_records s)\<rparr>)"

text \<open>\<open>BaseTicketFlow.run\<close> with the \<open>_run\<close> of the class.\<close>

definition base_run :: "ticket_env \<Rightarrow> string ticket_op \<Rightarrow> flow_row \<Rightarrow> unit ticket_op" where
  "base_run E body f =
     op_bind (check_flow_ack E (fl_id f)) (\<lambda>acked.
       if acked then op_ok ()
       else op_try body (\<lambda>err. run_error_status_handler E err f)
              (\<lambda>obj_id. op_then (create_cluster_operate_records E f)
                 (op_then (create_instance_operate_records E f)
                    (op_bind (run_status_handler E obj_id f) (\<lambda>_. op_ok ())))))"

section \<open>The bodies\<close>

definition itsm_body :: "ticket_env \<Rightarrow> flow_row \<Rightarrow> string ticket_op" where
  "itsm_body E f = op_bind (todo_create E TODO_ITSM f []) (\<lambda>_. te_itsm_create E f)"

definition pause_body :: "ticket_env \<Rightarrow> flow_row \<Rightarrow> string ticket_op" where
  "pause_body E f =
     op_bind (fresh_uid E) (\<lambda>uid. op_bind (todo_create E TODO_APPROVE f (fl_operators f)) (\<lambda>_. op_ok uid))"

definition delivery_body :: "ticket_env \<Rightarrow> flow_row \<Rightarrow> string ticket_op" where
  "delivery_body E f =
     op_then (if fl_type f \<in> {RESOURCE_DELIVERY, RESOURCE_BATCH_DELIVERY} then op_result (te_confirm E) else op_ok ())
       (fresh_uid E)"

definition timer_todo :: "ticket_env \<Rightarrow> flow_row \<Rightarrow> todo_row ticket_op" where
  "timer_todo E f =
     op_bind (op_get (\<lambda>s. filter (\<lambda>td. td_type td = TODO_TIMER) (todos_of (fl_id f) s))) (\<lambda>found.
       case found of [] \<Rightarrow> todo_create E TODO_TIMER f [] | [td] \<Rightarrow> op_ok td | _ \<Rightarrow> op_raise MultipleObjects)"

definition timer_body :: "ticket_env \<Rightarrow> flow_row \<Rightarrow> string ticket_op" where
  "timer_body E f =
     op_bind (op_get (\<lambda>s. case fl_run_time f of Some t \<Rightarrow> t | None \<Rightarrow> tk_clock s)) (\<lambda>run_time.
     op_bind (fresh_uid E) (\<lambda>uid.
     op_bind (timer_todo E f) (\<lambda>td.
       let trigger = timer_trigger E f; expired = run_time \<ge> trigger in
       op_bind (if expired then op_ok [] else op_bind (fresh_uid E) (\<lambda>tid. op_then (send_task (NextFlowAt trigger tid)) (op_ok tid))) (\<lambda>tid.
       op_then (todo_save (if expired then td\<lparr>td_type := TODO_APPROVE\<rparr> else td))
         (op_then (save_flow (flow_signal E) (fl_id f)
                     (\<lambda>r. r\<lparr>fl_expired_flag := Some expired, fl_run_time := Some run_time, fl_trigger_time := Some trigger, fl_task_id := tid\<rparr>))
            (op_ok uid))))))"

section \<open>Task flows\<close>

definition or_fresh :: "ticket_env \<Rightarrow> string \<Rightarrow> string ticket_op" where
  "or_fresh E obj_id = (if obj_id \<noteq> [] then op_ok obj_id else fresh_uid E)"

definition start_build :: "ticket_env \<Rightarrow> flow_row \<Rightarrow> unit ticket_op" where
  "start_build E f =
     (if te_async_build E
      then op_bind (fresh_uid E) (\<lambda>tid. op_then (send_task (BuildFlow (fl_id f)))
             (save_flow (flow_signal E) (fl_id f) (\<lambda>r. r\<lparr>fl_build_task := tid\<rparr>)))
      else te_build E f)"

definition inner_run :: "ticket_env \<Rightarrow> flow_row \<Rightarrow> unit ticket_op" where
  "inner_run E f =
     op_bind (check_flow_ack E (fl_id f)) (\<lambda>acked.
       if acked then op_ok ()
       else op_bind (or_fresh E (fl_obj_id f)) (\<lambda>rid.
         let g = f\<lparr>fl_obj_id := rid, fl_status := FLOW_RUNNING\<rparr> in
         op_try
           (op_bind (run_status_handler E rid f) (\<lambda>_.
            op_then (\<lambda>s. (te_exclusive E g s, s))
              (op_then (te_hooks E PRE_CALLBACK g) (start_build E g))))
           (\<lambda>err. run_error_status_handler E err g)
           (\<lambda>_. op_then (create_cluster_operate_records E g) (create_instance_operate_records E g))))"

definition simple_run :: "ticket_env \<Rightarrow> flow_row \<Rightarrow> unit ticket_op" where
  "simple_run E f =
     op_bind (check_flow_ack E (fl_id f)) (\<lambda>acked.
       if acked then op_ok ()
       else op_bind (or_fresh E (fl_obj_id f)) (\<lambda>rid.
         op_bind (run_status_handler E rid f) (\<lambda>g.
           op_try (op_then (te_hooks E PRE_CALLBACK g) (te_build E g))
             (\<lambda>err. run_error_status_handler E err g) (\<lambda>_. op_ok ()))))"

section \<open>Resources\<close>

text \<open>\<open>Ticket.next_flow\<close> and \<open>current_flow\<close>.\<close>

definition next_flow :: "ticket_env \<Rightarrow> ticket_state \<Rightarrow> flow_row option" where
  "next_flow E s =
     first_of (filter (\<lambda>f. fl_status f = FLOW_PENDING \<and> (te_skip_itsm E \<longrightarrow> fl_type f \<notin> {BK_ITSM, PAUSE})) (tk_flows s))"

definition current_flow :: "ticket_env \<Rightarrow> ticket_state \<Rightarrow> flow_row option" where
  "current_flow E s =
     (case filter (\<lambda>f. fl_status f \<noteq> FLOW_PENDING) (tk_flows s) of [] \<Rightarrow> next_flow E s | fs \<Rightarrow> Some (last fs))"

definition create_replenish_todo :: "ticket_env \<Rightarrow> flow_row \<Rightarrow> unit ticket_op" where
  "create_replenish_todo E f =
     op_bind (op_get (\<lambda>s. list_ex (\<lambda>td. td_type td = TODO_RESOURCE_REPLENISH) (todos_of (fl_id f) s))) (\<lambda>exists.
       if exists then op_ok ()
       else op_bind (todo_create E TODO_RESOURCE_REPLENISH f []) (\<lambda>_. send_task SendMsg))"

definition apply_resource :: "ticket_env \<Rightarrow> flow_row \<Rightarrow> unit ticket_op" where
  "apply_resource E f =
     op_bind (op_get (te_resource E f)) (\<lambda>resp.
       if resp = Inl ResourceInsufficient then op_then (create_replenish_todo E f) (op_raise ResourceInsufficient)
       else op_result resp)"

definition resource_body :: "ticket_env \<Rightarrow> unit ticket_op \<Rightarrow> flow_row \<Rightarrow> unit ticket_op" where
  "resource_body E run_next f =
     op_bind (op_get (next_flow E)) (\<lambda>nxt.
       case nxt of
         None \<Rightarrow> op_raise AttributeError
       | Some nf \<Rightarrow>
           if fl_type nf \<noteq> INNER_FLOW then op_raise ResourceError
           else op_bind (fresh_uid E) (\<lambda>rid.
             op_then (save_flow (flow_signal E) (fl_id nf) (\<lambda>_. nf\<lparr>fl_obj_id := rid\<rparr>))
             (op_then (apply_resource E f)
             (op_then (save_flow (flow_signal E) (fl_id nf) (\<lambda>r. r))
             (op_then (save_flow (flow_signal E) (fl_id f) (\<lambda>r. r\<lparr>fl_resource_done := True\<rparr>))
             (op_then (te_hooks E POST_CALLBACK f) run_next))))))"

definition resource_run :: "ticket_env \<Rightarrow> unit ticket_op \<Rightarrow> flow_row \<Rightarrow> unit ticket_op" where
  "resource_run E run_next f =
     op_bind (check_flow_ack E (fl_id f)) (\<lambda>acked.
       if acked then op_ok ()
       else op_bind (fresh_uid E) (\<lambda>rid.
         op_bind (run_status_handler E rid f) (\<lambda>g.
           op_try (resource_body E run_next g)
             (\<lambda>err. if err = ResourceInsufficient then save_flow (flow_signal E) (fl_id g) (\<lambda>r. r\<lparr>fl_failed := True\<rparr>)
                    else run_error_status_handler E err g)
             (\<lambda>_. op_ok ()))))"

section \<open>Running a flow, and the next flow\<close>

definition flow_run :: "ticket_env \<Rightarrow> unit ticket_op \<Rightarrow> flow_row \<Rightarrow> unit ticket_op" where
  "flow_run E run_next f = (case fl_type f of
     BK_ITSM \<Rightarrow> op_then (base_run E (itsm_body E f) f) (send_task SendMsg)
   | INNER_FLOW \<Rightarrow> inner_run E f
   | QUICK_INNER_FLOW \<Rightarrow> op_then (inner_run E f) run_next
   | IGNORE_RESULT_INNER_FLOW \<Rightarrow> inner_run E f
   | PAUSE \<Rightarrow> base_run E (pause_body E f) f
   | DELIVERY \<Rightarrow> op_then (base_run E (delivery_body E f) f) run_next
   | DESCRIBE_TASK \<Rightarrow> op_then (base_run E (delivery_body E f) f) run_next
   | TIMER \<Rightarrow> base_run E (timer_body E f) f
   | RESOURCE_APPLY \<Rightarrow> resource_run E run_next f
   | RESOURCE_DELIVERY \<Rightarrow> op_then (base_run E (delivery_body E f) f) run_next
   | RESOURCE_BATCH_DELIVERY \<Rightarrow> op_then (base_run E (delivery_body E f) f) run_next
   | RESOURCE_BATCH_APPLY \<Rightarrow> resource_run E run_next f
   | HOST_RECYCLE \<Rightarrow> simple_run E f
   | RESOURCE_HCM_REPLENISH \<Rightarrow> simple_run E f)"

definition start_next :: "ticket_env \<Rightarrow> unit ticket_op \<Rightarrow> flow_row \<Rightarrow> flow_row \<Rightarrow> bool \<Rightarrow> unit ticket_op" where
  "start_next E run_next current nxt is_init =
     op_bind (flow_status_of E (flow_signal E) current) (\<lambda>st.
       if is_init \<or> st \<in> Some ` set FLOW_FINISHED_STATUS then op_then (flow_init E nxt) (flow_run E run_next nxt) else op_ok ())"

primrec run_next_flow :: "ticket_env \<Rightarrow> nat \<Rightarrow> unit ticket_op" where
  "run_next_flow E 0 = op_raise RecursionError"
| "run_next_flow E (Suc n) = (\<lambda>s.
     case next_flow E s of
       None \<Rightarrow> (Inr (), s)
     | Some nxt \<Rightarrow>
         (case current_flow E s of
            None \<Rightarrow> (Inl AttributeError, s)
          | Some current \<Rightarrow>
              let is_init = (fl_id nxt = fl_id (hd (tk_flows s))) in
              if fl_id current \<ge> fl_id nxt \<and> \<not> is_init then (Inr (), s)
              else start_next E (run_next_flow E n) current nxt is_init s))"

section \<open>Retrying a flow\<close>

definition flow_retry :: "ticket_env \<Rightarrow> unit ticket_op \<Rightarrow> flow_row \<Rightarrow> unit ticket_op" where
  "flow_retry E run_next f =
     op_then (flow_init E f)
       (op_bind (if fl_type f = RESOURCE_HCM_REPLENISH
                 then op_then (save_flow (flow_signal E) (fl_id f) (\<lambda>r. r\<lparr>fl_obj_id := []\<rparr>)) (op_ok (f\<lparr>fl_obj_id := []\<rparr>))
                 else op_ok f) (\<lambda>f.
        op_bind (flush_error_status_handler E f) (flow_run E run_next)))"

end
