(* ===== verification/Ticket_Order.thy ===== *)
theory Ticket_Order
  imports Ticket_Flow
begin

text \<open>
  The flows of a ticket run in order: at most one flow, the active one at position \<open>k\<close>, is neither
  finished nor still waiting; all before it are finished and all after it wait. Polling, running,
  retrying keep this.
\<close>

section \<open>The order of the flows\<close>

text \<open>A resource flow is finished only when its resources were applied for.\<close>

definition sane_row :: "flow_row \<Rightarrow> bool" where
  "sane_row r \<longleftrightarrow> (fl_type r \<in> resource_types \<and> fl_status r \<in> set FLOW_FINISHED_STATUS \<longrightarrow>
     fl_obj_id r \<noteq> [] \<and> fl_resource_done r \<and> fl_status r = FLOW_SUCCEEDED)"

definition waiting_row :: "flow_row \<Rightarrow> bool" where
  "waiting_row r \<longleftrightarrow> fl_status r = FLOW_PENDING \<and> \<not> fl_failed r \<and> (fl_type r \<in> resource_types \<longrightarrow> fl_obj_id r = [])"

text \<open>The kinds of flow the builders make; a timer needs the trigger time of the ticket.\<close>

definition known_type :: "ticket_env \<Rightarrow> flow_type \<Rightarrow> bool" where
  "known_type E ty \<longleftrightarrow> ty \<notin> {QUICK_INNER_FLOW, IGNORE_RESULT_INNER_FLOW, DESCRIBE_TASK} \<and> (ty = TIMER \<longrightarrow> te_trigger_time E \<noteq> None)"

definition row_ok :: "nat \<Rightarrow> nat \<Rightarrow> flow_row \<Rightarrow> bool" where
  "row_ok k j r \<longleftrightarrow> sane_row r \<and> (j < k \<longrightarrow> fl_status r \<in> set FLOW_FINISHED_STATUS) \<and> (k < j \<longrightarrow> waiting_row r)"

text \<open>\<open>ids\<close> are the identifiers and kinds of the flows, which no operation changes.\<close>

definition ordered :: "ticket_env \<Rightarrow> (nat \<times> flow_type) list \<Rightarrow> nat \<Rightarrow> ticket_state \<Rightarrow> bool" where
  "ordered E ids k s \<longleftrightarrow>
     map (\<lambda>r. (fl_id r, fl_type r)) (tk_flows s) = ids \<and> sorted_wrt (<) (map fst ids) \<and> (\<forall>ty\<in>snd ` set ids. known_type E ty) \<and>
     k \<le> length ids \<and> (\<forall>j<length ids. row_ok k j (tk_flows s ! j))"

definition ordered_from :: "ticket_env \<Rightarrow> (nat \<times> flow_type) list \<Rightarrow> nat \<Rightarrow> ticket_state \<Rightarrow> bool" where
  "ordered_from E ids k s \<longleftrightarrow> (\<exists>k'\<ge>k. ordered E ids k' s)"

lemma ordered_fromI: "ordered E ids k s \<Longrightarrow> ordered_from E ids k s"
  by (auto simp: ordered_from_def)

lemma ordered_from_mono: "ordered_from E ids k' s \<Longrightarrow> k \<le> k' \<Longrightarrow> ordered_from E ids k s"
  by (auto simp: ordered_from_def intro: order_trans)

lemma ordered_nth:
  assumes "ordered E ids k s" and "j < length ids"
  shows "fl_id (tk_flows s ! j) = fst (ids ! j)" "fl_type (tk_flows s ! j) = snd (ids ! j)" "row_ok k j (tk_flows s ! j)"
    and "length (tk_flows s) = length ids"
proof -
  have m: "map (\<lambda>r. (fl_id r, fl_type r)) (tk_flows s) = ids" using assms(1) by (simp add: ordered_def)
  then show len: "length (tk_flows s) = length ids" by (metis length_map)
  have "ids ! j = (\<lambda>r. (fl_id r, fl_type r)) (tk_flows s ! j)" using assms(2) by (simp add: m [symmetric])
  then show "fl_id (tk_flows s ! j) = fst (ids ! j)" "fl_type (tk_flows s ! j) = snd (ids ! j)" by simp_all
  show "row_ok k j (tk_flows s ! j)" using assms by (simp add: ordered_def)
qed

lemma ids_nth_less: "ordered E ids k s \<Longrightarrow> i < j \<Longrightarrow> j < length ids \<Longrightarrow> fst (ids ! i) < fst (ids ! j)"
  unfolding ordered_def by (auto simp: sorted_wrt_iff_nth_less)

lemma ids_nth_eq: "ordered E ids k s \<Longrightarrow> i < length ids \<Longrightarrow> j < length ids \<Longrightarrow> fst (ids ! i) = fst (ids ! j) \<Longrightarrow> i = j"
  using ids_nth_less [of E ids k s i j] ids_nth_less [of E ids k s j i] by (metis less_irrefl linorder_neqE_nat)

lemma ordered_distinct: "ordered E ids k s \<Longrightarrow> distinct (map fl_id (tk_flows s))"
proof -
  assume o: "ordered E ids k s"
  then have "map fl_id (tk_flows s) = map fst ids" by (auto simp: ordered_def)
  then show ?thesis using o by (simp add: ordered_def strict_sorted_iff)
qed

section \<open>Writing a row\<close>

lemma ordered_update:
  assumes o: "ordered E ids k s" and k': "k' \<le> length ids"
    and upd: "\<And>j. j < length ids \<Longrightarrow> fst (ids ! j) = i \<Longrightarrow>
        fl_id (upd (tk_flows s ! j)) = i \<and> fl_type (upd (tk_flows s ! j)) = fl_type (tk_flows s ! j) \<and> row_ok k' j (upd (tk_flows s ! j))"
    and rest: "\<And>j. j < length ids \<Longrightarrow> fst (ids ! j) \<noteq> i \<Longrightarrow> row_ok k' j (tk_flows s ! j)"
  shows "ordered E ids k' (update_rows i upd s)"
proof -
  have len: "length (tk_flows s) = length ids" using o unfolding ordered_def by (metis length_map)
  note nth = ordered_nth [OF o]
  have row: "tk_flows (update_rows i upd s) ! j = (if fst (ids ! j) = i then upd (tk_flows s ! j) else tk_flows s ! j)"
    if "j < length ids" for j
    using that len nth(1) [OF that] by (simp add: update_rows_def)
  have m: "map (\<lambda>r. (fl_id r, fl_type r)) (tk_flows (update_rows i upd s)) = ids"
  proof (rule nth_equalityI)
    show "length (map (\<lambda>r. (fl_id r, fl_type r)) (tk_flows (update_rows i upd s))) = length ids" using len by (simp add: update_rows_def)
    fix j assume "j < length (map (\<lambda>r. (fl_id r, fl_type r)) (tk_flows (update_rows i upd s)))"
    then have j: "j < length ids" using len by (simp add: update_rows_def)
    then show "map (\<lambda>r. (fl_id r, fl_type r)) (tk_flows (update_rows i upd s)) ! j = ids ! j"
      using row [OF j] nth(1,2) [OF j] upd [OF j] len by (auto simp: update_rows_def prod_eq_iff)
  qed
  moreover have "row_ok k' j (tk_flows (update_rows i upd s) ! j)" if "j < length ids" for j
    using row [OF that] upd [OF that] rest [OF that] by simp
  ultimately show ?thesis using o k' by (simp add: ordered_def)
qed

abbreviation keeps :: "ticket_env \<Rightarrow> (nat \<times> flow_type) list \<Rightarrow> nat \<Rightarrow> 'a ticket_op \<Rightarrow> bool" where
  "keeps E ids k m \<equiv> op_valid (ordered E ids k) m (\<lambda>_. ordered E ids k) (\<lambda>_. ordered E ids k)"

lemma keeps_bind: "keeps E ids k m \<Longrightarrow> (\<And>x. keeps E ids k (h x)) \<Longrightarrow> keeps E ids k (op_bind m h)"
  by (rule op_valid_bind)

lemma keeps_then: "keeps E ids k m \<Longrightarrow> keeps E ids k h \<Longrightarrow> keeps E ids k (op_then m h)"
  by (rule op_valid_then)

lemma keeps_try: "keeps E ids k m \<Longrightarrow> (\<And>e. keeps E ids k (g e)) \<Longrightarrow> (\<And>x. keeps E ids k (h x)) \<Longrightarrow> keeps E ids k (op_try m g h)"
  by (rule op_valid_try)

lemma keeps_kept: "flows_kept m \<Longrightarrow> keeps E ids k m"
  by (rule op_validI) (auto simp: flows_kept_def ordered_def split: prod.splits sum.splits)

lemma keeps_ok: "keeps E ids k (op_ok x)" and keeps_raise: "keeps E ids k (op_raise e)" and keeps_get: "keeps E ids k (op_get h)"
  by (simp_all add: op_valid_def op_ok_def op_raise_def op_get_def)

lemma keeps_if: "(b \<Longrightarrow> keeps E ids k m) \<Longrightarrow> (\<not> b \<Longrightarrow> keeps E ids k h) \<Longrightarrow> keeps E ids k (if b then m else h)"
  by simp

text \<open>Writing the active row, or a waiting row, so that it stays what it is.\<close>

lemma keeps_save:
  assumes "keeps E ids k sig" and "i = fst (ids ! j)" and "k \<le> j" and j: "j < length ids"
    and "\<And>r. fl_id r = i \<Longrightarrow> fl_type r = snd (ids ! j) \<Longrightarrow> row_ok k j r \<Longrightarrow>
      fl_id (upd r) = i \<and> fl_type (upd r) = fl_type r \<and> row_ok k j (upd r)"
  shows "keeps E ids k (save_flow sig i upd)"
proof (rule op_validI)
  fix s assume s: "ordered E ids k s"
  have "ordered E ids k (update_rows i upd s)"
  proof (rule ordered_update [OF s])
    show "k \<le> length ids" using s by (simp add: ordered_def)
    fix m assume m: "m < length ids"
    show "row_ok k m (tk_flows s ! m)" using ordered_nth(3) [OF s m] .
    assume "fst (ids ! m) = i"
    then have mj: "m = j" using ids_nth_eq [OF s m j] assms(2) by simp
    show "fl_id (upd (tk_flows s ! m)) = i \<and> fl_type (upd (tk_flows s ! m)) = fl_type (tk_flows s ! m) \<and> row_ok k m (upd (tk_flows s ! m))"
      unfolding mj by (rule assms(5)) (use ordered_nth [OF s j] assms(2) in simp_all)
  qed
  then show "case save_flow sig i upd s of (Inr x, t) \<Rightarrow> ordered E ids k t | (Inl e, t) \<Rightarrow> ordered E ids k t"
    using op_valid_at [OF assms(1)] by (simp add: save_flow_def)
qed

section \<open>Polling\<close>

text \<open>Polls keep, beside the order, all columns but the status and the error.\<close>

definition cores_ids :: "(nat \<times> flow_type \<times> string \<times> bool) list \<Rightarrow> (nat \<times> flow_type) list" where
  "cores_ids cores = map (\<lambda>(i, ty, _). (i, ty)) cores"

definition ordered_at :: "ticket_env \<Rightarrow> (nat \<times> flow_type \<times> string \<times> bool) list \<Rightarrow> nat \<Rightarrow> ticket_state \<Rightarrow> bool" where
  "ordered_at E cores k s \<longleftrightarrow> ordered E (cores_ids cores) k s \<and> map flow_core (tk_flows s) = cores"

abbreviation polls :: "ticket_env \<Rightarrow> (nat \<times> flow_type \<times> string \<times> bool) list \<Rightarrow> nat \<Rightarrow> 'a ticket_op \<Rightarrow> bool" where
  "polls E cores k m \<equiv> op_valid (ordered_at E cores k) m (\<lambda>_. ordered_at E cores k) (\<lambda>_. ordered_at E cores k)"

lemma op_valid_conj:
  "op_valid P m Q R \<Longrightarrow> op_valid P' m Q' R' \<Longrightarrow> op_valid (\<lambda>s. P s \<and> P' s) m (\<lambda>x s. Q x s \<and> Q' x s) (\<lambda>e s. R e s \<and> R' e s)"
  unfolding op_valid_def by (fastforce split: prod.splits sum.splits)

lemma polls_kept: "flows_kept m \<Longrightarrow> polls E cores k m"
  by (rule op_validI) (auto simp: flows_kept_def ordered_def ordered_at_def split: prod.splits sum.splits)

lemma ordered_at_update:
  assumes s: "ordered_at E cores k s" and k: "k < length cores" and k': "k' = k \<or> k' = Suc k"
    and f: "flow_core f = cores ! k"
    and upd: "\<And>r. flow_core r = flow_core f \<Longrightarrow> sane_row r \<Longrightarrow> flow_core (upd r) = flow_core f \<and> sane_row (upd r) \<and>
        (k' = Suc k \<longrightarrow> fl_status (upd r) \<in> set FLOW_FINISHED_STATUS)"
  shows "ordered_at E cores k' (update_rows (fl_id f) upd s)"
proof -
  let ?ids = "cores_ids cores"
  have o: "ordered E ?ids k s" and c: "map flow_core (tk_flows s) = cores" using s by (simp_all add: ordered_at_def)
  have len: "length ?ids = length cores" by (simp add: cores_ids_def)
  have core: "flow_core (tk_flows s ! j) = cores ! j" if "j < length cores" for j
    using that by (simp flip: c)
  have id: "fst (?ids ! k) = fl_id f" using k f by (cases "cores ! k") (auto simp: cores_ids_def flow_core_def)
  have only: "j = k" if "j < length ?ids" "fst (?ids ! j) = fl_id f" for j
    using ids_nth_eq [OF o that(1), of k] that id k len by simp
  have "ordered E ?ids k' (update_rows (fl_id f) upd s)"
  proof (rule ordered_update [OF o])
    show "k' \<le> length ?ids" using k k' len by auto
    fix j assume j: "j < length ?ids"
    note row = ordered_nth(3) [OF o j]
    show "row_ok k' j (tk_flows s ! j)" if "fst (?ids ! j) \<noteq> fl_id f"
      using row that id k' by (cases "j = k") (auto simp: row_ok_def)
    assume e: "fst (?ids ! j) = fl_id f"
    then have jk: "j = k" using only j by blast
    have c: "flow_core (tk_flows s ! k) = flow_core f" using core [OF k] f by simp
    moreover have "sane_row (tk_flows s ! k)" using row unfolding jk by (simp add: row_ok_def)
    moreover note upd [OF c this]
    ultimately show "fl_id (upd (tk_flows s ! j)) = fl_id f \<and> fl_type (upd (tk_flows s ! j)) = fl_type (tk_flows s ! j)
        \<and> row_ok k' j (upd (tk_flows s ! j))"
      using k' unfolding jk by (auto simp: row_ok_def flow_core_def)
  qed
  moreover have "map flow_core (tk_flows (update_rows (fl_id f) upd s)) = cores"
  proof (rule nth_equalityI)
    have l: "length (tk_flows s) = length cores" using c by (metis length_map)
    then show "length (map flow_core (tk_flows (update_rows (fl_id f) upd s))) = length cores" by (simp add: update_rows_def)
    fix j assume "j < length (map flow_core (tk_flows (update_rows (fl_id f) upd s)))"
    then have j: "j < length cores" using l by (simp add: update_rows_def)
    have fid: "fl_id (tk_flows s ! j) = fst (?ids ! j)" using ordered_nth(1) [OF o] j len by simp
    show "map flow_core (tk_flows (update_rows (fl_id f) upd s)) ! j = cores ! j"
    proof (cases "fst (?ids ! j) = fl_id f")
      case True
      then have jk: "j = k" using only j len by simp
      have "sane_row (tk_flows s ! k)" using ordered_nth(3) [OF o, of k] k len by (simp add: row_ok_def)
      with upd [of "tk_flows s ! k"] core [OF k] f fid True l k show ?thesis unfolding jk by (simp add: update_rows_def)
    next
      case False
      then show ?thesis using core [OF j] fid l j by (simp add: update_rows_def)
    qed
  qed
  ultimately show ?thesis by (simp add: ordered_at_def)
qed

lemma polls_bind: "polls E cores k m \<Longrightarrow> (\<And>x. polls E cores k (h x)) \<Longrightarrow> polls E cores k (op_bind m h)"
  by (rule op_valid_bind)

lemma polls_ok: "polls E cores k (op_ok x)" and polls_get: "polls E cores k (op_get h)"
  by (simp_all add: op_valid_def op_ok_def op_get_def)

lemma polls_save:
  assumes "polls E cores k sig" and "k < length cores" and "flow_core f = cores ! k"
    and "\<And>r. flow_core r = flow_core f \<Longrightarrow> sane_row r \<Longrightarrow> flow_core (upd r) = flow_core f \<and> sane_row (upd r)"
  shows "polls E cores k (save_flow sig (fl_id f) upd)"
proof (rule op_validI)
  fix s assume s: "ordered_at E cores k s"
  have "ordered_at E cores k (update_rows (fl_id f) upd s)"
    by (rule ordered_at_update [OF s assms(2) _ assms(3)]) (use assms(4) in auto)
  then show "case save_flow sig (fl_id f) upd s of (Inr x, t) \<Rightarrow> ordered_at E cores k t | (Inl e, t) \<Rightarrow> ordered_at E cores k t"
    using op_valid_at [OF assms(1)] by (simp add: save_flow_def)
qed

text \<open>A flow may be set to \<open>st\<close>: a resource flow is finished only with its resources.\<close>

definition legal_status :: "flow_row \<Rightarrow> flow_status \<Rightarrow> bool" where
  "legal_status f st \<longleftrightarrow> (fl_type f \<in> resource_types \<and> st \<in> set FLOW_FINISHED_STATUS \<longrightarrow>
     fl_obj_id f \<noteq> [] \<and> fl_resource_done f \<and> st = FLOW_SUCCEEDED)"

lemma legal_sane: "flow_core r = flow_core f \<Longrightarrow> legal_status f st \<Longrightarrow> sane_row (r\<lparr>fl_status := st\<rparr>)"
  by (simp add: sane_row_def legal_status_def flow_core_def)

lemma polls_update_status:
  assumes "polls E cores k sig" and "k < length cores" and "flow_core f = cores ! k" and "legal_status f st"
  shows "polls E cores k (flow_update_status sig st f)"
proof -
  have "polls E cores k (save_flow sig (fl_id f) (\<lambda>r. r\<lparr>fl_status := st\<rparr>))"
    by (rule polls_save [OF assms(1-3)]) (use legal_sane [OF _ assms(4)] in \<open>auto simp: flow_core_def\<close>)
  then show ?thesis unfolding flow_update_status_def op_then_def
    by (auto intro: polls_bind polls_ok)
qed

text \<open>When the poll of the active flow says finished, its row says so, and the next flow may start.\<close>

definition advances :: "ticket_env \<Rightarrow> (nat \<times> flow_type \<times> string \<times> bool) list \<Rightarrow> nat \<Rightarrow> flow_status option ticket_op \<Rightarrow> bool" where
  "advances E cores k m \<longleftrightarrow> op_valid (ordered_at E cores k) m
     (\<lambda>st s. ordered_at E cores k s \<and> (st \<in> Some ` set FLOW_FINISHED_STATUS \<longrightarrow> ordered_at E cores (Suc k) s)) (\<lambda>_. ordered_at E cores k)"

lemma advances_bind: "polls E cores k m \<Longrightarrow> (\<And>x. advances E cores k (h x)) \<Longrightarrow> advances E cores k (op_bind m h)"
  unfolding advances_def by (rule op_valid_bind)

lemma advances_then: "polls E cores k m \<Longrightarrow> advances E cores k h \<Longrightarrow> advances E cores k (op_then m h)"
  unfolding advances_def by (rule op_valid_then)

lemma advances_ok: "st \<notin> Some ` set FLOW_FINISHED_STATUS \<Longrightarrow> advances E cores k (op_ok st)"
  by (simp add: advances_def op_valid_def op_ok_def)

lemma advances_polls: "advances E cores k m \<Longrightarrow> polls E cores k m"
  unfolding advances_def by (erule op_valid_weaken) auto

lemma advances_save:
  assumes sig: "polls E cores k sig" "polls E cores (Suc k) sig" and k: "k < length cores" "flow_core f = cores ! k"
    and upd: "\<And>r. flow_core r = flow_core f \<Longrightarrow> sane_row r \<Longrightarrow>
        flow_core (upd r) = flow_core f \<and> sane_row (upd r) \<and> (st \<in> set FLOW_FINISHED_STATUS \<longrightarrow> fl_status (upd r) = st)"
  shows "advances E cores k (op_then (save_flow sig (fl_id f) upd) (op_ok (Some st)))"
  unfolding advances_def
proof (rule op_validI)
  fix s assume s: "ordered_at E cores k s"
  let ?t = "update_rows (fl_id f) upd s"
  have t: "ordered_at E cores k ?t"
    by (rule ordered_at_update [OF s k(1) _ k(2)]) (use upd in auto)
  have t': "ordered_at E cores (Suc k) ?t" if "st \<in> set FLOW_FINISHED_STATUS"
    by (rule ordered_at_update [OF s k(1) _ k(2)]) (use upd that in auto)
  show "case op_then (save_flow sig (fl_id f) upd) (op_ok (Some st)) s of
      (Inr x, u) \<Rightarrow> ordered_at E cores k u \<and> (x \<in> Some ` set FLOW_FINISHED_STATUS \<longrightarrow> ordered_at E cores (Suc k) u)
    | (Inl e, u) \<Rightarrow> ordered_at E cores k u"
    using op_valid_at [OF sig(1) t] op_valid_at [OF sig(2) t']
    by (auto simp: op_then_def op_bind_def op_ok_def save_flow_def split: prod.splits sum.splits)
qed

lemma advances_update_status:
  assumes "polls E cores k sig" "polls E cores (Suc k) sig" and "k < length cores" "flow_core f = cores ! k"
    and "legal_status f st" and "fl_status f \<notin> set FLOW_FINISHED_STATUS"
  shows "advances E cores k (flow_update_status sig st f)"
proof (cases "fl_status f = st")
  case True
  then show ?thesis using assms(6) by (auto simp: flow_update_status_def intro: advances_ok)
next
  case False
  have "advances E cores k (op_then (save_flow sig (fl_id f) (\<lambda>r. r\<lparr>fl_status := st\<rparr>)) (op_ok (Some st)))"
    by (rule advances_save [OF assms(1-4)]) (use legal_sane [OF _ assms(5)] in \<open>auto simp: flow_core_def\<close>)
  with False show ?thesis by (simp add: flow_update_status_def)
qed

lemma itsm_flow_status_cases:
  obtains (update) v where "itsm_flow_status sig f t = flow_update_status sig v f t"
  | (close) u d td v where "itsm_flow_status sig f t = op_bind (todo_set_status u d td) (\<lambda>_. flow_update_status sig v f) t"
  | (stop) e where "itsm_flow_status sig f t = (e, t)" "e \<in> {Inl TypeError, Inl IndexError, Inl AttributeError, Inr None}"
proof -
  have "itsm_flow_status sig f t \<in> {flow_update_status sig v f t |v. True}
      \<union> {op_bind (todo_set_status u d td) (\<lambda>_. flow_update_status sig v f) t |u d td v. True}
      \<union> {(e, t) |e. e \<in> {Inl TypeError, Inl IndexError, Inl AttributeError, Inr None}}"
  proof (cases "tk_itsm t (fl_obj_id f)")
    case (Some r)
    show ?thesis
    proof (cases "itsm_operator r")
      case None
      with Some show ?thesis by (auto simp: itsm_flow_status_def)
    next
      case (Some u)
      with \<open>tk_itsm t (fl_obj_id f) = Some r\<close> show ?thesis
        by (cases "itsm_current r") (auto simp: itsm_flow_status_def split: option.splits)
    qed
  qed (simp add: itsm_flow_status_def)
  with that show thesis by blast
qed

lemma legal_other: "fl_type f \<notin> resource_types \<Longrightarrow> legal_status f st"
  by (simp add: legal_status_def)

lemma advances_class:
  assumes sig: "polls E cores k sig" "polls E cores (Suc k) sig" and k: "k < length cores" "flow_core f = cores ! k"
    and st: "fl_status f \<notin> set FLOW_FINISHED_STATUS" and ty: "fl_type f \<notin> resource_types" "known_type E (fl_type f)"
  shows "advances E cores k (class_status E sig f)"
proof -
  note upd = advances_update_status [OF sig k legal_other [OF ty(1)] st]
  have itsm: "advances E cores k (itsm_flow_status sig f)"
    unfolding advances_def
  proof (rule op_validI)
    fix t assume t: "ordered_at E cores k t"
    have todo: "advances E cores k (op_bind (todo_set_status u d td) (\<lambda>_. flow_update_status sig v f))" for u d td v
      by (intro advances_bind polls_kept flows_kept_rules upd)
    show "case itsm_flow_status sig f t of
        (Inr x, u) \<Rightarrow> ordered_at E cores k u \<and> (x \<in> Some ` set FLOW_FINISHED_STATUS \<longrightarrow> ordered_at E cores (Suc k) u)
      | (Inl e, u) \<Rightarrow> ordered_at E cores k u"
    proof (cases sig f t rule: itsm_flow_status_cases)
      case (update v)
      then show ?thesis using op_valid_at [OF upd [unfolded advances_def] t, of v] by simp
    next
      case (close u d td v)
      then show ?thesis using op_valid_at [OF todo [unfolded advances_def] t, of u d td v] by simp
    next
      case (stop e)
      then show ?thesis using t by auto
    qed
  qed
  have inner: "advances E cores k (inner_flow_status E sig f)"
    by (auto simp: inner_flow_status_def Let_def FLOW_FINISHED_STATUS_def
        intro!: advances_ok advances_bind advances_then polls_get polls_kept inner_todo_frame upd)
  have timer: "advances E cores k (timer_flow_status E sig f)"
    unfolding advances_def
  proof (rule op_validI)
    fix t assume t: "ordered_at E cores k t"
    have close: "advances E cores k (op_then (op_change (\<lambda>s. s\<lparr>tk_todos := h s\<rparr>)) (flow_update_status sig FLOW_SUCCEEDED f))" for h
      by (intro advances_then upd polls_kept) (simp add: flows_kept_def op_change_def)
    show "case timer_flow_status E sig f t of
        (Inr x, u) \<Rightarrow> ordered_at E cores k u \<and> (x \<in> Some ` set FLOW_FINISHED_STATUS \<longrightarrow> ordered_at E cores (Suc k) u)
      | (Inl e, u) \<Rightarrow> ordered_at E cores k u"
      using t op_valid_at [OF upd [unfolded advances_def] t, of FLOW_RUNNING] op_valid_at [OF close [unfolded advances_def] t]
      by (auto simp: timer_flow_status_def FLOW_FINISHED_STATUS_def)
  qed
  have hcm: "advances E cores k (hcm_flow_status E sig f)"
  proof -
    have fin: "advances E cores k (save_whole sig v g)" if g: "flow_core g = flow_core f" "fl_status g = fl_status f" for g v
    proof (cases "fl_status g = v")
      case True
      then show ?thesis using st g by (auto simp: save_whole_def advances_def op_then_def op_bind_def op_ok_def op_valid_def)
    next
      case False
      have "sane_row (g\<lparr>fl_status := v\<rparr>)" using legal_sane [OF g(1) legal_other [OF ty(1)]] .
      moreover have "flow_core (g\<lparr>fl_status := v\<rparr>) = flow_core g" by (simp add: flow_core_def)
      moreover have "flow_core g = cores ! k" using g(1) k(2) by simp
      ultimately have "advances E cores k (op_then (save_flow sig (fl_id g) (\<lambda>_. g\<lparr>fl_status := v\<rparr>)) (op_ok (Some v)))"
        by (intro advances_save [OF sig k(1)]) auto
      with False show ?thesis by (simp add: save_whole_def)
    qed
    have "advances E cores k (case tree of None \<Rightarrow> op_ok (Some (fl_status f))
       | Some q \<Rightarrow>
           if tree_flow_status q \<noteq> FLOW_SUCCEEDED then flow_update_status sig (tree_flow_status q) f
           else let lack = te_hcm_count E \<noteq> te_hcm_applied E (fl_id f);
                    f = (if lack then f\<lparr>fl_err_code := Some HCM_APPLY_LACK_RESOURCE_ERROR, fl_failed := True\<rparr> else f);
                    status = (if lack then FLOW_FAILED else FLOW_SUCCEEDED)
                in op_then (set_inner_flow_todo E f status) (save_whole sig status f))" for tree
      unfolding Let_def
      by (cases tree) (use st in \<open>auto intro!: advances_ok upd advances_then polls_kept inner_todo_frame fin simp: flow_core_def\<close>)
    then show ?thesis unfolding hcm_flow_status_def by (intro advances_bind polls_get)
  qed
  show ?thesis
    using ty inner timer itsm hcm upd
    by (cases "fl_type f")
      (auto simp: class_status_def resource_types_def known_type_def pause_flow_status_def delivery_flow_status_def
        intro!: advances_bind polls_get)
qed

lemma advances_resource:
  assumes sig: "polls E cores k sig" "polls E cores (Suc k) sig" and k: "k < length cores" "flow_core f = cores ! k"
    and st: "fl_status f \<notin> set FLOW_FINISHED_STATUS"
  shows "advances E cores k (resource_flow_status sig f)"
proof -
  have upd: "advances E cores k (flow_update_status sig v f)" if "legal_status f v" for v
    using advances_update_status [OF sig k that st] .
  show ?thesis unfolding resource_flow_status_def
    using st by (auto intro!: upd advances_bind polls_get advances_ok simp: legal_status_def FLOW_FINISHED_STATUS_def)
qed

lemma polls_flow_status:
  assumes sig: "polls E cores k sig" "polls E cores (Suc k) sig" and k: "k < length cores" "flow_core f = cores ! k"
    and ty: "known_type E (fl_type f)"
  shows "polls E cores k (flow_status_of E sig f)"
proof -
  have init: "polls E cores k (flow_init E f)"
    by (rule polls_kept) (auto simp: flows_kept_def flow_init_def split: flow_type.splits option.splits)
  have upd: "polls E cores k (flow_update_status sig v f)" if "legal_status f v" for v
    using polls_update_status [OF sig(1) k that] .
  have res: "polls E cores k (resource_flow_status sig f)"
    unfolding resource_flow_status_def
    by (auto intro!: upd polls_bind polls_get polls_ok simp: legal_status_def FLOW_FINISHED_STATUS_def)
  have "polls E cores k (base_flow_status E sig f)" if r: "fl_type f \<notin> resource_types"
    using advances_polls [OF advances_class [OF sig k _ r ty]]
    by (auto simp: base_flow_status_def intro!: polls_ok)
  with init res show ?thesis unfolding flow_status_of_def op_then_def by (auto intro!: polls_bind)
qed

lemma quiet_flow_status:
  assumes "known_type E (fl_type f)" and "sane_row f \<and> fl_status f \<in> set FLOW_FINISHED_STATUS \<or> waiting_row f"
  shows "flow_status_of E sig f s = (Inr (Some (fl_status f)), s)"
proof -
  have init: "flow_init E f s = (Inr (), s)"
    using assms(1) by (cases "fl_type f") (auto simp: flow_init_def known_type_def)
  have "(if fl_type f \<in> resource_types then resource_flow_status sig f else base_flow_status E sig f) s = (Inr (Some (fl_status f)), s)"
    using assms(2)
    by (auto simp: sane_row_def waiting_row_def FLOW_FINISHED_STATUS_def base_flow_status_def resource_flow_status_def
        flow_update_status_def op_ok_def)
  with init show ?thesis by (simp add: flow_status_of_def op_then_def op_bind_def)
qed

lemma ordered_at_Suc:
  assumes "ordered_at E cores k s" and "k < length cores" and "fl_status (tk_flows s ! k) \<in> set FLOW_FINISHED_STATUS"
  shows "ordered_at E cores (Suc k) s"
proof -
  have "row_ok (Suc k) j (tk_flows s ! j)" if "row_ok k j (tk_flows s ! j)" for j
    using that assms(3) by (cases "j = k") (auto simp: row_ok_def)
  then show ?thesis using assms(1,2) by (auto simp: ordered_at_def ordered_def cores_ids_def)
qed

lemma ordered_at_row:
  assumes "ordered_at E cores k s" and "j < length cores"
  shows "flow_core (tk_flows s ! j) = cores ! j" "known_type E (fl_type (tk_flows s ! j))" "row_ok k j (tk_flows s ! j)"
    "length (tk_flows s) = length cores"
proof -
  have c: "map flow_core (tk_flows s) = cores" and o: "ordered E (cores_ids cores) k s" using assms(1) by (simp_all add: ordered_at_def)
  show len: "length (tk_flows s) = length cores" using c by (metis length_map)
  show "flow_core (tk_flows s ! j) = cores ! j" using assms(2) by (simp flip: c)
  have j: "j < length (cores_ids cores)" using assms(2) by (simp add: cores_ids_def)
  have "snd (cores_ids cores ! j) \<in> snd ` set (cores_ids cores)" using j by simp
  then show "known_type E (fl_type (tk_flows s ! j))" using o ordered_nth(2) [OF o j] unfolding ordered_def by metis
  show "row_ok k j (tk_flows s ! j)" using ordered_nth(3) [OF o j] .
qed

lemma advance_flow_status:
  assumes sig: "polls E cores k sig" "polls E cores (Suc k) sig" and k: "k < length cores"
  shows "op_valid (\<lambda>s. ordered_at E cores k s \<and> tk_flows s ! k = f) (flow_status_of E sig f)
     (\<lambda>st s. ordered_at E cores k s \<and> (st \<in> Some ` set FLOW_FINISHED_STATUS \<longrightarrow> ordered_at E cores (Suc k) s)) (\<lambda>_. ordered_at E cores k)"
proof (rule op_validI)
  fix s assume "ordered_at E cores k s \<and> tk_flows s ! k = f"
  then have s: "ordered_at E cores k s" and f: "tk_flows s ! k = f" by simp_all
  have core: "flow_core f = cores ! k" and ty: "known_type E (fl_type f)" and sane: "sane_row f"
    using ordered_at_row [OF s k] f by (simp_all add: row_ok_def)
  show "case flow_status_of E sig f s of
      (Inr x, u) \<Rightarrow> ordered_at E cores k u \<and> (x \<in> Some ` set FLOW_FINISHED_STATUS \<longrightarrow> ordered_at E cores (Suc k) u)
    | (Inl e, u) \<Rightarrow> ordered_at E cores k u"
  proof (cases "fl_status f \<in> set FLOW_FINISHED_STATUS")
    case True
    then show ?thesis using s quiet_flow_status [OF ty, of sig s] sane ordered_at_Suc [OF s k] f by simp
  next
    case False
    have init: "polls E cores k (flow_init E f)"
      by (rule polls_kept) (auto simp: flows_kept_def flow_init_def split: flow_type.splits option.splits)
    have "advances E cores k (base_flow_status E sig f)" if r: "fl_type f \<notin> resource_types"
      using advances_class [OF sig k core False r ty] False
      by (auto simp: base_flow_status_def FLOW_FINISHED_STATUS_def intro!: advances_ok)
    then have "advances E cores k (flow_status_of E sig f)"
      using init advances_resource [OF sig k core False] unfolding flow_status_of_def by (auto intro!: advances_then)
    from op_valid_at [OF this [unfolded advances_def] s] show ?thesis .
  qed
qed

lemma polls_collect:
  assumes sig: "polls E cores k sig" "polls E cores (Suc k) sig"
    and "\<forall>f\<in>set fs. known_type E (fl_type f) \<and>
      (k < length cores \<and> flow_core f = cores ! k \<or> sane_row f \<and> fl_status f \<in> set FLOW_FINISHED_STATUS \<or> waiting_row f)"
  shows "polls E cores k (collect_statuses E sig fs)"
  using assms(3)
proof (induction fs)
  case (Cons f fs)
  have "polls E cores k (flow_status_of E sig f)"
  proof (cases "k < length cores \<and> flow_core f = cores ! k")
    case True
    then show ?thesis using polls_flow_status [OF sig] Cons.prems by simp
  next
    case False
    then have "flow_status_of E sig f = (\<lambda>s. (Inr (Some (fl_status f)), s))"
      using quiet_flow_status [of E f sig] Cons.prems by auto
    then show ?thesis by (simp add: op_valid_def)
  qed
  with Cons show ?case by (auto intro!: polls_bind polls_ok)
qed (simp add: polls_ok)

lemma polls_update: "polls E cores k (update_ticket_status E n)"
proof (induction n arbitrary: k)
  case 0
  then show ?case by (simp add: op_valid_def op_raise_def)
next
  case (Suc n)
  show ?case
  proof (rule op_validI)
    fix s assume s: "ordered_at E cores k s"
    have rows: "\<forall>f\<in>set (tk_flows s). known_type E (fl_type f) \<and>
      (k < length cores \<and> flow_core f = cores ! k \<or> sane_row f \<and> fl_status f \<in> set FLOW_FINISHED_STATUS \<or> waiting_row f)"
    proof
      fix f assume "f \<in> set (tk_flows s)"
      have len: "length (tk_flows s) = length cores" using s by (auto simp: ordered_at_def)
      with \<open>f \<in> set (tk_flows s)\<close> obtain j where j: "j < length cores" "f = tk_flows s ! j" by (auto simp: in_set_conv_nth)
      show "known_type E (fl_type f) \<and>
        (k < length cores \<and> flow_core f = cores ! k \<or> sane_row f \<and> fl_status f \<in> set FLOW_FINISHED_STATUS \<or> waiting_row f)"
        using ordered_at_row [OF s j(1)] j by (cases j k rule: linorder_cases) (auto simp: row_ok_def)
    qed
    have "polls E cores k (op_bind (collect_statuses E (update_ticket_status E n) (tk_flows s))
        (\<lambda>xs. case target_status xs of None \<Rightarrow> op_ok () | Some target \<Rightarrow> set_ticket_status E target))"
      by (intro polls_bind polls_collect Suc.IH rows polls_kept)
        (auto simp: flows_kept_def set_ticket_status_def op_ok_def op_change_def split: option.split)
    from op_valid_at [OF this s]
    show "case update_ticket_status E (Suc n) s of (Inr x, t) \<Rightarrow> ordered_at E cores k t | (Inl e, t) \<Rightarrow> ordered_at E cores k t"
      by (simp add: op_bind_def op_get_def)
  qed
qed

lemma polls_signal: "polls E cores k (flow_signal E)"
proof (rule op_validI)
  fix s assume "ordered_at E cores k s"
  then show "case flow_signal E s of (Inr x, t) \<Rightarrow> ordered_at E cores k t | (Inl e, t) \<Rightarrow> ordered_at E cores k t"
    unfolding flow_signal_def by (rule op_valid_at [OF polls_update])
qed

lemma ordered_at_cores: "ordered E ids k s \<Longrightarrow> ordered_at E (map flow_core (tk_flows s)) k s"
  by (auto simp: ordered_at_def ordered_def cores_ids_def flow_core_def comp_def)

lemma ordered_at_ordered: "ordered_at E cores k s \<Longrightarrow> ordered E (cores_ids cores) k s"
  by (simp add: ordered_at_def)

lemma cores_ids_rows: "ordered E ids k s \<Longrightarrow> cores_ids (map flow_core (tk_flows s)) = ids"
  by (auto simp: ordered_def cores_ids_def flow_core_def comp_def)

lemma keeps_signal: "keeps E ids k (flow_signal E)"
proof (rule op_validI)
  fix s assume s: "ordered E ids k s"
  from op_valid_at [OF polls_signal ordered_at_cores [OF s]] ordered_at_ordered [of E "map flow_core (tk_flows s)" k]
  show "case flow_signal E s of (Inr x, t) \<Rightarrow> ordered E ids k t | (Inl e, t) \<Rightarrow> ordered E ids k t"
    unfolding cores_ids_rows [OF s] by (auto split: prod.splits sum.splits)
qed

end
