(* ===== verification/Ticket_Progress.thy ===== *)
theory Ticket_Progress
  imports Ticket_Order
begin

text \<open>
  Running flows keeps their order: a run, a retry and \<open>run_next_flow\<close> write only the active flow, or the one
  after it once the active flow is finished. Exceptions of the status signal are excluded where the code
  would catch them too late.
\<close>

section \<open>The signal does not raise\<close>

text \<open>
  Only an approval flow can raise while it is polled, when the ITSM service has no answer. \<open>R\<close> are the
  exceptions allowed: the signal by itself can raise only \<open>RecursionError\<close>, which its fuel excludes.
\<close>

abbreviation mildly :: "(exn \<Rightarrow> bool) \<Rightarrow> ticket_env \<Rightarrow> (nat \<times> flow_type \<times> string \<times> bool) list \<Rightarrow> nat \<Rightarrow> 'a ticket_op \<Rightarrow> bool" where
  "mildly R E cores k m \<equiv> op_valid (ordered_at E cores k) m (\<lambda>_. ordered_at E cores k) (\<lambda>e _. R e)"

lemma mildly_bind: "mildly R E cores k m \<Longrightarrow> (\<And>x. mildly R E cores k (h x)) \<Longrightarrow> mildly R E cores k (op_bind m h)"
  by (rule op_valid_bind)

lemma mildly_then: "mildly R E cores k m \<Longrightarrow> mildly R E cores k h \<Longrightarrow> mildly R E cores k (op_then m h)"
  by (rule op_valid_then)

lemma mildly_ok: "mildly R E cores k (op_ok x)" and mildly_get: "mildly R E cores k (op_get h)"
  by (simp_all add: op_valid_def op_ok_def op_get_def)

lemma mildly_polls:
  assumes "polls E cores k m" and "op_valid (ordered_at E cores k) m (\<lambda>_ _. True) (\<lambda>e _. R e)"
  shows "mildly R E cores k m"
  using op_valid_conj [OF assms] by (rule op_valid_weaken) simp_all

lemma mildly_kept:
  assumes "flows_kept m" and "op_never {e. \<not> R e} m"
  shows "mildly R E cores k m"
proof (rule mildly_polls [OF polls_kept [OF assms(1)] op_validI])
  fix s
  show "case m s of (Inr x, t) \<Rightarrow> True | (Inl e, t) \<Rightarrow> R e"
  proof -
    obtain x t where m: "m s = (x, t)" by force
    have "R e" if "x = Inl e" for e using assms(2) m that unfolding op_never_def by blast
    then show ?thesis using m by (simp split: sum.split)
  qed
qed

lemma mildly_save:
  assumes "mildly R E cores k sig" and "k < length cores" and "flow_core f = cores ! k"
    and "\<And>r. flow_core r = flow_core f \<Longrightarrow> sane_row r \<Longrightarrow> flow_core (upd r) = flow_core f \<and> sane_row (upd r)"
  shows "mildly R E cores k (save_flow sig (fl_id f) upd)"
proof (rule op_validI)
  fix s assume s: "ordered_at E cores k s"
  have "ordered_at E cores k (update_rows (fl_id f) upd s)"
    by (rule ordered_at_update [OF s assms(2) _ assms(3)]) (use assms(4) in auto)
  then show "case save_flow sig (fl_id f) upd s of (Inr x, t) \<Rightarrow> ordered_at E cores k t | (Inl e, t) \<Rightarrow> R e"
    using op_valid_at [OF assms(1)] by (simp add: save_flow_def)
qed

lemma mildly_update_status:
  assumes "mildly R E cores k sig" and "k < length cores" and "flow_core f = cores ! k" and "legal_status f st"
  shows "mildly R E cores k (flow_update_status sig st f)"
proof -
  have "mildly R E cores k (save_flow sig (fl_id f) (\<lambda>r. r\<lparr>fl_status := st\<rparr>))"
    by (rule mildly_save [OF assms(1-3)]) (use legal_sane [OF _ assms(4)] in \<open>auto simp: flow_core_def\<close>)
  then have "mildly R E cores k (op_then (save_flow sig (fl_id f) (\<lambda>r. r\<lparr>fl_status := st\<rparr>)) (op_ok (Some st)))"
    by (rule mildly_then) (simp add: op_valid_def op_ok_def)
  then show ?thesis by (simp add: flow_update_status_def op_valid_def op_ok_def)
qed

lemma mildly_inner_todo:
  assumes "k < length cores" and "flow_core f = cores ! k"
  shows "mildly R E cores k (set_inner_flow_todo E f status)"
proof -
  have "mildly R E cores k (flow_by_id (fl_id f))"
  proof (rule op_validI)
    fix s assume s: "ordered_at E cores k s"
    have "tk_flows s ! k \<in> set (tk_flows s)" and "fl_id (tk_flows s ! k) = fl_id f"
      using ordered_at_row(1,4) [OF s assms(1)] assms unfolding assms(2) [symmetric] by (auto simp: flow_core_def)
    then show "case flow_by_id (fl_id f) s of (Inr x, t) \<Rightarrow> ordered_at E cores k t | (Inl e, t) \<Rightarrow> R e"
      using s by (auto simp: flow_by_id_def filter_empty_conv split: list.split)
  qed
  then show ?thesis unfolding set_inner_flow_todo_def
  proof (rule mildly_bind)
    show "mildly R E cores k (op_bind (op_get (\<lambda>s. first_of (filter (\<lambda>td. td_type td = TODO_INNER_FAILED) (todos_of (fl_id flow) s)))) (\<lambda>fail_todo.
       case fail_todo of
         None \<Rightarrow> if inner_todo_status status = TODO_OPEN then op_bind (todo_create E TODO_INNER_FAILED flow []) (\<lambda>_. op_ok ()) else op_ok ()
       | Some td \<Rightarrow> if td_status td \<noteq> inner_todo_status status
                     then op_bind (todo_set_status (te_request_user E) (inner_todo_status status) td) (\<lambda>_. op_ok ()) else op_ok ()))" for flow
      by (rule mildly_kept) (auto intro!: flows_kept_rules op_never_rules split: option.split)
  qed
qed

lemma mildly_class:
  assumes sig: "mildly R E cores k sig" and k: "k < length cores" "flow_core f = cores ! k"
    and ty: "fl_type f \<notin> resource_types" "known_type E (fl_type f)" "fl_type f \<noteq> BK_ITSM"
  shows "mildly R E cores k (class_status E sig f)"
proof -
  note upd = mildly_update_status [OF sig k legal_other [OF ty(1)]]
  note todo = mildly_inner_todo [OF k]
  have inner: "mildly R E cores k (inner_flow_status E sig f)"
  proof (cases "fl_failed f \<and> fl_err_code f = Some AUTO_EXCLUSIVE_ERROR")
    case True
    then show ?thesis by (simp add: inner_flow_status_def op_valid_def op_ok_def)
  next
    case False
    have "mildly R E cores k (op_bind (op_get g) (\<lambda>tree. op_then (set_inner_flow_todo E f (h tree)) (flow_update_status sig (h tree) f)))"
      for g :: "ticket_state \<Rightarrow> tree_state option" and h
      by (intro mildly_bind mildly_then upd todo) (simp add: op_valid_def op_get_def)
    then show ?thesis unfolding inner_flow_status_def Let_def if_not_P [OF False] .
  qed
  have timer: "mildly R E cores k (timer_flow_status E sig f)"
  proof (rule op_validI)
    fix t assume t: "ordered_at E cores k t"
    have close: "mildly R E cores k (op_then (op_change (\<lambda>s. s\<lparr>tk_todos := h s\<rparr>)) (flow_update_status sig FLOW_SUCCEEDED f))" for h
      by (intro mildly_then upd mildly_kept op_never_rules) (simp add: flows_kept_def op_change_def)
    show "case timer_flow_status E sig f t of (Inr x, u) \<Rightarrow> ordered_at E cores k u | (Inl e, u) \<Rightarrow> R e"
      using t op_valid_at [OF upd t, of FLOW_RUNNING] op_valid_at [OF close t] by (simp add: timer_flow_status_def)
  qed
  have whole: "mildly R E cores k (save_whole sig v g)" if g: "flow_core g = flow_core f" for g v
  proof -
    have "sane_row (g\<lparr>fl_status := v\<rparr>)" using legal_sane [OF g legal_other [OF ty(1)]] .
    moreover have "flow_core (g\<lparr>fl_status := v\<rparr>) = flow_core g" by (simp add: flow_core_def)
    moreover have "flow_core g = cores ! k" using g k(2) by simp
    ultimately have "mildly R E cores k (save_flow sig (fl_id g) (\<lambda>_. g\<lparr>fl_status := v\<rparr>))"
      by (intro mildly_save [OF sig k(1)]) auto
    then show ?thesis unfolding save_whole_def
      by (intro mildly_then) (auto simp: op_valid_def op_ok_def)
  qed
  have hcm: "mildly R E cores k (hcm_flow_status E sig f)"
  proof -
    have core: "flow_core (f\<lparr>fl_err_code := c, fl_failed := b\<rparr>) = flow_core f" for c b by (simp add: flow_core_def)
    have "mildly R E cores k (case tree of None \<Rightarrow> op_ok (Some (fl_status f))
       | Some q \<Rightarrow>
           if tree_flow_status q \<noteq> FLOW_SUCCEEDED then flow_update_status sig (tree_flow_status q) f
           else let lack = te_hcm_count E \<noteq> te_hcm_applied E (fl_id f);
                    f = (if lack then f\<lparr>fl_err_code := Some HCM_APPLY_LACK_RESOURCE_ERROR, fl_failed := True\<rparr> else f);
                    status = (if lack then FLOW_FAILED else FLOW_SUCCEEDED)
                in op_then (set_inner_flow_todo E f status) (save_whole sig status f))" for tree
    proof (cases tree)
      case None
      then show ?thesis by (simp add: op_valid_def op_ok_def)
    next
      case (Some q)
      have "mildly R E cores k (op_then (set_inner_flow_todo E g v) (save_whole sig v g))" if "flow_core g = flow_core f" for g v
        using mildly_inner_todo [OF k(1), of g] k(2) whole [OF that] that by (auto intro!: mildly_then)
      then show ?thesis using Some upd core by (auto simp: Let_def)
    qed
    then show ?thesis unfolding hcm_flow_status_def
      by (intro mildly_bind) (simp_all add: op_valid_def op_get_def)
  qed
  have pause: "mildly R E cores k (pause_flow_status sig f)"
    unfolding pause_flow_status_def by (intro mildly_bind upd) (simp add: op_valid_def op_get_def)
  show ?thesis
    using ty inner timer hcm pause upd
    by (cases "fl_type f") (auto simp: class_status_def resource_types_def known_type_def delivery_flow_status_def)
qed

lemma mildly_flow_status:
  assumes sig: "mildly R E cores k sig" and k: "k < length cores" "flow_core f = cores ! k"
    and ty: "known_type E (fl_type f)" "fl_type f \<noteq> BK_ITSM"
  shows "mildly R E cores k (flow_status_of E sig f)"
proof -
  have init: "mildly R E cores k (flow_init E f)"
    by (rule mildly_kept) (use ty in \<open>auto simp: flows_kept_def op_never_def flow_init_def known_type_def split: flow_type.splits option.splits\<close>)
  have ok: "mildly R E cores k (op_ok x)" for x :: "flow_status option" by (simp add: op_valid_def op_ok_def)
  have res: "mildly R E cores k (resource_flow_status sig f)"
  proof -
    have upd: "mildly R E cores k (flow_update_status sig v f)" if "legal_status f v" for v
      using mildly_update_status [OF sig k that] .
    have "mildly R E cores k (op_bind (op_get exist_lack_unfinished) (\<lambda>lack.
        if lack then flow_update_status sig FLOW_RUNNING f else op_ok (Some (fl_status f))))"
      by (rule mildly_bind [OF mildly_get]) (auto intro!: upd ok simp: legal_status_def FLOW_FINISHED_STATUS_def)
    then show ?thesis unfolding resource_flow_status_def
      using upd by (auto simp: legal_status_def FLOW_FINISHED_STATUS_def)
  qed
  have "mildly R E cores k (base_flow_status E sig f)" if r: "fl_type f \<notin> resource_types"
    using mildly_class [OF sig k r ty] ok by (simp add: base_flow_status_def)
  with init res show ?thesis unfolding flow_status_of_def by (auto intro!: mildly_then)
qed

lemma mildly_collect:
  assumes sig: "mildly R E cores k sig"
    and "\<forall>f\<in>set fs. known_type E (fl_type f) \<and>
      (k < length cores \<and> flow_core f = cores ! k \<and> fl_type f \<noteq> BK_ITSM \<or> sane_row f \<and> fl_status f \<in> set FLOW_FINISHED_STATUS \<or> waiting_row f)"
  shows "mildly R E cores k (collect_statuses E sig fs)"
  using assms(2)
proof (induction fs)
  case (Cons f fs)
  have "mildly R E cores k (flow_status_of E sig f)"
  proof (cases "k < length cores \<and> flow_core f = cores ! k \<and> fl_type f \<noteq> BK_ITSM")
    case True
    then show ?thesis using mildly_flow_status [OF sig] Cons.prems by simp
  next
    case False
    then have "flow_status_of E sig f = (\<lambda>s. (Inr (Some (fl_status f)), s))"
      using quiet_flow_status [of E f sig] Cons.prems by auto
    then show ?thesis by (simp add: op_valid_def)
  qed
  moreover have "mildly R E cores k (collect_statuses E sig fs)" using Cons by simp
  ultimately show ?case by (auto intro!: mildly_bind mildly_ok)
qed (simp add: op_valid_def op_ok_def)

lemma mildly_update:
  assumes R: "R RecursionError" and ty: "k < length cores \<longrightarrow> fst (snd (cores ! k)) \<noteq> BK_ITSM"
  shows "mildly R E cores k (update_ticket_status E n)"
proof (induction n)
  case 0
  then show ?case using R by (simp add: op_valid_def op_raise_def)
next
  case (Suc n)
  show ?case
  proof (rule op_validI)
    fix s assume s: "ordered_at E cores k s"
    have rows: "\<forall>f\<in>set (tk_flows s). known_type E (fl_type f) \<and>
      (k < length cores \<and> flow_core f = cores ! k \<and> fl_type f \<noteq> BK_ITSM \<or> sane_row f \<and> fl_status f \<in> set FLOW_FINISHED_STATUS \<or> waiting_row f)"
    proof
      fix f assume f: "f \<in> set (tk_flows s)"
      have len: "length (tk_flows s) = length cores" using s by (auto simp: ordered_at_def)
      with f obtain j where j: "j < length cores" "f = tk_flows s ! j" by (auto simp: in_set_conv_nth)
      note row = ordered_at_row [OF s j(1)]
      have "fst (snd (cores ! j)) = fl_type f" using row(1) j by (auto simp: flow_core_def dest: arg_cong [where f = "\<lambda>c. fst (snd c)"])
      then show "known_type E (fl_type f) \<and>
        (k < length cores \<and> flow_core f = cores ! k \<and> fl_type f \<noteq> BK_ITSM \<or> sane_row f \<and> fl_status f \<in> set FLOW_FINISHED_STATUS \<or> waiting_row f)"
        using row j ty by (cases j k rule: linorder_cases) (auto simp: row_ok_def)
    qed
    have "mildly R E cores k (op_bind (collect_statuses E (update_ticket_status E n) (tk_flows s))
        (\<lambda>xs. case target_status xs of None \<Rightarrow> op_ok () | Some target \<Rightarrow> set_ticket_status E target))"
      by (intro mildly_bind mildly_collect Suc.IH rows mildly_kept)
        (auto simp: flows_kept_def op_never_def set_ticket_status_def op_ok_def op_change_def split: option.splits)
    from op_valid_at [OF this s]
    show "case update_ticket_status E (Suc n) s of (Inr x, t) \<Rightarrow> ordered_at E cores k t | (Inl e, t) \<Rightarrow> R e"
      by (simp add: op_bind_def op_get_def)
  qed
qed

text \<open>An operation that keeps the order and does not raise.\<close>

abbreviation silent :: "ticket_env \<Rightarrow> (nat \<times> flow_type) list \<Rightarrow> nat \<Rightarrow> 'a ticket_op \<Rightarrow> bool" where
  "silent E ids k m \<equiv> op_valid (ordered E ids k) m (\<lambda>_. ordered E ids k) (\<lambda>_ _. False)"

lemma silent_signal:
  assumes ty: "k < length ids \<longrightarrow> snd (ids ! k) \<noteq> BK_ITSM"
  shows "silent E ids k (flow_signal E)"
proof (rule op_validI)
  fix s assume s: "ordered E ids k s"
  let ?cores = "map flow_core (tk_flows s)"
  have len: "length (tk_flows s) = length ids" using s unfolding ordered_def by (metis length_map)
  have "k < length ?cores \<longrightarrow> fst (snd (?cores ! k)) \<noteq> BK_ITSM"
    using ty ordered_nth(2) [OF s] len by (auto simp: flow_core_def)
  then have "mildly (\<lambda>e. e = RecursionError) E ?cores k (update_ticket_status E (2 * length (tk_flows s) + 2))"
    by (intro mildly_update) simp_all
  from op_valid_at [OF this ordered_at_cores [OF s]] flow_signal_settles(1) [OF ordered_distinct [OF s], of E]
    ordered_at_ordered [of E ?cores k]
  show "case flow_signal E s of (Inr x, t) \<Rightarrow> ordered E ids k t | (Inl e, t) \<Rightarrow> False"
    unfolding cores_ids_rows [OF s] by (auto simp: flow_signal_def split: prod.splits sum.splits)
qed

end
