(* ===== verification/Ticket_Run.thy ===== *)
theory Ticket_Run
  imports Ticket_Progress
begin

text \<open>
  Running and retrying flows keep their order. A flow may write its own row only while it is the active one,
  so the exception of a nested \<open>run_next_flow\<close> must not reach the handler of a flow that is already finished:
  the only flow with such a handler, a resource application, is followed by a task flow, whose run never
  raises.
\<close>

section \<open>Operations on the active flow\<close>

definition rows_kept :: "'a ticket_op \<Rightarrow> bool" where
  "rows_kept m \<longleftrightarrow> (\<forall>s x t. m s = (x, t) \<longrightarrow> tk_flows t = tk_flows s)"

lemma flows_rows_kept: "flows_kept m \<Longrightarrow> rows_kept m"
  by (simp add: flows_kept_def rows_kept_def)

text \<open>The callbacks, the pipeline controller and the ITSM service do not write the rows of the flows.\<close>

definition env_ok :: "ticket_env \<Rightarrow> bool" where
  "env_ok E \<longleftrightarrow> (\<forall>c f. rows_kept (te_hooks E c f)) \<and> (\<forall>f. rows_kept (te_build E f)) \<and> (\<forall>f. rows_kept (te_itsm_create E f)) \<and>
     (\<forall>sn a b u. rows_kept (te_itsm_operate E sn a b u))"

definition active :: "(nat \<times> flow_type) list \<Rightarrow> nat \<Rightarrow> flow_row \<Rightarrow> bool" where
  "active ids k f \<longleftrightarrow> k < length ids \<and> (fl_id f, fl_type f) = ids ! k"

text \<open>The order is kept; an exception is possible only if \<open>b\<close>.\<close>

definition steady :: "bool \<Rightarrow> ticket_env \<Rightarrow> (nat \<times> flow_type) list \<Rightarrow> nat \<Rightarrow> 'a ticket_op \<Rightarrow> bool" where
  "steady b E ids k m \<longleftrightarrow> op_valid (ordered E ids k) m (\<lambda>_. ordered E ids k) (\<lambda>_ s. b \<and> ordered E ids k s)"

definition quiet :: "bool \<Rightarrow> (nat \<times> flow_type) list \<Rightarrow> nat \<Rightarrow> bool" where
  "quiet b ids k \<longleftrightarrow> b \<or> (k < length ids \<longrightarrow> snd (ids ! k) \<noteq> BK_ITSM)"

lemma steady_bind: "steady b E ids k m \<Longrightarrow> (\<And>x. steady b E ids k (h x)) \<Longrightarrow> steady b E ids k (op_bind m h)"
  unfolding steady_def by (rule op_valid_bind)

lemma steady_then: "steady b E ids k m \<Longrightarrow> steady b E ids k h \<Longrightarrow> steady b E ids k (op_then m h)"
  unfolding steady_def by (rule op_valid_then)

lemma steady_try:
  "steady True E ids k m \<Longrightarrow> (\<And>e. steady b E ids k (g e)) \<Longrightarrow> (\<And>x. steady b E ids k (h x)) \<Longrightarrow> steady b E ids k (op_try m g h)"
  unfolding steady_def by (rule op_valid_try) auto

lemma steady_ok: "steady b E ids k (op_ok x)" and steady_get: "steady b E ids k (op_get h)"
  by (simp_all add: steady_def op_valid_def op_ok_def op_get_def)

lemma ordered_rows: "tk_flows t = tk_flows s \<Longrightarrow> ordered E ids k s \<Longrightarrow> ordered E ids k t"
  by (simp add: ordered_def)

lemma steady_rows:
  assumes "rows_kept m" and "op_never {e. \<not> b} m"
  shows "steady b E ids k m"
  unfolding steady_def
proof (rule op_validI)
  fix s assume s: "ordered E ids k s"
  obtain x t where m: "m s = (x, t)" by force
  then have "ordered E ids k t" using assms(1) s unfolding rows_kept_def by (blast intro: ordered_rows)
  then show "case m s of (Inr x, t) \<Rightarrow> ordered E ids k t | (Inl e, t) \<Rightarrow> b \<and> ordered E ids k t"
    using m assms(2) by (cases b) (auto simp: op_never_def split: sum.split)
qed

lemma steady_kept: "flows_kept m \<Longrightarrow> op_never UNIV m \<Longrightarrow> steady b E ids k m"
  by (rule steady_rows) (auto simp: op_never_def intro: flows_rows_kept)

lemma steady_raising: "rows_kept m \<Longrightarrow> steady True E ids k m"
  by (rule steady_rows) (simp_all add: op_never_def)

lemma steady_basic:
  "steady b E ids k (send_task t)" "steady b E ids k (fresh_uid E')" "steady b E ids k (todo_save td)"
  "steady b E ids k (todo_create E' ty f operators)" "steady b E ids k (todo_history td username action)"
  "steady b E ids k (todo_set_status username status td)"
  by (intro steady_kept flows_kept_rules op_never_rules)+

lemma steady_records:
  "steady b E ids k (create_cluster_operate_records E' f)" "steady b E ids k (create_instance_operate_records E' f)"
  unfolding create_cluster_operate_records_def create_instance_operate_records_def
  by (rule steady_rows; simp add: rows_kept_def op_never_def op_change_def)+

lemmas steady_rules = steady_bind steady_then steady_ok steady_get steady_basic steady_records

lemma steady_signal: "quiet b ids k \<Longrightarrow> steady b E ids k (flow_signal E)"
  using keeps_signal [of E ids k] silent_signal [of k ids E] unfolding steady_def quiet_def
  by (cases b) (auto elim!: op_valid_weaken)

text \<open>A write keeps the kind of row that a resource flow must be.\<close>

definition sane_write :: "flow_type \<Rightarrow> (flow_row \<Rightarrow> flow_row) \<Rightarrow> bool" where
  "sane_write ty upd \<longleftrightarrow> (\<forall>r. fl_type r = ty \<longrightarrow> sane_row r \<longrightarrow> fl_id (upd r) = fl_id r \<and> fl_type (upd r) = ty \<and> sane_row (upd r))"

lemma steady_save:
  assumes "quiet b ids k" and "active ids k f" and "sane_write (fl_type f) upd"
  shows "steady b E ids k (save_flow (flow_signal E) (fl_id f) upd)"
  unfolding steady_def
proof (rule op_validI)
  have k: "k < length ids" "fl_id f = fst (ids ! k)" "fl_type f = snd (ids ! k)"
    using assms(2) by (auto simp: active_def prod_eq_iff)
  fix s assume s: "ordered E ids k s"
  have "ordered E ids k (update_rows (fl_id f) upd s)"
  proof (rule ordered_update [OF s])
    show "k \<le> length ids" using k by simp
    fix m assume m: "m < length ids"
    show "row_ok k m (tk_flows s ! m)" using ordered_nth(3) [OF s m] .
    assume "fst (ids ! m) = fl_id f"
    then have mk: "m = k" using ids_nth_eq [OF s m k(1)] k(2) by simp
    show "fl_id (upd (tk_flows s ! m)) = fl_id f \<and> fl_type (upd (tk_flows s ! m)) = fl_type (tk_flows s ! m) \<and> row_ok k m (upd (tk_flows s ! m))"
      using ordered_nth(1-3) [OF s k(1)] k assms(3) unfolding mk by (simp add: sane_write_def row_ok_def)
  qed
  then show "case save_flow (flow_signal E) (fl_id f) upd s of (Inr x, t) \<Rightarrow> ordered E ids k t | (Inl e, t) \<Rightarrow> b \<and> ordered E ids k t"
    using op_valid_at [OF steady_signal [OF assms(1), unfolded steady_def]] by (simp add: save_flow_def)
qed

section \<open>The runs of the classes\<close>

lemma sane_running: "sane_row (r\<lparr>fl_obj_id := i, fl_status := FLOW_RUNNING\<rparr>)"
  by (simp add: sane_row_def FLOW_FINISHED_STATUS_def)

lemma steady_ack:
  assumes q: "quiet b ids k" and f: "active ids k f"
  shows "steady b E ids k (check_flow_ack E (fl_id f))"
proof -
  have "steady b E ids k (flow_by_id (fl_id f))"
    unfolding steady_def
  proof (rule op_validI)
    fix s assume s: "ordered E ids k s"
    have k: "k < length ids" "fl_id f = fst (ids ! k)" using f by (auto simp: active_def prod_eq_iff)
    then have "tk_flows s ! k \<in> set (tk_flows s)" and "fl_id (tk_flows s ! k) = fl_id f"
      using ordered_nth [OF s k(1)] by auto
    then show "case flow_by_id (fl_id f) s of (Inr x, t) \<Rightarrow> ordered E ids k t | (Inl e, t) \<Rightarrow> b \<and> ordered E ids k t"
      using s by (auto simp: flow_by_id_def filter_empty_conv split: list.split)
  qed
  then show ?thesis unfolding check_flow_ack_def
    by (auto intro!: steady_rules steady_save [OF q f] simp: sane_write_def sane_row_def)
qed

lemma steady_running:
  assumes "quiet b ids k" and "active ids k f"
  shows "steady b E ids k (run_status_handler E i f)"
  unfolding run_status_handler_def
  by (intro steady_rules steady_save [OF assms]) (simp add: sane_write_def sane_running)

lemma active_update:
  "active ids k (f\<lparr>fl_obj_id := i\<rparr>) = active ids k f" "active ids k (f\<lparr>fl_status := st\<rparr>) = active ids k f"
  "active ids k (f\<lparr>fl_failed := c\<rparr>) = active ids k f" "active ids k (f\<lparr>fl_err_code := d\<rparr>) = active ids k f"
  by (simp_all add: active_def)

lemma steady_error:
  assumes "quiet b ids k" and "active ids k f"
  shows "steady b E ids k (run_error_status_handler E err f)"
proof -
  let ?f = "f\<lparr>fl_failed := True, fl_err_code := get_err_code err (fl_retry_type f), fl_status := FLOW_FAILED\<rparr>"
  have f: "active ids k ?f" using assms(2) by (simp add: active_update)
  have "steady b E ids k (save_flow (flow_signal E) (fl_id ?f)
      (\<lambda>r. r\<lparr>fl_err_code := get_err_code err (fl_retry_type f), fl_failed := True, fl_status := FLOW_FAILED\<rparr>))"
    by (rule steady_save [OF assms(1) f]) (simp add: sane_write_def sane_row_def FLOW_FINISHED_STATUS_def)
  moreover have "steady b E ids k (run_status_handler E (fl_obj_id ?f) ?f)" by (rule steady_running [OF assms(1) f])
  ultimately show ?thesis unfolding run_error_status_handler_def Let_def
    by (intro steady_rules) (auto intro!: steady_rules)
qed

lemma steady_base_run:
  assumes "quiet b ids k" and "active ids k f" and "steady True E ids k body"
  shows "steady b E ids k (base_run E body f)"
  unfolding base_run_def
  by (auto intro!: steady_rules steady_try steady_ack steady_error steady_running assms)

lemma quiet_True: "quiet True ids k"
  by (simp add: quiet_def)

lemma steady_bodies:
  assumes E: "env_ok E" and f: "active ids k f"
  shows "steady True E ids k (itsm_body E f)" "steady True E ids k (pause_body E f)"
    "steady True E ids k (delivery_body E f)" "steady True E ids k (timer_body E f)"
proof -
  have confirm: "steady True E ids k (op_result (te_confirm E))"
    by (rule steady_raising) (simp add: rows_kept_def op_result_def)
  have raised: "steady True E ids k (op_raise e :: todo_row ticket_op)" for e
    by (rule steady_raising) (simp add: rows_kept_def op_raise_def)
  have create: "steady True E ids k (te_itsm_create E f)" by (rule steady_raising) (use E in \<open>simp add: env_ok_def\<close>)
  have details: "steady True E ids k (save_flow (flow_signal E) (fl_id f)
      (\<lambda>r. r\<lparr>fl_expired_flag := a, fl_run_time := c, fl_trigger_time := d, fl_task_id := e\<rparr>))" for a c d e
    by (rule steady_save [OF quiet_True f]) (simp add: sane_write_def sane_row_def)
  show "steady True E ids k (itsm_body E f)" unfolding itsm_body_def by (intro steady_rules create)
  show "steady True E ids k (pause_body E f)" unfolding pause_body_def by (intro steady_rules)
  show "steady True E ids k (delivery_body E f)"
    unfolding delivery_body_def by (auto intro!: steady_rules confirm)
  show "steady True E ids k (timer_body E f)"
    unfolding timer_body_def timer_todo_def Let_def
    by (auto intro!: steady_rules raised details split: list.split)
qed

lemma steady_build:
  assumes "env_ok E" and "active ids k f"
  shows "steady True E ids k (start_build E f)"
proof -
  have "steady True E ids k (te_build E f)" using assms(1) by (intro steady_raising) (simp add: env_ok_def)
  moreover have "steady True E ids k (save_flow (flow_signal E) (fl_id f) (\<lambda>r. r\<lparr>fl_build_task := i\<rparr>))" for i
    by (rule steady_save [OF quiet_True assms(2)]) (simp add: sane_write_def sane_row_def)
  ultimately show ?thesis unfolding start_build_def by (auto intro!: steady_rules)
qed

lemma steady_or_fresh: "steady b E ids k (or_fresh E' i)"
  unfolding or_fresh_def by (auto intro!: steady_rules)

lemma steady_inner_run:
  assumes "env_ok E" and q: "quiet b ids k" and f: "active ids k f"
  shows "steady b E ids k (inner_run E f)"
proof -
  have hooks: "steady True E ids k (te_hooks E c g)" for c g
    using assms(1) by (intro steady_raising) (simp add: env_ok_def)
  have excl: "steady True E ids k (\<lambda>s. (te_exclusive E g s, s))" for g
    by (rule steady_raising) (simp add: rows_kept_def)
  show ?thesis unfolding inner_run_def Let_def
    by (auto intro!: steady_rules steady_ack [OF q f] steady_or_fresh steady_try steady_running [OF quiet_True f] excl hooks
        steady_build [OF assms(1)] steady_error [OF q] simp: active_update f)
qed

lemma run_status_then:
  assumes q: "quiet b ids k" and f: "active ids k f"
    and h: "\<And>g. active ids k g \<Longrightarrow> fl_type g = fl_type f \<Longrightarrow> op_valid (ordered E ids k) (h g) Q R"
    and R: "\<And>e s. b \<Longrightarrow> ordered E ids k s \<Longrightarrow> R e s"
  shows "op_valid (ordered E ids k) (op_bind (run_status_handler E i f) h) Q R"
proof -
  let ?g = "f\<lparr>fl_obj_id := i, fl_status := FLOW_RUNNING\<rparr>"
  let ?m = "save_flow (flow_signal E) (fl_id f) (\<lambda>r. r\<lparr>fl_obj_id := i, fl_status := FLOW_RUNNING\<rparr>)"
  have m: "steady b E ids k ?m" by (rule steady_save [OF q f]) (simp add: sane_write_def sane_running)
  have "op_bind (run_status_handler E i f) h = op_bind ?m (\<lambda>_. h ?g)"
    by (auto simp: run_status_handler_def op_bind_def op_then_def op_ok_def fun_eq_iff split: prod.split sum.split)
  moreover have "op_valid (ordered E ids k) (h ?g) Q R" using f by (intro h) (simp_all add: active_update)
  moreover have "op_valid (ordered E ids k) ?m (\<lambda>_. ordered E ids k) R"
    using m unfolding steady_def by (rule op_valid_weaken) (use R in auto)
  ultimately show ?thesis by (simp add: op_valid_bind)
qed

lemma steady_simple_run:
  assumes "env_ok E" and f: "active ids k f"
  shows "steady True E ids k (simple_run E f)"
proof -
  note q = quiet_True [of ids k]
  have hooks: "steady True E ids k (te_hooks E c g)" and build: "steady True E ids k (te_build E g)" for c g
    using assms(1) by (auto intro!: steady_raising simp: env_ok_def)
  let ?rest = "\<lambda>g. op_try (op_then (te_hooks E PRE_CALLBACK g) (te_build E g)) (\<lambda>err. run_error_status_handler E err g) (\<lambda>_. op_ok ())"
  have "steady True E ids k (?rest g)" if "active ids k g" for g
    by (intro steady_rules steady_try hooks build steady_error [OF q that])
  then have "steady True E ids k (op_bind (run_status_handler E i f) ?rest)" for i
    unfolding steady_def by (intro run_status_then [OF q f]) simp_all
  note steady_bind [OF steady_or_fresh this]
  then show ?thesis unfolding simple_run_def
    by (intro steady_bind [OF steady_ack [OF q f]] keeps_if) (auto intro: steady_ok)
qed

section \<open>Resource flows\<close>

text \<open>The flows \<open>next_flow\<close> and \<open>current_flow\<close> find.\<close>

lemma first_of_filter:
  "first_of (filter P xs) = Some x \<Longrightarrow> \<exists>j<length xs. x = xs ! j \<and> P x \<and> (\<forall>i<j. \<not> P (xs ! i))"
proof (induction xs)
  case (Cons y ys)
  show ?case
  proof (cases "P y")
    case True
    then show ?thesis using Cons.prems by (intro exI [of _ 0]) (simp add: first_of_def)
  next
    case False
    then obtain j where j: "j < length ys" "x = ys ! j" "P x" "\<forall>i<j. \<not> P (ys ! i)" using Cons by auto
    have "\<forall>i<Suc j. \<not> P ((y # ys) ! i)" using j(4) False by (auto simp: nth_Cons split: nat.split)
    with j show ?thesis by (intro exI [of _ "Suc j"]) simp
  qed
qed (simp add: first_of_def)

lemma last_filter_nth:
  assumes "j < length xs" and "P (xs ! j)" and "\<And>i. j < i \<Longrightarrow> i < length xs \<Longrightarrow> \<not> P (xs ! i)"
  shows "filter P xs \<noteq> []" and "last (filter P xs) = xs ! j"
proof -
  have "filter P (drop (Suc j) xs) = []" using assms(3) by (auto simp: filter_empty_conv in_set_conv_nth)
  then have "filter P xs = filter P (take (Suc j) xs)" by (metis append_Nil2 append_take_drop_id filter_append)
  then have f: "filter P xs = filter P (take j xs) @ [xs ! j]" using assms(1,2) by (simp add: take_Suc_conv_app_nth)
  show "filter P xs \<noteq> []" and "last (filter P xs) = xs ! j" unfolding f by simp_all
qed

lemma next_flow_cases:
  assumes s: "ordered E ids k s" and itsm: "\<not> te_skip_itsm E" and n: "next_flow E s = Some nxt"
  obtains "k < length ids" "nxt = tk_flows s ! k" "fl_status nxt = FLOW_PENDING"
  | "Suc k < length ids" "nxt = tk_flows s ! Suc k" "fl_status (tk_flows s ! k) \<noteq> FLOW_PENDING" "waiting_row nxt"
proof -
  have len: "length (tk_flows s) = length ids" using s unfolding ordered_def by (metis length_map)
  from first_of_filter [OF n [unfolded next_flow_def]] obtain j where j: "j < length ids" "nxt = tk_flows s ! j"
    "fl_status nxt = FLOW_PENDING" "\<forall>i<j. fl_status (tk_flows s ! i) \<noteq> FLOW_PENDING"
    using itsm len by auto
  note row = ordered_nth(3) [OF s]
  have "\<not> j < k" using row [OF j(1)] j(2,3) by (auto simp: row_ok_def FLOW_FINISHED_STATUS_def)
  moreover have "\<not> Suc k < j"
  proof
    assume "Suc k < j"
    then show False using row [of "Suc k"] j(1,4) by (auto simp: row_ok_def waiting_row_def)
  qed
  ultimately consider "j = k" | "j = Suc k" by linarith
  then show ?thesis
  proof cases
    case 1
    then show ?thesis using that(1) j by simp
  next
    case 2
    then show ?thesis using that(2) j row [OF j(1)] by (simp add: row_ok_def)
  qed
qed

lemma current_flow_cases:
  assumes s: "ordered E ids k s" and k: "k < length ids"
  shows "fl_status (tk_flows s ! k) \<noteq> FLOW_PENDING \<Longrightarrow> current_flow E s = Some (tk_flows s ! k)"
    and "fl_status (tk_flows s ! k) = FLOW_PENDING \<Longrightarrow> 0 < k \<Longrightarrow> current_flow E s = Some (tk_flows s ! (k - 1))"
    and "fl_status (tk_flows s ! k) = FLOW_PENDING \<Longrightarrow> k = 0 \<Longrightarrow> current_flow E s = next_flow E s"
proof -
  have len: "length (tk_flows s) = length ids" using s unfolding ordered_def by (metis length_map)
  note row = ordered_nth(3) [OF s]
  have later: "fl_status (tk_flows s ! i) = FLOW_PENDING" if "k < i" "i < length ids" for i
    using row [OF that(2)] that(1) by (simp add: row_ok_def waiting_row_def)
  let ?P = "\<lambda>f. fl_status f \<noteq> FLOW_PENDING"
  have cur: "current_flow E s = Some (tk_flows s ! j)"
    if "j < length ids" "?P (tk_flows s ! j)" "\<And>i. j < i \<Longrightarrow> i < length ids \<Longrightarrow> \<not> ?P (tk_flows s ! i)" for j
    using last_filter_nth [of j "tk_flows s" ?P] that len by (cases "filter ?P (tk_flows s)") (auto simp: current_flow_def)
  show "fl_status (tk_flows s ! k) \<noteq> FLOW_PENDING \<Longrightarrow> current_flow E s = Some (tk_flows s ! k)"
    using cur [OF k] later by simp
  {
    assume p: "fl_status (tk_flows s ! k) = FLOW_PENDING" and "0 < k"
    have k1: "k - 1 < length ids" using k by simp
    moreover have "?P (tk_flows s ! (k - 1))"
      using row [OF k1] \<open>0 < k\<close> by (auto simp: row_ok_def FLOW_FINISHED_STATUS_def)
    moreover have "\<not> ?P (tk_flows s ! i)" if "k - 1 < i" "i < length ids" for i
      using that p later [of i] \<open>0 < k\<close> by (cases "i = k") auto
    ultimately show "current_flow E s = Some (tk_flows s ! (k - 1))" by (intro cur)
  }
  assume p: "fl_status (tk_flows s ! k) = FLOW_PENDING" and "k = 0"
  then have "\<not> ?P (tk_flows s ! i)" if "i < length ids" for i
    using later [of i] that by (cases "i = 0") auto
  then have "filter ?P (tk_flows s) = []" using len by (auto simp: filter_empty_conv in_set_conv_nth)
  then show "current_flow E s = next_flow E s" by (simp add: current_flow_def)
qed

section \<open>Running the next flow\<close>

text \<open>A resource flow before a task flow: then an exception has not gone past it.\<close>

definition guarded :: "(nat \<times> flow_type) list \<Rightarrow> nat \<Rightarrow> bool" where
  "guarded ids k \<longleftrightarrow> Suc k < length ids \<and> snd (ids ! k) \<in> resource_types \<and> snd (ids ! Suc k) = INNER_FLOW"

definition failed_at :: "ticket_env \<Rightarrow> (nat \<times> flow_type) list \<Rightarrow> nat \<Rightarrow> ticket_state \<Rightarrow> bool" where
  "failed_at E ids k s \<longleftrightarrow> (if guarded ids k then ordered E ids k s else ordered_from E ids k s)"

definition goes_on :: "ticket_env \<Rightarrow> (nat \<times> flow_type) list \<Rightarrow> nat \<Rightarrow> unit ticket_op \<Rightarrow> bool" where
  "goes_on E ids k m \<longleftrightarrow> op_valid (ordered E ids k) m (\<lambda>_. ordered_from E ids k) (\<lambda>_. failed_at E ids k)"

lemma failed_atI: "ordered E ids k s \<Longrightarrow> failed_at E ids k s"
  by (simp add: failed_at_def ordered_fromI)

lemma failed_at_from: "failed_at E ids k s \<Longrightarrow> ordered_from E ids k s"
  by (auto simp: failed_at_def ordered_fromI split: if_splits)

lemma steady_goes_on: "steady True E ids k m \<Longrightarrow> goes_on E ids k m"
  unfolding steady_def goes_on_def by (erule op_valid_weaken) (auto intro: ordered_fromI failed_atI)

lemma steady_then_goes_on: "steady True E ids k m \<Longrightarrow> goes_on E ids k h \<Longrightarrow> goes_on E ids k (op_then m h)"
  unfolding steady_def goes_on_def
  by (rule op_valid_then [where Q = "\<lambda>_. ordered E ids k"]) (erule op_valid_weaken, auto intro: failed_atI)

lemma keeps_then_valid: "keeps E ids k m \<Longrightarrow> op_valid (ordered E ids k) h Q (\<lambda>_. ordered E ids k)
    \<Longrightarrow> op_valid (ordered E ids k) (op_then m h) Q (\<lambda>_. ordered E ids k)"
  by (rule op_valid_then)

lemma steady_keeps: "steady True E ids k m \<Longrightarrow> keeps E ids k m"
  by (simp add: steady_def)

lemma steady_answer: "steady True E ids k (op_raise e)" "steady True E ids k (op_result r)"
  by (rule steady_raising; simp add: rows_kept_def op_raise_def op_result_def)+

lemma steady_apply: "steady True E ids k (apply_resource E' f)"
  unfolding apply_resource_def create_replenish_todo_def by (auto intro!: steady_rules steady_answer)

lemma resource_body_goes_on:
  assumes E: "env_ok E" "\<not> te_skip_itsm E" and f: "active ids k f" "fl_type f \<in> resource_types"
    and nxt: "goes_on E ids k run_next"
  shows "op_valid (ordered E ids k) (resource_body E run_next f) (\<lambda>_. ordered_from E ids k) (\<lambda>_. ordered E ids k)"
proof (rule op_validI)
  fix s assume s: "ordered E ids k s"
  have k: "k < length ids" "snd (ids ! k) = fl_type f" using f(1) by (auto simp: active_def prod_eq_iff)
  show "case resource_body E run_next f s of (Inr x, t) \<Rightarrow> ordered_from E ids k t | (Inl e, t) \<Rightarrow> ordered E ids k t"
  proof (cases "\<exists>nf. next_flow E s = Some nf \<and> fl_type nf = INNER_FLOW")
    case False
    then show ?thesis using s by (auto simp: resource_body_def op_bind_def op_get_def op_raise_def split: option.split)
  next
    case True
    then obtain nf where nf: "next_flow E s = Some nf" "fl_type nf = INNER_FLOW" by blast
    have j: "Suc k < length ids \<and> nf = tk_flows s ! Suc k \<and> waiting_row nf"
      using s E(2) nf(1)
    proof (rule next_flow_cases)
      assume "nf = tk_flows s ! k"
      then show ?thesis using nf(2) f(2) k ordered_nth(2) [OF s k(1)] by (simp add: resource_types_def)
    qed blast
    have nfj: "fl_id nf = fst (ids ! Suc k)" "fl_type nf = snd (ids ! Suc k)" using ordered_nth(1,2) [OF s] j by auto
    then have g: "guarded ids k" using j k f(2) nf(2) by (simp add: guarded_def)
    have next': "op_valid (ordered E ids k) run_next (\<lambda>_. ordered_from E ids k) (\<lambda>_. ordered E ids k)"
    proof -
      have "failed_at E ids k = ordered E ids k" using g by (simp add: failed_at_def fun_eq_iff)
      then show ?thesis using nxt unfolding goes_on_def by (simp only:)
    qed
    have sig: "keeps E ids k (flow_signal E)" by (rule keeps_signal)
    have fill: "keeps E ids k (save_flow (flow_signal E) (fl_id nf) (\<lambda>_. nf\<lparr>fl_obj_id := rid\<rparr>))" for rid
      by (rule keeps_save [OF sig nfj(1)])
        (use j nf(2) nfj(2) in \<open>auto simp: row_ok_def waiting_row_def sane_row_def resource_types_def\<close>)
    have again: "keeps E ids k (save_flow (flow_signal E) (fl_id nf) (\<lambda>r. r))"
      by (rule keeps_save [OF sig nfj(1)]) (use j nfj in auto)
    have marked: "keeps E ids k (save_flow (flow_signal E) (fl_id f) (\<lambda>r. r\<lparr>fl_resource_done := True\<rparr>))"
      by (rule steady_keeps [OF steady_save [OF quiet_True f(1)]]) (simp add: sane_write_def sane_row_def)
    have hooks: "keeps E ids k (te_hooks E c f)" for c
      by (rule steady_keeps [OF steady_raising]) (use E in \<open>simp add: env_ok_def\<close>)
    have "op_valid (ordered E ids k) (op_bind (fresh_uid E) (\<lambda>rid.
             op_then (save_flow (flow_signal E) (fl_id nf) (\<lambda>_. nf\<lparr>fl_obj_id := rid\<rparr>))
             (op_then (apply_resource E f)
             (op_then (save_flow (flow_signal E) (fl_id nf) (\<lambda>r. r))
             (op_then (save_flow (flow_signal E) (fl_id f) (\<lambda>r. r\<lparr>fl_resource_done := True\<rparr>))
             (op_then (te_hooks E POST_CALLBACK f) run_next)))))) (\<lambda>_. ordered_from E ids k) (\<lambda>_. ordered E ids k)"
      by (intro op_valid_bind [OF steady_keeps [OF steady_basic(2)]] keeps_then_valid fill again marked hooks next'
          steady_keeps [OF steady_apply])
    from op_valid_at [OF this s] show ?thesis
      using nf by (simp add: resource_body_def op_bind_def op_get_def)
  qed
qed

lemma resource_run_goes_on:
  assumes E: "env_ok E" "\<not> te_skip_itsm E" and f: "active ids k f" "fl_type f \<in> resource_types"
    and nxt: "goes_on E ids k run_next"
  shows "op_valid (ordered E ids k) (resource_run E run_next f) (\<lambda>_. ordered_from E ids k) (\<lambda>_ _. False)"
proof -
  have q: "quiet False ids k" using f by (auto simp: quiet_def active_def resource_types_def prod_eq_iff)
  let ?handler = "\<lambda>g err. if err = ResourceInsufficient then save_flow (flow_signal E) (fl_id g) (\<lambda>r. r\<lparr>fl_failed := True\<rparr>)
                    else run_error_status_handler E err g"
  have handler: "steady False E ids k (?handler g err)" if "active ids k g" for g err
    using steady_error [OF q that] steady_save [OF q that] by (simp add: sane_write_def sane_row_def)
  have "op_valid (ordered E ids k) (op_try (resource_body E run_next g) (?handler g) (\<lambda>_. op_ok ())) (\<lambda>_. ordered_from E ids k) (\<lambda>_ _. False)"
    if g: "active ids k g" "fl_type g = fl_type f" for g
  proof (rule op_valid_try [OF resource_body_goes_on [OF E g(1) _ nxt]])
    show "fl_type g \<in> resource_types" using f(2) g(2) by simp
    show "op_valid (ordered E ids k) (?handler g e) (\<lambda>_. ordered_from E ids k) (\<lambda>_ _. False)" for e
      using handler [OF g(1), of e] unfolding steady_def by (rule op_valid_weaken) (auto intro: ordered_fromI)
    show "op_valid (ordered_from E ids k) (op_ok ()) (\<lambda>_. ordered_from E ids k) (\<lambda>_ _. False)" by (rule op_valid_ok)
  qed
  then have "op_valid (ordered E ids k) (op_bind (run_status_handler E rid f) (\<lambda>g. op_try (resource_body E run_next g) (?handler g) (\<lambda>_. op_ok ())))
      (\<lambda>_. ordered_from E ids k) (\<lambda>_ _. False)" for rid
    by (intro run_status_then [OF q f(1)]) simp_all
  note run = op_valid_bind [OF op_valid_weaken [OF steady_basic(2) [of False E ids k E, unfolded steady_def]] this]
  have "op_valid (ordered E ids k) (if acked then op_ok () else op_bind (fresh_uid E) (\<lambda>rid.
         op_bind (run_status_handler E rid f) (\<lambda>g. op_try (resource_body E run_next g) (?handler g) (\<lambda>_. op_ok ()))))
      (\<lambda>_. ordered_from E ids k) (\<lambda>_ _. False)" for acked
  proof (cases acked)
    case True
    then show ?thesis by (auto intro!: op_valid_ok ordered_fromI)
  next
    case False
    show ?thesis unfolding if_not_P [OF False] by (rule run) auto
  qed
  note rest = op_valid_bind [OF op_valid_weaken [OF steady_ack [OF q f(1), of E, unfolded steady_def]] this]
  show ?thesis unfolding resource_run_def by (rule rest) auto
qed

end
