(* ===== verification/Ticket_Next.thy ===== *)
theory Ticket_Next
  imports Ticket_Run
begin

text \<open>
  \<open>run_next_flow\<close> and \<open>retry\<close>: with any fuel, and however the services answer, the flows stay in order and
  only later flows become active.
\<close>

section \<open>A flow runs\<close>

lemma known_init: "known_type E (fl_type f) \<Longrightarrow> flow_init E f = op_ok ()"
  by (cases "fl_type f") (auto simp: flow_init_def known_type_def op_ok_def)

lemma flow_run_goes_on:
  assumes E: "env_ok E" "\<not> te_skip_itsm E" and f: "active ids k f" "known_type E (fl_type f)"
    and nxt: "goes_on E ids k run_next"
  shows "goes_on E ids k (flow_run E run_next f)"
proof -
  note base = steady_base_run [OF quiet_True f(1)]
  note bodies = base [OF steady_bodies(1) [OF E(1) f(1)]] base [OF steady_bodies(2) [OF E(1) f(1)]]
    base [OF steady_bodies(3) [OF E(1) f(1)]] base [OF steady_bodies(4) [OF E(1) f(1)]]
  note runs = steady_inner_run [OF E(1) quiet_True f(1)] steady_simple_run [OF E(1) f(1)]
  have resource: "goes_on E ids k (resource_run E run_next f)" if "fl_type f \<in> resource_types"
    using resource_run_goes_on [OF E f(1) that nxt] unfolding goes_on_def by (rule op_valid_weaken) auto
  note rest = steady_goes_on [OF steady_then [OF bodies(1) steady_basic(1)]] bodies(2,4) [THEN steady_goes_on]
    steady_then_goes_on [OF bodies(3) nxt] runs [THEN steady_goes_on]
  show ?thesis
    using f(2) resource by (cases "fl_type f") (auto simp: flow_run_def known_type_def resource_types_def intro: rest)
qed

section \<open>The next flow runs\<close>

lemma ok_then: "op_then (op_ok ()) m = m"
  by (simp add: op_then_def op_bind_def op_ok_def)

lemma finished_before_ids:
  assumes "ordered E ids k s" and "i < j" and "j < length ids"
  shows "fl_id (tk_flows s ! i) < fl_id (tk_flows s ! j)"
  using ids_nth_less [OF assms] ordered_nth(1) [OF assms(1)] assms(2,3) by simp

lemma ordered_known: "ordered E ids k s \<Longrightarrow> j < length ids \<Longrightarrow> known_type E (fl_type (tk_flows s ! j))"
  using ordered_nth(2) [of E ids k s j] unfolding ordered_def by (metis image_eqI nth_mem)

lemma poll_active:
  assumes s: "ordered E ids k s" and k: "k < length ids"
  shows "op_valid (\<lambda>t. t = s) (flow_status_of E (flow_signal E) (tk_flows s ! k))
     (\<lambda>st t. ordered E ids k t \<and> (st \<in> Some ` set FLOW_FINISHED_STATUS \<longrightarrow> ordered E ids (Suc k) t)) (\<lambda>_. ordered E ids k)"
proof -
  let ?cores = "map flow_core (tk_flows s)"
  have len: "length ?cores = length ids" using s unfolding ordered_def by (metis length_map)
  have "op_valid (\<lambda>t. ordered_at E ?cores k t \<and> tk_flows t ! k = tk_flows s ! k) (flow_status_of E (flow_signal E) (tk_flows s ! k))
     (\<lambda>st t. ordered_at E ?cores k t \<and> (st \<in> Some ` set FLOW_FINISHED_STATUS \<longrightarrow> ordered_at E ?cores (Suc k) t)) (\<lambda>_. ordered_at E ?cores k)"
    by (rule advance_flow_status [OF polls_signal polls_signal]) (use k len in simp)
  then show ?thesis
  proof (rule op_valid_weaken)
    show "ordered_at E ?cores k t \<and> tk_flows t ! k = tk_flows s ! k" if "t = s" for t
      using ordered_at_cores [OF s] that by simp
  qed (use ordered_at_ordered [of E ?cores] cores_ids_rows [OF s] in auto)
qed

lemma poll_finished:
  assumes s: "ordered E ids k s" and j: "j < k" "k \<le> length ids"
  shows "\<exists>st \<in> set FLOW_FINISHED_STATUS. flow_status_of E sig (tk_flows s ! j) s = (Inr (Some st), s)"
proof -
  have j': "j < length ids" using j by simp
  have "sane_row (tk_flows s ! j) \<and> fl_status (tk_flows s ! j) \<in> set FLOW_FINISHED_STATUS"
    using ordered_nth(3) [OF s j'] j by (simp add: row_ok_def)
  then show ?thesis using quiet_flow_status [OF ordered_known [OF s j'], of sig s] by blast
qed

text \<open>The active flow waits: it is started.\<close>

lemma start_active:
  assumes E: "env_ok E" "\<not> te_skip_itsm E" and s: "ordered E ids k s" and k: "k < length ids"
    and nxt: "goes_on E ids k run_next"
    and current: "current = tk_flows s ! k \<or> 0 < k \<and> current = tk_flows s ! (k - 1)"
  shows "op_valid (\<lambda>t. t = s) (start_next E run_next current (tk_flows s ! k) b) (\<lambda>_. ordered_from E ids k) (\<lambda>_. failed_at E ids k)"
proof -
  have f: "active ids k (tk_flows s ! k)" using ordered_nth(1,2) [OF s k] k by (simp add: active_def)
  note run = flow_run_goes_on [OF E f ordered_known [OF s k] nxt]
  have poll: "op_valid (\<lambda>t. t = s) (flow_status_of E (flow_signal E) current) (\<lambda>_. ordered E ids k) (\<lambda>_. failed_at E ids k)"
    using current
  proof
    assume "current = tk_flows s ! k"
    then show ?thesis using poll_active [OF s k] by (auto elim!: op_valid_weaken intro: failed_atI)
  next
    assume "0 < k \<and> current = tk_flows s ! (k - 1)"
    then show ?thesis using poll_finished [OF s, of "k - 1" "flow_signal E"] k s by (auto simp: op_valid_def)
  qed
  have "op_valid (ordered E ids k) (if c then op_then (op_ok ()) (flow_run E run_next (tk_flows s ! k)) else op_ok ())
      (\<lambda>_. ordered_from E ids k) (\<lambda>_. failed_at E ids k)" for c
    using run unfolding goes_on_def ok_then by (auto intro!: op_valid_ok ordered_fromI)
  then show ?thesis
    unfolding start_next_def known_init [OF ordered_known [OF s k]] by (intro op_valid_bind [OF poll])
qed

text \<open>The active flow is not waiting: the one after it starts when it is finished.\<close>

lemma start_after_active:
  assumes E: "env_ok E" "\<not> te_skip_itsm E" and s: "ordered E ids k s" and k: "Suc k < length ids"
    and nxt: "goes_on E ids (Suc k) run_next"
  shows "op_valid (\<lambda>t. t = s) (start_next E run_next (tk_flows s ! k) (tk_flows s ! Suc k) False) (\<lambda>_. ordered_from E ids k) (\<lambda>_. failed_at E ids k)"
proof -
  let ?f = "tk_flows s ! Suc k"
  have f: "active ids (Suc k) ?f" using ordered_nth(1,2) [OF s k] k by (simp add: active_def)
  note known = ordered_known [OF s k]
  have run: "op_valid (ordered E ids (Suc k)) (flow_run E run_next ?f) (\<lambda>_. ordered_from E ids k) (\<lambda>_. failed_at E ids k)"
  proof (cases "guarded ids k")
    case True
    then have ty: "fl_type ?f = INNER_FLOW" using ordered_nth(2) [OF s k] by (simp add: guarded_def)
    have "quiet False ids (Suc k)" using True by (simp add: guarded_def quiet_def)
    from steady_inner_run [OF E(1) this f] show ?thesis
      unfolding flow_run_def ty steady_def
      by (auto elim!: op_valid_weaken intro: ordered_from_mono [OF ordered_fromI, of E ids "Suc k"])
  next
    case False
    then have failed: "failed_at E ids k t = ordered_from E ids k t" for t by (simp add: failed_at_def)
    have later: "ordered_from E ids k t" if "ordered_from E ids (Suc k) t" for t
      using ordered_from_mono [OF that] by simp
    show ?thesis using flow_run_goes_on [OF E f known nxt] unfolding goes_on_def failed
      by (rule op_valid_weaken) (blast intro: later failed_at_from)+
  qed
  have poll: "op_valid (\<lambda>t. t = s) (flow_status_of E (flow_signal E) (tk_flows s ! k))
      (\<lambda>st t. ordered E ids k t \<and> (st \<in> Some ` set FLOW_FINISHED_STATUS \<longrightarrow> ordered E ids (Suc k) t)) (\<lambda>_. failed_at E ids k)"
    using poll_active [OF s] k by (auto elim!: op_valid_weaken intro: failed_atI)
  have "op_valid (\<lambda>t. ordered E ids k t \<and> (st \<in> Some ` set FLOW_FINISHED_STATUS \<longrightarrow> ordered E ids (Suc k) t))
      (if False \<or> st \<in> Some ` set FLOW_FINISHED_STATUS then op_then (op_ok ()) (flow_run E run_next ?f) else op_ok ())
      (\<lambda>_. ordered_from E ids k) (\<lambda>_. failed_at E ids k)" for st
  proof (cases "st \<in> Some ` set FLOW_FINISHED_STATUS")
    case True
    then show ?thesis using run unfolding ok_then by (auto elim!: op_valid_weaken)
  next
    case False
    then show ?thesis by (auto intro!: op_valid_ok ordered_fromI)
  qed
  then show ?thesis unfolding start_next_def known_init [OF known] by (intro op_valid_bind [OF poll])
qed

lemma run_next_goes_on:
  assumes E: "env_ok E" "\<not> te_skip_itsm E"
  shows "goes_on E ids k (run_next_flow E n)"
proof (induction n arbitrary: k)
  case 0
  show ?case by (simp add: steady_goes_on steady_answer)
next
  case (Suc n)
  show ?case unfolding goes_on_def
  proof (rule op_validI)
    fix s assume s: "ordered E ids k s"
    show "case run_next_flow E (Suc n) s of (Inr x, t) \<Rightarrow> ordered_from E ids k t | (Inl e, t) \<Rightarrow> failed_at E ids k t"
    proof (cases "next_flow E s")
      case None
      then show ?thesis using s by (simp add: ordered_fromI)
    next
      case (Some nxt)
      have head: "hd (tk_flows s) = tk_flows s ! 0" if "0 < length ids"
        using ordered_nth(4) [OF s that] that by (intro hd_conv_nth) auto
      have ids: "fl_id (tk_flows s ! j) = fl_id (hd (tk_flows s)) \<longleftrightarrow> j = 0" if "j < length ids" for j
      proof (cases "j = 0")
        case False
        have "0 < length ids" using that by linarith
        then show ?thesis using finished_before_ids [OF s, of 0 j] that head False by simp
      qed (use head that in simp)
      from s E(2) Some show ?thesis
      proof (cases rule: next_flow_cases)
        case 1
        note k = this
        have p: "fl_status (tk_flows s ! k) = FLOW_PENDING" using k(2,3) by simp
        obtain current where c: "current_flow E s = Some current"
          and cur: "current = tk_flows s ! k \<or> 0 < k \<and> current = tk_flows s ! (k - 1)"
          using current_flow_cases(2,3) [OF s k(1) p] Some k(2) by (cases "k = 0") auto
        have "\<not> (fl_id current \<ge> fl_id nxt \<and> \<not> fl_id nxt = fl_id (hd (tk_flows s)))"
          using cur ids [OF k(1)] k(2) current_flow_cases(2) [OF s k(1) p] c finished_before_ids [OF s, of "k - 1" k] k(1)
          by (cases "k = 0") auto
        then have "run_next_flow E (Suc n) s = start_next E (run_next_flow E n) current nxt (fl_id nxt = fl_id (hd (tk_flows s))) s"
          using Some c by (simp only: run_next_flow.simps Let_def option.case if_False)
        then show ?thesis using op_valid_at [OF start_active [OF E s k(1) Suc.IH cur] refl] k(2) by simp
      next
        case 2
        note k = this
        have c: "current_flow E s = Some (tk_flows s ! k)" using current_flow_cases(1) [OF s _ k(3)] k(1) by simp
        have less: "fl_id (tk_flows s ! k) < fl_id (tk_flows s ! Suc k)" using finished_before_ids [OF s _ k(1)] by simp
        have "run_next_flow E (Suc n) s = start_next E (run_next_flow E n) (tk_flows s ! k) nxt False s"
          using Some c less ids [OF k(1)] k(2) by simp
        then show ?thesis using op_valid_at [OF start_after_active [OF E s k(1) Suc.IH] refl] k(2) by simp
      qed
    qed
  qed
qed

section \<open>A flow is retried\<close>

lemma sane_flush: "sane_row (r\<lparr>fl_failed := False, fl_err_code := None, fl_status := FLOW_RUNNING, fl_ack := False, fl_remark := [], fl_expire := None\<rparr>)"
  by (simp add: sane_row_def FLOW_FINISHED_STATUS_def)

lemma retry_goes_on:
  assumes E: "env_ok E" "\<not> te_skip_itsm E" and f: "active ids k f" "known_type E (fl_type f)"
    and nxt: "goes_on E ids k run_next"
  shows "goes_on E ids k (flow_retry E run_next f)"
proof -
  let ?flush = "\<lambda>r. r\<lparr>fl_failed := False, fl_err_code := None, fl_status := FLOW_RUNNING, fl_ack := False, fl_remark := [], fl_expire := None\<rparr>"
  have flush: "goes_on E ids k (op_bind (flush_error_status_handler E g) (flow_run E run_next))"
    if g: "active ids k g" "fl_type g = fl_type f" for g
  proof -
    have "steady True E ids k (save_flow (flow_signal E) (fl_id g) ?flush)"
      by (rule steady_save [OF quiet_True g(1)]) (simp add: sane_write_def sane_flush)
    moreover have "goes_on E ids k (flow_run E run_next (?flush g))"
      by (rule flow_run_goes_on [OF E _ _ nxt]) (use g f in \<open>simp_all add: active_def\<close>)
    moreover have "op_bind (flush_error_status_handler E g) (flow_run E run_next)
        = op_then (save_flow (flow_signal E) (fl_id g) ?flush) (flow_run E run_next (?flush g))"
      by (auto simp: flush_error_status_handler_def op_defs fun_eq_iff Let_def split: prod.split sum.split)
    ultimately show ?thesis by (simp only: steady_then_goes_on)
  qed
  have clear: "steady True E ids k (save_flow (flow_signal E) (fl_id f) (\<lambda>r. r\<lparr>fl_obj_id := []\<rparr>))" if "fl_type f = RESOURCE_HCM_REPLENISH"
    by (rule steady_save [OF quiet_True f(1)]) (use that in \<open>simp add: sane_write_def sane_row_def resource_types_def\<close>)
  show ?thesis
  proof (cases "fl_type f = RESOURCE_HCM_REPLENISH")
    case True
    have "flow_retry E run_next f = op_then (save_flow (flow_signal E) (fl_id f) (\<lambda>r. r\<lparr>fl_obj_id := []\<rparr>))
        (op_bind (flush_error_status_handler E (f\<lparr>fl_obj_id := []\<rparr>)) (flow_run E run_next))"
      using True by (auto simp: flow_retry_def known_init [OF f(2)] op_defs fun_eq_iff split: prod.split sum.split)
    then show ?thesis using steady_then_goes_on [OF clear [OF True] flush] f(1) by (simp add: active_update)
  next
    case False
    then have "flow_retry E run_next f = op_bind (flush_error_status_handler E f) (flow_run E run_next)"
      by (auto simp: flow_retry_def known_init [OF f(2)] op_defs fun_eq_iff)
    then show ?thesis using flush [OF f(1)] by simp
  qed
qed

end
