(* ===== verification/Ticket_Todo.thy ===== *)
theory Ticket_Todo
  imports Ticket_Next
begin

text \<open>
  What people and other systems do to a ticket: handling and delivering a todo (\<open>ticket/todos\<close>), revoking a flow
  or the ticket, the callback of a finished pipeline, and the retry of flows that were excluded. A todo
  object is a copy of its row; \<open>f\<close> is the flow object it holds.
\<close>

record todo_params =
  tp_remark :: "string option"
  tp_trigger_time :: "real option"

section \<open>Revoking a task flow\<close>

text \<open>\<open>TaskFlowHandler.revoke_pipeline\<close>: a pipeline that was not started is only marked.\<close>

definition revoke_pipeline :: "ticket_env \<Rightarrow> string \<Rightarrow> unit ticket_op" where
  "revoke_pipeline E rid = (\<lambda>s.
     case tk_trees s rid of
       None \<Rightarrow> (Inl DoesNotExist, s)
     | Some (st, expired) \<Rightarrow>
         if st = TREE_REVOKED then (Inr (), s)
         else if st \<in> {TREE_CREATED, TREE_READY} then (Inr (), s\<lparr>tk_trees := (tk_trees s)(rid \<mapsto> (TREE_REVOKED, expired))\<rparr>)
         else (te_engine_revoke E, s))"

definition inner_revoke :: "ticket_env \<Rightarrow> string \<Rightarrow> string \<Rightarrow> flow_row \<Rightarrow> flow_row ticket_op" where
  "inner_revoke E operator remark f =
     op_bind (flush_revoke_status_handler E operator remark f) (\<lambda>f.
     op_then (op_change (\<lambda>s. s\<lparr>tk_todos := map (\<lambda>td. if td_flow td = fl_id f \<and> td_status td = TODO_OPEN
                then td\<lparr>td_status := DONE_FAILED, td_done_by := operator\<rparr> else td) (tk_todos s)\<rparr>))
     (op_then (op_bind (op_get (\<lambda>s. tk_trees s (fl_obj_id f) \<noteq> None)) (\<lambda>exists.
         if exists then revoke_pipeline E (fl_obj_id f)
         else if fl_build_task f \<noteq> [] then send_task (RevokeTask (fl_build_task f)) else op_ok ()))
       (op_ok f)))"

section \<open>Handling a todo\<close>

definition pause_process :: "ticket_env \<Rightarrow> unit ticket_op \<Rightarrow> string \<Rightarrow> todo_action \<Rightarrow> flow_row \<Rightarrow> todo_row \<Rightarrow> unit ticket_op" where
  "pause_process E run_next username action f td =
     (if action = ACTION_TERMINATE then todo_set_terminated (flow_signal E) f username action td
      else op_then (todo_set_success username action td)
        (op_bind (op_get exist_unfinished) (\<lambda>unfinished. if unfinished then op_ok () else run_next)))"

definition replenish_process :: "ticket_env \<Rightarrow> unit ticket_op \<Rightarrow> string \<Rightarrow> todo_action \<Rightarrow> flow_row \<Rightarrow> todo_row \<Rightarrow> unit ticket_op" where
  "replenish_process E run_next username action f td =
     (if action = ACTION_TERMINATE then todo_set_terminated (flow_signal E) f username action td
      else op_then (flow_retry E run_next f)
        (op_bind (flow_by_id (td_flow td)) (\<lambda>f.
           if fl_status f = FLOW_SUCCEEDED then todo_set_success username action td else op_ok ())))"

definition failed_process :: "ticket_env \<Rightarrow> unit ticket_op \<Rightarrow> string \<Rightarrow> todo_action \<Rightarrow> todo_params \<Rightarrow> flow_row \<Rightarrow> todo_row \<Rightarrow> unit ticket_op" where
  "failed_process E run_next username action p f td =
     (if action = ACTION_TERMINATE
      then op_bind (inner_revoke E username (case tp_remark p of Some r \<Rightarrow> r | None \<Rightarrow> []) f) (\<lambda>f.
             todo_set_terminated (flow_signal E) f username action td)
      else flow_retry E run_next f)"

definition pipeline_process :: "ticket_env \<Rightarrow> string \<Rightarrow> todo_action \<Rightarrow> todo_row \<Rightarrow> unit ticket_op" where
  "pipeline_process E username action td =
     (if action = ACTION_TERMINATE
      then op_bind (todo_set_status username DONE_FAILED td) (\<lambda>_. op_result (te_engine_fail E))
      else case te_engine_callback E of
             Inl e \<Rightarrow> op_then (todo_history td username action) (op_raise e)
           | Inr _ \<Rightarrow> todo_set_success username action td)"

text \<open>\<open>TicketHandler.operate_itsm_ticket\<close>, on the approval flow that is running.\<close>

definition operate_itsm_ticket :: "ticket_env \<Rightarrow> itsm_action \<Rightarrow> string \<Rightarrow> bool \<Rightarrow> unit ticket_op" where
  "operate_itsm_ticket E action operator approved =
     op_bind (op_get (\<lambda>s. filter (\<lambda>f. fl_type f = BK_ITSM \<and> fl_status f = FLOW_RUNNING) (tk_flows s))) (\<lambda>fs.
       case fs of
         [] \<Rightarrow> op_raise DoesNotExist
       | [f] \<Rightarrow> te_itsm_operate E (fl_obj_id f) action approved operator
       | _ \<Rightarrow> op_raise MultipleObjects)"

definition admin :: string where "admin = ''admin''"

definition itsm_process :: "ticket_env \<Rightarrow> string \<Rightarrow> todo_action \<Rightarrow> flow_row \<Rightarrow> todo_row \<Rightarrow> unit ticket_op" where
  "itsm_process E username action f td =
     (if action = ACTION_TERMINATE \<and> username = DEFAULT_SYSTEM_USER
      then op_then (operate_itsm_ticket E ITSM_TERMINATE admin False) (todo_set_terminated (flow_signal E) f admin action td)
      else if action = ACTION_TERMINATE \<and> username \<noteq> te_creator E
      then op_then (operate_itsm_ticket E TRANSITION username False) (todo_set_terminated (flow_signal E) f username action td)
      else if action = ACTION_TERMINATE
      then op_then (operate_itsm_ticket E WITHDRAW username False) (todo_set_terminated (flow_signal E) f username action td)
      else if action = ACTION_APPROVE
      then let username = (if username \<notin> set (td_operators td @ td_helpers td) then admin else username)
           in op_then (operate_itsm_ticket E TRANSITION username True) (todo_set_success username action td)
      else op_ok ())"

definition timer_process :: "ticket_env \<Rightarrow> unit ticket_op \<Rightarrow> string \<Rightarrow> todo_action \<Rightarrow> todo_params \<Rightarrow> flow_row \<Rightarrow> todo_row \<Rightarrow> unit ticket_op" where
  "timer_process E run_next username action p f td =
     op_bind (op_get tk_clock) (\<lambda>now.
       if fl_status f \<noteq> FLOW_RUNNING \<or> fl_task_id f = [] then op_raise TaskTriggerError
       else op_then (send_task (RevokeTask (fl_task_id f)))
         (if action = ACTION_TERMINATE then todo_set_terminated (flow_signal E) f username action td
          else if action = ACTION_SKIP then
            (case fl_trigger_time f of
               None \<Rightarrow> op_raise KeyError
             | Some _ \<Rightarrow>
                 op_then (todo_set_success username action td)
                   (op_then (save_flow (flow_signal E) (fl_id f) (\<lambda>r. r\<lparr>fl_trigger_time := Some now\<rparr>)) run_next))
          else if action = ACTION_CHANGE then
            (if fl_trigger_time f = None \<or> tp_trigger_time p = None then op_raise KeyError
             else let upd = (\<lambda>r. r\<lparr>fl_trigger_time := tp_trigger_time p, fl_run_time := Some now, fl_task_id := [], fl_expired_flag := None\<rparr>)
                  in op_then (todo_save (td\<lparr>td_done_by := username\<rparr>))
                       (op_then (save_flow (flow_signal E) (fl_id f) upd) (flow_retry E run_next (upd f))))
          else op_ok ()))"

text \<open>The registered actors.\<close>

definition actor_types :: "todo_type set" where
  "actor_types = {TODO_ITSM, TODO_APPROVE, TODO_INNER_FAILED, TODO_INNER_APPROVE, TODO_RESOURCE_REPLENISH, TODO_TIMER}"

definition todo_act :: "ticket_env \<Rightarrow> unit ticket_op \<Rightarrow> string \<Rightarrow> todo_action \<Rightarrow> todo_params \<Rightarrow> todo_row \<Rightarrow> flow_row \<Rightarrow> unit ticket_op" where
  "todo_act E run_next username action p td f = (case td_type td of
     TODO_APPROVE \<Rightarrow> pause_process E run_next username action f td
   | TODO_RESOURCE_REPLENISH \<Rightarrow> replenish_process E run_next username action f td
   | TODO_INNER_FAILED \<Rightarrow> failed_process E run_next username action p f td
   | TODO_INNER_APPROVE \<Rightarrow> pipeline_process E username action td
   | TODO_ITSM \<Rightarrow> itsm_process E username action f td
   | TODO_TIMER \<Rightarrow> timer_process E run_next username action p f td
   | _ \<Rightarrow> op_raise NotImplementedError)"

definition update_context :: "ticket_env \<Rightarrow> todo_params \<Rightarrow> flow_row \<Rightarrow> flow_row ticket_op" where
  "update_context E p f =
     (if tp_remark p = None \<and> tp_trigger_time p = None then op_ok f
      else let f = (case tp_remark p of None \<Rightarrow> f | Some r \<Rightarrow> f\<lparr>fl_remark := r\<rparr>)
           in op_then (save_flow (flow_signal E) (fl_id f)
                (\<lambda>r. r\<lparr>fl_ack := fl_ack f, fl_remark := fl_remark f, fl_expire := fl_expire f\<rparr>)) (op_ok f))"

text \<open>Superusers may handle every todo but a pause: \<open>allow_superuser_process\<close>.\<close>

definition may_handle :: "ticket_env \<Rightarrow> string \<Rightarrow> todo_row \<Rightarrow> bool ticket_op" where
  "may_handle E username td =
     op_bind (if td_type td = TODO_APPROVE then op_ok False
              else case te_superuser E username of None \<Rightarrow> op_raise DoesNotExist | Some b \<Rightarrow> op_ok b) (\<lambda>is_superuser.
       op_ok (is_superuser \<or> username \<in> set (td_operators td @ td_helpers td)))"

definition todo_process :: "ticket_env \<Rightarrow> unit ticket_op \<Rightarrow> string \<Rightarrow> todo_action \<Rightarrow> todo_params \<Rightarrow> todo_row \<Rightarrow> unit ticket_op" where
  "todo_process E run_next username action p td =
     (if td_type td \<notin> actor_types then op_raise NotImplementedError
      else op_bind (flow_by_id (td_flow td)) (\<lambda>f.
        if td_type td = TODO_ITSM \<and> username = te_creator E \<and> todo_open td then todo_act E run_next username action p td f
        else if \<not> todo_open td then op_raise TodoDuplicateProcess
        else if username = DEFAULT_SYSTEM_USER then todo_act E run_next username action p td f
        else op_bind (may_handle E username td) (\<lambda>ok.
          if \<not> ok then op_raise TodoWrongOperator
          else op_bind (update_context E p f) (todo_act E run_next username action p td))))"

text \<open>A todo is handed on: the first occurrence of the user is removed.\<close>

definition todo_deliver :: "ticket_env \<Rightarrow> string \<Rightarrow> string list \<Rightarrow> todo_row \<Rightarrow> unit ticket_op" where
  "todo_deliver E username processors td =
     (if td_type td \<notin> actor_types then op_raise NotImplementedError
      else if username \<in> set (td_helpers td) \<or> username \<in> set (td_operators td)
      then let td = (if username \<in> set (td_helpers td) then td\<lparr>td_helpers := remove1 username (td_helpers td) @ processors\<rparr>
                     else td\<lparr>td_operators := remove1 username (td_operators td) @ processors\<rparr>)
           in op_then (todo_save td)
                (if td_type td = TODO_ITSM then operate_itsm_ticket E ITSM_DELIVER username False else op_ok ())
      else op_raise TodoWrongOperator)"

section \<open>Revoking\<close>

primrec process_todos :: "(todo_row \<Rightarrow> unit ticket_op) \<Rightarrow> todo_row list \<Rightarrow> unit ticket_op" where
  "process_todos act [] = op_ok ()"
| "process_todos act (td # tds) = op_then (act td) (process_todos act tds)"

definition base_revoke :: "ticket_env \<Rightarrow> unit ticket_op \<Rightarrow> string \<Rightarrow> string \<Rightarrow> flow_row \<Rightarrow> unit ticket_op" where
  "base_revoke E run_next operator remark f =
     op_bind (flush_revoke_status_handler E operator remark f) (\<lambda>f.
     op_bind (op_get (\<lambda>s. filter (\<lambda>td. td_status td = TODO_OPEN) (todos_of (fl_id f) s)))
       (process_todos (todo_process E run_next operator ACTION_TERMINATE \<lparr>tp_remark = Some remark, tp_trigger_time = None\<rparr>)))"

definition timer_revoke :: "ticket_env \<Rightarrow> unit ticket_op \<Rightarrow> string \<Rightarrow> string \<Rightarrow> flow_row \<Rightarrow> unit ticket_op" where
  "timer_revoke E run_next operator remark f =
     op_bind (op_get (\<lambda>s. first_of (todos_of (fl_id f) s))) (\<lambda>td.
       case td of
         None \<Rightarrow> op_raise AttributeError
       | Some td \<Rightarrow> todo_process E run_next operator ACTION_TERMINATE \<lparr>tp_remark = Some remark, tp_trigger_time = None\<rparr> td)"

definition inner_types :: "flow_type set" where
  "inner_types = {INNER_FLOW, QUICK_INNER_FLOW, IGNORE_RESULT_INNER_FLOW, HOST_RECYCLE, RESOURCE_HCM_REPLENISH}"

definition flow_revoke :: "ticket_env \<Rightarrow> unit ticket_op \<Rightarrow> string \<Rightarrow> string \<Rightarrow> flow_row \<Rightarrow> unit ticket_op" where
  "flow_revoke E run_next operator remark f =
     op_then (flow_init E f)
       (if fl_type f \<in> inner_types then op_bind (inner_revoke E operator remark f) (\<lambda>_. op_ok ())
        else if fl_type f = TIMER then timer_revoke E run_next operator remark f
        else base_revoke E run_next operator remark f)"

text \<open>\<open>operate_flow\<close>, and \<open>revoke_ticket\<close> for one ticket: its first flow that is not closed.\<close>

definition operate_flow :: "(flow_row \<Rightarrow> unit ticket_op) \<Rightarrow> nat \<Rightarrow> unit ticket_op" where
  "operate_flow func flow_id = op_bind (flow_by_id flow_id) func"

definition revoke_ticket :: "ticket_env \<Rightarrow> unit ticket_op \<Rightarrow> string \<Rightarrow> string \<Rightarrow> unit ticket_op" where
  "revoke_ticket E run_next operator remark =
     op_bind (op_get (\<lambda>s. first_of (filter (\<lambda>f. fl_status f \<notin> set FLOW_FINISHED_STATUS \<union> {FLOW_TERMINATED, FLOW_REVOKED}) (tk_flows s)))) (\<lambda>f.
       case f of None \<Rightarrow> op_ok () | Some f \<Rightarrow> operate_flow (flow_revoke E run_next operator remark) (fl_id f))"

section \<open>The pipeline reports\<close>

text \<open>The flow objects without a \<open>callback\<close> of one argument raise.\<close>

definition post_callback :: "ticket_env \<Rightarrow> flow_row \<Rightarrow> unit ticket_op" where
  "post_callback E f =
     (if fl_type f \<in> inner_types then te_hooks E POST_CALLBACK f
      else if fl_type f \<in> resource_types then op_raise TypeError else op_raise AttributeError)"

definition callback_ticket :: "ticket_env \<Rightarrow> unit ticket_op \<Rightarrow> string \<Rightarrow> unit ticket_op" where
  "callback_ticket E run_next root_id =
     op_bind (op_get (current_flow E)) (\<lambda>current.
       case current of
         None \<Rightarrow> op_raise AttributeError
       | Some f \<Rightarrow>
           op_bind (flow_status_of E (flow_signal E) f) (\<lambda>st.
           op_then (if st \<notin> {Some FLOW_PENDING, Some FLOW_RUNNING} then post_callback E f else op_ok ())
             (if fl_type f \<noteq> QUICK_INNER_FLOW \<and> fl_obj_id f = root_id \<and> st \<in> Some ` set FLOW_FINISHED_STATUS
              then run_next else op_ok ())))"

definition inner_retry :: "ticket_env \<Rightarrow> flow_row \<Rightarrow> unit ticket_op" where
  "inner_retry E f = op_bind (flush_error_status_handler E f) (inner_run E)"

text \<open>\<open>TicketTask.retry_exclusive_inner_flow\<close>, for the flows of one ticket.\<close>

primrec inner_retries :: "ticket_env \<Rightarrow> flow_row list \<Rightarrow> unit ticket_op" where
  "inner_retries E [] = op_ok ()"
| "inner_retries E (f # fs) = op_then (inner_retry E f) (inner_retries E fs)"

definition retry_exclusive_inner_flow :: "ticket_env \<Rightarrow> unit ticket_op" where
  "retry_exclusive_inner_flow E =
     op_bind (op_get (\<lambda>s. filter (\<lambda>f. fl_err_code f = Some AUTO_EXCLUSIVE_ERROR) (tk_flows s))) (inner_retries E)"

end
