(* ===== verification/Ticket_Life.thy ===== *)
theory Ticket_Life
  imports Ticket_Todo
begin

text \<open>
  The life of a ticket: its flows run in order whatever is done to it. Steps are the status signal,
  \<open>run_next_flow\<close>, the callback of a pipeline, the handling of a todo, a retry, a revocation, and any change
  of the rest of the world.
\<close>

section \<open>Handling keeps the order\<close>

definition moves_on :: "ticket_env \<Rightarrow> (nat \<times> flow_type) list \<Rightarrow> nat \<Rightarrow> 'a ticket_op \<Rightarrow> bool" where
  "moves_on E ids k m \<longleftrightarrow> op_valid (ordered E ids k) m (\<lambda>_. ordered_from E ids k) (\<lambda>_. ordered_from E ids k)"

text \<open>An operation that answers with the active flow.\<close>

definition yields :: "ticket_env \<Rightarrow> (nat \<times> flow_type) list \<Rightarrow> nat \<Rightarrow> flow_row ticket_op \<Rightarrow> bool" where
  "yields E ids k m \<longleftrightarrow> op_valid (ordered E ids k) m (\<lambda>f s. ordered E ids k s \<and> active ids k f) (\<lambda>_. ordered E ids k)"

lemma goes_moves: "goes_on E ids k m \<Longrightarrow> moves_on E ids k m"
  unfolding goes_on_def moves_on_def by (erule op_valid_weaken) (auto intro: failed_at_from)

lemma steady_moves: "steady True E ids k m \<Longrightarrow> moves_on E ids k m"
  unfolding steady_def moves_on_def by (erule op_valid_weaken) (auto intro: ordered_fromI)

lemma steady_bind_moves: "steady True E ids k m \<Longrightarrow> (\<And>x. moves_on E ids k (h x)) \<Longrightarrow> moves_on E ids k (op_bind m h)"
  unfolding steady_def moves_on_def
  by (rule op_valid_bind [where Q = "\<lambda>_. ordered E ids k"]) (erule op_valid_weaken, auto intro: ordered_fromI)

lemma steady_then_moves: "steady True E ids k m \<Longrightarrow> moves_on E ids k h \<Longrightarrow> moves_on E ids k (op_then m h)"
  unfolding op_then_def by (rule steady_bind_moves)

lemma yields_moves: "yields E ids k m \<Longrightarrow> (\<And>f. active ids k f \<Longrightarrow> moves_on E ids k (h f)) \<Longrightarrow> moves_on E ids k (op_bind m h)"
  unfolding yields_def moves_on_def
  by (rule op_valid_bind [where Q = "\<lambda>f s. ordered E ids k s \<and> active ids k f"])
    (erule op_valid_weaken, auto intro: ordered_fromI simp: op_valid_def)

lemma yields_steady: "yields E ids k m \<Longrightarrow> (\<And>f. active ids k f \<Longrightarrow> steady True E ids k (h f)) \<Longrightarrow> steady True E ids k (op_bind m h)"
  unfolding yields_def steady_def
  by (rule op_valid_bind [where Q = "\<lambda>f s. ordered E ids k s \<and> active ids k f"])
    (erule op_valid_weaken, auto simp: op_valid_def)

lemma yields_yields: "yields E ids k m \<Longrightarrow> (\<And>f. active ids k f \<Longrightarrow> yields E ids k (h f)) \<Longrightarrow> yields E ids k (op_bind m h)"
  unfolding yields_def
  by (rule op_valid_bind [where Q = "\<lambda>f s. ordered E ids k s \<and> active ids k f"])
    (assumption, auto simp: op_valid_def)

lemma yields_ok: "active ids k f \<Longrightarrow> yields E ids k (op_ok f)"
  by (simp add: yields_def op_valid_def op_ok_def)

lemma steady_then_yields: "steady True E ids k m \<Longrightarrow> yields E ids k h \<Longrightarrow> yields E ids k (op_then m h)"
  unfolding steady_def yields_def
  by (rule op_valid_then [where Q = "\<lambda>_. ordered E ids k"]) (erule op_valid_weaken, simp_all)

lemma moves_then_rows:
  assumes "moves_on E ids k m" and "rows_kept h"
  shows "moves_on E ids k (op_then m h)"
  unfolding moves_on_def
proof (rule op_valid_then [OF assms(1) [unfolded moves_on_def] op_validI])
  fix s assume "ordered_from E ids k s"
  then show "case h s of (Inr x, t) \<Rightarrow> ordered_from E ids k t | (Inl e, t) \<Rightarrow> ordered_from E ids k t"
    using assms(2) unfolding rows_kept_def ordered_from_def
    by (cases "h s") (fastforce intro: ordered_rows split: sum.split)
qed

lemma filter_Cons_mem: "filter P xs = y # ys \<Longrightarrow> y \<in> set xs \<and> P y"
  by (auto simp: filter_eq_Cons_iff)

lemma flows_kept_by_id: "flows_kept (flow_by_id i)"
  by (auto simp: flows_kept_def flow_by_id_def split: list.splits)

lemma yields_by_id:
  assumes "k < length ids" and "i = fst (ids ! k)"
  shows "yields E ids k (flow_by_id i)"
  unfolding yields_def
proof (rule op_validI)
  fix s assume s: "ordered E ids k s"
  have k: "tk_flows s ! k \<in> set (tk_flows s)" "fl_id (tk_flows s ! k) = i" using ordered_nth [OF s assms(1)] assms by auto
  have "active ids k r" if r: "r \<in> set (tk_flows s)" "fl_id r = i" for r
  proof -
    obtain j where j: "j < length ids" "r = tk_flows s ! j"
      using r(1) ordered_nth(4) [OF s assms(1)] by (auto simp: in_set_conv_nth)
    then have "j = k" using ids_nth_eq [OF s j(1) assms(1)] ordered_nth(1) [OF s j(1)] r(2) assms(2) by simp
    then show ?thesis using j ordered_nth(1,2) [OF s j(1)] by (simp add: active_def)
  qed
  moreover have "filter (\<lambda>r. fl_id r = i) (tk_flows s) \<noteq> []" using k by (auto simp: filter_empty_conv)
  ultimately show "case flow_by_id i s of (Inr f, t) \<Rightarrow> ordered E ids k t \<and> active ids k f | (Inl e, t) \<Rightarrow> ordered E ids k t"
    using s by (auto simp: flow_by_id_def split: list.split dest: filter_Cons_mem)
qed

lemma steady_change: "(\<And>s. tk_flows (h s) = tk_flows s) \<Longrightarrow> steady b E ids k (op_change h)"
  by (rule steady_rows) (simp_all add: rows_kept_def op_never_def op_change_def)

lemma steady_update_status:
  assumes "active ids k f" and "fl_type f \<in> resource_types \<Longrightarrow> st \<notin> set FLOW_FINISHED_STATUS"
  shows "steady True E ids k (flow_update_status (flow_signal E) st f)"
proof -
  have "steady True E ids k (save_flow (flow_signal E) (fl_id f) (\<lambda>r. r\<lparr>fl_status := st\<rparr>))"
    by (rule steady_save [OF quiet_True assms(1)]) (use assms(2) in \<open>auto simp: sane_write_def sane_row_def\<close>)
  then show ?thesis unfolding flow_update_status_def by (auto intro!: steady_rules)
qed

lemma steady_terminated:
  assumes "active ids k f"
  shows "steady True E ids k (todo_set_terminated (flow_signal E) f username action td)"
  unfolding todo_set_terminated_def
  by (intro steady_rules steady_change steady_update_status [OF assms]) (simp_all add: FLOW_FINISHED_STATUS_def)

lemma steady_success: "steady b E ids k (todo_set_success username action td)"
  unfolding todo_set_success_def by (intro steady_rules)

lemma yields_flush_revoke:
  assumes "active ids k f"
  shows "yields E ids k (flush_revoke_status_handler E operator remark f)"
proof -
  have yes: "yields E ids k (op_then (save_flow (flow_signal E) (fl_id g) (\<lambda>r. r\<lparr>fl_status := fl_status g, fl_err_code := fl_err_code g,
        fl_ack := fl_ack g, fl_remark := fl_remark g, fl_expire := fl_expire g\<rparr>))
        (op_then (op_change (\<lambda>s. s\<lparr>tk_updater := operator\<rparr>)) (op_ok g)))"
    if g: "active ids k g" "fl_status g = FLOW_TERMINATED" for g
    by (intro steady_then_yields yields_ok g(1) steady_change steady_save [OF quiet_True g(1)])
      (simp_all add: sane_write_def sane_row_def FLOW_FINISHED_STATUS_def g(2))
  show ?thesis unfolding flush_revoke_status_handler_def Let_def
    by (rule yes) (use assms in \<open>simp_all add: active_def\<close>)
qed

lemma yields_inner_revoke:
  assumes "active ids k f"
  shows "yields E ids k (inner_revoke E operator remark f)"
proof -
  have "steady True E ids k (revoke_pipeline E rid)" for rid
    by (rule steady_raising) (auto simp: rows_kept_def revoke_pipeline_def split: option.splits if_splits)
  then show ?thesis unfolding inner_revoke_def
    by (intro yields_yields [OF yields_flush_revoke [OF assms]] steady_then_yields steady_bind steady_get)
      (auto intro!: steady_change steady_rules yields_ok)
qed

lemma steady_itsm_operate:
  assumes "env_ok E"
  shows "steady True E ids k (operate_itsm_ticket E a u b)"
proof -
  have "steady True E ids k (te_itsm_operate E sn a b u)" for sn by (rule steady_raising) (use assms in \<open>simp add: env_ok_def\<close>)
  then show ?thesis unfolding operate_itsm_ticket_def by (auto intro!: steady_rules steady_answer split: list.split)
qed

lemma steady_itsm_process:
  assumes "env_ok E" and "active ids k f"
  shows "steady True E ids k (itsm_process E username action f td)"
  unfolding itsm_process_def Let_def
  by (auto intro!: steady_rules steady_itsm_operate [OF assms(1)] steady_terminated [OF assms(2)] steady_success)

lemma steady_pipeline_process: "steady True E ids k (pipeline_process E username action td)"
  unfolding pipeline_process_def by (auto intro!: steady_rules steady_answer steady_success split: sum.split)

text \<open>A termination runs no flow.\<close>

lemma steady_act_terminate:
  assumes E: "env_ok E" and f: "active ids k f"
  shows "steady True E ids k (todo_act E run_next username ACTION_TERMINATE p td f)"
proof -
  have failed: "steady True E ids k (failed_process E run_next username ACTION_TERMINATE p f td)"
    unfolding failed_process_def using yields_steady [OF yields_inner_revoke [OF f] steady_terminated] by simp
  have timer: "steady True E ids k (timer_process E run_next username ACTION_TERMINATE p f td)"
    unfolding timer_process_def by (auto intro!: steady_rules steady_answer steady_terminated [OF f])
  show ?thesis unfolding todo_act_def pause_process_def replenish_process_def
    using failed timer steady_itsm_process [OF E f] steady_pipeline_process steady_terminated [OF f] steady_answer
    by (cases "td_type td") auto
qed

lemma act_moves_on:
  assumes E: "env_ok E" "\<not> te_skip_itsm E" and f: "active ids k f" "known_type E (fl_type f)"
    and nxt: "goes_on E ids k run_next"
  shows "moves_on E ids k (todo_act E run_next username action p td f)"
proof -
  note retry = goes_moves [OF retry_goes_on [OF E f nxt]]
  note terminated = steady_moves [OF steady_terminated [OF f(1)]]
  have pause: "moves_on E ids k (pause_process E run_next username action f td)"
  proof -
    have "moves_on E ids k (op_bind (op_get exist_unfinished) (\<lambda>unfinished. if unfinished then op_ok () else run_next))"
      by (intro steady_bind_moves [OF steady_get]) (simp add: goes_moves [OF nxt] steady_moves [OF steady_ok])
    then show ?thesis unfolding pause_process_def using terminated by (simp add: steady_then_moves [OF steady_success])
  qed
  have replenish: "moves_on E ids k (replenish_process E run_next username action f td)"
  proof -
    have "rows_kept (op_bind (flow_by_id (td_flow td)) (\<lambda>f. if fl_status f = FLOW_SUCCEEDED then todo_set_success username action td else op_ok ()))"
      unfolding todo_set_success_def
      by (intro flows_rows_kept flows_kept_bind [OF flows_kept_by_id]) (auto intro!: flows_kept_rules)
    from moves_then_rows [OF retry this] show ?thesis unfolding replenish_process_def using terminated by simp
  qed
  have failed: "moves_on E ids k (failed_process E run_next username action p f td)"
    unfolding failed_process_def
    using retry steady_moves [OF yields_steady [OF yields_inner_revoke [OF f(1)] steady_terminated]] by simp
  have timer: "moves_on E ids k (timer_process E run_next username action p f td)"
  proof -
    have skip: "steady True E ids k (save_flow (flow_signal E) (fl_id f) (\<lambda>r. r\<lparr>fl_trigger_time := Some t\<rparr>))" for t
      by (rule steady_save [OF quiet_True f(1)]) (simp add: sane_write_def sane_row_def)
    have change: "moves_on E ids k (op_then (save_flow (flow_signal E) (fl_id f) upd) (flow_retry E run_next (upd f)))"
      if "upd = (\<lambda>r. r\<lparr>fl_trigger_time := a, fl_run_time := b, fl_task_id := c, fl_expired_flag := d\<rparr>)" for upd a b c d
    proof (rule steady_then_moves [OF steady_save [OF quiet_True f(1)]])
      show "sane_write (fl_type f) upd" using that by (simp add: sane_write_def sane_row_def)
      show "moves_on E ids k (flow_retry E run_next (upd f))"
        by (rule goes_moves [OF retry_goes_on [OF E _ _ nxt]]) (use that f in \<open>simp_all add: active_def\<close>)
    qed
    show ?thesis unfolding timer_process_def Let_def
      by (intro steady_bind_moves [OF steady_get])
        (auto intro!: steady_then_moves steady_basic steady_success skip goes_moves [OF nxt] terminated change
          steady_moves [OF steady_answer(1)] steady_moves [OF steady_ok] split: option.split)
  qed
  show ?thesis unfolding todo_act_def
    using pause replenish failed timer steady_moves [OF steady_itsm_process [OF E(1) f(1)]] steady_moves [OF steady_pipeline_process]
      steady_moves [OF steady_answer(1)]
    by (cases "td_type td") auto
qed

text \<open>All kinds of flow are known.\<close>

definition known_ids :: "ticket_env \<Rightarrow> (nat \<times> flow_type) list \<Rightarrow> bool" where
  "known_ids E ids \<longleftrightarrow> (\<forall>ty\<in>snd ` set ids. known_type E ty)"

lemma ordered_known_ids: "ordered E ids k s \<Longrightarrow> known_ids E ids"
  by (simp add: ordered_def known_ids_def)

lemma active_known: "known_ids E ids \<Longrightarrow> active ids k f \<Longrightarrow> known_type E (fl_type f)"
  unfolding known_ids_def active_def by (metis image_eqI nth_mem snd_conv)

lemma yields_context:
  assumes "active ids k f"
  shows "yields E ids k (update_context E p f)"
proof -
  have save: "steady True E ids k (save_flow (flow_signal E) (fl_id f) (\<lambda>r. r\<lparr>fl_ack := a, fl_remark := b, fl_expire := c\<rparr>))" for a b c
    by (rule steady_save [OF quiet_True assms]) (simp add: sane_write_def sane_row_def)
  have "active ids k (f\<lparr>fl_remark := r\<rparr>)" for r using assms by (simp add: active_def)
  then show ?thesis unfolding update_context_def Let_def
    using assms save by (auto intro!: yields_ok steady_then_yields split: option.split)
qed

lemma steady_may_handle: "steady True E ids k (may_handle E' username td)"
  unfolding may_handle_def by (auto intro!: steady_rules steady_answer split: option.split)

lemma process_moves_on:
  assumes E: "env_ok E" "\<not> te_skip_itsm E" and k: "k < length ids" "td_flow td = fst (ids ! k)" and ids: "known_ids E ids"
    and nxt: "goes_on E ids k run_next"
  shows "moves_on E ids k (todo_process E run_next username action p td)"
proof -
  have act: "moves_on E ids k (todo_act E run_next username action p td f)" if "active ids k f" for f username
    using act_moves_on [OF E that active_known [OF ids that] nxt] .
  show ?thesis unfolding todo_process_def
    by (auto intro!: yields_moves [OF yields_by_id [OF k]] act steady_bind_moves [OF steady_may_handle]
        yields_moves [OF yields_context] steady_moves [OF steady_answer(1)])
qed

lemma process_terminates:
  assumes E: "env_ok E" and k: "k < length ids" "td_flow td = fst (ids ! k)"
  shows "steady True E ids k (todo_process E run_next username ACTION_TERMINATE p td)"
  unfolding todo_process_def
  by (auto intro!: yields_steady [OF yields_by_id [OF k]] steady_act_terminate [OF E] steady_bind [OF steady_may_handle]
      yields_steady [OF yields_context] steady_answer)

section \<open>Revocation keeps the order\<close>

lemma steady_todos:
  "(\<And>td. td \<in> set tds \<Longrightarrow> steady True E ids k (act td)) \<Longrightarrow> steady True E ids k (process_todos act tds)"
  by (induction tds) (auto intro!: steady_ok steady_then)

lemma revoke_moves_on:
  assumes E: "env_ok E" and f: "active ids k f" and ids: "known_ids E ids"
  shows "steady True E ids k (flow_revoke E run_next operator remark f)"
proof -
  have td: "steady True E ids k (todo_process E run_next operator ACTION_TERMINATE p td)" if "td_flow td = fl_id f" for td p
    by (rule process_terminates [OF E]) (use f that in \<open>auto simp: active_def prod_eq_iff\<close>)
  have "steady True E ids k (base_revoke E run_next operator remark f)"
  proof -
    have "steady True E ids k (process_todos (todo_process E run_next operator ACTION_TERMINATE p) (filter Q (todos_of (fl_id f) s)))" for p Q s
      by (rule steady_todos) (auto simp: todos_of_def intro: td)
    moreover have "fl_id g = fl_id f" if "active ids k g" for g using that f by (auto simp: active_def prod_eq_iff)
    moreover have "steady True E ids k (op_bind (op_get h) (process_todos act))" if "\<And>s. steady True E ids k (process_todos act (h s))" for h act
      using that unfolding steady_def by (auto simp: op_valid_def op_bind_def op_get_def)
    ultimately show ?thesis unfolding base_revoke_def
      by (intro yields_steady [OF yields_flush_revoke [OF f]]) simp
  qed
  moreover have "steady True E ids k (timer_revoke E run_next operator remark f)"
  proof -
    have "steady True E ids k (case first_of (todos_of (fl_id f) s) of None \<Rightarrow> op_raise AttributeError
       | Some td \<Rightarrow> todo_process E run_next operator ACTION_TERMINATE \<lparr>tp_remark = Some remark, tp_trigger_time = None\<rparr> td)" for s
      using td steady_answer(1)
      by (auto simp: first_of_def todos_of_def dest: filter_Cons_mem split: option.split list.splits)
    then show ?thesis unfolding timer_revoke_def steady_def by (auto simp: op_valid_def op_bind_def op_get_def)
  qed
  moreover have "steady True E ids k (op_bind (inner_revoke E operator remark f) (\<lambda>_. op_ok ()))"
    by (rule yields_steady [OF yields_inner_revoke [OF f] steady_ok])
  ultimately show ?thesis
    unfolding flow_revoke_def known_init [OF active_known [OF ids f]] ok_then by simp
qed

section \<open>Steps\<close>

text \<open>A flow is open when it was started and is not finished.\<close>

definition flow_opened :: "nat \<Rightarrow> ticket_state \<Rightarrow> bool" where
  "flow_opened i s \<longleftrightarrow> list_ex (\<lambda>f. fl_id f = i \<and> fl_status f \<notin> set FLOW_FINISHED_STATUS \<union> {FLOW_PENDING}) (tk_flows s)"

definition ticket_closed :: "ticket_state \<Rightarrow> bool" where
  "ticket_closed s \<longleftrightarrow> list_ex (\<lambda>f. fl_status f \<in> {FLOW_TERMINATED, FLOW_REVOKED}) (tk_flows s)"

text \<open>
  \<open>n\<close> is the fuel of \<open>run_next_flow\<close>. Todos, retries and revocations are those of an open flow; a
  ticket is revoked once; the retry of excluded flows finds open flows.
\<close>

inductive ticket_step :: "ticket_env \<Rightarrow> ticket_state \<Rightarrow> ticket_state \<Rightarrow> bool" for E where
  step_poll: "ticket_step E s (snd (flow_signal E s))"
| step_next: "ticket_step E s (snd (run_next_flow E n s))"
| step_callback: "ticket_step E s (snd (callback_ticket E (run_next_flow E n) rid s))"
| step_todo: "td \<in> set (tk_todos s) \<Longrightarrow> flow_opened (td_flow td) s \<Longrightarrow>
    ticket_step E s (snd (todo_process E (run_next_flow E n) username action p td s))"
| step_deliver: "ticket_step E s (snd (todo_deliver E username processors td s))"
| step_retry: "flow_opened i s \<Longrightarrow> ticket_step E s (snd (operate_flow (flow_retry E (run_next_flow E n)) i s))"
| step_revoke_flow: "flow_opened i s \<Longrightarrow>
    ticket_step E s (snd (operate_flow (flow_revoke E (run_next_flow E n) operator remark) i s))"
| step_revoke: "\<not> ticket_closed s \<Longrightarrow> ticket_step E s (snd (revoke_ticket E (run_next_flow E n) operator remark s))"
| step_excluded: "(\<And>f. f \<in> set (tk_flows s) \<Longrightarrow> fl_err_code f = Some AUTO_EXCLUSIVE_ERROR \<Longrightarrow> flow_opened (fl_id f) s) \<Longrightarrow>
    ticket_step E s (snd (retry_exclusive_inner_flow E s))"
| step_world: "tk_flows t = tk_flows s \<Longrightarrow> ticket_step E s t"

definition ticket_run :: "ticket_env \<Rightarrow> ticket_state \<Rightarrow> ticket_state \<Rightarrow> bool" where
  "ticket_run E = (ticket_step E)\<^sup>*\<^sup>*"

text \<open>The flows \<open>init_ticket_flows\<close> leaves: all wait.\<close>

definition new_ticket :: "ticket_env \<Rightarrow> ticket_state \<Rightarrow> bool" where
  "new_ticket E s \<longleftrightarrow> sorted_wrt (<) (map fl_id (tk_flows s)) \<and> list_all (\<lambda>f. waiting_row f \<and> known_type E (fl_type f)) (tk_flows s)"

definition flow_ids :: "ticket_state \<Rightarrow> (nat \<times> flow_type) list" where
  "flow_ids s = map (\<lambda>f. (fl_id f, fl_type f)) (tk_flows s)"

lemma new_ticket_ordered: "new_ticket E s \<Longrightarrow> ordered E (flow_ids s) 0 s"
  by (auto simp: new_ticket_def ordered_def flow_ids_def list_all_iff row_ok_def waiting_row_def sane_row_def
      FLOW_FINISHED_STATUS_def comp_def)

lemma moves_on_at: "moves_on E ids k m \<Longrightarrow> ordered E ids k s \<Longrightarrow> ordered_from E ids k (snd (m s))"
  using op_valid_at unfolding moves_on_def by (fastforce split: prod.splits sum.splits)

text \<open>The open flow is the active one.\<close>

lemma opened_active:
  assumes "flow_opened i s" and s: "ordered E ids k s"
  shows "k < length ids" and "i = fst (ids ! k)"
proof -
  from assms(1) obtain f where f: "f \<in> set (tk_flows s)" "fl_id f = i" "fl_status f \<notin> set FLOW_FINISHED_STATUS \<union> {FLOW_PENDING}"
    by (auto simp: flow_opened_def list_ex_iff)
  have len: "length (tk_flows s) = length ids" using s unfolding ordered_def by (metis length_map)
  with f(1) obtain j where j: "j < length ids" "f = tk_flows s ! j" by (auto simp: in_set_conv_nth)
  have "j = k" using ordered_nth(3) [OF s j(1)] f(3) j(2) by (cases j k rule: linorder_cases) (auto simp: row_ok_def waiting_row_def)
  then show "k < length ids" and "i = fst (ids ! k)" using j ordered_nth(1) [OF s j(1)] f(2) by simp_all
qed

lemma operate_moves:
  assumes "k < length ids" "i = fst (ids ! k)" and "\<And>f. active ids k f \<Longrightarrow> moves_on E ids k (func f)"
  shows "moves_on E ids k (operate_flow func i)"
  unfolding operate_flow_def by (rule yields_moves [OF yields_by_id [OF assms(1,2)] assms(3)])

lemma revoke_ticket_moves:
  assumes E: "env_ok E" and s: "ordered E ids k s" "\<not> ticket_closed s"
  shows "ordered_from E ids k (snd (revoke_ticket E run_next operator remark s))"
proof (cases "first_of (filter (\<lambda>f. fl_status f \<notin> set FLOW_FINISHED_STATUS \<union> {FLOW_TERMINATED, FLOW_REVOKED}) (tk_flows s))")
  case None
  then show ?thesis using s(1) by (simp add: revoke_ticket_def op_bind_def op_get_def op_ok_def ordered_fromI)
next
  case (Some f)
  have len: "length (tk_flows s) = length ids" using s(1) unfolding ordered_def by (metis length_map)
  from first_of_filter [OF Some] len obtain j where j: "j < length ids" "f = tk_flows s ! j" "fl_status f \<notin> set FLOW_FINISHED_STATUS"
    "\<forall>i<j. fl_status (tk_flows s ! i) \<in> set FLOW_FINISHED_STATUS \<union> {FLOW_TERMINATED, FLOW_REVOKED}" by auto
  then have before: "\<forall>i<j. fl_status (tk_flows s ! i) \<in> set FLOW_FINISHED_STATUS"
    using s(2) len by (fastforce simp: ticket_closed_def list_ex_iff)
  have kj: "k \<le> j" using ordered_nth(3) [OF s(1) j(1)] j(2,3) by (force simp: row_ok_def)
  have s': "ordered E ids j s"
  proof -
    have "row_ok j i (tk_flows s ! i)" if "i < length ids" for i
      using ordered_nth(3) [OF s(1) that] before kj by (auto simp: row_ok_def)
    then show ?thesis using s(1) j(1) by (simp add: ordered_def)
  qed
  have "moves_on E ids j (operate_flow (flow_revoke E run_next operator remark) (fl_id f))"
    by (rule operate_moves [OF j(1)])
      (use j(2) ordered_nth(1) [OF s' j(1)] in \<open>auto intro!: steady_moves revoke_moves_on [OF E] ordered_known_ids [OF s']\<close>)
  from ordered_from_mono [OF moves_on_at [OF this s'] kj] show ?thesis
    using Some by (simp add: revoke_ticket_def op_bind_def op_get_def)
qed

lemma current_flow_row:
  assumes s: "ordered E ids k s" and itsm: "\<not> te_skip_itsm E" and c: "current_flow E s = Some f"
  shows "k < length ids \<and> f = tk_flows s ! k \<or> 0 < k \<and> f = tk_flows s ! (k - 1)"
proof (cases "k < length ids")
  case True
  note cur = current_flow_cases [OF s True]
  show ?thesis
  proof (cases "fl_status (tk_flows s ! k) = FLOW_PENDING \<and> k = 0")
    case pending: True
    then have "current_flow E s = next_flow E s" using cur(3) by blast
    then have "next_flow E s = Some f" using c by simp
    with s itsm show ?thesis using pending by (cases rule: next_flow_cases) auto
  qed (use cur(1,2) c True in auto)
next
  case False
  have len: "length (tk_flows s) = length ids" and k: "k = length ids" using s False unfolding ordered_def by (metis length_map, simp)
  show ?thesis
  proof (cases "0 < k")
    case True
    then have j: "k - 1 < length (tk_flows s)" using k len by simp
    moreover have "fl_status (tk_flows s ! (k - 1)) \<noteq> FLOW_PENDING"
      using ordered_nth(3) [OF s, of "k - 1"] j len True by (auto simp: row_ok_def FLOW_FINISHED_STATUS_def)
    ultimately have "filter (\<lambda>f. fl_status f \<noteq> FLOW_PENDING) (tk_flows s) \<noteq> []"
      "last (filter (\<lambda>f. fl_status f \<noteq> FLOW_PENDING) (tk_flows s)) = tk_flows s ! (k - 1)"
      using last_filter_nth [of "k - 1" "tk_flows s" "\<lambda>f. fl_status f \<noteq> FLOW_PENDING"] k len by auto
    then show ?thesis using True c by (auto simp: current_flow_def split: list.splits)
  next
    case False
    then show ?thesis using k len c by (simp add: current_flow_def next_flow_def first_of_def)
  qed
qed

lemma callback_moves:
  assumes E: "env_ok E" "\<not> te_skip_itsm E" and s: "ordered E ids k s"
  shows "ordered_from E ids k (snd (callback_ticket E (run_next_flow E n) rid s))"
proof (cases "current_flow E s")
  case None
  then show ?thesis using s by (simp add: callback_ticket_def op_bind_def op_get_def op_raise_def ordered_fromI)
next
  case (Some f)
  let ?rest = "\<lambda>st. op_then (if st \<notin> {Some FLOW_PENDING, Some FLOW_RUNNING} then post_callback E f else op_ok ())
             (if fl_type f \<noteq> QUICK_INNER_FLOW \<and> fl_obj_id f = rid \<and> st \<in> Some ` set FLOW_FINISHED_STATUS
              then run_next_flow E n else op_ok ())"
  have hooks: "steady True E ids k (post_callback E f)"
    unfolding post_callback_def using E by (auto intro!: steady_raising steady_answer simp: env_ok_def)
  have "moves_on E ids k (?rest st)" for st
    by (intro steady_then_moves)
      (auto intro!: hooks goes_moves [OF run_next_goes_on [OF E]] steady_ok steady_moves [OF steady_ok])
  then have rest: "op_valid (ordered E ids k) (?rest st) (\<lambda>_. ordered_from E ids k) (\<lambda>_. ordered_from E ids k)" for st
    by (simp only: moves_on_def)
  have poll: "op_valid (\<lambda>t. t = s) (flow_status_of E (flow_signal E) f) (\<lambda>_. ordered E ids k) (\<lambda>_. ordered_from E ids k)"
    using current_flow_row [OF s E(2) Some]
  proof
    assume "k < length ids \<and> f = tk_flows s ! k"
    then show ?thesis using poll_active [OF s] by (auto elim!: op_valid_weaken intro: ordered_fromI)
  next
    assume "0 < k \<and> f = tk_flows s ! (k - 1)"
    moreover have "k \<le> length ids" using s by (simp add: ordered_def)
    ultimately show ?thesis using poll_finished [OF s, of "k - 1" "flow_signal E"] s by (auto simp: op_valid_def)
  qed
  have "op_valid (\<lambda>t. t = s) (op_bind (flow_status_of E (flow_signal E) f) ?rest) (\<lambda>_. ordered_from E ids k) (\<lambda>_. ordered_from E ids k)"
    by (rule op_valid_bind [OF poll rest])
  from op_valid_at [OF this refl]
  have "ordered_from E ids k (snd (op_bind (flow_status_of E (flow_signal E) f) ?rest s))"
    by (simp split: prod.splits sum.splits)
  then show ?thesis using Some by (simp add: callback_ticket_def op_bind_def op_get_def)
qed

text \<open>Every step keeps the order.\<close>

lemma step_moves:
  assumes E: "env_ok E" "\<not> te_skip_itsm E" and "ticket_step E s t" and s: "ordered E ids k s"
  shows "ordered_from E ids k t"
  using assms(3) s
proof cases
  case step_poll
  then show ?thesis using moves_on_at [OF steady_moves [OF steady_signal [OF quiet_True]] s] by simp
next
  case (step_next n)
  then show ?thesis using moves_on_at [OF goes_moves [OF run_next_goes_on [OF E]] s] by simp
next
  case (step_callback n rid)
  then show ?thesis using callback_moves [OF E s] by simp
next
  case (step_todo td n username action p)
  note k = opened_active [OF step_todo(3) s]
  then show ?thesis
    using moves_on_at [OF process_moves_on [OF E k ordered_known_ids [OF s] run_next_goes_on [OF E]] s] step_todo(1) by simp
next
  case (step_deliver username processors td)
  have "steady True E ids k (todo_deliver E username processors td)"
    unfolding todo_deliver_def Let_def by (auto intro!: steady_rules steady_answer steady_itsm_operate [OF E(1)])
  from moves_on_at [OF steady_moves [OF this] s] show ?thesis using step_deliver by simp
next
  case (step_retry i n)
  have "moves_on E ids k (operate_flow (flow_retry E (run_next_flow E n)) i)"
    using operate_moves [OF opened_active [OF step_retry(2) s]]
      goes_moves [OF retry_goes_on [OF E _ active_known [OF ordered_known_ids [OF s]] run_next_goes_on [OF E]]] by blast
  from moves_on_at [OF this s] show ?thesis using step_retry(1) by simp
next
  case (step_revoke_flow i n operator remark)
  have "moves_on E ids k (operate_flow (flow_revoke E (run_next_flow E n) operator remark) i)"
    using operate_moves [OF opened_active [OF step_revoke_flow(2) s]] steady_moves [OF revoke_moves_on [OF E(1) _ ordered_known_ids [OF s]]]
    by blast
  from moves_on_at [OF this s] show ?thesis using step_revoke_flow(1) by simp
next
  case (step_revoke n operator remark)
  then show ?thesis using revoke_ticket_moves [OF E(1) s] by simp
next
  case step_excluded
  let ?fs = "filter (\<lambda>f. fl_err_code f = Some AUTO_EXCLUSIVE_ERROR) (tk_flows s)"
  have act: "active ids k f" if "f \<in> set ?fs" for f
  proof -
    have f: "f \<in> set (tk_flows s)" "flow_opened (fl_id f) s" using that step_excluded(2) by auto
    note k = opened_active [OF f(2) s]
    obtain j where j: "j < length ids" "f = tk_flows s ! j" using f(1) ordered_nth(4) [OF s k(1)] by (auto simp: in_set_conv_nth)
    then have "j = k" using ids_nth_eq [OF s j(1) k(1)] ordered_nth(1) [OF s j(1)] k(2) by simp
    then show ?thesis using j ordered_nth(1,2) [OF s j(1)] by (simp add: active_def)
  qed
  have flush: "yields E ids k (flush_error_status_handler E f)" if "active ids k f" for f
    unfolding flush_error_status_handler_def Let_def
    by (intro steady_then_yields yields_ok steady_save [OF quiet_True that])
      (use that in \<open>simp_all add: sane_write_def sane_flush active_def\<close>)
  have "steady True E ids k (inner_retries E fs)" if "set fs \<subseteq> set ?fs" for fs
    using that
    by (induction fs)
      (auto intro!: steady_ok steady_then yields_steady [OF flush] steady_inner_run [OF E(1) quiet_True] act simp: inner_retry_def)
  from moves_on_at [OF steady_moves [OF this] s, of ?fs] show ?thesis
    using step_excluded(1) by (simp add: retry_exclusive_inner_flow_def op_bind_def op_get_def)
next
  case step_world
  then show ?thesis using ordered_rows [OF _ s] by (simp add: ordered_fromI)
qed

lemma run_moves:
  assumes E: "env_ok E" "\<not> te_skip_itsm E" and "ticket_run E s t" and s: "ordered E ids k s"
  shows "ordered_from E ids k t"
  using assms(3) unfolding ticket_run_def
proof (induction rule: rtranclp_induct)
  case base
  then show ?case using s by (rule ordered_fromI)
next
  case (step t u)
  then obtain j where j: "k \<le> j" "ordered E ids j t" by (auto simp: ordered_from_def)
  from ordered_from_mono [OF step_moves [OF E step(2) j(2)] j(1)] show ?case .
qed

end
