(* ===== verification/Ticket_Claims.thy ===== *)
theory Ticket_Claims
  imports Ticket_Life
begin

text \<open>
  What the life of a ticket promises: order, no start after a revocation, approvals and confirmations that hold
  the ticket, and who may handle a todo.
\<close>

section \<open>Quiet rows\<close>

text \<open>A quiet row is not polled further: finished, waiting, or revoked.\<close>

definition quiet_row :: "ticket_env \<Rightarrow> flow_row \<Rightarrow> bool" where
  "quiet_row E f \<longleftrightarrow> known_type E (fl_type f) \<and>
     (sane_row f \<and> fl_status f \<in> set FLOW_FINISHED_STATUS \<or> waiting_row f
      \<or> fl_type f \<notin> resource_types \<and> fl_status f \<in> {FLOW_TERMINATED, FLOW_REVOKED})"

lemma quiet_row_status:
  assumes "quiet_row E f"
  shows "flow_status_of E sig f s = (Inr (Some (fl_status f)), s)"
proof (cases "sane_row f \<and> fl_status f \<in> set FLOW_FINISHED_STATUS \<or> waiting_row f")
  case True
  then show ?thesis using quiet_flow_status [of E f sig s] assms by (auto simp: quiet_row_def)
next
  case False
  then have f: "known_type E (fl_type f)" "fl_type f \<notin> resource_types" "fl_status f \<in> {FLOW_TERMINATED, FLOW_REVOKED}"
    using assms by (auto simp: quiet_row_def)
  then show ?thesis unfolding flow_status_of_def known_init [OF f(1)] ok_then
    by (auto simp: base_flow_status_def op_ok_def FLOW_FINISHED_STATUS_def)
qed

lemma quiet_collect:
  "list_all (quiet_row E) fs \<Longrightarrow> collect_statuses E sig fs s = (Inr (map (\<lambda>f. (Some (fl_status f), f)) fs), s)"
  by (induction fs) (simp_all add: op_ok_def op_bind_def quiet_row_status)

text \<open>\<open>ticket_target\<close> is the status the ticket gets when no flow has to be polled.\<close>

definition ticket_target :: "ticket_state \<Rightarrow> ticket_status option" where
  "ticket_target s = target_status (map (\<lambda>f. (Some (fl_status f), f)) (tk_flows s))"

lemma quiet_signal:
  assumes "list_all (quiet_row E) (tk_flows s)"
  shows "flow_signal E s = (case ticket_target s of None \<Rightarrow> op_ok () | Some t \<Rightarrow> set_ticket_status E t) s"
  using quiet_collect [OF assms]
  by (simp add: flow_signal_def op_bind_def op_get_def ticket_target_def split: option.split)

lemma ordered_quiet:
  assumes s: "ordered E ids k s" and active: "k < length ids \<Longrightarrow> quiet_row E (tk_flows s ! k)"
  shows "list_all (quiet_row E) (tk_flows s)"
proof -
  have "quiet_row E (tk_flows s ! j)" if j: "j < length ids" for j
    using ordered_nth(3) [OF s j] ordered_known [OF s j] active j
    by (cases j k rule: linorder_cases) (auto simp: quiet_row_def row_ok_def)
  moreover have "length (tk_flows s) = length ids" using s unfolding ordered_def by (metis length_map)
  ultimately show ?thesis by (simp add: list_all_length)
qed

section \<open>Order\<close>

text \<open>The state of a ticket after any history is ordered.\<close>

definition history :: "ticket_env \<Rightarrow> ticket_state \<Rightarrow> bool" where
  "history E t \<longleftrightarrow> env_ok E \<and> \<not> te_skip_itsm E \<and> (\<exists>s. new_ticket E s \<and> ticket_run E s t)"

lemma history_ordered:
  assumes "history E t"
  obtains ids k where "ordered E ids k t" "env_ok E" "\<not> te_skip_itsm E"
proof -
  from assms obtain s where E: "env_ok E" "\<not> te_skip_itsm E" and s: "new_ticket E s" "ticket_run E s t"
    by (auto simp: history_def)
  from run_moves [OF E s(2) new_ticket_ordered [OF s(1)]] show ?thesis
    using that E by (auto simp: ordered_from_def)
qed

lemma ordered_finished:
  assumes s: "ordered E ids k s" and j: "j < length (tk_flows s)" "fl_status (tk_flows s ! j) \<in> set FLOW_FINISHED_STATUS"
  shows "ordered_from E ids (Suc j) s"
proof -
  have len: "length (tk_flows s) = length ids" using s unfolding ordered_def by (metis length_map)
  have jk: "j \<le> k" using ordered_nth(3) [OF s] j len by (force simp: row_ok_def waiting_row_def FLOW_FINISHED_STATUS_def)
  show ?thesis
  proof (cases "j = k")
    case True
    have "row_ok (Suc k) i (tk_flows s ! i)" if "i < length ids" for i
      using ordered_nth(3) [OF s that] j(2) True by (cases "i = k") (auto simp: row_ok_def)
    then have "ordered E ids (Suc k) s" using s j(1) len True by (simp add: ordered_def)
    then show ?thesis using True by (simp add: ordered_fromI)
  next
    case False
    then have "Suc j \<le> k" using jk by simp
    then show ?thesis using s by (auto simp: ordered_from_def)
  qed
qed

lemma run_in_order:
  assumes "env_ok E" and "\<not> te_skip_itsm E" and "new_ticket E s" and "ticket_run E s t"
    and "i < j" and "j < length (tk_flows t)" and "fl_status (tk_flows t ! j) \<noteq> FLOW_PENDING"
  shows "fl_status (tk_flows t ! i) \<in> set FLOW_FINISHED_STATUS"
proof -
  from run_moves [OF assms(1,2,4) new_ticket_ordered [OF assms(3)]] obtain k where k: "ordered E (flow_ids s) k t"
    by (auto simp: ordered_from_def)
  have len: "length (tk_flows t) = length (flow_ids s)" using k unfolding ordered_def by (metis length_map)
  have "j \<le> k" using ordered_nth(3) [OF k, of j] assms(6,7) len by (force simp: row_ok_def waiting_row_def)
  then show ?thesis using ordered_nth(3) [OF k, of i] assms(5,6) len by (simp add: row_ok_def)
qed

lemma finished_stays:
  assumes E: "env_ok E" "\<not> te_skip_itsm E" and s: "new_ticket E s" "ticket_run E s t" and u: "ticket_run E t u"
    and j: "j < length (tk_flows t)" "fl_status (tk_flows t ! j) \<in> set FLOW_FINISHED_STATUS"
  shows "fl_status (tk_flows u ! j) \<in> set FLOW_FINISHED_STATUS"
proof -
  from run_moves [OF E s(2) new_ticket_ordered [OF s(1)]] obtain k where "ordered E (flow_ids s) k t"
    by (auto simp: ordered_from_def)
  from ordered_finished [OF this j] obtain k' where k': "Suc j \<le> k'" "ordered E (flow_ids s) k' t" by (auto simp: ordered_from_def)
  from run_moves [OF E u k'(2)] obtain m where m: "k' \<le> m" "ordered E (flow_ids s) m u" by (auto simp: ordered_from_def)
  have "j < length (flow_ids s)" using k' m(2) by (simp add: ordered_def)
  then show ?thesis using ordered_nth(3) [OF m(2), of j] k'(1) m(1) by (simp add: row_ok_def)
qed

section \<open>Flows that hold the ticket\<close>

text \<open>If polling the active flow changes nothing and it is not finished, no flow is started.\<close>

lemma held_ticket:
  assumes s: "ordered E ids k s" and itsm: "\<not> te_skip_itsm E" and f: "f \<in> set (tk_flows s)"
    and open_f: "fl_status f \<notin> set FLOW_FINISHED_STATUS \<union> {FLOW_PENDING}"
    and poll: "flow_status_of E (flow_signal E) f s = (Inr st, s)" "st \<notin> Some ` set FLOW_FINISHED_STATUS"
  shows "run_next_flow E (Suc n) s = (Inr (), s)"
proof -
  have "flow_opened (fl_id f) s" using f open_f by (auto simp: flow_opened_def list_ex_iff)
  note k = opened_active [OF this s]
  obtain j where j: "j < length ids" "f = tk_flows s ! j" using f ordered_nth(4) [OF s k(1)] by (auto simp: in_set_conv_nth)
  then have fk: "f = tk_flows s ! k" using ids_nth_eq [OF s j(1) k(1)] ordered_nth(1) [OF s j(1)] k(2) by simp
  then have p: "fl_status (tk_flows s ! k) \<noteq> FLOW_PENDING" using open_f by auto
  show ?thesis
  proof (cases "next_flow E s")
    case (Some nxt)
    from s itsm Some have nk: "Suc k < length ids \<and> nxt = tk_flows s ! Suc k"
      using p by (cases rule: next_flow_cases) auto
    have c: "current_flow E s = Some (tk_flows s ! k)" using current_flow_cases(1) [OF s k(1) p] .
    have "fl_id (tk_flows s ! Suc k) \<noteq> fl_id (hd (tk_flows s))"
    proof -
      have "hd (tk_flows s) = tk_flows s ! 0" using ordered_nth(4) [OF s k(1)] k(1) by (intro hd_conv_nth) auto
      then show ?thesis using finished_before_ids [OF s, of 0 "Suc k"] nk by simp
    qed
    then show ?thesis
      using Some c nk poll fk finished_before_ids [OF s, of k "Suc k"] by (simp add: start_next_def op_bind_def op_ok_def)
  qed simp
qed

lemma revoked_holds:
  assumes "history E t" and f: "f \<in> set (tk_flows t)" "fl_status f \<in> {FLOW_TERMINATED, FLOW_REVOKED}" "fl_type f \<notin> resource_types"
  shows "run_next_flow E (Suc n) t = (Inr (), t)"
proof -
  from assms(1) obtain ids k where t: "ordered E ids k t" "env_ok E" "\<not> te_skip_itsm E" by (rule history_ordered)
  have len: "length (tk_flows t) = length ids" using t(1) unfolding ordered_def by (metis length_map)
  have "known_type E (fl_type f)" using f(1) ordered_known [OF t(1)] len by (auto simp: in_set_conv_nth)
  then have "quiet_row E f" using f by (simp add: quiet_row_def)
  from held_ticket [OF t(1,3) f(1) _ quiet_row_status [OF this]] show ?thesis using f(2) by (auto simp: FLOW_FINISHED_STATUS_def)
qed

lemma approval_holds:
  assumes "history E t" and f: "f \<in> set (tk_flows t)" "fl_status f = FLOW_RUNNING" "\<not> fl_failed f"
    and g: "fl_type f = PAUSE \<and> exist_unfinished t
      \<or> fl_type f = BK_ITSM \<and> (\<exists>r. tk_itsm t (fl_obj_id f) = Some r \<and> itsm_current r = ITSM_RUNNING)"
  shows "run_next_flow E (Suc n) t = (Inr (), t)"
proof -
  from assms(1) obtain ids k where t: "ordered E ids k t" "env_ok E" "\<not> te_skip_itsm E" by (rule history_ordered)
  have "flow_status_of E (flow_signal E) f t = (Inr (Some FLOW_RUNNING), t)"
    using f(2,3) g
    by (auto simp: flow_status_of_def flow_init_def op_then_def op_bind_def resource_types_def base_flow_status_def class_status_def
        pause_flow_status_def itsm_flow_status_def flow_update_status_def op_get_def op_ok_def FLOW_FINISHED_STATUS_def)
  from held_ticket [OF t(1,3) f(1) _ this] show ?thesis using f(2) by (auto simp: FLOW_FINISHED_STATUS_def)
qed

section \<open>The status of the ticket\<close>

lemma all_finished_succeeds:
  assumes "history E t" and fin: "list_all (\<lambda>f. fl_status f \<in> set FLOW_FINISHED_STATUS) (tk_flows t)"
  shows "flow_signal E t = set_ticket_status E TICKET_SUCCEEDED t"
proof -
  from assms(1) obtain ids k where t: "ordered E ids k t" by (rule history_ordered)
  have "k < length ids \<Longrightarrow> quiet_row E (tk_flows t ! k)"
    using ordered_nth(3,4) [OF t] ordered_known [OF t] fin by (auto simp: quiet_row_def row_ok_def list_all_length)
  from quiet_signal [OF ordered_quiet [OF t this]]
  have sig: "flow_signal E t = (case ticket_target t of None \<Rightarrow> op_ok () | Some v \<Rightarrow> set_ticket_status E v) t" .
  let ?xs = "map (\<lambda>f. (Some (fl_status f), f)) (tk_flows t)"
  have st: "fst ` set ?xs \<subseteq> Some ` set FLOW_FINISHED_STATUS" using fin by (auto simp: list_all_iff)
  then have "Some v \<notin> fst ` set ?xs" if "v \<notin> set FLOW_FINISHED_STATUS" for v using that by auto
  then have "Some FLOW_TERMINATED \<notin> fst ` set ?xs" "Some FLOW_FAILED \<notin> fst ` set ?xs" "Some FLOW_REVOKED \<notin> fst ` set ?xs"
    "Some FLOW_RUNNING \<notin> fst ` set ?xs" by (simp_all add: FLOW_FINISHED_STATUS_def)
  moreover from this(4) have "map_of (rev ?xs) (Some FLOW_RUNNING) = None" by (simp add: map_of_eq_None_iff)
  ultimately have "ticket_target t = Some TICKET_SUCCEEDED"
    using st unfolding ticket_target_def target_status_def Let_def set_map by simp
  with sig show ?thesis by simp
qed

section \<open>Who may handle a todo\<close>

definition may_process :: "ticket_env \<Rightarrow> string \<Rightarrow> todo_row \<Rightarrow> bool" where
  "may_process E username td \<longleftrightarrow> username = DEFAULT_SYSTEM_USER \<or> username \<in> set (td_operators td @ td_helpers td)
     \<or> td_type td = TODO_ITSM \<and> username = te_creator E
     \<or> td_type td \<noteq> TODO_APPROVE \<and> te_superuser E username = Some True"

lemma refused_todo:
  assumes "\<not> todo_open td \<or> \<not> may_process E username td"
  shows "\<exists>e. todo_process E run_next username action p td s = (Inl e, s)"
proof -
  have may: "\<exists>e. op_bind (may_handle E username td) (\<lambda>ok. if \<not> ok then op_raise TodoWrongOperator
      else op_bind (update_context E p f) (todo_act E run_next username action p td)) s = (Inl e, s)"
    if "\<not> may_process E username td" for f
    using that by (auto simp: may_handle_def may_process_def op_bind_def op_ok_def op_raise_def split: option.split)
  show ?thesis
  proof (cases "td_type td \<in> actor_types \<and> (\<exists>f. flow_by_id (td_flow td) s = (Inr f, s))")
    case False
    then show ?thesis
      by (auto simp: todo_process_def op_bind_def op_raise_def flow_by_id_def split: list.splits)
  next
    case True
    then obtain f where f: "td_type td \<in> actor_types" "flow_by_id (td_flow td) s = (Inr f, s)" by blast
    show ?thesis
    proof (cases "todo_open td")
      case False
      then show ?thesis using f by (simp add: todo_process_def op_bind_def op_raise_def)
    next
      case o: True
      then have n: "\<not> may_process E username td" using assms by blast
      then have u: "(username = DEFAULT_SYSTEM_USER) = False" "(td_type td = TODO_ITSM \<and> username = te_creator E \<and> todo_open td) = False"
        by (auto simp: may_process_def)
      have "todo_process E run_next username action p td s = op_bind (may_handle E username td) (\<lambda>ok. if \<not> ok then op_raise TodoWrongOperator
          else op_bind (update_context E p f) (todo_act E run_next username action p td)) s"
        unfolding todo_process_def u using f o by (simp add: op_bind_def)
      then show ?thesis using may [OF n, of f] by simp
    qed
  qed
qed

section \<open>Revoking a task flow ends the ticket\<close>

text \<open>Saving the active flow as terminated makes the signal terminate the ticket, and poll nothing.\<close>

lemma flow_by_id_active:
  assumes s: "ordered E ids k s" and f: "f \<in> set (tk_flows s)"
  shows "flow_by_id (fl_id f) s = (Inr f, s)"
proof -
  have "distinct (map fl_id xs) \<Longrightarrow> f \<in> set xs \<Longrightarrow> filter (\<lambda>r. fl_id r = fl_id f) xs = [f]" for xs
    by (induction xs) (auto simp: filter_empty_conv image_iff)
  then show ?thesis using f ordered_distinct [OF s] by (simp add: flow_by_id_def)
qed

lemma terminate_signal:
  assumes s: "ordered E ids k s" and f: "f \<in> set (tk_flows s)" "fl_status f \<notin> set FLOW_FINISHED_STATUS \<union> {FLOW_PENDING}"
    and ty: "fl_type f \<notin> resource_types"
    and upd: "\<And>r. fl_id (upd r) = fl_id r \<and> fl_type (upd r) = fl_type r \<and> fl_status (upd r) = FLOW_TERMINATED"
  shows "flow_signal E (update_rows (fl_id f) upd s) = set_ticket_status E TICKET_TERMINATED (update_rows (fl_id f) upd s)"
proof -
  have "flow_opened (fl_id f) s" using f by (auto simp: flow_opened_def list_ex_iff)
  note k = opened_active [OF this s]
  let ?s = "update_rows (fl_id f) upd s"
  have sane: "sane_row (upd r)" for r using upd [of r] by (simp add: sane_row_def FLOW_FINISHED_STATUS_def)
  have only: "j = k" if "j < length ids" "fst (ids ! j) = fl_id f" for j using ids_nth_eq [OF s that(1) k(1)] that(2) k(2) by simp
  have o: "ordered E ids k ?s"
  proof (rule ordered_update [OF s])
    show "k \<le> length ids" using k(1) by simp
    fix j assume j: "j < length ids"
    show "row_ok k j (tk_flows s ! j)" by (rule ordered_nth(3) [OF s j])
    assume e: "fst (ids ! j) = fl_id f"
    then have "j = k" using only j by blast
    then show "fl_id (upd (tk_flows s ! j)) = fl_id f \<and> fl_type (upd (tk_flows s ! j)) = fl_type (tk_flows s ! j) \<and> row_ok k j (upd (tk_flows s ! j))"
      using upd sane ordered_nth(1) [OF s j] e by (simp add: row_ok_def)
  qed
  have row: "tk_flows ?s ! k = upd (tk_flows s ! k)"
    using k ordered_nth(1,4) [OF s k(1)] by (simp add: update_rows_def)
  have fk: "tk_flows s ! k = f"
  proof -
    obtain j where j: "j < length ids" "f = tk_flows s ! j" using f(1) ordered_nth(4) [OF s k(1)] by (auto simp: in_set_conv_nth)
    then show ?thesis using only [OF j(1)] ordered_nth(1) [OF s j(1)] by simp
  qed
  have "quiet_row E (tk_flows ?s ! k)"
    using row fk upd [of f] ty ordered_known [OF o k(1)] by (simp add: quiet_row_def)
  from quiet_signal [OF ordered_quiet [OF o this]]
  have sig: "flow_signal E ?s = (case ticket_target ?s of None \<Rightarrow> op_ok () | Some v \<Rightarrow> set_ticket_status E v) ?s" .
  have "k < length (tk_flows ?s)" using ordered_nth(4) [OF o k(1)] k(1) by simp
  then have "tk_flows ?s ! k \<in> set (tk_flows ?s)" by (rule nth_mem)
  then have "Some FLOW_TERMINATED \<in> (\<lambda>f. Some (fl_status f)) ` set (tk_flows ?s)"
    by (rule image_eqI [rotated]) (simp add: row upd)
  then have "ticket_target ?s = Some TICKET_TERMINATED" by (simp add: ticket_target_def target_status_def image_image)
  with sig show ?thesis by simp
qed

lemma revoke_ends:
  assumes "history E t" and f: "f \<in> set (tk_flows t)" "fl_status f \<notin> set FLOW_FINISHED_STATUS \<union> {FLOW_PENDING}"
    and ty: "fl_type f \<in> inner_types"
    and u: "u = snd (operate_flow (flow_revoke E run_next operator remark) (fl_id f) t)"
  shows "tk_status u = TICKET_TERMINATED \<and> (\<forall>td\<in>set (tk_todos u). td_flow td = fl_id f \<longrightarrow> td_status td \<noteq> TODO_OPEN)
    \<and> (\<forall>g\<in>set (tk_flows u). fl_id g = fl_id f \<longrightarrow> fl_status g = FLOW_TERMINATED)"
proof -
  from assms(1) obtain ids k where t: "ordered E ids k t" "env_ok E" "\<not> te_skip_itsm E" by (rule history_ordered)
  have nr: "fl_type f \<notin> resource_types" using ty by (auto simp: inner_types_def resource_types_def)
  have len: "length (tk_flows t) = length ids" using t(1) unfolding ordered_def by (metis length_map)
  then have known: "known_type E (fl_type f)" using f(1) ordered_known [OF t(1)] by (auto simp: in_set_conv_nth)
  define g where "g = (let f = f\<lparr>fl_status := FLOW_TERMINATED, fl_remark := remark\<rparr>
      in if operator = DEFAULT_SYSTEM_USER
         then f\<lparr>fl_err_code := Some SYSTEM_TERMINATED_ERROR, fl_expire := Some (get_current_config_expire_time E f)\<rparr>
         else f\<lparr>fl_err_code := Some GENERAL_ERROR\<rparr>)"
  have g: "fl_id g = fl_id f" "fl_status g = FLOW_TERMINATED" "fl_obj_id g = fl_obj_id f" "fl_build_task g = fl_build_task f"
    by (simp_all add: g_def Let_def)
  let ?upd = "\<lambda>r. r\<lparr>fl_status := fl_status g, fl_err_code := fl_err_code g, fl_ack := fl_ack g, fl_remark := fl_remark g, fl_expire := fl_expire g\<rparr>"
  define s where "s = snd (set_ticket_status E TICKET_TERMINATED (update_rows (fl_id f) ?upd t))"
  have sig: "flow_signal E (update_rows (fl_id f) ?upd t) = (Inr (), s)"
    using terminate_signal [OF t(1) f nr, of ?upd] g by (simp add: s_def set_ticket_status_def op_change_def)
  have s: "tk_status s = TICKET_TERMINATED" "tk_flows s = tk_flows (update_rows (fl_id f) ?upd t)"
    by (simp_all add: s_def set_ticket_status_def op_change_def)
  have flush: "flush_revoke_status_handler E operator remark f t = (Inr g, s\<lparr>tk_updater := operator\<rparr>)"
  proof -
    have "flush_revoke_status_handler E operator remark f = op_then (save_flow (flow_signal E) (fl_id g) ?upd)
        (op_then (op_change (\<lambda>s. s\<lparr>tk_updater := operator\<rparr>)) (op_ok g))"
      by (cases "operator = DEFAULT_SYSTEM_USER") (simp_all add: flush_revoke_status_handler_def Let_def g_def)
    then show ?thesis using sig g(1) by (simp add: save_flow_def op_then_def op_bind_def op_change_def op_ok_def)
  qed
  define v where "v = s\<lparr>tk_updater := operator, tk_todos := map (\<lambda>td. if td_flow td = fl_id f \<and> td_status td = TODO_OPEN
                then td\<lparr>td_status := DONE_FAILED, td_done_by := operator\<rparr> else td) (tk_todos s)\<rparr>"
  let ?close = "op_change (\<lambda>s. s\<lparr>tk_todos := map (\<lambda>td. if td_flow td = fl_id g \<and> td_status td = TODO_OPEN
                then td\<lparr>td_status := DONE_FAILED, td_done_by := operator\<rparr> else td) (tk_todos s)\<rparr>)"
  let ?stop = "op_bind (op_get (\<lambda>s. tk_trees s (fl_obj_id g) \<noteq> None)) (\<lambda>exists.
         if exists then revoke_pipeline E (fl_obj_id g)
         else if fl_build_task g \<noteq> [] then send_task (RevokeTask (fl_build_task g)) else op_ok ())"
  have close: "?close (s\<lparr>tk_updater := operator\<rparr>) = (Inr (), v)" by (simp add: v_def op_change_def g)
  obtain x w where stop: "?stop v = (x, w)" by force
  then have w: "tk_status w = tk_status v \<and> tk_todos w = tk_todos v \<and> tk_flows w = tk_flows v"
    by (auto simp: op_bind_def op_get_def revoke_pipeline_def send_task_def op_change_def op_ok_def split: if_splits option.splits)
  have "snd (inner_revoke E operator remark f t) = w"
    unfolding inner_revoke_def op_then_def op_bind_def [of "flush_revoke_status_handler E operator remark f"] flush prod.case sum.case
    unfolding op_bind_def [of ?close] close prod.case sum.case
    unfolding op_bind_def [of ?stop] stop by (simp add: op_ok_def split: sum.split)
  then have "snd (operate_flow (flow_revoke E run_next operator remark) (fl_id f) t) = w"
  proof -
    have "flow_revoke E run_next operator remark f = op_bind (inner_revoke E operator remark f) (\<lambda>_. op_ok ())"
      using ty by (simp add: flow_revoke_def known_init [OF known] ok_then)
    with \<open>snd (inner_revoke E operator remark f t) = w\<close> show ?thesis
      by (auto simp: operate_flow_def op_bind_def flow_by_id_active [OF t(1) f(1)] op_ok_def split: prod.split sum.split)
  qed
  with w have "tk_status u = tk_status v \<and> tk_todos u = tk_todos v \<and> tk_flows u = tk_flows v" by (simp add: u)
  then have "tk_status u = tk_status v" "tk_todos u = tk_todos v" "tk_flows u = tk_flows v" by simp_all
  then show ?thesis using s g by (auto simp: v_def update_rows_def)
qed

section \<open>Resource flows\<close>

lemma due_ordered:
  assumes s: "ordered E ids k s" and f: "f \<in> set (tk_flows s)" "fl_status f \<notin> set FLOW_FINISHED_STATUS"
    and before: "\<forall>g\<in>set (tk_flows s). fl_id g < fl_id f \<longrightarrow> fl_status g \<in> set FLOW_FINISHED_STATUS"
  shows "\<exists>j. ordered E ids j s \<and> active ids j f"
proof -
  have len: "length (tk_flows s) = length ids" using s unfolding ordered_def by (metis length_map)
  with f(1) obtain j where j: "j < length ids" "f = tk_flows s ! j" by (auto simp: in_set_conv_nth)
  have kj: "k \<le> j" using ordered_nth(3) [OF s j(1)] f(2) j(2) by (force simp: row_ok_def)
  have "row_ok j i (tk_flows s ! i)" if i: "i < length ids" for i
  proof -
    have "fl_status (tk_flows s ! i) \<in> set FLOW_FINISHED_STATUS" if "i < j"
      using before finished_before_ids [OF s that j(1)] j(2) i len by simp
    then show ?thesis using ordered_nth(3) [OF s i] kj by (auto simp: row_ok_def)
  qed
  then have "ordered E ids j s" using s j(1) by (simp add: ordered_def)
  moreover have "active ids j f" using ordered_nth(1,2) [OF s j(1)] j by (simp add: active_def)
  ultimately show ?thesis by blast
qed

lemma resource_contained:
  assumes "history E t" and f: "f \<in> set (tk_flows t)" "fl_type f \<in> resource_types" "fl_status f \<notin> set FLOW_FINISHED_STATUS"
    and "\<forall>g\<in>set (tk_flows t). fl_id g < fl_id f \<longrightarrow> fl_status g \<in> set FLOW_FINISHED_STATUS"
  shows "\<exists>u. resource_run E (run_next_flow E n) f t = (Inr (), u)"
proof -
  from assms(1) obtain ids k where t: "ordered E ids k t" "env_ok E" "\<not> te_skip_itsm E" by (rule history_ordered)
  from due_ordered [OF t(1) f(1,3) assms(5)] obtain j where j: "ordered E ids j t" "active ids j f" by blast
  from op_valid_at [OF resource_run_goes_on [OF t(2,3) j(2) f(2) run_next_goes_on [OF t(2,3), where n = n]] j(1)]
  show ?thesis by (auto split: prod.splits sum.splits)
qed

end
