(* ===== verification/Ticket_Config.thy ===== *)
theory Ticket_Config
  imports Ticket_Life
begin

text \<open>
  Which flows a ticket gets: the table of flow configurations (\<open>TicketFlowsConfig\<close>), its lookup, the checks of
  \<open>TicketHandler\<close> before a configuration is created or updated, and \<open>init_ticket_flows\<close>.
\<close>

section \<open>Configurations\<close>

text \<open>
  A row; of the JSON column \<open>cluster_ids\<close> the ids, of \<open>cluster_tags\<close> the pairs of key and value, of \<open>configs\<close>
  the keys \<open>need_itsm\<close>, \<open>need_manual_confirm\<close> and \<open>expire_config\<close>, which may be absent.
\<close>

record flow_config =
  fc_id :: nat
  fc_biz :: nat
  fc_clusters :: "nat list"
  fc_tags :: "(string option \<times> string option) list"
  fc_ticket_type :: string
  fc_editable :: bool
  fc_itsm :: "bool option"
  fc_manual :: "bool option"
  fc_expire :: "(string \<times> int) list option"
  fc_update :: int

definition PLAT_BIZ_ID :: nat where "PLAT_BIZ_ID = 0"

text \<open>The value that stands for any tag value, in UTF-8.\<close>

definition CLUSTER_TAG_WILDCARD_VALUE :: string where
  "CLUSTER_TAG_WILDCARD_VALUE = map char_of [228, 187, 187, 230, 132, 143, 229, 128, 188 :: nat]"

definition config_get :: "(flow_config \<Rightarrow> bool) \<Rightarrow> flow_config list \<Rightarrow> flow_config result" where
  "config_get P db = (case filter P db of [] \<Rightarrow> Inl DoesNotExist | [c] \<Rightarrow> Inr c | _ \<Rightarrow> Inl MultipleObjects)"

definition is_default :: "flow_config \<Rightarrow> bool" where
  "is_default c \<longleftrightarrow> fc_clusters c = [] \<and> fc_tags c = []"

text \<open>\<open>order_by("-update_at")\<close>.\<close>

definition by_newest :: "flow_config list \<Rightarrow> flow_config list" where
  "by_newest = sort_key (\<lambda>c. - fc_update c)"

definition with_global_manual_confirm :: "flow_config \<Rightarrow> flow_config \<Rightarrow> flow_config" where
  "with_global_manual_confirm global_cfg c = c\<lparr>fc_manual := fc_manual global_cfg\<rparr>"

text \<open>The complete pairs of a tag configuration; the pairs of one key are alternatives.\<close>

definition tag_cfg_rules :: "flow_config \<Rightarrow> (string \<times> string) list" where
  "tag_cfg_rules c = concat (map (\<lambda>(k, v). case (k, v) of (Some k, Some v) \<Rightarrow> [(k, v)] | _ \<Rightarrow> []) (fc_tags c))"

definition match_tag_rules :: "(string \<times> string) list \<Rightarrow> (string \<times> string) list \<Rightarrow> bool" where
  "match_tag_rules cluster_tags rules = list_all (\<lambda>k.
     (k, CLUSTER_TAG_WILDCARD_VALUE) \<in> set rules \<and> k \<in> set (map fst cluster_tags)
     \<or> list_ex (\<lambda>(k', v). k' = k \<and> (k, v) \<in> set rules) cluster_tags) (map fst rules)"

text \<open>\<open>tags\<close> are the tags of the clusters.\<close>

definition get_matched_tag_cfg :: "(nat \<Rightarrow> (string \<times> string) list) \<Rightarrow> flow_config list \<Rightarrow> nat \<Rightarrow> flow_config option" where
  "get_matched_tag_cfg tags cfgs i =
     find (\<lambda>c. tag_cfg_rules c \<noteq> [] \<and> match_tag_rules (tags i) (tag_cfg_rules c)) cfgs"

definition get_matched_cluster_cfg :: "flow_config list \<Rightarrow> nat \<Rightarrow> flow_config option" where
  "get_matched_cluster_cfg cfgs i = find (\<lambda>c. i \<in> set (fc_clusters c)) cfgs"

definition get_cluster_configs ::
  "(nat \<Rightarrow> (string \<times> string) list) \<Rightarrow> flow_config list \<Rightarrow> string \<Rightarrow> nat \<Rightarrow> nat list \<Rightarrow> flow_config list result" where
  "get_cluster_configs tags db ticket_type biz cluster_ids =
     (case config_get (\<lambda>c. fc_biz c = PLAT_BIZ_ID \<and> fc_ticket_type c = ticket_type) db of
        Inl e \<Rightarrow> Inl e
      | Inr global_cfg \<Rightarrow>
          let biz_configs = filter (\<lambda>c. fc_biz c = biz \<and> fc_ticket_type c = ticket_type) db;
              biz_cfg = (case filter is_default biz_configs of [] \<Rightarrow> global_cfg | c # _ \<Rightarrow> c);
              cluster_configs = by_newest (filter (\<lambda>c. fc_clusters c \<noteq> []) biz_configs);
              tag_configs = by_newest (filter (\<lambda>c. fc_tags c \<noteq> []) biz_configs)
          in if cluster_ids = [] then Inr [with_global_manual_confirm global_cfg biz_cfg]
             else Inr (map (\<lambda>i. with_global_manual_confirm global_cfg
                    (case get_matched_cluster_cfg cluster_configs i of
                       Some c \<Rightarrow> c
                     | None \<Rightarrow> (case get_matched_tag_cfg tags tag_configs i of Some c \<Rightarrow> c | None \<Rightarrow> biz_cfg))) cluster_ids))"

section \<open>Checks\<close>

definition check_editable_configs :: "flow_config list \<Rightarrow> unit result" where
  "check_editable_configs cfgs = (if list_ex (\<lambda>c. \<not> fc_editable c) cfgs then Inl UserError else Inr ())"

definition check_cluster_repeat :: "flow_config list \<Rightarrow> nat \<Rightarrow> nat list \<Rightarrow> string \<Rightarrow> nat option \<Rightarrow> (nat \<times> bool) list" where
  "check_cluster_repeat db biz cluster_ids ticket_type config_id =
     (if cluster_ids = [] then []
      else let existed = concat (map fc_clusters (filter (\<lambda>c. fc_biz c = biz \<and> fc_ticket_type c = ticket_type
                           \<and> fc_clusters c \<noteq> [] \<and> config_id \<noteq> Some (fc_id c)) db))
           in map (\<lambda>i. (i, i \<in> set existed)) cluster_ids)"

definition is_tag_scope_overlap :: "(string option \<times> string option) list \<Rightarrow> (string option \<times> string option) list \<Rightarrow> bool" where
  "is_tag_scope_overlap left right =
     (let common = filter (\<lambda>k. k \<in> set (map fst right)) (map fst left)
      in common \<noteq> [] \<and> list_all (\<lambda>k. (k, Some CLUSTER_TAG_WILDCARD_VALUE) \<in> set right
           \<or> list_ex (\<lambda>(k', v). k' = k \<and> (k, v) \<in> set right) left) common)"

definition check_cluster_tag_repeat ::
  "flow_config list \<Rightarrow> nat \<Rightarrow> (string option \<times> string option) list \<Rightarrow> string \<Rightarrow> nat option
     \<Rightarrow> ((string option \<times> string option) \<times> bool) list" where
  "check_cluster_tag_repeat db biz cluster_tags ticket_type config_id =
     (if cluster_tags = [] then []
      else let cfgs = filter (\<lambda>c. fc_biz c = biz \<and> fc_ticket_type c = ticket_type \<and> fc_tags c \<noteq> []
                        \<and> config_id \<noteq> Some (fc_id c)) db
           in map (\<lambda>tag. (tag, list_ex (\<lambda>c. is_tag_scope_overlap cluster_tags (fc_tags c)
                \<and> fst tag \<in> set (map fst (fc_tags c))
                \<and> ((fst tag, Some CLUSTER_TAG_WILDCARD_VALUE) \<in> set (fc_tags c) \<or> tag \<in> set (fc_tags c))) cfgs)) cluster_tags)"

section \<open>Creating and updating\<close>

text \<open>What a request asks for, and the checks for one kind of ticket in their order.\<close>

record config_request =
  rq_biz :: nat
  rq_clusters :: "nat list"
  rq_tags :: "(string option \<times> string option) list"
  rq_types :: "string list"
  rq_itsm :: "bool option"
  rq_manual :: "bool option"
  rq_expire :: "(string \<times> int) list option"

definition check_create_config :: "flow_config list \<Rightarrow> config_request \<Rightarrow> string \<Rightarrow> unit result" where
  "check_create_config db rq ty =
     (if rq_biz rq = 0 then Inl UserError
      else case config_get (\<lambda>c. fc_biz c = 0 \<and> fc_ticket_type c = ty) db of
        Inl e \<Rightarrow> Inl e
      | Inr global_cfg \<Rightarrow>
        (case check_editable_configs (filter (\<lambda>c. fc_biz c \<in> {PLAT_BIZ_ID, rq_biz rq} \<and> fc_ticket_type c = ty) db) of
           Inl e \<Rightarrow> Inl e
         | Inr _ \<Rightarrow>
             if rq_manual rq = Some True \<and> rq_manual rq \<noteq> fc_manual global_cfg then Inl UserError
             else if list_ex (\<lambda>c. fc_biz c = rq_biz rq \<and> fc_ticket_type c = ty \<and> is_default c) db
                  \<and> rq_clusters rq = [] \<and> rq_tags rq = [] then Inl UserError
             else if list_ex snd (check_cluster_repeat db (rq_biz rq) (rq_clusters rq) ty None) then Inl UserError
             else if list_ex snd (check_cluster_tag_repeat db (rq_biz rq) (rq_tags rq) ty None) then Inl UserError
             else Inr ()))"

primrec check_types :: "flow_config list \<Rightarrow> config_request \<Rightarrow> string list \<Rightarrow> unit result" where
  "check_types db rq [] = Inr ()"
| "check_types db rq (ty # tys) = (case check_create_config db rq ty of Inl e \<Rightarrow> Inl e | Inr _ \<Rightarrow> check_types db rq tys)"

definition new_config :: "config_request \<Rightarrow> int \<Rightarrow> nat \<times> string \<Rightarrow> flow_config" where
  "new_config rq now = (\<lambda>(i, ty). \<lparr>fc_id = i, fc_biz = rq_biz rq, fc_clusters = rq_clusters rq, fc_tags = rq_tags rq,
     fc_ticket_type = ty, fc_editable = True, fc_itsm = rq_itsm rq, fc_manual = rq_manual rq, fc_expire = rq_expire rq,
     fc_update = now\<rparr>)"

text \<open>\<open>next_id\<close> is the first free id, \<open>now\<close> the time; nothing is created if a check fails.\<close>

definition create_ticket_flow_config :: "nat \<Rightarrow> int \<Rightarrow> config_request \<Rightarrow> flow_config list \<Rightarrow> flow_config list result" where
  "create_ticket_flow_config next_id now rq db =
     (case check_types db rq (rq_types rq) of
        Inl e \<Rightarrow> Inl e
      | Inr _ \<Rightarrow> Inr (db @ map (new_config rq now) (zip [next_id..<next_id + length (rq_types rq)] (rq_types rq))))"

text \<open>In one transaction: an error undoes the deletion.\<close>

definition update_ticket_flow_config :: "nat \<Rightarrow> int \<Rightarrow> config_request \<Rightarrow> nat list \<Rightarrow> flow_config list \<Rightarrow> flow_config list result" where
  "update_ticket_flow_config next_id now rq config_ids db =
     (let mine = (\<lambda>c. fc_biz c = rq_biz rq \<and> fc_ticket_type c \<in> set (rq_types rq))
      in if rq_biz rq = 0
         then case check_editable_configs (filter mine db) of
                Inl e \<Rightarrow> Inl e
              | Inr _ \<Rightarrow> Inr (map (\<lambda>c. if mine c then c\<lparr>fc_itsm := rq_itsm rq, fc_manual := rq_manual rq, fc_expire := rq_expire rq\<rparr> else c) db)
         else let old = (\<lambda>c. mine c \<and> fc_id c \<in> set config_ids \<and> fc_biz c \<noteq> PLAT_BIZ_ID)
              in case check_editable_configs (filter old db) of
                   Inl e \<Rightarrow> Inl e
                 | Inr _ \<Rightarrow> create_ticket_flow_config next_id now rq (filter (\<lambda>c. \<not> old c) db))"

definition delete_ticket_flow_config :: "nat list \<Rightarrow> flow_config list \<Rightarrow> flow_config list" where
  "delete_ticket_flow_config config_ids db = filter (\<lambda>c. fc_id c \<notin> set config_ids) db"

section \<open>The flows of a new ticket\<close>

text \<open>\<open>need_itsm\<close> reads a key that must be there.\<close>

fun need_itsm :: "flow_config list \<Rightarrow> bool result" where
  "need_itsm [] = Inr False"
| "need_itsm (c # cs) = (case fc_itsm c of None \<Rightarrow> Inl KeyError | Some b \<Rightarrow>
     (case need_itsm cs of Inl e \<Rightarrow> Inl e | Inr r \<Rightarrow> Inr (b \<or> r)))"

definition need_manual_confirm :: "flow_config list \<Rightarrow> bool" where
  "need_manual_confirm cs = list_ex (\<lambda>c. fc_manual c = Some True) cs"

text \<open>A \<open>Flow\<close> with the defaults of its columns.\<close>

definition blank_flow :: "flow_type \<Rightarrow> flow_row" where
  "blank_flow ty = \<lparr>fl_id = 0, fl_type = ty, fl_obj_id = [], fl_status = FLOW_PENDING, fl_failed = False, fl_err_code = None,
     fl_retry_type = None, fl_ack = False, fl_remark = [], fl_expire = None, fl_expired_flag = None, fl_run_time = None,
     fl_trigger_time = None, fl_task_id = [], fl_build_task = [], fl_resource_done = False, fl_operators = []\<rparr>"

text \<open>
  What the builder of the kind of ticket says: \<open>need_timer\<close>, \<open>need_resource_pool\<close>, whether it has a
  \<open>resource_apply_builder\<close>, the operators of its pause, the retry type, and \<open>custom_ticket_flows\<close>.
\<close>

record flow_builder =
  fb_timer :: bool
  fb_resource_pool :: bool
  fb_single_apply :: bool
  fb_operators :: "string list"
  fb_retry_type :: flow_retry_type
  fb_custom :: "flow_row list"

definition builder_flows :: "flow_builder \<Rightarrow> bool \<Rightarrow> bool \<Rightarrow> flow_row list" where
  "builder_flows b itsm manual =
     (if itsm then [blank_flow BK_ITSM] else [])
     @ (if fb_timer b then [blank_flow TIMER] else [])
     @ (if manual then [(blank_flow PAUSE)\<lparr>fl_operators := fb_operators b\<rparr>] else [])
     @ (if fb_resource_pool b then [blank_flow (if fb_single_apply b then RESOURCE_APPLY else RESOURCE_BATCH_APPLY)] else [])
     @ (if fb_custom b \<noteq> [] then fb_custom b else [(blank_flow INNER_FLOW)\<lparr>fl_retry_type := Some (fb_retry_type b)\<rparr>])"

text \<open>\<open>bulk_create\<close> numbers the rows from \<open>next_id\<close>.\<close>

definition init_ticket_flows :: "nat \<Rightarrow> flow_builder \<Rightarrow> flow_config list \<Rightarrow> flow_row list result" where
  "init_ticket_flows next_id b cfgs =
     (case need_itsm cfgs of
        Inl e \<Rightarrow> Inl e
      | Inr itsm \<Rightarrow>
          let fs = builder_flows b itsm (need_manual_confirm cfgs)
          in Inr (map (\<lambda>(i, f). f\<lparr>fl_id := i\<rparr>) (zip [next_id..<next_id + length fs] fs)))"

section \<open>The lookup\<close>

lemma find_newest:
  assumes "find P (by_newest cs) = Some c"
  shows "c \<in> set cs \<and> P c \<and> (\<forall>d\<in>set cs. P d \<longrightarrow> fc_update d \<le> fc_update c)"
proof -
  have sorted: "sorted (map (\<lambda>c. - fc_update c) (by_newest cs))" by (simp add: by_newest_def)
  from assms obtain j where j: "j < length (by_newest cs)" "P (by_newest cs ! j)" "c = by_newest cs ! j"
    "\<forall>i<j. \<not> P (by_newest cs ! i)" by (auto simp: find_Some_iff)
  have "fc_update d \<le> fc_update c" if d: "d \<in> set cs" "P d" for d
  proof -
    have "d \<in> set (by_newest cs)" using d(1) by (simp add: by_newest_def)
    then obtain i where i: "i < length (by_newest cs)" "d = by_newest cs ! i" by (auto simp: in_set_conv_nth)
    then have "j \<le> i" using j(4) d(2) not_less by blast
    then show ?thesis using sorted_nth_mono [OF sorted, of j i] i j by simp
  qed
  moreover have "c \<in> set cs" using j(1,3) nth_mem [OF j(1)] by (simp add: by_newest_def)
  ultimately show ?thesis using j by simp
qed

lemma find_none_newest: "find P (by_newest cs) = None \<longleftrightarrow> (\<forall>c\<in>set cs. \<not> P c)"
  by (auto simp: find_None_iff by_newest_def)

text \<open>\<open>d\<close> is a newest configuration with \<open>P\<close>.\<close>

definition newest :: "(flow_config \<Rightarrow> bool) \<Rightarrow> flow_config list \<Rightarrow> flow_config \<Rightarrow> bool" where
  "newest P cs d \<longleftrightarrow> d \<in> set cs \<and> P d \<and> (\<forall>c\<in>set cs. P c \<longrightarrow> fc_update c \<le> fc_update d)"

definition tags_match :: "(nat \<Rightarrow> (string \<times> string) list) \<Rightarrow> nat \<Rightarrow> flow_config \<Rightarrow> bool" where
  "tags_match tags i c \<longleftrightarrow> tag_cfg_rules c \<noteq> [] \<and> match_tag_rules (tags i) (tag_cfg_rules c)"

text \<open>The configuration that holds for a cluster: its own, else by tags, else of the business, else of the platform.\<close>

definition effective_config :: "(nat \<Rightarrow> (string \<times> string) list) \<Rightarrow> flow_config list \<Rightarrow> flow_config \<Rightarrow> nat \<Rightarrow> flow_config \<Rightarrow> bool" where
  "effective_config tags cs plat i d \<longleftrightarrow>
     (if \<exists>c\<in>set cs. i \<in> set (fc_clusters c) then newest (\<lambda>c. i \<in> set (fc_clusters c)) cs d
      else if \<exists>c\<in>set cs. tags_match tags i c then newest (tags_match tags i) cs d
      else if \<exists>c\<in>set cs. is_default c then d \<in> set cs \<and> is_default d
      else d = plat)"

lemma lookup_effective:
  assumes biz: "(case filter is_default cs of [] \<Rightarrow> plat | c # _ \<Rightarrow> c) = biz_cfg"
  shows "effective_config tags cs plat i
     (case get_matched_cluster_cfg (by_newest (filter (\<lambda>c. fc_clusters c \<noteq> []) cs)) i of
        Some c \<Rightarrow> c
      | None \<Rightarrow> (case get_matched_tag_cfg tags (by_newest (filter (\<lambda>c. fc_tags c \<noteq> []) cs)) i of Some c \<Rightarrow> c | None \<Rightarrow> biz_cfg))"
proof -
  let ?named = "by_newest (filter (\<lambda>c. fc_clusters c \<noteq> []) cs)" and ?tagged = "by_newest (filter (\<lambda>c. fc_tags c \<noteq> []) cs)"
  have by_tags: "get_matched_tag_cfg tags cfgs i = find (tags_match tags i) cfgs" for cfgs
    unfolding get_matched_tag_cfg_def tags_match_def [abs_def] ..
  have tagged: "fc_tags c \<noteq> []" if "tags_match tags i c" for c using that by (auto simp: tags_match_def tag_cfg_rules_def)
  show ?thesis
  proof (cases "get_matched_cluster_cfg ?named i")
    case (Some d)
    then have "newest (\<lambda>c. i \<in> set (fc_clusters c)) cs d"
      using find_newest [of "\<lambda>c. i \<in> set (fc_clusters c)"] by (fastforce simp: get_matched_cluster_cfg_def newest_def)
    then show ?thesis using Some by (auto simp: effective_config_def newest_def)
  next
    case None
    then have no: "\<not> (\<exists>c\<in>set cs. i \<in> set (fc_clusters c))"
      by (fastforce simp: get_matched_cluster_cfg_def find_none_newest)
    show ?thesis
    proof (cases "get_matched_tag_cfg tags ?tagged i")
      case (Some d)
      then have "newest (tags_match tags i) cs d"
        using find_newest [of "tags_match tags i"] tagged unfolding by_tags newest_def by fastforce
      then show ?thesis using Some None no by (auto simp: effective_config_def newest_def)
    next
      case tag: None
      then have "\<not> (\<exists>c\<in>set cs. tags_match tags i c)"
        using tagged unfolding by_tags find_none_newest by fastforce
      moreover have "if \<exists>c\<in>set cs. is_default c then biz_cfg \<in> set cs \<and> is_default biz_cfg else biz_cfg = plat"
        using biz by (cases "filter is_default cs") (auto simp: filter_empty_conv filter_eq_Cons_iff)
      ultimately show ?thesis using None tag no by (simp add: effective_config_def)
    qed
  qed
qed

lemma cluster_configs_effective:
  assumes "get_cluster_configs tags db ty biz ids = Inr rs" and "ids \<noteq> []"
  shows "\<exists>plat\<in>set db. fc_biz plat = PLAT_BIZ_ID \<and> fc_ticket_type plat = ty \<and>
     list_all2 (\<lambda>i r. \<exists>d. r = with_global_manual_confirm plat d \<and>
       effective_config tags (filter (\<lambda>c. fc_biz c = biz \<and> fc_ticket_type c = ty) db) plat i d) ids rs"
proof -
  from assms obtain plat where plat: "config_get (\<lambda>c. fc_biz c = PLAT_BIZ_ID \<and> fc_ticket_type c = ty) db = Inr plat"
    by (auto simp: get_cluster_configs_def split: sum.splits)
  then have "filter (\<lambda>c. fc_biz c = PLAT_BIZ_ID \<and> fc_ticket_type c = ty) db = [plat]"
    by (auto simp: config_get_def split: list.splits)
  then have "plat \<in> set (filter (\<lambda>c. fc_biz c = PLAT_BIZ_ID \<and> fc_ticket_type c = ty) db)" by simp
  then have "plat \<in> set db" "fc_biz plat = PLAT_BIZ_ID" "fc_ticket_type plat = ty" by auto
  moreover let ?cs = "filter (\<lambda>c. fc_biz c = biz \<and> fc_ticket_type c = ty) db"
  have "get_cluster_configs tags db ty biz ids = Inr (map (\<lambda>i. with_global_manual_confirm plat
      (case get_matched_cluster_cfg (by_newest (filter (\<lambda>c. fc_clusters c \<noteq> []) ?cs)) i of
         Some c \<Rightarrow> c
       | None \<Rightarrow> (case get_matched_tag_cfg tags (by_newest (filter (\<lambda>c. fc_tags c \<noteq> []) ?cs)) i of
           Some c \<Rightarrow> c | None \<Rightarrow> (case filter is_default ?cs of [] \<Rightarrow> plat | c # _ \<Rightarrow> c)))) ids)"
    using assms(2) unfolding get_cluster_configs_def plat sum.case Let_def by (simp only: if_False)
  then have "rs = map (\<lambda>i. with_global_manual_confirm plat
      (case get_matched_cluster_cfg (by_newest (filter (\<lambda>c. fc_clusters c \<noteq> []) ?cs)) i of
         Some c \<Rightarrow> c
       | None \<Rightarrow> (case get_matched_tag_cfg tags (by_newest (filter (\<lambda>c. fc_tags c \<noteq> []) ?cs)) i of
           Some c \<Rightarrow> c | None \<Rightarrow> (case filter is_default ?cs of [] \<Rightarrow> plat | c # _ \<Rightarrow> c)))) ids" (is "_ = map (\<lambda>i. _ (?c i)) ids")
    using assms(1) by (simp only: sum.inject)
  then have "list_all2 (\<lambda>i r. \<exists>d. r = with_global_manual_confirm plat d \<and> effective_config tags ?cs plat i d) ids rs"
    using lookup_effective [OF refl] by (auto simp: list_all2_map2 list_all2_same simp del: filter_filter)
  ultimately show ?thesis by blast
qed

section \<open>No cluster has two configurations\<close>

definition compatible :: "flow_config \<Rightarrow> flow_config \<Rightarrow> bool" where
  "compatible c d \<longleftrightarrow> (fc_biz c = fc_biz d \<and> fc_biz c \<noteq> 0 \<and> fc_ticket_type c = fc_ticket_type d \<longrightarrow>
     set (fc_clusters c) \<inter> set (fc_clusters d) = {} \<and> \<not> (is_default c \<and> is_default d))"

definition config_db_ok :: "flow_config list \<Rightarrow> bool" where
  "config_db_ok db \<longleftrightarrow> distinct (map fc_id db) \<and> (\<forall>c\<in>set db. \<forall>d\<in>set db. c \<noteq> d \<longrightarrow> compatible c d)"

lemma compatible_sym: "compatible c d \<Longrightarrow> compatible d c"
  by (auto simp: compatible_def)

lemma check_types_all: "check_types db rq tys = Inr () \<longleftrightarrow> (\<forall>ty\<in>set tys. check_create_config db rq ty = Inr ())"
  by (induction tys) (auto split: sum.splits)

lemma checked_config:
  assumes "check_create_config db rq ty = Inr ()" and c: "c \<in> set db" "fc_biz c = rq_biz rq" "fc_ticket_type c = ty"
  shows "set (fc_clusters c) \<inter> set (rq_clusters rq) = {} \<and> \<not> (is_default c \<and> rq_clusters rq = [] \<and> rq_tags rq = []) \<and> rq_biz rq \<noteq> 0"
proof -
  have dup: "\<not> list_ex snd (check_cluster_repeat db (rq_biz rq) (rq_clusters rq) ty None)"
    and def: "\<not> (list_ex (\<lambda>c. fc_biz c = rq_biz rq \<and> fc_ticket_type c = ty \<and> is_default c) db \<and> rq_clusters rq = [] \<and> rq_tags rq = [])"
    and "rq_biz rq \<noteq> 0"
    using assms(1) by (auto simp: check_create_config_def split: if_splits sum.splits)
  moreover have "set (fc_clusters c) \<inter> set (rq_clusters rq) = {}"
    using dup c by (auto simp: check_cluster_repeat_def Let_def list_ex_iff split: if_splits) (metis list.distinct(1) list.set_cases)+
  ultimately show ?thesis using c by (auto simp: list_ex_iff)
qed

lemma create_keeps:
  assumes ok: "config_db_ok db" and fresh: "\<forall>c\<in>set db. fc_id c < next_id" and types: "distinct (rq_types rq)"
    and new: "create_ticket_flow_config next_id now rq db = Inr db'"
  shows "config_db_ok db'"
proof -
  let ?zip = "zip [next_id..<next_id + length (rq_types rq)] (rq_types rq)"
  let ?new = "map (new_config rq now) ?zip"
  from new have db': "db' = db @ ?new" and checks: "\<forall>ty\<in>set (rq_types rq). check_create_config db rq ty = Inr ()"
    by (auto simp: create_ticket_flow_config_def check_types_all [symmetric] split: sum.splits)
  have ids: "map fc_id ?new = [next_id..<next_id + length (rq_types rq)]"
    by (simp add: new_config_def comp_def case_prod_unfold)
  have mem: "\<exists>j<length (rq_types rq). c = new_config rq now (next_id + j, rq_types rq ! j)" if "c \<in> set ?new" for c
    using that by (auto simp: set_zip)
  have old_new: "compatible c d" if "c \<in> set db" "d \<in> set ?new" for c d
  proof -
    note cd = that
    from mem [OF cd(2)] obtain j where j: "j < length (rq_types rq)" "d = new_config rq now (next_id + j, rq_types rq ! j)" by blast
    have "check_create_config db rq (rq_types rq ! j) = Inr ()" using checks j(1) by simp
    from checked_config [OF this cd(1)] show ?thesis using j(2) by (auto simp: compatible_def new_config_def is_default_def)
  qed
  have new_new: "compatible c d" if "c \<in> set ?new" "d \<in> set ?new" "c \<noteq> d" for c d
    using mem [OF that(1)] mem [OF that(2)] that(3) types by (auto simp: compatible_def new_config_def nth_eq_iff_index_eq)
  have "distinct (map fc_id db')"
    using ok fresh unfolding db' map_append ids config_db_ok_def by (auto dest: bspec)
  moreover have "compatible c d" if "c \<in> set db'" "d \<in> set db'" "c \<noteq> d" for c d
    using that ok old_new compatible_sym [OF old_new] new_new unfolding db' set_append config_db_ok_def by blast
  ultimately show ?thesis by (simp add: config_db_ok_def)
qed

lemma config_db_filter: "config_db_ok db \<Longrightarrow> config_db_ok (filter P db)"
  by (auto simp: config_db_ok_def distinct_map inj_on_def)

lemma update_keeps:
  assumes ok: "config_db_ok db" and fresh: "\<forall>c\<in>set db. fc_id c < next_id" and types: "distinct (rq_types rq)"
    and new: "update_ticket_flow_config next_id now rq config_ids db = Inr db'"
  shows "config_db_ok db'"
proof (cases "rq_biz rq = 0")
  case True
  let ?f = "\<lambda>c. if fc_biz c = rq_biz rq \<and> fc_ticket_type c \<in> set (rq_types rq)
      then c\<lparr>fc_itsm := rq_itsm rq, fc_manual := rq_manual rq, fc_expire := rq_expire rq\<rparr> else c"
  have db': "db' = map ?f db" using new True by (auto simp: update_ticket_flow_config_def Let_def split: sum.splits)
  have same: "fc_id (?f c) = fc_id c" "compatible (?f c) (?f d) = compatible c d" for c d
    by (simp_all add: compatible_def is_default_def)
  have "map fc_id db' = map fc_id db" unfolding db' by (simp add: same comp_def)
  moreover have "compatible c d" if "c \<in> set db'" "d \<in> set db'" "c \<noteq> d" for c d
  proof -
    obtain c0 d0 where cd: "c0 \<in> set db" "c = ?f c0" "d0 \<in> set db" "d = ?f d0" using \<open>c \<in> set db'\<close> \<open>d \<in> set db'\<close> unfolding db' by auto
    then have "c0 \<noteq> d0" using that(3) by blast
    then show ?thesis using ok cd same(2) by (simp add: config_db_ok_def)
  qed
  ultimately show ?thesis using ok by (simp add: config_db_ok_def)
next
  case False
  then obtain P where "create_ticket_flow_config next_id now rq (filter P db) = Inr db'"
    using new by (auto simp: update_ticket_flow_config_def Let_def split: sum.splits)
  from create_keeps [OF config_db_filter [OF ok] _ types this] show ?thesis using fresh by simp
qed

text \<open>The tables requests can make from one with the configurations of the platform only.\<close>

inductive config_table :: "flow_config list \<Rightarrow> bool" where
  plat_table: "distinct (map fc_id db) \<Longrightarrow> list_all (\<lambda>c. fc_biz c = PLAT_BIZ_ID) db \<Longrightarrow> config_table db"
| create_table: "config_table db \<Longrightarrow> \<forall>c\<in>set db. fc_id c < next_id \<Longrightarrow> distinct (rq_types rq) \<Longrightarrow>
    create_ticket_flow_config next_id now rq db = Inr db' \<Longrightarrow> config_table db'"
| update_table: "config_table db \<Longrightarrow> \<forall>c\<in>set db. fc_id c < next_id \<Longrightarrow> distinct (rq_types rq) \<Longrightarrow>
    update_ticket_flow_config next_id now rq config_ids db = Inr db' \<Longrightarrow> config_table db'"
| delete_table: "config_table db \<Longrightarrow> config_table (delete_ticket_flow_config config_ids db)"

lemma config_table_ok: "config_table db \<Longrightarrow> config_db_ok db"
proof (induction rule: config_table.induct)
  case (plat_table db)
  then show ?case by (auto simp: config_db_ok_def compatible_def list_all_iff PLAT_BIZ_ID_def)
qed (auto intro: create_keeps update_keeps simp: delete_ticket_flow_config_def config_db_filter)

section \<open>A new ticket\<close>

lemma builder_flows_wait:
  assumes "list_all (\<lambda>f. waiting_row f \<and> known_type E (fl_type f)) (fb_custom b)" and "fb_timer b \<Longrightarrow> te_trigger_time E \<noteq> None"
  shows "list_all (\<lambda>f. waiting_row f \<and> known_type E (fl_type f)) (builder_flows b itsm manual)"
  using assms by (auto simp: builder_flows_def blank_flow_def waiting_row_def known_type_def resource_types_def)

lemma init_flows_new:
  assumes "init_ticket_flows next_id b cfgs = Inr fs"
    and b: "list_all (\<lambda>f. waiting_row f \<and> known_type E (fl_type f)) (fb_custom b)" "fb_timer b \<Longrightarrow> te_trigger_time E \<noteq> None"
  shows "new_ticket E (s\<lparr>tk_flows := fs\<rparr>)"
proof -
  from assms(1) obtain itsm where "need_itsm cfgs = Inr itsm" by (auto simp: init_ticket_flows_def split: sum.splits)
  let ?bs = "builder_flows b itsm (need_manual_confirm cfgs)"
  have fs: "fs = map (\<lambda>(i, f). f\<lparr>fl_id := i\<rparr>) (zip [next_id..<next_id + length ?bs] ?bs)"
    using assms(1) \<open>need_itsm cfgs = Inr itsm\<close> by (simp add: init_ticket_flows_def Let_def)
  have "map fl_id fs = [next_id..<next_id + length ?bs]" unfolding fs by (simp add: comp_def case_prod_unfold)
  moreover have "list_all (\<lambda>f. waiting_row f \<and> known_type E (fl_type f)) fs"
  proof -
    have "\<exists>g\<in>set ?bs. f = g\<lparr>fl_id := i\<rparr>" if "f = (\<lambda>(i, f). f\<lparr>fl_id := i\<rparr>) p" "p \<in> set (zip [next_id..<next_id + length ?bs] ?bs)" "i = fst p" for f p i
      using that by (cases p) (auto dest: set_zip_rightD)
    then show ?thesis
      using builder_flows_wait [OF b, of itsm "need_manual_confirm cfgs"] unfolding fs list_all_iff
      by (fastforce simp: waiting_row_def)
  qed
  ultimately show ?thesis by (simp add: new_ticket_def)
qed

end
