(* ===== verification/Ticket_Exclusion.thy ===== *)
theory Ticket_Exclusion
  imports Ticket_Flow
begin

text \<open>
  Which tickets may work on a cluster at once: the operation records of all tickets (\<open>ClusterOperateRecord\<close>), the
  exclusion table of ticket types, the check an inner flow makes before it starts
  (\<open>Cluster.handle_exclusive_operations\<close>), and the pipeline nodes that unlock a cluster for some types of
  tickets, pause, and take the lock again. The flows of all tickets are numbered rows with an owner.
\<close>

section \<open>The exclusion table\<close>

text \<open>\<open>exclusive_ticket_map\<close>; a pair of types the table does not name is exclusive.\<close>

type_synonym exclusive_map = "(string \<times> (string \<times> bool) list) list"

definition types_exclusive :: "exclusive_map \<Rightarrow> string \<Rightarrow> string \<Rightarrow> bool" where
  "types_exclusive m ty active =
     (case map_of m ty of None \<Rightarrow> True | Some row \<Rightarrow> (case map_of row active of None \<Rightarrow> True | Some b \<Rightarrow> b))"

definition set_cell :: "string \<Rightarrow> string \<Rightarrow> bool \<Rightarrow> exclusive_map \<Rightarrow> exclusive_map" where
  "set_cell row col b m =
     AList.update row (AList.update col b (case map_of m row of None \<Rightarrow> [] | Some r \<Rightarrow> r)) m"

text \<open>
  The table is built from the cells of the sheet, whose headings are labels of ticket types, and kept in the
  settings: the answer is the table and the setting.
\<close>

primrec build_exclusive_map :: "(string \<Rightarrow> string option) \<Rightarrow> (string \<times> string \<times> string) list \<Rightarrow> exclusive_map \<Rightarrow> exclusive_map result" where
  "build_exclusive_map labels [] m = Inr m"
| "build_exclusive_map labels (c # cells) m =
     (case (labels (fst c), labels (fst (snd c))) of
        (Some row, Some col) \<Rightarrow> build_exclusive_map labels cells (set_cell row col (snd (snd c) = ''N'') m)
      | _ \<Rightarrow> Inl KeyError)"

definition get_exclusive_ticket_map ::
  "(string \<Rightarrow> string option) \<Rightarrow> (string \<times> string \<times> string) list \<Rightarrow> bool \<Rightarrow> exclusive_map \<Rightarrow> exclusive_map result \<times> exclusive_map" where
  "get_exclusive_ticket_map labels cells force setting =
     (if setting \<noteq> [] \<and> \<not> force then (Inr setting, setting)
      else case build_exclusive_map labels cells [] of
             Inl e \<Rightarrow> (Inl e, setting)
           | Inr m \<Rightarrow> (Inr m, m))"

section \<open>Records\<close>

record operate_record =
  or_cluster :: nat
  or_flow :: nat
  or_ticket :: nat
  or_unlock :: "string list"
  or_pause :: bool

text \<open>All tickets: the records, type and status of every flow, its ticket, the types of the tickets, the clusters.\<close>

record lock_state =
  lk_records :: "operate_record list"
  lk_flow :: "nat \<Rightarrow> flow_type \<times> flow_status"
  lk_owner :: "nat \<Rightarrow> nat"
  lk_type :: "nat \<Rightarrow> string"
  lk_cluster :: "nat \<Rightarrow> bool"

definition flow_active :: "lock_state \<Rightarrow> nat \<Rightarrow> bool" where
  "flow_active s i \<longleftrightarrow> fst (lk_flow s i) = INNER_FLOW \<and> snd (lk_flow s i) \<in> {FLOW_RUNNING, FLOW_FAILED}"

definition filter_inner_actives :: "lock_state \<Rightarrow> nat \<Rightarrow> bool option \<Rightarrow> nat list \<Rightarrow> operate_record list" where
  "filter_inner_actives s cluster_id is_pause exclude_ticket_ids =
     filter (\<lambda>r. or_cluster r = cluster_id \<and> flow_active s (or_flow r)
       \<and> (is_pause = None \<or> is_pause = Some (or_pause r))
       \<and> lk_owner s (or_flow r) \<notin> set exclude_ticket_ids) (lk_records s)"

text \<open>A record does not stand in the way of the types it is unlocked for; \<open>*\<close> is every type.\<close>

definition unlocked_for :: "string \<Rightarrow> operate_record \<Rightarrow> bool" where
  "unlocked_for ty r \<longleftrightarrow> ''*'' \<in> set (or_unlock r) \<or> ty \<in> set (or_unlock r)"

definition has_exclusive_operations ::
  "exclusive_map \<Rightarrow> string \<Rightarrow> lock_state \<Rightarrow> nat \<Rightarrow> bool option \<Rightarrow> nat list \<Rightarrow> (nat \<times> nat) list" where
  "has_exclusive_operations m ty s cluster_id is_pause exclude_ticket_ids =
     map (\<lambda>r. (or_ticket r, or_flow r))
       (filter (\<lambda>r. \<not> unlocked_for ty r \<and> types_exclusive m ty (lk_type s (or_ticket r)))
          (filter_inner_actives s cluster_id is_pause exclude_ticket_ids))"

text \<open>\<open>is_exclusive\<close> answers \<open>None\<close> for a ticket without a type.\<close>

primrec handle_exclusive_operations ::
  "exclusive_map \<Rightarrow> string \<Rightarrow> lock_state \<Rightarrow> nat list \<Rightarrow> nat list \<Rightarrow> unit result" where
  "handle_exclusive_operations m ty s exclude_ticket_ids [] = Inr ()"
| "handle_exclusive_operations m ty s exclude_ticket_ids (c # cs) =
     (if ty \<noteq> [] \<and> has_exclusive_operations m ty s c None exclude_ticket_ids \<noteq> [] then Inl ExclusiveOperateError
      else handle_exclusive_operations m ty s exclude_ticket_ids cs)"

text \<open>The records of one ticket are written as in \<open>create_operate_records\<close>; the other columns keep their values.\<close>

definition lock_clusters :: "nat \<Rightarrow> nat list \<Rightarrow> lock_state \<Rightarrow> lock_state" where
  "lock_clusters f cs s =
     (let t = lk_owner s f in
      if cs = [] then s
      else s\<lparr>lk_records :=
        map (\<lambda>r. if or_ticket r = t \<and> or_cluster r \<in> set cs then r\<lparr>or_flow := f\<rparr> else r) (lk_records s)
        @ map (\<lambda>c. \<lparr>or_cluster = c, or_flow = f, or_ticket = t, or_unlock = [], or_pause = False\<rparr>)
            (filter (\<lambda>c. (c, t) \<notin> (\<lambda>r. (or_cluster r, or_ticket r)) ` set (lk_records s)) cs)\<rparr>)"

definition set_flow_status :: "nat \<Rightarrow> flow_status \<Rightarrow> lock_state \<Rightarrow> lock_state" where
  "set_flow_status f st s = s\<lparr>lk_flow := (lk_flow s)(f := (fst (lk_flow s f), st))\<rparr>"

text \<open>
  \<open>InnerFlow.run\<close> as far as the records see it: the flow is running before the check, and its clusters are
  recorded when its pipeline was started.
\<close>

definition lock_run :: "exclusive_map \<Rightarrow> nat \<Rightarrow> nat list \<Rightarrow> lock_state \<Rightarrow> unit result \<times> lock_state" where
  "lock_run m f cs s =
     (let s = set_flow_status f FLOW_RUNNING s;
          t = lk_owner s f
      in case handle_exclusive_operations m (lk_type s t) s [t] cs of
           Inl e \<Rightarrow> (Inl e, s)
         | Inr _ \<Rightarrow> (Inr (), lock_clusters f (remdups cs) s))"

section \<open>Unlocking, pausing and resuming\<close>

definition save_record :: "operate_record \<Rightarrow> lock_state \<Rightarrow> lock_state" where
  "save_record r s = s\<lparr>lk_records :=
     map (\<lambda>x. if or_cluster x = or_cluster r \<and> or_flow x = or_flow r \<and> or_ticket x = or_ticket r then r else x) (lk_records s)\<rparr>"

definition get_record :: "nat \<Rightarrow> nat \<Rightarrow> lock_state \<Rightarrow> operate_record result" where
  "get_record c f s =
     (case filter (\<lambda>r. or_cluster r = c \<and> or_ticket r = lk_owner s f \<and> or_flow r = f) (lk_records s) of
        [] \<Rightarrow> Inl DoesNotExist | [r] \<Rightarrow> Inr r | _ \<Rightarrow> Inl MultipleObjects)"

text \<open>The lists are sets in the code, so their order is not kept; only membership is read.\<close>

definition unlock_ticket_type_operations :: "string list option \<Rightarrow> operate_record \<Rightarrow> operate_record" where
  "unlock_ticket_type_operations types r =
     (let types = (case types of None \<Rightarrow> [''*''] | Some ts \<Rightarrow> ts)
      in if ''*'' \<in> set types then r\<lparr>or_unlock := [''*'']\<rparr> else r\<lparr>or_unlock := remdups (or_unlock r @ types)\<rparr>)"

definition remove_unlock_ticket_type_config_operations :: "string list option \<Rightarrow> operate_record \<Rightarrow> operate_record" where
  "remove_unlock_ticket_type_config_operations types r =
     (let types = (case types of None \<Rightarrow> [] | Some ts \<Rightarrow> ts)
      in if ''*'' \<in> set types then r\<lparr>or_unlock := []\<rparr>
         else r\<lparr>or_unlock := filter (\<lambda>ty. ty \<notin> set types) (remdups (or_unlock r))\<rparr>)"

text \<open>\<open>AddUnlockTicketTypeConfigService._execute\<close>, in one transaction.\<close>

primrec unlock_loop :: "nat \<Rightarrow> string list \<Rightarrow> nat list \<Rightarrow> lock_state \<Rightarrow> unit result \<times> lock_state" where
  "unlock_loop f types [] s = (Inr (), s)"
| "unlock_loop f types (c # cs) s =
     (if \<not> lk_cluster s c then (Inl DoesNotExist, s)
      else case get_record c f s of
             Inl e \<Rightarrow> (Inl e, s)
           | Inr r \<Rightarrow> unlock_loop f types cs (save_record (unlock_ticket_type_operations (Some types) r) s))"

definition add_unlock_execute :: "nat \<Rightarrow> string list \<Rightarrow> nat list \<Rightarrow> lock_state \<Rightarrow> unit result \<times> lock_state" where
  "add_unlock_execute f types cs s =
     (case unlock_loop f types cs s of (Inl e, _) \<Rightarrow> (Inl e, s) | (Inr u, s') \<Rightarrow> (Inr u, s'))"

text \<open>\<open>PauseWithTicketLockCheckService._execute\<close>: every record is saved by itself.\<close>

primrec pause_execute :: "nat \<Rightarrow> nat list \<Rightarrow> lock_state \<Rightarrow> unit result \<times> lock_state" where
  "pause_execute f [] s = (Inr (), s)"
| "pause_execute f (c # cs) s =
     (case get_record c f s of
        Inl e \<Rightarrow> (Inl e, s)
      | Inr r \<Rightarrow> pause_execute f cs (save_record (r\<lparr>or_pause := True\<rparr>) s))"

definition has_exclusive_operations_pause ::
  "exclusive_map \<Rightarrow> operate_record \<Rightarrow> lock_state \<Rightarrow> (bool \<times> (nat \<times> nat) list) \<times> lock_state" where
  "has_exclusive_operations_pause m r s =
     (let infos = has_exclusive_operations m (lk_type s (or_ticket r)) s (or_cluster r) (Some False) [or_ticket r]
      in if infos = [] then ((True, []), save_record (r\<lparr>or_pause := False\<rparr>) s) else ((False, infos), s))"

text \<open>\<open>_has_active_exec\<close>: goes through all clusters, and undoes everything when one of them is taken.\<close>

primrec active_exec_loop ::
  "exclusive_map \<Rightarrow> nat \<Rightarrow> string list \<Rightarrow> nat list \<Rightarrow> bool \<Rightarrow> lock_state \<Rightarrow> bool result \<times> lock_state" where
  "active_exec_loop m f types [] ok s = (Inr ok, s)"
| "active_exec_loop m f types (c # cs) ok s =
     (if \<not> lk_cluster s c then (Inl DoesNotExist, s)
      else case get_record c f s of
             Inl e \<Rightarrow> (Inl e, s)
           | Inr r \<Rightarrow>
               let r = remove_unlock_ticket_type_config_operations (Some types) r;
                   (p, s) = has_exclusive_operations_pause m r (save_record r s)
               in active_exec_loop m f types cs (ok \<and> fst p) s)"

definition has_active_exec ::
  "exclusive_map \<Rightarrow> nat \<Rightarrow> string list \<Rightarrow> nat list \<Rightarrow> lock_state \<Rightarrow> bool result \<times> lock_state" where
  "has_active_exec m f types cs s =
     (case active_exec_loop m f types cs True s of
        (Inl e, _) \<Rightarrow> (Inl e, s)
      | (Inr ok, s') \<Rightarrow> (Inr ok, if ok then s' else s))"

text \<open>\<open>_schedule\<close>, when the confirmation came: without clusters the node goes on.\<close>

definition pause_schedule ::
  "exclusive_map \<Rightarrow> nat \<Rightarrow> string list \<Rightarrow> nat list \<Rightarrow> lock_state \<Rightarrow> bool result \<times> lock_state" where
  "pause_schedule m f types cs s = (if cs = [] then (Inr True, s) else has_active_exec m f types cs s)"

section \<open>The table\<close>

lemma types_exclusive_set_cell:
  "types_exclusive (set_cell row col b m) ty active = (if ty = row \<and> active = col then b else types_exclusive m ty active)"
  by (auto simp: types_exclusive_def set_cell_def update_conv' split: option.splits)

lemma find_append: "find P (xs @ ys) = (case find P xs of None \<Rightarrow> find P ys | Some x \<Rightarrow> Some x)"
  by (induction xs) auto

text \<open>Two types are exclusive unless a cell of the sheet names them with another value than \<open>N\<close>; the last one counts.\<close>

lemma built_map_lookup:
  assumes "build_exclusive_map labels cells m0 = Inr m"
  shows "types_exclusive m ty active =
    (case find (\<lambda>c. labels (fst c) = Some ty \<and> labels (fst (snd c)) = Some active) (rev cells) of
       None \<Rightarrow> types_exclusive m0 ty active | Some c \<Rightarrow> snd (snd c) = ''N'')"
  using assms
proof (induction cells arbitrary: m0)
  case (Cons c cells)
  then obtain row col where rc: "labels (fst c) = Some row" "labels (fst (snd c)) = Some col"
    and b: "build_exclusive_map labels cells (set_cell row col (snd (snd c) = ''N'') m0) = Inr m"
    by (auto split: option.splits)
  show ?case
    using Cons.IH [OF b] rc
    by (auto simp: types_exclusive_set_cell find_append split: option.splits)
qed simp

section \<open>The check\<close>

lemma in_actives:
  "r \<in> set (filter_inner_actives s c p ex) \<longleftrightarrow> r \<in> set (lk_records s) \<and> or_cluster r = c \<and> flow_active s (or_flow r)
     \<and> (p = None \<or> p = Some (or_pause r)) \<and> lk_owner s (or_flow r) \<notin> set ex"
  by (auto simp: filter_inner_actives_def)

lemma no_exclusive_operations:
  "has_exclusive_operations m ty s c p ex = [] \<longleftrightarrow>
     (\<forall>r\<in>set (filter_inner_actives s c p ex). unlocked_for ty r \<or> \<not> types_exclusive m ty (lk_type s (or_ticket r)))"
  by (auto simp: has_exclusive_operations_def filter_empty_conv)

lemma handle_exclusive_ok:
  "ty \<noteq> [] \<Longrightarrow> handle_exclusive_operations m ty s ex cs = Inr () \<longleftrightarrow>
     (\<forall>c\<in>set cs. has_exclusive_operations m ty s c None ex = [])"
  by (induction cs) auto

text \<open>The first cluster on which another ticket stands in the way stops the flow, before it records anything.\<close>

lemma lock_run_refused:
  assumes "lk_type s (lk_owner s f) \<noteq> []"
  shows "fst (lock_run m f cs s) = Inl ExclusiveOperateError \<longleftrightarrow>
    (\<exists>c\<in>set cs. \<exists>r\<in>set (filter_inner_actives (set_flow_status f FLOW_RUNNING s) c None [lk_owner s f]).
       \<not> unlocked_for (lk_type s (lk_owner s f)) r \<and> types_exclusive m (lk_type s (lk_owner s f)) (lk_type s (or_ticket r)))"
proof -
  let ?s = "set_flow_status f FLOW_RUNNING s"
  have only: "handle_exclusive_operations m ty t ex ds = Inl e \<Longrightarrow> e = ExclusiveOperateError" for ty t ex ds e
    by (induction ds) (auto split: if_splits)
  have "fst (lock_run m f cs s) = Inl ExclusiveOperateError \<longleftrightarrow>
      handle_exclusive_operations m (lk_type s (lk_owner s f)) ?s [lk_owner s f] cs \<noteq> Inr ()"
    using only by (auto simp: lock_run_def Let_def set_flow_status_def split: sum.splits)
  then show ?thesis
    using assms by (auto simp: handle_exclusive_ok no_exclusive_operations set_flow_status_def)
qed

text \<open>The records of one ticket, without the columns a ticket does not see, are those of \<open>Ticket_Flow\<close>.\<close>

lemma lock_clusters_refines:
  "map (\<lambda>r. (or_cluster r, or_flow r)) (filter (\<lambda>r. or_ticket r = lk_owner s f) (lk_records (lock_clusters f cs s)))
   = create_operate_records f cs
       (map (\<lambda>r. (or_cluster r, or_flow r)) (filter (\<lambda>r. or_ticket r = lk_owner s f) (lk_records s)))"
proof -
  let ?t = "lk_owner s f"
  have old: "map (\<lambda>r. (or_cluster r, or_flow r)) (filter (\<lambda>r. or_ticket r = ?t)
        (map (\<lambda>r. if or_ticket r = ?t \<and> or_cluster r \<in> set cs then r\<lparr>or_flow := f\<rparr> else r) rs))
      = map (\<lambda>(x, fl). if x \<in> set cs then (x, f) else (x, fl))
          (map (\<lambda>r. (or_cluster r, or_flow r)) (filter (\<lambda>r. or_ticket r = ?t) rs))" for rs
    by (induction rs) auto
  have new: "(c, ?t) \<notin> (\<lambda>r. (or_cluster r, or_ticket r)) ` set (lk_records s)
      \<longleftrightarrow> c \<notin> fst ` set (map (\<lambda>r. (or_cluster r, or_flow r)) (filter (\<lambda>r. or_ticket r = ?t) (lk_records s)))" for c
    by force
  have made: "map (\<lambda>r. (or_cluster r, or_flow r)) (filter (\<lambda>r. or_ticket r = ?t)
        (map (\<lambda>c. \<lparr>or_cluster = c, or_flow = f, or_ticket = ?t, or_unlock = [], or_pause = False\<rparr>) ds))
      = map (\<lambda>c. (c, f)) ds" for ds
    by (induction ds) auto
  show ?thesis
    unfolding lock_clusters_def create_operate_records_def Let_def
    by (simp only: filter_append map_append old made new split: if_splits) (use old [of "lk_records s"] in simp)
qed

section \<open>No two conflicting tickets\<close>

text \<open>\<open>a\<close> may work beside \<open>b\<close>; two records conflict when both work on a cluster and neither may work beside the other.\<close>

definition beside :: "exclusive_map \<Rightarrow> lock_state \<Rightarrow> operate_record \<Rightarrow> operate_record \<Rightarrow> bool" where
  "beside m s a b \<longleftrightarrow> unlocked_for (lk_type s (or_ticket a)) b
     \<or> \<not> types_exclusive m (lk_type s (or_ticket a)) (lk_type s (or_ticket b))"

definition working :: "lock_state \<Rightarrow> operate_record \<Rightarrow> bool" where
  "working s r \<longleftrightarrow> flow_active s (or_flow r) \<and> \<not> or_pause r"

definition agree :: "exclusive_map \<Rightarrow> lock_state \<Rightarrow> operate_record \<Rightarrow> operate_record \<Rightarrow> bool" where
  "agree m s a b \<longleftrightarrow> (or_cluster a = or_cluster b \<and> or_ticket a \<noteq> or_ticket b \<and> working s a \<and> working s b
     \<longrightarrow> beside m s a b \<or> beside m s b a)"

definition locks_ok :: "exclusive_map \<Rightarrow> lock_state \<Rightarrow> bool" where
  "locks_ok m s \<longleftrightarrow>
     (\<forall>r\<in>set (lk_records s). or_ticket r = lk_owner s (or_flow r) \<and> snd (lk_flow s (or_flow r)) \<noteq> FLOW_PENDING)
     \<and> (\<forall>a\<in>set (lk_records s). \<forall>b\<in>set (lk_records s). agree m s a b)"

lemma agree_sym: "agree m s a b \<Longrightarrow> agree m s b a"
  by (auto simp: agree_def)

lemma save_record_env [simp]:
  "lk_flow (save_record r s) = lk_flow s" "lk_owner (save_record r s) = lk_owner s" "lk_type (save_record r s) = lk_type s"
  "lk_cluster (save_record r s) = lk_cluster s" "agree m (save_record r s) = agree m s"
  by (simp_all add: save_record_def agree_def working_def beside_def flow_active_def fun_eq_iff)

definition same_key :: "operate_record \<Rightarrow> operate_record \<Rightarrow> bool" where
  "same_key r x \<longleftrightarrow> or_cluster r = or_cluster x \<and> or_flow r = or_flow x \<and> or_ticket r = or_ticket x"

lemma saved_records: "set (lk_records (save_record r s)) \<subseteq> insert r (set (lk_records s))"
  by (auto simp: save_record_def)

lemma save_twice:
  assumes "same_key r r'"
  shows "save_record r' (save_record r s) = save_record r' s"
proof -
  have "(\<lambda>x. if or_cluster x = or_cluster r' \<and> or_flow x = or_flow r' \<and> or_ticket x = or_ticket r' then r' else x)
      \<circ> (\<lambda>x. if or_cluster x = or_cluster r \<and> or_flow x = or_flow r \<and> or_ticket x = or_ticket r then r else x)
    = (\<lambda>x. if or_cluster x = or_cluster r' \<and> or_flow x = or_flow r' \<and> or_ticket x = or_ticket r' then r' else x)"
    using assms by (intro ext) (simp add: same_key_def)
  then show ?thesis by (simp add: save_record_def)
qed

lemma get_recordD: "get_record c f s = Inr r \<Longrightarrow> r \<in> set (lk_records s) \<and> or_cluster r = c \<and> or_flow r = f \<and> or_ticket r = lk_owner s f"
proof -
  assume "get_record c f s = Inr r"
  then have "filter (\<lambda>r. or_cluster r = c \<and> or_ticket r = lk_owner s f \<and> or_flow r = f) (lk_records s) = [r]"
    by (auto simp: get_record_def split: list.splits)
  then have "r \<in> set (filter (\<lambda>r. or_cluster r = c \<and> or_ticket r = lk_owner s f \<and> or_flow r = f) (lk_records s))" by simp
  then show ?thesis by simp
qed

text \<open>A record may be changed when it still agrees with all others.\<close>

lemma save_record_ok:
  assumes s: "locks_ok m s" and r: "r \<in> set (lk_records s)" "same_key r r'"
    and agree: "\<And>b. b \<in> set (lk_records s) \<Longrightarrow> agree m s r' b"
  shows "locks_ok m (save_record r' s)"
proof -
  have r': "or_ticket r' = lk_owner s (or_flow r') \<and> snd (lk_flow s (or_flow r')) \<noteq> FLOW_PENDING"
    using s r by (auto simp: locks_ok_def same_key_def)
  have self: "agree m s r' r'" by (simp add: agree_def)
  have old: "agree m s a b" if "a \<in> set (lk_records s)" "b \<in> set (lk_records s)" for a b
    using s that by (auto simp: locks_ok_def)
  have sub: "x = r' \<or> x \<in> set (lk_records s)" if "x \<in> set (lk_records (save_record r' s))" for x
    using that saved_records [of r' s] by blast
  show ?thesis
    unfolding locks_ok_def save_record_env
  proof (intro conjI ballI)
    fix x assume "x \<in> set (lk_records (save_record r' s))"
    then show "or_ticket x = lk_owner s (or_flow x)" "snd (lk_flow s (or_flow x)) \<noteq> FLOW_PENDING"
      using sub s r' by (auto simp: locks_ok_def)
  next
    fix a b assume "a \<in> set (lk_records (save_record r' s))" "b \<in> set (lk_records (save_record r' s))"
    then consider "a = r'" "b = r'" | "a = r'" "b \<in> set (lk_records s)" | "a \<in> set (lk_records s)" "b = r'"
      | "a \<in> set (lk_records s)" "b \<in> set (lk_records s)" using sub by blast
    then show "agree m s a b"
    proof cases
      case 3
      then show ?thesis using agree_sym [OF agree] by simp
    qed (simp_all add: self agree old)
  qed
qed

lemma agree_weaker:
  assumes "agree m s r b" and "same_key r r'" and "working s r' \<Longrightarrow> working s r"
    and "\<And>ty. unlocked_for ty r \<Longrightarrow> unlocked_for ty r'"
  shows "agree m s r' b"
  using assms by (auto simp: agree_def same_key_def beside_def)

section \<open>The steps keep it\<close>

lemma unlock_loop_ok: "unlock_loop f types cs s = (x, s') \<Longrightarrow> locks_ok m s \<Longrightarrow> locks_ok m s'"
proof (induction cs arbitrary: s)
  case (Cons c cs)
  show ?case
  proof (cases "lk_cluster s c")
    case True
    show ?thesis
    proof (cases "get_record c f s")
      case (Inr r)
      let ?r = "unlock_ticket_type_operations (Some types) r"
      note r = get_recordD [OF Inr]
      have key: "same_key r ?r" by (simp add: same_key_def unlock_ticket_type_operations_def Let_def)
      have "agree m s ?r b" if b: "b \<in> set (lk_records s)" for b
      proof (rule agree_weaker [OF _ key])
        show "agree m s r b" using Cons.prems(2) r b by (simp add: locks_ok_def)
      qed (auto simp: unlock_ticket_type_operations_def Let_def working_def unlocked_for_def split: if_splits)
      then have "locks_ok m (save_record ?r s)" using save_record_ok [OF Cons.prems(2) _ key] r by blast
      moreover have "unlock_loop f types cs (save_record ?r s) = (x, s')" using Cons.prems(1) True Inr by simp
      ultimately show ?thesis using Cons.IH by blast
    qed (use Cons.prems True in auto)
  qed (use Cons.prems in auto)
qed simp

lemma pause_execute_ok: "pause_execute f cs s = (x, s') \<Longrightarrow> locks_ok m s \<Longrightarrow> locks_ok m s'"
proof (induction cs arbitrary: s)
  case (Cons c cs)
  show ?case
  proof (cases "get_record c f s")
    case (Inr r)
    have "agree m s (r\<lparr>or_pause := True\<rparr>) b" for b by (simp add: agree_def working_def)
    then have "locks_ok m (save_record (r\<lparr>or_pause := True\<rparr>) s)"
      using save_record_ok [OF Cons.prems(2)] get_recordD [OF Inr] by (auto simp: same_key_def)
    then show ?thesis using Cons.IH Cons.prems(1) Inr by simp
  qed (use Cons.prems in auto)
qed simp

text \<open>One cluster of the resuming flow: its own record took the lock again.\<close>

lemma resumed_record_ok:
  assumes s: "locks_ok m s" and r: "r \<in> set (lk_records s)" "same_key r r'" "or_pause r' = or_pause r"
    and p: "has_exclusive_operations_pause m r' (save_record r' s) = (p, t)" "fst p"
  shows "locks_ok m t"
proof -
  let ?q = "r'\<lparr>or_pause := False\<rparr>" and ?s = "save_record r' s"
  have free: "has_exclusive_operations m (lk_type s (or_ticket r')) ?s (or_cluster r') (Some False) [or_ticket r'] = []"
    and "t = save_record ?q ?s"
    using p by (auto simp: has_exclusive_operations_pause_def Let_def split: if_splits)
  then have t: "t = save_record ?q s" by (simp add: save_twice same_key_def)
  have key: "same_key r ?q" using r by (simp add: same_key_def)
  have "agree m s ?q b" if b: "b \<in> set (lk_records s)" for b
  proof (cases "or_cluster b = or_cluster r' \<and> or_ticket b \<noteq> or_ticket r' \<and> working s b")
    case True
    have other: "b \<in> set (lk_records ?s)" using b True by (auto simp: save_record_def image_iff)
    have "or_ticket b = lk_owner s (or_flow b)" using s b by (simp add: locks_ok_def)
    then have "b \<in> set (filter_inner_actives ?s (or_cluster r') (Some False) [or_ticket r'])"
      using True other by (simp add: in_actives working_def flow_active_def)
    then have "beside m s ?q b" using free by (auto simp: no_exclusive_operations beside_def)
    then show ?thesis by (simp add: agree_def)
  next
    case False
    then show ?thesis by (auto simp: agree_def)
  qed
  then show ?thesis unfolding t using save_record_ok [OF s r(1) key] by blast
qed

lemma active_exec_loop_true: "active_exec_loop m f types cs ok s = (Inr True, s') \<Longrightarrow> ok"
  by (induction cs arbitrary: ok s) (auto simp: Let_def split: if_splits sum.splits prod.splits)

lemma active_exec_loop_ok: "active_exec_loop m f types cs ok s = (Inr True, s') \<Longrightarrow> locks_ok m s \<Longrightarrow> locks_ok m s'"
proof (induction cs arbitrary: ok s)
  case (Cons c cs)
  from Cons.prems(1) obtain r where known: "lk_cluster s c" and g: "get_record c f s = Inr r"
    by (auto split: if_splits sum.splits)
  let ?r = "remove_unlock_ticket_type_config_operations (Some types) r"
  obtain p t where p: "has_exclusive_operations_pause m ?r (save_record ?r s) = (p, t)" by (meson surj_pair)
  have rest: "active_exec_loop m f types cs (ok \<and> fst p) t = (Inr True, s')"
    using Cons.prems(1) known g p by (simp add: Let_def)
  then have "fst p" using active_exec_loop_true by blast
  moreover have "same_key r ?r" "or_pause ?r = or_pause r"
    by (simp_all add: same_key_def remove_unlock_ticket_type_config_operations_def Let_def)
  ultimately have "locks_ok m t"
    using resumed_record_ok [OF Cons.prems(2) _ _ _ p] get_recordD [OF g] by blast
  then show ?case using Cons.IH rest by blast
qed simp

lemma pause_schedule_ok:
  assumes "pause_schedule m f types cs s = (x, s')" and "locks_ok m s"
  shows "locks_ok m s'"
  using assms active_exec_loop_ok
  by (auto simp: pause_schedule_def has_active_exec_def split: if_splits prod.splits sum.splits)

lemma set_status_ok:
  assumes s: "locks_ok m s" and st: "st \<noteq> FLOW_PENDING"
    and live: "st \<in> {FLOW_RUNNING, FLOW_FAILED} \<Longrightarrow> snd (lk_flow s f) \<in> {FLOW_PENDING, FLOW_RUNNING, FLOW_FAILED}"
  shows "locks_ok m (set_flow_status f st s)"
proof -
  let ?s = "set_flow_status f st s"
  have active: "working s r" if "r \<in> set (lk_records s)" "working ?s r" for r
  proof -
    have "snd (lk_flow s (or_flow r)) \<noteq> FLOW_PENDING" using s that(1) by (simp add: locks_ok_def)
    then show ?thesis using that(2) live by (auto simp: working_def flow_active_def set_flow_status_def split: if_splits)
  qed
  have "agree m ?s a b" if ab: "a \<in> set (lk_records s)" "b \<in> set (lk_records s)" for a b
  proof -
    have "agree m s a b" using s ab by (simp add: locks_ok_def)
    then show ?thesis using active ab by (auto simp: agree_def beside_def set_flow_status_def)
  qed
  then show ?thesis using s st by (auto simp: locks_ok_def set_flow_status_def)
qed

lemma lock_clusters_ok:
  assumes s: "locks_ok m s" and st: "snd (lk_flow s f) \<noteq> FLOW_PENDING" and ty: "lk_type s (lk_owner s f) \<noteq> []"
    and free: "handle_exclusive_operations m (lk_type s (lk_owner s f)) s [lk_owner s f] cs = Inr ()"
  shows "locks_ok m (lock_clusters f (remdups cs) s)"
proof (cases "cs = []")
  case False
  let ?s = "lock_clusters f (remdups cs) s" and ?t = "lk_owner s f"
  have env: "lk_flow ?s = lk_flow s" "lk_owner ?s = lk_owner s" "lk_type ?s = lk_type s" "agree m ?s = agree m s"
    by (auto simp: lock_clusters_def Let_def agree_def working_def beside_def flow_active_def fun_eq_iff)
  have cases: "r \<in> set (lk_records s) \<or> or_flow r = f \<and> or_ticket r = ?t \<and> or_cluster r \<in> set cs"
    if "r \<in> set (lk_records ?s)" for r
    using that False by (auto simp: lock_clusters_def Let_def split: if_splits)
  have old: "r \<in> set (lk_records s)" if "r \<in> set (lk_records ?s)" "or_ticket r \<noteq> ?t" for r
    using cases that by blast
  have row: "or_ticket r = lk_owner s (or_flow r) \<and> snd (lk_flow s (or_flow r)) \<noteq> FLOW_PENDING" if "r \<in> set (lk_records ?s)" for r
    using cases [OF that] s st by (auto simp: locks_ok_def)
  have mine: "agree m s a b" if a: "or_flow a = f" "or_ticket a = ?t" "or_cluster a \<in> set cs" and b: "b \<in> set (lk_records ?s)" for a b
  proof (cases "or_cluster a = or_cluster b \<and> or_ticket b \<noteq> ?t \<and> working s b")
    case True
    then have "b \<in> set (filter_inner_actives s (or_cluster a) None [?t])"
      using old [OF b] row [OF b] by (simp add: in_actives working_def)
    then have "beside m s a b"
      using free a ty by (auto simp: handle_exclusive_ok no_exclusive_operations beside_def)
    then show ?thesis by (simp add: agree_def)
  qed (use a in \<open>auto simp: agree_def\<close>)
  have "agree m s a b" if "a \<in> set (lk_records ?s)" "b \<in> set (lk_records ?s)" for a b
    using cases [OF that(1)] cases [OF that(2)] mine agree_sym that s unfolding locks_ok_def by blast
  then show ?thesis using row by (simp add: locks_ok_def env)
qed (use s in \<open>simp add: lock_clusters_def\<close>)

lemma lock_run_ok:
  assumes s: "locks_ok m s" and st: "snd (lk_flow s f) \<in> {FLOW_PENDING, FLOW_RUNNING, FLOW_FAILED}"
    and ty: "lk_type s (lk_owner s f) \<noteq> []" and run: "lock_run m f cs s = (x, s')"
  shows "locks_ok m s'"
proof -
  let ?s = "set_flow_status f FLOW_RUNNING s"
  have ok: "locks_ok m ?s" using set_status_ok [OF s] st by blast
  have same: "lk_owner ?s = lk_owner s" "lk_type ?s = lk_type s" "snd (lk_flow ?s f) \<noteq> FLOW_PENDING"
    by (simp_all add: set_flow_status_def)
  show ?thesis
    using run ok lock_clusters_ok [OF ok, of f cs] ty same by (auto simp: lock_run_def Let_def split: sum.splits)
qed

section \<open>Histories\<close>

text \<open>
  What happens to the records. A flow starts when it waits, failed or waits for its retry; its status changes as its
  pipeline does, and a flow that came to an end does not start again. Flows are started one at a time: between
  the check and the writing of its records another flow could pass its own check, as the code says.
\<close>

inductive lock_step :: "exclusive_map \<Rightarrow> lock_state \<Rightarrow> lock_state \<Rightarrow> bool" for m where
  start: "snd (lk_flow s f) \<in> {FLOW_PENDING, FLOW_RUNNING, FLOW_FAILED} \<Longrightarrow> lk_type s (lk_owner s f) \<noteq> []
    \<Longrightarrow> lock_run m f cs s = (x, s') \<Longrightarrow> lock_step m s s'"
| status: "st \<noteq> FLOW_PENDING \<Longrightarrow> (st \<in> {FLOW_RUNNING, FLOW_FAILED} \<longrightarrow> snd (lk_flow s f) \<in> {FLOW_RUNNING, FLOW_FAILED})
    \<Longrightarrow> lock_step m s (set_flow_status f st s)"
| unlock: "add_unlock_execute f types cs s = (x, s') \<Longrightarrow> lock_step m s s'"
| paused: "pause_execute f cs s = (x, s') \<Longrightarrow> lock_step m s s'"
| resumed: "pause_schedule m f types cs s = (r, s') \<Longrightarrow> lock_step m s s'"

lemma lock_step_ok: "lock_step m s s' \<Longrightarrow> locks_ok m s \<Longrightarrow> locks_ok m s'"
proof (induction rule: lock_step.induct)
  case (start s f cs x s')
  then show ?case using lock_run_ok by blast
next
  case (status st s f)
  then show ?case using set_status_ok [OF status.prems status.hyps(1), of f] by blast
next
  case (unlock f types cs s x s')
  then show ?case
    using unlock_loop_ok by (auto simp: add_unlock_execute_def split: prod.splits sum.splits)
next
  case (paused f cs s x s')
  then show ?case using pause_execute_ok by blast
next
  case (resumed f types cs s r s')
  then show ?case using pause_schedule_ok by blast
qed

definition lock_history :: "exclusive_map \<Rightarrow> lock_state \<Rightarrow> bool" where
  "lock_history m s \<longleftrightarrow> (\<exists>s0. lk_records s0 = [] \<and> (lock_step m)\<^sup>*\<^sup>* s0 s)"

lemma lock_history_ok: "lock_history m s \<Longrightarrow> locks_ok m s"
proof -
  assume "lock_history m s"
  then obtain s0 where "lk_records s0 = []" and run: "(lock_step m)\<^sup>*\<^sup>* s0 s" by (auto simp: lock_history_def)
  then have "locks_ok m s0" by (simp add: locks_ok_def)
  with run show ?thesis by (induction rule: rtranclp_induct) (auto intro: lock_step_ok)
qed

end
