(* ===== verification/Ticket_Properties.thy ===== *)
theory Ticket_Properties
  imports Ticket_Claims Ticket_Config Ticket_Exclusion
begin

text \<open>
  The properties of the ticket system, each with a witness, most on one small ticket: a delivery, a confirmation
  and a task. \<open>history E t\<close> says that \<open>t\<close> is what some history of steps made of a new ticket.
\<close>

section \<open>A ticket\<close>

definition demo_env :: ticket_env where
  "demo_env = \<lparr>te_creator = ''ann'', te_recycle = False, te_dts = False, te_apply = False, te_phase = False, te_grafana = False,
     te_send = False, te_async_build = False, te_skip_itsm = False, te_trigger_time = None, te_describe_root = None,
     te_expire_days = (\<lambda>_. -1), te_approvers = [''dba''], te_special_approve = False, te_dba = [''dba''], te_second_dba = [],
     te_other_dba = [], te_ticket_helpers = [''bob''], te_superuser = (\<lambda>_. Some False), te_uid = (\<lambda>n. ''r''),
     te_exclusive = (\<lambda>_ _. Inr ()), te_hooks = (\<lambda>_ _. op_ok ()), te_build = (\<lambda>_. op_ok ()), te_confirm = Inr (),
     te_engine_callback = Inr (), te_engine_fail = Inr (), te_engine_revoke = Inr (), te_resource = (\<lambda>_ _. Inl ResourceInsufficient),
     te_itsm_create = (\<lambda>_. op_ok ''sn''), te_itsm_operate = (\<lambda>_ _ _ _. op_ok ()), te_hcm_count = 0, te_hcm_applied = (\<lambda>_. 0),
     te_request_user = [], te_ai = False, te_cluster_ids = (\<lambda>_. [7]), te_instance_ids = (\<lambda>_. [])\<rparr>"

definition demo_state :: "flow_row list \<Rightarrow> ticket_state" where
  "demo_state fs = \<lparr>tk_status = TICKET_PENDING, tk_updater = [], tk_flows = fs, tk_todos = [], tk_history = [], tk_trees = (\<lambda>_. None),
     tk_itsm = (\<lambda>_. None), tk_clock = 0, tk_fresh = 5, tk_tasks = [], tk_cluster_records = [], tk_instance_records = []\<rparr>"

definition demo_ticket :: ticket_state where
  "demo_ticket = demo_state
     [(blank_flow DELIVERY)\<lparr>fl_id := 1\<rparr>, (blank_flow PAUSE)\<lparr>fl_id := 2\<rparr>, (blank_flow INNER_FLOW)\<lparr>fl_id := 3\<rparr>]"

text \<open>Started, confirmed, and then either revoked or finished.\<close>

definition demo_paused :: ticket_state where
  "demo_paused = snd (run_next_flow demo_env 3 demo_ticket)"

definition demo_running :: ticket_state where
  "demo_running = snd (todo_process demo_env (run_next_flow demo_env 2) ''ann'' ACTION_APPROVE \<lparr>tp_remark = None, tp_trigger_time = None\<rparr>
     (hd (tk_todos demo_paused)) demo_paused)"

definition demo_revoked :: ticket_state where
  "demo_revoked = snd (operate_flow (flow_revoke demo_env (run_next_flow demo_env 1) ''ann'' ''wrong'') 3 demo_running)"

definition demo_finished :: ticket_state where
  "demo_finished = snd (flow_signal demo_env (demo_running\<lparr>tk_trees := [''r'' \<mapsto> (TREE_FINISHED, False)]\<rparr>))"

definition demo_short :: ticket_state where
  "demo_short = demo_state [(blank_flow RESOURCE_APPLY)\<lparr>fl_id := 1\<rparr>, (blank_flow INNER_FLOW)\<lparr>fl_id := 2\<rparr>]"

lemma demo_env_ok: "env_ok demo_env" "\<not> te_skip_itsm demo_env"
  by (simp_all add: env_ok_def rows_kept_def demo_env_def op_ok_def)

lemma demo_new: "new_ticket demo_env demo_ticket" "new_ticket demo_env demo_short"
  by code_simp+

lemma demo_run_paused: "ticket_run demo_env demo_ticket demo_paused"
  unfolding ticket_run_def demo_paused_def by (intro r_into_rtranclp step_next)

lemma demo_paused_state:
  "map fl_status (tk_flows demo_paused) = [FLOW_SUCCEEDED, FLOW_RUNNING, FLOW_PENDING]" "exist_unfinished demo_paused"
  "flow_opened (td_flow (hd (tk_todos demo_paused))) demo_paused" "tk_todos demo_paused \<noteq> []"
  "fl_type (tk_flows demo_paused ! 1) = PAUSE" "\<not> fl_failed (tk_flows demo_paused ! 1)"
  by code_simp+

lemma demo_run_running: "ticket_run demo_env demo_ticket demo_running"
proof -
  have "ticket_step demo_env demo_paused demo_running"
    unfolding demo_running_def by (rule step_todo) (use demo_paused_state in auto)
  then show ?thesis using demo_run_paused unfolding ticket_run_def by (rule rtranclp.rtrancl_into_rtrancl [rotated])
qed

lemma demo_running_state:
  "map fl_status (tk_flows demo_running) = [FLOW_SUCCEEDED, FLOW_SUCCEEDED, FLOW_RUNNING]"
  "map fl_type (tk_flows demo_running) = [DELIVERY, PAUSE, INNER_FLOW]" "map fl_id (tk_flows demo_running) = [1, 2, 3]"
  by code_simp+

lemma demo_run_revoked: "ticket_run demo_env demo_ticket demo_revoked"
proof -
  have "ticket_step demo_env demo_running demo_revoked"
    unfolding demo_revoked_def by (rule step_revoke_flow) code_simp
  then show ?thesis using demo_run_running unfolding ticket_run_def by (rule rtranclp.rtrancl_into_rtrancl [rotated])
qed

lemma demo_revoked_state:
  "map fl_status (tk_flows demo_revoked) = [FLOW_SUCCEEDED, FLOW_SUCCEEDED, FLOW_TERMINATED]"
  "map fl_type (tk_flows demo_revoked) = [DELIVERY, PAUSE, INNER_FLOW]"
  by code_simp+

lemma demo_run_finished: "ticket_run demo_env demo_ticket demo_finished"
proof -
  have "ticket_step demo_env demo_running (demo_running\<lparr>tk_trees := [''r'' \<mapsto> (TREE_FINISHED, False)]\<rparr>)"
    by (rule step_world) simp
  then have "ticket_run demo_env demo_ticket (demo_running\<lparr>tk_trees := [''r'' \<mapsto> (TREE_FINISHED, False)]\<rparr>)"
    using demo_run_running unfolding ticket_run_def by (rule rtranclp.rtrancl_into_rtrancl [rotated])
  then show ?thesis unfolding demo_finished_def ticket_run_def by (rule rtranclp.rtrancl_into_rtrancl) (rule step_poll)
qed

lemma demo_finished_state: "map fl_status (tk_flows demo_finished) = [FLOW_SUCCEEDED, FLOW_SUCCEEDED, FLOW_SUCCEEDED]"
  by code_simp

lemma demo_history:
  "history demo_env demo_paused" "history demo_env demo_running" "history demo_env demo_revoked" "history demo_env demo_finished"
  "history demo_env demo_short"
  using demo_env_ok demo_new demo_run_paused demo_run_running demo_run_revoked demo_run_finished
  by (auto simp: history_def ticket_run_def)

section \<open>Order\<close>



text \<open>C6. A confirmation holds its ticket: while a pause is running and a todo of the ticket is open, or an approval
  is running that ITSM has not decided, \<open>run_next_flow\<close> starts nothing and changes nothing.\<close>

theorem approval_holds_ticket:
  assumes "history E t" and "f \<in> set (tk_flows t)" and "fl_status f = FLOW_RUNNING" and "\<not> fl_failed f"
    and "fl_type f = PAUSE \<and> exist_unfinished t
      \<or> fl_type f = BK_ITSM \<and> (\<exists>r. tk_itsm t (fl_obj_id f) = Some r \<and> itsm_current r = ITSM_RUNNING)"
  shows "run_next_flow E (Suc n) t = (Inr (), t)"
  using assms by (rule approval_holds)

theorem approval_holds_ticket_witness: "run_next_flow demo_env 1 demo_paused = (Inr (), demo_paused)"
proof -
  have "length (tk_flows demo_paused) = 3" "fl_status (tk_flows demo_paused ! 1) = FLOW_RUNNING" by code_simp+
  then show ?thesis
    using approval_holds_ticket [OF demo_history(1), of "tk_flows demo_paused ! 1" 0] demo_paused_state by simp
qed

text \<open>C7. The status signal comes to rest: each save polls all flows again, and polls save, but twice the number of
  flows and one nested signals are always enough. Polling keeps the flows, their kinds and what they point to.\<close>

theorem signal_always_settles:
  assumes "distinct (map fl_id (tk_flows s))" and "2 * length (tk_flows s) < n"
  shows "fst (update_ticket_status E n s) \<noteq> Inl RecursionError \<and>
     map flow_core (tk_flows (snd (update_ticket_status E n s))) = map flow_core (tk_flows s)"
proof -
  have "unsettled E s < n" using unsettled_le [of E s] assms(2) by simp
  from op_valid_at [OF settles_update [OF this assms(1)] refl] show ?thesis
    by (auto simp: polled_def row_polled_def list_all2_conv_all_nth list_eq_iff_nth_eq split: prod.splits sum.splits)
qed

theorem signal_always_settles_witness: "fst (update_ticket_status demo_env 7 demo_ticket) \<noteq> Inl RecursionError"
proof -
  have "distinct (map fl_id (tk_flows demo_ticket))" "2 * length (tk_flows demo_ticket) < 7" by code_simp+
  then show ?thesis using signal_always_settles by blast
qed



section \<open>Revocation and failure\<close>

text \<open>C9. After a flow was revoked or terminated the ticket starts nothing more: \<open>run_next_flow\<close> changes nothing.
  Resource flows are excepted: their status ignores a termination.\<close>

theorem revoked_ticket_starts_nothing:
  assumes "history E t" and "f \<in> set (tk_flows t)" and "fl_status f \<in> {FLOW_TERMINATED, FLOW_REVOKED}" and "fl_type f \<notin> resource_types"
  shows "run_next_flow E (Suc n) t = (Inr (), t)"
  using assms by (rule revoked_holds)

theorem revoked_ticket_starts_nothing_witness: "run_next_flow demo_env 1 demo_revoked = (Inr (), demo_revoked)"
proof -
  have "length (tk_flows demo_revoked) = 3" "fl_status (tk_flows demo_revoked ! 2) = FLOW_TERMINATED"
    "fl_type (tk_flows demo_revoked ! 2) = INNER_FLOW" by code_simp+
  then show ?thesis
    using revoked_ticket_starts_nothing [OF demo_history(3), of "tk_flows demo_revoked ! 2" 0] by (simp add: resource_types_def)
qed

text \<open>C10. Revoking a task flow that was started ends the ticket, even when the pipeline engine refuses: the ticket
  and the flow are terminated and no todo of the flow is open.\<close>

theorem revoking_task_flow_ends_ticket:
  assumes "history E t" and "f \<in> set (tk_flows t)" and "fl_status f \<notin> set FLOW_FINISHED_STATUS \<union> {FLOW_PENDING}"
    and "fl_type f \<in> inner_types" and "u = snd (operate_flow (flow_revoke E run_next operator remark) (fl_id f) t)"
  shows "tk_status u = TICKET_TERMINATED \<and> (\<forall>td\<in>set (tk_todos u). td_flow td = fl_id f \<longrightarrow> td_status td \<noteq> TODO_OPEN)
    \<and> (\<forall>g\<in>set (tk_flows u). fl_id g = fl_id f \<longrightarrow> fl_status g = FLOW_TERMINATED)"
  using assms by (rule revoke_ends)

theorem revoking_task_flow_ends_ticket_witness: "tk_status demo_revoked = TICKET_TERMINATED"
proof -
  have "length (tk_flows demo_running) = 3" "fl_status (tk_flows demo_running ! 2) = FLOW_RUNNING"
    "fl_type (tk_flows demo_running ! 2) = INNER_FLOW" "fl_id (tk_flows demo_running ! 2) = 3" by code_simp+
  then show ?thesis
    using revoking_task_flow_ends_ticket [OF demo_history(2), of "tk_flows demo_running ! 2" demo_revoked
        "run_next_flow demo_env 1" "''ann''" "''wrong''"]
    by (simp add: inner_types_def FLOW_FINISHED_STATUS_def demo_revoked_def)
qed



section \<open>Clusters\<close>

text \<open>Tickets 1 and 2 with flows of the same numbers, of types \<open>a\<close> and \<open>b\<close>, and two tables for them.\<close>

definition demo_map :: exclusive_map where
  "demo_map = [(''a'', [(''b'', True)]), (''b'', [(''a'', True)])]"

definition demo_map_open :: exclusive_map where
  "demo_map_open = [(''a'', [(''b'', True)]), (''b'', [(''a'', False)])]"

definition demo_locks :: lock_state where
  "demo_locks = \<lparr>lk_records = [], lk_flow = (\<lambda>_. (INNER_FLOW, FLOW_PENDING)), lk_owner = (\<lambda>f. f),
     lk_type = (\<lambda>t. if t = 1 then ''a'' else ''b''), lk_cluster = (\<lambda>_. True)\<rparr>"

definition demo_shared :: lock_state where
  "demo_shared = snd (lock_run demo_map_open 2 [7] (snd (lock_run demo_map_open 1 [7] demo_locks)))"

lemma demo_shared_history: "lock_history demo_map_open demo_shared"
proof -
  let ?s = "snd (lock_run demo_map_open 1 [7] demo_locks)"
  have "lock_step demo_map_open demo_locks ?s"
    by (rule lock_step.start [where f = 1, OF _ _ prod.collapse [symmetric]]) (simp_all add: demo_locks_def)
  moreover have "lock_step demo_map_open ?s demo_shared"
    unfolding demo_shared_def by (rule lock_step.start [where f = 2, OF _ _ prod.collapse [symmetric]]) code_simp+
  moreover have "lk_records demo_locks = []" by (simp add: demo_locks_def)
  ultimately show ?thesis unfolding lock_history_def by (meson converse_rtranclp_into_rtranclp r_into_rtranclp)
qed

definition demo_record :: "nat \<Rightarrow> operate_record" where
  "demo_record t = \<lparr>or_cluster = 7, or_flow = t, or_ticket = t, or_unlock = [], or_pause = False\<rparr>"

lemma demo_shared_records: "lk_records demo_shared = [demo_record 1, demo_record 2]"
  by code_simp



section \<open>Todos and the status\<close>

text \<open>C28. Only those a todo is for can handle it, and only once: for anybody else, and for a todo that is not
  open any more, the request is refused and nothing changes. A superuser may handle every todo but a pause.\<close>

theorem only_handlers_handle:
  assumes "\<not> todo_open td \<or> \<not> may_process E username td"
  shows "\<exists>e. todo_process E run_next username action p td s = (Inl e, s)"
  using assms by (rule refused_todo)

theorem only_handlers_handle_witness:
  "\<exists>e. todo_process demo_env (run_next_flow demo_env 2) ''eve'' ACTION_APPROVE \<lparr>tp_remark = None, tp_trigger_time = None\<rparr>
     (hd (tk_todos demo_paused)) demo_paused = (Inl e, demo_paused)"
proof -
  have "\<not> may_process demo_env ''eve'' (hd (tk_todos demo_paused))" by code_simp
  then show ?thesis using only_handlers_handle by blast
qed

text \<open>C29. When all flows are finished the signal sets the ticket to succeeded, and sends what belongs to that
  status only if the ticket did not have it already.\<close>

theorem finished_ticket_succeeds:
  assumes "history E t" and "list_all (\<lambda>f. fl_status f \<in> set FLOW_FINISHED_STATUS) (tk_flows t)"
  shows "flow_signal E t = (Inr (), if tk_status t = TICKET_SUCCEEDED then t
     else t\<lparr>tk_status := TICKET_SUCCEEDED, tk_tasks := tk_tasks t @ status_tasks E TICKET_SUCCEEDED\<rparr>)"
  using all_finished_succeeds [OF assms] by (simp add: set_ticket_status_def op_change_def)

theorem finished_ticket_succeeds_witness: "tk_status (snd (flow_signal demo_env demo_finished)) = TICKET_SUCCEEDED"
proof -
  have "list_all (\<lambda>f. fl_status f \<in> set FLOW_FINISHED_STATUS) (tk_flows demo_finished)" by code_simp
  from finished_ticket_succeeds [OF demo_history(4) this] show ?thesis by simp
qed

section \<open>Configurations\<close>

definition demo_config :: "nat \<Rightarrow> nat \<Rightarrow> nat list \<Rightarrow> int \<Rightarrow> flow_config" where
  "demo_config i biz clusters now = \<lparr>fc_id = i, fc_biz = biz, fc_clusters = clusters, fc_tags = [], fc_ticket_type = ''T'', fc_editable = True,
     fc_itsm = Some (biz = 0), fc_manual = Some True, fc_expire = None, fc_update = now\<rparr>"

definition demo_request :: "nat list \<Rightarrow> config_request" where
  "demo_request clusters = \<lparr>rq_biz = 3, rq_clusters = clusters, rq_tags = [], rq_types = [''T''], rq_itsm = Some False, rq_manual = None, rq_expire = None\<rparr>"

text \<open>C30. The configuration of each cluster of a ticket is the newest of its business that names the cluster, else
  the newest whose tags match, else the default of the business, else that of the platform; the manual
  confirmation is always the platform's.\<close>

theorem config_precedence:
  assumes "get_cluster_configs tags db ty biz ids = Inr rs" and "ids \<noteq> []"
  shows "\<exists>plat\<in>set db. fc_biz plat = PLAT_BIZ_ID \<and> fc_ticket_type plat = ty \<and>
     list_all2 (\<lambda>i r. \<exists>d. r = with_global_manual_confirm plat d \<and>
       effective_config tags (filter (\<lambda>c. fc_biz c = biz \<and> fc_ticket_type c = ty) db) plat i d) ids rs"
  using assms by (rule cluster_configs_effective)

theorem config_precedence_witness:
  "\<exists>rs plat. get_cluster_configs (\<lambda>_. []) [demo_config 1 0 [] 5, demo_config 2 3 [7] 6] ''T'' 3 [7, 8] = Inr rs \<and>
     list_all2 (\<lambda>i r. \<exists>d. r = with_global_manual_confirm plat d \<and>
       effective_config (\<lambda>_. []) [demo_config 2 3 [7] 6] plat i d) [7, 8] rs"
proof -
  obtain rs where rs: "get_cluster_configs (\<lambda>_. []) [demo_config 1 0 [] 5, demo_config 2 3 [7] 6] ''T'' 3 [7, 8] = Inr rs"
    by (simp add: get_cluster_configs_def config_get_def demo_config_def PLAT_BIZ_ID_def Let_def)
  from config_precedence [OF this] show ?thesis using rs by (auto simp: demo_config_def)
qed





section \<open>Where the code does otherwise\<close>

text \<open>
  A new tag configuration with the wildcard is not found to overlap one with a single value of the same key, so
  it is accepted, and being newer it takes the clusters of the other one.
\<close>

definition demo_tagged :: "nat \<Rightarrow> string \<Rightarrow> int \<Rightarrow> flow_config" where
  "demo_tagged i v now = (demo_config i 3 [] now)\<lparr>fc_tags := [(Some ''k'', Some v)]\<rparr>"

lemma wildcard_overlap_accepted:
  "check_create_config [demo_config 1 0 [] 5, demo_tagged 2 ''a'' 6]
     ((demo_request [])\<lparr>rq_tags := [(Some ''k'', Some CLUSTER_TAG_WILDCARD_VALUE)]\<rparr>) ''T'' = Inr ()"
  "tags_match (\<lambda>_. [(''k'', ''a'')]) 7 (demo_tagged 2 ''a'' 6) \<and> tags_match (\<lambda>_. [(''k'', ''a'')]) 7 (demo_tagged 3 CLUSTER_TAG_WILDCARD_VALUE 8)"
  by code_simp+

text \<open>The other order is refused.\<close>

lemma wildcard_overlap_refused:
  "check_create_config [demo_config 1 0 [] 5, demo_tagged 2 CLUSTER_TAG_WILDCARD_VALUE 6]
     ((demo_request [])\<lparr>rq_tags := [(Some ''k'', Some ''a'')]\<rparr>) ''T'' = Inl UserError"
  by code_simp

text \<open>Revoking a revoked ticket terminates the next flow, which never ran.\<close>

definition demo_two :: ticket_state where
  "demo_two = demo_state [(blank_flow INNER_FLOW)\<lparr>fl_id := 1\<rparr>, (blank_flow PAUSE)\<lparr>fl_id := 2\<rparr>]"

lemma second_revocation_goes_on:
  "map fl_status (tk_flows (snd (revoke_ticket demo_env (op_ok ()) ''ann'' [] demo_two))) = [FLOW_TERMINATED, FLOW_PENDING]"
  "map fl_status (tk_flows (snd (revoke_ticket demo_env (op_ok ()) ''ann'' []
     (snd (revoke_ticket demo_env (op_ok ()) ''ann'' [] demo_two))))) = [FLOW_TERMINATED, FLOW_TERMINATED]"
  by code_simp+

text \<open>A resource flow that has not started cannot be revoked: the signal of the revocation sets it back.\<close>

lemma waiting_resource_not_revoked:
  "map fl_status (tk_flows (snd (revoke_ticket demo_env (op_ok ()) ''ann'' [] demo_short))) = [FLOW_PENDING, FLOW_PENDING]"
  "tk_status (snd (revoke_ticket demo_env (op_ok ()) ''ann'' [] demo_short)) = TICKET_PENDING"
  by code_simp+

text \<open>With approvals switched off, a ticket whose first flow is an approval does not start.\<close>

lemma skipped_approval_stops:
  "map fl_status (tk_flows (snd (run_next_flow (demo_env\<lparr>te_skip_itsm := True\<rparr>) 3
     (demo_state [(blank_flow BK_ITSM)\<lparr>fl_id := 1\<rparr>, (blank_flow INNER_FLOW)\<lparr>fl_id := 2\<rparr>])))) = [FLOW_PENDING, FLOW_PENDING]"
  by code_simp

text \<open>
  A delivery that was acknowledged but is still waiting, because its run was interrupted or has not come further in
  another process, runs the next flow, which is itself, without end.
\<close>

definition demo_acked :: ticket_state where
  "demo_acked = demo_state [(blank_flow DELIVERY)\<lparr>fl_id := 1, fl_ack := True\<rparr>]"

lemma acknowledged_delivery_recurs: "run_next_flow demo_env n demo_acked = (Inl RecursionError, demo_acked)"
proof (induction n)
  case (Suc n)
  let ?f = "(blank_flow DELIVERY)\<lparr>fl_id := 1, fl_ack := True\<rparr>"
  have rows: "tk_flows demo_acked = [?f]" by (simp add: demo_acked_def demo_state_def)
  have "flow_status_of demo_env sig ?f demo_acked = (Inr (Some FLOW_PENDING), demo_acked)" for sig
    by (simp add: flow_status_of_def flow_init_def base_flow_status_def blank_flow_def resource_types_def op_then_def op_bind_def op_ok_def
        FLOW_FINISHED_STATUS_def)
  moreover have "check_flow_ack demo_env (fl_id ?f) demo_acked = (Inr True, demo_acked)"
    by (simp add: check_flow_ack_def flow_by_id_def rows op_bind_def op_ok_def)
  moreover have "next_flow demo_env demo_acked = Some ?f" "current_flow demo_env demo_acked = Some ?f"
    by (simp_all add: current_flow_def next_flow_def rows first_of_def blank_flow_def demo_env_def)
  ultimately show ?case
    using Suc rows
    by (simp add: start_next_def flow_run_def flow_init_def base_run_def op_then_def op_bind_def op_ok_def blank_flow_def)
qed (simp add: op_raise_def)

text \<open>
  A task flow that failed after it had unlocked its cluster and is retried starts its pipeline again, but keeps what it had
  unlocked: the other ticket is let in although it was refused when the flow started first.
\<close>

lemma retried_flow_stays_unlocked:
  "fst (lock_run demo_map 2 [7] (snd (lock_run demo_map 1 [7] demo_locks))) = Inl ExclusiveOperateError"
  "fst (lock_run demo_map 2 [7] (snd (lock_run demo_map 1 [7] (set_flow_status 1 FLOW_FAILED
     (snd (add_unlock_execute 1 [''b''] [7] (snd (lock_run demo_map 1 [7] demo_locks)))))))) = Inr ()"
  by code_simp+

end
