(* ===== verification/Redis_Nodes.thy ===== *)
theory Redis_Nodes
  imports Keys
begin

text \<open>
  Reading and writing what Redis Cluster says about its nodes (\<open>flow/utils/redis/redis_cluster_nodes.py\<close>): the
  ranges of slots, the lines of \<open>CLUSTER NODES\<close>, the fields of \<open>CLUSTER INFO\<close>. Texts are ASCII.
\<close>

section \<open>Texts as Python reads them\<close>

definition py_space :: "char \<Rightarrow> bool" where
  "py_space c \<longleftrightarrow> (of_char c :: nat) \<in> {9, 10, 11, 12, 13, 28, 29, 30, 31, 32}"

definition lstrip_if :: "(char \<Rightarrow> bool) \<Rightarrow> string \<Rightarrow> string" where
  "lstrip_if P s = dropWhile P s"

definition rstrip_if :: "(char \<Rightarrow> bool) \<Rightarrow> string \<Rightarrow> string" where
  "rstrip_if P s = rev (dropWhile P (rev s))"

definition strip_if :: "(char \<Rightarrow> bool) \<Rightarrow> string \<Rightarrow> string" where
  "strip_if P s = rstrip_if P (lstrip_if P s)"

text \<open>\<open>s.split()\<close>: the runs without white space.\<close>

fun split_space :: "string \<Rightarrow> string \<Rightarrow> string list" where
  "split_space cur [] = (if cur = [] then [] else [rev cur])"
| "split_space cur (c # cs) =
     (if py_space c then (if cur = [] then split_space [] cs else rev cur # split_space [] cs)
      else split_space (c # cur) cs)"

text \<open>\<open>s.split(sep)\<close> for a separator of any length but zero.\<close>

function split_at :: "string \<Rightarrow> string \<Rightarrow> string \<Rightarrow> string list" where
  "split_at sep cur [] = [rev cur]"
| "split_at sep cur (c # cs) =
     (if sep \<noteq> [] \<and> take (length sep) (c # cs) = sep then rev cur # split_at sep [] (drop (length sep) (c # cs))
      else split_at sep (c # cur) cs)"
  by pat_completeness auto
termination
  by (relation "measure (\<lambda>(sep, cur, s). length s)") (auto simp: neq_Nil_conv)

text \<open>\<open>int(text)\<close>: white space around, a sign, digits with single underscores between them.\<close>

fun underscore_digits :: "bool \<Rightarrow> int \<Rightarrow> string \<Rightarrow> int option" where
  "underscore_digits after acc [] = (if after then Some acc else None)"
| "underscore_digits after acc (c # cs) =
     (if c \<in> set ''0123456789'' then underscore_digits True (10 * acc + (int (of_char c) - 48)) cs
      else if c = CHR ''_'' \<and> after then underscore_digits False acc cs
      else None)"

definition int_of_text :: "string \<Rightarrow> int result" where
  "int_of_text text =
     (let s = strip_if py_space text;
          v = (case s of
                 [] \<Rightarrow> None
               | c # cs \<Rightarrow> if c = CHR ''-'' then map_option uminus (underscore_digits False 0 cs)
                           else if c = CHR ''+'' then underscore_digits False 0 cs
                           else underscore_digits False 0 s)
      in case v of None \<Rightarrow> Inl ValueError | Some i \<Rightarrow> Inr i)"

section \<open>Slots\<close>

definition MIN_SLOT :: int where "MIN_SLOT = 0"
definition MAX_SLOT :: int where "MAX_SLOT = 16383"
definition SLOT_SEPARATOR :: string where "SLOT_SEPARATOR = ''-''"
definition IMPORTING_SEPARATOR :: string where "IMPORTING_SEPARATOR = ''-<-''"
definition MIGRATING_SEPARATOR :: string where "MIGRATING_SEPARATOR = ''->-''"

text \<open>Dicts keep the order of their keys; a new value does not move its key.\<close>

record slot_maps =
  sm_slots :: "(int \<times> bool) list"
  sm_migrating :: "(int \<times> string) list"
  sm_importing :: "(int \<times> string) list"

definition slot_ok :: "int \<Rightarrow> bool" where
  "slot_ok n \<longleftrightarrow> \<not> (n < MIN_SLOT \<or> n > MAX_SLOT)"

definition add_slots :: "int list \<Rightarrow> slot_maps \<Rightarrow> slot_maps" where
  "add_slots ns m = m\<lparr>sm_slots := fold (\<lambda>n d. AList.update n True d) ns (sm_slots m)\<rparr>"

definition decode_item :: "string \<Rightarrow> slot_maps \<Rightarrow> slot_maps result" where
  "decode_item item m =
     (let item = strip_if py_space item in
      case split_at SLOT_SEPARATOR [] item of
        [a, b, c] \<Rightarrow>
          (case int_of_text (rstrip_if (\<lambda>x. x = CHR '']'') (lstrip_if (\<lambda>x. x = CHR ''['') a)) of
             Inl e \<Rightarrow> Inl e
           | Inr slot \<Rightarrow>
               let separator = SLOT_SEPARATOR @ b @ SLOT_SEPARATOR; node = rstrip_if (\<lambda>x. x = CHR '']'') c in
               if separator = IMPORTING_SEPARATOR then Inr (m\<lparr>sm_importing := AList.update slot node (sm_importing m)\<rparr>)
               else if separator = MIGRATING_SEPARATOR then Inr (m\<lparr>sm_migrating := AList.update slot node (sm_migrating m)\<rparr>)
               else Inl UserError)
      | [a] \<Rightarrow>
          (case int_of_text a of
             Inl e \<Rightarrow> Inl e
           | Inr n \<Rightarrow> if \<not> slot_ok n then Inl UserError else Inr (add_slots [n] m))
      | [a, b] \<Rightarrow>
          (case int_of_text a of
             Inl e \<Rightarrow> Inl e
           | Inr start \<Rightarrow>
               (case int_of_text b of
                  Inl e \<Rightarrow> Inl e
                | Inr end_slot \<Rightarrow> if \<not> slot_ok start \<or> \<not> slot_ok end_slot then Inl UserError else Inr (add_slots [start..end_slot] m)))
      | _ \<Rightarrow> Inr m)"

primrec decode_items :: "string list \<Rightarrow> slot_maps \<Rightarrow> slot_maps result" where
  "decode_items [] m = Inr m"
| "decode_items (item # items) m = (case decode_item item m of Inl e \<Rightarrow> Inl e | Inr m \<Rightarrow> decode_items items m)"

definition decode_slots_from_str ::
  "string \<Rightarrow> string \<Rightarrow> (int list \<times> (int \<times> bool) list \<times> (int \<times> string) list \<times> (int \<times> string) list) result" where
  "decode_slots_from_str slot_str sep =
     (let items = (if sep \<in> {'''', '' '', [CHR 0x09], [CHR 0x0A]} then split_space [] slot_str else split_at sep [] slot_str)
      in case decode_items items \<lparr>sm_slots = [], sm_migrating = [], sm_importing = []\<rparr> of
           Inl e \<Rightarrow> Inl e
         | Inr m \<Rightarrow> Inr (map fst (sm_slots m), sm_slots m, sm_migrating m, sm_importing m))"

text \<open>\<open>convert_slot_to_str\<close>.\<close>

definition slot_range :: "int \<Rightarrow> int \<Rightarrow> string" where
  "slot_range start cur = (if start = cur then str_of_int start else str_of_int start @ ''-'' @ str_of_int cur)"

fun convert_loop :: "string \<Rightarrow> int \<Rightarrow> int \<Rightarrow> int list \<Rightarrow> string" where
  "convert_loop str01 start cur [] = str01 @ '','' @ slot_range start cur"
| "convert_loop str01 start cur (nxt # slots) =
     (if nxt = cur then convert_loop str01 start cur slots
      else if cur = nxt - 1 then convert_loop str01 start nxt slots
      else convert_loop (str01 @ '','' @ slot_range start cur) nxt nxt slots)"

definition convert_slot_to_str :: "int list \<Rightarrow> string" where
  "convert_slot_to_str slots =
     (case slots of [] \<Rightarrow> [] | s # _ \<Rightarrow> strip_if (\<lambda>c. c = CHR '','') (convert_loop [] s s slots))"

section \<open>Nodes\<close>

datatype redis_role = ROLE_MASTER | ROLE_SLAVE | ROLE_UNKNOWN

datatype link_status = LINK_CONNECTED | LINK_DISCONNECTED

datatype node_fail = PFAIL | FAIL | HANDSHAKE | NOADDR | NOFLAGS

text \<open>\<open>ClusterNodeData\<close>; \<open>nd_role\<close> and \<open>nd_link\<close> are \<open>None\<close> for the empty text.\<close>

record cluster_node =
  nd_id :: string
  nd_addr :: string
  nd_ip :: string
  nd_port :: int
  nd_cport :: int
  nd_role :: "redis_role option"
  nd_myself :: bool
  nd_link :: "link_status option"
  nd_master :: string
  nd_fail :: "node_fail list"
  nd_ping :: int
  nd_pong :: int
  nd_epoch :: int
  nd_src :: string
  nd_slots :: "int list"
  nd_slots_map :: "(int \<times> bool) list"
  nd_migrating :: "(int \<times> string) list"
  nd_importing :: "(int \<times> string) list"

definition ClusterNodeData :: cluster_node where
  "ClusterNodeData = \<lparr>nd_id = [], nd_addr = [], nd_ip = [], nd_port = 0, nd_cport = 0, nd_role = None, nd_myself = False,
     nd_link = None, nd_master = [], nd_fail = [], nd_ping = 0, nd_pong = 0, nd_epoch = 0, nd_src = [], nd_slots = [],
     nd_slots_map = [], nd_migrating = [], nd_importing = []\<rparr>"

definition set_role :: "string \<Rightarrow> cluster_node \<Rightarrow> cluster_node result" where
  "set_role flags node =
     (let role = fold (\<lambda>v r. if v = ''master'' then Some ROLE_MASTER else if v = ''slave'' then Some ROLE_SLAVE else r)
                   (split_at '','' [] flags) None
      in if role = None then Inl UserError else Inr (node\<lparr>nd_role := role\<rparr>))"

definition get_role :: "cluster_node \<Rightarrow> redis_role" where
  "get_role node =
     (if nd_role node = Some ROLE_MASTER then ROLE_MASTER
      else if nd_role node = Some ROLE_SLAVE then ROLE_SLAVE
      else if nd_master node \<noteq> [] then ROLE_SLAVE
      else if length (nd_slots node) > 0 then ROLE_MASTER
      else ROLE_UNKNOWN)"

definition slot_cnt :: "cluster_node \<Rightarrow> nat" where
  "slot_cnt node = length (nd_slots node)"

definition set_link_status :: "string \<Rightarrow> cluster_node \<Rightarrow> cluster_node result" where
  "set_link_status status node =
     (if status = ''connected'' then Inr (node\<lparr>nd_link := Some LINK_CONNECTED\<rparr>)
      else if status = ''disconnected'' then Inr (node\<lparr>nd_link := Some LINK_DISCONNECTED\<rparr>)
      else Inl UserError)"

definition fail_of :: "string \<Rightarrow> node_fail list" where
  "fail_of v = (if v = ''fail'' then [FAIL] else if v = ''fail?'' then [PFAIL] else if v = ''handshake'' then [HANDSHAKE]
     else if v = ''noaddr'' then [NOADDR] else if v = ''noflags'' then [NOFLAGS] else [])"

definition set_failure_status :: "string \<Rightarrow> cluster_node \<Rightarrow> cluster_node" where
  "set_failure_status flags node = node\<lparr>nd_fail := concat (map fail_of (split_at '','' [] flags))\<rparr>"

definition set_referent_master :: "string \<Rightarrow> cluster_node \<Rightarrow> cluster_node" where
  "set_referent_master ref node = node\<lparr>nd_master := (if ref = ''-'' then [] else ref)\<rparr>"

definition is_running :: "cluster_node \<Rightarrow> bool" where
  "is_running node \<longleftrightarrow> nd_fail node = [] \<and> nd_link node = Some LINK_CONNECTED"

section \<open>CLUSTER NODES\<close>

text \<open>\<open>ipaddress.ip_address\<close> on a text without a colon.\<close>

definition octet_ok :: "string \<Rightarrow> bool" where
  "octet_ok s \<longleftrightarrow> s \<noteq> [] \<and> list_all (\<lambda>c. c \<in> set ''0123456789'') s \<and> length s \<le> 3
     \<and> \<not> (length s > 1 \<and> hd s = CHR ''0'') \<and> (case parse_int s of None \<Rightarrow> False | Some n \<Rightarrow> n \<le> 255)"

definition is_valid_ip :: "string \<Rightarrow> bool" where
  "is_valid_ip s \<longleftrightarrow> length (split_at ''.'' [] s) = 4 \<and> list_all octet_ok (split_at ''.'' [] s)"

definition item_at :: "'a list \<Rightarrow> nat \<Rightarrow> 'a result" where
  "item_at xs i = (if i < length xs then Inr (xs ! i) else Inl IndexError)"

definition set_addr :: "string \<Rightarrow> cluster_node \<Rightarrow> cluster_node result" where
  "set_addr text node =
     (let ip_port = split_at ''@'' [] text; addr = hd ip_port; node = node\<lparr>nd_addr := addr\<rparr> in
      bind_result
        (if addr = [] then Inr node
         else let list02 = split_at '':'' [] addr;
                  node = node\<lparr>nd_ip := if is_valid_ip (hd list02) then hd list02 else hd (split_at ''.'' [] addr)\<rparr>
              in bind_result (item_at list02 1) (\<lambda>p. bind_result (int_of_text p) (\<lambda>port. Inr (node\<lparr>nd_port := port\<rparr>))))
        (\<lambda>node. bind_result (item_at ip_port 1) (\<lambda>p. bind_result (int_of_text p) (\<lambda>cport. Inr (node\<lparr>nd_cport := cport\<rparr>)))))"

definition update_all :: "(int \<times> 'v) list \<Rightarrow> (int \<times> 'v) list \<Rightarrow> (int \<times> 'v) list" where
  "update_all kvs d = fold (\<lambda>(k, v) d. AList.update k v d) kvs d"

text \<open>What follows the eighth column; the third and fourth result are taken under each other's name.\<close>

primrec add_node_slots :: "string list \<Rightarrow> cluster_node \<Rightarrow> cluster_node result" where
  "add_node_slots [] node = Inr node"
| "add_node_slots (slot # slots) node =
     (let node = node\<lparr>nd_src := if nd_src node = [] then slot else nd_src node @ '' '' @ slot\<rparr> in
      case decode_slots_from_str slot '' '' of
        Inl e \<Rightarrow> Inl e
      | Inr (slots01, _, importing_slots, migrating_slots) \<Rightarrow>
          add_node_slots slots
            (node\<lparr>nd_slots := nd_slots node @ slots01,
               nd_slots_map := update_all (map (\<lambda>s. (s, True)) slots01) (nd_slots_map node),
               nd_importing := update_all importing_slots (nd_importing node),
               nd_migrating := update_all migrating_slots (nd_migrating node)\<rparr>))"

definition decode_node :: "string list \<Rightarrow> cluster_node result" where
  "decode_node values =
     bind_result (set_addr (values ! 1) (ClusterNodeData\<lparr>nd_id := values ! 0\<rparr>)) (\<lambda>node.
     bind_result (set_role (values ! 2) node) (\<lambda>node.
       let node = set_referent_master (values ! 3) (set_failure_status (values ! 2) node) in
     bind_result (int_of_text (values ! 4)) (\<lambda>ping.
     bind_result (int_of_text (values ! 5)) (\<lambda>pong.
     bind_result (int_of_text (values ! 6)) (\<lambda>epoch.
     bind_result (set_link_status (values ! 7) (node\<lparr>nd_ping := ping, nd_pong := pong, nd_epoch := epoch\<rparr>)) (\<lambda>node.
     bind_result (add_node_slots (drop 8 values) node) (\<lambda>node.
       Inr (if starts_with (values ! 2) ''myself'' then node\<lparr>nd_myself := True\<rparr> else node))))))))"

primrec decode_lines ::
  "string list \<Rightarrow> cluster_node list \<Rightarrow> (string \<times> cluster_node) list \<Rightarrow> (cluster_node list \<times> (string \<times> cluster_node) list) result" where
  "decode_lines [] node_list node_map = Inr (node_list, node_map)"
| "decode_lines (line # lines) node_list node_map =
     (let values = split_space [] line in
      if length values < 8 then decode_lines lines node_list node_map
      else case decode_node values of
             Inl e \<Rightarrow> Inl e
           | Inr node \<Rightarrow> decode_lines lines (node_list @ [node]) (AList.update (nd_addr node) node node_map))"

definition decode_cluster_nodes :: "string \<Rightarrow> (cluster_node list \<times> (string \<times> cluster_node) list) result" where
  "decode_cluster_nodes text = decode_lines (split_at [CHR 0x0A] [] text) [] []"

definition get_masters_with_slots :: "string \<Rightarrow> cluster_node list result" where
  "get_masters_with_slots text =
     bind_result (decode_cluster_nodes text) (\<lambda>(nodes, _).
       Inr (filter (\<lambda>node. get_role node = ROLE_MASTER \<and> slot_cnt node > 0) nodes))"

definition group_slaves_by_master_id :: "string \<Rightarrow> (string \<times> cluster_node list) list result" where
  "group_slaves_by_master_id text =
     bind_result (decode_cluster_nodes text) (\<lambda>(nodes, _).
       Inr (fold (\<lambda>node masters. if get_role node = ROLE_SLAVE
                then AList.update (nd_master node)
                       ((case map_of masters (nd_master node) of None \<Rightarrow> [] | Some ns \<Rightarrow> ns) @ [node]) masters
                else masters) nodes []))"

section \<open>CLUSTER INFO\<close>

text \<open>The counters by the name of their attribute; the table pairs the field that is read with the attribute it sets.\<close>

record cluster_info =
  ci_state :: string
  ci_count :: "string \<Rightarrow> int"

definition INFO_FIELDS :: "(string \<times> string) list" where
  "INFO_FIELDS =
     [(''cluster_slots_assigend'', ''cluster_slots_assigned''), (''cluster_slots_ok'', ''cluster_slots_ok''),
      (''cluster_slots_pfail'', ''cluster_slots_pfail''), (''cluster_known_nodes'', ''cluster_known_nodes''),
      (''cluster_size'', ''cluster_zize''), (''cluster_current_epoch'', ''cluster_current_epoch''),
      (''cluster_my_epoch'', ''cluster_my_epoch''),
      (''cluster_stats_messages_ping_sent'', ''cluster_stats_messages_pingsent''),
      (''cluster_stats_messages_pong_sent'', ''cluster_stats_messages_pongsent''),
      (''cluster_stats_messages_meet_sent'', ''cluster_stats_messages_meetsent''),
      (''cluster_stats_messages_sent'', ''cluster_stats_messages_sent''),
      (''cluster_stats_messages_ping_received'', ''cluster_stats_messages_ping_received''),
      (''cluster_stats_messages_pong_received'', ''cluster_stats_messages_pong_received''),
      (''cluster_stats_messages_meet_received'', ''cluster_stats_messages_meet_received''),
      (''cluster_stats_messages_update_received'', ''cluster_stats_messages_update_received''),
      (''cluster_stats_messages_received'', ''cluster_stats_messages_received'')]"

definition decode_info_line :: "string \<Rightarrow> cluster_info \<Rightarrow> cluster_info result" where
  "decode_info_line item info =
     (let item = strip_if py_space item;
          key = takeWhile (\<lambda>c. c \<noteq> CHR '':'') item; rest = dropWhile (\<lambda>c. c \<noteq> CHR '':'') item
      in if rest = [] then Inr info
         else if key = ''cluster_state'' then Inr (info\<lparr>ci_state := tl rest\<rparr>)
         else case map_of INFO_FIELDS key of
                None \<Rightarrow> Inr info
              | Some attr \<Rightarrow> bind_result (int_of_text (tl rest)) (\<lambda>n. Inr (info\<lparr>ci_count := (ci_count info)(attr := n)\<rparr>)))"

primrec decode_info_lines :: "string list \<Rightarrow> cluster_info \<Rightarrow> cluster_info result" where
  "decode_info_lines [] info = Inr info"
| "decode_info_lines (item # items) info = bind_result (decode_info_line item info) (decode_info_lines items)"

definition decode_cluster_info :: "string \<Rightarrow> cluster_info result" where
  "decode_cluster_info cmd_ret = decode_info_lines (split_at [CHR 0x0A] [] cmd_ret) \<lparr>ci_state = [], ci_count = (\<lambda>_. 0)\<rparr>"

end
