(* ===== verification/Redis_Slots.thy ===== *)
theory Redis_Slots
  imports Redis_Nodes
begin

text \<open>
  The ranges of slots read back: \<open>decode_slots_from_str\<close> undoes \<open>convert_slot_to_str\<close> on slots in rising order. A decoded
  node has only slots that exist, each known to its map, and a role and a link that were named.
\<close>

section \<open>Numbers\<close>

definition is_digit :: "char \<Rightarrow> bool" where
  "is_digit c \<longleftrightarrow> c \<in> set ''0123456789''"

lemma digit_char_in: "d < 10 \<Longrightarrow> is_digit (digit_char d)"
  unfolding digit_char_def is_digit_def by (rule nth_mem) simp

lemma digit_char_value: "d < 10 \<Longrightarrow> int (of_char (digit_char d)) - 48 = int d"
proof -
  assume "d < 10"
  then have "d \<in> set [0, 1, 2, 3, 4, 5, 6, 7, 8, 9 :: nat]" by (auto simp: less_Suc_eq numeral_eq_Suc)
  then show ?thesis by (auto simp: digit_char_def)
qed

lemma digits_apart:
  "is_digit c \<Longrightarrow> \<not> py_space c \<and> c \<noteq> CHR ''-'' \<and> c \<noteq> CHR ''+'' \<and> c \<noteq> CHR '',''"
  by (auto simp: is_digit_def py_space_def)

lemma underscore_digit:
  "is_digit c \<Longrightarrow> underscore_digits b acc (c # cs) = underscore_digits True (10 * acc + (int (of_char c) - 48)) cs"
  unfolding is_digit_def by (subst underscore_digits.simps(2)) (rule if_P)

lemma digits_of_nat: "\<forall>c\<in>set (str_of_nat n). is_digit c"
proof (induction n rule: str_of_nat.induct)
  case (1 n)
  show ?case by (subst str_of_nat.simps) (use 1 digit_char_in [of n] digit_char_in [of "n mod 10"] in auto)
qed

lemma str_of_nat_not_empty: "str_of_nat n \<noteq> []"
  by (subst str_of_nat.simps) simp

lemma underscore_digits_append:
  "\<forall>c\<in>set xs. is_digit c \<Longrightarrow> xs \<noteq> [] \<Longrightarrow>
     underscore_digits b acc (xs @ ys) = underscore_digits True (the (underscore_digits b acc xs)) ys"
proof (induction xs arbitrary: b acc)
  case (Cons c xs)
  then show ?case by (cases "xs = []") (simp_all add: underscore_digit del: underscore_digits.simps(2))
qed simp

lemma underscore_digits_of_nat: "underscore_digits b 0 (str_of_nat n) = Some (int n)"
proof (induction n arbitrary: b rule: str_of_nat.induct)
  case (1 n)
  show ?case
  proof (cases "n < 10")
    case True
    then show ?thesis
      by (subst str_of_nat.simps) (simp add: underscore_digit digit_char_in digit_char_value del: underscore_digits.simps(2))
  next
    case False
    have d: "n mod 10 < 10" by simp
    have "underscore_digits b 0 (str_of_nat n) = underscore_digits True (int (n div 10)) [digit_char (n mod 10)]"
      using 1 [OF False] by (subst str_of_nat.simps)
        (simp add: False underscore_digits_append [OF digits_of_nat str_of_nat_not_empty] del: underscore_digits.simps)
    also have "\<dots> = Some (10 * int (n div 10) + int (n mod 10))"
      by (simp add: underscore_digit digit_char_in [OF d] digit_char_value [OF d] del: underscore_digits.simps(2))
    finally show ?thesis by (simp add: of_nat_div of_nat_mod)
  qed
qed

text \<open>A number is a nonempty text of digits.\<close>

definition numeral_text :: "string \<Rightarrow> bool" where
  "numeral_text s \<longleftrightarrow> s \<noteq> [] \<and> (\<forall>c\<in>set s. is_digit c)"

lemma numeral_text_int: "0 \<le> n \<Longrightarrow> numeral_text (str_of_int n)"
  using digits_of_nat str_of_nat_not_empty by (auto simp: numeral_text_def str_of_int_def)

lemma numeral_ends: "numeral_text s \<Longrightarrow> s \<noteq> [] \<and> is_digit (hd s) \<and> is_digit (last s)"
  by (simp add: numeral_text_def)

lemma strip_if_ends:
  assumes "s \<noteq> []" and "\<not> P (hd s)" and "\<not> P (last s)"
  shows "strip_if P s = s"
proof -
  have "dropWhile P xs = xs" if "xs \<noteq> []" "\<not> P (hd xs)" for xs using that by (cases xs) auto
  from this [of s] this [of "rev s"] show ?thesis
    using assms by (simp add: strip_if_def lstrip_if_def rstrip_if_def hd_rev)
qed

lemma int_of_numeral: "0 \<le> n \<Longrightarrow> int_of_text (str_of_int n) = Inr n"
proof -
  assume n: "0 \<le> n"
  let ?s = "str_of_int n"
  have ends: "?s \<noteq> []" "is_digit (hd ?s)" "is_digit (last ?s)" using numeral_ends [OF numeral_text_int [OF n]] by auto
  have strip: "strip_if py_space ?s = ?s" using ends digits_apart by (intro strip_if_ends) blast+
  have "underscore_digits False 0 ?s = Some n"
    using n underscore_digits_of_nat [of False "nat n"] by (simp add: str_of_int_def)
  moreover have "hd ?s \<noteq> CHR ''-''" "hd ?s \<noteq> CHR ''+''" using digits_apart [OF ends(2)] by auto
  ultimately show ?thesis using ends(1)
    unfolding int_of_text_def strip Let_def by (cases ?s) (simp_all del: underscore_digits.simps)
qed

section \<open>Splitting\<close>

lemma split_at_none: "x \<notin> set s \<Longrightarrow> split_at [x] cur s = [rev cur @ s]"
  by (induction s arbitrary: cur) auto

lemma split_at_sep: "x \<notin> set s \<Longrightarrow> split_at [x] cur (s @ x # t) = (rev cur @ s) # split_at [x] [] t"
  by (induction s arbitrary: cur) auto

lemma split_at_join:
  "x \<notin> set s \<Longrightarrow> \<forall>t\<in>set ts. x \<notin> set t \<Longrightarrow> split_at [x] [] (s @ concat (map (\<lambda>t. x # t) ts)) = s # ts"
  by (induction ts arbitrary: s) (auto simp: split_at_none split_at_sep)

section \<open>Ranges\<close>

lemma slot_range_text:
  assumes "0 \<le> a" "0 \<le> b"
  shows "slot_range a b \<noteq> []" "is_digit (hd (slot_range a b))" "is_digit (last (slot_range a b))"
    "CHR '','' \<notin> set (slot_range a b)"
proof -
  note nums = numeral_text_int [OF assms(1)] numeral_text_int [OF assms(2)]
  have "c \<noteq> CHR '',''" if "c \<in> set (str_of_int a) \<union> set (str_of_int b)" for c
    using that nums digits_apart unfolding numeral_text_def by blast
  then show "CHR '','' \<notin> set (slot_range a b)" by (auto simp: slot_range_def)
  show "slot_range a b \<noteq> []" "is_digit (hd (slot_range a b))" "is_digit (last (slot_range a b))"
    using nums numeral_ends by (auto simp: slot_range_def)
qed

lemma decode_slot_range:
  assumes "0 \<le> a" "a \<le> b" "b \<le> MAX_SLOT"
  shows "decode_item (slot_range a b) m = Inr (add_slots [a..b] m)"
proof -
  have b: "0 \<le> b" using assms by simp
  have nodash: "CHR ''-'' \<notin> set (str_of_int n)" if "0 \<le> n" for n
    using numeral_text_int [OF that] digits_apart unfolding numeral_text_def by blast
  have "strip_if py_space (slot_range a b) = slot_range a b"
    using slot_range_text [OF assms(1) b] digits_apart by (intro strip_if_ends) blast+
  moreover have "split_at SLOT_SEPARATOR [] (slot_range a b) = (if a = b then [str_of_int a] else [str_of_int a, str_of_int b])"
    using split_at_sep [OF nodash [OF assms(1)], of "[]" "str_of_int b"]
    by (simp add: slot_range_def SLOT_SEPARATOR_def split_at_none nodash assms(1) b)
  moreover have "slot_ok a" "slot_ok b" using assms by (auto simp: slot_ok_def MIN_SLOT_def MAX_SLOT_def)
  ultimately show ?thesis
    by (simp add: decode_item_def int_of_numeral assms(1) b)
qed

text \<open>The ranges the loop writes.\<close>

fun slot_runs :: "int \<Rightarrow> int \<Rightarrow> int list \<Rightarrow> (int \<times> int) list" where
  "slot_runs start cur [] = [(start, cur)]"
| "slot_runs start cur (nxt # slots) =
     (if nxt = cur then slot_runs start cur slots
      else if cur = nxt - 1 then slot_runs start nxt slots
      else (start, cur) # slot_runs nxt nxt slots)"

lemma convert_loop_runs:
  "convert_loop str01 start cur slots = str01 @ concat (map (\<lambda>(a, b). CHR '','' # slot_range a b) (slot_runs start cur slots))"
  by (induction str01 start cur slots rule: convert_loop.induct) auto

lemma slot_runs_range:
  "sorted_wrt (<) (cur # slots) \<Longrightarrow> 0 \<le> start \<Longrightarrow> start \<le> cur \<Longrightarrow> \<forall>s\<in>set (cur # slots). s \<le> MAX_SLOT
     \<Longrightarrow> (a, b) \<in> set (slot_runs start cur slots) \<Longrightarrow> 0 \<le> a \<and> a \<le> b \<and> b \<le> MAX_SLOT"
  by (induction start cur slots rule: slot_runs.induct) (auto split: if_splits)

lemma slot_runs_all:
  "sorted_wrt (<) (cur # slots) \<Longrightarrow> start \<le> cur
     \<Longrightarrow> concat (map (\<lambda>(a, b). [a..b]) (slot_runs start cur slots)) = [start..cur] @ slots"
proof (induction start cur slots rule: slot_runs.induct)
  case (2 start cur nxt slots)
  then have lt: "cur < nxt" and le: "start \<le> cur" and s: "sorted_wrt (<) (nxt # slots)" by auto
  show ?case
  proof (cases "cur = nxt - 1")
    case True
    have "[start..nxt] = [start..cur] @ [nxt]" using le True upto_rec2 [of start nxt] by simp
    then show ?thesis using 2(2) [OF _ True s] lt le True by simp
  next
    case False
    then show ?thesis using 2(3) [OF _ False s] lt by simp
  qed
qed simp

lemma decode_runs:
  "\<forall>(a, b)\<in>set runs. 0 \<le> a \<and> a \<le> b \<and> b \<le> MAX_SLOT \<Longrightarrow>
     decode_items (map (\<lambda>(a, b). slot_range a b) runs) m = Inr (add_slots (concat (map (\<lambda>(a, b). [a..b]) runs)) m)"
  by (induction runs arbitrary: m) (auto simp: decode_slot_range add_slots_def)

lemma update_new_keys:
  "distinct (map fst d @ ns) \<Longrightarrow> fold (\<lambda>n d. AList.update n True d) ns d = d @ map (\<lambda>n. (n, True)) ns"
proof (induction ns arbitrary: d)
  case (Cons n ns)
  have "AList.update n True d = d @ [(n, True)]" using Cons.prems by (induction d) auto
  with Cons show ?case by simp
qed simp

section \<open>The round trip\<close>

text \<open>C34. The slots of a Redis Cluster node read back: slots in rising order, at least one, written as ranges by
  \<open>convert_slot_to_str\<close> and read by \<open>decode_slots_from_str\<close> are the same slots in the same order, none of them migrating or
  importing.\<close>

theorem slots_read_back:
  assumes "slots \<noteq> []" and "sorted_wrt (<) slots" and "\<forall>s\<in>set slots. MIN_SLOT \<le> s \<and> s \<le> MAX_SLOT"
  shows "decode_slots_from_str (convert_slot_to_str slots) '','' = Inr (slots, map (\<lambda>s. (s, True)) slots, [], [])"
proof -
  obtain s rest where slots: "slots = s # rest" using assms(1) by (cases slots) auto
  define runs where "runs = slot_runs s s rest"
  have sorted: "sorted_wrt (<) (s # rest)" and low: "0 \<le> s" and high: "\<forall>x\<in>set (s # rest). x \<le> MAX_SLOT"
    using assms(2,3) slots by (simp_all add: MIN_SLOT_def)
  have ok: "\<forall>(a, b)\<in>set runs. 0 \<le> a \<and> a \<le> b \<and> b \<le> MAX_SLOT"
    unfolding runs_def using slot_runs_range [OF sorted low order_refl high] by blast
  have all: "concat (map (\<lambda>(a, b). [a..b]) runs) = slots"
    unfolding runs_def slots slot_runs_all [OF sorted order_refl] by simp
  obtain a b more where runs: "runs = (a, b) # more" using all slots by (cases runs) auto
  let ?texts = "map (\<lambda>(a, b). slot_range a b) runs"
  let ?body = "slot_range a b @ concat (map (\<lambda>t. CHR '','' # t) (map (\<lambda>(a, b). slot_range a b) more))"
  have texts: "t \<noteq> [] \<and> CHR '','' \<notin> set t \<and> last t \<noteq> CHR '','' \<and> hd t \<noteq> CHR '',''" if t: "t \<in> set ?texts" for t
  proof -
    from t obtain x y where xy: "t = slot_range x y" "(x, y) \<in> set runs" by auto
    then have "0 \<le> x" "0 \<le> y" using ok by auto
    from slot_range_text [OF this] show ?thesis using digits_apart unfolding xy(1) by blast
  qed
  have loop: "convert_loop [] s s slots = CHR '','' # ?body"
    using runs by (simp add: convert_loop_runs slots flip: runs_def) (simp add: comp_def case_prod_unfold)
  have last: "last ?body \<noteq> CHR '',''"
  proof (cases "more = []")
    case True
    then show ?thesis using texts [of "slot_range a b"] runs by simp
  next
    case False
    then obtain init x y where m: "more = init @ [(x, y)]" by (metis rev_exhaust surj_pair)
    then show ?thesis using texts [of "slot_range x y"] runs by simp
  qed
  have first: "slot_range a b \<noteq> []" "hd (slot_range a b) \<noteq> CHR '',''" using texts [of "slot_range a b"] runs by auto
  have "convert_slot_to_str slots = ?body"
  proof -
    have "convert_slot_to_str slots = strip_if (\<lambda>c. c = CHR '','') (convert_loop [] s s slots)"
      by (simp add: convert_slot_to_str_def slots)
    also have "\<dots> = strip_if (\<lambda>c. c = CHR '','') ?body"
      unfolding loop by (simp add: strip_if_def lstrip_if_def)
    also have "\<dots> = ?body" using first last by (intro strip_if_ends) auto
    finally show ?thesis .
  qed
  moreover have "split_at '','' [] ?body = ?texts"
    using split_at_join [of "CHR '',''" "slot_range a b" "map (\<lambda>(a, b). slot_range a b) more"] texts runs by auto
  moreover have "distinct slots" using assms(2) by (simp add: strict_sorted_iff)
  ultimately show ?thesis
    by (simp add: decode_slots_from_str_def Let_def decode_runs [OF ok] all add_slots_def update_new_keys comp_def)
qed

theorem slots_read_back_witness:
  "convert_slot_to_str [0, 1, 2, 7, 9, 10] = ''0-2,7,9-10''
   \<and> decode_slots_from_str ''0-2,7,9-10'' '','' =
       Inr ([0, 1, 2, 7, 9, 10], map (\<lambda>s. (s, True)) [0, 1, 2, 7, 9, 10], [], [])"
proof -
  let ?slots = "[0, 1, 2, 7, 9, 10] :: int list"
  have "convert_slot_to_str ?slots = ''0-2,7,9-10''"
    by (simp add: convert_slot_to_str_def slot_range_def str_of_int_def str_of_nat.simps digit_char_def
        strip_if_def lstrip_if_def rstrip_if_def)
  moreover have "decode_slots_from_str (convert_slot_to_str ?slots) '','' = Inr (?slots, map (\<lambda>s. (s, True)) ?slots, [], [])"
    by (rule slots_read_back) (simp_all add: MIN_SLOT_def MAX_SLOT_def)
  ultimately show ?thesis by simp
qed

section \<open>What is read exists\<close>

definition slots_typed :: "(int \<times> bool) list \<Rightarrow> bool" where
  "slots_typed d \<longleftrightarrow> distinct (map fst d) \<and> (\<forall>n\<in>set (map fst d). slot_ok n)"

lemma slots_typed_update: "slots_typed d \<Longrightarrow> slot_ok n \<Longrightarrow> slots_typed (AList.update n v d)"
  using distinct_update [of d n v] dom_update [of n v d] by (auto simp: slots_typed_def)

lemma slots_typed_add: "slots_typed (sm_slots m) \<Longrightarrow> \<forall>n\<in>set ns. slot_ok n \<Longrightarrow> slots_typed (sm_slots (add_slots ns m))"
proof -
  have "\<forall>n\<in>set ns. slot_ok n \<Longrightarrow> slots_typed d \<Longrightarrow> slots_typed (fold (\<lambda>n d. AList.update n True d) ns d)" for d
    by (induction ns arbitrary: d) (simp_all add: slots_typed_update)
  then show "slots_typed (sm_slots m) \<Longrightarrow> \<forall>n\<in>set ns. slot_ok n \<Longrightarrow> slots_typed (sm_slots (add_slots ns m))"
    by (simp add: add_slots_def)
qed

lemma decode_item_typed: "decode_item item m = Inr m' \<Longrightarrow> slots_typed (sm_slots m) \<Longrightarrow> slots_typed (sm_slots m')"
proof -
  have between: "slot_ok x" if "slot_ok a" "slot_ok b" "a \<le> x" "x \<le> b" for a b x using that by (auto simp: slot_ok_def)
  assume dec: "decode_item item m = Inr m'" and m: "slots_typed (sm_slots m)"
  let ?parts = "split_at SLOT_SEPARATOR [] (strip_if py_space item)"
  consider "?parts = []" | x where "?parts = [x]" | x y where "?parts = [x, y]" | x y z where "?parts = [x, y, z]"
    | x y z u us where "?parts = x # y # z # u # us"
    by (metis list.exhaust)
  then consider "sm_slots m' = sm_slots m" | n where "slot_ok n" "m' = add_slots [n] m"
    | a b where "slot_ok a" "slot_ok b" "m' = add_slots [a..b] m"
  proof cases
    case (2 x)
    then show ?thesis using dec that(2) by (auto simp: decode_item_def split: sum.splits if_splits)
  next
    case (3 x y)
    then show ?thesis using dec that(3) by (auto simp: decode_item_def split: sum.splits if_splits)
  next
    case (4 x y z)
    then show ?thesis using dec that(1) by (auto simp: decode_item_def Let_def split: sum.splits if_splits)
  qed (use dec that(1) in \<open>simp_all add: decode_item_def\<close>)
  then show "slots_typed (sm_slots m')"
  proof cases
    case (2 n)
    then show ?thesis using slots_typed_add [OF m, of "[n]"] by simp
  next
    case (3 a b)
    have "\<forall>x\<in>set [a..b]. slot_ok x"
    proof
      fix x assume "x \<in> set [a..b]"
      then show "slot_ok x" using between [OF 3(1,2), of x] by simp
    qed
    then show ?thesis unfolding 3(3) by (rule slots_typed_add [OF m])
  qed (use m in simp)
qed

lemma decode_items_typed: "decode_items items m = Inr m' \<Longrightarrow> slots_typed (sm_slots m) \<Longrightarrow> slots_typed (sm_slots m')"
proof (induction items arbitrary: m)
  case (Cons item items)
  then obtain n where n: "decode_item item m = Inr n" "decode_items items n = Inr m'" by (simp split: sum.splits)
  show ?case using Cons.IH [OF n(2) decode_item_typed [OF n(1) Cons.prems(2)]] .
qed simp

lemma decoded_slots_exist:
  assumes "decode_slots_from_str text sep = Inr (slots, slot_map, migrating, importing)"
  shows "slots = map fst slot_map \<and> distinct slots \<and> (\<forall>n\<in>set slots. MIN_SLOT \<le> n \<and> n \<le> MAX_SLOT)"
proof -
  from assms obtain items m where m: "decode_items items \<lparr>sm_slots = [], sm_migrating = [], sm_importing = []\<rparr> = Inr m"
    and s: "slots = map fst (sm_slots m)" "slot_map = sm_slots m"
    by (auto simp: decode_slots_from_str_def Let_def split: sum.splits)
  have "slots_typed (sm_slots m)" using decode_items_typed [OF m] by (simp add: slots_typed_def)
  with s show ?thesis by (auto simp: slots_typed_def slot_ok_def)
qed

section \<open>Where the code does otherwise\<close>

text \<open>A slot that leaves the node is kept as one that arrives.\<close>

lemma migrating_slot_is_importing:
  "decode_slots_from_str ''[5->-b]'' '' '' = Inr ([], [], [(5, ''b'')], [])"
  "add_node_slots [''[5->-b]''] ClusterNodeData = Inr (ClusterNodeData\<lparr>nd_src := ''[5->-b]'', nd_importing := [(5, ''b'')]\<rparr>)"
proof -
  show r: "decode_slots_from_str ''[5->-b]'' '' '' = Inr ([], [], [(5, ''b'')], [])" by code_simp
  show "add_node_slots [''[5->-b]''] ClusterNodeData = Inr (ClusterNodeData\<lparr>nd_src := ''[5->-b]'', nd_importing := [(5, ''b'')]\<rparr>)"
    by (simp add: r update_all_def ClusterNodeData_def)
qed

text \<open>The number of assigned slots is never read.\<close>

lemma assigned_slots_unread:
  "case decode_cluster_info ''cluster_slots_assigned:16384'' of
     Inr info \<Rightarrow> ci_count info ''cluster_slots_assigned'' = 0 | Inl e \<Rightarrow> False"
  by code_simp

text \<open>No slots are written as the empty text, which cannot be read with the separator it was written with.\<close>

lemma no_slots_unread: "convert_slot_to_str [] = [] \<and> decode_slots_from_str [] '','' = Inl ValueError"
  by code_simp

end
