(* ===== verification/Spec2Isabelle.thy ===== *)
theory Spec2Isabelle
  imports Queue_Control Remap Settings_Models Concrete_Queues Histograms Ticket_Properties Redis_Slots
begin

text \<open>
  Three parts of BlueKing DBM: the Redis dispatch queues, \<open>src/dbm-ui/backend/db_periodic_task/dispatch/\<close>, the
  ticket system, \<open>src/dbm-ui/backend/ticket/\<close>, and the reading of Redis Cluster nodes. They share \<open>Prelude\<close> (and the
  decimal texts of \<open>Keys\<close>) and nothing else, as in the code.

  The dispatch queues.

  Producers submit jobs to named queues kept in Redis; once every ten seconds a pump picks the jobs that
  are due, reserves a slot for each under an AIMD budget and hands it to Celery; a worker executes it and
  finalizes or requeues it; a reaper removes what lost its record. Every state change is a Lua script that
  Redis runs atomically.

  Parts and theories.
  \<^item> \<open>Prelude\<close>: Python values, exceptions as a sum, counters, the \<open>named_theorems\<close> collections, and the
    \<open>int_enum\<close> interface of the status codes.
  \<^item> \<open>Redis\<close>: the store, the clocks, the connection and the broker, which are not code of the repository: a
    record \<open>R\<close> of operations on an unknown state and a view \<open>V\<close> of that state, with documented behaviour as
    the assumptions of the locale \<open>redis\<close> (\<open>redis_up\<close>: every round trip is answered; \<open>redis_scan\<close>: \<open>ZSCAN\<close>).
    A round trip is answered, refused, or lost after it ran. \<open>Redis_Mem\<close>: an instance over association lists
    whose connection, clocks and broker follow scripts in its state; it interprets all three locales, and the
    witnesses run on it.
  \<^item> \<open>Config\<close> (\<open>config.py\<close>), \<open>Job\<close> (\<open>job.py\<close>), \<open>Keys\<close> (the key layout of \<open>queue.py\<close>, \<open>metrics.py\<close> and others, and
    \<open>routing.validate_namespace\<close>), \<open>Outcomes\<close>, \<open>Metrics\<close> (\<open>metrics.py\<close>), \<open>App\<close> (\<open>config_cache.py\<close>, the queue registry
    of \<open>queue.py\<close>, \<open>DispatchQueueSettings\<close> of \<open>models.py\<close>; the Django cache and tables are the locale \<open>settings\<close>),
    \<open>Queue\<close> (the rest of \<open>queue.py\<close>).
  \<^item> \<open>Queue_State\<close>: the two sorted sets, the counters and the invariant \<open>queue_inv\<close> that the scripts share.
  \<^item> \<open>Admission\<close>, \<open>Reservation\<close>, \<open>Lifecycle\<close>, \<open>Reaper\<close>, \<open>TaskCounts\<close>, \<open>Controller\<close>: the modules of these names, script
    and Python wrapper, each with the effect of its script on the view, what it keeps (invariant), what it
    touches (frames), and what it promises on each outcome.
  \<^item> \<open>Locks\<close> (\<open>producer.py\<close>, the locks and pauses of \<open>pump.py\<close>, \<open>RELEASE_LOCK_LUA\<close>): the contract \<open>owned_lock\<close> and its
    interpretation on the two locks of a namespace.
  \<^item> \<open>Pump\<close> (\<open>pump.py\<close>): the tick of one queue and of the process.
  \<^item> \<open>Routing\<close> (\<open>routing.py\<close>, \<open>DispatchRoute\<close> of \<open>models.py\<close>): which Redis instance serves a namespace, behind a table,
    a cache and a memo; the table is the locale \<open>routing_table\<close>. \<open>Remap\<close> (\<open>remap.py\<close>): moving a namespace to another
    instance, over a pool of independent stores.
  \<^item> \<open>Scheduling\<close> (\<open>scheduling.py\<close>), \<open>Dispatch_Task\<close> (\<open>base.py\<close>): submitting and executing; the methods a subclass overrides
    are fields of a record, and what a task relies on of its queue is the locale \<open>queue_client\<close>. \<open>Registry\<close>
    (\<open>registry.py\<close>, \<open>signals.py\<close>), \<open>Maintenance\<close> (\<open>maintenance.py\<close>), \<open>Settings_Models\<close> (the task settings of \<open>models.py\<close>),
    \<open>Concrete_Queues\<close> (\<open>nameservice_queue.py\<close>, \<open>portrait_queue.py\<close>, \<open>dummy.py\<close>).
  \<^item> \<open>Records\<close>: the job records as a typed store. \<open>Queue_System\<close>: the life cycle of a job as an abstract specification,
    refinement of it by every operation, and the step relations that interleave them: \<open>queue_step\<close> on one queue,
    \<open>drift_step\<close> where the counters may also fall behind, \<open>tick_step\<close> for what a process does to its own queue alone,
    \<open>world_steps\<close> for a path of every queue at once. \<open>Pump_System\<close>: the tick as such a path. \<open>System\<close>: the program, in
    the locale \<open>dispatch_system\<close>: every handler is a path of every queue, so every interleaving of them is safe.
    \<open>Queue_Control\<close>: facts across components. \<open>Histograms\<close>: the recorded histograms against their specification.

  Correspondence. A Lua script \<open>X_LUA\<close> is a definition \<open>x_lua\<close> that takes the keys as arguments and returns a
  result or the error that aborts it, with the writes made so far kept, as in Redis. A class method takes the
  environment, the namespace or queue class, its arguments and the state, and returns its value (or the
  exception it lets through) and the new state. \<open>IntEnum\<close>s are datatypes with a value function. JSON text is
  the constructor \<open>PJson\<close> around the value it encodes. Times and scores are reals.

  Fuel. Loops over \<open>ZSCAN\<close> cursors take fuel; \<open>redis_scan\<close> bounds the calls left in an iteration, and C18 and C26
  show that fuel above that bound returns. The worker loop of the pump is bounded by the number of queues
  (C21), so a tick answers whenever its reaper passes do (\<open>dispatch_global_pump_returns\<close>).

  Not modelled: connection pooling, logging, \<open>time.sleep\<close>, module discovery, and the order in which threads of one
  tick finish (submission order is taken). The queue theories work on one keyspace; \<open>Routing\<close> and \<open>Remap\<close> add the
  shards. Redis expiry is the \<open>other\<close> step of one queue and the \<open>beside\<close> step of the program. Submitting with
  deduplication switched off may admit a job twice and is left out of the interleavings (C1 to C4).

  The ticket system.

  A change to a database is requested by a ticket. A builder gives the ticket a list of flows (approval,
  confirmation, resource application, timer, pipelines, delivery); one flow runs at a time and when it is
  finished the next is started; what needs a person is a todo. Every save of a flow sends a signal that asks all
  flows of the ticket for their status again and derives the status of the ticket.
  \<^item> \<open>Ticket_Base\<close>: the enumerations of \<open>constants.py\<close>, the rows \<open>Flow\<close>, \<open>Todo\<close>, \<open>Ticket\<close> of \<open>models/\<close>, and what saving a
    row does. A model object is a copy of its row. The services (pipeline engine, ITSM, resource pool, lists of
    administrators, conditions on other tickets) are the fields \<open>te_*\<close> of a record \<open>ticket_env\<close>, and what they
    answer is arbitrary in every theorem, up to what \<open>env_ok\<close> states.
  \<^item> \<open>Ticket_Status\<close>: the status of every kind of flow (\<open>_status\<close> in \<open>flow_manager/\<close>) and \<open>update_ticket_status\<close>
    (\<open>manager.py\<close>, \<open>signals.py\<close>). \<open>Ticket_Settle\<close>: the recursion of that signal ends.
  \<^item> \<open>Ticket_Flow\<close>: \<open>run\<close>, \<open>retry\<close> of every kind of flow and \<open>run_next_flow\<close> (\<open>flow_manager/\<close>). \<open>Ticket_Todo\<close>: todos
    (\<open>todos/\<close>), revoking, pipeline callbacks (\<open>flow/signal/handlers.py\<close>), \<open>handler.py\<close>, \<open>tasks/ticket_tasks.py\<close>.
  \<^item> \<open>Ticket_Order\<close>, \<open>Ticket_Progress\<close>, \<open>Ticket_Run\<close>, \<open>Ticket_Next\<close>: the flows stay in order under polling, running, retrying
    and \<open>run_next_flow\<close>. \<open>Ticket_Life\<close>: the step relation \<open>ticket_step\<close> of everything that is done to a ticket, and the
    order as its invariant. \<open>Ticket_Claims\<close>: what follows from the order.
  \<^item> \<open>Ticket_Config\<close>: which flows a ticket gets: the configurations (\<open>TicketFlowsConfig\<close>), their lookup, the checks of
    \<open>TicketHandler\<close>, \<open>init_ticket_flows\<close> (\<open>builders/__init__.py\<close>).
  \<^item> \<open>Ticket_Exclusion\<close>: the operation records of all tickets on the clusters (\<open>ClusterOperateRecord\<close>), the table of types
    that exclude each other, the check before a task flow starts, and the pipeline nodes that unlock, pause and
    resume (\<open>flow/plugins/components/collections/common/\<close>). \<open>lock_clusters_refines\<close> ties its records to those of
    \<open>Ticket_Flow\<close>; for one ticket the answer of the check is the parameter \<open>te_exclusive\<close>.
  \<^item> \<open>Ticket_Properties\<close>: the properties C5 to C11, C28 to C32 and C37, on small examples, and histories that show where
    the code does not do what it means to.

  Fuel. The recursion of the signal takes fuel for Python's recursion limit; twice the number of flows and two
  is enough (C7). \<open>run_next_flow\<close> calls itself through flows that have no work of their own; its theorems hold for
  every fuel, and running out raises \<open>RecursionError\<close>, as in Python.

  Not modelled: the texts, times and addresses of todos, messages and notices; the details column of a flow
  apart from what is branched on; the side tables of the individual databases (\<open>MysqlDtsInfo\<close> and the like) and
  calls whose failure is only logged; instance ids that are not numbers; two flows that pass the exclusion check
  before either is recorded, which the code does not prevent; the parameters a builder puts in a flow;
  the states of single nodes inside a pipeline; related tickets; the views. Asynchronous tasks are recorded as
  sent, in order, and run as later steps.

  Redis Cluster nodes.
  \<^item> \<open>Redis_Nodes\<close> (\<open>flow/utils/redis/redis_cluster_nodes.py\<close>): slots written as ranges and read back, the lines of
    \<open>CLUSTER NODES\<close>, the fields of \<open>CLUSTER INFO\<close>; Python's \<open>split\<close>, \<open>strip\<close> and \<open>int\<close> on ASCII texts. A plain
    \<open>Exception\<close> is \<open>UserError\<close>. \<open>Redis_Slots\<close>: the round trip (C34), and that only slots that exist are read. Not
    modelled: the texts of \<open>__str__\<close>.

  Of the rest of the repository, whose Python code is mostly pipelines
  and views over Django models and remote services, nothing is modelled.

  Of the properties C1 to C40, those of the queues follow. Each comes with a witness where it has hypotheses.
\<close>

section \<open>A queue to try the properties on\<close>

text \<open>Jobs of one task on the queue \<open>q\<close>, and stores of the reference instance: two admitted jobs;
  the first of them reserved.\<close>

definition sample_job :: "string \<Rightarrow> dispatch_job" where
  "sample_job wid = \<lparr>job_id = build_job_id ''t'' wid, task_key = ''t'', job_namespace = ''q'', work_item_id = wid,
     work_item_data = [], payload_json = PStr '''', config_json = PStr '''', retry_count = 0, created_at = 0,
     ready_at = 0, wait_deadline_at = 0\<rparr>"

definition sample_jobs :: "dispatch_job list" where
  "sample_jobs = [sample_job ''1'', sample_job ''2'']"

definition sample_config :: queue_config where
  "sample_config = DispatchQueueConfig\<lparr>max_admitted_jobs := 10\<rparr>"

definition sample_enqueued :: mem where
  "sample_enqueued = snd (enqueue_jobs mem_env ''q'' sample_jobs True [60, 60] 10 mem_empty)"

definition sample_reserved :: mem where
  "sample_reserved = snd (reserve_jobs mem_env ''q'' [sample_job ''1''] sample_config [60] 0 5 sample_enqueued)"

definition sample_queue :: queue_class where
  "sample_queue = base_queue_class ''Queue'' 1 ''q''"

lemma pair_run: "fst x = a \<Longrightarrow> x = (a, snd x)"
  by (cases x) simp

lemma sample_fields [simp]:
  "job_id (sample_job wid) = ''t:'' @ wid" "task_key (sample_job wid) = ''t''" "job_namespace (sample_job wid) = ''q''"
  "ready_at (sample_job wid) = 0" "wait_deadline_at (sample_job wid) = 0" "qc_namespace sample_queue = ''q''"
  by (simp_all add: sample_job_def build_job_id_def sample_queue_def base_queue_class_def)

lemma sample_enqueue:
  "enqueue_jobs mem_env ''q'' sample_jobs True [60, 60] 10 mem_empty = (Inr [ENQ_ACCEPTED, ENQ_ACCEPTED], sample_enqueued)"
  unfolding sample_enqueued_def by (rule pair_run) code_simp

lemma sample_reserve:
  "reserve_jobs mem_env ''q'' [sample_job ''1''] sample_config [60] 0 5 sample_enqueued = (Inr [RSV_RESERVED], sample_reserved)"
  unfolding sample_reserved_def by (rule pair_run) code_simp

lemma queue_inv_empty: "queue_inv owner ns (mem_view mem_empty)"
  by (simp add: queue_inv_def slots_disjoint_def counts_ok_def counts_lag_def hash_int_def mem_view_def mem_empty_def
      sub_def count_dom_def)

lemma admitted_count_empty: "admitted_count ns (mem_view mem_empty) = 0"
  by (simp add: admitted_count_def mem_view_def mem_empty_def sub_def)

lemma sample_step: "queue_step mem_env mem_view [] (\<lambda>_. ''t'') ''q'' sample_config mem_empty sample_enqueued"
proof (rule queue_step.enqueue)
  show "enqueue_jobs mem_env ''q'' sample_jobs True [60, 60] (max_admitted_jobs sample_config) mem_empty
      = (Inr [ENQ_ACCEPTED, ENQ_ACCEPTED], sample_enqueued)"
    using sample_enqueue by (simp add: sample_config_def)
qed (simp_all add: sample_jobs_def owned_job_def)

lemma sample_steps: "queue_steps mem_env mem_view [] (\<lambda>_. ''t'') ''q'' sample_config mem_empty sample_reserved"
proof -
  have "queue_step mem_env mem_view [] (\<lambda>_. ''t'') ''q'' sample_config sample_enqueued sample_reserved"
    by (rule queue_step.reserve [OF sample_reserve]) (simp_all add: owned_job_def)
  with sample_step show ?thesis by (meson converse_rtranclp_into_rtranclp r_into_rtranclp)
qed

lemma sample_inv: "queue_inv (\<lambda>_. ''t'') ''q'' (mem_view sample_reserved)"
  using mem.queue_steps_safe [OF sample_steps] queue_inv_empty by simp

text \<open>The deployment of the verification queue: one item submitted, and a tick of the pump after it.\<close>

definition run_submitted :: mem where
  "run_submitted = snd (submit mem_env bare_db (DummyTask mem_env 1 2 (\<lambda>_. [])) DispatchTaskConfig (\<lambda>_. 0)
     (PList [PDict [(''name'', PStr ''a'')]]) ReadyNow [] mem_empty)"

definition run_pumped :: mem where
  "run_pumped = snd (the (dispatch_global_pump 1 mem_env bare_db (task_configs dummy_tasks) dummy_queues 9 (\<lambda>_. 0)
     (\<lambda>_. ''x'') (\<lambda>_. Inr 0) run_submitted))"

definition run_executed :: mem where
  "run_executed = snd (execute_job mem_env bare_db mem_routes dummy_queues 9 dummy_tasks ''dummy.smoke:a'' run_pumped)"

lemma records_owned_empty: "records_owned owner ns (mem_view mem_empty)"
  by (simp add: records_owned_def mem_view_def mem_empty_def)

lemma slots_disjoint_empty: "slots_disjoint ns (mem_view mem_empty)"
  using queue_inv_empty [of "\<lambda>_. []" ns] by (simp add: queue_inv_def)

lemma dummy_owner: "task_owner dummy_tasks ''dummy.smoke:a'' = ''dummy.smoke''"
  by code_simp

lemma submitted_run:
  "system_step mem_env mem_view bare_db mem_routes dummy_tasks dummy_queues {DUMMY_NAMESPACE} mem_empty run_submitted"
  unfolding run_submitted_def
  by (rule system_step.submitted [OF _ prod.collapse [symmetric]])
     (simp_all add: dummy_tasks_def DUMMY_TASK_KEY_def apply_submit_config_overrides_def uses_enqueue_dedupe_def DispatchTaskConfig_def)

lemma submitted_runs:
  "system_steps mem_env mem_view bare_db mem_routes dummy_tasks dummy_queues {DUMMY_NAMESPACE} mem_empty run_submitted"
  by (rule r_into_rtranclp) (rule submitted_run)

lemma executed_run:
  "system_steps mem_env mem_view bare_db mem_routes dummy_tasks dummy_queues {DUMMY_NAMESPACE} mem_empty run_executed"
proof -
  have reap: "reap_orphaned_queue_jobs 1 mem_env dummy_queues 9 q l d t \<noteq> None" if "q \<in> set (registered_queues dummy_queues)" for q l d t
    using mem_scan.reap_terminates [where reg = dummy_queues and q = q and ns = "''dummy''" and fuel = 1 and uid = 9
        and limit = l and deadline = d and s = t] that
    by (auto simp: dummy_queues_def registered_queues_def DUMMY_NAMESPACE_def split: if_splits)
  obtain n s' where "dispatch_global_pump 1 mem_env bare_db (task_configs dummy_tasks) dummy_queues 9 (\<lambda>_. 0)
      (\<lambda>_. ''x'') (\<lambda>_. Inr 0) run_submitted = Some (n, s')"
    using dispatch_global_pump_returns [OF reap] by blast
  then have "system_step mem_env mem_view bare_db mem_routes dummy_tasks dummy_queues {DUMMY_NAMESPACE} run_submitted run_pumped"
    unfolding run_pumped_def by (intro system_step.pumped) simp
  moreover have "system_step mem_env mem_view bare_db mem_routes dummy_tasks dummy_queues {DUMMY_NAMESPACE} run_pumped run_executed"
    unfolding run_executed_def by (rule system_step.executed [OF prod.collapse [symmetric]]) (simp add: dummy_owner)
  ultimately show ?thesis using submitted_run by (meson converse_rtranclp_into_rtranclp r_into_rtranclp)
qed

section \<open>The whole program\<close>





section \<open>The queue under concurrent operations\<close>





section \<open>Admission\<close>



text \<open>C13. While the producer gate of a queue is closed, admission accepts nothing and touches no key of
  the queue; the gate is still there afterwards, and resuming removes it.\<close>

theorem closed_gate_admits_nothing:
  assumes "redis R V" and "pause_queue_producer R ns seconds s = (Inr info, s1)"
    and "enqueue_jobs R ns jobs dedupe ttls mx s1 = (out, s2)"
  shows "same_at (queue_keys ns) (V s1) (V s2) \<and> (\<forall>sts. out = Inr sts \<longrightarrow> ENQ_ACCEPTED \<notin> set sts)
    \<and> (\<forall>b s3. resume_queue_producer R ns s2 = (Inr b, s3) \<longrightarrow> b \<and> \<not> present (V s3) (producer_gate_key ns))"
  using redis.closed_gate [OF assms] by blast

theorem closed_gate_admits_nothing_witness:
  "\<exists>info s1 s2. pause_queue_producer mem_env ''q'' (Some 30) mem_empty = (Inr info, s1)
     \<and> enqueue_jobs mem_env ''q'' sample_jobs True [60, 60] 10 s1 = (Inr [ENQ_PRODUCER_PAUSED, ENQ_PRODUCER_PAUSED], s2)
     \<and> same_at (queue_keys ''q'') (mem_view s1) (mem_view s2)"
proof -
  define info where "info = \<lparr>pause_namespace = ''q'', paused = True, pause_ttl_seconds = Some 30\<rparr>"
  define s1 where "s1 = snd (pause_queue_producer mem_env ''q'' (Some 30) mem_empty)"
  define s2 where "s2 = snd (enqueue_jobs mem_env ''q'' sample_jobs True [60, 60] 10 s1)"
  have p: "pause_queue_producer mem_env ''q'' (Some 30) mem_empty = (Inr info, s1)"
    unfolding s1_def info_def by (rule pair_run) code_simp
  have e: "enqueue_jobs mem_env ''q'' sample_jobs True [60, 60] 10 s1 = (Inr [ENQ_PRODUCER_PAUSED, ENQ_PRODUCER_PAUSED], s2)"
    unfolding s2_def s1_def by (rule pair_run) code_simp
  from closed_gate_admits_nothing [OF mem.redis_axioms p e] p e show ?thesis by blast
qed

section \<open>Reservation\<close>

text \<open>A job reported reserved was pending, is now reserved and no longer pending, and its record is
  stored without a wait deadline; no job loses a slot it had.\<close>

lemma reserved_job_moved:
  assumes "redis R V" and "reserve_jobs R ns jobs config ttls tick bud s = (Inr sts, s')"
    and "(job, RSV_RESERVED) \<in> set (zip jobs sts)"
  shows "pend ns (V s) (job_id job) \<noteq> None \<and> pend ns (V s') (job_id job) = None \<and> resv ns (V s') (job_id job) \<noteq> None
    \<and> kv (V s') (job_key ns (job_id job)) = Some (job_snapshot (job\<lparr>wait_deadline_at := 0\<rparr>))
    \<and> dom (resv ns (V s)) \<subseteq> dom (resv ns (V s'))"
  using redis.reserve_jobs_moved [OF assms] redis.reserve_jobs_grows [OF assms(1,2)] by blast

lemma reserved_job_moved_witness:
  "pend ''q'' (mem_view sample_reserved) ''t:1'' = None \<and> resv ''q'' (mem_view sample_reserved) ''t:1'' \<noteq> None"
proof -
  have "(sample_job ''1'', RSV_RESERVED) \<in> set (zip [sample_job ''1''] [RSV_RESERVED])" by simp
  from reserved_job_moved [OF mem.redis_axioms sample_reserve this] show ?thesis by simp
qed



section \<open>The end of a job\<close>

text \<open>C15. A finalize that reports a removal gives back exactly that job's slot, and deletes its record and
  its dedupe key; it reports one removal at most, and the pending set is as before.\<close>

theorem finalize_releases_slot:
  assumes "redis R V" and "finalize_job R ns jid tk wid ttl s = (n, s')" and "n \<noteq> 0"
  shows "n = 1 \<and> resv ns (V s) jid \<noteq> None \<and> resv ns (V s') = (resv ns (V s))(jid := None)
    \<and> pend ns (V s') = pend ns (V s) \<and> kv (V s') (job_key ns jid) = None
    \<and> (tk \<noteq> [] \<and> wid \<noteq> [] \<longrightarrow> kv (V s') (dedupe_key ns tk wid) = None)"
  using redis.finalize_job_done [OF assms] by blast

theorem finalize_releases_slot_witness:
  "\<exists>s'. finalize_job mem_env ''q'' ''t:1'' ''t'' ''1'' 60 sample_reserved = (1, s')
     \<and> resv ''q'' (mem_view s') ''t:1'' = None \<and> pend ''q'' (mem_view s') = pend ''q'' (mem_view sample_reserved)"
proof -
  let ?s = "snd (finalize_job mem_env ''q'' ''t:1'' ''t'' ''1'' 60 sample_reserved)"
  have r: "finalize_job mem_env ''q'' ''t:1'' ''t'' ''1'' 60 sample_reserved = (1, ?s)" by (rule pair_run) code_simp
  from finalize_releases_slot [OF mem.redis_axioms r] r show ?thesis by auto
qed

text \<open>C16. A requeue puts the job back only if it still held its slot: it is then pending at the new
  readiness, its slot is gone, and a running wait deadline is kept. A job whose slot somebody else took
  is not revived: the result says so and no job becomes pending.\<close>

theorem requeue_never_revives:
  assumes "redis R V" and "\<forall>(k, p)\<in>set reg. qc_namespace p = k" and "qc_namespace q = ns" and "job_namespace job = ns"
    and "ns \<noteq> []" and "requeue R reg uid q job ready ttl s = (r, s')"
  shows "(r = RQ_REQUEUED \<longrightarrow> resv ns (V s) (job_id job) \<noteq> None
        \<and> pend ns (V s') = (pend ns (V s))(job_id job \<mapsto> ready) \<and> resv ns (V s') = (resv ns (V s))(job_id job := None)
        \<and> (\<exists>d. kv (V s') (job_key ns (job_id job)) = Some (job_snapshot (job\<lparr>ready_at := ready, wait_deadline_at := d\<rparr>))
             \<and> (wait_deadline_at job \<noteq> 0 \<longrightarrow> d = wait_deadline_at job)))
    \<and> (resv ns (V s) (job_id job) = None \<longrightarrow> r \<noteq> RQ_REQUEUED \<and> dom (pend ns (V s')) \<subseteq> dom (pend ns (V s)))"
  using redis.requeue_requeued [OF assms(1), of reg uid q job ready ttl s s'] redis.requeue_slot_gone [OF assms] assms(3,6)
  by blast

theorem requeue_never_revives_witness:
  "\<exists>s' s''. requeue mem_env [] 0 sample_queue (sample_job ''1'') 5 60 sample_reserved = (RQ_REQUEUED, s')
     \<and> pend ''q'' (mem_view s') ''t:1'' = Some 5
     \<and> requeue mem_env [] 0 sample_queue (sample_job ''1'') 5 60 sample_enqueued = (RQ_SLOT_LOST, s'')
     \<and> dom (pend ''q'' (mem_view s'')) \<subseteq> dom (pend ''q'' (mem_view sample_enqueued))"
proof -
  let ?s' = "snd (requeue mem_env [] 0 sample_queue (sample_job ''1'') 5 60 sample_reserved)"
  let ?s'' = "snd (requeue mem_env [] 0 sample_queue (sample_job ''1'') 5 60 sample_enqueued)"
  have a: "requeue mem_env [] 0 sample_queue (sample_job ''1'') 5 60 sample_reserved = (RQ_REQUEUED, ?s')"
    by (rule pair_run) code_simp
  have b: "requeue mem_env [] 0 sample_queue (sample_job ''1'') 5 60 sample_enqueued = (RQ_SLOT_LOST, ?s'')"
    by (rule pair_run) code_simp
  have n: "resv ''q'' (mem_view sample_enqueued) ''t:1'' = None" by code_simp
  from requeue_never_revives [OF mem.redis_axioms _ _ _ _ a] have "pend ''q'' (mem_view ?s') ''t:1'' = Some 5" by simp
  moreover from requeue_never_revives [OF mem.redis_axioms _ _ _ _ b] n
  have "dom (pend ''q'' (mem_view ?s'')) \<subseteq> dom (pend ''q'' (mem_view sample_enqueued))" by simp
  ultimately show ?thesis using a b by blast
qed

text \<open>Discarding an orphaned job touches the sorted sets and the records of no other job, and when it
  reports success the job is in neither set and has no record.\<close>

lemma discard_removes_only_that_job:
  assumes "redis R V" and "\<forall>(k, p)\<in>set reg. qc_namespace p = k" and "ns \<noteq> []"
    and "discard_orphaned_job R reg uid q jid tk ns wid outcome s = (ok, s')"
  shows "only_job ns jid (V s) (V s') \<and> (ok \<longrightarrow> job_gone ns jid (V s'))"
  using redis.discard_orphaned_job_target [OF assms] by blast

lemma discard_removes_only_that_job_witness:
  "\<exists>s'. discard_orphaned_job mem_env [] 0 sample_queue ''t:1'' ''t'' ''q'' ''1'' EXPIRED sample_reserved = (True, s')
     \<and> job_gone ''q'' ''t:1'' (mem_view s') \<and> only_job ''q'' ''t:1'' (mem_view sample_reserved) (mem_view s')"
proof -
  let ?s = "snd (discard_orphaned_job mem_env [] 0 sample_queue ''t:1'' ''t'' ''q'' ''1'' EXPIRED sample_reserved)"
  have r: "discard_orphaned_job mem_env [] 0 sample_queue ''t:1'' ''t'' ''q'' ''1'' EXPIRED sample_reserved = (True, ?s)"
    by (rule pair_run) code_simp
  from discard_removes_only_that_job [OF mem.redis_axioms _ _ r] r show ?thesis by auto
qed


text \<open>A task of the queue \<open>q\<close> whose \<open>execute\<close> always raises.\<close>

definition sample_task :: "mem task_class" where
  "sample_task = base_task 1 ''T'' (\<lambda>_. []) \<lparr>cc_task_key = ''t'', cc_queue_namespace = ''q'', cc_default = DispatchTaskConfig\<rparr>
     sample_queue (\<lambda>c item job s. (Inl UserError, s))"

lemma sample_task_names:
  "namespace_for_job_id (task_namespaces [(''t'', sample_task)]) ''t:1'' = ''q''" "qc_namespace (tc_queue sample_task) = ''q''"
  by code_simp+

lemma sample_reserved_record:
  "kv (mem_view sample_reserved) (job_key ''q'' ''t:1'') = Some (job_snapshot (sample_job ''1''))"
  "decode_job (job_snapshot (sample_job ''1'')) = Inr (sample_job ''1'')"
  by code_simp+


text \<open>When Celery reports that the worker of a job died, or was killed at its hard time limit, the job's slot
  and record are freed at once, for a job that is still stored.\<close>

lemma killed_worker_frees_slot:
  assumes "redis_up R V" and "namespace_for_job_id (task_namespaces tasks) jid = ns" and "ns \<noteq> []"
    and "map_of reg ns = Some q" and "qc_namespace q = ns"
    and "kv (V s) (job_key ns jid) = Some (job_snapshot job)" and "decode_job (job_snapshot job) = Inr job" and "job_namespace job = ns"
    and "failure \<in> {WorkerLost, HardTimeLimit}" and "jid \<noteq> []"
  shows "resv ns (V (dispatch_failure_handler R RT reg uid tasks failure (jid # args) s)) jid = None
    \<and> kv (V (dispatch_failure_handler R RT reg uid tasks failure (jid # args) s)) (job_key ns jid) = None"
  using redis_up.failure_frees_slot [OF assms(1-8) _ assms(10) refl, of failure RT uid args] assms(9)
  by (auto simp: worker_gone_def)

lemma killed_worker_frees_slot_witness:
  "resv ''q'' (mem_view sample_reserved) ''t:1'' \<noteq> None
   \<and> resv ''q'' (mem_view (dispatch_failure_handler mem_up_env mem_routes [(''q'', sample_queue)] 9 [(''t'', sample_task)]
       WorkerLost [''t:1''] sample_reserved)) ''t:1'' = None"
proof -
  have "resv ''q'' (mem_view sample_reserved) ''t:1'' \<noteq> None" by code_simp
  with killed_worker_frees_slot [OF mem_up.redis_up_axioms sample_task_names(1) _ _ _ sample_reserved_record(1,2),
      of "[(''q'', sample_queue)]" sample_queue WorkerLost mem_routes 9 "[]"]
  show ?thesis by simp
qed

text \<open>C18. A reaper pass ends, however the queue is scanned, and it leaves every job with a payload exactly
  where it was. \<open>scan_steps\<close> bounds how many \<open>ZSCAN\<close> calls an iteration can still take.\<close>

theorem reaper_spares_live_jobs:
  assumes "redis_scan R V remains scan_steps" and "\<forall>(k, p)\<in>set reg. qc_namespace p = k" and "qc_namespace q = ns"
    and "ns \<noteq> []"
    and "\<And>zkey c t. zkey \<in> {pending_key ns, reserved_key ns} \<Longrightarrow> dom (zs (V t) zkey) \<subseteq> dom (zs (V s) zkey)
      \<Longrightarrow> scan_steps t zkey c < fuel"
  shows "\<exists>n s'. reap_orphaned_queue_jobs fuel R reg uid q limit deadline s = Some (n, s') \<and> reaped_from ns (V s) (V s')"
proof -
  note scan = assms(1)
  from redis_scan.reap_terminates [OF assms] obtain n s'
    where run: "reap_orphaned_queue_jobs fuel R reg uid q limit deadline s = Some (n, s')" by blast
  have "redis R V" using scan by (simp add: redis_scan_def)
  from redis.reap_reaped [OF this assms(2-4) run] run show ?thesis by blast
qed

theorem reaper_spares_live_jobs_witness:
  "\<exists>n s'. reap_orphaned_queue_jobs 1 mem_env [] 0 sample_queue 200 None sample_reserved = Some (n, s')
     \<and> reaped_from ''q'' (mem_view sample_reserved) (mem_view s')"
  by (rule reaper_spares_live_jobs [OF mem_scan.redis_scan_axioms]) simp_all

section \<open>The pump\<close>

text \<open>C19. One pass of the pump over a queue hands to the broker only jobs that were pending and hold a
  slot when the pass is over, each of them once, never more than the queue's slot ceiling, and it
  counts exactly these as published.\<close>

theorem pump_publishes_slot_holders:
  assumes "settings R V D C T" and "\<forall>(k, p)\<in>set reg. qc_namespace p = k" and "qc_namespace q = ns" and "ns \<noteq> []"
    and "records_named ns (V s)"
    and "pump_body R D tasks reg uid q config deadline tick state s = ((r, stats), s')"
  shows "\<exists>ids. published_in ns (max 1 (max_reserved config)) ids (V s) (V s') \<and> distinct ids
    \<and> st_published stats = int (length ids) \<and> set ids \<subseteq> dom (pend ns (V s))
    \<and> int (length ids) \<le> max 0 (max_reserved config)"
  by (rule settings.pump_body_published [OF assms])

definition sample_pumped :: "(int result \<times> pump_tick_stats) \<times> mem" where
  "sample_pumped = pump_body mem_env mem_db [] [] 0 sample_queue sample_config 1 1 [] sample_enqueued"

lemma sample_record:
  assumes "kv (mem_view sample_enqueued) (job_key ''q'' jid) = Some raw" and "decode_job raw = Inr job"
  shows "job_id job = jid \<and> job_namespace job = ''q''"
proof -
  have kv: "m_kv sample_enqueued = [(dedupe_key ''q'' ''t'' ''1'', PStr ''t:1''), (job_key ''q'' ''t:1'', job_snapshot (sample_job ''1''\<lparr>wait_deadline_at := 60\<rparr>)),
      (dedupe_key ''q'' ''t'' ''2'', PStr ''t:2''), (job_key ''q'' ''t:2'', job_snapshot (sample_job ''2''\<lparr>wait_deadline_at := 60\<rparr>)),
      (started_at_key ''q'', PFloat 0)]" by code_simp
  have "(jid, raw) \<in> {(''t:1'', job_snapshot (sample_job ''1''\<lparr>wait_deadline_at := 60\<rparr>)),
      (''t:2'', job_snapshot (sample_job ''2''\<lparr>wait_deadline_at := 60\<rparr>))}"
    using assms(1) by (auto simp: mem_view_reads kv key_simps ns_key_def split: if_splits)
  moreover have "job_from_dict (job_to_dict (sample_job w\<lparr>wait_deadline_at := 60\<rparr>)) = Inr (sample_job w\<lparr>wait_deadline_at := 60\<rparr>)" for w
    by (rule job_roundtrip) (simp add: sample_job_def)
  ultimately show ?thesis using assms(2) by (auto simp: decode_job_snapshot)
qed

theorem pump_publishes_slot_holders_witness:
  "m_sent (snd sample_pumped) = [''t:1''] \<and> resv ''q'' (mem_view (snd sample_pumped)) ''t:1'' \<noteq> None"
proof -
  have sent: "m_sent (snd sample_pumped) = [''t:1'']" by code_simp
  have named: "records_named ''q'' (mem_view sample_enqueued)" unfolding records_named_def using sample_record by blast
  have run: "pump_body mem_env mem_db [] [] 0 sample_queue sample_config 1 1 [] sample_enqueued
      = ((fst (fst sample_pumped), snd (fst sample_pumped)), snd sample_pumped)" by (simp add: sample_pumped_def)
  from pump_publishes_slot_holders [OF mem_settings.settings_axioms _ _ _ named run]
  obtain ids where "published_in ''q'' 10 ids (mem_view sample_enqueued) (mem_view (snd sample_pumped))"
    by (auto simp: sample_config_def DispatchQueueConfig_def)
  moreover have "m_sent sample_enqueued = []" by code_simp
  ultimately have "set [''t:1''] \<subseteq> dom (resv ''q'' (mem_view (snd sample_pumped)))"
    using sent by (simp add: published_in_def)
  then show ?thesis using sent by auto
qed

text \<open>C20. The order in which a tick pumps the queues is a rotation of the registered queues (none is lost or
  pumped twice), and over as many ticks as there are queues every one of them comes first once, as long as
  the multiplier and the number of queues have no common divisor.\<close>

theorem rotation_is_fair:
  assumes "2 \<le> length queues" and "coprime ROTATION_MULTIPLIER (int (length queues))" and "i < length queues"
  shows "mset (rotate_for_tick queues tick) = mset queues
    \<and> (\<exists>t. start \<le> t \<and> t < start + int (length queues) \<and> hd (rotate_for_tick queues t) = queues ! i)"
  using rotate_fair [OF assms, of start] rotate_mset [of queues tick] by blast

theorem rotation_is_fair_witness:
  "\<exists>t. 7 \<le> t \<and> t < 7 + 3 \<and> hd (rotate_for_tick [''a'', ''b'', ''c''] t) = ''c''"
proof -
  have "coprime ROTATION_MULTIPLIER (int (length [''a'', ''b'', ''c'']))"
    by (simp add: ROTATION_MULTIPLIER_def coprime_iff_gcd_eq_1 gcd_code_int)
  from rotation_is_fair [OF _ this, of 2 _ 7] show ?thesis by simp
qed





section \<open>Locks\<close>



text \<open>A pause written over a running pump's lock survives that pump's release: the owner check of the
  release script leaves it in place.\<close>

lemma pause_survives_pump_release:
  assumes "redis R V" and "pause_queue_pump R ns seconds s = (Inr info, s1)"
  shows "kv (V (release_lock R (pump_lock_key ns) (pump_owner ns token) s1)) (pump_lock_key ns) = Some (PStr PUMP_PAUSE_OWNER)"
  using redis.pause_survives_pump [OF assms] .

lemma pause_survives_pump_release_witness:
  "\<exists>s1. pause_queue_pump mem_env ''q'' (Some 5) mem_empty = (Inr \<lparr>pause_namespace = ''q'', paused = True, pause_ttl_seconds = Some 5\<rparr>, s1)
     \<and> kv (mem_view (release_lock mem_env (pump_lock_key ''q'') (pump_owner ''q'' ''x'') s1)) (pump_lock_key ''q'') = Some (PStr PUMP_PAUSE_OWNER)"
proof -
  let ?s1 = "snd (pause_queue_pump mem_env ''q'' (Some 5) mem_empty)"
  have p: "pause_queue_pump mem_env ''q'' (Some 5) mem_empty
      = (Inr \<lparr>pause_namespace = ''q'', paused = True, pause_ttl_seconds = Some 5\<rparr>, ?s1)" by (rule pair_run) code_simp
  from pause_survives_pump_release [OF mem.redis_axioms p] p show ?thesis by blast
qed

section \<open>The AIMD controller\<close>



text \<open>C25. Under lasting congestion the window comes down to one job within logarithmically many ticks.\<close>

theorem congestion_backs_off:
  assumes "0 < counter_get previous ''congestion''" and "1 \<le> w" and "w < 2 ^ n"
  shows "((\<lambda>w. fst (aimd_step mx inc cold w (b w) previous)) ^^ n) w = 1"
  using aimd_congested_iter [OF assms(1,2)] congested_ticks_one [OF assms(2,3)] by simp

theorem congestion_backs_off_witness:
  "((\<lambda>w. fst (aimd_step 100 5 10 w w [(''congestion'', 2)])) ^^ 7) 100 = (1::int)"
  by (rule congestion_backs_off) (simp_all add: counter_get_def)

text \<open>A window that is fully used without congestion grows by the same step every tick until it reaches the
  slot ceiling, and stays there.\<close>

lemma busy_window_grows:
  assumes "counter_get previous ''congestion'' \<le> 0" and "mx \<le> counter_get previous ''published''"
    and "mx \<le> counter_get previous ''ready_peeked''" and "1 \<le> w" and "w \<le> mx"
  shows "((\<lambda>w. fst (aimd_step mx (additive_increase_step mx) cold w w previous)) ^^ n) w
    = min mx (w + int n * additive_increase_step mx)"
  using aimd_growing_iter [OF assms] uncongested_ticks_sum [OF assms(5)] by simp

lemma busy_window_grows_witness:
  "((\<lambda>w. fst (aimd_step 100 (additive_increase_step 100) 10 w w [(''published'', 100), (''ready_peeked'', 100)])) ^^ 4) 10 = (30::int)"
  using busy_window_grows [where previous = "[(''published'', 100), (''ready_peeked'', 100)]" and mx = 100 and w = 10 and n = 4 and cold = 10]
  by (simp add: counter_get_def additive_increase_step_def)

section \<open>The per-task counters\<close>

text \<open>C26. A rebuild that reports success leaves the counters exactly what the two sorted sets hold per task,
  by the task keys it could read, and the sets themselves as they were; and it always comes to an answer.\<close>

theorem rebuild_makes_counts_exact:
  assumes "redis_scan R V remains scan_steps"
    and "\<And>zkey t. zkey \<in> {pending_key ns, reserved_key ns} \<Longrightarrow> V t = V s \<Longrightarrow> scan_steps t zkey 0 < fuel"
  shows "\<exists>r s'. rebuild fuel R ns deadline n s = Some (r, s')
    \<and> (r \<noteq> None \<longrightarrow> pend ns (V s') = pend ns (V s) \<and> resv ns (V s') = resv ns (V s)
        \<and> (\<exists>registered. (registered = [] \<or> set registered = dom (hs (V s) KEY_REGISTERED))
              \<and> counts_ok (member_task registered) ns (V s')))"
proof -
  from redis_scan.rebuild_terminates [OF assms] obtain r s' where run: "rebuild fuel R ns deadline n s = Some (r, s')" by blast
  show ?thesis
  proof (cases r)
    case None
    with run show ?thesis by blast
  next
    case (Some m)
    with run have sm: "rebuild fuel R ns deadline n s = Some (Some m, s')" by simp
    obtain registered where "registered = [] \<or> set registered = dom (hs (V s) KEY_REGISTERED)"
      "pend ns (V s') = pend ns (V s)" "resv ns (V s') = resv ns (V s)" "counts_ok (member_task registered) ns (V s')"
      by (rule redis_scan.rebuild_exact [OF assms(1) sm])
    then show ?thesis by (intro exI [of _ r] exI [of _ s']) (simp add: run, blast)
  qed
qed

text \<open>A store whose count hash was lost: one pending and one reserved job of the registered task \<open>t\<close>.\<close>

definition sample_uncounted :: mem where
  "sample_uncounted = sample_reserved\<lparr>m_hs := [(KEY_REGISTERED, [(''t'', PStr '''')])]\<rparr>"

theorem rebuild_makes_counts_exact_witness:
  "\<exists>s'. rebuild 1 mem_env ''q'' None 100 sample_uncounted = Some (Some [(''pending:t'', 1), (''reserved:t'', 1)], s')
     \<and> pend ''q'' (mem_view s') = pend ''q'' (mem_view sample_uncounted)
     \<and> (\<exists>registered. (registered = [] \<or> set registered = {''t''}) \<and> counts_ok (member_task registered) ''q'' (mem_view s'))"
proof -
  have "map_option fst (rebuild 1 mem_env ''q'' None 100 sample_uncounted) = Some (Some [(''pending:t'', 1), (''reserved:t'', 1)])"
    by code_simp
  then obtain s' where r: "rebuild 1 mem_env ''q'' None 100 sample_uncounted = Some (Some [(''pending:t'', 1), (''reserved:t'', 1)], s')"
    by (auto simp: prod_eq_iff)
  have dom: "dom (hs (mem_view sample_uncounted) KEY_REGISTERED) = {''t''}"
    by (auto simp: sample_uncounted_def mem_view_reads sub_def split: if_splits)
  have "\<exists>r s'. rebuild 1 mem_env ''q'' None 100 sample_uncounted = Some (r, s')
    \<and> (r \<noteq> None \<longrightarrow> pend ''q'' (mem_view s') = pend ''q'' (mem_view sample_uncounted)
        \<and> resv ''q'' (mem_view s') = resv ''q'' (mem_view sample_uncounted)
        \<and> (\<exists>registered. (registered = [] \<or> set registered = dom (hs (mem_view sample_uncounted) KEY_REGISTERED))
              \<and> counts_ok (member_task registered) ''q'' (mem_view s')))"
    by (rule rebuild_makes_counts_exact [OF mem_scan.redis_scan_axioms]) simp
  then show ?thesis unfolding r dom by blast
qed

text \<open>C27. A maintenance run of a queue that reports success has left the counters exact, and the two sorted sets
  as they were; while somebody else holds the lock of the rebuild, a run writes nothing.\<close>

theorem maintenance_is_exact_and_exclusive:
  assumes "redis_scan R V remains scan_steps"
  shows "(\<forall>s'. maintain_queue fuel R ns token s = Some (Some True, s') \<longrightarrow>
        pend ns (V s') = pend ns (V s) \<and> resv ns (V s') = resv ns (V s)
        \<and> (\<exists>registered. (registered = [] \<or> set registered = dom (hs (V s) KEY_REGISTERED))
              \<and> counts_ok (member_task registered) ns (V s')))
    \<and> (present (V s) (rebuild_lock_key ns) \<longrightarrow> (\<exists>s'. maintain_queue fuel R ns token s = Some (None, s') \<and> V s' = V s))"
proof -
  have "redis R V" using assms by (simp add: redis_scan_def)
  then show ?thesis
    using redis_scan.maintenance_exact [OF assms] redis.maintenance_excluded [of R V s ns fuel token] by metis
qed

theorem maintenance_is_exact_and_exclusive_witness:
  "\<exists>s'. maintain_queue 1 mem_env ''q'' ''x'' sample_uncounted = Some (Some True, s')
     \<and> pend ''q'' (mem_view s') = pend ''q'' (mem_view sample_uncounted)
     \<and> (\<exists>registered. (registered = [] \<or> set registered = {''t''}) \<and> counts_ok (member_task registered) ''q'' (mem_view s'))"
proof -
  have "map_option fst (maintain_queue 1 mem_env ''q'' ''x'' sample_uncounted) = Some (Some True)" by code_simp
  then obtain s' where r: "maintain_queue 1 mem_env ''q'' ''x'' sample_uncounted = Some (Some True, s')" by auto
  have dom: "dom (hs (mem_view sample_uncounted) KEY_REGISTERED) = {''t''}"
    by (auto simp: sample_uncounted_def mem_view_reads sub_def split: if_splits)
  from maintenance_is_exact_and_exclusive [OF mem_scan.redis_scan_axioms, of 1 "''q''" "''x''" sample_uncounted] r
  show ?thesis unfolding dom by auto
qed

text \<open>Under the queue invariant, a task that both counters report idle has no job in the queue: neither a
  pending nor a reserved one. An unreadable counter never reports idle.\<close>

lemma idle_task_is_idle:
  assumes "redis R V" and "queue_inv owner ns (V s)" and "tk \<noteq> []"
    and "has_pending_for_task R ns tk s = (False, s1)" and "has_reserved_for_task R ns tk s1 = (False, s2)"
    and "V s1 = V s" and "owner jid = tk"
  shows "job_state ns (V s) jid = Absent"
  by (rule redis.idle_task_has_no_jobs [OF assms])

lemma idle_task_is_idle_witness:
  "\<exists>s1 s2. has_pending_for_task mem_env ''q'' ''u'' sample_reserved = (False, s1)
     \<and> has_reserved_for_task mem_env ''q'' ''u'' s1 = (False, s2)
     \<and> job_state ''q'' (mem_view mem_empty) ''u:1'' = Absent"
proof -
  have a: "has_pending_for_task mem_env ''q'' ''u'' sample_reserved = (False, sample_reserved)" by code_simp
  have b: "has_reserved_for_task mem_env ''q'' ''u'' sample_reserved = (False, sample_reserved)" by code_simp
  have "has_pending_for_task mem_env ''q'' ''u'' mem_empty = (False, mem_empty)"
    and "has_reserved_for_task mem_env ''q'' ''u'' mem_empty = (False, mem_empty)" by code_simp+
  from idle_task_is_idle [OF mem.redis_axioms queue_inv_empty [of "\<lambda>_. ''u''"] _ this] a b show ?thesis by auto
qed

section \<open>Reading a queue\<close>

text \<open>Peeking returns distinct due jobs, earliest first, and never more than asked for (at least 1).\<close>

lemma peek_is_earliest_first:
  assumes "redis R V" and "peek_ready R ns limit now s = (ids, s')"
  shows "distinct ids \<and> length ids \<le> nat (max 1 limit)
    \<and> (\<forall>jid\<in>set ids. \<exists>sc. pend ns (V s) jid = Some sc \<and> sc \<le> fst (now_or R now s))
    \<and> sorted (map (\<lambda>m. the (pend ns (V s) m)) ids)"
  using redis.peek_ready_props [OF assms] by blast

lemma peek_is_earliest_first_witness:
  "peek_ready mem_env ''q'' 1 (Some 5) sample_enqueued = ([''t:1''], sample_enqueued)
   \<and> (\<exists>sc. pend ''q'' (mem_view sample_enqueued) ''t:1'' = Some sc \<and> sc \<le> fst (now_or mem_env (Some 5) sample_enqueued))"
proof -
  have p: "peek_ready mem_env ''q'' 1 (Some 5) sample_enqueued = ([''t:1''], sample_enqueued)" by code_simp
  from peek_is_earliest_first [OF mem.redis_axioms p] p show ?thesis by simp
qed

text \<open>On a connection that answers, the registered metadata that survives a reconciliation belongs to a
  known task and names no unknown queue.\<close>

lemma reconciled_metadata_is_known:
  assumes "redis_up R V" and "reconcile_registered_metadata R reg tasks s = (Inr n, s')"
    and "hs (V s') KEY_REGISTERED fld = Some payload"
  shows "fld \<in> set (map fst tasks)
    \<and> metadata_stale (map fst tasks) (known_namespaces reg (map snd tasks)) fld payload = Inr False"
  by (rule redis_up.reconcile_sound [OF assms])

definition sample_registered :: mem where
  "sample_registered = mem_empty\<lparr>m_hs := [(KEY_REGISTERED,
     [(''old'', PJson (PDict [])), (''t'', PJson (PDict [(''namespace'', PStr ''q'')]))])]\<rparr>"

lemma reconciled_metadata_is_known_witness:
  "\<exists>s'. reconcile_registered_metadata mem_up_env [(''q'', sample_queue)] [(''t'', ''q'')] sample_registered = (Inr 1, s')
     \<and> hs (mem_view s') KEY_REGISTERED ''old'' = None"
proof -
  let ?s = "snd (reconcile_registered_metadata mem_up_env [(''q'', sample_queue)] [(''t'', ''q'')] sample_registered)"
  have r: "reconcile_registered_metadata mem_up_env [(''q'', sample_queue)] [(''t'', ''q'')] sample_registered = (Inr 1, ?s)"
    by (rule pair_run) code_simp
  from reconciled_metadata_is_known [OF mem_up.redis_up_axioms r, of "''old''"]
  have "hs (mem_view ?s) KEY_REGISTERED ''old'' = None" by (cases "hs (mem_view ?s) KEY_REGISTERED ''old''") auto
  with r show ?thesis by blast
qed

section \<open>Names, records and deadlines\<close>

text \<open>C33. A job id built for a registered task resolves to that task and to its work item, and two different
  jobs never share an id, as long as no task key contains a colon.\<close>

theorem job_ids_resolve:
  assumes "tk \<in> set registered" and "\<forall>k\<in>set registered. CHR '':'' \<notin> set k" and "tk \<noteq> []"
  shows "resolve_task_key_from_job_id (build_job_id tk wid) registered = tk
    \<and> work_item_id_from_job_id (build_job_id tk wid) tk = wid
    \<and> (\<forall>tk'\<in>set registered. \<forall>wid'. build_job_id tk wid = build_job_id tk' wid' \<longrightarrow> tk = tk' \<and> wid = wid')"
  using resolve_build_job_id [OF assms(1,2)] work_item_id_build_job_id [OF assms(3)] build_job_id_inj [of tk wid] assms(1,2)
  by blast

theorem job_ids_resolve_witness:
  "resolve_task_key_from_job_id (build_job_id ''ab'' ''x:1'') [''a'', ''ab''] = ''ab''"
  using job_ids_resolve [of "''ab''" "[''a'', ''ab'']" "''x:1''"] by simp

text \<open>A stored job record reads back as the job that was stored.\<close>

lemma job_record_roundtrip:
  assumes "py_truthy (payload_json j) \<or> payload_json j = PStr ''''"
  shows "decode_job (job_snapshot j) = Inr j"
  using job_roundtrip [OF assms] by (simp add: decode_job_snapshot)

lemma job_record_roundtrip_witness: "decode_job (job_snapshot (sample_job ''7'')) = Inr (sample_job ''7'')"
  by (rule job_record_roundtrip) (simp add: sample_job_def)

text \<open>C35. A wait deadline, once set, is never moved: what is left of it is at least a second, at most the wait
  budget and less than a second past the deadline, and exactly an expired deadline leaves nothing. A fresh job
  gets its whole budget from the later of now and its readiness.\<close>

theorem deadline_is_never_extended:
  assumes "d \<noteq> 0"
  shows "fst (compute_wait_deadline now ready ttl d) = d
    \<and> (snd (compute_wait_deadline now ready ttl d) = None \<longleftrightarrow> d \<le> now)
    \<and> (\<forall>t. snd (compute_wait_deadline now ready ttl d) = Some t \<longrightarrow> 1 \<le> t \<and> t \<le> max 1 ttl \<and> now + of_int t < d + 1)
    \<and> compute_wait_deadline now ready ttl 0 =
        (max now ready + of_int (max 1 ttl), Some \<lceil>max now ready + of_int (max 1 ttl) - now\<rceil>)"
  using deadline_kept [OF assms] deadline_expired_iff [OF assms] deadline_ttl_bound [OF assms] deadline_fresh
  by (auto dest: deadline_ttl_positive)

theorem deadline_is_never_extended_witness:
  "fst (compute_wait_deadline 10 50 60 12) = 12 \<and> snd (compute_wait_deadline 10 50 60 12) \<noteq> None"
  using deadline_is_never_extended [of 12 10 50 60] by simp

text \<open>C36. A configuration written out and read back is the same configuration, for tasks and for queues,
  whatever class defaults it is read over.\<close>

theorem config_roundtrip:
  "task_from_raw dflt (task_to_raw c) = Inr c \<and> queue_from_raw qdflt (queue_to_raw qc) = Inr qc"
  by (simp add: task_raw_roundtrip queue_raw_roundtrip)

text \<open>A queue configuration that validation accepts has only known fields and leaves room for at least one
  admitted job and one slot.\<close>

lemma validated_queue_config_runs:
  assumes "queue_validate_raw fr raw = Inr ()"
  shows "\<exists>d c. raw = PDict d \<and> fr d = Inr c \<and> 1 \<le> max_admitted_jobs c \<and> 1 \<le> max_reserved c"
  using assms by (auto elim: queue_validate_raw_sound)

lemma validated_queue_config_runs_witness:
  "\<exists>c. queue_from_raw DispatchQueueConfig [(''max_reserved'', PInt 3)] = Inr c \<and> 1 \<le> max_reserved c"
proof -
  have "queue_validate_raw (queue_from_raw DispatchQueueConfig) (PDict [(''max_reserved'', PInt 3)]) = Inr ()" by code_simp
  from validated_queue_config_runs [OF this] show ?thesis by auto
qed

section \<open>Queues, settings and keys\<close>

text \<open>Building a throwaway queue for a namespace never takes that namespace, or any other, away from a
  registered queue, and it is not left in the registry.\<close>

lemma ephemeral_queue_spares_registry:
  assumes "ephemeral_queue_for_namespace uid namespace reg = Inr (q, reg')"
    and "\<forall>q\<in>set (registered_queues reg). qc_uid q \<noteq> uid"
  shows "qc_namespace q = (if namespace = [] then DEFAULT_NAMESPACE else namespace)
    \<and> (\<forall>ns owner. map_of reg ns = Some owner \<and> \<not> is_ephemeral owner \<longrightarrow> map_of reg' ns = Some owner)
    \<and> (\<forall>ns owner. map_of reg' ns = Some owner \<longrightarrow> map_of reg ns = Some owner)"
  using ephemeral_registry [OF assms] by blast

lemma ephemeral_queue_spares_registry_witness:
  "\<exists>q reg'. ephemeral_queue_for_namespace 0 ''q'' [(''q'', sample_queue)] = Inr (q, reg')
     \<and> map_of reg' ''q'' = Some sample_queue \<and> qc_namespace q = ''q''"
proof -
  obtain q reg' where r: "ephemeral_queue_for_namespace 0 ''q'' [(''q'', sample_queue)] = Inr (q, reg')"
    by (simp add: ephemeral_queue_for_namespace_def init_subclass_def sample_queue_def base_queue_class_def Let_def
        is_ephemeral_def validate_namespace_def namespace_pattern_match_def namespace_chars_def
        reserved_namespaces_def)
  have "\<forall>q\<in>set (registered_queues [(''q'', sample_queue)]). qc_uid q \<noteq> 0"
    by (simp add: registered_queues_def sample_queue_def base_queue_class_def)
  from ephemeral_queue_spares_registry [OF r this] r show ?thesis
    by (auto simp: is_ephemeral_def sample_queue_def base_queue_class_def)
qed

text \<open>Settings that were saved are what the next load returns, cached or not, provided the cached copy could
  be dropped.\<close>

lemma saved_settings_take_effect:
  assumes "settings R V D C T" and "queue_settings_save D reg ns config s = (Inr u, s1)"
    and "\<And>t. fst (cache_delete D t (settings_cache_key ''queue'' ns)) = Inr ()"
    and "get_queue D ns s1 = (Inr v, s2)"
  shows "v = (case config of PDict d \<Rightarrow> PDict d | _ \<Rightarrow> PDict [])"
  by (rule settings.saved_settings_loaded [OF assms])

lemma saved_settings_take_effect_witness:
  "\<exists>v s2. get_queue mem_db ''q'' (snd (queue_settings_save mem_db [] ''q'' (PDict [(''max_reserved'', PInt 3)])
        (mem_empty\<lparr>m_cache := [(settings_cache_key ''queue'' ''q'', PDict [])]\<rparr>))) = (Inr v, s2)
     \<and> v = PDict [(''max_reserved'', PInt 3)]"
proof -
  let ?s = "mem_empty\<lparr>m_cache := [(settings_cache_key ''queue'' ''q'', PDict [])]\<rparr>"
  let ?r = "queue_settings_save mem_db [] ''q'' (PDict [(''max_reserved'', PInt 3)]) ?s"
  have s: "?r = (Inr (), snd ?r)" by (rule pair_run) code_simp
  have g: "get_queue mem_db ''q'' (snd ?r) = (Inr (PDict [(''max_reserved'', PInt 3)]), snd (get_queue mem_db ''q'' (snd ?r)))"
    by (rule pair_run) code_simp
  have d: "fst (cache_delete mem_db t (settings_cache_key ''queue'' ''q'')) = Inr ()" for t by (simp add: mem_db_def)
  from saved_settings_take_effect [OF mem_settings.settings_axioms s d g] g show ?thesis by auto
qed



section \<open>Shards\<close>

text \<open>The connection a namespace gets is the one its route row names, whatever the two caches held as long as
  they held rows of the table; a row, once there, is never moved by resolving, and the caches still hold only
  rows of the table. Resolving fails only for a namespace that was not memoized.\<close>

lemma connection_follows_route:
  assumes "routing_table R V D C T RT A" and "route_cache_sound C A s" and "route_memo_sound A memo s"
    and "conn_for_namespace R D RT aliases ns memo s = (r, memo', s')"
  shows "A s \<subseteq>\<^sub>m A s' \<and> route_cache_sound C A s' \<and> route_memo_sound A memo' s'
    \<and> (\<forall>a. r = Inr a \<longrightarrow> A s' ns = Some a) \<and> (\<forall>e. r = Inl e \<longrightarrow> e = RoutingError \<and> map_of memo ns = None)"
  using routing_table.conn_for_namespace_row [OF assms(1,4,2,3)] assms(2)
  by (auto simp: routing_table.grows_def [OF assms(1)])

lemma connection_follows_route_witness:
  "\<exists>s'. conn_for_namespace mem_env mem_db mem_routes [''r1'', ''r2''] ''q'' [] mem_empty = (Inr ''r1'', [(''q'', ''r1'', 30)], s')
     \<and> mem_route_map s' ''q'' = Some ''r1''"
proof -
  let ?r = "conn_for_namespace mem_env mem_db mem_routes [''r1'', ''r2''] ''q'' [] mem_empty"
  have r: "?r = (Inr ''r1'', [(''q'', ''r1'', 30)], snd (snd ?r))" by (simp add: prod_eq_iff) code_simp
  have "route_cache_sound mem_cache_map mem_route_map mem_empty"
    by (simp add: route_cache_sound_def mem_cache_map_def mem_empty_def)
  moreover have "route_memo_sound mem_route_map [] mem_empty" by (simp add: route_memo_sound_def)
  ultimately show ?thesis using connection_follows_route [OF mem_routing.routing_table_axioms _ _ r] r by blast
qed

text \<open>C39. When moving a namespace to another shard reports that it moved, its row names the new shard, no process
  that moved it still has the old one memoized, and no key of the namespace is left on the old shard.\<close>

theorem remapped_namespace_moved:
  assumes "remapping R V D C T RT A Q W"
    and "remap_namespace Q D RT aliases ns alias_name mode False seconds wait1 wait2 memo s w = (Inr res, memo', s', w')"
    and "remap_moved res"
  shows "A s' ns = Some alias_name \<and> alias_name \<in> set aliases \<and> remap_from res \<noteq> alias_name \<and> map_of memo' ns = None
    \<and> (\<forall>k. starts_with k (namespace_prefix ns) \<longrightarrow> \<not> present (W (w' (remap_from res))) k)"
  using remapping.remap_done [OF assms] by blast

definition sample_routed :: mem where
  "sample_routed = mem_empty\<lparr>m_rows := [(''route'', [(''q'', PStr ''r1'')])]\<rparr>"

theorem remapped_namespace_moved_witness:
  "\<exists>res memo' s' w'. remap_namespace mem_env mem_db mem_routes [''r1'', ''r2''] ''q'' ''r2'' ''drop'' False (Some 30)
      (\<lambda>w. w) (\<lambda>w. w) [] sample_routed (\<lambda>_. sample_enqueued) = (Inr res, memo', s', w')
     \<and> mem_route_map s' ''q'' = Some ''r2'' \<and> \<not> present (mem_view (w' (remap_from res))) (pending_key ''q'')"
proof -
  let ?r = "remap_namespace mem_env mem_db mem_routes [''r1'', ''r2''] ''q'' ''r2'' ''drop'' False (Some 30)
      (\<lambda>w. w) (\<lambda>w. w) [] sample_routed (\<lambda>_. sample_enqueued)"
  have "case fst ?r of Inl e \<Rightarrow> False | Inr res \<Rightarrow> remap_moved res" by code_simp
  then obtain res where "fst ?r = Inr res" and m: "remap_moved res" by (auto split: sum.splits)
  then have r: "?r = (Inr res, fst (snd ?r), fst (snd (snd ?r)), snd (snd (snd ?r)))" by (simp add: prod_eq_iff)
  have "starts_with (pending_key ''q'') (namespace_prefix ''q'')" by code_simp
  with remapped_namespace_moved [OF mem_remap.remapping_axioms r m] r show ?thesis by blast
qed

section \<open>The name service lane\<close>

text \<open>Calls that pass the gate of the name service are at least the reciprocal of the allowed rate apart: the
  \<open>j\<close>-th call starts no earlier than \<open>j - i\<close> such intervals after the \<open>i\<close>-th, whenever they were asked for.\<close>

lemma call_gate_spaces_calls:
  assumes "i < j" and "j < length ts" and "0 < qps"
  shows "gate_run ts (CallIntervalGate qps) ! i + of_nat (j - i) / of_int qps \<le> gate_run ts (CallIntervalGate qps) ! j"
  using gate_run_apart [OF assms(1,2), of "CallIntervalGate qps"] assms(3) by (simp add: CallIntervalGate_def)

lemma call_gate_spaces_calls_witness:
  "gate_run [1, 1, 1] (CallIntervalGate NAMESERVICE_CALL_QPS) ! 0 + of_nat (2 - 0) / of_int NAMESERVICE_CALL_QPS
   \<le> gate_run [1, 1, 1] (CallIntervalGate NAMESERVICE_CALL_QPS) ! 2"
  by (rule call_gate_spaces_calls) (simp_all add: NAMESERVICE_CALL_QPS_def)

section \<open>Histograms\<close>

text \<open>C40. The histograms kept as one counter per bin, raised batch by batch, are the histograms of all observations:
  whatever sequence of batches was recorded into whatever stages, on a connection that answers, reading gives for
  every stage and boundary the number of its observations that do not exceed the boundary, their count and sum.\<close>

theorem histograms_are_reference:
  assumes "redis_up R V" and "hs (V s) (histograms_key ns) = Map.empty"
  shows "fst (read_histograms R ns (record_all R ns recs s))
    = Inr (map (\<lambda>(stage, bounds). (stage, reference_histogram bounds (observations stage recs))) HISTOGRAM_BUCKETS)"
  by (rule redis_up.histograms_reference [OF assms])

theorem histograms_are_reference_witness:
  "\<exists>h. fst (read_histograms mem_up_env ''q'' (record_all mem_up_env ''q'' [(''pump_seconds'', [3, 1 / 2], 0), (''pump_seconds'', [7], 10)] mem_empty))
       = Inr h
     \<and> map_option hist_count (map_of h ''pump_seconds'') = Some 3"
proof -
  have "hs (mem_view mem_empty) (histograms_key ''q'') = Map.empty" by (simp add: mem_view_def mem_empty_def sub_def)
  note e = histograms_are_reference [OF mem_up.redis_up_axioms this, of "[(''pump_seconds'', [3, 1 / 2], 0), (''pump_seconds'', [7], 10)]"]
  have "map_option hist_count (map_of (map (\<lambda>(stage, bounds). (stage, reference_histogram bounds
      (observations stage [(''pump_seconds'', [3, 1 / 2], 0), (''pump_seconds'', [7], 10)]))) HISTOGRAM_BUCKETS) ''pump_seconds'') = Some 3"
    by (simp add: HISTOGRAM_BUCKETS_def reference_histogram_def observations_def)
  with e show ?thesis by blast
qed

end
